(* ===== verification/Js_Base.thy ===== *)
theory Js_Base
  imports Main "HOL-Library.Sublist" "HOL-Library.AList"
begin

text \<open>
  The prelude: the values and library operations of JavaScript that the modelled code uses, and the
  generic lemmas the components share.

  A JavaScript string is the list of its UTF-16 code units, each a number, as \<open>charCodeAt\<close> reads
  them; the code compares code units beyond Latin-1 (the pilcrow of a section header, the ellipsis,
  the byte order mark), so Isabelle's 8-bit \<open>char\<close> would not do. A thrown exception is the left side
  of a sum. A \<open>Map\<close> is an association list in insertion order, a \<open>Set\<close> a distinct list in
  insertion order.
\<close>

named_theorems js_simps "evaluation of the JavaScript string and map operations"

section \<open>Results: thrown errors as the left side of a sum\<close>

definition bindE :: "'e + 'a \<Rightarrow> ('a \<Rightarrow> 'e + 'b) \<Rightarrow> 'e + 'b" where
  "bindE m f = (case m of Inl e \<Rightarrow> Inl e | Inr x \<Rightarrow> f x)"

lemma bindE_simps [simp]:
  "bindE (Inl e) f = Inl e"
  "bindE (Inr x) f = f x"
  by (simp_all add: bindE_def)

lemma bindE_eq_Inr: "bindE m f = Inr y \<longleftrightarrow> (\<exists>x. m = Inr x \<and> f x = Inr y)"
  by (cases m) auto

lemma bindE_eq_Inl: "bindE m f = Inl e \<longleftrightarrow> m = Inl e \<or> (\<exists>x. m = Inr x \<and> f x = Inl e)"
  by (cases m) auto

text \<open>A \<open>for ... of\<close> loop whose body may throw.\<close>

fun foldE :: "('a \<Rightarrow> 's \<Rightarrow> 'e + 's) \<Rightarrow> 'a list \<Rightarrow> 's \<Rightarrow> 'e + 's" where
  "foldE f [] s = Inr s"
| "foldE f (x # xs) s = bindE (f x s) (foldE f xs)"

lemma foldE_append: "foldE f (xs @ ys) s = bindE (foldE f xs s) (foldE f ys)"
proof (induction xs arbitrary: s)
  case Nil
  then show ?case by simp
next
  case (Cons x xs)
  then show ?case by (cases "f x s") simp_all
qed

lemma foldE_invariant:
  assumes "foldE f xs s = Inr s'" and "P s"
    and "\<And>x s s'. x \<in> set xs \<Longrightarrow> P s \<Longrightarrow> f x s = Inr s' \<Longrightarrow> P s'"
  shows "P s'"
  using assms
proof (induction xs arbitrary: s)
  case Nil
  then show ?case by simp
next
  case (Cons x xs)
  then obtain t where t: "f x s = Inr t" "foldE f xs t = Inr s'"
    by (auto simp: bindE_eq_Inr)
  have "P t" by (rule Cons.prems(3) [OF _ Cons.prems(2) t(1)]) simp
  then show ?case by (rule Cons.IH [OF t(2)]) (rule Cons.prems(3), auto)
qed

fun mapE :: "('a \<Rightarrow> 'e + 'b) \<Rightarrow> 'a list \<Rightarrow> 'e + 'b list" where
  "mapE f [] = Inr []"
| "mapE f (x # xs) = bindE (f x) (\<lambda>y. bindE (mapE f xs) (\<lambda>ys. Inr (y # ys)))"

lemma mapE_eq_Inr:
  "mapE f xs = Inr ys \<longleftrightarrow> list_all2 (\<lambda>x y. f x = Inr y) xs ys"
proof (induction xs arbitrary: ys)
  case Nil
  then show ?case by auto
next
  case (Cons x xs)
  then show ?case by (auto simp: bindE_eq_Inr list_all2_Cons1)
qed

section \<open>Strings\<close>

lemma length_dropWhile_less_Suc [termination_simp]: "length (dropWhile P xs) < Suc (length xs)"
  by (simp add: le_imp_less_Suc length_dropWhile_le)

type_synonym jstring = "nat list"

definition js :: "string \<Rightarrow> jstring" where
  "js s = map of_char s"

lemma js_simps_base [simp]:
  "js [] = []"
  "js (c # cs) = of_char c # js cs"
  by (simp_all add: js_def)

abbreviation CHAR_LINE_FEED :: nat where "CHAR_LINE_FEED \<equiv> 10"
abbreviation CHAR_CARRIAGE_RETURN :: nat where "CHAR_CARRIAGE_RETURN \<equiv> 13"

text \<open>
  \<open>isJsSpace\<close> is the set that \<open>trim\<close>, \<open>trimStart\<close>, \<open>trimEnd\<close> and the regular expression class
  \<open>\s\<close> share: the white space and line terminator code units of the language.
\<close>

definition isJsSpace :: "nat \<Rightarrow> bool" where
  "isJsSpace c \<longleftrightarrow> (9 \<le> c \<and> c \<le> 13) \<or> c = 32 \<or> c = 160 \<or> c = 5760 \<or> (8192 \<le> c \<and> c \<le> 8202)
     \<or> c = 8232 \<or> c = 8233 \<or> c = 8239 \<or> c = 8287 \<or> c = 12288 \<or> c = 65279"

definition isJsDigit :: "nat \<Rightarrow> bool" where
  "isJsDigit c \<longleftrightarrow> 48 \<le> c \<and> c \<le> 57"

definition trimStart :: "jstring \<Rightarrow> jstring" where
  "trimStart s = dropWhile isJsSpace s"

definition trimEnd :: "jstring \<Rightarrow> jstring" where
  "trimEnd s = rev (dropWhile isJsSpace (rev s))"

definition trim :: "jstring \<Rightarrow> jstring" where
  "trim s = trimEnd (trimStart s)"

definition startsWith :: "jstring \<Rightarrow> jstring \<Rightarrow> bool" where
  "startsWith s p \<longleftrightarrow> take (length p) s = p"

definition startsWithAt :: "jstring \<Rightarrow> jstring \<Rightarrow> nat \<Rightarrow> bool" where
  "startsWithAt s p i \<longleftrightarrow> take (length p) (drop i s) = p"

definition endsWith :: "jstring \<Rightarrow> jstring \<Rightarrow> bool" where
  "endsWith s p \<longleftrightarrow> length p \<le> length s \<and> drop (length s - length p) s = p"

definition jslice :: "jstring \<Rightarrow> nat \<Rightarrow> nat \<Rightarrow> jstring" where
  "jslice s a b = take (b - a) (drop a s)"

lemma startsWith_iff_prefix: "startsWith s p \<longleftrightarrow> prefix p s"
  by (metis append_eq_conv_conj append_take_drop_id prefix_def startsWith_def)

lemma startsWith_append [simp]: "startsWith (p @ s) p"
  by (simp add: startsWith_def)

lemma length_jslice [simp]: "length (jslice s a b) = min (b - a) (length s - a)"
  by (simp add: jslice_def)

text \<open>\<open>indexOf\<close>: the first position where a string occurs; nothing stands for \<open>-1\<close>.\<close>

fun indexOf :: "jstring \<Rightarrow> jstring \<Rightarrow> nat option" where
  "indexOf s p =
     (if startsWith s p then Some 0
      else (case s of [] \<Rightarrow> None | _ # cs \<Rightarrow> map_option Suc (indexOf cs p)))"

declare indexOf.simps [simp del]

lemma indexOf_simps [simp]:
  "indexOf [] p = (if p = [] then Some 0 else None)"
  "indexOf (c # cs) p = (if startsWith (c # cs) p then Some 0 else map_option Suc (indexOf cs p))"
  by (subst indexOf.simps, auto simp: startsWith_def)+

lemma indexOf_single: "indexOf s [c] = None \<longleftrightarrow> c \<notin> set s"
  by (induction s) (auto simp: startsWith_def)

text \<open>\<open>split\<close> at one code unit, and \<open>join\<close>.\<close>

fun splitOn :: "nat \<Rightarrow> jstring \<Rightarrow> jstring list" where
  "splitOn c [] = [[]]"
| "splitOn c (x # xs) =
     (if x = c then [] # splitOn c xs
      else (case splitOn c xs of [] \<Rightarrow> [[x]] | l # ls \<Rightarrow> (x # l) # ls))"

fun joinOn :: "jstring \<Rightarrow> jstring list \<Rightarrow> jstring" where
  "joinOn sep [] = []"
| "joinOn sep [l] = l"
| "joinOn sep (l # ls) = l @ sep @ joinOn sep ls"

abbreviation splitLines :: "jstring \<Rightarrow> jstring list" where
  "splitLines s \<equiv> splitOn CHAR_LINE_FEED s"

abbreviation joinLines :: "jstring list \<Rightarrow> jstring" where
  "joinLines ls \<equiv> joinOn [CHAR_LINE_FEED] ls"

lemma splitOn_not_Nil [simp]: "splitOn c s \<noteq> []"
  by (induction s) (auto split: list.splits)

lemma length_splitOn_pos [simp]: "0 < length (splitOn c s)"
  by simp

lemma joinOn_Cons: "ls \<noteq> [] \<Longrightarrow> joinOn sep (l # ls) = l @ sep @ joinOn sep ls"
  by (cases ls) simp_all

lemma joinOn_Cons_Cons: "joinOn sep ((x # l) # ls) = x # joinOn sep (l # ls)"
  by (cases ls) simp_all

lemma joinOn_splitOn [simp]: "joinOn [c] (splitOn c s) = s"
proof (induction s)
  case Nil
  then show ?case by simp
next
  case (Cons x xs)
  then show ?case
    by (cases "splitOn c xs" rule: list.exhaust)
      (auto simp: joinOn_Cons joinOn_Cons_Cons neq_Nil_conv split: list.splits)
qed

lemma splitOn_no_sep: "c \<notin> set l \<Longrightarrow> splitOn c l = [l]"
  by (induction l) auto

lemma splitOn_append_sep:
  "c \<notin> set l \<Longrightarrow> splitOn c (l @ c # s) = l # splitOn c s"
  by (induction l) auto

lemma splitOn_joinOn:
  assumes "ls \<noteq> []" and "\<And>l. l \<in> set ls \<Longrightarrow> c \<notin> set l"
  shows "splitOn c (joinOn [c] ls) = ls"
  using assms
proof (induction ls)
  case Nil
  then show ?case by simp
next
  case (Cons l ls)
  then show ?case
    by (cases ls) (auto simp: splitOn_no_sep splitOn_append_sep)
qed

lemma splitOn_elem_no_sep: "l \<in> set (splitOn c s) \<Longrightarrow> c \<notin> set l"
  by (induction s arbitrary: l) (auto split: list.splits if_splits)

lemma splitOn_append:
  "splitOn c (a @ b) = butlast (splitOn c a) @ splitOn c (last (splitOn c a) @ b)"
  by (induction a) (auto split: list.splits)

lemma splitOn_sep: "splitOn c (a @ c # b) = splitOn c a @ splitOn c b"
  by (induction a) (auto split: list.splits)

lemma inj_splitOn: "splitOn c s = splitOn c t \<longleftrightarrow> s = t"
  by (metis joinOn_splitOn)

text \<open>\<open>split(/\r?\n/)\<close>.\<close>

fun splitCRLF :: "jstring \<Rightarrow> jstring list" where
  "splitCRLF [] = [[]]"
| "splitCRLF (x # xs) =
     (if x = CHAR_LINE_FEED then [] # splitCRLF xs
      else if x = CHAR_CARRIAGE_RETURN \<and> xs \<noteq> [] \<and> hd xs = CHAR_LINE_FEED then splitCRLF xs
      else (case splitCRLF xs of [] \<Rightarrow> [[x]] | l # ls \<Rightarrow> (x # l) # ls))"

lemma splitCRLF_not_Nil [simp]: "splitCRLF s \<noteq> []"
  by (induction s) (auto split: list.splits)

lemma splitCRLF_no_CR: "CHAR_CARRIAGE_RETURN \<notin> set s \<Longrightarrow> splitCRLF s = splitLines s"
  by (induction s) auto

text \<open>Decimal numerals, as string interpolation of a non-negative integer prints them.\<close>

fun natToString :: "nat \<Rightarrow> jstring" where
  "natToString n = (if n < 10 then [48 + n] else natToString (n div 10) @ [48 + n mod 10])"

declare natToString.simps [simp del]

lemma natToString_digits: "c \<in> set (natToString n) \<Longrightarrow> isJsDigit c"
proof (induction n rule: natToString.induct)
  case (1 n)
  then show ?case
    by (subst (asm) natToString.simps) (auto simp: isJsDigit_def split: if_splits)
qed

lemma natToString_not_Nil [simp]: "natToString n \<noteq> []"
  by (subst natToString.simps) simp

lemma hd_natToString: "0 < n \<Longrightarrow> 48 < hd (natToString n) \<and> hd (natToString n) \<le> 57"
proof (induction n rule: natToString.induct)
  case (1 n)
  then show ?case by (subst (1 2) natToString.simps) auto
qed

text \<open>Reading a digit string back.\<close>

definition digitsValue :: "jstring \<Rightarrow> nat" where
  "digitsValue ds = fold (\<lambda>d acc. acc * 10 + (d - 48)) ds 0"

lemma digitsValue_natToString [simp]: "digitsValue (natToString n) = n"
proof (induction n rule: natToString.induct)
  case (1 n)
  then show ?case
    by (subst natToString.simps) (auto simp: digitsValue_def)
qed

section \<open>Maps and sets in insertion order\<close>

type_synonym ('k, 'v) jsmap = "('k \<times> 'v) list"

definition mapHas :: "('k, 'v) jsmap \<Rightarrow> 'k \<Rightarrow> bool" where
  "mapHas m k \<longleftrightarrow> k \<in> set (map fst m)"

abbreviation mapGet :: "('k, 'v) jsmap \<Rightarrow> 'k \<Rightarrow> 'v option" where
  "mapGet m k \<equiv> map_of m k"

fun mapSet :: "'k \<Rightarrow> 'v \<Rightarrow> ('k, 'v) jsmap \<Rightarrow> ('k, 'v) jsmap" where
  "mapSet k v [] = [(k, v)]"
| "mapSet k v (p # ps) = (if fst p = k then (k, v) # ps else p # mapSet k v ps)"

definition mapDelete :: "'k \<Rightarrow> ('k, 'v) jsmap \<Rightarrow> ('k, 'v) jsmap" where
  "mapDelete k m = filter (\<lambda>p. fst p \<noteq> k) m"

lemma mapGet_mapSet [simp]: "mapGet (mapSet k v m) k' = (if k' = k then Some v else mapGet m k')"
  by (induction m) auto

lemma mapGet_mapDelete [simp]: "mapGet (mapDelete k m) k' = (if k' = k then None else mapGet m k')"
  by (induction m) (auto simp: mapDelete_def)

lemma keys_mapSet:
  "map fst (mapSet k v m) = (if k \<in> set (map fst m) then map fst m else map fst m @ [k])"
  by (induction m) auto

lemma distinct_mapSet: "distinct (map fst m) \<Longrightarrow> distinct (map fst (mapSet k v m))"
  by (simp add: keys_mapSet)

definition setAdd :: "'a \<Rightarrow> 'a list \<Rightarrow> 'a list" where
  "setAdd x xs = (if x \<in> set xs then xs else xs @ [x])"

lemma set_setAdd [simp]: "set (setAdd x xs) = insert x (set xs)"
  by (auto simp: setAdd_def)

lemma distinct_setAdd [simp]: "distinct (setAdd x xs) = distinct xs"
  by (auto simp: setAdd_def)

end
