(* ===== verification/Hl_Normalize.thy ===== *)
theory Hl_Normalize
  imports Js_Base
begin

text \<open>
  packages/hashline/src/normalize.ts: line ending detection, normalisation to LF and restoration,
  and the byte order mark.
\<close>

datatype line_ending = CRLF | LF

definition BOM :: nat where "BOM = 65279"

definition detectLineEnding :: "jstring \<Rightarrow> line_ending" where
  "detectLineEnding content =
     (let crlfIdx = indexOf content [CHAR_CARRIAGE_RETURN, CHAR_LINE_FEED];
          lfIdx = indexOf content [CHAR_LINE_FEED]
      in (case lfIdx of None \<Rightarrow> LF
          | Some l \<Rightarrow> (case crlfIdx of None \<Rightarrow> LF
              | Some c \<Rightarrow> if c < l then CRLF else LF)))"

fun normalizeToLF :: "jstring \<Rightarrow> jstring" where
  "normalizeToLF [] = []"
| "normalizeToLF (c # cs) =
     (if c = CHAR_CARRIAGE_RETURN
      then CHAR_LINE_FEED # normalizeToLF (if cs \<noteq> [] \<and> hd cs = CHAR_LINE_FEED then tl cs else cs)
      else c # normalizeToLF cs)"

definition restoreLineEndings :: "jstring \<Rightarrow> line_ending \<Rightarrow> jstring" where
  "restoreLineEndings text ending =
     (case ending of
        CRLF \<Rightarrow> concat (map (\<lambda>c. if c = CHAR_LINE_FEED then [CHAR_CARRIAGE_RETURN, CHAR_LINE_FEED] else [c]) text)
      | LF \<Rightarrow> text)"

record bom_result =
  bomBom :: jstring
  bomText :: jstring

definition stripBom :: "jstring \<Rightarrow> bom_result" where
  "stripBom content =
     (if startsWith content [BOM] then \<lparr>bomBom = [BOM], bomText = drop 1 content\<rparr>
      else \<lparr>bomBom = [], bomText = content\<rparr>)"

section \<open>Lemmas\<close>

lemma normalizeToLF_no_CR: "CHAR_CARRIAGE_RETURN \<notin> set (normalizeToLF s)"
  by (induction s rule: normalizeToLF.induct) auto

lemma normalizeToLF_id: "CHAR_CARRIAGE_RETURN \<notin> set s \<Longrightarrow> normalizeToLF s = s"
  by (induction s rule: normalizeToLF.induct) auto

lemma restoreLineEndings_simps [simp]:
  "restoreLineEndings s LF = s"
  "restoreLineEndings [] CRLF = []"
  "restoreLineEndings (c # cs) CRLF =
     (if c = CHAR_LINE_FEED then CHAR_CARRIAGE_RETURN # CHAR_LINE_FEED # restoreLineEndings cs CRLF
      else c # restoreLineEndings cs CRLF)"
  by (simp_all add: restoreLineEndings_def)

text \<open>Writing LF text back with either ending and reading it again gives the text.\<close>

lemma normalize_restore:
  assumes "CHAR_CARRIAGE_RETURN \<notin> set s"
  shows "normalizeToLF (restoreLineEndings s e) = s"
proof (cases e)
  case LF
  with assms show ?thesis by (simp add: normalizeToLF_id)
next
  case CRLF
  have "normalizeToLF (restoreLineEndings s CRLF) = s" using assms by (induction s) auto
  with CRLF show ?thesis by simp
qed

text \<open>
  A text is uniform in an ending when all its carriage returns and line feeds come from that ending.
\<close>

fun uniformCRLF :: "jstring \<Rightarrow> bool" where
  "uniformCRLF [] = True"
| "uniformCRLF (c # cs) =
     (if c = CHAR_CARRIAGE_RETURN then cs \<noteq> [] \<and> hd cs = CHAR_LINE_FEED \<and> uniformCRLF (tl cs)
      else c \<noteq> CHAR_LINE_FEED \<and> uniformCRLF cs)"

definition uniformEnding :: "line_ending \<Rightarrow> jstring \<Rightarrow> bool" where
  "uniformEnding e s = (case e of CRLF \<Rightarrow> uniformCRLF s | LF \<Rightarrow> CHAR_CARRIAGE_RETURN \<notin> set s)"

lemma restore_normalize:
  "uniformEnding e s \<Longrightarrow> restoreLineEndings (normalizeToLF s) e = s"
proof (cases e)
  case LF
  then show "uniformEnding e s \<Longrightarrow> ?thesis" by (simp add: uniformEnding_def normalizeToLF_id)
next
  case CRLF
  have "uniformCRLF s \<Longrightarrow> restoreLineEndings (normalizeToLF s) CRLF = s"
    by (induction s rule: normalizeToLF.induct) (auto simp: neq_Nil_conv)
  with CRLF show "uniformEnding e s \<Longrightarrow> ?thesis" by (simp add: uniformEnding_def)
qed

lemma detect_uniform_LF: "CHAR_CARRIAGE_RETURN \<notin> set s \<Longrightarrow> detectLineEnding s = LF"
proof -
  assume "CHAR_CARRIAGE_RETURN \<notin> set s"
  then have "indexOf s [CHAR_CARRIAGE_RETURN, CHAR_LINE_FEED] = None"
    by (induction s) (auto simp: startsWith_def)
  then show ?thesis by (simp add: detectLineEnding_def split: option.splits)
qed

lemma uniformCRLF_index:
  "uniformCRLF s \<Longrightarrow> indexOf s [CHAR_LINE_FEED] =
     map_option Suc (indexOf s [CHAR_CARRIAGE_RETURN, CHAR_LINE_FEED])"
  by (induction s rule: uniformCRLF.induct)
    (auto simp: startsWith_def neq_Nil_conv split: if_splits)

lemma detect_uniform_CRLF:
  "uniformCRLF s \<Longrightarrow> CHAR_LINE_FEED \<in> set s \<Longrightarrow> detectLineEnding s = CRLF"
proof -
  assume u: "uniformCRLF s" and "CHAR_LINE_FEED \<in> set s"
  then have "indexOf s [CHAR_LINE_FEED] \<noteq> None" by (simp add: indexOf_single)
  with uniformCRLF_index [OF u] show ?thesis by (auto simp: detectLineEnding_def)
qed

lemma uniform_without_LF:
  "uniformCRLF s \<Longrightarrow> CHAR_LINE_FEED \<notin> set s \<Longrightarrow> CHAR_CARRIAGE_RETURN \<notin> set s"
  by (induction s rule: uniformCRLF.induct) (auto simp: neq_Nil_conv split: if_splits)

text \<open>A file uniform in either ending survives the round trip through LF with the detected ending.\<close>

lemma detect_restore:
  assumes "uniformEnding e s"
  shows "restoreLineEndings (normalizeToLF s) (detectLineEnding s) = s"
proof (cases "detectLineEnding s")
  case LF
  have "CHAR_CARRIAGE_RETURN \<notin> set s"
    using assms LF detect_uniform_CRLF [of s] uniform_without_LF [of s]
    by (cases e) (auto simp: uniformEnding_def)
  then show ?thesis using LF restore_normalize [of LF s] by (simp add: uniformEnding_def)
next
  case CRLF
  then have "uniformEnding CRLF s"
    using assms detect_uniform_LF [of s] by (cases e) (auto simp: uniformEnding_def)
  with CRLF restore_normalize show ?thesis by simp
qed

lemma stripBom_append [simp]: "bomBom (stripBom s) @ bomText (stripBom s) = s"
  by (cases s) (auto simp: stripBom_def startsWith_def)

text \<open>Reading a file and writing it back unchanged gives the same file, for every file uniform in its line
  ending, with or without a byte order mark: the ending detected is the one that restores it.
\<close>

theorem file_text_roundtrip:
  assumes "uniformEnding e (bomText (stripBom raw))"
  shows "bomBom (stripBom raw) @
     restoreLineEndings (normalizeToLF (bomText (stripBom raw))) (detectLineEnding (bomText (stripBom raw))) = raw"
  using detect_restore [OF assms] by simp

theorem file_text_roundtrip_witness:
  "let raw = BOM # js ''a'' @ [13, 10] in
   bomBom (stripBom raw) @
     restoreLineEndings (normalizeToLF (bomText (stripBom raw))) (detectLineEnding (bomText (stripBom raw))) = raw"
proof -
  have "uniformEnding CRLF (bomText (stripBom (BOM # js ''a'' @ [13, 10])))"
    by (simp add: stripBom_def startsWith_def uniformEnding_def)
  from file_text_roundtrip [OF this] show ?thesis by simp
qed

end
