(* ===== verification/Hl_Types.thy ===== *)
theory Hl_Types
  imports Js_Base
begin

text \<open>
  The data types of the hashline package (packages/hashline/src/types.ts, the tokens and targets of
  tokenizer.ts, the message constants of messages.ts). An anchor is its line number, 1-indexed. A
  thrown \<open>Error\<close> is a constructor of \<open>hl_error\<close> that carries what its message interpolates; a
  warning text is a constructor of \<open>hl_warning\<close>.
\<close>

section \<open>Anchors, cursors and edits\<close>

type_synonym anchor = nat

datatype cursor =
    Bof
  | Eof
  | BeforeAnchor anchor
  | AfterAnchor anchor

text \<open>
  The \<open>mode\<close> of an insert is the flag \<open>ereplacement\<close>: true for the mode \<open>replacement\<close>, false
  when the field is absent. The optional field \<open>oldAssertion\<close> of a delete is never written or read
  and is left out.
\<close>

datatype edit =
    InsertEdit (ecursor: cursor) (etext: jstring) (elineNum: nat) (eindex: nat) (ereplacement: bool)
  | DeleteEdit (eanchor: anchor) (elineNum: nat) (eindex: nat)
  | BlockEdit (eanchor: anchor) (epayloads: "jstring list") (elineNum: nat) (eindex: nat)

fun isDelete :: "edit \<Rightarrow> bool" where
  "isDelete (DeleteEdit _ _ _) = True"
| "isDelete _ = False"

fun isBlock :: "edit \<Rightarrow> bool" where
  "isBlock (BlockEdit _ _ _ _) = True"
| "isBlock _ = False"

fun isInsert :: "edit \<Rightarrow> bool" where
  "isInsert (InsertEdit _ _ _ _ _) = True"
| "isInsert _ = False"

record parsed_range =
  rangeStart :: anchor
  rangeEnd :: anchor

record block_span =
  spanStart :: nat
  spanEnd :: nat

text \<open>
  A block resolver is supplied by the host: it maps a path, a text and a line to the span of the
  syntactic block that begins on the line, or to nothing.
\<close>

type_synonym block_resolver = "jstring \<Rightarrow> jstring \<Rightarrow> nat \<Rightarrow> block_span option"

section \<open>Hunk targets and tokens\<close>

datatype block_target =
    TReplace parsed_range
  | TBlock anchor
  | TDelete parsed_range
  | TDeleteBlock anchor
  | TInsertBefore anchor
  | TInsertAfter anchor
  | TBof
  | TEof

datatype token =
    Blank (tlineNum: nat)
  | EnvelopeBegin (tlineNum: nat)
  | EnvelopeEnd (tlineNum: nat)
  | Abort (tlineNum: nat)
  | Header (tlineNum: nat) (tpath: jstring) (thash: "jstring option")
  | OpBlock (tlineNum: nat) (ttarget: block_target)
  | PayloadLiteral (tlineNum: nat) (ttext: jstring)
  | Raw (tlineNum: nat) (ttext: jstring)

section \<open>Errors and warnings\<close>

text \<open>What \<open>detectApplyPatchContamination\<close> recognises in a body row.\<close>

datatype contamination =
    ApplyPatchSentinel jstring
  | UnifiedDiffHeader
  | BracketedHunkHeader jstring
  | DeleteHasColon
  | NeedsVerb jstring
  | BareRange jstring jstring jstring

datatype fs_error =
    NotFound jstring
  | OtherFsError jstring

record mismatch_details =
  mmPath :: "jstring option"
  mmExpected :: jstring
  mmActual :: jstring
  mmFileLines :: "jstring list"
  mmAnchorLines :: "nat list option"
  mmRecognized :: "bool option"

datatype hl_error =
    TokenizerClosed
  | ExpectedLineNumber nat jstring
  | RangeEndsBeforeStart nat nat nat
  | Contaminated nat contamination
  | PayloadWithoutHunk nat jstring
  | DeleteTakesNoBody nat
  | DeleteBlockTakesNoBody nat
  | MinusRowRejected nat
  | EmptyBlock nat
  | EmptyInsert nat
  | AnchorTargetedTwice nat nat nat
  | UnresolvedBlockInternal
  | LineDoesNotExist nat nat
  | BlockUnresolved nat nat
  | BlockResolverUnavailable nat
  | HeaderMalformed jstring
  | HeaderPathEmpty
  | FirstLineUnifiedDiff
  | FirstLineNotHeader jstring
  | ConflictingTags jstring jstring jstring
  | NoSections
  | MissingSnapshotTag jstring
  | FileNotFound jstring
  | MismatchError mismatch_details
  | DuplicateTarget jstring jstring
  | NoChanges jstring
  | FsFailure fs_error
  | InvalidLineReference jstring
  | LineNumberTooSmall nat jstring

datatype hl_warning =
    BareBodyAutoPiped
  | BoundaryEchoRepaired nat nat nat
  | DroppedTrailingPayload nat nat
  | DroppedLeadingPayload nat nat
  | KeptClosers nat nat
  | RecoveryExternal
  | RecoverySessionChain
  | RecoverySessionReplay
  | HeadtailDrift

text \<open>The result of applying edits to a text body.\<close>

record apply_result =
  arText :: jstring
  arFirstChanged :: "nat option"
  arWarnings :: "hl_warning list"

section \<open>The anchors of an edit\<close>

fun getCursorAnchors :: "cursor \<Rightarrow> anchor list" where
  "getCursorAnchors (BeforeAnchor a) = [a]"
| "getCursorAnchors (AfterAnchor a) = [a]"
| "getCursorAnchors Bof = []"
| "getCursorAnchors Eof = []"

text \<open>
  An edit anchors to concrete content when it is a delete, a block edit, or an insert before or
  after a line.
\<close>

fun editAnchored :: "edit \<Rightarrow> bool" where
  "editAnchored (DeleteEdit _ _ _) = True"
| "editAnchored (BlockEdit _ _ _ _) = True"
| "editAnchored (InsertEdit c _ _ _ _) = (getCursorAnchors c \<noteq> [])"

definition hasAnchorScopedEdit :: "edit list \<Rightarrow> bool" where
  "hasAnchorScopedEdit edits \<longleftrightarrow> list_ex editAnchored edits"

lemma isDelete_iff: "isDelete e \<longleftrightarrow> (\<exists>a l i. e = DeleteEdit a l i)"
  by (cases e) auto

lemma isBlock_iff: "isBlock e \<longleftrightarrow> (\<exists>a ps l i. e = BlockEdit a ps l i)"
  by (cases e) auto

end
