(* ===== verification/Js_Regex.thy ===== *)
theory Js_Regex
  imports Js_Base
begin

text \<open>
  The regular expressions of the modelled code, as the language matches them: a backtracking matcher
  that lists every way to match from a position, the preferred one first. Greedy quantifiers of the
  code repeat a single character class, so the matcher is structural and always terminates. A
  position is the code unit before it (for \<open>\b\<close>) and the rest of the string.
\<close>

datatype regex =
    RClass "nat \<Rightarrow> bool"
  | RSeq regex regex
  | RAlt regex regex
  | ROpt regex
  | RStar "nat \<Rightarrow> bool"
  | RPlus "nat \<Rightarrow> bool"
  | RLazyPlus "nat \<Rightarrow> bool"
  | RGroup regex
  | REnd
  | RNotAhead regex
  | RWordBoundary
  | REmpty

fun starGreedy :: "(nat \<Rightarrow> bool) \<Rightarrow> nat option \<Rightarrow> jstring \<Rightarrow> (jstring list \<times> nat option \<times> jstring) list" where
  "starGreedy p prev [] = [([], prev, [])]"
| "starGreedy p prev (c # cs) =
     (if p c then starGreedy p (Some c) cs @ [([], prev, c # cs)] else [([], prev, c # cs)])"

fun starLazy :: "(nat \<Rightarrow> bool) \<Rightarrow> nat option \<Rightarrow> jstring \<Rightarrow> (jstring list \<times> nat option \<times> jstring) list" where
  "starLazy p prev [] = [([], prev, [])]"
| "starLazy p prev (c # cs) =
     ([], prev, c # cs) # (if p c then starLazy p (Some c) cs else [])"

definition isWordChar :: "nat \<Rightarrow> bool" where
  "isWordChar c \<longleftrightarrow> (48 \<le> c \<and> c \<le> 57) \<or> (65 \<le> c \<and> c \<le> 90) \<or> c = 95 \<or> (97 \<le> c \<and> c \<le> 122)"

definition atWordBoundary :: "nat option \<Rightarrow> jstring \<Rightarrow> bool" where
  "atWordBoundary prev s \<longleftrightarrow>
     (case prev of None \<Rightarrow> False | Some c \<Rightarrow> isWordChar c) \<noteq> (case s of [] \<Rightarrow> False | c # _ \<Rightarrow> isWordChar c)"

primrec rx :: "regex \<Rightarrow> nat option \<Rightarrow> jstring \<Rightarrow> (jstring list \<times> nat option \<times> jstring) list" where
  "rx (RClass p) prev s = (case s of [] \<Rightarrow> [] | c # cs \<Rightarrow> if p c then [([], Some c, cs)] else [])"
| "rx (RSeq a b) prev s =
     concat (map (\<lambda>(caps, prev', s').
       map (\<lambda>(caps', r). (caps @ caps', r)) (rx b prev' s')) (rx a prev s))"
| "rx (RAlt a b) prev s = rx a prev s @ rx b prev s"
| "rx (ROpt a) prev s = rx a prev s @ [([], prev, s)]"
| "rx (RStar p) prev s = starGreedy p prev s"
| "rx (RPlus p) prev s =
     (case s of [] \<Rightarrow> [] | c # cs \<Rightarrow> if p c then starGreedy p (Some c) cs else [])"
| "rx (RLazyPlus p) prev s =
     (case s of [] \<Rightarrow> [] | c # cs \<Rightarrow> if p c then starLazy p (Some c) cs else [])"
| "rx (RGroup a) prev s =
     map (\<lambda>(caps, prev', s'). (take (length s - length s') s # caps, prev', s')) (rx a prev s)"
| "rx REnd prev s = (if s = [] then [([], prev, s)] else [])"
| "rx (RNotAhead a) prev s = (if rx a prev s = [] then [([], prev, s)] else [])"
| "rx RWordBoundary prev s = (if atWordBoundary prev s then [([], prev, s)] else [])"
| "rx REmpty prev s = [([], prev, s)]"

text \<open>\<open>exec\<close> of an expression anchored with \<open>^\<close>: the captures and the rest after the match.\<close>

definition rxExec :: "regex \<Rightarrow> jstring \<Rightarrow> (jstring list \<times> jstring) option" where
  "rxExec r s = (case rx r None s of [] \<Rightarrow> None | (caps, _, rest) # _ \<Rightarrow> Some (caps, rest))"

definition rxTest :: "regex \<Rightarrow> jstring \<Rightarrow> bool" where
  "rxTest r s \<longleftrightarrow> rx r None s \<noteq> []"

text \<open>\<open>replace\<close> of the match of an anchored expression by the empty string.\<close>

definition rxStrip :: "regex \<Rightarrow> jstring \<Rightarrow> jstring" where
  "rxStrip r s = (case rxExec r s of None \<Rightarrow> s | Some (_, rest) \<Rightarrow> rest)"

section \<open>Building blocks\<close>

definition rChar :: "nat \<Rightarrow> regex" where
  "rChar c = RClass (\<lambda>x. x = c)"

fun rLit :: "jstring \<Rightarrow> regex" where
  "rLit [] = REmpty"
| "rLit (c # cs) = RSeq (rChar c) (rLit cs)"

fun rSeqs :: "regex list \<Rightarrow> regex" where
  "rSeqs [] = REmpty"
| "rSeqs (r # rs) = RSeq r (rSeqs rs)"

fun rAlts :: "regex list \<Rightarrow> regex" where
  "rAlts [] = RClass (\<lambda>_. False)"
| "rAlts [r] = r"
| "rAlts (r # rs) = RAlt r (rAlts rs)"

definition toLowerAscii :: "nat \<Rightarrow> nat" where
  "toLowerAscii c = (if 65 \<le> c \<and> c \<le> 90 then c + 32 else c)"

definition toUpperAscii :: "nat \<Rightarrow> nat" where
  "toUpperAscii c = (if 97 \<le> c \<and> c \<le> 122 then c - 32 else c)"

text \<open>A literal under the \<open>i\<close> flag: ASCII letters match either case.\<close>

fun rLitI :: "jstring \<Rightarrow> regex" where
  "rLitI [] = REmpty"
| "rLitI (c # cs) = RSeq (RClass (\<lambda>x. toLowerAscii x = toLowerAscii c)) (rLitI cs)"

abbreviation "rSpaces \<equiv> RStar isJsSpace"
abbreviation "rSpaces1 \<equiv> RPlus isJsSpace"
abbreviation "rDigits1 \<equiv> RPlus isJsDigit"

definition isNonZeroDigit :: "nat \<Rightarrow> bool" where
  "isNonZeroDigit c \<longleftrightarrow> 49 \<le> c \<and> c \<le> 57"

text \<open>\<open>[1-9]\d*\<close>\<close>

definition rLineNumber :: regex where
  "rLineNumber = RSeq (RClass isNonZeroDigit) (RStar isJsDigit)"

section \<open>The matcher consumes a prefix\<close>

lemma starGreedy_suffix: "(caps, prev', s') \<in> set (starGreedy p prev s) \<Longrightarrow> suffix s' s"
  by (induction p prev s rule: starGreedy.induct) (auto split: if_splits simp: suffix_Cons)

lemma starLazy_suffix: "(caps, prev', s') \<in> set (starLazy p prev s) \<Longrightarrow> suffix s' s"
  by (induction p prev s rule: starLazy.induct) (auto split: if_splits simp: suffix_Cons)

lemma rx_suffix: "(caps, prev', s') \<in> set (rx r prev s) \<Longrightarrow> suffix s' s"
proof (induction r arbitrary: prev s caps prev' s')
  case (RSeq r1 r2)
  then obtain c1 p1 s1 c2 where
    "(c1, p1, s1) \<in> set (rx r1 prev s)" "(c2, prev', s') \<in> set (rx r2 p1 s1)"
    by auto
  with RSeq.IH have "suffix s1 s" "suffix s' s1" by blast+
  then show ?case by (rule suffix_order.trans [rotated])
next
  case (RGroup r)
  then show ?case by auto
qed (auto split: list.splits if_splits simp: suffix_Cons dest: starGreedy_suffix starLazy_suffix)

lemma rxExec_suffix: "rxExec r s = Some (caps, rest) \<Longrightarrow> suffix rest s"
  unfolding rxExec_def
  by (cases "rx r None s") (auto dest: arg_cong [where f = set] intro: rx_suffix [of _ _ _ r None])

lemma suffix_rxStrip: "suffix (rxStrip r s) s"
  by (auto simp: rxStrip_def split: option.splits prod.splits dest: rxExec_suffix)

lemma starGreedy_not_Nil [simp]: "starGreedy p prev s \<noteq> []"
  by (cases s) auto

lemma hd_starGreedy: "\<exists>prev'. hd (starGreedy p prev s) = ([], prev', dropWhile p s)"
  by (induction p prev s rule: starGreedy.induct) auto

lemma rx_rLit: "rx (rLit w) prev s \<noteq> [] \<longleftrightarrow> startsWith s w"
proof (induction w arbitrary: prev s)
  case Nil
  then show ?case by (simp add: startsWith_def)
next
  case (Cons c w)
  then show ?case by (cases s) (auto simp: rChar_def startsWith_def)
qed

lemma rxTest_rLit [simp]: "rxTest (rLit w) s \<longleftrightarrow> startsWith s w"
  by (simp add: rxTest_def rx_rLit)

end
