(* ===== verification/Hl_Format.thy ===== *)
theory Hl_Format
  imports Hl_Types Js_Regex "HOL-Library.Word"
begin

unbundle bit_operations_syntax

text \<open>
  packages/hashline/src/format.ts: the sigils and keywords of the format, the header builders, the
  content hash tag and the numbered-line display. The 32-bit hash of the runtime is the parameter
  \<open>xxh\<close>.
\<close>

section \<open>Sigils and keywords\<close>

definition HL_FILE_PREFIX :: jstring where "HL_FILE_PREFIX = [182]"
definition HL_PAYLOAD_REPLACE :: jstring where "HL_PAYLOAD_REPLACE = js ''+''"
definition HL_REPLACE_KEYWORD :: jstring where "HL_REPLACE_KEYWORD = js ''replace''"
definition HL_BLOCK_KEYWORD :: jstring where "HL_BLOCK_KEYWORD = js ''block''"
definition HL_DELETE_KEYWORD :: jstring where "HL_DELETE_KEYWORD = js ''delete''"
definition HL_INSERT_KEYWORD :: jstring where "HL_INSERT_KEYWORD = js ''insert''"
definition HL_INSERT_BEFORE :: jstring where "HL_INSERT_BEFORE = js ''before''"
definition HL_INSERT_AFTER :: jstring where "HL_INSERT_AFTER = js ''after''"
definition HL_INSERT_HEAD :: jstring where "HL_INSERT_HEAD = js ''head''"
definition HL_INSERT_TAIL :: jstring where "HL_INSERT_TAIL = js ''tail''"
definition HL_HEADER_COLON :: jstring where "HL_HEADER_COLON = js '':''"
definition HL_FILE_HASH_SEP :: jstring where "HL_FILE_HASH_SEP = js ''#''"
definition HL_RANGE_SEP :: jstring where "HL_RANGE_SEP = js ''..''"
definition HL_LINE_BODY_SEP :: jstring where "HL_LINE_BODY_SEP = js '':''"
definition HL_FILE_HASH_LENGTH :: nat where "HL_FILE_HASH_LENGTH = 4"

lemmas hl_keyword_defs =
  HL_FILE_PREFIX_def HL_PAYLOAD_REPLACE_def HL_REPLACE_KEYWORD_def HL_BLOCK_KEYWORD_def
  HL_DELETE_KEYWORD_def HL_INSERT_KEYWORD_def HL_INSERT_BEFORE_def HL_INSERT_AFTER_def
  HL_INSERT_HEAD_def HL_INSERT_TAIL_def HL_HEADER_COLON_def HL_FILE_HASH_SEP_def
  HL_RANGE_SEP_def HL_LINE_BODY_SEP_def HL_FILE_HASH_LENGTH_def

section \<open>Hunk headers\<close>

definition formatReplaceHeader :: "nat \<Rightarrow> nat \<Rightarrow> jstring" where
  "formatReplaceHeader start end' =
     HL_REPLACE_KEYWORD @ js '' '' @ natToString start @ HL_RANGE_SEP @ natToString end' @ HL_HEADER_COLON"

definition formatDeleteHeader :: "nat \<Rightarrow> nat \<Rightarrow> jstring" where
  "formatDeleteHeader start end' =
     (if start = end' then HL_DELETE_KEYWORD @ js '' '' @ natToString start
      else HL_DELETE_KEYWORD @ js '' '' @ natToString start @ HL_RANGE_SEP @ natToString end')"

fun formatInsertHeader :: "cursor \<Rightarrow> jstring" where
  "formatInsertHeader (BeforeAnchor a) =
     HL_INSERT_KEYWORD @ js '' '' @ HL_INSERT_BEFORE @ js '' '' @ natToString a @ HL_HEADER_COLON"
| "formatInsertHeader (AfterAnchor a) =
     HL_INSERT_KEYWORD @ js '' '' @ HL_INSERT_AFTER @ js '' '' @ natToString a @ HL_HEADER_COLON"
| "formatInsertHeader Bof = HL_INSERT_KEYWORD @ js '' '' @ HL_INSERT_HEAD @ HL_HEADER_COLON"
| "formatInsertHeader Eof = HL_INSERT_KEYWORD @ js '' '' @ HL_INSERT_TAIL @ HL_HEADER_COLON"

section \<open>The content hash tag\<close>

definition isTrailingBlank :: "nat \<Rightarrow> bool" where
  "isTrailingBlank c \<longleftrightarrow> c = 32 \<or> c = 9 \<or> c = 13"

text \<open>
  The global replacement of \<open>[ \t\r]+(?=\n|$)\<close> by nothing: a run of blanks goes when a line feed
  or the end of the text follows it.
\<close>

fun normalizeFileHashText :: "jstring \<Rightarrow> jstring" where
  "normalizeFileHashText [] = []"
| "normalizeFileHashText (c # cs) =
     (if isTrailingBlank c \<and>
         (dropWhile isTrailingBlank cs = [] \<or> hd (dropWhile isTrailingBlank cs) = CHAR_LINE_FEED)
      then normalizeFileHashText (dropWhile isTrailingBlank cs)
      else c # normalizeFileHashText cs)"

definition hexDigit :: "nat \<Rightarrow> nat" where
  "hexDigit d = (if d < 10 then 48 + d else 87 + d)"

fun natToHex :: "nat \<Rightarrow> jstring" where
  "natToHex n = (if n < 16 then [hexDigit n] else natToHex (n div 16) @ [hexDigit (n mod 16)])"

declare natToHex.simps [simp del]

definition padStart :: "jstring \<Rightarrow> nat \<Rightarrow> nat \<Rightarrow> jstring" where
  "padStart s n c = replicate (n - length s) c @ s"

definition computeFileHash :: "(jstring \<Rightarrow> 32 word) \<Rightarrow> jstring \<Rightarrow> jstring" where
  "computeFileHash xxh text =
     (let low16 = xxh (normalizeFileHashText text) AND 0xffff
      in map toUpperAscii (padStart (natToHex (unat low16)) HL_FILE_HASH_LENGTH 48))"

section \<open>Headers and numbered lines\<close>

definition formatHashlineHeader :: "jstring \<Rightarrow> jstring \<Rightarrow> jstring" where
  "formatHashlineHeader filePath fileHash = HL_FILE_PREFIX @ filePath @ HL_FILE_HASH_SEP @ fileHash"

definition formatNumberedLine :: "nat \<Rightarrow> jstring \<Rightarrow> jstring" where
  "formatNumberedLine lineNumber line = natToString lineNumber @ HL_LINE_BODY_SEP @ line"

definition formatNumberedLines :: "jstring \<Rightarrow> nat \<Rightarrow> jstring" where
  "formatNumberedLines text startLine =
     joinLines (map (\<lambda>(i, line). formatNumberedLine (startLine + i) line) (enumerate 0 (splitLines text)))"

section \<open>Lemmas\<close>

definition isUpperHex :: "nat \<Rightarrow> bool" where
  "isUpperHex c \<longleftrightarrow> isJsDigit c \<or> (65 \<le> c \<and> c \<le> 70)"

lemma length_natToHex: "n < 16 ^ k \<Longrightarrow> 0 < k \<Longrightarrow> length (natToHex n) \<le> k"
proof (induction n arbitrary: k rule: natToHex.induct)
  case (1 n)
  show ?case
  proof (cases "n < 16")
    case True
    with "1.prems" show ?thesis by (subst natToHex.simps) simp
  next
    case False
    with "1.prems" obtain k' where k: "k = Suc k'" "0 < k'"
      by (cases k; cases "k - 1") auto
    with "1.prems" have "n div 16 < 16 ^ k'" by (simp add: less_mult_imp_div_less mult.commute)
    with False k "1.IH" [of k'] show ?thesis by (subst natToHex.simps) simp
  qed
qed

lemma natToHex_upper: "c \<in> set (natToHex n) \<Longrightarrow> isUpperHex (toUpperAscii c)"
proof (induction n rule: natToHex.induct)
  case (1 n)
  have "n mod 16 < 16" by simp
  with 1 show ?case
    by (subst (asm) natToHex.simps)
      (auto simp: isUpperHex_def isJsDigit_def toUpperAscii_def hexDigit_def split: if_splits)
qed

lemma length_computeFileHash: "length (computeFileHash xxh text) = HL_FILE_HASH_LENGTH"
proof -
  let ?w = "xxh (normalizeFileHashText text) AND 0xffff"
  have "?w \<le> 0xffff" by (rule word_and_le1)
  then have "unat ?w \<le> unat (0xffff :: 32 word)" by (rule word_le_nat_alt [THEN iffD1])
  then have "unat ?w < 16 ^ 4" by simp
  then have "length (natToHex (unat ?w)) \<le> 4" by (rule length_natToHex) simp
  then show ?thesis
    by (simp add: computeFileHash_def Let_def padStart_def HL_FILE_HASH_LENGTH_def)
qed

lemma computeFileHash_upper: "c \<in> set (computeFileHash xxh text) \<Longrightarrow> isUpperHex c"
  by (auto simp: computeFileHash_def Let_def padStart_def natToHex_upper split: if_splits)
    (auto simp: toUpperAscii_def isUpperHex_def isJsDigit_def)

text \<open>The normalised text is the text with the trailing blanks of every line removed.\<close>

definition trimLineEnd :: "jstring \<Rightarrow> jstring" where
  "trimLineEnd l = rev (dropWhile isTrailingBlank (rev l))"

lemma line_feed_not_blank [simp]: "\<not> isTrailingBlank CHAR_LINE_FEED"
  by (simp add: isTrailingBlank_def)

lemma trimLineEnd_Nil [simp]: "trimLineEnd [] = []"
  by (simp add: trimLineEnd_def)

lemma trimLineEnd_Cons:
  "trimLineEnd (c # l) = (if isTrailingBlank c \<and> trimLineEnd l = [] then [] else c # trimLineEnd l)"
  by (auto simp: trimLineEnd_def dropWhile_append)

lemma trimLineEnd_eq_Nil: "trimLineEnd l = [] \<longleftrightarrow> list_all isTrailingBlank l"
  by (induction l) (auto simp: trimLineEnd_Cons)

lemma normalizeFileHashText_append_line:
  "CHAR_LINE_FEED \<notin> set l \<Longrightarrow> rest = [] \<or> hd rest = CHAR_LINE_FEED \<Longrightarrow>
   normalizeFileHashText (l @ rest) = trimLineEnd l @ normalizeFileHashText rest"
proof (induction l rule: length_induct)
  case (1 l)
  show ?case
  proof (cases l)
    case Nil
    then show ?thesis by simp
  next
    case (Cons c cs)
    let ?d = "dropWhile isTrailingBlank (cs @ rest)"
    show ?thesis
    proof (cases "list_all isTrailingBlank cs")
      case True
      with 1(3) have d: "?d = rest"
        by (cases rest) (auto simp: dropWhile_append list_all_iff)
      have "trimLineEnd cs = []" using True by (simp add: trimLineEnd_eq_Nil)
      moreover have "normalizeFileHashText (cs @ rest) = trimLineEnd cs @ normalizeFileHashText rest"
        using 1 Cons by simp
      ultimately show ?thesis using Cons d 1(3) by (auto simp: trimLineEnd_Cons)
    next
      case False
      then have "?d = dropWhile isTrailingBlank cs @ rest" "dropWhile isTrailingBlank cs \<noteq> []"
        by (auto simp: dropWhile_append list_all_iff)
      moreover from this have "hd ?d \<in> set cs"
        by (metis hd_append2 hd_in_set set_dropWhileD)
      ultimately have "hd ?d \<noteq> CHAR_LINE_FEED" "?d \<noteq> []"
        using 1(2) Cons by auto
      moreover have "normalizeFileHashText (cs @ rest) = trimLineEnd cs @ normalizeFileHashText rest"
        using 1 Cons by simp
      ultimately show ?thesis using Cons False by (auto simp: trimLineEnd_Cons trimLineEnd_eq_Nil)
    qed
  qed
qed

lemma normalizeFileHashText_joinLines:
  "list_all (\<lambda>l. CHAR_LINE_FEED \<notin> set l) ls \<Longrightarrow>
   normalizeFileHashText (joinLines ls) = joinLines (map trimLineEnd ls)"
proof (induction ls)
  case Nil
  then show ?case by simp
next
  case (Cons l ls)
  then show ?case
    by (cases ls)
      (use normalizeFileHashText_append_line [of l "[]"] in
        \<open>auto simp: normalizeFileHashText_append_line\<close>)
qed

lemma normalizeFileHashText_lines:
  "normalizeFileHashText s = joinLines (map trimLineEnd (splitLines s))"
  using normalizeFileHashText_joinLines [of "splitLines s"]
  by (simp add: list_all_iff splitOn_elem_no_sep)

end
