(* ===== verification/Hl_Tokenizer.thy ===== *)
theory Hl_Tokenizer
  imports Hl_Format
begin

text \<open>
  packages/hashline/src/tokenizer.ts: the index-based scanners of hunk and file headers, the line
  classifier, and the incremental \<open>Tokenizer\<close> with its buffer, line counter and closed flag. Line
  numbers are natural numbers; the code accumulates them in doubles, exact below \<open>2^53\<close>.

  Every scanner reads \<open>line\<close> between an index and an end; \<open>jslice line index end\<close> is what is left to
  read, and the lemmas describe each scanner by what it does to that rest.
\<close>

section \<open>Character classes\<close>

definition CHAR_ZERO :: nat where "CHAR_ZERO = 48"
definition CHAR_NINE :: nat where "CHAR_NINE = 57"
definition CHAR_HASH :: nat where "CHAR_HASH = 35"
definition CHAR_TAB :: nat where "CHAR_TAB = 9"
definition CHAR_SPACE :: nat where "CHAR_SPACE = 32"
definition CHAR_DOT :: nat where "CHAR_DOT = 46"
definition CHAR_HYPHEN :: nat where "CHAR_HYPHEN = 45"
definition CHAR_ELLIPSIS :: nat where "CHAR_ELLIPSIS = 8230"
definition CHAR_UPPER_A :: nat where "CHAR_UPPER_A = 65"
definition CHAR_UPPER_F :: nat where "CHAR_UPPER_F = 70"
definition CHAR_LOWER_A :: nat where "CHAR_LOWER_A = 97"
definition CHAR_LOWER_F :: nat where "CHAR_LOWER_F = 102"
definition CHAR_PAYLOAD_REPLACE :: nat where "CHAR_PAYLOAD_REPLACE = HL_PAYLOAD_REPLACE ! 0"
definition CHAR_COLON :: nat where "CHAR_COLON = HL_HEADER_COLON ! 0"
definition FILE_PREFIX_LENGTH :: nat where "FILE_PREFIX_LENGTH = length HL_FILE_PREFIX"

lemmas hl_char_defs =
  CHAR_ZERO_def CHAR_NINE_def CHAR_HASH_def CHAR_TAB_def CHAR_SPACE_def CHAR_DOT_def
  CHAR_HYPHEN_def CHAR_ELLIPSIS_def CHAR_UPPER_A_def CHAR_UPPER_F_def CHAR_LOWER_A_def
  CHAR_LOWER_F_def CHAR_PAYLOAD_REPLACE_def CHAR_COLON_def FILE_PREFIX_LENGTH_def

definition BEGIN_PATCH_MARKER :: jstring where "BEGIN_PATCH_MARKER = js ''*** Begin Patch''"
definition END_PATCH_MARKER :: jstring where "END_PATCH_MARKER = js ''*** End Patch''"
definition ABORT_MARKER :: jstring where "ABORT_MARKER = js ''*** Abort''"

lemmas hl_marker_defs = BEGIN_PATCH_MARKER_def END_PATCH_MARKER_def ABORT_MARKER_def

definition isDigitCode :: "nat \<Rightarrow> bool" where
  "isDigitCode code \<longleftrightarrow> code \<ge> CHAR_ZERO \<and> code \<le> CHAR_NINE"

definition isNonZeroDigitCode :: "nat \<Rightarrow> bool" where
  "isNonZeroDigitCode code \<longleftrightarrow> code > CHAR_ZERO \<and> code \<le> CHAR_NINE"

definition isHexDigitCode :: "nat \<Rightarrow> bool" where
  "isHexDigitCode code \<longleftrightarrow> isDigitCode code \<or> (code \<ge> CHAR_UPPER_A \<and> code \<le> CHAR_UPPER_F)
     \<or> (code \<ge> CHAR_LOWER_A \<and> code \<le> CHAR_LOWER_F)"

definition isWhitespaceCode :: "nat \<Rightarrow> bool" where
  "isWhitespaceCode code \<longleftrightarrow>
     code = CHAR_SPACE \<or> (code \<ge> CHAR_TAB \<and> code \<le> CHAR_CARRIAGE_RETURN)"

lemmas code_class_defs =
  isDigitCode_def isNonZeroDigitCode_def isHexDigitCode_def isWhitespaceCode_def

section \<open>Scanning helpers\<close>

function skipWhitespace :: "jstring \<Rightarrow> nat \<Rightarrow> nat \<Rightarrow> nat" where
  "skipWhitespace line index end' =
     (if index < end' \<and> isWhitespaceCode (line ! index) then skipWhitespace line (Suc index) end'
      else index)"
  by pat_completeness auto
termination
  by (relation "measure (\<lambda>(line, index, end'). end' - index)") auto

declare skipWhitespace.simps [simp del]

fun trimEndFrom :: "jstring \<Rightarrow> nat \<Rightarrow> nat" where
  "trimEndFrom line 0 = 0"
| "trimEndFrom line (Suc e) = (if isWhitespaceCode (line ! e) then trimEndFrom line e else Suc e)"

definition trimEndIndex :: "jstring \<Rightarrow> nat" where
  "trimEndIndex line = trimEndFrom line (length line)"

definition isEmptyLine :: "jstring \<Rightarrow> bool" where
  "isEmptyLine line \<longleftrightarrow> length line = 0"

definition markerLineEquals :: "jstring \<Rightarrow> jstring \<Rightarrow> bool" where
  "markerLineEquals line marker \<longleftrightarrow> trimEndIndex line = length marker \<and> startsWith line marker"

text \<open>A loop over complete lines: the end of a line that stops at \<open>index\<close>, without its CR.\<close>

definition lineStop :: "jstring \<Rightarrow> nat \<Rightarrow> nat \<Rightarrow> nat" where
  "lineStop text start index =
     (if index > start \<and> text ! (index - 1) = CHAR_CARRIAGE_RETURN then index - 1 else index)"

function splitHashlineLoop :: "jstring \<Rightarrow> nat \<Rightarrow> nat \<Rightarrow> jstring list \<Rightarrow> jstring list" where
  "splitHashlineLoop text index start lines =
     (if index < length text then
        (if text ! index \<noteq> CHAR_LINE_FEED then splitHashlineLoop text (Suc index) start lines
         else splitHashlineLoop text (Suc index) (Suc index)
                (lines @ [jslice text start (lineStop text start index)]))
      else if start < length text
        then lines @ [jslice text start (lineStop text start (length text))]
        else lines)"
  by pat_completeness auto
termination
  by (relation "measure (\<lambda>(text, index, start, lines). length text - index)") auto

declare splitHashlineLoop.simps [simp del]

definition splitHashlineLines :: "jstring \<Rightarrow> jstring list" where
  "splitHashlineLines text = (if length text = 0 then [[]] else splitHashlineLoop text 0 0 [])"

section \<open>Line numbers and ranges\<close>

function scanDigits :: "jstring \<Rightarrow> nat \<Rightarrow> nat \<Rightarrow> nat \<Rightarrow> nat \<times> nat" where
  "scanDigits line nextIndex end' lineNumber =
     (if nextIndex < end' \<and> isDigitCode (line ! nextIndex)
      then scanDigits line (Suc nextIndex) end' (lineNumber * 10 + (line ! nextIndex - CHAR_ZERO))
      else (lineNumber, nextIndex))"
  by pat_completeness auto
termination
  by (relation "measure (\<lambda>(line, nextIndex, end', lineNumber). end' - nextIndex)") auto

declare scanDigits.simps [simp del]

definition scanLineNumber :: "jstring \<Rightarrow> nat \<Rightarrow> nat \<Rightarrow> (nat \<times> nat) option" where
  "scanLineNumber line index end' =
     (if index \<ge> end' \<or> \<not> isNonZeroDigitCode (line ! index) then None
      else Some (scanDigits line index end' 0))"

definition parseLid :: "jstring \<Rightarrow> nat \<Rightarrow> hl_error + anchor" where
  "parseLid raw lineNum =
     (let end' = trimEndIndex raw; numberStart = skipWhitespace raw 0 end'
      in (case scanLineNumber raw numberStart end' of
            None \<Rightarrow> Inl (ExpectedLineNumber lineNum raw)
          | Some (line, nextIndex) \<Rightarrow>
              if skipWhitespace raw nextIndex end' \<noteq> end' then Inl (ExpectedLineNumber lineNum raw)
              else Inr line))"

function scanSeparatorLoop :: "jstring \<Rightarrow> nat \<Rightarrow> nat \<Rightarrow> bool \<Rightarrow> nat \<times> bool" where
  "scanSeparatorLoop line cursor end' consumed =
     (if cursor < end' then
        (if isWhitespaceCode (line ! cursor) then scanSeparatorLoop line (Suc cursor) end' True
         else if line ! cursor = CHAR_HYPHEN \<or> line ! cursor = CHAR_ELLIPSIS
           then scanSeparatorLoop line (Suc cursor) end' True
         else if line ! cursor = CHAR_DOT \<and> cursor + 1 < end' \<and> line ! (cursor + 1) = CHAR_DOT
           then scanSeparatorLoop line (cursor + 2) end' True
         else (cursor, consumed))
      else (cursor, consumed))"
  by pat_completeness auto
termination
  by (relation "measure (\<lambda>(line, cursor, end', consumed). end' - cursor)") auto

declare scanSeparatorLoop.simps [simp del]

definition scanRangeSeparator :: "jstring \<Rightarrow> nat \<Rightarrow> nat \<Rightarrow> nat option" where
  "scanRangeSeparator line index end' =
     (case scanSeparatorLoop line index end' False of
        (cursor, consumedSeparator) \<Rightarrow>
          if \<not> consumedSeparator then None
          else if cursor \<ge> end' \<or> \<not> isNonZeroDigitCode (line ! cursor) then None
          else Some cursor)"

definition scanHeaderRange ::
  "jstring \<Rightarrow> nat \<Rightarrow> nat \<Rightarrow> bool \<Rightarrow> (parsed_range \<times> nat) option" where
  "scanHeaderRange line index end' allowSingle =
     (let numberStart = skipWhitespace line index end' in
      case scanLineNumber line numberStart end' of
        None \<Rightarrow> None
      | Some (start, startNext) \<Rightarrow>
          (case scanRangeSeparator line startNext end' of
             None \<Rightarrow>
               if \<not> allowSingle then None
               else Some (\<lparr>rangeStart = start, rangeEnd = start\<rparr>, skipWhitespace line startNext end')
           | Some afterFirst \<Rightarrow>
               (case scanLineNumber line afterFirst end' of
                  None \<Rightarrow> None
                | Some (endNumber, endNext) \<Rightarrow>
                    Some (\<lparr>rangeStart = start, rangeEnd = endNumber\<rparr>, skipWhitespace line endNext end'))))"

section \<open>Hunk headers\<close>

definition scanKeyword :: "jstring \<Rightarrow> nat \<Rightarrow> nat \<Rightarrow> jstring \<Rightarrow> nat option" where
  "scanKeyword line index end' keyword =
     (if \<not> startsWithAt line keyword index then None
      else let next = index + length keyword in
        if next < end' \<and> \<not> isWhitespaceCode (line ! next) \<and> line ! next \<noteq> CHAR_COLON then None
        else Some next)"

definition consumeOptionalColon :: "jstring \<Rightarrow> nat \<Rightarrow> nat \<Rightarrow> nat" where
  "consumeOptionalColon line index end' =
     (let cursor = skipWhitespace line index end' in
      if cursor < end' \<and> line ! cursor = CHAR_COLON then skipWhitespace line (cursor + 1) end'
      else cursor)"

definition scanInsertTarget :: "jstring \<Rightarrow> nat \<Rightarrow> nat \<Rightarrow> (block_target \<times> nat) option" where
  "scanInsertTarget line index end' =
     (let cursor = skipWhitespace line index end' in
      case scanKeyword line cursor end' HL_INSERT_BEFORE of
        Some beforeEnd \<Rightarrow>
          (case scanLineNumber line (skipWhitespace line beforeEnd end') end' of
             None \<Rightarrow> None
           | Some (anchor, next) \<Rightarrow> Some (TInsertBefore anchor, consumeOptionalColon line next end'))
      | None \<Rightarrow>
     (case scanKeyword line cursor end' HL_INSERT_AFTER of
        Some afterEnd \<Rightarrow>
          (case scanLineNumber line (skipWhitespace line afterEnd end') end' of
             None \<Rightarrow> None
           | Some (anchor, next) \<Rightarrow> Some (TInsertAfter anchor, consumeOptionalColon line next end'))
      | None \<Rightarrow>
     (case scanKeyword line cursor end' HL_INSERT_HEAD of
        Some headEnd \<Rightarrow> Some (TBof, consumeOptionalColon line headEnd end')
      | None \<Rightarrow>
     (case scanKeyword line cursor end' HL_INSERT_TAIL of
        Some tailEnd \<Rightarrow> Some (TEof, consumeOptionalColon line tailEnd end')
      | None \<Rightarrow> None))))"

definition scanReplaceTarget :: "jstring \<Rightarrow> nat \<Rightarrow> nat \<Rightarrow> (block_target \<times> nat) option" where
  "scanReplaceTarget line replaceEnd end' =
     (case scanKeyword line (skipWhitespace line replaceEnd end') end' HL_BLOCK_KEYWORD of
        Some blockEnd \<Rightarrow>
          (case scanLineNumber line (skipWhitespace line blockEnd end') end' of
             None \<Rightarrow> None
           | Some (anchor, next) \<Rightarrow> Some (TBlock anchor, consumeOptionalColon line next end'))
      | None \<Rightarrow>
          (case scanHeaderRange line replaceEnd end' True of
             None \<Rightarrow> None
           | Some (rng, next) \<Rightarrow> Some (TReplace rng, consumeOptionalColon line next end')))"

definition scanDeleteTarget :: "jstring \<Rightarrow> nat \<Rightarrow> nat \<Rightarrow> (block_target \<times> nat) option" where
  "scanDeleteTarget line deleteEnd end' =
     (case scanKeyword line (skipWhitespace line deleteEnd end') end' HL_BLOCK_KEYWORD of
        Some blockEnd \<Rightarrow>
          (case scanLineNumber line (skipWhitespace line blockEnd end') end' of
             None \<Rightarrow> None
           | Some (anchor, anchorNext) \<Rightarrow>
               let next = skipWhitespace line anchorNext end' in
               if next < end' \<and> line ! next = CHAR_COLON then None
               else Some (TDeleteBlock anchor, next))
      | None \<Rightarrow>
          (case scanHeaderRange line deleteEnd end' True of
             None \<Rightarrow> None
           | Some (rng, rangeNext) \<Rightarrow>
               let next = skipWhitespace line rangeNext end' in
               if next < end' \<and> line ! next = CHAR_COLON then None
               else Some (TDelete rng, next)))"

definition scanHunkAnchor :: "jstring \<Rightarrow> nat \<Rightarrow> nat \<Rightarrow> (block_target \<times> nat) option" where
  "scanHunkAnchor line start end' =
     (let cursor = skipWhitespace line start end' in
      case scanKeyword line cursor end' HL_REPLACE_KEYWORD of
        Some replaceEnd \<Rightarrow> scanReplaceTarget line replaceEnd end'
      | None \<Rightarrow>
     (case scanKeyword line cursor end' HL_DELETE_KEYWORD of
        Some deleteEnd \<Rightarrow> scanDeleteTarget line deleteEnd end'
      | None \<Rightarrow>
     (case scanKeyword line cursor end' HL_INSERT_KEYWORD of
        Some insertEnd \<Rightarrow> scanInsertTarget line insertEnd end'
      | None \<Rightarrow> None)))"

definition tryParseHunkHeader :: "jstring \<Rightarrow> block_target option" where
  "tryParseHunkHeader line =
     (let end' = trimEndIndex line; start = skipWhitespace line 0 end' in
      if start \<ge> end' then None
      else (case scanHunkAnchor line start end' of
              None \<Rightarrow> None
            | Some (target, nextIndex) \<Rightarrow> if nextIndex \<noteq> end' then None else Some target))"

section \<open>File headers\<close>

function scanPath :: "jstring \<Rightarrow> nat \<Rightarrow> nat \<Rightarrow> nat" where
  "scanPath line index end' =
     (if index < end' \<and> \<not> (line ! index = CHAR_HASH \<or> line ! index = CHAR_SPACE \<or> line ! index = CHAR_TAB)
      then scanPath line (Suc index) end' else index)"
  by pat_completeness auto
termination
  by (relation "measure (\<lambda>(line, index, end'). end' - index)") auto

declare scanPath.simps [simp del]

definition tryParseHeader :: "jstring \<Rightarrow> (jstring \<times> jstring option) option" where
  "tryParseHeader line =
     (if \<not> startsWith line HL_FILE_PREFIX then None
      else let end' = trimEndIndex line; pathStart = FILE_PREFIX_LENGTH in
        if pathStart \<ge> end' then None
        else let index = scanPath line pathStart end' in
          if index = pathStart then None
          else let path = jslice line pathStart index in
            if index < end' \<and> line ! index = CHAR_HASH then
              (let hashStart = index + 1; hashEnd = hashStart + HL_FILE_HASH_LENGTH in
               if hashEnd > end' then None
               else if \<not> list_all (\<lambda>probe. isHexDigitCode (line ! probe)) [hashStart ..< hashEnd] then None
               else if skipWhitespace line hashEnd end' \<noteq> end' then None
               else Some (path, Some (map toUpperAscii (jslice line hashStart hashEnd))))
            else if skipWhitespace line index end' \<noteq> end' then None
            else Some (path, None))"

section \<open>Classification\<close>

definition isHunkLead :: "jstring \<Rightarrow> bool" where
  "isHunkLead line \<longleftrightarrow>
     (let lead = skipWhitespace line 0 (length line) in
      startsWithAt line HL_REPLACE_KEYWORD lead \<or> startsWithAt line HL_DELETE_KEYWORD lead
        \<or> startsWithAt line HL_INSERT_KEYWORD lead)"

definition classifyLine :: "jstring \<Rightarrow> nat \<Rightarrow> token" where
  "classifyLine line lineNum =
     (if isEmptyLine line then Blank lineNum
      else if markerLineEquals line BEGIN_PATCH_MARKER then EnvelopeBegin lineNum
      else if markerLineEquals line END_PATCH_MARKER then EnvelopeEnd lineNum
      else if markerLineEquals line ABORT_MARKER then Abort lineNum
      else case tryParseHeader line of
          Some (path, fileHash) \<Rightarrow> Header lineNum path fileHash
        | None \<Rightarrow>
            (case (if isHunkLead line then tryParseHunkHeader line else None) of
               Some target \<Rightarrow> OpBlock lineNum target
             | None \<Rightarrow>
                 if line ! 0 = CHAR_PAYLOAD_REPLACE then PayloadLiteral lineNum (drop 1 line)
                 else Raw lineNum line))"

section \<open>The incremental tokenizer\<close>

record tokenizer =
  tkBuffer :: jstring
  tkNextLineNum :: nat
  tkClosed :: bool

definition newTokenizer :: tokenizer where
  "newTokenizer = \<lparr>tkBuffer = [], tkNextLineNum = 1, tkClosed = False\<rparr>"

function drainLoop :: "jstring \<Rightarrow> nat \<Rightarrow> nat \<Rightarrow> nat \<Rightarrow> token list \<Rightarrow> token list \<times> nat \<times> nat" where
  "drainLoop buf index start nextLineNum tokens =
     (if index < length buf then
        (if buf ! index \<noteq> CHAR_LINE_FEED then drainLoop buf (Suc index) start nextLineNum tokens
         else drainLoop buf (Suc index) (Suc index) (Suc nextLineNum)
                (tokens @ [classifyLine (jslice buf start (lineStop buf start index)) nextLineNum]))
      else (tokens, start, nextLineNum))"
  by pat_completeness auto
termination
  by (relation "measure (\<lambda>(buf, index, start, n, tokens). length buf - index)") auto

declare drainLoop.simps [simp del]

definition drainCompleteLines :: "tokenizer \<Rightarrow> token list \<times> tokenizer" where
  "drainCompleteLines t =
     (let buf = tkBuffer t in
      case drainLoop buf 0 0 (tkNextLineNum t) [] of
        (tokens, start, nextLineNum) \<Rightarrow>
          (tokens, t\<lparr>tkBuffer := if start < length buf then drop start buf else [],
                     tkNextLineNum := nextLineNum\<rparr>))"

definition tokenizerFeed :: "jstring \<Rightarrow> tokenizer \<Rightarrow> hl_error + (token list \<times> tokenizer)" where
  "tokenizerFeed chunk t =
     (if tkClosed t then Inl TokenizerClosed
      else if length chunk = 0 then Inr ([], t)
      else Inr (drainCompleteLines (t\<lparr>tkBuffer := tkBuffer t @ chunk\<rparr>)))"

definition tokenizerEnd :: "tokenizer \<Rightarrow> token list \<times> tokenizer" where
  "tokenizerEnd t =
     (if tkClosed t then ([], t)
      else let buf = tkBuffer t; t' = t\<lparr>tkClosed := True, tkBuffer := []\<rparr> in
        if length buf = 0 then ([], t')
        else let stop = (if buf ! (length buf - 1) = CHAR_CARRIAGE_RETURN then length buf - 1 else length buf)
             in ([classifyLine (jslice buf 0 stop) (tkNextLineNum t)],
                 t'\<lparr>tkNextLineNum := Suc (tkNextLineNum t)\<rparr>))"

definition tokenizerReset :: "tokenizer \<Rightarrow> tokenizer" where
  "tokenizerReset t = t\<lparr>tkBuffer := [], tkNextLineNum := 1, tkClosed := False\<rparr>"

definition tokenizeAll :: "jstring \<Rightarrow> tokenizer \<Rightarrow> hl_error + (token list \<times> tokenizer)" where
  "tokenizeAll text t =
     bindE (tokenizerFeed text (tokenizerReset t)) (\<lambda>(first, t').
       (case tokenizerEnd t' of (final, t'') \<Rightarrow> Inr (if length final = 0 then first else first @ final, t'')))"

definition isOp :: "jstring \<Rightarrow> bool" where
  "isOp line \<longleftrightarrow> tryParseHunkHeader line \<noteq> None"

definition isHeader :: "jstring \<Rightarrow> bool" where
  "isHeader line \<longleftrightarrow> tryParseHeader line \<noteq> None"

definition isEnvelopeMarker :: "jstring \<Rightarrow> bool" where
  "isEnvelopeMarker line \<longleftrightarrow> markerLineEquals line BEGIN_PATCH_MARKER
     \<or> markerLineEquals line END_PATCH_MARKER \<or> markerLineEquals line ABORT_MARKER"

end
