(* ===== verification/Hl_Tokenizer_Facts.thy ===== *)
theory Hl_Tokenizer_Facts
  imports Hl_Tokenizer
begin

text \<open>
  What the scanners of tokenizer.ts compute, stated on the text left to read, and the round trips of
  hunk headers, file headers and payload rows: what format.ts writes, the classifier reads back.
\<close>

section \<open>Positions as remaining text\<close>

definition scanAt :: "jstring \<Rightarrow> nat \<Rightarrow> nat \<Rightarrow> jstring \<Rightarrow> bool" where
  "scanAt line e i xs \<longleftrightarrow>
     e \<le> length line \<and> i \<le> e \<and> jslice line i e = xs \<and> list_all isWhitespaceCode (drop e line)"

lemma scanAt_Nil: "scanAt line e i [] \<Longrightarrow> i = e"
  by (auto simp: scanAt_def jslice_def)

lemma scanAt_length: "scanAt line e i xs \<Longrightarrow> i = e - length xs \<and> length xs \<le> e"
  by (auto simp: scanAt_def jslice_def)

lemma scanAt_Cons:
  assumes "scanAt line e i (x # xs)"
  shows "i < e" "line ! i = x" "scanAt line e (Suc i) xs"
proof -
  have ie: "i < e" "e \<le> length line"
    using assms by (auto simp: scanAt_def jslice_def intro: ccontr)
  have "jslice line i e = line ! i # jslice line (Suc i) e"
    using ie by (simp add: jslice_def Cons_nth_drop_Suc [symmetric] Suc_diff_Suc take_Cons')
  with assms ie show "i < e" "line ! i = x" "scanAt line e (Suc i) xs"
    by (auto simp: scanAt_def)
qed

lemma scanAt_hd:
  assumes "scanAt line e i xs"
  shows "i < e \<longleftrightarrow> xs \<noteq> []" and "xs \<noteq> [] \<Longrightarrow> line ! i = hd xs"
  using assms scanAt_Nil [of line e i] scanAt_Cons [of line e i "hd xs" "tl xs"]
  by (cases xs; simp)+

lemma scanAt_append: "scanAt line e i (ys @ xs) \<Longrightarrow> scanAt line e (i + length ys) xs"
proof (induction ys arbitrary: i)
  case Nil
  then show ?case by simp
next
  case (Cons y ys)
  then have "scanAt line e (Suc i) (ys @ xs)" by (auto dest: scanAt_Cons)
  from Cons.IH [OF this] show ?case by simp
qed

lemma scanAt_suffix:
  assumes "scanAt line e i xs" and "suffix r xs"
  shows "scanAt line e (e - length r) r"
proof -
  from assms(2) obtain ys where xs: "xs = ys @ r" by (auto simp: suffix_def)
  with assms(1) have "scanAt line e (i + length ys) r" by (simp add: scanAt_append)
  moreover from this have "i + length ys = e - length r" by (simp add: scanAt_length)
  ultimately show ?thesis by simp
qed

lemma scanAt_skip:
  "scanAt line e i xs \<Longrightarrow> skipWhitespace line i e = e - length (dropWhile isWhitespaceCode xs)"
proof (induction xs arbitrary: i)
  case Nil
  then have "i = e" by (rule scanAt_Nil)
  then show ?case by (subst skipWhitespace.simps) simp
next
  case (Cons x xs)
  note c = scanAt_Cons [OF Cons.prems]
  show ?case
  proof (cases "isWhitespaceCode x")
    case True
    with c Cons.IH [OF c(3)] show ?thesis by (subst skipWhitespace.simps) simp
  next
    case False
    with c scanAt_length [OF Cons.prems] show ?thesis by (subst skipWhitespace.simps) simp
  qed
qed

definition skipWs :: "jstring \<Rightarrow> jstring" where
  "skipWs xs = dropWhile isWhitespaceCode xs"

lemma suffix_skipWs [simp]: "suffix (skipWs xs) xs"
  by (simp add: skipWs_def suffix_dropWhile)

lemma scanAt_skipWs:
  "scanAt line e i xs \<Longrightarrow>
   skipWhitespace line i e = e - length (skipWs xs) \<and> scanAt line e (e - length (skipWs xs)) (skipWs xs)"
  by (auto simp: scanAt_skip skipWs_def intro: scanAt_suffix suffix_dropWhile)

text \<open>The positions a scanner returns are those of the rests its reference definition returns.\<close>

definition atRest :: "nat \<Rightarrow> ('a \<times> jstring) option \<Rightarrow> ('a \<times> nat) option" where
  "atRest e = map_option (\<lambda>(x, r). (x, e - length r))"

lemma atRest_simps [simp]:
  "atRest e None = None"
  "atRest e (Some (x, r)) = Some (x, e - length r)"
  by (simp_all add: atRest_def)

definition numberL :: "jstring \<Rightarrow> (nat \<times> jstring) option" where
  "numberL xs = (case xs of [] \<Rightarrow> None
     | x # _ \<Rightarrow> if isNonZeroDigitCode x
         then Some (digitsValue (takeWhile isDigitCode xs), dropWhile isDigitCode xs) else None)"

lemma scanAt_digits:
  "scanAt line e i xs \<Longrightarrow> scanDigits line i e n =
     (fold (\<lambda>d acc. acc * 10 + (d - 48)) (takeWhile isDigitCode xs) n, e - length (dropWhile isDigitCode xs))"
proof (induction xs arbitrary: i n)
  case Nil
  then have "i = e" by (rule scanAt_Nil)
  then show ?case by (subst scanDigits.simps) simp
next
  case (Cons x xs)
  note c = scanAt_Cons [OF Cons.prems]
  show ?case
  proof (cases "isDigitCode x")
    case True
    with c Cons.IH [OF c(3)] show ?thesis by (subst scanDigits.simps) (simp add: CHAR_ZERO_def)
  next
    case False
    with c scanAt_length [OF Cons.prems] show ?thesis by (subst scanDigits.simps) simp
  qed
qed

lemma scanAt_number:
  assumes "scanAt line e i xs"
  shows "scanLineNumber line i e = atRest e (numberL xs)"
proof (cases xs)
  case Nil
  with assms show ?thesis by (auto dest: scanAt_Nil simp: scanLineNumber_def numberL_def)
next
  case (Cons x ys)
  note c = scanAt_Cons [OF assms [unfolded Cons]]
  show ?thesis
    using c scanAt_digits [OF assms] Cons
    by (simp add: scanLineNumber_def numberL_def digitsValue_def)
qed

lemma numberL_suffix: "numberL xs = Some (n, r) \<Longrightarrow> suffix r xs"
proof -
  assume "numberL xs = Some (n, r)"
  then have "r = dropWhile isDigitCode xs" by (auto simp: numberL_def split: list.splits if_splits)
  then show ?thesis by (simp add: suffix_dropWhile)
qed

fun separatorL :: "jstring \<Rightarrow> bool \<Rightarrow> jstring \<times> bool" where
  "separatorL [] consumed = ([], consumed)"
| "separatorL (x # xs) consumed =
     (if isWhitespaceCode x then separatorL xs True
      else if x = CHAR_HYPHEN \<or> x = CHAR_ELLIPSIS then separatorL xs True
      else if x = CHAR_DOT \<and> xs \<noteq> [] \<and> hd xs = CHAR_DOT then separatorL (tl xs) True
      else (x # xs, consumed))"

lemma separatorL_suffix: "separatorL xs b = (r, b') \<Longrightarrow> suffix r xs"
proof (induction xs b arbitrary: r b' rule: separatorL.induct)
  case (1 b)
  then show ?case by simp
next
  case (2 x xs b)
  have "suffix (tl xs) (x # xs)" by (cases xs) (auto simp: suffix_Cons)
  with 2 show ?case
    by (auto split: if_splits simp: suffix_Cons intro: suffix_order.trans)
qed

lemma scanAt_separator:
  "scanAt line e i xs \<Longrightarrow>
   scanSeparatorLoop line i e b = (e - length (fst (separatorL xs b)), snd (separatorL xs b))"
proof (induction xs b arbitrary: i rule: separatorL.induct)
  case (1 b)
  then have "i = e" by (rule scanAt_Nil)
  then show ?case by (subst scanSeparatorLoop.simps) simp
next
  case (2 x xs b)
  note c = scanAt_Cons [OF "2.prems"]
  note len = scanAt_length [OF "2.prems"]
  have second: "i + 1 < e \<and> line ! (i + 1) = CHAR_DOT \<longleftrightarrow> xs \<noteq> [] \<and> hd xs = CHAR_DOT"
    using c(3) scanAt_Cons [of line e "Suc i"] by (cases xs) (auto dest: scanAt_Nil)
  have tl: "xs \<noteq> [] \<Longrightarrow> scanAt line e (i + 2) (tl xs)"
    using c(3) scanAt_Cons(3) [of line e "Suc i" "hd xs" "tl xs"] by simp
  show ?case
    using c second tl len "2.IH"
    by (subst scanSeparatorLoop.simps) simp
qed


definition rangeSepL :: "jstring \<Rightarrow> jstring option" where
  "rangeSepL xs = (case separatorL xs False of (r, consumed) \<Rightarrow>
     if \<not> consumed \<or> r = [] \<or> \<not> isNonZeroDigitCode (hd r) then None else Some r)"

lemma rangeSepL_suffix: "rangeSepL xs = Some r \<Longrightarrow> suffix r xs"
  by (auto simp: rangeSepL_def split: prod.splits if_splits dest: separatorL_suffix)

lemma scanAt_rangeSep:
  assumes "scanAt line e i xs"
  shows "scanRangeSeparator line i e = map_option (\<lambda>r. e - length r) (rangeSepL xs)"
proof -
  obtain r b where r: "separatorL xs False = (r, b)" by fastforce
  then have at: "scanAt line e (e - length r) r"
    using scanAt_suffix [OF assms] separatorL_suffix by blast
  show ?thesis
    using scanAt_separator [OF assms, of False] r scanAt_hd [OF at]
    by (cases "r = []") (auto simp: scanRangeSeparator_def rangeSepL_def)
qed

definition headerRangeL :: "jstring \<Rightarrow> bool \<Rightarrow> (parsed_range \<times> jstring) option" where
  "headerRangeL xs allowSingle =
     (case numberL (skipWs xs) of None \<Rightarrow> None
      | Some (start, r1) \<Rightarrow>
          (case rangeSepL r1 of
             None \<Rightarrow> if \<not> allowSingle then None
               else Some (\<lparr>rangeStart = start, rangeEnd = start\<rparr>, skipWs r1)
           | Some r2 \<Rightarrow>
               (case numberL r2 of None \<Rightarrow> None
                | Some (n, r3) \<Rightarrow> Some (\<lparr>rangeStart = start, rangeEnd = n\<rparr>, skipWs r3))))"

lemma suffix_skipWs_trans: "suffix r xs \<Longrightarrow> suffix (skipWs r) xs"
  using suffix_order.trans suffix_skipWs by blast

lemma numberL_skipWs_suffix: "numberL (skipWs xs) = Some (n, r) \<Longrightarrow> suffix r xs"
  using numberL_suffix suffix_order.trans suffix_skipWs by blast

lemma headerRangeL_suffix: "headerRangeL xs a = Some (rg, r) \<Longrightarrow> suffix r xs"
  by (auto simp: headerRangeL_def split: option.splits prod.splits if_splits
        dest!: numberL_skipWs_suffix rangeSepL_suffix numberL_suffix
        intro!: suffix_skipWs_trans intro: suffix_order.trans)

lemma scanAt_skip_number:
  assumes "scanAt line e i xs"
  shows "scanLineNumber line (skipWhitespace line i e) e = atRest e (numberL (skipWs xs))"
  using scanAt_skipWs [OF assms] scanAt_number [of line e "e - length (skipWs xs)" "skipWs xs"] by simp

lemma scanAt_headerRange:
  assumes "scanAt line e i xs"
  shows "scanHeaderRange line i e allow = atRest e (headerRangeL xs allow)"
proof (cases "numberL (skipWs xs)")
  case None
  with scanAt_skip_number [OF assms] show ?thesis
    by (simp add: scanHeaderRange_def headerRangeL_def)
next
  case (Some p)
  then obtain s r1 where p: "numberL (skipWs xs) = Some (s, r1)" by (cases p) simp
  have at1: "scanAt line e (e - length r1) r1"
    using scanAt_suffix [OF assms] numberL_skipWs_suffix [OF p] by simp
  note sep = scanAt_rangeSep [OF at1]
  show ?thesis
  proof (cases "rangeSepL r1")
    case None
    then show ?thesis
      using p sep scanAt_skip_number [OF assms] scanAt_skipWs [OF at1]
      by (simp add: scanHeaderRange_def headerRangeL_def)
  next
    case (Some r2)
    then have at2: "scanAt line e (e - length r2) r2"
      using scanAt_suffix [OF at1] rangeSepL_suffix by blast
    note num = scanAt_number [OF at2]
    show ?thesis
    proof (cases "numberL r2")
      case None
      then show ?thesis using p sep Some num scanAt_skip_number [OF assms]
        by (simp add: scanHeaderRange_def headerRangeL_def)
    next
      case (Some q)
      then obtain n r3 where q: "numberL r2 = Some (n, r3)" by (cases q) simp
      then have at3: "scanAt line e (e - length r3) r3"
        using scanAt_suffix [OF at2] numberL_suffix by blast
      show ?thesis
        using p sep \<open>rangeSepL r1 = Some r2\<close> q num scanAt_skip_number [OF assms] scanAt_skipWs [OF at3]
        by (simp add: scanHeaderRange_def headerRangeL_def)
    qed
  qed
qed

definition keywordL :: "jstring \<Rightarrow> jstring \<Rightarrow> jstring option" where
  "keywordL kw xs =
     (if \<not> startsWith xs kw then None
      else let r = drop (length kw) xs in
        if r \<noteq> [] \<and> \<not> isWhitespaceCode (hd r) \<and> hd r \<noteq> CHAR_COLON then None else Some r)"

lemma keywordL_suffix: "keywordL kw xs = Some r \<Longrightarrow> suffix r xs"
  by (auto simp: keywordL_def Let_def suffix_drop split: if_splits)

lemma scanAt_startsWith:
  assumes "scanAt line e i xs" and "list_all (\<lambda>c. \<not> isWhitespaceCode c) kw"
  shows "startsWithAt line kw i \<longleftrightarrow> startsWith xs kw"
proof -
  have "drop i line = xs @ drop e line"
    using assms(1) by (metis append_take_drop_id drop_drop jslice_def le_add_diff_inverse2 scanAt_def)
  moreover have "list_all isWhitespaceCode (drop e line)" using assms(1) by (simp add: scanAt_def)
  ultimately have eq: "startsWithAt line kw i \<longleftrightarrow>
      take (length kw) xs @ take (length kw - length xs) (drop e line) = kw"
    by (simp add: startsWithAt_def)
  have ws: "list_all isWhitespaceCode (take n (drop e line))" for n
    using \<open>list_all isWhitespaceCode (drop e line)\<close> by (meson in_set_takeD list_all_iff)
  show ?thesis
  proof
    assume "startsWithAt line kw i"
    then have kw: "take (length kw) xs @ take (length kw - length xs) (drop e line) = kw"
      by (simp only: eq)
    have "take (length kw - length xs) (drop e line) = []"
    proof (rule ccontr)
      assume "take (length kw - length xs) (drop e line) \<noteq> []"
      then obtain c where "c \<in> set (take (length kw - length xs) (drop e line))"
        by (meson last_in_set)
      then have "isWhitespaceCode c" "c \<in> set kw"
        using ws [of "length kw - length xs"] kw by (auto simp: list_all_iff) (metis UnI2 set_append)
      then show False using assms(2) by (auto simp: list_all_iff)
    qed
    with kw show "startsWith xs kw" by (simp add: startsWith_def)
  next
    assume "startsWith xs kw"
    then have "take (length kw) xs = kw" "length kw \<le> length xs"
      by (auto simp: startsWith_def) (metis length_take min.cobounded1 min_def)
    then show "startsWithAt line kw i" by (simp add: eq)
  qed
qed

lemma scanAt_keyword:
  assumes "scanAt line e i xs" and "list_all (\<lambda>c. \<not> isWhitespaceCode c) kw"
  shows "scanKeyword line i e kw = map_option (\<lambda>r. e - length r) (keywordL kw xs)"
proof (cases "startsWith xs kw")
  case False
  with scanAt_startsWith [OF assms] show ?thesis by (simp add: scanKeyword_def keywordL_def)
next
  case True
  then obtain r where xs: "xs = kw @ r" by (auto simp: startsWith_iff_prefix prefix_def)
  with assms(1) have at: "scanAt line e (i + length kw) r" by (simp add: scanAt_append)
  have pos: "i + length kw = e - length r" using at scanAt_length by simp
  show ?thesis
    using scanAt_startsWith [OF assms] xs scanAt_hd [OF at] pos
    by (cases "r = []") (auto simp: scanKeyword_def keywordL_def Let_def)
qed

definition colonL :: "jstring \<Rightarrow> jstring" where
  "colonL xs = (case skipWs xs of [] \<Rightarrow> [] | c # r \<Rightarrow> if c = CHAR_COLON then skipWs r else c # r)"

lemma colonL_suffix [simp]: "suffix (colonL xs) xs"
proof (cases "skipWs xs")
  case Nil
  then show ?thesis by (simp add: colonL_def)
next
  case (Cons c r)
  then have "suffix (c # r) xs" using suffix_skipWs [of xs] by simp
  moreover from this have "suffix (skipWs r) xs"
    by (intro suffix_skipWs_trans) (rule suffix_ConsD)
  ultimately show ?thesis using Cons by (simp add: colonL_def)
qed

lemma scanAt_colon:
  assumes "scanAt line e i xs"
  shows "consumeOptionalColon line i e = e - length (colonL xs)"
proof -
  note sk = scanAt_skipWs [OF assms]
  show ?thesis
  proof (cases "skipWs xs")
    case Nil
    with sk show ?thesis by (simp add: consumeOptionalColon_def colonL_def)
  next
    case (Cons c r)
    note c = scanAt_Cons [OF conjunct2 [OF sk, unfolded Cons]]
    have "skipWhitespace line (Suc (e - length (skipWs xs))) e = e - length (skipWs r)"
      using scanAt_skipWs [OF c(3)] Cons by simp
    then show ?thesis
      using sk c(1,2) Cons by (simp add: consumeOptionalColon_def colonL_def Let_def)
  qed
qed


definition anchorL :: "(nat \<Rightarrow> block_target) \<Rightarrow> jstring \<Rightarrow> (block_target \<times> jstring) option" where
  "anchorL f xs = map_option (\<lambda>(n, r). (f n, colonL r)) (numberL (skipWs xs))"

definition noColonL :: "block_target \<Rightarrow> jstring \<Rightarrow> (block_target \<times> jstring) option" where
  "noColonL t xs = (let r = skipWs xs in if r \<noteq> [] \<and> hd r = CHAR_COLON then None else Some (t, r))"

definition insertTargetL :: "jstring \<Rightarrow> (block_target \<times> jstring) option" where
  "insertTargetL xs =
     (let ys = skipWs xs in
      case keywordL HL_INSERT_BEFORE ys of Some r \<Rightarrow> anchorL TInsertBefore r
      | None \<Rightarrow> (case keywordL HL_INSERT_AFTER ys of Some r \<Rightarrow> anchorL TInsertAfter r
      | None \<Rightarrow> (case keywordL HL_INSERT_HEAD ys of Some r \<Rightarrow> Some (TBof, colonL r)
      | None \<Rightarrow> (case keywordL HL_INSERT_TAIL ys of Some r \<Rightarrow> Some (TEof, colonL r) | None \<Rightarrow> None))))"

definition replaceTargetL :: "jstring \<Rightarrow> (block_target \<times> jstring) option" where
  "replaceTargetL xs =
     (case keywordL HL_BLOCK_KEYWORD (skipWs xs) of Some r \<Rightarrow> anchorL TBlock r
      | None \<Rightarrow> map_option (\<lambda>(rng, r). (TReplace rng, colonL r)) (headerRangeL xs True))"

definition deleteTargetL :: "jstring \<Rightarrow> (block_target \<times> jstring) option" where
  "deleteTargetL xs =
     (case keywordL HL_BLOCK_KEYWORD (skipWs xs) of
        Some r \<Rightarrow> Option.bind (numberL (skipWs r)) (\<lambda>(n, r'). noColonL (TDeleteBlock n) r')
      | None \<Rightarrow> Option.bind (headerRangeL xs True) (\<lambda>(rng, r). noColonL (TDelete rng) r))"

definition hunkL :: "jstring \<Rightarrow> (block_target \<times> jstring) option" where
  "hunkL xs =
     (let ys = skipWs xs in
      case keywordL HL_REPLACE_KEYWORD ys of Some r \<Rightarrow> replaceTargetL r
      | None \<Rightarrow> (case keywordL HL_DELETE_KEYWORD ys of Some r \<Rightarrow> deleteTargetL r
      | None \<Rightarrow> (case keywordL HL_INSERT_KEYWORD ys of Some r \<Rightarrow> insertTargetL r | None \<Rightarrow> None)))"

definition trimWs :: "jstring \<Rightarrow> jstring" where
  "trimWs line = rev (dropWhile isWhitespaceCode (rev line))"

text \<open>The reference reading of a hunk header: a grammar over the line's text, no index in sight.\<close>

definition hunkHeaderL :: "jstring \<Rightarrow> block_target option" where
  "hunkHeaderL line =
     (case hunkL (trimWs line) of Some (t, []) \<Rightarrow> Some t | _ \<Rightarrow> None)"

lemma scanAt_anchor:
  assumes "scanAt line e i xs"
  shows "(case scanLineNumber line (skipWhitespace line i e) e of None \<Rightarrow> None
          | Some (anchor, next) \<Rightarrow> Some (f anchor, consumeOptionalColon line next e)) = atRest e (anchorL f xs)"
proof (cases "numberL (skipWs xs)")
  case None
  with scanAt_skip_number [OF assms] show ?thesis by (simp add: anchorL_def)
next
  case (Some p)
  then obtain n r where p: "numberL (skipWs xs) = Some (n, r)" by (cases p) simp
  then have "scanAt line e (e - length r) r"
    using scanAt_suffix [OF assms] numberL_skipWs_suffix by blast
  from scanAt_colon [OF this] p scanAt_skip_number [OF assms] show ?thesis by (simp add: anchorL_def)
qed

lemma scanAt_noColon:
  assumes "scanAt line e i xs"
  shows "(let next = skipWhitespace line i e in
            if next < e \<and> line ! next = CHAR_COLON then None else Some (t, next)) = atRest e (noColonL t xs)"
  using scanAt_skipWs [OF assms] scanAt_hd [of line e _ "skipWs xs"]
  by (cases "skipWs xs = []") (auto simp: noColonL_def Let_def)

lemma hl_keywords_no_ws [simp]:
  "list_all (\<lambda>c. \<not> isWhitespaceCode c) HL_REPLACE_KEYWORD"
  "list_all (\<lambda>c. \<not> isWhitespaceCode c) HL_BLOCK_KEYWORD"
  "list_all (\<lambda>c. \<not> isWhitespaceCode c) HL_DELETE_KEYWORD"
  "list_all (\<lambda>c. \<not> isWhitespaceCode c) HL_INSERT_KEYWORD"
  "list_all (\<lambda>c. \<not> isWhitespaceCode c) HL_INSERT_BEFORE"
  "list_all (\<lambda>c. \<not> isWhitespaceCode c) HL_INSERT_AFTER"
  "list_all (\<lambda>c. \<not> isWhitespaceCode c) HL_INSERT_HEAD"
  "list_all (\<lambda>c. \<not> isWhitespaceCode c) HL_INSERT_TAIL"
  by (simp_all add: hl_keyword_defs isWhitespaceCode_def hl_char_defs)

lemma scanAt_keyword_rest:
  "scanAt line e i xs \<Longrightarrow> keywordL kw xs = Some r \<Longrightarrow> scanAt line e (e - length r) r"
  using scanAt_suffix keywordL_suffix by blast

lemma scanAt_insertTarget:
  assumes "scanAt line e i xs"
  shows "scanInsertTarget line i e = atRest e (insertTargetL xs)"
proof -
  note sk = scanAt_skipWs [OF assms]
  note kw = scanAt_keyword [OF conjunct2 [OF sk]]
  note rest = scanAt_keyword_rest [OF conjunct2 [OF sk]]
  note defs = scanInsertTarget_def insertTargetL_def Let_def sk kw
  show ?thesis
  proof (cases "keywordL HL_INSERT_BEFORE (skipWs xs)")
    case (Some r)
    from scanAt_anchor [OF rest [OF Some]] Some show ?thesis by (simp add: defs)
  next
    case before: None
    show ?thesis
    proof (cases "keywordL HL_INSERT_AFTER (skipWs xs)")
      case (Some r)
      from scanAt_anchor [OF rest [OF Some]] Some before show ?thesis by (simp add: defs)
    next
      case None
      with before scanAt_colon [OF rest] show ?thesis by (simp add: defs split: option.splits)
    qed
  qed
qed

lemma scanAt_replaceTarget:
  assumes "scanAt line e i xs"
  shows "scanReplaceTarget line i e = atRest e (replaceTargetL xs)"
proof -
  note sk = scanAt_skipWs [OF assms]
  note kw = scanAt_keyword [OF conjunct2 [OF sk]]
  note rest = scanAt_keyword_rest [OF conjunct2 [OF sk]]
  show ?thesis
  proof (cases "keywordL HL_BLOCK_KEYWORD (skipWs xs)")
    case (Some r)
    with sk kw rest show ?thesis
      by (simp add: scanReplaceTarget_def replaceTargetL_def scanAt_anchor)
  next
    case None
    note rng = scanAt_headerRange [OF assms, of True]
    show ?thesis
    proof (cases "headerRangeL xs True")
      case None
      with sk kw rng \<open>keywordL HL_BLOCK_KEYWORD (skipWs xs) = None\<close> show ?thesis
        by (simp add: scanReplaceTarget_def replaceTargetL_def)
    next
      case (Some p)
      then obtain g r where p: "headerRangeL xs True = Some (g, r)" by (cases p) simp
      then have "scanAt line e (e - length r) r"
        using scanAt_suffix [OF assms] headerRangeL_suffix by blast
      with sk kw rng p \<open>keywordL HL_BLOCK_KEYWORD (skipWs xs) = None\<close> show ?thesis
        by (simp add: scanReplaceTarget_def replaceTargetL_def scanAt_colon)
    qed
  qed
qed

lemma scanAt_deleteTarget:
  assumes "scanAt line e i xs"
  shows "scanDeleteTarget line i e = atRest e (deleteTargetL xs)"
proof -
  note sk = scanAt_skipWs [OF assms]
  note kw = scanAt_keyword [OF conjunct2 [OF sk]]
  note rest = scanAt_keyword_rest [OF conjunct2 [OF sk]]
  show ?thesis
  proof (cases "keywordL HL_BLOCK_KEYWORD (skipWs xs)")
    case (Some r)
    note at = rest [OF Some]
    show ?thesis
    proof (cases "numberL (skipWs r)")
      case None
      with sk kw Some scanAt_skip_number [OF at] show ?thesis
        by (simp add: scanDeleteTarget_def deleteTargetL_def)
    next
      case (Some p)
      then obtain n r' where p: "numberL (skipWs r) = Some (n, r')" by (cases p) simp
      then have "scanAt line e (e - length r') r'"
        using scanAt_suffix [OF at] numberL_skipWs_suffix by blast
      with sk kw p \<open>keywordL HL_BLOCK_KEYWORD (skipWs xs) = Some r\<close> scanAt_skip_number [OF at]
      show ?thesis by (simp add: scanDeleteTarget_def deleteTargetL_def scanAt_noColon)
    qed
  next
    case None
    note rng = scanAt_headerRange [OF assms, of True]
    show ?thesis
    proof (cases "headerRangeL xs True")
      case None
      with sk kw rng \<open>keywordL HL_BLOCK_KEYWORD (skipWs xs) = None\<close> show ?thesis
        by (simp add: scanDeleteTarget_def deleteTargetL_def)
    next
      case (Some p)
      then obtain g r where p: "headerRangeL xs True = Some (g, r)" by (cases p) simp
      then have "scanAt line e (e - length r) r"
        using scanAt_suffix [OF assms] headerRangeL_suffix by blast
      with sk kw rng p \<open>keywordL HL_BLOCK_KEYWORD (skipWs xs) = None\<close> show ?thesis
        by (simp add: scanDeleteTarget_def deleteTargetL_def scanAt_noColon)
    qed
  qed
qed

lemma scanAt_hunk:
  assumes "scanAt line e i xs"
  shows "scanHunkAnchor line i e = atRest e (hunkL xs)"
proof -
  note sk = scanAt_skipWs [OF assms]
  note kw = scanAt_keyword [OF conjunct2 [OF sk]]
  note rest = scanAt_keyword_rest [OF conjunct2 [OF sk]]
  show ?thesis
    unfolding scanHunkAnchor_def hunkL_def Let_def
    by (auto simp: sk kw scanAt_replaceTarget scanAt_deleteTarget scanAt_insertTarget
          split: option.splits dest!: rest)
qed

lemma trimEndFrom_eq:
  "e \<le> length line \<Longrightarrow> trimEndFrom line e = length (trimWs (take e line))"
proof (induction e)
  case 0
  then show ?case by (simp add: trimWs_def)
next
  case (Suc e)
  then show ?case by (simp add: trimWs_def take_Suc_conv_app_nth)
qed

lemma trimEndIndex_eq: "trimEndIndex line = length (trimWs line)"
  by (simp add: trimEndIndex_def trimEndFrom_eq)

lemma trimWs_split: "line = trimWs line @ drop (length (trimWs line)) line"
  "list_all isWhitespaceCode (drop (length (trimWs line)) line)"
proof -
  have eq: "line = trimWs line @ rev (takeWhile isWhitespaceCode (rev line))"
    by (metis rev_append rev_rev_ident takeWhile_dropWhile_id trimWs_def)
  then have d: "drop (length (trimWs line)) line = rev (takeWhile isWhitespaceCode (rev line))"
    by (metis append_eq_conv_conj)
  show "line = trimWs line @ drop (length (trimWs line)) line" using eq d by simp
  show "list_all isWhitespaceCode (drop (length (trimWs line)) line)"
    unfolding d by (auto simp: list_all_iff dest: set_takeWhileD)
qed

lemma scanAt_start: "scanAt line (trimEndIndex line) 0 (trimWs line)"
proof -
  have "length (trimWs line) \<le> length line" using trimWs_split(1) [of line]
    by (metis length_append le_add1)
  moreover have "take (length (trimWs line)) line = trimWs line"
    using trimWs_split(1) [of line] by (metis append_eq_conv_conj)
  ultimately show ?thesis
    using trimWs_split(2) [of line] by (simp add: scanAt_def trimEndIndex_eq jslice_def)
qed

lemma anchorL_suffix: "anchorL f xs = Some (t, r) \<Longrightarrow> suffix r xs"
  using numberL_skipWs_suffix suffix_order.trans [OF colonL_suffix]
  by (fastforce simp: anchorL_def)

lemma noColonL_suffix: "noColonL t xs = Some (t', r) \<Longrightarrow> suffix r xs"
  by (auto simp: noColonL_def Let_def split: if_splits)

lemma keywordL_skipWs_suffix: "keywordL kw (skipWs xs) = Some r \<Longrightarrow> suffix r xs"
  using keywordL_suffix suffix_order.trans suffix_skipWs by blast

lemma keywordL_rest: "keywordL kw (skipWs xs) = Some r \<Longrightarrow> suffix s r \<Longrightarrow> suffix s xs"
  using keywordL_skipWs_suffix suffix_order.trans by blast

lemma insertTargetL_suffix: "insertTargetL xs = Some (t, r) \<Longrightarrow> suffix r xs"
  by (auto simp: insertTargetL_def Let_def split: option.splits dest!: anchorL_suffix
        intro: keywordL_rest)

lemma replaceTargetL_suffix: "replaceTargetL xs = Some (t, r) \<Longrightarrow> suffix r xs"
  using suffix_order.trans [OF _ keywordL_skipWs_suffix] suffix_order.trans [OF colonL_suffix]
  by (fastforce simp: replaceTargetL_def split: option.splits dest: anchorL_suffix headerRangeL_suffix)

lemma deleteTargetL_suffix: "deleteTargetL xs = Some (t, r) \<Longrightarrow> suffix r xs"
  using suffix_order.trans [OF _ keywordL_skipWs_suffix] suffix_order.trans [OF noColonL_suffix]
  by (fastforce simp: deleteTargetL_def split: option.splits bind_splits
        dest: headerRangeL_suffix numberL_skipWs_suffix)

lemma hunkL_suffix: "hunkL xs = Some (t, r) \<Longrightarrow> suffix r xs"
  using suffix_order.trans [OF _ keywordL_skipWs_suffix]
  by (fastforce simp: hunkL_def Let_def split: option.splits
        dest: insertTargetL_suffix replaceTargetL_suffix deleteTargetL_suffix)

lemma hunkL_skipWs: "skipWs xs = [] \<Longrightarrow> hunkL xs = None"
  by (simp add: hunkL_def keywordL_def startsWith_def hl_keyword_defs)

lemma skipWs_idem [simp]: "skipWs (skipWs xs) = skipWs xs"
  by (simp add: skipWs_def dropWhile_idem)

lemma hunkL_of_skipWs [simp]: "hunkL (skipWs xs) = hunkL xs"
  by (simp add: hunkL_def)

lemma tryParseHunkHeader_eq: "tryParseHunkHeader line = hunkHeaderL line"
proof -
  let ?e = "trimEndIndex line" and ?t = "trimWs line"
  note sk = scanAt_skipWs [OF scanAt_start [of line]]
  note hunk = scanAt_hunk [OF conjunct2 [OF sk]]
  show ?thesis
  proof (cases "skipWs ?t")
    case Nil
    with sk hunkL_skipWs [OF Nil] show ?thesis
      by (simp add: tryParseHunkHeader_def hunkHeaderL_def)
  next
    case (Cons x xs)
    then have "?e - length (skipWs ?t) < ?e" using scanAt_length [OF conjunct2 [OF sk]] by simp
    moreover have "length r \<le> ?e" if "hunkL ?t = Some (t, r)" for t r
      using hunkL_suffix [OF that] by (simp add: trimEndIndex_eq suffix_length_le)
    ultimately show ?thesis
      using sk hunk
      by (auto simp: tryParseHunkHeader_def hunkHeaderL_def Let_def neq_Nil_conv
            split: option.splits list.splits prod.splits)
  qed
qed

section \<open>Headers read back\<close>

lemma isDigitCode_iff: "isDigitCode = isJsDigit"
  by (auto simp: isDigitCode_def isJsDigit_def hl_char_defs fun_eq_iff)

lemma numberL_natToString:
  assumes "0 < n" and "xs = [] \<or> \<not> isDigitCode (hd xs)"
  shows "numberL (natToString n @ xs) = Some (n, xs)"
proof -
  have digits: "\<forall>c \<in> set (natToString n). isDigitCode c"
    using natToString_digits by (simp add: isDigitCode_iff)
  then have "takeWhile isDigitCode (natToString n @ xs) = natToString n"
    "dropWhile isDigitCode (natToString n @ xs) = xs"
    using assms(2) by (cases xs; simp add: takeWhile_append2 dropWhile_append2)+
  moreover obtain c cs where c: "natToString n = c # cs" by (cases "natToString n") simp_all
  moreover have "isNonZeroDigitCode c"
    using hd_natToString [OF assms(1)] c by (simp add: isNonZeroDigitCode_def hl_char_defs)
  moreover have "digitsValue (c # cs) = n" using digitsValue_natToString [of n] c by simp
  ultimately show ?thesis by (simp add: numberL_def)
qed

lemma skipWs_natToString [simp]: "skipWs (natToString n @ xs) = natToString n @ xs"
proof -
  obtain c cs where c: "natToString n = c # cs" by (cases "natToString n") simp_all
  then have "isJsDigit c" using natToString_digits [of c n] by simp
  then have "\<not> isWhitespaceCode c" by (simp add: isJsDigit_def isWhitespaceCode_def hl_char_defs)
  then show ?thesis by (simp add: c skipWs_def)
qed

lemma trimWs_snoc: "\<not> isWhitespaceCode c \<Longrightarrow> trimWs (xs @ [c]) = xs @ [c]"
  by (simp add: trimWs_def)

lemma trimWs_natToString [simp]: "trimWs (xs @ natToString n) = xs @ natToString n"
proof -
  obtain cs c where c: "natToString n = cs @ [c]" by (cases "natToString n" rule: rev_cases) simp_all
  then have "isJsDigit c" using natToString_digits [of c n] by simp
  then have "\<not> isWhitespaceCode c" by (simp add: isJsDigit_def isWhitespaceCode_def hl_char_defs)
  then show ?thesis by (simp add: c trimWs_def)
qed

lemma skipWs_space [simp]: "skipWs (32 # xs) = skipWs xs"
  by (simp add: skipWs_def isWhitespaceCode_def hl_char_defs)

lemma skipWs_Nil [simp]: "skipWs [] = []"
  by (simp add: skipWs_def)

lemma skipWs_natToString_only [simp]: "skipWs (natToString n) = natToString n"
  using skipWs_natToString [of n "[]"] by simp

lemma skipWs_colon [simp]: "skipWs [58] = [58]" "colonL [58] = []"
  by (simp_all add: colonL_def skipWs_def code_class_defs hl_char_defs hl_keyword_defs)

lemma keywordL_space: "keywordL kw (kw @ 32 # xs) = Some (32 # xs)"
  by (simp add: keywordL_def isWhitespaceCode_def hl_char_defs)

lemma keywordL_colon: "keywordL kw (kw @ 58 # xs) = Some (58 # xs)"
  by (simp add: keywordL_def hl_char_defs hl_keyword_defs)

lemma keywordL_natToString:
  assumes "0 < n"
  shows "keywordL HL_BLOCK_KEYWORD (natToString n @ xs) = None"
proof -
  obtain c cs where c: "natToString n = c # cs" by (cases "natToString n") simp_all
  with hd_natToString [OF assms] show ?thesis
    by (simp add: keywordL_def startsWith_def hl_keyword_defs)
qed

lemma rangeSepL_dots:
  assumes "0 < n"
  shows "rangeSepL (46 # 46 # natToString n @ xs) = Some (natToString n @ xs)"
proof -
  obtain c cs where c: "natToString n = c # cs" by (cases "natToString n") simp_all
  with hd_natToString [OF assms] show ?thesis
    by (simp add: rangeSepL_def code_class_defs hl_char_defs)
qed

lemma headerRangeL_range:
  assumes "0 < a" "0 < b" and "xs = [] \<or> xs = [58]"
  shows "headerRangeL (32 # natToString a @ 46 # 46 # natToString b @ xs) True =
    Some (\<lparr>rangeStart = a, rangeEnd = b\<rparr>, xs)"
proof -
  have "numberL (natToString a @ 46 # 46 # natToString b @ xs) = Some (a, 46 # 46 # natToString b @ xs)"
    by (rule numberL_natToString [OF assms(1)]) (simp add: code_class_defs hl_char_defs)
  moreover have "numberL (natToString b @ xs) = Some (b, xs)"
    by (rule numberL_natToString [OF assms(2)]) (use assms(3) in \<open>auto simp: code_class_defs hl_char_defs\<close>)
  moreover have "skipWs xs = xs" using assms(3) by (auto simp: skipWs_def code_class_defs hl_char_defs)
  ultimately show ?thesis using rangeSepL_dots [OF assms(2)] by (simp add: headerRangeL_def)
qed

lemma headerRangeL_single:
  assumes "0 < a"
  shows "headerRangeL (32 # natToString a) True = Some (\<lparr>rangeStart = a, rangeEnd = a\<rparr>, [])"
  using numberL_natToString [OF assms, of "[]"] by (simp add: headerRangeL_def rangeSepL_def)

lemma anchorL_natToString:
  "0 < a \<Longrightarrow> anchorL f (32 # natToString a @ [58]) = Some (f a, [])"
  using numberL_natToString [of a "[58]"] by (simp add: anchorL_def code_class_defs hl_char_defs)

lemma trimWs_last_colon: "trimWs (xs @ [58]) = xs @ [58]"
  by (simp add: trimWs_snoc code_class_defs hl_char_defs)

lemma hunkL_keyword:
  "hunkL (HL_REPLACE_KEYWORD @ 32 # xs) = replaceTargetL (32 # xs)"
  "hunkL (HL_DELETE_KEYWORD @ 32 # xs) = deleteTargetL (32 # xs)"
  "hunkL (HL_INSERT_KEYWORD @ 32 # xs) = insertTargetL (32 # xs)"
proof -
  have "skipWs (HL_REPLACE_KEYWORD @ 32 # xs) = HL_REPLACE_KEYWORD @ 32 # xs"
    "skipWs (HL_DELETE_KEYWORD @ 32 # xs) = HL_DELETE_KEYWORD @ 32 # xs"
    "skipWs (HL_INSERT_KEYWORD @ 32 # xs) = HL_INSERT_KEYWORD @ 32 # xs"
    by (simp_all add: skipWs_def hl_keyword_defs isWhitespaceCode_def hl_char_defs)
  moreover have "keywordL HL_REPLACE_KEYWORD (HL_DELETE_KEYWORD @ 32 # xs) = None"
    "keywordL HL_REPLACE_KEYWORD (HL_INSERT_KEYWORD @ 32 # xs) = None"
    "keywordL HL_DELETE_KEYWORD (HL_INSERT_KEYWORD @ 32 # xs) = None"
    by (simp_all add: keywordL_def startsWith_def hl_keyword_defs)
  ultimately show "hunkL (HL_REPLACE_KEYWORD @ 32 # xs) = replaceTargetL (32 # xs)"
    "hunkL (HL_DELETE_KEYWORD @ 32 # xs) = deleteTargetL (32 # xs)"
    "hunkL (HL_INSERT_KEYWORD @ 32 # xs) = insertTargetL (32 # xs)"
    by (simp_all add: hunkL_def keywordL_space)
qed

lemma parse_formatReplaceHeader:
  assumes "0 < a" and "0 < b"
  shows "tryParseHunkHeader (formatReplaceHeader a b) = Some (TReplace \<lparr>rangeStart = a, rangeEnd = b\<rparr>)"
proof -
  let ?r = "32 # natToString a @ 46 # 46 # natToString b @ [58]"
  have fmt: "formatReplaceHeader a b = HL_REPLACE_KEYWORD @ ?r"
    by (simp add: formatReplaceHeader_def HL_RANGE_SEP_def HL_HEADER_COLON_def)
  have "trimWs (HL_REPLACE_KEYWORD @ ?r) = HL_REPLACE_KEYWORD @ ?r"
    using trimWs_last_colon [of "HL_REPLACE_KEYWORD @ 32 # natToString a @ 46 # 46 # natToString b"] by simp
  then show ?thesis
    using headerRangeL_range [OF assms, of "[58]"] keywordL_natToString [OF assms(1)]
    by (simp add: fmt tryParseHunkHeader_eq hunkHeaderL_def hunkL_keyword replaceTargetL_def)
qed

lemma parse_formatDeleteHeader:
  assumes "0 < a" and "0 < b"
  shows "tryParseHunkHeader (formatDeleteHeader a b) = Some (TDelete \<lparr>rangeStart = a, rangeEnd = b\<rparr>)"
proof (cases "a = b")
  case True
  have "trimWs (HL_DELETE_KEYWORD @ 32 # natToString a) = HL_DELETE_KEYWORD @ 32 # natToString a"
    using trimWs_natToString [of "HL_DELETE_KEYWORD @ [32]" a] by simp
  then show ?thesis
    using True headerRangeL_single [OF assms(1)] keywordL_natToString [OF assms(1), of "[]"]
    by (simp add: formatDeleteHeader_def tryParseHunkHeader_eq hunkHeaderL_def hunkL_keyword
        deleteTargetL_def noColonL_def)
next
  case False
  have "trimWs (HL_DELETE_KEYWORD @ 32 # natToString a @ 46 # 46 # natToString b) =
      HL_DELETE_KEYWORD @ 32 # natToString a @ 46 # 46 # natToString b"
    using trimWs_natToString [of "HL_DELETE_KEYWORD @ 32 # natToString a @ [46, 46]" b] by simp
  then show ?thesis
    using False headerRangeL_range [OF assms, of "[]"] keywordL_natToString [OF assms(1)]
    by (simp add: formatDeleteHeader_def tryParseHunkHeader_eq hunkHeaderL_def hunkL_keyword
        deleteTargetL_def noColonL_def HL_RANGE_SEP_def)
qed

fun cursorTarget :: "cursor \<Rightarrow> block_target" where
  "cursorTarget (BeforeAnchor a) = TInsertBefore a"
| "cursorTarget (AfterAnchor a) = TInsertAfter a"
| "cursorTarget Bof = TBof"
| "cursorTarget Eof = TEof"

lemma parse_formatInsertHeader:
  assumes "list_all (\<lambda>a. 0 < a) (getCursorAnchors c)"
  shows "tryParseHunkHeader (formatInsertHeader c) = Some (cursorTarget c)"
proof -
  have sk: "skipWs (HL_INSERT_BEFORE @ xs) = HL_INSERT_BEFORE @ xs"
    "skipWs (HL_INSERT_AFTER @ xs) = HL_INSERT_AFTER @ xs"
    "skipWs (HL_INSERT_HEAD @ xs) = HL_INSERT_HEAD @ xs"
    "skipWs (HL_INSERT_TAIL @ xs) = HL_INSERT_TAIL @ xs" for xs
    by (simp_all add: skipWs_def hl_keyword_defs isWhitespaceCode_def hl_char_defs)
  have no: "keywordL HL_INSERT_BEFORE (HL_INSERT_AFTER @ xs) = None"
    "keywordL HL_INSERT_BEFORE (HL_INSERT_HEAD @ xs) = None"
    "keywordL HL_INSERT_BEFORE (HL_INSERT_TAIL @ xs) = None"
    "keywordL HL_INSERT_AFTER (HL_INSERT_HEAD @ xs) = None"
    "keywordL HL_INSERT_AFTER (HL_INSERT_TAIL @ xs) = None"
    "keywordL HL_INSERT_HEAD (HL_INSERT_TAIL @ xs) = None" for xs
    by (simp_all add: keywordL_def startsWith_def hl_keyword_defs)
  have tr: "trimWs (HL_INSERT_KEYWORD @ 32 # xs @ [58]) = HL_INSERT_KEYWORD @ 32 # xs @ [58]" for xs
    using trimWs_last_colon [of "HL_INSERT_KEYWORD @ 32 # xs"] by simp
  note defs = tryParseHunkHeader_eq hunkHeaderL_def hunkL_keyword insertTargetL_def sk no
    keywordL_space keywordL_colon anchorL_natToString HL_HEADER_COLON_def
  show ?thesis
  proof (cases c)
    case Bof
    then show ?thesis using tr [of HL_INSERT_HEAD] by (simp add: defs)
  next
    case Eof
    then show ?thesis using tr [of HL_INSERT_TAIL] by (simp add: defs)
  next
    case (BeforeAnchor a)
    then show ?thesis using assms tr [of "HL_INSERT_BEFORE @ 32 # natToString a"] by (simp add: defs)
  next
    case (AfterAnchor a)
    then show ?thesis using assms tr [of "HL_INSERT_AFTER @ 32 # natToString a"] by (simp add: defs)
  qed
qed

section \<open>Line numbers of a header are positive\<close>

fun targetLines :: "block_target \<Rightarrow> nat list" where
  "targetLines (TReplace r) = [rangeStart r, rangeEnd r]"
| "targetLines (TDelete r) = [rangeStart r, rangeEnd r]"
| "targetLines (TBlock a) = [a]"
| "targetLines (TDeleteBlock a) = [a]"
| "targetLines (TInsertBefore a) = [a]"
| "targetLines (TInsertAfter a) = [a]"
| "targetLines TBof = []"
| "targetLines TEof = []"

lemma fold_digits_ge: "n \<le> fold (\<lambda>d acc. acc * 10 + (d - 48)) ds (n :: nat)"
proof (induction ds arbitrary: n)
  case Nil
  then show ?case by simp
next
  case (Cons d ds)
  from Cons [of "n * 10 + (d - 48)"] show ?case by simp
qed

lemma numberL_pos: "numberL xs = Some (n, r) \<Longrightarrow> 0 < n"
proof -
  assume "numberL xs = Some (n, r)"
  then obtain x ys where x: "xs = x # ys" "isNonZeroDigitCode x"
    "n = digitsValue (takeWhile isDigitCode xs)"
    by (auto simp: numberL_def split: list.splits if_splits)
  then have "n = fold (\<lambda>d acc. acc * 10 + (d - 48)) (takeWhile isDigitCode ys) (x - 48)"
    by (auto simp: digitsValue_def isNonZeroDigitCode_def isDigitCode_def hl_char_defs)
  moreover have "0 < x - 48" using x(2) by (simp add: isNonZeroDigitCode_def hl_char_defs)
  ultimately show ?thesis using fold_digits_ge [of "x - 48"] by (metis le_zero_eq neq0_conv)
qed

lemma headerRangeL_pos: "headerRangeL xs a = Some (g, r) \<Longrightarrow> 0 < rangeStart g \<and> 0 < rangeEnd g"
  by (auto simp: headerRangeL_def split: option.splits if_splits dest!: numberL_pos)

lemma hunkL_pos:
  assumes "hunkL xs = Some (t, r)"
  shows "list_all (\<lambda>n. 0 < n) (targetLines t)"
proof -
  have ins: "insertTargetL ys = Some (t, r) \<Longrightarrow> ?thesis" for ys
    by (auto simp: insertTargetL_def anchorL_def Let_def split: option.splits dest!: numberL_pos)
  have rep: "replaceTargetL ys = Some (t, r) \<Longrightarrow> ?thesis" for ys
    by (auto simp: replaceTargetL_def anchorL_def split: option.splits
        dest!: numberL_pos headerRangeL_pos)
  have del: "deleteTargetL ys = Some (t, r) \<Longrightarrow> ?thesis" for ys
    by (auto simp: deleteTargetL_def noColonL_def Let_def split: option.splits bind_splits if_splits
        dest!: numberL_pos headerRangeL_pos)
  show ?thesis
    using assms ins rep del by (auto simp: hunkL_def Let_def split: option.splits)
qed

lemma tryParseHunkHeader_pos:
  "tryParseHunkHeader line = Some t \<Longrightarrow> list_all (\<lambda>n. 0 < n) (targetLines t)"
  by (auto simp: tryParseHunkHeader_eq hunkHeaderL_def split: option.splits list.splits prod.splits
      intro: hunkL_pos)

lemma classifyLine_OpBlock:
  "classifyLine line n = OpBlock m t \<longleftrightarrow> m = n \<and> line \<noteq> [] \<and> \<not> isEnvelopeMarker line
     \<and> tryParseHeader line = None \<and> isHunkLead line \<and> tryParseHunkHeader line = Some t"
  by (auto simp: classifyLine_def isEnvelopeMarker_def isEmptyLine_def split: option.splits if_splits)

lemma classifyLine_lineNum [simp]: "tlineNum (classifyLine line n) = n"
  by (simp add: classifyLine_def split: option.splits)

text \<open>A line that starts with a hunk keyword and parses as a header is classified as one.\<close>

lemma classify_hunk_header:
  assumes "tryParseHunkHeader (kw @ xs) = Some t"
    and "kw \<in> {HL_REPLACE_KEYWORD, HL_DELETE_KEYWORD, HL_INSERT_KEYWORD}"
  shows "classifyLine (kw @ xs) n = OpBlock n t"
proof -
  have "kw \<noteq> []" "hd kw \<in> {114, 100, 105}" using assms(2) by (auto simp: hl_keyword_defs)
  then obtain c cs where c: "kw = c # cs" "c \<in> {114, 100, 105}" by (cases kw) auto
  have "\<not> isWhitespaceCode c" using c(2) by (auto simp: code_class_defs hl_char_defs)
  then have lead: "skipWhitespace (kw @ xs) 0 (length (kw @ xs)) = 0"
    using c by (subst skipWhitespace.simps) simp
  have "startsWithAt (kw @ xs) kw 0" by (simp add: startsWithAt_def)
  then have "isHunkLead (kw @ xs)" using assms(2) lead by (auto simp: isHunkLead_def)
  moreover have "\<not> isEnvelopeMarker (kw @ xs)" "tryParseHeader (kw @ xs) = None"
    using c by (auto simp: isEnvelopeMarker_def markerLineEquals_def startsWith_def hl_marker_defs
        tryParseHeader_def HL_FILE_PREFIX_def)
  ultimately show ?thesis using assms(1) c by (simp add: classifyLine_OpBlock)
qed

lemma classify_formatted_headers:
  assumes "0 < a" "0 < b"
  shows "classifyLine (formatReplaceHeader a b) n = OpBlock n (TReplace \<lparr>rangeStart = a, rangeEnd = b\<rparr>)"
    and "classifyLine (formatDeleteHeader a b) n = OpBlock n (TDelete \<lparr>rangeStart = a, rangeEnd = b\<rparr>)"
  using classify_hunk_header [OF parse_formatReplaceHeader [OF assms, unfolded formatReplaceHeader_def], of n]
    classify_hunk_header [of HL_DELETE_KEYWORD "drop 6 (formatDeleteHeader a b)" _ n]
    parse_formatDeleteHeader [OF assms]
  by (auto simp: formatReplaceHeader_def formatDeleteHeader_def hl_keyword_defs)

lemma classify_formatInsertHeader:
  assumes "list_all (\<lambda>a. 0 < a) (getCursorAnchors c)"
  shows "classifyLine (formatInsertHeader c) n = OpBlock n (cursorTarget c)"
  using parse_formatInsertHeader [OF assms]
    classify_hunk_header [of HL_INSERT_KEYWORD "drop 6 (formatInsertHeader c)" _ n]
  by (cases c) (auto simp: hl_keyword_defs)

text \<open>A formatted section header is read back as its path and tag.\<close>

definition plainPath :: "jstring \<Rightarrow> bool" where
  "plainPath p \<longleftrightarrow> p \<noteq> [] \<and> list_all (\<lambda>c. c \<noteq> CHAR_HASH \<and> c \<noteq> CHAR_SPACE \<and> c \<noteq> CHAR_TAB) p"

definition validTag :: "jstring \<Rightarrow> bool" where
  "validTag h \<longleftrightarrow> length h = HL_FILE_HASH_LENGTH \<and> list_all isUpperHex h"

lemma validTag_computeFileHash [simp]: "validTag (computeFileHash xxh text)"
  using computeFileHash_upper by (auto simp: validTag_def length_computeFileHash list_all_iff)

lemma scanPath_eq:
  "e \<le> length line \<Longrightarrow> i \<le> e \<Longrightarrow> list_all (\<lambda>c. c \<noteq> CHAR_HASH \<and> c \<noteq> CHAR_SPACE \<and> c \<noteq> CHAR_TAB) (jslice line i k)
   \<Longrightarrow> i \<le> k \<Longrightarrow> k < e \<Longrightarrow> line ! k = CHAR_HASH \<Longrightarrow> scanPath line i e = k"
proof (induction line i e rule: scanPath.induct)
  case (1 line i e)
  show ?case
  proof (cases "i = k")
    case True
    with "1.prems" show ?thesis by (subst scanPath.simps) simp
  next
    case False
    then have ik: "i < k" using "1.prems" by simp
    have s: "jslice line i k = line ! i # jslice line (Suc i) k"
      using ik "1.prems" by (simp add: jslice_def Cons_nth_drop_Suc [symmetric] Suc_diff_Suc take_Cons')
    with "1.prems" ik "1.IH" show ?thesis by (subst scanPath.simps) simp
  qed
qed

lemma tryParseHeader_format:
  assumes "plainPath p" and "validTag h"
  shows "tryParseHeader (formatHashlineHeader p h) = Some (p, Some h)"
proof -
  let ?l = "formatHashlineHeader p h" and ?k = "Suc (length p)"
  have l: "?l = 182 # p @ 35 # h" by (simp add: formatHashlineHeader_def hl_keyword_defs)
  have h: "length h = 4" "list_all isUpperHex h" using assms(2) by (auto simp: validTag_def HL_FILE_HASH_LENGTH_def)
  then have "h \<noteq> []" by auto
  then obtain hs c where hs: "h = hs @ [c]" by (cases h rule: rev_cases) auto
  then have "isUpperHex c" using h by simp
  then have "\<not> isWhitespaceCode c" by (auto simp: isUpperHex_def isJsDigit_def code_class_defs hl_char_defs)
  then have "trimWs (182 # p @ 35 # h) = 182 # p @ 35 # h"
    using trimWs_snoc [of c "182 # p @ 35 # hs"] by (simp add: hs)
  then have e: "trimEndIndex ?l = length p + 6"
    using h(1) by (simp add: trimEndIndex_eq l)
  have len: "length ?l = length p + 6" using h(1) by (simp add: l)
  have idx: "?l ! ?k = CHAR_HASH" by (simp add: l CHAR_HASH_def)
  have path: "jslice ?l 1 ?k = p" by (simp add: l jslice_def)
  have scan: "scanPath ?l 1 (length p + 6) = ?k"
    by (rule scanPath_eq) (use assms(1) path idx len in \<open>auto simp: plainPath_def\<close>)
  have hash: "jslice ?l (Suc ?k) (?k + 5) = h" using h(1) by (simp add: l jslice_def)
  have nth: "?l ! (Suc ?k + j) = h ! j" if "j < 4" for j
    using that by (simp add: l nth_append)
  have "list_all (\<lambda>probe. isHexDigitCode (?l ! probe)) [Suc ?k ..< ?k + 5]"
    unfolding list_all_iff
  proof
    fix i assume "i \<in> set [Suc ?k ..< ?k + 5]"
    then obtain j where j: "i = Suc ?k + j" "j < 4" by (auto simp: le_iff_add)
    then have "isUpperHex (h ! j)" using h by (simp add: list_all_length)
    with nth [OF j(2)] j(1) show "isHexDigitCode (?l ! i)"
      by (auto simp: isUpperHex_def isJsDigit_def code_class_defs hl_char_defs)
  qed
  moreover have "map toUpperAscii h = h"
    using h(2) by (auto simp: list_all_iff isUpperHex_def isJsDigit_def toUpperAscii_def intro!: map_idI)
  moreover have "skipWhitespace ?l (length p + 6) (length p + 6) = length p + 6"
    by (subst skipWhitespace.simps) simp
  moreover have "startsWith ?l HL_FILE_PREFIX" by (simp add: l HL_FILE_PREFIX_def startsWith_def)
  moreover have "length p \<noteq> 0" using assms(1) by (simp add: plainPath_def)
  ultimately show ?thesis
    using e scan idx path hash
    by (simp add: tryParseHeader_def FILE_PREFIX_LENGTH_def HL_FILE_PREFIX_def HL_FILE_HASH_LENGTH_def
        Let_def numeral_eq_Suc)
qed

lemma classify_formatHashlineHeader:
  assumes "plainPath p" and "validTag h"
  shows "classifyLine (formatHashlineHeader p h) n = Header n p (Some h)"
proof -
  have "\<not> isEnvelopeMarker (formatHashlineHeader p h)" "formatHashlineHeader p h \<noteq> []"
    by (simp_all add: formatHashlineHeader_def hl_keyword_defs isEnvelopeMarker_def
        markerLineEquals_def startsWith_def hl_marker_defs)
  with tryParseHeader_format [OF assms] show ?thesis
    by (simp add: classifyLine_def isEnvelopeMarker_def isEmptyLine_def)
qed

text \<open>A payload row reads back as its text, whatever the text is.\<close>

lemma classify_payload: "classifyLine (CHAR_PAYLOAD_REPLACE # text) n = PayloadLiteral n text"
proof -
  let ?l = "CHAR_PAYLOAD_REPLACE # text"
  have "skipWhitespace ?l 0 (length ?l) = 0"
    by (subst skipWhitespace.simps) (simp add: code_class_defs hl_char_defs hl_keyword_defs)
  then have "\<not> isHunkLead ?l"
    by (simp add: isHunkLead_def startsWithAt_def hl_char_defs hl_keyword_defs)
  then show ?thesis
    by (simp add: classifyLine_def isEmptyLine_def markerLineEquals_def startsWith_def hl_marker_defs
        tryParseHeader_def hl_char_defs hl_keyword_defs)
qed

section \<open>Properties\<close>

text \<open>Round trip of a section header: the header that \<open>formatHashlineHeader\<close> writes for a path without
  blanks or \<open>#\<close> and for the computed hash of any text classifies as a file header with that path and
  that tag, whatever the line number and whatever the hash function.\<close>

theorem section_header_roundtrip:
  assumes "p \<noteq> []" and "list_all (\<lambda>c. c \<noteq> CHAR_HASH \<and> c \<noteq> CHAR_SPACE \<and> c \<noteq> CHAR_TAB) p"
  shows "classifyLine (formatHashlineHeader p (computeFileHash xxh content)) n =
     Header n p (Some (computeFileHash xxh content))"
  using assms by (intro classify_formatHashlineHeader) (simp_all add: plainPath_def)

lemma section_header_roundtrip_witness:
  "classifyLine (formatHashlineHeader (js ''a.ts'') (computeFileHash (\<lambda>_. 7) (js ''x''))) 3 =
     Header 3 (js ''a.ts'') (Some (computeFileHash (\<lambda>_. 7) (js ''x'')))"
  by (rule section_header_roundtrip) (simp_all add: hl_char_defs)

end
