(* ===== verification/Hl_Tokenizer_Stream.thy ===== *)
theory Hl_Tokenizer_Stream
  imports Hl_Tokenizer_Facts
begin

text \<open>
  The incremental tokenizer of tokenizer.ts against a reference that splits the whole text at once:
  however a patch is cut into chunks, the tokens and line numbers are those of its lines.
\<close>

section \<open>The reference: lines of a text and their tokens\<close>

definition stripCR :: "jstring \<Rightarrow> jstring" where
  "stripCR l = (if l \<noteq> [] \<and> List.last l = CHAR_CARRIAGE_RETURN then butlast l else l)"

definition patchLines :: "jstring \<Rightarrow> jstring list" where
  "patchLines s =
     (let ls = splitLines s in map stripCR (if List.last ls = [] then butlast ls else ls))"

fun classifyFrom :: "nat \<Rightarrow> jstring list \<Rightarrow> token list" where
  "classifyFrom n [] = []"
| "classifyFrom n (l # ls) = classifyLine l n # classifyFrom (Suc n) ls"

definition patchTokens :: "jstring \<Rightarrow> token list" where
  "patchTokens s = classifyFrom 1 (patchLines s)"

lemma classifyFrom_append:
  "classifyFrom n (xs @ ys) = classifyFrom n xs @ classifyFrom (n + length xs) ys"
  by (induction xs arbitrary: n) simp_all

lemma length_classifyFrom [simp]: "length (classifyFrom n ls) = length ls"
  by (induction ls arbitrary: n) simp_all

section \<open>The loops of the code\<close>

lemma jslice_lineStop:
  assumes "s \<le> i" and "i \<le> length buf"
  shows "jslice buf s (lineStop buf s i) = stripCR (jslice buf s i)"
proof (cases "s < i")
  case True
  define l where "l = jslice buf s i"
  have len: "length l = i - s" using assms by (simp add: l_def)
  have "l \<noteq> []" using True len by auto
  then have "List.last l = l ! (i - s - 1)" by (simp add: last_conv_nth len)
  also have "\<dots> = buf ! (i - 1)" using True assms by (simp add: l_def jslice_def)
  finally have "List.last l = buf ! (i - 1)" .
  moreover have "butlast l = jslice buf s (i - 1)"
    using assms True by (simp add: l_def jslice_def butlast_take)
  ultimately show ?thesis using True \<open>l \<noteq> []\<close> by (simp add: lineStop_def stripCR_def l_def)
next
  case False
  then show ?thesis using assms by (simp add: lineStop_def stripCR_def jslice_def)
qed

lemma drop_jslice:
  "s \<le> i \<Longrightarrow> i < length buf \<Longrightarrow> drop s buf = jslice buf s i @ buf ! i # drop (Suc i) buf"
  by (metis Cons_nth_drop_Suc append_take_drop_id drop_drop jslice_def le_add_diff_inverse2)

lemma jslice_Suc: "s \<le> i \<Longrightarrow> i < length buf \<Longrightarrow> jslice buf s (Suc i) = jslice buf s i @ [buf ! i]"
  by (simp add: jslice_def Suc_diff_le take_Suc_conv_app_nth)

lemma drainLoop_eq:
  assumes "s \<le> i" and "i \<le> length buf" and "CHAR_LINE_FEED \<notin> set (jslice buf s i)"
  shows "drainLoop buf i s n toks =
     (let ls = splitLines (drop s buf) in
       (toks @ classifyFrom n (map stripCR (butlast ls)), length buf - length (List.last ls),
        n + length ls - 1))"
  using assms
proof (induction buf i s n toks rule: drainLoop.induct)
  case (1 buf i s n toks)
  show ?case
  proof (cases "i < length buf")
    case False
    then have "jslice buf s i = drop s buf" using "1.prems" by (simp add: jslice_def)
    then have "splitLines (drop s buf) = [drop s buf]" using "1.prems" by (simp add: splitOn_no_sep)
    then show ?thesis using False "1.prems" by (subst drainLoop.simps) simp
  next
    case True
    note IH = "1.IH" [OF True]
    show ?thesis
    proof (cases "buf ! i = CHAR_LINE_FEED")
      case False
      then show ?thesis
        using True IH(1) "1.prems" by (subst drainLoop.simps) (simp add: jslice_Suc)
    next
      case lf: True
      obtain l ls where ls: "splitLines (drop (Suc i) buf) = l # ls"
        by (cases "splitLines (drop (Suc i) buf)") simp_all
      have "splitLines (drop s buf) = jslice buf s i # l # ls"
        using drop_jslice [OF "1.prems"(1) True] "1.prems"(3) lf ls
        by (simp add: splitOn_append_sep)
      then show ?thesis
        using True lf IH(2) "1.prems" ls jslice_lineStop [of s i buf]
        by (subst drainLoop.simps) (simp add: jslice_def)
    qed
  qed
qed

lemma splitHashlineLoop_eq:
  assumes "s \<le> i" and "i \<le> length buf" and "CHAR_LINE_FEED \<notin> set (jslice buf s i)"
  shows "splitHashlineLoop buf i s acc = acc @ patchLines (drop s buf)"
  using assms
proof (induction buf i s acc rule: splitHashlineLoop.induct)
  case (1 buf i s acc)
  show ?case
  proof (cases "i < length buf")
    case False
    then have "jslice buf s i = drop s buf" using "1.prems" by (simp add: jslice_def)
    then have "splitLines (drop s buf) = [drop s buf]" using "1.prems" by (simp add: splitOn_no_sep)
    moreover have "jslice buf s (length buf) = drop s buf" by (simp add: jslice_def)
    ultimately show ?thesis
      using False "1.prems" jslice_lineStop [of s "length buf" buf]
      by (subst splitHashlineLoop.simps) (simp add: patchLines_def)
  next
    case True
    note IH = "1.IH" [OF True]
    show ?thesis
    proof (cases "buf ! i = CHAR_LINE_FEED")
      case False
      then show ?thesis
        using True IH(1) "1.prems" by (subst splitHashlineLoop.simps) (simp add: jslice_Suc)
    next
      case lf: True
      obtain l ls where ls: "splitLines (drop (Suc i) buf) = l # ls"
        by (cases "splitLines (drop (Suc i) buf)") simp_all
      have "splitLines (drop s buf) = jslice buf s i # l # ls"
        using drop_jslice [OF "1.prems"(1) True] "1.prems"(3) lf ls
        by (simp add: splitOn_append_sep)
      then show ?thesis
        using True lf IH(2) "1.prems" ls jslice_lineStop [of s i buf]
        by (subst splitHashlineLoop.simps) (simp add: jslice_def patchLines_def Let_def)
    qed
  qed
qed

lemma splitHashlineLines_eq: "splitHashlineLines s = (if s = [] then [[]] else patchLines s)"
  using splitHashlineLoop_eq [of 0 0 s "[]"] by (simp add: splitHashlineLines_def jslice_def)

section \<open>What the tokenizer holds after a text\<close>

definition tokenizerHolds :: "jstring \<Rightarrow> tokenizer \<Rightarrow> bool" where
  "tokenizerHolds s t \<longleftrightarrow> \<not> tkClosed t \<and> tkBuffer t = List.last (splitLines s)
     \<and> tkNextLineNum t = length (splitLines s)"

definition emitted :: "jstring \<Rightarrow> token list" where
  "emitted s = classifyFrom 1 (map stripCR (butlast (splitLines s)))"

lemma tokenizerHolds_new: "tokenizerHolds [] newTokenizer" "emitted [] = []"
  by (simp_all add: tokenizerHolds_def newTokenizer_def emitted_def)

lemma tokenizerHolds_reset: "tokenizerHolds [] (tokenizerReset t)"
  by (simp add: tokenizerHolds_def tokenizerReset_def)

lemma drop_length_last: "drop (length s - length (List.last (splitOn c s))) s = List.last (splitOn c s)"
proof (induction s)
  case Nil
  then show ?case by simp
next
  case (Cons x s)
  obtain l ls where ls: "splitOn c s = l # ls" by (cases "splitOn c s") simp_all
  have "length (List.last (splitOn c s)) \<le> length s"
    using Cons by (metis diff_diff_cancel diff_le_self length_drop linear)
  moreover have "s = l" if "ls = []" using ls that joinOn_splitOn [of c s] by simp
  ultimately show ?case using Cons ls by (cases "ls = []") (auto simp: Suc_diff_le)
qed

lemma tokenizerFeed_holds:
  assumes "tokenizerHolds s t"
  shows "\<exists>toks t'. tokenizerFeed chunk t = Inr (toks, t') \<and> tokenizerHolds (s @ chunk) t'
    \<and> emitted (s @ chunk) = emitted s @ toks"
proof (cases "chunk = []")
  case True
  then show ?thesis using assms by (simp add: tokenizerFeed_def tokenizerHolds_def)
next
  case False
  let ?ls = "splitLines s" and ?buf = "List.last (splitLines s) @ chunk"
  let ?ms = "splitLines ?buf"
  have st: "\<not> tkClosed t" "tkBuffer t = List.last ?ls" "tkNextLineNum t = length ?ls"
    using assms by (simp_all add: tokenizerHolds_def)
  have sp: "splitLines (s @ chunk) = butlast ?ls @ ?ms" by (rule splitOn_append)
  define start where "start = length ?buf - length (List.last ?ms)"
  have dl: "drainLoop ?buf 0 0 (length ?ls) [] =
      (classifyFrom (length ?ls) (map stripCR (butlast ?ms)), start, length ?ls + length ?ms - 1)"
    using drainLoop_eq [of 0 0 ?buf "length ?ls" "[]"] by (simp add: jslice_def Let_def start_def)
  have rest: "(if start < length ?buf then drop start ?buf else []) = List.last ?ms"
    using drop_length_last [of ?buf CHAR_LINE_FEED] by (auto simp: start_def)
  have pos: "0 < length ?ls" "0 < length ?ms" by simp_all
  have len: "length ?ls + length ?ms - 1 = length (butlast ?ls @ ?ms)"
    using pos(1) by (cases ?ls) auto
  have em: "emitted (s @ chunk) = emitted s @ classifyFrom (length ?ls) (map stripCR (butlast ?ms))"
    using pos by (simp add: emitted_def sp butlast_append classifyFrom_append)
  show ?thesis
    unfolding em using False st dl rest len
    by (simp add: tokenizerFeed_def drainCompleteLines_def tokenizerHolds_def sp Let_def)
qed

lemma tokenizerEnd_holds:
  assumes "tokenizerHolds s t"
  shows "emitted s @ fst (tokenizerEnd t) = patchTokens s"
    and "tkClosed (snd (tokenizerEnd t))"
proof -
  let ?ls = "splitLines s" and ?l = "List.last (splitLines s)"
  have st: "\<not> tkClosed t" "tkBuffer t = ?l" "tkNextLineNum t = length ?ls"
    using assms by (simp_all add: tokenizerHolds_def)
  have split: "?ls = butlast ?ls @ [?l]" by simp
  have stop: "jslice ?l 0 (if ?l ! (length ?l - 1) = CHAR_CARRIAGE_RETURN then length ?l - 1 else length ?l)
      = stripCR ?l" if "?l \<noteq> []"
    using that by (auto simp: stripCR_def jslice_def butlast_conv_take last_conv_nth)
  show "emitted s @ fst (tokenizerEnd t) = patchTokens s"
  proof (cases "?l = []")
    case True
    then show ?thesis using st by (simp add: tokenizerEnd_def emitted_def patchTokens_def patchLines_def)
  next
    case False
    have "patchTokens s = classifyFrom 1 (map stripCR (butlast ?ls @ [?l]))"
      using False split unfolding patchTokens_def patchLines_def Let_def by metis
    moreover have "classifyFrom 1 (map stripCR (butlast ?ls @ [?l]))
        = emitted s @ classifyFrom (1 + length (butlast ?ls)) [stripCR ?l]"
      unfolding map_append classifyFrom_append by (simp add: emitted_def)
    moreover have "1 + length (butlast ?ls) = length ?ls" by simp
    ultimately have "patchTokens s = emitted s @ [classifyLine (stripCR ?l) (length ?ls)]"
      by (simp only: classifyFrom.simps)
    then show ?thesis using st False stop by (simp add: tokenizerEnd_def Let_def)
  qed
  show "tkClosed (snd (tokenizerEnd t))" using st by (simp add: tokenizerEnd_def Let_def)
qed

section \<open>Chunked tokenization\<close>

text \<open>A caller that feeds the chunks in order and then ends the stream.\<close>

fun tokenizeChunks :: "jstring list \<Rightarrow> tokenizer \<Rightarrow> hl_error + (token list \<times> tokenizer)" where
  "tokenizeChunks [] t = Inr (tokenizerEnd t)"
| "tokenizeChunks (chunk # chunks) t =
     bindE (tokenizerFeed chunk t) (\<lambda>(toks, t').
       bindE (tokenizeChunks chunks t') (\<lambda>(rest, t''). Inr (toks @ rest, t'')))"

lemma tokenizeChunks_holds:
  "tokenizerHolds s t \<Longrightarrow> \<exists>toks t'. tokenizeChunks chunks t = Inr (toks, t') \<and> tkClosed t'
     \<and> emitted s @ toks = patchTokens (s @ concat chunks)"
proof (induction chunks arbitrary: s t)
  case Nil
  then show ?case using tokenizerEnd_holds by (cases "tokenizerEnd t") fastforce
next
  case (Cons chunk chunks)
  obtain toks t' where f: "tokenizerFeed chunk t = Inr (toks, t')" "tokenizerHolds (s @ chunk) t'"
    "emitted (s @ chunk) = emitted s @ toks"
    using tokenizerFeed_holds [OF Cons.prems] by blast
  with Cons.IH [OF f(2)] show ?case by auto
qed

lemma tokenizeAll_eq:
  "\<exists>t'. tokenizeAll s t = Inr (patchTokens s, t') \<and> tkClosed t'"
proof -
  obtain toks t' where f: "tokenizerFeed s (tokenizerReset t) = Inr (toks, t')"
    "tokenizerHolds s t'" "emitted s = toks"
    using tokenizerFeed_holds [OF tokenizerHolds_reset, of s t] tokenizerHolds_new(2) by auto
  obtain fin t'' where e: "tokenizerEnd t' = (fin, t'')" by (cases "tokenizerEnd t'")
  show ?thesis
    using f e tokenizerEnd_holds [OF f(2)] by (auto simp: tokenizeAll_def)
qed

section \<open>Properties\<close>

text \<open>C5
  Chunk invariance: however a patch text is cut into chunks, feeding the chunks in order and ending
  the stream yields the tokens of the lines of the whole text, numbered from 1, and leaves the
  tokenizer closed; \<open>tokenizeAll\<close> on the whole text yields the same tokens from any earlier state.\<close>

theorem tokenize_chunk_invariance:
  "(\<exists>t'. tokenizeChunks chunks (tokenizerReset t) = Inr (patchTokens (concat chunks), t') \<and> tkClosed t')
   \<and> (\<exists>t'. tokenizeAll (concat chunks) t = Inr (patchTokens (concat chunks), t') \<and> tkClosed t')"
  using tokenizeChunks_holds [OF tokenizerHolds_reset] tokenizeAll_eq tokenizerHolds_new(2)
  by (metis append_Nil)

text \<open>The line splitter that the patch entry points use returns the lines of the text without their CR
  and without the empty line after a final newline; an empty text is one empty line.\<close>

theorem splitHashlineLines_reference:
  "splitHashlineLines s = (if s = [] then [[]] else patchLines s)"
  by (rule splitHashlineLines_eq)

end
