(* ===== verification/Hl_Parser.thy ===== *)
theory Hl_Parser
  imports Hl_Tokenizer Js_Regex
begin

text \<open>
  packages/hashline/src/parser.ts: the \<open>Executor\<close>, the state machine that turns tokens into a flat
  list of edits, and the two entry points \<open>parsePatch\<close> and \<open>parsePatchStreaming\<close>. The private fields
  of the class are the fields of the record \<open>executor\<close>; a method returns the updated record, or the
  error it throws.
\<close>

section \<open>Ranges and rows\<close>

definition validateRangeOrder :: "parsed_range \<Rightarrow> nat \<Rightarrow> hl_error + unit" where
  "validateRangeOrder rng lineNum =
     (if rangeEnd rng < rangeStart rng
      then Inl (RangeEndsBeforeStart lineNum (rangeStart rng) (rangeEnd rng)) else Inr ())"

definition expandRange :: "parsed_range \<Rightarrow> anchor list" where
  "expandRange rng = [rangeStart rng ..< Suc (rangeEnd rng)]"

definition isSkippableCommentLine :: "jstring \<Rightarrow> bool" where
  "isSkippableCommentLine line \<longleftrightarrow> startsWith (trimStart line) (js ''#'')"

section \<open>Contamination\<close>

definition isSign :: "nat \<Rightarrow> bool" where
  "isSign c \<longleftrightarrow> c = 45 \<or> c = 43"

definition rUnifiedHunk :: regex where
  "rUnifiedHunk = rSeqs [rLit (js ''@@''), rSpaces1, ROpt (RClass isSign), rDigits1, rChar 44, rDigits1,
     rSpaces1, ROpt (RClass isSign), rDigits1, rChar 44, rDigits1, rSpaces1, rLit (js ''@@'')]"

definition rDeleteColon :: regex where
  "rDeleteColon = rSeqs [rLit (js ''delete''), rSpaces1, rLineNumber,
     ROpt (rSeqs [rSpaces, rAlts [rLit (js ''..''), rChar 45, rChar 8230, RClass isJsSpace], rSpaces, rLineNumber]),
     rSpaces, rChar 58]"

definition rBareNumber :: regex where
  "rBareNumber = rSeqs [rLineNumber, rSpaces, REnd]"

definition isBareSeparator :: "nat \<Rightarrow> bool" where
  "isBareSeparator c \<longleftrightarrow> c = 45 \<or> c = 46 \<or> c = 32 \<or> c = 8230"

definition rBareRange :: regex where
  "rBareRange = rSeqs [RGroup rLineNumber, rSpaces, RPlus isBareSeparator, rSpaces, RGroup rLineNumber,
     rSpaces, ROpt (rChar 58), REnd]"

definition contaminationPreview :: "jstring \<Rightarrow> jstring" where
  "contaminationPreview trimmed = (if length trimmed > 48 then take 48 trimmed @ [8230] else trimmed)"

definition detectApplyPatchContamination :: "jstring \<Rightarrow> contamination option" where
  "detectApplyPatchContamination text =
     (let trimmed = trimStart text in
      if length trimmed = 0 then None
      else if startsWith trimmed (js ''*** Update File:'') \<or> startsWith trimmed (js ''*** Add File:'')
          \<or> startsWith trimmed (js ''*** Delete File:'') \<or> startsWith trimmed (js ''*** Move to:'')
        then Some (ApplyPatchSentinel (contaminationPreview trimmed))
      else if rxTest rUnifiedHunk trimmed then Some UnifiedDiffHeader
      else if startsWith trimmed (js ''@@'') then Some (BracketedHunkHeader (contaminationPreview trimmed))
      else if rxTest rDeleteColon trimmed then Some DeleteHasColon
      else if rxTest rBareNumber trimmed then Some (NeedsVerb trimmed)
      else (case rxExec rBareRange trimmed of
              Some (a # b # _, _) \<Rightarrow> Some (BareRange trimmed a b)
            | _ \<Rightarrow> None))"

section \<open>The executor\<close>

record pending_hunk =
  pdTarget :: block_target
  pdLineNum :: nat
  pdPayloads :: "(jstring \<times> nat) list"

record executor =
  exEdits :: "edit list"
  exWarnings :: "hl_warning list"
  exEditIndex :: nat
  exPending :: "pending_hunk option"
  exTerminated :: bool
  exSkippable :: "(jstring \<times> nat) list"

definition newExecutor :: executor where
  "newExecutor = \<lparr>exEdits = [], exWarnings = [], exEditIndex = 0, exPending = None,
     exTerminated = False, exSkippable = []\<rparr>"

definition pushInsert :: "cursor \<Rightarrow> nat \<Rightarrow> bool \<Rightarrow> jstring \<Rightarrow> executor \<Rightarrow> executor" where
  "pushInsert cursor lineNum replacement text e =
     e\<lparr>exEdits := exEdits e @ [InsertEdit cursor text lineNum (exEditIndex e) replacement],
       exEditIndex := Suc (exEditIndex e)\<rparr>"

definition pushDelete :: "nat \<Rightarrow> anchor \<Rightarrow> executor \<Rightarrow> executor" where
  "pushDelete lineNum anchor e =
     e\<lparr>exEdits := exEdits e @ [DeleteEdit anchor lineNum (exEditIndex e)],
       exEditIndex := Suc (exEditIndex e)\<rparr>"

definition pushBlock :: "anchor \<Rightarrow> (jstring \<times> nat) list \<Rightarrow> nat \<Rightarrow> executor \<Rightarrow> executor" where
  "pushBlock anchor payloads lineNum e =
     e\<lparr>exEdits := exEdits e @ [BlockEdit anchor (map fst payloads) lineNum (exEditIndex e)],
       exEditIndex := Suc (exEditIndex e)\<rparr>"

definition emitPayloadRows ::
  "cursor \<Rightarrow> (jstring \<times> nat) list \<Rightarrow> nat \<Rightarrow> bool \<Rightarrow> executor \<Rightarrow> executor" where
  "emitPayloadRows cursor payloads lineNum replacement e =
     fold (\<lambda>payload. pushInsert cursor lineNum replacement (fst payload)) payloads e"

definition pushDeletes :: "parsed_range \<Rightarrow> nat \<Rightarrow> executor \<Rightarrow> executor" where
  "pushDeletes rng lineNum e = fold (pushDelete lineNum) (expandRange rng) e"

definition flushPending :: "executor \<Rightarrow> hl_error + executor" where
  "flushPending e =
     (case exPending e of
        None \<Rightarrow> Inr e
      | Some p \<Rightarrow>
          (let lineNum = pdLineNum p; payloads = pdPayloads p; e' = e\<lparr>exPending := None\<rparr> in
           case pdTarget p of
             TDelete rng \<Rightarrow> Inr (pushDeletes rng lineNum e')
           | TDeleteBlock a \<Rightarrow> Inr (pushBlock a [] lineNum e')
           | TBlock a \<Rightarrow>
               if length payloads = 0 then Inl (EmptyBlock lineNum)
               else Inr (pushBlock a payloads lineNum e')
           | TReplace rng \<Rightarrow>
               if length payloads = 0 then Inr (pushDeletes rng lineNum e')
               else Inr (pushDeletes rng lineNum
                      (emitPayloadRows (BeforeAnchor (rangeStart rng)) payloads lineNum True e'))
           | TInsertBefore a \<Rightarrow>
               if length payloads = 0 then Inl (EmptyInsert lineNum)
               else Inr (emitPayloadRows (BeforeAnchor a) payloads lineNum False e')
           | TInsertAfter a \<Rightarrow>
               if length payloads = 0 then Inl (EmptyInsert lineNum)
               else Inr (emitPayloadRows (AfterAnchor a) payloads lineNum False e')
           | TBof \<Rightarrow>
               if length payloads = 0 then Inl (EmptyInsert lineNum)
               else Inr (emitPayloadRows Bof payloads lineNum False e')
           | TEof \<Rightarrow>
               if length payloads = 0 then Inl (EmptyInsert lineNum)
               else Inr (emitPayloadRows Eof payloads lineNum False e')))"

definition pushPayload :: "jstring \<Rightarrow> nat \<Rightarrow> pending_hunk \<Rightarrow> pending_hunk" where
  "pushPayload text lineNum p = p\<lparr>pdPayloads := pdPayloads p @ [(text, lineNum)]\<rparr>"

definition handleLiteralPayload :: "jstring \<Rightarrow> nat \<Rightarrow> executor \<Rightarrow> hl_error + executor" where
  "handleLiteralPayload text lineNum e =
     (case exPending e of
        None \<Rightarrow> Inl (PayloadWithoutHunk lineNum (HL_PAYLOAD_REPLACE @ text))
      | Some p \<Rightarrow>
          (case pdTarget p of
             TDelete _ \<Rightarrow> Inl (DeleteTakesNoBody lineNum)
           | TDeleteBlock _ \<Rightarrow> Inl (DeleteBlockTakesNoBody lineNum)
           | _ \<Rightarrow> Inr (e\<lparr>exPending := Some (pushPayload text lineNum p)\<rparr>)))"

definition handleRaw :: "jstring \<Rightarrow> nat \<Rightarrow> executor \<Rightarrow> hl_error + executor" where
  "handleRaw text lineNum e =
     (case detectApplyPatchContamination text of
        Some c \<Rightarrow> Inl (Contaminated lineNum c)
      | None \<Rightarrow>
     (case exPending e of
        Some p \<Rightarrow>
          if length (trim text) = 0 then Inr e
          else (case pdTarget p of
             TDelete _ \<Rightarrow> Inl (DeleteTakesNoBody lineNum)
           | TDeleteBlock _ \<Rightarrow> Inl (DeleteBlockTakesNoBody lineNum)
           | _ \<Rightarrow>
               if startsWith (trimStart text) [45] then Inl (MinusRowRejected lineNum)
               else Inr (e\<lparr>exWarnings := setAdd BareBodyAutoPiped (exWarnings e),
                           exPending := Some (pushPayload text lineNum p)\<rparr>))
      | None \<Rightarrow>
          if length (trim text) = 0 then Inr e else Inl (PayloadWithoutHunk lineNum text)))"

definition discardPendingSkippableComments :: "executor \<Rightarrow> executor" where
  "discardPendingSkippableComments e = e\<lparr>exSkippable := []\<rparr>"

definition consumePendingSkippableComments :: "executor \<Rightarrow> hl_error + executor" where
  "consumePendingSkippableComments e =
     (if length (exSkippable e) = 0 then Inr e
      else bindE (foldE (\<lambda>comment. handleRaw (fst comment) (snd comment)) (exSkippable e) e)
             (\<lambda>e'. Inr (e'\<lparr>exSkippable := []\<rparr>)))"

definition executorFeed :: "token \<Rightarrow> executor \<Rightarrow> hl_error + executor" where
  "executorFeed tok e =
     (if exTerminated e then Inr e
      else case tok of
        EnvelopeBegin _ \<Rightarrow> consumePendingSkippableComments e
      | EnvelopeEnd _ \<Rightarrow>
          bindE (consumePendingSkippableComments e) (\<lambda>e'. Inr (e'\<lparr>exTerminated := True\<rparr>))
      | Abort _ \<Rightarrow> Inr (e\<lparr>exTerminated := True\<rparr>)
      | Header _ _ _ \<Rightarrow> bindE (consumePendingSkippableComments e) flushPending
      | Blank _ \<Rightarrow> consumePendingSkippableComments e
      | PayloadLiteral lineNum text \<Rightarrow>
          bindE (consumePendingSkippableComments e) (handleLiteralPayload text lineNum)
      | Raw lineNum text \<Rightarrow>
          if exPending e = None \<and> isSkippableCommentLine text
          then Inr (e\<lparr>exSkippable := exSkippable e @ [(text, lineNum)]\<rparr>)
          else bindE (consumePendingSkippableComments e) (handleRaw text lineNum)
      | OpBlock lineNum target \<Rightarrow>
          (let e1 = discardPendingSkippableComments e in
           bindE (case target of
                    TReplace rng \<Rightarrow> validateRangeOrder rng lineNum
                  | TDelete rng \<Rightarrow> validateRangeOrder rng lineNum
                  | _ \<Rightarrow> Inr ())
             (\<lambda>_. bindE (flushPending e1)
               (\<lambda>e2. Inr (e2\<lparr>exPending :=
                  Some \<lparr>pdTarget = target, pdLineNum = lineNum, pdPayloads = []\<rparr>\<rparr>)))))"

section \<open>Ending a patch\<close>

definition addSourceLine :: "edit \<Rightarrow> (nat, nat list) jsmap \<Rightarrow> (nat, nat list) jsmap" where
  "addSourceLine edit m =
     (case edit of
        DeleteEdit a lineNum _ \<Rightarrow>
          (let sourceLines = (case mapGet m a of None \<Rightarrow> [] | Some ls \<Rightarrow> ls)
           in mapSet a (setAdd lineNum sourceLines) m)
      | _ \<Rightarrow> m)"

definition sourceLinesByAnchor :: "edit list \<Rightarrow> (nat, nat list) jsmap" where
  "sourceLinesByAnchor edits = fold addSourceLine edits []"

definition validateNoOverlappingDeletes :: "edit list \<Rightarrow> hl_error + unit" where
  "validateNoOverlappingDeletes edits =
     (case find (\<lambda>(anchorLine, sourceLines). \<not> length sourceLines < 2) (sourceLinesByAnchor edits) of
        None \<Rightarrow> Inr ()
      | Some (anchorLine, sourceLines) \<Rightarrow>
          Inl (AnchorTargetedTwice (sort sourceLines ! 1) anchorLine (sort sourceLines ! 0)))"

definition finishEdits :: "executor \<Rightarrow> hl_error + ((edit list \<times> hl_warning list) \<times> executor)" where
  "finishEdits e =
     bindE (validateNoOverlappingDeletes (exEdits e)) (\<lambda>_. Inr ((exEdits e, exWarnings e), e))"

definition executorEnd :: "executor \<Rightarrow> hl_error + ((edit list \<times> hl_warning list) \<times> executor)" where
  "executorEnd e =
     bindE (consumePendingSkippableComments e) (\<lambda>e1. bindE (flushPending e1) finishEdits)"

definition executorEndStreaming ::
  "executor \<Rightarrow> hl_error + ((edit list \<times> hl_warning list) \<times> executor)" where
  "executorEndStreaming e =
     bindE (consumePendingSkippableComments e) (\<lambda>e1.
       bindE (case exPending e1 of
                None \<Rightarrow> Inr e1
              | Some p \<Rightarrow>
                  if length (pdPayloads p) > 0 then flushPending e1
                  else (case pdTarget p of
                          TDelete _ \<Rightarrow> flushPending e1
                        | TDeleteBlock _ \<Rightarrow> flushPending e1
                        | _ \<Rightarrow> Inr (e1\<lparr>exPending := None\<rparr>)))
         finishEdits)"

definition executorReset :: "executor \<Rightarrow> executor" where
  "executorReset e = e\<lparr>exEdits := [], exWarnings := [], exEditIndex := 0, exPending := None,
     exSkippable := [], exTerminated := False\<rparr>"

section \<open>Entry points\<close>

definition drainPatch ::
  "executor \<Rightarrow> tokenizer \<Rightarrow> hl_error + (edit list \<times> hl_warning list)" where
  "drainPatch e t =
     bindE (foldE executorFeed (fst (tokenizerEnd t)) e)
       (\<lambda>e'. bindE (executorEnd e') (\<lambda>(res, _). Inr res))"

definition parsePatch :: "jstring \<Rightarrow> hl_error + (edit list \<times> hl_warning list)" where
  "parsePatch diff =
     bindE (tokenizerFeed diff newTokenizer) (\<lambda>(toks, t).
       bindE (foldE executorFeed toks newExecutor) (\<lambda>e. drainPatch e t))"

definition parsePatchStreaming :: "jstring \<Rightarrow> hl_error + (edit list \<times> hl_warning list)" where
  "parsePatchStreaming diff =
     bindE (tokenizerFeed diff newTokenizer) (\<lambda>(toks, t).
       bindE (foldE executorFeed toks newExecutor) (\<lambda>e.
         bindE (foldE executorFeed (fst (tokenizerEnd t)) e) (\<lambda>e'.
           bindE (executorEndStreaming e') (\<lambda>(res, _). Inr res))))"

end
