(* ===== verification/Hl_Parser_Facts.thy ===== *)
theory Hl_Parser_Facts
  imports Hl_Parser Hl_Tokenizer_Stream
begin

text \<open>
  What the executor of parser.ts guarantees: the edits it hands to the applier are numbered in order,
  anchored to positive lines and never delete a line twice, and the streaming entry point agrees with
  the strict one up to the trailing hunk.
\<close>

section \<open>The parser as one fold over the tokens of the patch\<close>

lemma parsePatch_tokens:
  "parsePatch diff =
     bindE (foldE executorFeed (patchTokens diff) newExecutor)
       (\<lambda>e. bindE (executorEnd e) (\<lambda>(res, _). Inr res))"
proof -
  obtain toks t where f: "tokenizerFeed diff newTokenizer = Inr (toks, t)" "tokenizerHolds diff t"
    "emitted diff = toks"
    using tokenizerFeed_holds [OF tokenizerHolds_new(1), of diff] tokenizerHolds_new(2) by auto
  have "patchTokens diff = toks @ fst (tokenizerEnd t)"
    using tokenizerEnd_holds(1) [OF f(2)] f(3) by simp
  then show ?thesis
    using f(1) by (cases "foldE executorFeed toks newExecutor")
      (simp_all add: parsePatch_def drainPatch_def foldE_append)
qed

lemma parsePatchStreaming_tokens:
  "parsePatchStreaming diff =
     bindE (foldE executorFeed (patchTokens diff) newExecutor)
       (\<lambda>e. bindE (executorEndStreaming e) (\<lambda>(res, _). Inr res))"
proof -
  obtain toks t where f: "tokenizerFeed diff newTokenizer = Inr (toks, t)" "tokenizerHolds diff t"
    "emitted diff = toks"
    using tokenizerFeed_holds [OF tokenizerHolds_new(1), of diff] tokenizerHolds_new(2) by auto
  have "patchTokens diff = toks @ fst (tokenizerEnd t)"
    using tokenizerEnd_holds(1) [OF f(2)] f(3) by simp
  then show ?thesis
    using f(1) by (cases "foldE executorFeed toks newExecutor")
      (simp_all add: parsePatchStreaming_def foldE_append)
qed

section \<open>The edits of a hunk\<close>

text \<open>What a hunk stands for: its body rows as inserts at the cursor, then the deletes of its range.\<close>

fun numberEdits :: "nat \<Rightarrow> (nat \<Rightarrow> edit) list \<Rightarrow> edit list" where
  "numberEdits n [] = []"
| "numberEdits n (f # fs) = f n # numberEdits (Suc n) fs"

definition insertRows :: "cursor \<Rightarrow> jstring list \<Rightarrow> nat \<Rightarrow> bool \<Rightarrow> (nat \<Rightarrow> edit) list" where
  "insertRows c rows lineNum repl = map (\<lambda>row i. InsertEdit c row lineNum i repl) rows"

definition deleteRows :: "parsed_range \<Rightarrow> nat \<Rightarrow> (nat \<Rightarrow> edit) list" where
  "deleteRows rng lineNum = map (\<lambda>a i. DeleteEdit a lineNum i) (expandRange rng)"

fun hunkEdits :: "block_target \<Rightarrow> jstring list \<Rightarrow> nat \<Rightarrow> (nat \<Rightarrow> edit) list" where
  "hunkEdits (TReplace rng) rows n =
     insertRows (BeforeAnchor (rangeStart rng)) rows n True @ deleteRows rng n"
| "hunkEdits (TDelete rng) rows n = deleteRows rng n"
| "hunkEdits (TBlock a) rows n = [\<lambda>i. BlockEdit a rows n i]"
| "hunkEdits (TDeleteBlock a) rows n = [\<lambda>i. BlockEdit a [] n i]"
| "hunkEdits (TInsertBefore a) rows n = insertRows (BeforeAnchor a) rows n False"
| "hunkEdits (TInsertAfter a) rows n = insertRows (AfterAnchor a) rows n False"
| "hunkEdits TBof rows n = insertRows Bof rows n False"
| "hunkEdits TEof rows n = insertRows Eof rows n False"

lemma numberEdits_append:
  "numberEdits n (fs @ gs) = numberEdits n fs @ numberEdits (n + length fs) gs"
  by (induction fs arbitrary: n) simp_all

lemma length_numberEdits [simp]: "length (numberEdits n fs) = length fs"
  by (induction fs arbitrary: n) simp_all

text \<open>Pushing a list of edits onto the executor.\<close>

definition pushEdits :: "(nat \<Rightarrow> edit) list \<Rightarrow> executor \<Rightarrow> executor" where
  "pushEdits fs e = e\<lparr>exEdits := exEdits e @ numberEdits (exEditIndex e) fs,
     exEditIndex := exEditIndex e + length fs\<rparr>"

lemma pushEdits_Nil [simp]: "pushEdits [] e = e"
  by (simp add: pushEdits_def)

lemma pushEdits_Cons: "pushEdits fs (pushEdits [f] e) = pushEdits (f # fs) e"
  by (simp add: pushEdits_def)

lemma pushEdits_append: "pushEdits (fs @ gs) e = pushEdits gs (pushEdits fs e)"
  by (simp add: pushEdits_def numberEdits_append add.assoc)

lemma push_as_pushEdits:
  "pushInsert c n r t = pushEdits [\<lambda>i. InsertEdit c t n i r]"
  "pushDelete n a = pushEdits [\<lambda>i. DeleteEdit a n i]"
  "pushBlock a ps n = pushEdits [\<lambda>i. BlockEdit a (map fst ps) n i]"
  by (auto simp: pushInsert_def pushDelete_def pushBlock_def pushEdits_def fun_eq_iff)

lemma emitPayloadRows_eq:
  "emitPayloadRows c ps n r e = pushEdits (insertRows c (map fst ps) n r) e"
  unfolding emitPayloadRows_def
proof (induction ps arbitrary: e)
  case Nil
  then show ?case by (simp add: insertRows_def)
next
  case (Cons p ps)
  then show ?case
    by (simp add: insertRows_def push_as_pushEdits pushEdits_Cons)
qed

lemma pushDeletes_eq: "pushDeletes rng n e = pushEdits (deleteRows rng n) e"
proof -
  have "fold (pushDelete n) as e = pushEdits (map (\<lambda>a i. DeleteEdit a n i) as) e" for as
  proof (induction as arbitrary: e)
    case Nil
    then show ?case by simp
  next
    case (Cons a as)
    then show ?case by (simp add: push_as_pushEdits pushEdits_Cons)
  qed
  then show ?thesis by (simp add: pushDeletes_def deleteRows_def)
qed

text \<open>The error of a hunk that needs a body and has none.\<close>

fun bodyError :: "block_target \<Rightarrow> nat \<Rightarrow> hl_error option" where
  "bodyError (TBlock _) n = Some (EmptyBlock n)"
| "bodyError (TInsertBefore _) n = Some (EmptyInsert n)"
| "bodyError (TInsertAfter _) n = Some (EmptyInsert n)"
| "bodyError TBof n = Some (EmptyInsert n)"
| "bodyError TEof n = Some (EmptyInsert n)"
| "bodyError _ n = None"

lemma flushPending_eq:
  "flushPending e =
     (case exPending e of
        None \<Rightarrow> Inr e
      | Some p \<Rightarrow>
          (case (if pdPayloads p = [] then bodyError (pdTarget p) (pdLineNum p) else None) of
             Some err \<Rightarrow> Inl err
           | None \<Rightarrow> Inr (pushEdits (hunkEdits (pdTarget p) (map fst (pdPayloads p)) (pdLineNum p))
                      (e\<lparr>exPending := None\<rparr>))))"
proof (cases "exPending e")
  case None
  then show ?thesis by (simp add: flushPending_def)
next
  case (Some p)
  have rows: "insertRows c [] n r = []" for c n r by (simp add: insertRows_def)
  show ?thesis
    by (cases "pdTarget p"; cases "pdPayloads p = []")
      (simp_all add: flushPending_def Some Let_def emitPayloadRows_eq pushDeletes_eq push_as_pushEdits
        pushEdits_append rows)
qed

section \<open>Skippable comments\<close>

text \<open>Comments are held only while no hunk is open, so replaying one always throws.\<close>

definition commentsInv :: "executor \<Rightarrow> bool" where
  "commentsInv e \<longleftrightarrow> list_all (\<lambda>c. isSkippableCommentLine (fst c)) (exSkippable e)
     \<and> (exSkippable e \<noteq> [] \<longrightarrow> exPending e = None)"

lemma rxTest_first:
  assumes "\<not> p c" shows "rx (RSeq (RClass p) r) prev (c # cs) = []"
  using assms by simp

lemma handleRaw_comment:
  assumes "isSkippableCommentLine row" and "exPending e = None"
  shows "handleRaw row n e = Inl (PayloadWithoutHunk n row)"
proof -
  obtain cs where cs: "trimStart row = 35 # cs"
    using assms(1) by (cases "trimStart row") (auto simp: isSkippableCommentLine_def startsWith_def)
  have "\<exists>d ds. rev cs @ [35] = d # ds" by (cases "rev cs @ [35]") auto
  have "35 \<in> set (trimEnd (35 # cs))"
  proof -
    have "35 \<in> set (dropWhile isJsSpace (rev cs @ [35]))"
      using set_dropWhileD by (induction "rev cs") (auto simp: dropWhile_append isJsSpace_def)
    then show ?thesis by (simp add: trimEnd_def)
  qed
  then have "trim row \<noteq> []" by (auto simp: trim_def cs)
  moreover have "detectApplyPatchContamination row = None"
    unfolding detectApplyPatchContamination_def Let_def cs
    by (simp add: startsWith_def rxTest_def rxExec_def rUnifiedHunk_def rDeleteColon_def rBareNumber_def
        rBareRange_def rChar_def rLineNumber_def isNonZeroDigit_def)
  ultimately show ?thesis using assms(2) by (simp add: handleRaw_def)
qed

lemma consume_comments:
  assumes "commentsInv e"
  shows "consumePendingSkippableComments e =
     (case exSkippable e of [] \<Rightarrow> Inr e | (row, n) # _ \<Rightarrow> Inl (PayloadWithoutHunk n row))"
proof (cases "exSkippable e")
  case Nil
  then show ?thesis by (simp add: consumePendingSkippableComments_def)
next
  case (Cons c cs)
  obtain row n where c: "c = (row, n)" by (cases c)
  have "handleRaw row n e = Inl (PayloadWithoutHunk n row)"
    by (rule handleRaw_comment) (use assms Cons c in \<open>auto simp: commentsInv_def\<close>)
  then show ?thesis by (simp add: consumePendingSkippableComments_def Cons c)
qed

text \<open>A token is consumed by a single step on the pending hunk once no comment is held.\<close>

lemma consume_Inr:
  "commentsInv e \<Longrightarrow> consumePendingSkippableComments e = Inr e' \<longleftrightarrow> exSkippable e = [] \<and> e' = e"
  by (auto simp: consume_comments split: list.splits)

section \<open>Overlapping deletes\<close>

lemma mapGet_addSourceLine:
  "mapGet (addSourceLine d m) a =
     (case d of
        DeleteEdit b n _ \<Rightarrow>
          if a = b then Some (setAdd n (case mapGet m b of None \<Rightarrow> [] | Some ls \<Rightarrow> ls)) else mapGet m a
      | _ \<Rightarrow> mapGet m a)"
  by (auto simp: addSourceLine_def Let_def split: edit.split)

definition sourceLines :: "edit list \<Rightarrow> nat \<Rightarrow> nat list" where
  "sourceLines edits a = (case mapGet (sourceLinesByAnchor edits) a of None \<Rightarrow> [] | Some ls \<Rightarrow> ls)"

lemma sourceLines_props:
  "set (sourceLines edits a) = {n. \<exists>i. DeleteEdit a n i \<in> set edits}"
  "distinct (sourceLines edits a)"
  "distinct (map fst (sourceLinesByAnchor edits))"
proof (induction edits rule: rev_induct)
  case Nil
  case 1 show ?case by (simp add: sourceLines_def sourceLinesByAnchor_def)
  case 2 show ?case by (simp add: sourceLines_def sourceLinesByAnchor_def)
  case 3 show ?case by (simp add: sourceLines_def sourceLinesByAnchor_def)
next
  case (snoc d edits)
  have step: "sourceLinesByAnchor (edits @ [x]) = addSourceLine x (sourceLinesByAnchor edits)" for x
    by (simp add: sourceLinesByAnchor_def)
  have lines: "sourceLines (edits @ [x]) a =
      (case x of DeleteEdit b n _ \<Rightarrow> if a = b then setAdd n (sourceLines edits a) else sourceLines edits a
       | _ \<Rightarrow> sourceLines edits a)" for x
    by (cases x) (auto simp: sourceLines_def step mapGet_addSourceLine)
  case 1 show ?case using snoc by (cases d) (auto simp: lines)
  case 2 show ?case using snoc by (cases d) (auto simp: lines)
  case 3 show ?case
    using snoc by (cases d) (auto simp: step addSourceLine_def Let_def distinct_mapSet)
qed

definition sameAnchorSameHunk :: "edit list \<Rightarrow> bool" where
  "sameAnchorSameHunk edits \<longleftrightarrow>
     (\<forall>a n m i j. DeleteEdit a n i \<in> set edits \<longrightarrow> DeleteEdit a m j \<in> set edits \<longrightarrow> n = m)"

lemma distinct_small:
  "distinct xs \<Longrightarrow> length xs < 2 \<longleftrightarrow> (\<forall>x y. x \<in> set xs \<longrightarrow> y \<in> set xs \<longrightarrow> x = y)"
  by (cases xs; cases "tl xs") auto

lemma validateNoOverlappingDeletes_Inr:
  "validateNoOverlappingDeletes edits = Inr u \<longleftrightarrow> sameAnchorSameHunk edits"
proof -
  let ?m = "sourceLinesByAnchor edits"
  have get: "(a, ls) \<in> set ?m \<longleftrightarrow> mapGet ?m a = Some ls" for a ls
    using sourceLines_props(3) [of edits] by simp
  have "validateNoOverlappingDeletes edits = Inr u \<longleftrightarrow> (\<forall>a ls. (a, ls) \<in> set ?m \<longrightarrow> length ls < 2)"
    by (auto simp: validateNoOverlappingDeletes_def find_None_iff split: option.splits)
       (auto simp: find_Some_iff, metis nth_mem)
  also have "\<dots> \<longleftrightarrow> (\<forall>a. length (sourceLines edits a) < 2)"
    by (auto simp: get sourceLines_def split: option.splits)
  also have "\<dots> \<longleftrightarrow> sameAnchorSameHunk edits"
    by (auto simp: sourceLines_props(1,2) distinct_small sameAnchorSameHunk_def)
  finally show ?thesis .
qed

text \<open>The error names two hunks that delete the same line.\<close>

lemma validateNoOverlappingDeletes_Inl:
  assumes "validateNoOverlappingDeletes edits = Inl err"
  shows "\<exists>a n m i j. err = AnchorTargetedTwice m a n \<and> n < m
     \<and> DeleteEdit a n i \<in> set edits \<and> DeleteEdit a m j \<in> set edits"
proof -
  let ?m = "sourceLinesByAnchor edits"
  obtain a ls where f: "find (\<lambda>(a, ls). \<not> length ls < 2) ?m = Some (a, ls)"
    "err = AnchorTargetedTwice (sort ls ! 1) a (sort ls ! 0)"
    using assms by (auto simp: validateNoOverlappingDeletes_def split: option.splits)
  then have "(a, ls) \<in> set ?m" and len: "1 < length ls" by (auto simp: find_Some_iff in_set_conv_nth)
  then have ls: "sourceLines edits a = ls"
    using sourceLines_props(3) [of edits] by (simp add: sourceLines_def)
  then have "distinct ls" using sourceLines_props(2) by metis
  then have "sort ls ! 0 \<noteq> sort ls ! 1"
    using len nth_eq_iff_index_eq [of "sort ls" 0 1] by (cases "ls = []") (simp_all add: distinct_sort)
  moreover have "sort ls ! 0 \<le> sort ls ! 1" using len by (intro sorted_nth_mono) simp_all
  moreover have "sort ls ! 0 \<in> set (sourceLines edits a)" "sort ls ! 1 \<in> set (sourceLines edits a)"
    using len ls by (metis length_sort less_trans nth_mem set_sort zero_less_one)+
  ultimately show ?thesis using f(2) by (auto simp: sourceLines_props(1))
qed

section \<open>The invariant of the executor\<close>

fun positiveEdit :: "edit \<Rightarrow> bool" where
  "positiveEdit (InsertEdit c _ _ _ _) = list_all (\<lambda>a. 0 < a) (getCursorAnchors c)"
| "positiveEdit (DeleteEdit a _ _) = (0 < a)"
| "positiveEdit (BlockEdit a _ _ _) = (0 < a)"

text \<open>A replacement row stands before the first deleted line of its own hunk.\<close>

definition replacementsOwned :: "edit list \<Rightarrow> bool" where
  "replacementsOwned edits \<longleftrightarrow>
     (\<forall>c t n i. InsertEdit c t n i True \<in> set edits \<longrightarrow>
        (\<exists>a j. c = BeforeAnchor a \<and> DeleteEdit a n j \<in> set edits))"

definition deleteKeys :: "edit list \<Rightarrow> (nat \<times> nat) list" where
  "deleteKeys edits = map (\<lambda>d. (elineNum d, eanchor d)) (filter isDelete edits)"

definition editsInv :: "edit list \<Rightarrow> bool" where
  "editsInv edits \<longleftrightarrow> map eindex edits = [0 ..< length edits] \<and> list_all positiveEdit edits
     \<and> distinct (deleteKeys edits) \<and> replacementsOwned edits"

fun targetOrdered :: "block_target \<Rightarrow> bool" where
  "targetOrdered (TReplace rng) = (rangeStart rng \<le> rangeEnd rng)"
| "targetOrdered (TDelete rng) = (rangeStart rng \<le> rangeEnd rng)"
| "targetOrdered _ = True"

definition targetOk :: "block_target \<Rightarrow> bool" where
  "targetOk t \<longleftrightarrow> list_all (\<lambda>n. 0 < n) (targetLines t) \<and> targetOrdered t"

definition executorInv :: "nat \<Rightarrow> executor \<Rightarrow> bool" where
  "executorInv n e \<longleftrightarrow> commentsInv e \<and> editsInv (exEdits e) \<and> exEditIndex e = length (exEdits e)
     \<and> (\<forall>d \<in> set (exEdits e). elineNum d < n)
     \<and> (\<forall>p. exPending e = Some p \<longrightarrow> targetOk (pdTarget p) \<and> pdLineNum p < n
          \<and> (\<forall>d \<in> set (exEdits e). elineNum d < pdLineNum p))"

lemma commentsInv_new: "executorInv n newExecutor"
  by (simp add: executorInv_def commentsInv_def newExecutor_def editsInv_def deleteKeys_def
      replacementsOwned_def)

lemma executorInv_mono: "executorInv n e \<Longrightarrow> n \<le> m \<Longrightarrow> executorInv m e"
  by (fastforce simp: executorInv_def)

lemma set_numberEdits: "d \<in> set (numberEdits n fs) \<Longrightarrow> \<exists>f i. f \<in> set fs \<and> d = f i"
  by (induction fs arbitrary: n) fastforce+

text \<open>The edits of one hunk carry its line number and have distinct deletes.\<close>

lemma hunkEdits_lineNum:
  "f \<in> set (hunkEdits t rows n) \<Longrightarrow> elineNum (f i) = n \<and> eindex (f i) = i"
  by (cases t) (auto simp: insertRows_def deleteRows_def)

lemma map_eindex_numberEdits:
  "(\<And>f i. f \<in> set fs \<Longrightarrow> eindex (f i) = i) \<Longrightarrow> map eindex (numberEdits n fs) = [n ..< n + length fs]"
proof (induction fs arbitrary: n)
  case Nil
  then show ?case by simp
next
  case (Cons f fs)
  then show ?case by (simp add: upt_conv_Cons del: upt_Suc)
qed

lemma hunkEdits_positive:
  assumes "targetOk t" and "f \<in> set (hunkEdits t rows n)"
  shows "positiveEdit (f i)"
  using assms by (cases t) (auto simp: targetOk_def insertRows_def deleteRows_def expandRange_def)

lemma deleteKeys_append: "deleteKeys (xs @ ys) = deleteKeys xs @ deleteKeys ys"
  by (simp add: deleteKeys_def)

lemma deleteKeys_insertRows [simp]: "deleteKeys (numberEdits k (insertRows c rows n r)) = []"
proof -
  have "deleteKeys (numberEdits k (map (\<lambda>row i. InsertEdit c row n i r) rows)) = []"
    by (induction rows arbitrary: k) (simp_all add: deleteKeys_def)
  then show ?thesis by (simp add: insertRows_def)
qed

lemma deleteKeys_deleteRows:
  "deleteKeys (numberEdits k (deleteRows rng n)) = map (\<lambda>a. (n, a)) (expandRange rng)"
proof -
  have "deleteKeys (numberEdits k (map (\<lambda>a i. DeleteEdit a n i) as)) = map (\<lambda>a. (n, a)) as" for as
    by (induction as arbitrary: k) (simp_all add: deleteKeys_def)
  then show ?thesis by (simp add: deleteRows_def)
qed

lemma hunkEdits_deleteKeys:
  "\<exists>as. distinct as \<and> deleteKeys (numberEdits k (hunkEdits t rows n)) = map (\<lambda>a. (n, a)) as"
proof -
  have "distinct (expandRange rng)" for rng by (simp add: expandRange_def)
  then show ?thesis
    by (cases t) (auto simp: deleteKeys_deleteRows numberEdits_append deleteKeys_append
        deleteKeys_def [of "[_]"] intro: exI [of _ "[]"])
qed

lemma delete_mem_deleteRows:
  assumes "a \<in> set (expandRange rng)"
  shows "\<exists>j. DeleteEdit a n j \<in> set (numberEdits k (deleteRows rng n))"
proof -
  have "a \<in> set as \<Longrightarrow> \<exists>j. DeleteEdit a n j \<in> set (numberEdits k (map (\<lambda>a i. DeleteEdit a n i) as))" for as
    by (induction as arbitrary: k) auto
  with assms show ?thesis by (simp add: deleteRows_def)
qed

lemma hunkEdits_owned:
  assumes "targetOrdered t"
  shows "replacementsOwned (numberEdits k (hunkEdits t rows n))"
  unfolding replacementsOwned_def
proof (intro allI impI)
  fix c row m i
  assume a: "InsertEdit c row m i True \<in> set (numberEdits k (hunkEdits t rows n))"
  then obtain f i' where f: "f \<in> set (hunkEdits t rows n)" "InsertEdit c row m i True = f i'"
    using set_numberEdits by blast
  then obtain rng where t: "t = TReplace rng" "c = BeforeAnchor (rangeStart rng)" "m = n"
    by (cases t) (auto simp: insertRows_def deleteRows_def)
  then have "rangeStart rng \<in> set (expandRange rng)" using assms by (simp add: expandRange_def del: upt_Suc)
  from delete_mem_deleteRows [OF this] t show
    "\<exists>a j. c = BeforeAnchor a \<and> DeleteEdit a m j \<in> set (numberEdits k (hunkEdits t rows n))"
    by (simp add: numberEdits_append) blast
qed

lemma replacementsOwned_append:
  "replacementsOwned xs \<Longrightarrow> replacementsOwned ys \<Longrightarrow> replacementsOwned (xs @ ys)"
  unfolding replacementsOwned_def by (auto, blast+)

lemma editsInv_hunk:
  assumes "editsInv es" and "\<forall>d \<in> set es. elineNum d < n" and "targetOk t"
  shows "editsInv (es @ numberEdits (length es) (hunkEdits t rows n))" (is "editsInv (es @ ?new)")
proof -
  have idx: "map eindex ?new = [length es ..< length es + length ?new]"
    by (simp add: map_eindex_numberEdits hunkEdits_lineNum)
  have pos: "list_all positiveEdit ?new"
    unfolding list_all_iff by (auto dest!: set_numberEdits intro: hunkEdits_positive [OF assms(3)])
  obtain as where as: "distinct as" "deleteKeys ?new = map (\<lambda>a. (n, a)) as"
    using hunkEdits_deleteKeys by blast
  have "fst ` set (deleteKeys es) \<subseteq> {m. m < n}"
    using assms(2) by (auto simp: deleteKeys_def)
  then have "set (deleteKeys es) \<inter> set (deleteKeys ?new) = {}" by (auto simp: as)
  moreover have "distinct (deleteKeys ?new)" using as by (simp add: distinct_map inj_on_def)
  ultimately have "distinct (deleteKeys (es @ ?new))"
    using assms(1) by (simp add: deleteKeys_append editsInv_def)
  moreover have "map eindex (es @ ?new) = [0 ..< length (es @ ?new)]"
    using assms(1) idx upt_add_eq_append [of 0 "length es" "length ?new"] by (simp add: editsInv_def)
  moreover have "replacementsOwned (es @ ?new)"
    using assms(1,3) hunkEdits_owned replacementsOwned_append
    by (simp add: editsInv_def targetOk_def)
  ultimately show ?thesis using assms(1) pos by (simp add: editsInv_def)
qed

lemma flushPending_inv:
  assumes "executorInv n e" and "flushPending e = Inr e'"
  shows "executorInv n e'" and "exPending e' = None" and "exSkippable e' = exSkippable e"
proof -
  have "executorInv n e' \<and> exPending e' = None \<and> exSkippable e' = exSkippable e"
  proof (cases "exPending e")
    case None
    then show ?thesis using assms by (simp add: flushPending_eq)
  next
    case (Some p)
    let ?fs = "hunkEdits (pdTarget p) (map fst (pdPayloads p)) (pdLineNum p)"
    have e': "e' = pushEdits ?fs (e\<lparr>exPending := None\<rparr>)"
      using assms(2) Some by (auto simp: flushPending_eq split: option.splits if_splits)
    have new: "d \<in> set (numberEdits k ?fs) \<Longrightarrow> elineNum d = pdLineNum p" for d k
      by (auto dest!: set_numberEdits simp: hunkEdits_lineNum)
    have inv: "exEditIndex e = length (exEdits e)" "editsInv (exEdits e)" "targetOk (pdTarget p)"
      "\<forall>d \<in> set (exEdits e). elineNum d < pdLineNum p" "pdLineNum p < n" "commentsInv e"
      "\<forall>d \<in> set (exEdits e). elineNum d < n"
      using assms(1) Some by (simp_all add: executorInv_def)
    show ?thesis
      unfolding e' using inv new editsInv_hunk [OF inv(2,4,3)]
      by (auto simp: executorInv_def pushEdits_def commentsInv_def)
  qed
  then show "executorInv n e'" "exPending e' = None" "exSkippable e' = exSkippable e" by simp_all
qed

lemma executorFeed_inv:
  assumes inv: "executorInv n e" and tok: "tlineNum tok = n"
    and pos: "\<And>t. tok = OpBlock n t \<Longrightarrow> list_all (\<lambda>k. 0 < k) (targetLines t)"
    and step: "executorFeed tok e = Inr e'"
  shows "executorInv (Suc n) e'"
proof (cases "exTerminated e")
  case True
  then show ?thesis using step executorInv_mono [OF inv] by (simp add: executorFeed_def)
next
  case False
  have inv': "executorInv (Suc n) e" by (rule executorInv_mono [OF inv]) simp
  have ci: "commentsInv e" using inv by (simp add: executorInv_def)
  note eqs = consume_Inr [OF ci] bindE_eq_Inr
  show ?thesis
  proof (cases tok)
    case (Blank l)
    then show ?thesis using step inv' False by (simp add: executorFeed_def eqs)
  next
    case (EnvelopeBegin l)
    then show ?thesis using step inv' False by (simp add: executorFeed_def eqs)
  next
    case (EnvelopeEnd l)
    then show ?thesis using step inv' False
      by (auto simp: executorFeed_def eqs executorInv_def commentsInv_def)
  next
    case (Abort l)
    then show ?thesis using step inv' False
      by (auto simp: executorFeed_def executorInv_def commentsInv_def)
  next
    case (Header l p h)
    then show ?thesis using step flushPending_inv(1) [OF inv'] False by (auto simp: executorFeed_def eqs)
  next
    case (PayloadLiteral l row)
    then show ?thesis using step inv' False
      by (auto simp: executorFeed_def eqs handleLiteralPayload_def executorInv_def commentsInv_def
          pushPayload_def split: option.splits block_target.splits)
  next
    case (Raw l row)
    have "executorInv (Suc n) (e\<lparr>exSkippable := exSkippable e @ [(row, l)]\<rparr>)"
      if "exPending e = None" "isSkippableCommentLine row"
      using inv' that by (auto simp: executorInv_def commentsInv_def)
    moreover have "executorInv (Suc n) e'" if "handleRaw row l e = Inr e'"
      using inv' that
      by (auto simp: handleRaw_def executorInv_def commentsInv_def
          pushPayload_def split: option.splits block_target.splits if_splits)
    ultimately show ?thesis using Raw step False
      by (auto simp: executorFeed_def eqs split: if_splits)
  next
    case (OpBlock l t)
    then have l: "l = n" using tok by simp
    have inv1: "executorInv n (discardPendingSkippableComments e)"
      using inv by (simp add: executorInv_def discardPendingSkippableComments_def commentsInv_def)
    obtain e2 where e2: "flushPending (discardPendingSkippableComments e) = Inr e2"
      "e' = e2\<lparr>exPending := Some \<lparr>pdTarget = t, pdLineNum = n, pdPayloads = []\<rparr>\<rparr>"
      using step OpBlock False l by (auto simp: executorFeed_def Let_def bindE_eq_Inr)
    have ord: "targetOrdered t"
      using step OpBlock False
      by (cases t) (auto simp: executorFeed_def Let_def bindE_eq_Inr validateRangeOrder_def split: if_splits)
    have "list_all (\<lambda>k. 0 < k) (targetLines t)" using pos OpBlock l by simp
    with ord have "targetOk t" by (simp add: targetOk_def)
    moreover have "exSkippable e2 = []"
      using flushPending_inv(3) [OF inv1 e2(1)] by (simp add: discardPendingSkippableComments_def)
    ultimately show ?thesis
      using flushPending_inv(1) [OF inv1 e2(1)] e2(2)
      by (auto simp: executorInv_def commentsInv_def less_Suc_eq)
  qed
qed

lemma foldE_classify_inv:
  "executorInv n e \<Longrightarrow> foldE executorFeed (classifyFrom n ls) e = Inr e' \<Longrightarrow>
    executorInv (n + length ls) e'"
proof (induction ls arbitrary: n e)
  case Nil
  then show ?case by simp
next
  case (Cons l ls)
  then obtain e1 where e1: "executorFeed (classifyLine l n) e = Inr e1"
    "foldE executorFeed (classifyFrom (Suc n) ls) e1 = Inr e'"
    by (auto simp: bindE_eq_Inr)
  have "executorInv (Suc n) e1"
    by (rule executorFeed_inv [OF Cons.prems(1) _ _ e1(1)])
      (auto simp: classifyLine_OpBlock dest: tryParseHunkHeader_pos)
  from Cons.IH [OF this e1(2)] show ?case by simp
qed

lemma executor_after_tokens:
  "foldE executorFeed (patchTokens diff) newExecutor = Inr e \<Longrightarrow> \<exists>n. executorInv n e"
  using foldE_classify_inv [OF commentsInv_new] by (auto simp: patchTokens_def)

text \<open>What the invariant gives once the overlap check has passed.\<close>

definition wellFormedEdits :: "edit list \<Rightarrow> bool" where
  "wellFormedEdits edits \<longleftrightarrow> map eindex edits = [0 ..< length edits] \<and> list_all positiveEdit edits
     \<and> distinct (map eanchor (filter isDelete edits)) \<and> replacementsOwned edits"

lemma editsInv_wellFormed:
  assumes "editsInv edits" and "sameAnchorSameHunk edits"
  shows "wellFormedEdits edits"
proof -
  let ?ds = "filter isDelete edits"
  have "inj_on eanchor (set ?ds)"
  proof (rule inj_onI)
    fix d d' assume d: "d \<in> set ?ds" "d' \<in> set ?ds" "eanchor d = eanchor d'"
    then obtain a n i m j where e: "d = DeleteEdit a n i" "d' = DeleteEdit a m j"
      by (auto simp: isDelete_iff)
    then have nm: "n = m" using assms(2) d by (auto simp: sameAnchorSameHunk_def)
    have key: "inj_on (\<lambda>d. (elineNum d, eanchor d)) (set ?ds)"
      using assms(1) by (simp add: editsInv_def deleteKeys_def distinct_map)
    show "d = d'" by (rule inj_onD [OF key _ d(1,2)]) (simp add: e nm)
  qed
  moreover have "distinct ?ds"
    using assms(1) by (simp add: editsInv_def deleteKeys_def distinct_map)
  ultimately show ?thesis using assms(1) by (simp add: wellFormedEdits_def editsInv_def distinct_map)
qed

lemma parsePatch_edits:
  assumes "parsePatch diff = Inr (edits, ws)"
  shows "wellFormedEdits edits"
proof -
  obtain e st where e: "foldE executorFeed (patchTokens diff) newExecutor = Inr e"
    "executorEnd e = Inr ((edits, ws), st)"
    using assms by (auto simp: parsePatch_tokens bindE_eq_Inr)
  obtain n where inv: "executorInv n e" using executor_after_tokens [OF e(1)] by blast
  then have "commentsInv e" by (simp add: executorInv_def)
  then obtain e1 where e1: "flushPending e = Inr e1" "exEdits e1 = edits" "sameAnchorSameHunk edits"
    using e(2) by (auto simp: executorEnd_def finishEdits_def bindE_eq_Inr consume_Inr
        validateNoOverlappingDeletes_Inr)
  have "editsInv edits" using flushPending_inv(1) [OF inv e1(1)] e1(2) by (simp add: executorInv_def)
  with e1(3) show ?thesis by (rule editsInv_wellFormed [rotated])
qed

section \<open>The streaming entry point\<close>

lemma sameAnchorSameHunk_append: "sameAnchorSameHunk (xs @ ys) \<Longrightarrow> sameAnchorSameHunk xs"
  unfolding sameAnchorSameHunk_def by (metis UnCI set_append)

lemma parsePatchStreaming_edits:
  assumes "parsePatchStreaming diff = Inr (edits, ws)"
  shows "wellFormedEdits edits"
proof -
  obtain e st where e: "foldE executorFeed (patchTokens diff) newExecutor = Inr e"
    "executorEndStreaming e = Inr ((edits, ws), st)"
    using assms by (auto simp: parsePatchStreaming_tokens bindE_eq_Inr)
  obtain n where inv: "executorInv n e" using executor_after_tokens [OF e(1)] by blast
  have "executorInv n (e\<lparr>exPending := None\<rparr>)"
    using inv by (simp add: executorInv_def commentsInv_def)
  moreover have "commentsInv e" using inv by (simp add: executorInv_def)
  ultimately obtain e1 where e1: "executorInv n e1" "exEdits e1 = edits" "sameAnchorSameHunk edits"
    using e(2) flushPending_inv(1) [OF inv] inv
    by (auto simp: executorEndStreaming_def finishEdits_def bindE_eq_Inr consume_Inr
        validateNoOverlappingDeletes_Inr split: option.splits if_splits block_target.splits)
  then have "editsInv edits" by (simp add: executorInv_def)
  with e1(3) show ?thesis by (rule editsInv_wellFormed [rotated])
qed

text \<open>What the strict parser accepts, the streaming one accepts, up to a bodiless trailing hunk.\<close>

lemma parsePatchStreaming_prefix:
  assumes "parsePatch diff = Inr (edits, ws)"
  shows "\<exists>k. parsePatchStreaming diff = Inr (take k edits, ws)"
proof -
  obtain e st where e: "foldE executorFeed (patchTokens diff) newExecutor = Inr e"
    "executorEnd e = Inr ((edits, ws), st)"
    using assms by (auto simp: parsePatch_tokens bindE_eq_Inr)
  obtain n where inv: "executorInv n e" using executor_after_tokens [OF e(1)] by blast
  then have ci: "commentsInv e" by (simp add: executorInv_def)
  then obtain e1 where e1: "exSkippable e = []" "flushPending e = Inr e1" "exEdits e1 = edits"
    "exWarnings e1 = ws" "sameAnchorSameHunk edits"
    using e(2) by (auto simp: executorEnd_def finishEdits_def bindE_eq_Inr consume_Inr
        validateNoOverlappingDeletes_Inr)
  have cons: "consumePendingSkippableComments e = Inr e" using ci e1(1) by (simp add: consume_Inr)
  obtain new where new: "edits = exEdits e @ new" "ws = exWarnings e"
    using e1 by (auto simp: flushPending_eq pushEdits_def split: option.splits if_splits)
  have valid: "sameAnchorSameHunk es \<Longrightarrow> validateNoOverlappingDeletes es = Inr ()" for es
    by (simp add: validateNoOverlappingDeletes_Inr)
  have full: "bindE (flushPending e) finishEdits = Inr ((edits, ws), e1)"
    using e1 valid [OF e1(5)] by (simp add: finishEdits_def)
  have none: "finishEdits (e\<lparr>exPending := None\<rparr>) = Inr ((exEdits e, ws), e\<lparr>exPending := None\<rparr>)"
    using valid [of "exEdits e"] e1(5) new sameAnchorSameHunk_append by (auto simp: finishEdits_def)
  have "\<exists>k st'. executorEndStreaming e = Inr ((take k edits, ws), st')"
  proof (cases "executorEndStreaming e = bindE (flushPending e) finishEdits")
    case True
    then show ?thesis using full by (intro exI [of _ "length edits"]) simp
  next
    case False
    then have "executorEndStreaming e = finishEdits (e\<lparr>exPending := None\<rparr>)"
      by (auto simp: executorEndStreaming_def cons flushPending_def
          split: option.splits if_splits block_target.splits)
    then show ?thesis using none new by (intro exI [of _ "length (exEdits e)"]) simp
  qed
  then show ?thesis using e(1) by (auto simp: parsePatchStreaming_tokens)
qed

section \<open>Properties\<close>

text \<open>A patch with one hunk, evaluated.\<close>

lemma parsePatch_sample:
  "parsePatch (js ''replace 2..3:'' @ 10 # js ''+x'') =
     Inr ([InsertEdit (BeforeAnchor 2) (js ''x'') 1 0 True, DeleteEdit 2 1 1, DeleteEdit 3 1 2], [])"
  by code_simp

text \<open>C6
  Every edit list the parser returns is well formed: the edits are numbered 0, 1, 2, ... in order,
  anchor to positive lines, no line is deleted twice, and each replacement row stands before a line
  that its own hunk deletes.\<close>

theorem parsePatch_wellFormed:
  assumes "parsePatch diff = Inr (edits, ws)"
  shows "map eindex edits = [0 ..< length edits] \<and> list_all positiveEdit edits
    \<and> distinct (map eanchor (filter isDelete edits))
    \<and> (\<forall>c row n i. InsertEdit c row n i True \<in> set edits \<longrightarrow>
         (\<exists>a j. c = BeforeAnchor a \<and> DeleteEdit a n j \<in> set edits))"
  using parsePatch_edits [OF assms] by (auto simp: wellFormedEdits_def replacementsOwned_def)

lemma parsePatch_wellFormed_witness:
  "distinct (map eanchor (filter isDelete
     [InsertEdit (BeforeAnchor 2) (js ''x'') 1 0 True, DeleteEdit 2 1 1, DeleteEdit 3 1 2]))"
  using parsePatch_wellFormed [OF parsePatch_sample] by blast

text \<open>The streaming parser accepts whatever the strict parser accepts, with the same warnings and with a
  prefix of the same edits (it may drop a trailing hunk that has no body yet).\<close>

theorem parsePatchStreaming_agrees:
  assumes "parsePatch diff = Inr (edits, ws)"
  shows "\<exists>k. parsePatchStreaming diff = Inr (take k edits, ws)"
  using assms by (rule parsePatchStreaming_prefix)

lemma parsePatchStreaming_agrees_witness:
  "\<exists>k. parsePatchStreaming (js ''replace 2..3:'' @ 10 # js ''+x'') =
     Inr (take k [InsertEdit (BeforeAnchor 2) (js ''x'') 1 0 True, DeleteEdit 2 1 1, DeleteEdit 3 1 2], [])"
  by (rule parsePatchStreaming_agrees [OF parsePatch_sample])

end
