(* ===== verification/Hl_Parser_Roundtrip.thy ===== *)
theory Hl_Parser_Roundtrip
  imports Hl_Parser_Facts
begin

text \<open>
  The parser reads back a written patch: hunks rendered with the header writers of format.ts and one
  \<open>+\<close> row per body line parse to exactly the edits the hunks stand for.
\<close>

section \<open>Writing a patch\<close>

datatype hunk = Hunk (hkTarget: block_target) (hkRows: "jstring list")

fun renderHeader :: "block_target \<Rightarrow> jstring" where
  "renderHeader (TReplace rng) = formatReplaceHeader (rangeStart rng) (rangeEnd rng)"
| "renderHeader (TDelete rng) = formatDeleteHeader (rangeStart rng) (rangeEnd rng)"
| "renderHeader (TInsertBefore a) = formatInsertHeader (BeforeAnchor a)"
| "renderHeader (TInsertAfter a) = formatInsertHeader (AfterAnchor a)"
| "renderHeader TBof = formatInsertHeader Bof"
| "renderHeader TEof = formatInsertHeader Eof"
| "renderHeader _ = []"

definition renderRow :: "jstring \<Rightarrow> jstring" where
  "renderRow row = CHAR_PAYLOAD_REPLACE # row"

definition renderHunk :: "hunk \<Rightarrow> jstring list" where
  "renderHunk h = renderHeader (hkTarget h) # map renderRow (hkRows h)"

definition renderPatch :: "hunk list \<Rightarrow> jstring" where
  "renderPatch hs = joinLines (concat (map renderHunk hs))"

text \<open>A body row is one line, and no writer would end it with a carriage return of its own.\<close>

definition plainRow :: "jstring \<Rightarrow> bool" where
  "plainRow row \<longleftrightarrow> CHAR_LINE_FEED \<notin> set row \<and> stripCR row = row"

definition validHunk :: "hunk \<Rightarrow> bool" where
  "validHunk h \<longleftrightarrow> targetOk (hkTarget h) \<and> list_all plainRow (hkRows h)
     \<and> (case hkTarget h of
          TDelete _ \<Rightarrow> hkRows h = []
        | TReplace _ \<Rightarrow> True
        | TBlock _ \<Rightarrow> False
        | TDeleteBlock _ \<Rightarrow> False
        | _ \<Rightarrow> hkRows h \<noteq> [])"

text \<open>The edits of the hunks, the first header on line \<open>n\<close> of the patch.\<close>

fun lowerHunks :: "nat \<Rightarrow> hunk list \<Rightarrow> (nat \<Rightarrow> edit) list" where
  "lowerHunks n [] = []"
| "lowerHunks n (h # hs) =
     hunkEdits (hkTarget h) (hkRows h) n @ lowerHunks (n + length (renderHunk h)) hs"

section \<open>The rendered lines\<close>

lemma renderHeader_chars: "c \<in> set (renderHeader t) \<Longrightarrow> 32 \<le> c"
proof -
  have nat: "c \<in> set (natToString n) \<Longrightarrow> 32 \<le> c" for n
    using natToString_digits [of c n] by (simp add: isJsDigit_def)
  show "c \<in> set (renderHeader t) \<Longrightarrow> 32 \<le> c"
    using nat by (cases t) (auto simp: formatReplaceHeader_def formatDeleteHeader_def hl_keyword_defs split: if_splits)
qed

lemma stripCR_eq_iff: "stripCR l = l \<longleftrightarrow> l = [] \<or> List.last l \<noteq> CHAR_CARRIAGE_RETURN"
  by (auto simp: stripCR_def) (metis append_butlast_last_id butlast_snoc not_Cons_self2 self_append_conv)

lemma renderHeader_line: "CHAR_LINE_FEED \<notin> set (renderHeader t)" "stripCR (renderHeader t) = renderHeader t"
proof -
  show "CHAR_LINE_FEED \<notin> set (renderHeader t)" using renderHeader_chars [of 10 t] by auto
  show "stripCR (renderHeader t) = renderHeader t"
  proof -
    have "CHAR_CARRIAGE_RETURN \<notin> set (renderHeader t)" using renderHeader_chars [of 13 t] by auto
    then show ?thesis unfolding stripCR_eq_iff by (metis last_in_set)
  qed
qed

lemma renderRow_line:
  "plainRow row \<Longrightarrow> CHAR_LINE_FEED \<notin> set (renderRow row) \<and> stripCR (renderRow row) = renderRow row"
  by (auto simp: plainRow_def renderRow_def stripCR_eq_iff hl_char_defs hl_keyword_defs)

lemma renderHunk_lines:
  assumes "validHunk h" and "l \<in> set (renderHunk h)"
  shows "CHAR_LINE_FEED \<notin> set l \<and> stripCR l = l \<and> l \<noteq> []"
proof -
  have "renderHeader (hkTarget h) \<noteq> []"
    using assms(1) by (cases "hkTarget h")
      (auto simp: validHunk_def formatReplaceHeader_def formatDeleteHeader_def hl_keyword_defs)
  then show ?thesis
    using assms renderHeader_line [of "hkTarget h"] renderRow_line
    by (auto simp: renderHunk_def validHunk_def list_all_iff renderRow_def)
qed

lemma patchLines_joinLines:
  assumes "\<And>l. l \<in> set ls \<Longrightarrow> CHAR_LINE_FEED \<notin> set l \<and> stripCR l = l \<and> l \<noteq> []"
  shows "patchLines (joinLines ls) = ls"
proof (cases "ls = []")
  case True
  then show ?thesis by (simp add: patchLines_def)
next
  case False
  then have "splitLines (joinLines ls) = ls" using assms by (intro splitOn_joinOn) auto
  moreover have "List.last ls \<noteq> []" using assms False by simp
  ultimately show ?thesis using assms by (auto simp: patchLines_def intro!: map_idI)
qed

section \<open>Reading them back\<close>

lemma classify_renderHeader:
  assumes "validHunk h"
  shows "classifyLine (renderHeader (hkTarget h)) n = OpBlock n (hkTarget h)"
  using assms
  by (cases "hkTarget h")
    (auto simp: validHunk_def targetOk_def classify_formatted_headers classify_formatInsertHeader
      simp del: formatInsertHeader.simps)

lemma feed_rows:
  assumes "\<not> exTerminated e" and "exSkippable e = []" and "exPending e = Some p"
    and "case pdTarget p of TDelete _ \<Rightarrow> False | TDeleteBlock _ \<Rightarrow> False | _ \<Rightarrow> True"
  shows "\<exists>ps. map fst ps = rows \<and> foldE executorFeed (classifyFrom n (map renderRow rows)) e =
     Inr (e\<lparr>exPending := Some (p\<lparr>pdPayloads := pdPayloads p @ ps\<rparr>)\<rparr>)"
  using assms
proof (induction rows arbitrary: n e p)
  case Nil
  then show ?case by (intro exI [of _ "[]"]) simp
next
  case (Cons row rows)
  let ?p = "p\<lparr>pdPayloads := pdPayloads p @ [(row, n)]\<rparr>" and ?e = "e\<lparr>exPending := Some (p\<lparr>pdPayloads := pdPayloads p @ [(row, n)]\<rparr>)\<rparr>"
  have "executorFeed (PayloadLiteral n row) e = Inr ?e"
    using Cons.prems by (cases "pdTarget p")
      (simp_all add: executorFeed_def consumePendingSkippableComments_def handleLiteralPayload_def pushPayload_def)
  moreover have "classifyLine (renderRow row) n = PayloadLiteral n row"
    by (simp add: renderRow_def classify_payload)
  moreover obtain ps where "map fst ps = rows"
    "foldE executorFeed (classifyFrom (Suc n) (map renderRow rows)) ?e =
       Inr (?e\<lparr>exPending := Some (?p\<lparr>pdPayloads := pdPayloads ?p @ ps\<rparr>)\<rparr>)"
    using Cons.IH [of ?e ?p "Suc n"] Cons.prems by auto
  ultimately show ?case
    by (intro exI [of _ "(row, n) # ps"]) simp
qed

definition openHunk :: "executor \<Rightarrow> hunk \<Rightarrow> nat \<Rightarrow> executor \<Rightarrow> bool" where
  "openHunk f h n e \<longleftrightarrow> (\<exists>ps. map fst ps = hkRows h
     \<and> e = f\<lparr>exPending := Some \<lparr>pdTarget = hkTarget h, pdLineNum = n, pdPayloads = ps\<rparr>\<rparr>)"

lemma feed_hunk:
  assumes "validHunk h" and "flushPending e = Inr f"
    and "\<not> exTerminated e" "\<not> exTerminated f" and "exSkippable e = []" "exSkippable f = []"
  shows "\<exists>e'. foldE executorFeed (classifyFrom n (renderHunk h)) e = Inr e' \<and> openHunk f h n e'"
proof -
  let ?p = "\<lparr>pdTarget = hkTarget h, pdLineNum = n, pdPayloads = []\<rparr>"
  have "discardPendingSkippableComments e = e" using assms by (simp add: discardPendingSkippableComments_def)
  then have first: "executorFeed (OpBlock n (hkTarget h)) e = Inr (f\<lparr>exPending := Some ?p\<rparr>)"
    using assms by (cases "hkTarget h")
      (auto simp: executorFeed_def validHunk_def targetOk_def validateRangeOrder_def)
  show ?thesis
  proof (cases "hkRows h = []")
    case True
    then show ?thesis using first
      by (auto simp: renderHunk_def classify_renderHeader [OF assms(1)] openHunk_def)
  next
    case False
    then have "case pdTarget ?p of TDelete _ \<Rightarrow> False | TDeleteBlock _ \<Rightarrow> False | _ \<Rightarrow> True"
      using assms(1) by (cases "hkTarget h") (auto simp: validHunk_def)
    from feed_rows [of "f\<lparr>exPending := Some ?p\<rparr>" ?p, OF _ _ _ this, of "hkRows h" "Suc n"]
    obtain ps where "map fst ps = hkRows h"
      "foldE executorFeed (classifyFrom (Suc n) (map renderRow (hkRows h))) (f\<lparr>exPending := Some ?p\<rparr>) =
       Inr (f\<lparr>exPending := Some ?p\<rparr>\<lparr>exPending := Some (?p\<lparr>pdPayloads := ps\<rparr>)\<rparr>)"
      using assms by auto
    then show ?thesis using first
      by (auto simp: renderHunk_def classify_renderHeader [OF assms(1)] openHunk_def)
  qed
qed

lemma flush_openHunk:
  assumes "openHunk f h n e" and "validHunk h" and "exPending f = None"
  shows "flushPending e = Inr (pushEdits (hunkEdits (hkTarget h) (hkRows h) n) f)"
proof -
  obtain ps where ps: "map fst ps = hkRows h"
    "e = f\<lparr>exPending := Some \<lparr>pdTarget = hkTarget h, pdLineNum = n, pdPayloads = ps\<rparr>\<rparr>"
    using assms(1) by (auto simp: openHunk_def)
  have "ps = [] \<longleftrightarrow> hkRows h = []" using ps(1) by auto
  moreover have "f\<lparr>exPending := None\<rparr> = f" using assms(3) by (cases f) simp
  ultimately show ?thesis
    using assms(2) ps by (cases "hkTarget h") (auto simp: flushPending_eq validHunk_def)
qed

lemma feed_hunks:
  assumes "list_all validHunk hs" and "flushPending e = Inr f"
    and "\<not> exTerminated e" "\<not> exTerminated f" "exSkippable e = []" "exSkippable f = []" "exPending f = None"
  shows "\<exists>e'. foldE executorFeed (classifyFrom n (concat (map renderHunk hs))) e = Inr e'
     \<and> exSkippable e' = [] \<and> flushPending e' = Inr (pushEdits (lowerHunks n hs) f)"
  using assms
proof (induction hs arbitrary: n e f)
  case Nil
  then show ?case by simp
next
  case (Cons h hs)
  then have h: "validHunk h" by simp
  obtain e1 where e1: "foldE executorFeed (classifyFrom n (renderHunk h)) e = Inr e1" "openHunk f h n e1"
    using feed_hunk [OF h Cons.prems(2)] Cons.prems by blast
  let ?f = "pushEdits (hunkEdits (hkTarget h) (hkRows h) n) f"
  have fl: "flushPending e1 = Inr ?f" by (rule flush_openHunk [OF e1(2) h Cons.prems(7)])
  have "\<exists>e'. foldE executorFeed (classifyFrom (n + length (renderHunk h)) (concat (map renderHunk hs))) e1 = Inr e'
     \<and> exSkippable e' = [] \<and> flushPending e' = Inr (pushEdits (lowerHunks (n + length (renderHunk h)) hs) ?f)"
    by (rule Cons.IH [OF _ fl]) (use Cons.prems e1(2) in \<open>auto simp: openHunk_def pushEdits_def\<close>)
  then show ?case
    by (auto simp: classifyFrom_append foldE_append e1(1) pushEdits_append)
qed

lemma parsePatch_render:
  assumes "list_all validHunk hs"
  shows "parsePatch (renderPatch hs) =
     (let edits = numberEdits 0 (lowerHunks 1 hs)
      in bindE (validateNoOverlappingDeletes edits) (\<lambda>_. Inr (edits, [])))"
proof -
  have "patchTokens (renderPatch hs) = classifyFrom 1 (concat (map renderHunk hs))"
  proof -
    have "patchLines (renderPatch hs) = concat (map renderHunk hs)"
      unfolding renderPatch_def
      by (rule patchLines_joinLines) (use assms renderHunk_lines in \<open>auto simp: list_all_iff\<close>)
    then show ?thesis by (simp add: patchTokens_def)
  qed
  moreover have "flushPending newExecutor = Inr newExecutor"
    by (simp add: flushPending_def newExecutor_def)
  from feed_hunks [OF assms this, of 1] obtain e where
    "foldE executorFeed (classifyFrom 1 (concat (map renderHunk hs))) newExecutor = Inr e"
    "exSkippable e = []" "flushPending e = Inr (pushEdits (lowerHunks 1 hs) newExecutor)"
    by (auto simp: newExecutor_def)
  ultimately show ?thesis
    by (cases "validateNoOverlappingDeletes (numberEdits 0 (lowerHunks 1 hs))")
      (simp_all add: parsePatch_tokens executorEnd_def consumePendingSkippableComments_def finishEdits_def
        pushEdits_def newExecutor_def Let_def)
qed

section \<open>Properties\<close>

text \<open>C7
  Round trip of a patch: rendering valid hunks (ordered positive ranges, one-line rows, a body where
  the verb needs one) and parsing the text yields, in order, each hunk's body rows as inserts at its
  cursor followed by the deletes of its range, with the hunk's line in the patch, and no warning; it
  throws only when two hunks delete the same line.\<close>

theorem parsePatch_roundtrip:
  assumes "list_all validHunk hs"
  shows "parsePatch (renderPatch hs) =
     (let edits = numberEdits 0 (lowerHunks 1 hs)
      in bindE (validateNoOverlappingDeletes edits) (\<lambda>_. Inr (edits, [])))"
  using assms by (rule parsePatch_render)

lemma parsePatch_roundtrip_witness:
  "parsePatch (renderPatch [Hunk (TInsertAfter 4) [js ''a'', js ''b''], Hunk (TDelete \<lparr>rangeStart = 6, rangeEnd = 6\<rparr>) []]) =
     Inr ([InsertEdit (AfterAnchor 4) (js ''a'') 1 0 False, InsertEdit (AfterAnchor 4) (js ''b'') 1 1 False,
           DeleteEdit 6 4 2], [])"
proof -
  let ?hs = "[Hunk (TInsertAfter 4) [js ''a'', js ''b''], Hunk (TDelete \<lparr>rangeStart = 6, rangeEnd = 6\<rparr>) []]"
  have "list_all validHunk ?hs"
    by (simp add: validHunk_def targetOk_def plainRow_def stripCR_def)
  from parsePatch_roundtrip [OF this] show ?thesis
    by (simp add: insertRows_def deleteRows_def expandRange_def renderHunk_def
        validateNoOverlappingDeletes_def sourceLinesByAnchor_def addSourceLine_def setAdd_def Let_def)
qed

end
