(* ===== verification/Hl_Repair.thy ===== *)
theory Hl_Repair
  imports Hl_Types Js_Regex
begin

text \<open>
  The replacement-boundary repair of packages/hashline/src/apply.ts: delimiter balance, replacement
  groups, and the passes that drop payload rows that restate lines outside the range or spare
  structural closers the range swallowed. A position in the edit array is the list of the edits from
  that position on; the index lists of a group are the lists of its edits. File lines are 0-indexed
  in the array and 1-indexed in a group, as in the code.
\<close>

section \<open>Delimiter balance\<close>

record delimiter_balance =
  paren :: int
  bracket :: int
  brace :: int

definition zeroBalance :: delimiter_balance where
  "zeroBalance = \<lparr>paren = 0, bracket = 0, brace = 0\<rparr>"

record balance_scan =
  bsBalance :: delimiter_balance
  bsInBlockComment :: bool
  bsQuote :: "nat option"

definition countDelimiter :: "nat \<Rightarrow> delimiter_balance \<Rightarrow> delimiter_balance" where
  "countDelimiter ch b =
     (if ch = 40 then b\<lparr>paren := paren b + 1\<rparr>
      else if ch = 41 then b\<lparr>paren := paren b - 1\<rparr>
      else if ch = 91 then b\<lparr>bracket := bracket b + 1\<rparr>
      else if ch = 93 then b\<lparr>bracket := bracket b - 1\<rparr>
      else if ch = 123 then b\<lparr>brace := brace b + 1\<rparr>
      else if ch = 125 then b\<lparr>brace := brace b - 1\<rparr>
      else b)"

text \<open>The loop over the characters of a line; \<open>take 1 rest\<close> is the look-ahead \<open>line[i + 1]\<close>.\<close>

fun scanBalanceChars :: "jstring \<Rightarrow> balance_scan \<Rightarrow> balance_scan" where
  "scanBalanceChars [] s = s"
| "scanBalanceChars (ch # rest) s =
     (if bsInBlockComment s then
        (if ch = 42 \<and> take 1 rest = [47]
         then scanBalanceChars (tl rest) (s\<lparr>bsInBlockComment := False\<rparr>)
         else scanBalanceChars rest s)
      else (case bsQuote s of
         Some quote \<Rightarrow>
           if ch = 92 then scanBalanceChars (tl rest) s
           else if ch = quote then scanBalanceChars rest (s\<lparr>bsQuote := None\<rparr>)
           else scanBalanceChars rest s
       | None \<Rightarrow>
           if ch = 34 \<or> ch = 39 \<or> ch = 96 then scanBalanceChars rest (s\<lparr>bsQuote := Some ch\<rparr>)
           else if ch = 47 \<and> take 1 rest = [47] then s
           else if ch = 47 \<and> take 1 rest = [42]
             then scanBalanceChars (tl rest) (s\<lparr>bsInBlockComment := True\<rparr>)
           else scanBalanceChars rest (s\<lparr>bsBalance := countDelimiter ch (bsBalance s)\<rparr>)))"

definition scanBalanceLine :: "jstring \<Rightarrow> balance_scan \<Rightarrow> balance_scan" where
  "scanBalanceLine line s =
     (let s' = scanBalanceChars line s in
      if bsQuote s' = Some 34 \<or> bsQuote s' = Some 39 then s'\<lparr>bsQuote := None\<rparr> else s')"

definition computeDelimiterBalance :: "jstring list \<Rightarrow> delimiter_balance" where
  "computeDelimiterBalance ls =
     bsBalance (fold scanBalanceLine ls
       \<lparr>bsBalance = zeroBalance, bsInBlockComment = False, bsQuote = None\<rparr>)"

definition balanceDelta :: "delimiter_balance \<Rightarrow> delimiter_balance \<Rightarrow> delimiter_balance" where
  "balanceDelta a b =
     \<lparr>paren = paren a - paren b, bracket = bracket a - bracket b, brace = brace a - brace b\<rparr>"

definition balanceNegate :: "delimiter_balance \<Rightarrow> delimiter_balance" where
  "balanceNegate a = \<lparr>paren = - paren a, bracket = - bracket a, brace = - brace a\<rparr>"

definition balanceEqual :: "delimiter_balance \<Rightarrow> delimiter_balance \<Rightarrow> bool" where
  "balanceEqual a b \<longleftrightarrow> paren a = paren b \<and> bracket a = bracket b \<and> brace a = brace b"

definition balanceIsZero :: "delimiter_balance \<Rightarrow> bool" where
  "balanceIsZero a \<longleftrightarrow> paren a = 0 \<and> bracket a = 0 \<and> brace a = 0"

definition isCloser :: "nat \<Rightarrow> bool" where
  "isCloser c \<longleftrightarrow> c = 41 \<or> c = 93 \<or> c = 125"

definition STRUCTURAL_CLOSER_RE :: regex where
  "STRUCTURAL_CLOSER_RE =
     rSeqs [rSpaces, RPlus isCloser, ROpt (RClass (\<lambda>c. c = 59 \<or> c = 44)), rSpaces, REnd]"

section \<open>Replacement groups\<close>

record replacement_group =
  rgInserts :: "edit list"
  rgDeletes :: "edit list"
  rgPayload :: "jstring list"
  rgStartLine :: nat
  rgEndLine :: nat

fun isReplacementInsert :: "edit \<Rightarrow> bool" where
  "isReplacementInsert (InsertEdit _ _ _ _ replacement) = replacement"
| "isReplacementInsert _ = False"

fun isGroupInsert :: "nat \<Rightarrow> nat \<Rightarrow> edit \<Rightarrow> bool" where
  "isGroupInsert lineNum anchorLine (InsertEdit (BeforeAnchor a) _ n _ replacement) =
     (replacement \<and> n = lineNum \<and> a = anchorLine)"
| "isGroupInsert lineNum anchorLine _ = False"

fun takeGroupDeletes :: "nat \<Rightarrow> nat \<Rightarrow> edit list \<Rightarrow> edit list" where
  "takeGroupDeletes lineNum expectedLine (DeleteEdit a n i # es) =
     (if n = lineNum \<and> a = expectedLine
      then DeleteEdit a n i # takeGroupDeletes lineNum (Suc expectedLine) es else [])"
| "takeGroupDeletes lineNum expectedLine _ = []"

definition findReplacementGroup :: "edit list \<Rightarrow> replacement_group option" where
  "findReplacementGroup edits =
     (case edits of
        InsertEdit (BeforeAnchor anchorLine) _ lineNum _ True # _ \<Rightarrow>
          (let inserts = takeWhile (isGroupInsert lineNum anchorLine) edits;
               deletes = takeGroupDeletes lineNum anchorLine (drop (length inserts) edits)
           in if length deletes = 0 then None
              else Some \<lparr>rgInserts = inserts, rgDeletes = deletes, rgPayload = map etext inserts,
                         rgStartLine = anchorLine, rgEndLine = anchorLine + length deletes - 1\<rparr>)
      | _ \<Rightarrow> None)"

section \<open>Restated lines at the edges of a payload\<close>

definition suffixMatches :: "replacement_group \<Rightarrow> jstring list \<Rightarrow> nat \<Rightarrow> bool" where
  "suffixMatches g fileLines k \<longleftrightarrow>
     list_all (\<lambda>t. rgPayload g ! (length (rgPayload g) - k + t) = fileLines ! (rgEndLine g + t)) [0 ..< k]"

definition prefixMatches :: "replacement_group \<Rightarrow> jstring list \<Rightarrow> nat \<Rightarrow> bool" where
  "prefixMatches g fileLines j \<longleftrightarrow>
     list_all (\<lambda>t. rgPayload g ! t = fileLines ! (rgStartLine g - 1 - j + t)) [0 ..< j]"

text \<open>A loop from \<open>n\<close> down to 1 that returns the first number that passes, or 0.\<close>

fun findDown :: "(nat \<Rightarrow> bool) \<Rightarrow> nat \<Rightarrow> nat" where
  "findDown p 0 = 0"
| "findDown p (Suc n) = (if p (Suc n) then Suc n else findDown p n)"

definition findDuplicateSuffix ::
  "replacement_group \<Rightarrow> jstring list \<Rightarrow> delimiter_balance \<Rightarrow> nat" where
  "findDuplicateSuffix g fileLines delta =
     (if balanceIsZero delta then 0
      else findDown (\<lambda>k. suffixMatches g fileLines k
             \<and> balanceEqual (computeDelimiterBalance (drop (length (rgPayload g) - k) (rgPayload g))) delta)
           (min (length (rgPayload g)) (length fileLines - rgEndLine g)))"

definition findDuplicatePrefix ::
  "replacement_group \<Rightarrow> jstring list \<Rightarrow> delimiter_balance \<Rightarrow> nat" where
  "findDuplicatePrefix g fileLines delta =
     (if balanceIsZero delta then 0
      else findDown (\<lambda>j. prefixMatches g fileLines j
             \<and> balanceEqual (computeDelimiterBalance (take j (rgPayload g))) delta)
           (min (length (rgPayload g)) (rgStartLine g - 1)))"

text \<open>The loop counts \<open>m\<close> up while the last \<open>m\<close> deleted lines are structural closers.\<close>

fun droppedClosersLoop ::
  "replacement_group \<Rightarrow> jstring list \<Rightarrow> delimiter_balance \<Rightarrow> nat \<Rightarrow> nat \<Rightarrow> nat" where
  "droppedClosersLoop g fileLines wanted m 0 = 0"
| "droppedClosersLoop g fileLines wanted m (Suc left) =
     (let idx = rgEndLine g - m in
      if \<not> rxTest STRUCTURAL_CLOSER_RE (if idx < length fileLines then fileLines ! idx else []) then 0
      else if balanceEqual (computeDelimiterBalance (take m (drop idx fileLines))) wanted then m
      else droppedClosersLoop g fileLines wanted (Suc m) left)"

definition findDroppedSuffixClosers ::
  "replacement_group \<Rightarrow> jstring list \<Rightarrow> delimiter_balance \<Rightarrow> nat" where
  "findDroppedSuffixClosers g fileLines delta =
     droppedClosersLoop g fileLines (balanceNegate delta) 1 (length (rgDeletes g))"

definition hasNonWhitespace :: "jstring \<Rightarrow> bool" where
  "hasNonWhitespace line \<longleftrightarrow>
     list_ex (\<lambda>code. code \<noteq> 9 \<and> code \<noteq> 10 \<and> code \<noteq> 11 \<and> code \<noteq> 12 \<and> code \<noteq> 13 \<and> code \<noteq> 32) line"

definition countDuplicateLeadingBoundaryLines :: "replacement_group \<Rightarrow> jstring list \<Rightarrow> nat" where
  "countDuplicateLeadingBoundaryLines g fileLines =
     findDown (\<lambda>count. prefixMatches g fileLines count
         \<and> list_ex hasNonWhitespace (take count (rgPayload g)))
       (min (length (rgPayload g)) (rgStartLine g - 1))"

definition countDuplicateTrailingBoundaryLines :: "replacement_group \<Rightarrow> jstring list \<Rightarrow> nat" where
  "countDuplicateTrailingBoundaryLines g fileLines =
     findDown (\<lambda>count. suffixMatches g fileLines count
         \<and> list_ex hasNonWhitespace (drop (length (rgPayload g) - count) (rgPayload g)))
       (min (length (rgPayload g)) (length fileLines - rgEndLine g))"

definition findBoundaryEcho :: "replacement_group \<Rightarrow> jstring list \<Rightarrow> (nat \<times> nat) option" where
  "findBoundaryEcho g fileLines =
     (let leadingMax = countDuplicateLeadingBoundaryLines g fileLines in
      if leadingMax = 0 then None
      else let trailingMax = countDuplicateTrailingBoundaryLines g fileLines in
        if trailingMax = 0 then None
        else if leadingMax + trailingMax \<ge> length (rgPayload g) then None
        else Some (leadingMax, trailingMax))"

section \<open>The repair of a group and of an edit list\<close>

definition repairGroup ::
  "replacement_group \<Rightarrow> jstring list \<Rightarrow> edit list \<times> edit list \<times> hl_warning list" where
  "repairGroup g fileLines =
     (let inserts = rgInserts g; deletes = rgDeletes g in
      case findBoundaryEcho g fileLines of
        Some (leading, trailing) \<Rightarrow>
          (take (length inserts - trailing - leading) (drop leading inserts), deletes,
           [BoundaryEchoRepaired (rgStartLine g) leading trailing])
      | None \<Rightarrow>
          (let delta = balanceDelta (computeDelimiterBalance (rgPayload g))
                 (computeDelimiterBalance
                   (take (rgEndLine g - (rgStartLine g - 1)) (drop (rgStartLine g - 1) fileLines))) in
           if balanceIsZero delta then (inserts, deletes, [])
           else let dupSuffix = findDuplicateSuffix g fileLines delta in
             if dupSuffix > 0 then
               (take (length inserts - dupSuffix) inserts, deletes,
                [DroppedTrailingPayload (rgStartLine g) dupSuffix])
             else let dupPrefix = findDuplicatePrefix g fileLines delta in
               if dupPrefix > 0 then
                 (drop dupPrefix inserts, deletes, [DroppedLeadingPayload (rgStartLine g) dupPrefix])
               else let droppedClosers = findDroppedSuffixClosers g fileLines delta in
                 if droppedClosers > 0 then
                   (inserts, take (length deletes - droppedClosers) deletes,
                    [KeptClosers (rgStartLine g) droppedClosers])
                 else (inserts, deletes, [])))"

lemma takeGroupDeletes_prefix: "prefix (takeGroupDeletes n l es) es"
  by (induction n l es rule: takeGroupDeletes.induct) auto

lemma findReplacementGroup_Some:
  assumes "findReplacementGroup edits = Some g"
  shows "\<exists>a n. rgInserts g = takeWhile (isGroupInsert n a) edits \<and> rgInserts g \<noteq> []
    \<and> rgDeletes g = takeGroupDeletes n a (drop (length (rgInserts g)) edits) \<and> rgDeletes g \<noteq> []
    \<and> rgPayload g = map etext (rgInserts g) \<and> rgStartLine g = a
    \<and> rgEndLine g = a + length (rgDeletes g) - 1"
proof -
  obtain a row n i es where e: "edits = InsertEdit (BeforeAnchor a) row n i True # es"
    using assms
    by (auto simp: findReplacementGroup_def split: list.splits edit.splits cursor.splits bool.splits)
  have "takeWhile (isGroupInsert n a) edits \<noteq> []" by (simp add: e)
  moreover have "takeGroupDeletes n a (drop (length (takeWhile (isGroupInsert n a) edits)) edits) \<noteq> []"
    "rgInserts g = takeWhile (isGroupInsert n a) edits"
    "rgDeletes g = takeGroupDeletes n a (drop (length (takeWhile (isGroupInsert n a) edits)) edits)"
    "rgPayload g = map etext (rgInserts g)" "rgStartLine g = a"
    "rgEndLine g = a + length (rgDeletes g) - 1"
    using assms unfolding findReplacementGroup_def e
    by (auto simp: Let_def split: if_splits)
  ultimately show ?thesis by metis
qed

lemma findReplacementGroup_split:
  assumes "findReplacementGroup edits = Some g"
  shows "edits = rgInserts g @ rgDeletes g @ drop (length (rgInserts g) + length (rgDeletes g)) edits"
    and "rgDeletes g \<noteq> []" and "rgInserts g \<noteq> []"
proof -
  obtain a n where g: "rgInserts g = takeWhile (isGroupInsert n a) edits" "rgInserts g \<noteq> []"
    "rgDeletes g = takeGroupDeletes n a (drop (length (rgInserts g)) edits)" "rgDeletes g \<noteq> []"
    using findReplacementGroup_Some [OF assms] by blast
  have i: "edits = rgInserts g @ drop (length (rgInserts g)) edits"
    unfolding g(1) by (metis append_eq_conv_conj takeWhile_dropWhile_id)
  have d: "drop (length (rgInserts g)) edits =
      rgDeletes g @ drop (length (rgDeletes g)) (drop (length (rgInserts g)) edits)"
    using takeGroupDeletes_prefix [of n a "drop (length (rgInserts g)) edits"] g(3)
    by (metis append_eq_conv_conj prefixE)
  show "edits = rgInserts g @ rgDeletes g @ drop (length (rgInserts g) + length (rgDeletes g)) edits"
    using i d by (metis add.commute drop_drop)
  show "rgDeletes g \<noteq> []" "rgInserts g \<noteq> []" by (rule g)+
qed

function repairReplacementBoundaries ::
  "edit list \<Rightarrow> jstring list \<Rightarrow> edit list \<times> hl_warning list" where
  "repairReplacementBoundaries [] fileLines = ([], [])"
| "repairReplacementBoundaries (e # es) fileLines =
     (case findReplacementGroup (e # es) of
        None \<Rightarrow> (case repairReplacementBoundaries es fileLines of (out, ws) \<Rightarrow> (e # out, ws))
      | Some g \<Rightarrow>
          (case repairGroup g fileLines of (inserts, deletes, w) \<Rightarrow>
           case repairReplacementBoundaries
                  (drop (length (rgInserts g) + length (rgDeletes g)) (e # es)) fileLines of
             (out, ws) \<Rightarrow> (inserts @ deletes @ out, w @ ws)))"
  by pat_completeness auto
termination
  by (relation "measure (length \<circ> fst)")
    (auto dest!: findReplacementGroup_split(2) simp flip: length_greater_0_conv)

declare repairReplacementBoundaries.simps(2) [simp del]

end
