(* ===== verification/Hl_Apply.thy ===== *)
theory Hl_Apply
  imports Hl_Repair
begin

text \<open>
  \<open>applyEdits\<close> of packages/hashline/src/apply.ts: bounds validation, boundary repair (Hl_Repair),
  partition into head, tail and per-line buckets, and the splices from the last line to the first.
  The local variables \<open>fileLines\<close>, \<open>lineOrigins\<close> and \<open>firstChangedLine\<close> are the record \<open>applier\<close>.
\<close>

datatype line_origin = OriginalLine | InsertedLine | ReplacementLine

record applier =
  apLines :: "jstring list"
  apOrigins :: "line_origin list"
  apFirstChanged :: "nat option"

definition splice :: "nat \<Rightarrow> nat \<Rightarrow> 'a list \<Rightarrow> 'a list \<Rightarrow> 'a list" where
  "splice start deleteCount items xs = take start xs @ items @ drop (start + deleteCount) xs"

fun getEditAnchors :: "edit \<Rightarrow> anchor list" where
  "getEditAnchors (DeleteEdit a _ _) = [a]"
| "getEditAnchors (InsertEdit c _ _ _ _) = getCursorAnchors c"
| "getEditAnchors (BlockEdit a _ _ _) = [a]"

definition validateAnchor :: "nat \<Rightarrow> anchor \<Rightarrow> hl_error + unit" where
  "validateAnchor len line = (if line < 1 \<or> line > len then Inl (LineDoesNotExist line len) else Inr ())"

definition validateLineBounds :: "edit list \<Rightarrow> jstring list \<Rightarrow> hl_error + unit" where
  "validateLineBounds edits fileLines =
     foldE (\<lambda>edit _. foldE (\<lambda>anchor _. validateAnchor (length fileLines) anchor) (getEditAnchors edit) ())
       edits ()"

fun cloneAppliedEdit :: "edit \<Rightarrow> nat \<Rightarrow> edit" where
  "cloneAppliedEdit (DeleteEdit a n _) index = DeleteEdit a n index"
| "cloneAppliedEdit (InsertEdit c t n _ r) index = InsertEdit c t n index r"
| "cloneAppliedEdit (BlockEdit a ps n _) index = BlockEdit a ps n index"

definition trackFirstChanged :: "nat \<Rightarrow> applier \<Rightarrow> applier" where
  "trackFirstChanged line st =
     (case apFirstChanged st of
        None \<Rightarrow> st\<lparr>apFirstChanged := Some line\<rparr>
      | Some first \<Rightarrow> if line < first then st\<lparr>apFirstChanged := Some line\<rparr> else st)"

definition spliceLines :: "nat \<Rightarrow> nat \<Rightarrow> jstring list \<Rightarrow> line_origin list \<Rightarrow> applier \<Rightarrow> applier" where
  "spliceLines start n ls origins st =
     st\<lparr>apLines := splice start n ls (apLines st), apOrigins := splice start n origins (apOrigins st)\<rparr>"

definition insertAtStart :: "jstring list \<Rightarrow> applier \<Rightarrow> applier" where
  "insertAtStart ls st =
     (if length ls = 0 then st
      else let origins = map (\<lambda>_. InsertedLine) ls in
        if length (apLines st) = 1 \<and> apLines st ! 0 = [] then spliceLines 0 1 ls origins st
        else spliceLines 0 0 ls origins st)"

definition insertAtEnd :: "jstring list \<Rightarrow> applier \<Rightarrow> applier \<times> nat option" where
  "insertAtEnd ls st =
     (if length ls = 0 then (st, None)
      else let origins = map (\<lambda>_. InsertedLine) ls; len = length (apLines st) in
        if len = 1 \<and> apLines st ! 0 = [] then (spliceLines 0 1 ls origins st, Some 1)
        else let hasTrailingNewline = (len > 0 \<and> apLines st ! (len - 1) = []);
                 insertIndex = (if hasTrailingNewline then len - 1 else len)
             in (spliceLines insertIndex 0 ls origins st, Some (insertIndex + 1)))"

text \<open>The line that an edit is filed under; 0 for an insert at the head or the tail.\<close>

fun editLine :: "edit \<Rightarrow> nat" where
  "editLine (DeleteEdit a _ _) = a"
| "editLine (InsertEdit (BeforeAnchor a) _ _ _ _) = a"
| "editLine (InsertEdit (AfterAnchor a) _ _ _ _) = a"
| "editLine _ = 0"

definition pushToBucket :: "edit \<times> nat \<Rightarrow> (nat, (edit \<times> nat) list) jsmap \<Rightarrow> (nat, (edit \<times> nat) list) jsmap" where
  "pushToBucket entry byLine =
     (let line = editLine (fst entry) in
      case mapGet byLine line of
        Some bucket \<Rightarrow> mapSet line (bucket @ [entry]) byLine
      | None \<Rightarrow> mapSet line [entry] byLine)"

definition bucketAnchorEditsByLine :: "(edit \<times> nat) list \<Rightarrow> (nat, (edit \<times> nat) list) jsmap" where
  "bucketAnchorEditsByLine edits = fold pushToBucket edits []"

fun isAfterInsert :: "edit \<Rightarrow> bool" where
  "isAfterInsert (InsertEdit (AfterAnchor _) _ _ _ replacement) = (\<not> replacement)"
| "isAfterInsert _ = False"

fun isPlainInsert :: "edit \<Rightarrow> bool" where
  "isPlainInsert (InsertEdit (AfterAnchor _) _ _ _ _) = False"
| "isPlainInsert (InsertEdit _ _ _ _ replacement) = (\<not> replacement)"
| "isPlainInsert _ = False"

definition applyBucket :: "nat \<Rightarrow> (edit \<times> nat) list \<Rightarrow> applier \<Rightarrow> applier" where
  "applyBucket line bucket0 st =
     (let bucket = map fst (sort_key snd bucket0);
          idx = line - 1;
          currentLine = (if idx < length (apLines st) then apLines st ! idx else []);
          beforeInsertLines = map etext (filter isPlainInsert bucket);
          afterInsertLines = map etext (filter isAfterInsert bucket);
          replacementLines = map etext (filter isReplacementInsert bucket);
          deleteLine = list_ex isDelete bucket
      in if length beforeInsertLines = 0 \<and> length replacementLines = 0 \<and> length afterInsertLines = 0
            \<and> \<not> deleteLine then st
         else let
           replacement = (if deleteLine then beforeInsertLines @ replacementLines @ afterInsertLines
             else beforeInsertLines @ replacementLines @ [currentLine] @ afterInsertLines);
           origins = map (\<lambda>_. InsertedLine) beforeInsertLines
             @ map (\<lambda>_. if deleteLine then ReplacementLine else InsertedLine) replacementLines
             @ (if deleteLine then []
                else [if idx < length (apOrigins st) then apOrigins st ! idx else OriginalLine])
             @ map (\<lambda>_. InsertedLine) afterInsertLines
         in trackFirstChanged line (spliceLines idx 1 replacement origins st))"

definition applyBuckets :: "(nat, (edit \<times> nat) list) jsmap \<Rightarrow> applier \<Rightarrow> applier" where
  "applyBuckets byLine st =
     fold (\<lambda>line st. case mapGet byLine line of None \<Rightarrow> st | Some bucket \<Rightarrow> applyBucket line bucket st)
       (rev (sort (map fst byLine))) st"

fun isBofInsert :: "edit \<Rightarrow> bool" where
  "isBofInsert (InsertEdit Bof _ _ _ _) = True"
| "isBofInsert _ = False"

fun isEofInsert :: "edit \<Rightarrow> bool" where
  "isEofInsert (InsertEdit Eof _ _ _ _) = True"
| "isEofInsert _ = False"

definition applyRepaired :: "edit list \<Rightarrow> jstring list \<Rightarrow> applier" where
  "applyRepaired repaired fileLines =
     (let bofLines = map etext (filter isBofInsert repaired);
          eofLines = map etext (filter isEofInsert repaired);
          anchorEdits = filter (\<lambda>(e, idx). \<not> isBofInsert e \<and> \<not> isEofInsert e)
            (zip repaired [0 ..< length repaired]);
          st0 = \<lparr>apLines = fileLines, apOrigins = map (\<lambda>_. OriginalLine) fileLines, apFirstChanged = None\<rparr>;
          st1 = applyBuckets (bucketAnchorEditsByLine anchorEdits) st0;
          st2 = (if length bofLines > 0 then trackFirstChanged 1 (insertAtStart bofLines st1) else st1)
      in case insertAtEnd eofLines st2 of
           (st3, Some changed) \<Rightarrow> trackFirstChanged changed st3
         | (st3, None) \<Rightarrow> st3)"

definition applyEdits :: "jstring \<Rightarrow> edit list \<Rightarrow> hl_error + apply_result" where
  "applyEdits text edits =
     (if length edits = 0 then Inr \<lparr>arText = text, arFirstChanged = None, arWarnings = []\<rparr>
      else if list_ex isBlock edits then Inl UnresolvedBlockInternal
      else let fileLines = splitLines text;
               targetEdits = map (\<lambda>(edit, index). cloneAppliedEdit edit index) (zip edits [0 ..< length edits])
           in bindE (validateLineBounds targetEdits fileLines) (\<lambda>_.
                case repairReplacementBoundaries targetEdits fileLines of
                  (repaired, warnings) \<Rightarrow>
                    (let st = applyRepaired repaired fileLines in
                     Inr \<lparr>arText = joinLines (apLines st), arFirstChanged = apFirstChanged st,
                          arWarnings = warnings\<rparr>)))"

end
