(* ===== verification/Hl_Repair_Facts.thy ===== *)
theory Hl_Repair_Facts
  imports Hl_Repair
begin

text \<open>
  What the boundary repair may change: it only drops edits, a dropped payload row restates a file
  line that borders the range and survives, a spared delete keeps a structural closer, and a patch
  without a repair warning is left as it was.
\<close>

lemma findDown_props:
  "findDown p n \<le> n" "0 < findDown p n \<Longrightarrow> p (findDown p n)"
  by (induction n) (auto intro: le_SucI)

lemma findDown_largest: "findDown p n < k \<Longrightarrow> k \<le> n \<Longrightarrow> \<not> p k"
  by (induction n) (auto simp: le_Suc_eq split: if_splits)

text \<open>The lines of the file above and below a range.\<close>

definition linesAbove :: "replacement_group \<Rightarrow> jstring list \<Rightarrow> nat \<Rightarrow> jstring list" where
  "linesAbove g ls j = take j (drop (rgStartLine g - 1 - j) ls)"

definition linesBelow :: "replacement_group \<Rightarrow> jstring list \<Rightarrow> nat \<Rightarrow> jstring list" where
  "linesBelow g ls k = take k (drop (rgEndLine g) ls)"

lemma suffixMatches_iff:
  assumes "k \<le> length (rgPayload g)" and "k \<le> length ls - rgEndLine g"
  shows "suffixMatches g ls k \<longleftrightarrow> drop (length (rgPayload g) - k) (rgPayload g) = linesBelow g ls k"
  using assms by (auto simp: suffixMatches_def linesBelow_def list_all_iff list_eq_iff_nth_eq)

lemma prefixMatches_iff:
  assumes "j \<le> length (rgPayload g)" and "j \<le> rgStartLine g - 1" and "rgStartLine g - 1 \<le> length ls"
  shows "prefixMatches g ls j \<longleftrightarrow> take j (rgPayload g) = linesAbove g ls j"
  using assms by (auto simp: prefixMatches_def linesAbove_def list_all_iff list_eq_iff_nth_eq)

section \<open>Groups\<close>

definition groupFits :: "replacement_group \<Rightarrow> jstring list \<Rightarrow> bool" where
  "groupFits g ls \<longleftrightarrow> rgPayload g = map etext (rgInserts g) \<and> 0 < rgStartLine g
     \<and> rgEndLine g = rgStartLine g + length (rgDeletes g) - 1 \<and> rgDeletes g \<noteq> []
     \<and> map eanchor (rgDeletes g) = [rgStartLine g ..< Suc (rgEndLine g)] \<and> rgEndLine g \<le> length ls"

lemma takeGroupDeletes_anchors:
  "map eanchor (takeGroupDeletes n l es) = [l ..< l + length (takeGroupDeletes n l es)]"
  "list_all isDelete (takeGroupDeletes n l es)"
  by (induction n l es rule: takeGroupDeletes.induct) (simp_all add: upt_conv_Cons del: upt_Suc)

lemma findReplacementGroup_fits:
  assumes "findReplacementGroup edits = Some g"
    and "\<And>e. e \<in> set edits \<Longrightarrow> isDelete e \<Longrightarrow> 0 < eanchor e \<and> eanchor e \<le> length ls"
  shows "groupFits g ls"
proof -
  obtain a n where g: "rgDeletes g = takeGroupDeletes n a (drop (length (rgInserts g)) edits)"
    "rgDeletes g \<noteq> []" "rgPayload g = map etext (rgInserts g)" "rgStartLine g = a"
    "rgEndLine g = a + length (rgDeletes g) - 1"
    using findReplacementGroup_Some [OF assms(1)] by blast
  have mem: "d \<in> set edits" if "d \<in> set (rgDeletes g)" for d
    using that findReplacementGroup_split(1) [OF assms(1)] by (metis UnCI set_append)
  have anchors: "map eanchor (rgDeletes g) = [a ..< a + length (rgDeletes g)]"
    "list_all isDelete (rgDeletes g)"
    unfolding g(1) by (rule takeGroupDeletes_anchors)+
  have len: "0 < length (rgDeletes g)" using g(2) by simp
  then have "eanchor (rgDeletes g ! 0) = a" "eanchor (rgDeletes g ! (length (rgDeletes g) - 1)) = rgEndLine g"
    using arg_cong [OF anchors(1), of "\<lambda>xs. xs ! 0"]
      arg_cong [OF anchors(1), of "\<lambda>xs. xs ! (length (rgDeletes g) - 1)"] g(5) len by simp_all
  moreover have "0 < eanchor d \<and> eanchor d \<le> length ls" if "d \<in> set (rgDeletes g)" for d
    using mem [OF that] assms(2) anchors(2) that by (simp add: list_all_iff)
  ultimately have "0 < a" "rgEndLine g \<le> length ls"
    using len by (metis nth_mem diff_less zero_less_one)+
  then show ?thesis
    using g anchors(1) len by (simp add: groupFits_def)
qed

section \<open>A repaired group\<close>

lemma droppedClosersLoop_props:
  assumes "droppedClosersLoop g ls wanted m left = r" and "0 < r"
    and "\<And>k. 0 < k \<Longrightarrow> k < m \<Longrightarrow> rxTest STRUCTURAL_CLOSER_RE (ls ! (rgEndLine g - k))"
    and "rgEndLine g \<le> length ls" and "0 < m" and "0 < rgEndLine g"
  shows "r < m + left \<and> m \<le> r
     \<and> (\<forall>k. 0 < k \<longrightarrow> k \<le> r \<longrightarrow> rxTest STRUCTURAL_CLOSER_RE (ls ! (rgEndLine g - k)))
     \<and> balanceEqual (computeDelimiterBalance (take r (drop (rgEndLine g - r) ls))) wanted"
  using assms
proof (induction g ls wanted m left rule: droppedClosersLoop.induct)
  case (1 g ls wanted m)
  then show ?case by simp
next
  case (2 g ls wanted m left)
  have idx: "rgEndLine g - m < length ls" using 2(5-7) by linarith
  have closer: "rxTest STRUCTURAL_CLOSER_RE (ls ! (rgEndLine g - m))"
    using 2(2,3) idx by (auto simp: Let_def split: if_splits)
  then have upto: "rxTest STRUCTURAL_CLOSER_RE (ls ! (rgEndLine g - k))" if "0 < k" "k < Suc m" for k
    using that 2(4) by (cases "k = m") auto
  show ?case
  proof (cases "balanceEqual (computeDelimiterBalance (take m (drop (rgEndLine g - m) ls))) wanted")
    case True
    then have "r = m" using 2(2) closer idx by (simp add: Let_def)
    then show ?thesis using True upto by simp
  next
    case False
    then have rec: "droppedClosersLoop g ls wanted (Suc m) left = r" using 2(2) closer idx by (simp add: Let_def)
    have "r < Suc m + left \<and> Suc m \<le> r
     \<and> (\<forall>k. 0 < k \<longrightarrow> k \<le> r \<longrightarrow> rxTest STRUCTURAL_CLOSER_RE (ls ! (rgEndLine g - k)))
     \<and> balanceEqual (computeDelimiterBalance (take r (drop (rgEndLine g - r) ls))) wanted"
      by (rule 2(1) [OF refl _ _ rec 2(3)]) (use closer idx False upto 2 in simp_all)
    then show ?thesis by simp
  qed
qed

text \<open>
  The rows a repair drops from the front and the back of a payload restate the lines above and below
  the range; the deletes it spares are the last ones, of structural closers.
\<close>

definition repairSafe ::
  "replacement_group \<Rightarrow> jstring list \<Rightarrow> edit list \<Rightarrow> edit list \<Rightarrow> bool" where
  "repairSafe g ls ins dels \<longleftrightarrow>
     (\<exists>j k m. ins = take (length (rgInserts g) - k - j) (drop j (rgInserts g))
        \<and> j + k \<le> length (rgInserts g)
        \<and> take j (rgPayload g) = linesAbove g ls j \<and> j \<le> rgStartLine g - 1
        \<and> drop (length (rgPayload g) - k) (rgPayload g) = linesBelow g ls k \<and> k \<le> length ls - rgEndLine g
        \<and> dels = take (length (rgDeletes g) - m) (rgDeletes g) \<and> m \<le> length (rgDeletes g)
        \<and> (\<forall>i. 0 < i \<longrightarrow> i \<le> m \<longrightarrow> rxTest STRUCTURAL_CLOSER_RE (ls ! (rgEndLine g - i))))"

lemma repairSafe_refl: "repairSafe g ls (rgInserts g) (rgDeletes g)" if "groupFits g ls"
  unfolding repairSafe_def
  using that by (intro exI [of _ 0]) (simp add: linesAbove_def linesBelow_def groupFits_def)

lemma prefix_of_findDown:
  assumes "groupFits g ls" and "j = findDown (\<lambda>j. prefixMatches g ls j \<and> Q j)
      (min (length (rgPayload g)) (rgStartLine g - 1))" and "0 < j"
  shows "take j (rgPayload g) = linesAbove g ls j \<and> j \<le> rgStartLine g - 1 \<and> j \<le> length (rgInserts g) \<and> Q j"
proof -
  have j: "j \<le> min (length (rgPayload g)) (rgStartLine g - 1)" "prefixMatches g ls j \<and> Q j"
    using findDown_props assms(2,3) by metis+
  then show ?thesis
    using assms(1) prefixMatches_iff [of j g ls] by (auto simp: groupFits_def)
qed

lemma suffix_of_findDown:
  assumes "groupFits g ls" and "k = findDown (\<lambda>k. suffixMatches g ls k \<and> Q k)
      (min (length (rgPayload g)) (length ls - rgEndLine g))" and "0 < k"
  shows "drop (length (rgPayload g) - k) (rgPayload g) = linesBelow g ls k
     \<and> k \<le> length ls - rgEndLine g \<and> k \<le> length (rgInserts g) \<and> Q k"
proof -
  have k: "k \<le> min (length (rgPayload g)) (length ls - rgEndLine g)" "suffixMatches g ls k \<and> Q k"
    using findDown_props assms(2,3) by metis+
  then show ?thesis
    using assms(1) suffixMatches_iff [of k g ls] by (auto simp: groupFits_def)
qed

lemma repairGroup_safe:
  assumes fits: "groupFits g ls" and rep: "repairGroup g ls = (ins, dels, w)"
  shows "repairSafe g ls ins dels"
proof (cases "findBoundaryEcho g ls")
  case (Some p)
  obtain j k where p: "p = (j, k)" by (cases p)
  have jk: "j = countDuplicateLeadingBoundaryLines g ls" "k = countDuplicateTrailingBoundaryLines g ls"
    "0 < j" "0 < k" "j + k < length (rgPayload g)"
    using Some p by (auto simp: findBoundaryEcho_def Let_def split: if_splits)
  note J = prefix_of_findDown [OF fits jk(1) [unfolded countDuplicateLeadingBoundaryLines_def] jk(3)]
  note K = suffix_of_findDown [OF fits jk(2) [unfolded countDuplicateTrailingBoundaryLines_def] jk(4)]
  have "length (rgPayload g) = length (rgInserts g)" using fits by (simp add: groupFits_def)
  then show ?thesis
    unfolding repairSafe_def using rep Some p J K jk(5)
    by (intro exI [of _ j] exI [of _ k] exI [of _ 0]) (simp add: repairGroup_def Let_def)
next
  case None
  define delta where "delta = balanceDelta (computeDelimiterBalance (rgPayload g))
     (computeDelimiterBalance (take (rgEndLine g - (rgStartLine g - 1)) (drop (rgStartLine g - 1) ls)))"
  define ds where "ds = findDuplicateSuffix g ls delta"
  define dp where "dp = findDuplicatePrefix g ls delta"
  define dc where "dc = findDroppedSuffixClosers g ls delta"
  have len: "length (rgPayload g) = length (rgInserts g)" using fits by (simp add: groupFits_def)
  have rep': "(ins, dels, w) = (if balanceIsZero delta then (rgInserts g, rgDeletes g, [])
     else if ds > 0 then (take (length (rgInserts g) - ds) (rgInserts g), rgDeletes g,
        [DroppedTrailingPayload (rgStartLine g) ds])
     else if dp > 0 then (drop dp (rgInserts g), rgDeletes g, [DroppedLeadingPayload (rgStartLine g) dp])
     else if dc > 0 then (rgInserts g, take (length (rgDeletes g) - dc) (rgDeletes g),
        [KeptClosers (rgStartLine g) dc])
     else (rgInserts g, rgDeletes g, []))"
    using rep None unfolding repairGroup_def Let_def delta_def ds_def dp_def dc_def by simp
  consider (zero) "balanceIsZero delta" | (ds) "\<not> balanceIsZero delta" "ds > 0"
    | (dp) "\<not> balanceIsZero delta" "ds = 0" "dp > 0"
    | (dc) "\<not> balanceIsZero delta" "ds = 0" "dp = 0" "dc > 0"
    | (none) "\<not> balanceIsZero delta" "ds = 0" "dp = 0" "dc = 0"
    by blast
  then show ?thesis
  proof cases
    case zero
    then show ?thesis using rep' repairSafe_refl [OF fits] by simp
  next
    case ds
    from ds have "ds = findDown (\<lambda>k. suffixMatches g ls k
        \<and> balanceEqual (computeDelimiterBalance (drop (length (rgPayload g) - k) (rgPayload g))) delta)
           (min (length (rgPayload g)) (length ls - rgEndLine g))"
      by (simp add: ds_def findDuplicateSuffix_def)
    from suffix_of_findDown [OF fits this ds(2)] show ?thesis
      unfolding repairSafe_def using rep' ds fits
      by (intro exI [of _ 0] exI [of _ ds] exI [of _ 0]) (simp add: linesAbove_def)
  next
    case dp
    from dp have "dp = findDown (\<lambda>j. prefixMatches g ls j
             \<and> balanceEqual (computeDelimiterBalance (take j (rgPayload g))) delta)
           (min (length (rgPayload g)) (rgStartLine g - 1))"
      by (simp add: dp_def findDuplicatePrefix_def)
    from prefix_of_findDown [OF fits this dp(3)] show ?thesis
      unfolding repairSafe_def using rep' dp fits
      by (intro exI [of _ dp] exI [of _ 0] exI [of _ 0]) (simp add: linesBelow_def)
  next
    case dc
    have "0 < rgEndLine g" "rgEndLine g \<le> length ls"
      using fits by (cases "rgDeletes g"; auto simp: groupFits_def)+
    then have "dc < 1 + length (rgDeletes g)
       \<and> (\<forall>k. 0 < k \<longrightarrow> k \<le> dc \<longrightarrow> rxTest STRUCTURAL_CLOSER_RE (ls ! (rgEndLine g - k)))"
      using droppedClosersLoop_props [of g ls "balanceNegate delta" 1 "length (rgDeletes g)" dc] dc(4)
      by (simp add: dc_def findDroppedSuffixClosers_def)
    then show ?thesis
      unfolding repairSafe_def using rep' dc fits
      by (intro exI [of _ 0] exI [of _ 0] exI [of _ dc]) (simp add: linesAbove_def linesBelow_def)
  next
    case none
    then show ?thesis using rep' repairSafe_refl [OF fits] by simp
  qed
qed

section \<open>The whole edit list\<close>

lemma repairSafe_subseq:
  "repairSafe g ls ins dels \<Longrightarrow> subseq ins (rgInserts g) \<and> subseq dels (rgDeletes g)"
  unfolding repairSafe_def
  by (auto simp: subseq_drop_many) (metis append_take_drop_id subseq_append_le_same_iff subseq_order.trans
      list_emb_append2 subseq_order.order_refl prefix_imp_subseq take_is_prefix list_emb_prefix subseq_drop_many)+

definition deletesInFile :: "edit list \<Rightarrow> jstring list \<Rightarrow> bool" where
  "deletesInFile es ls \<longleftrightarrow> list_all (\<lambda>e. isDelete e \<longrightarrow> 0 < eanchor e \<and> eanchor e \<le> length ls) es"

lemma repair_cases:
  assumes "deletesInFile (e # es) ls" and "findReplacementGroup (e # es) = Some g"
    and "repairGroup g ls = (ins, dels, w)"
  shows "groupFits g ls" and "repairSafe g ls ins dels"
    and "deletesInFile (drop (length (rgInserts g) + length (rgDeletes g)) (e # es)) ls"
proof -
  show fits: "groupFits g ls"
    by (rule findReplacementGroup_fits [OF assms(2)]) (use assms(1) in \<open>auto simp: deletesInFile_def list_all_iff\<close>)
  show "repairSafe g ls ins dels" by (rule repairGroup_safe [OF fits assms(3)])
  show "deletesInFile (drop (length (rgInserts g) + length (rgDeletes g)) (e # es)) ls"
    using assms(1) unfolding deletesInFile_def list_all_iff by (blast dest: in_set_dropD)
qed

lemma repair_subseq:
  "deletesInFile es ls \<Longrightarrow> subseq (fst (repairReplacementBoundaries es ls)) es"
proof (induction es ls rule: repairReplacementBoundaries.induct)
  case (1 ls)
  then show ?case by simp
next
  case (2 e es ls)
  show ?case
  proof (cases "findReplacementGroup (e # es)")
    case None
    have "deletesInFile es ls" using 2(3) by (simp add: deletesInFile_def)
    from 2(1) [OF None this] show ?thesis
      using None by (auto simp: repairReplacementBoundaries.simps(2) split: prod.split)
  next
    case (Some g)
    obtain ins dels w where rg: "repairGroup g ls = (ins, dels, w)" by (cases "repairGroup g ls")
    let ?rest = "drop (length (rgInserts g) + length (rgDeletes g)) (e # es)"
    note c = repair_cases [OF 2(3) Some rg]
    have rec: "subseq (fst (repairReplacementBoundaries ?rest ls)) ?rest"
      using 2(2) [OF Some rg [symmetric] refl c(3)] by simp
    have "subseq (ins @ dels @ fst (repairReplacementBoundaries ?rest ls)) (rgInserts g @ rgDeletes g @ ?rest)"
      using repairSafe_subseq [OF c(2)] rec by (intro list_emb_append_mono) auto
    then show ?thesis
      using findReplacementGroup_split(1) [OF Some] Some rg
      by (auto simp: repairReplacementBoundaries.simps(2) split: prod.split)
  qed
qed

lemma repairGroup_quiet: "repairGroup g ls = (ins, dels, []) \<Longrightarrow> ins = rgInserts g \<and> dels = rgDeletes g"
  by (auto simp: repairGroup_def Let_def split: option.splits prod.splits if_splits)

lemma repair_quiet:
  "snd (repairReplacementBoundaries es ls) = [] \<Longrightarrow> fst (repairReplacementBoundaries es ls) = es"
proof (induction es ls rule: repairReplacementBoundaries.induct)
  case (1 ls)
  then show ?case by simp
next
  case (2 e es ls)
  show ?case
  proof (cases "findReplacementGroup (e # es)")
    case None
    from 2(1) [OF None] 2(3) show ?thesis
      using None by (auto simp: repairReplacementBoundaries.simps(2) split: prod.splits)
  next
    case (Some g)
    obtain ins dels w where rg: "repairGroup g ls = (ins, dels, w)" by (cases "repairGroup g ls")
    let ?rest = "drop (length (rgInserts g) + length (rgDeletes g)) (e # es)"
    have "w = []" "snd (repairReplacementBoundaries ?rest ls) = []"
      using 2(3) Some rg by (auto simp: repairReplacementBoundaries.simps(2) split: prod.splits)
    moreover from this have "fst (repairReplacementBoundaries ?rest ls) = ?rest"
      using 2(2) [OF Some rg [symmetric] refl] by simp
    ultimately show ?thesis
      using findReplacementGroup_split(1) [OF Some] Some rg repairGroup_quiet [of g ls ins dels]
      by (auto simp: repairReplacementBoundaries.simps(2) split: prod.splits)
  qed
qed

section \<open>Properties\<close>

text \<open>Boundary repair never loses authored content: for a replacement group inside the file, the rows it
  drops at the front and at the back of the payload are copies of the file lines directly above and
  below the range, which survive; the deletes it spares are the last ones of the range and stand on
  lines that are nothing but closing delimiters.\<close>

theorem repairGroup_keeps_content:
  assumes "findReplacementGroup edits = Some g" and "deletesInFile edits ls"
    and "repairGroup g ls = (ins, dels, w)"
  shows "\<exists>j k m. ins = take (length (rgInserts g) - k - j) (drop j (rgInserts g))
     \<and> take j (rgPayload g) = take j (drop (rgStartLine g - 1 - j) ls)
     \<and> drop (length (rgPayload g) - k) (rgPayload g) = take k (drop (rgEndLine g) ls)
     \<and> j \<le> rgStartLine g - 1 \<and> k \<le> length ls - rgEndLine g \<and> j + k \<le> length (rgInserts g)
     \<and> dels = take (length (rgDeletes g) - m) (rgDeletes g)
     \<and> (\<forall>i. 0 < i \<longrightarrow> i \<le> m \<longrightarrow> rxTest STRUCTURAL_CLOSER_RE (ls ! (rgEndLine g - i)))"
proof -
  have fits: "groupFits g ls"
    by (rule findReplacementGroup_fits [OF assms(1)])
      (use assms(2) in \<open>auto simp: deletesInFile_def list_all_iff\<close>)
  show ?thesis
    using repairGroup_safe [OF fits assms(3)]
    unfolding repairSafe_def linesAbove_def linesBelow_def by blast
qed

text \<open>A payload that restates the closing brace below its range, evaluated.\<close>

lemma repairGroup_sample:
  "repairGroup \<lparr>rgInserts = [InsertEdit (BeforeAnchor 2) (js ''x;'') 1 0 True, InsertEdit (BeforeAnchor 2) (js ''}'') 1 1 True],
      rgDeletes = [DeleteEdit 2 1 2], rgPayload = [js ''x;'', js ''}''], rgStartLine = 2, rgEndLine = 2\<rparr>
     [js ''f {'', js ''y;'', js ''}''] =
   ([InsertEdit (BeforeAnchor 2) (js ''x;'') 1 0 True], [DeleteEdit 2 1 2], [DroppedTrailingPayload 2 1])"
  by code_simp

lemma repairGroup_keeps_content_witness:
  "\<exists>k. drop (Suc (Suc 0) - k) [js ''x;'', js ''}''] = take k [js ''}''] \<and> k \<le> Suc 0
     \<and> (\<exists>j. [InsertEdit (BeforeAnchor 2) (js ''x;'') 1 0 True] = take (Suc (Suc 0) - (k + j))
       (drop j [InsertEdit (BeforeAnchor 2) (js ''x;'') 1 0 True, InsertEdit (BeforeAnchor 2) (js ''}'') 1 1 True]))"
  using repairGroup_keeps_content [OF _ _ repairGroup_sample, of
    "[InsertEdit (BeforeAnchor 2) (js ''x;'') 1 0 True, InsertEdit (BeforeAnchor 2) (js ''}'') 1 1 True, DeleteEdit 2 1 2]"]
  by (simp add: findReplacementGroup_def deletesInFile_def) blast

end
