(* ===== verification/Hl_Apply_Facts.thy ===== *)
theory Hl_Apply_Facts
  imports Hl_Apply Hl_Repair_Facts "HOL-Library.Multiset"
begin

text \<open>
  \<open>applyEdits\<close> against a one-pass reference: the code files the edits per line and splices from the
  bottom up; the reference renders every original line in order with the edits anchored to it.
\<close>

section \<open>The one-pass reference\<close>

definition lineEdits :: "edit list \<Rightarrow> nat \<Rightarrow> edit list" where
  "lineEdits es l = filter (\<lambda>e. editLine e = l) es"

text \<open>What becomes of the line \<open>x\<close> under its edits.\<close>

definition renderLine :: "edit list \<Rightarrow> jstring \<Rightarrow> jstring list" where
  "renderLine es x = map etext (filter isPlainInsert es) @ map etext (filter isReplacementInsert es)
     @ (if list_ex isDelete es then [] else [x]) @ map etext (filter isAfterInsert es)"

fun renderWith :: "(nat \<Rightarrow> jstring \<Rightarrow> jstring list) \<Rightarrow> nat \<Rightarrow> jstring list \<Rightarrow> jstring list" where
  "renderWith g n [] = []"
| "renderWith g n (x # xs) = g n x @ renderWith g (Suc n) xs"

definition renderBody :: "edit list \<Rightarrow> jstring list \<Rightarrow> jstring list" where
  "renderBody es ls = renderWith (\<lambda>n. renderLine (lineEdits es n)) 1 ls"

definition placeHead :: "jstring list \<Rightarrow> jstring list \<Rightarrow> jstring list" where
  "placeHead new ls = (if new = [] then ls else if ls = [[]] then new else new @ ls)"

definition tailIndex :: "jstring list \<Rightarrow> nat" where
  "tailIndex ls = (if ls \<noteq> [] \<and> List.last ls = [] then length ls - 1 else length ls)"

definition placeTail :: "jstring list \<Rightarrow> jstring list \<Rightarrow> jstring list" where
  "placeTail new ls =
     (if new = [] then ls else take (tailIndex ls) ls @ new @ (if ls = [[]] then [] else drop (tailIndex ls) ls))"

definition headLines :: "edit list \<Rightarrow> jstring list" where
  "headLines es = map etext (filter isBofInsert es)"

definition tailLines :: "edit list \<Rightarrow> jstring list" where
  "tailLines es = map etext (filter isEofInsert es)"

definition renderFile :: "edit list \<Rightarrow> jstring list \<Rightarrow> jstring list" where
  "renderFile es ls = placeTail (tailLines es) (placeHead (headLines es) (renderBody es ls))"

section \<open>Buckets\<close>

lemma pushToBucket_get:
  "mapGet (pushToBucket x m) l = (if l = editLine (fst x)
     then Some ((case mapGet m l of None \<Rightarrow> [] | Some b \<Rightarrow> b) @ [x]) else mapGet m l)"
  by (auto simp: pushToBucket_def Let_def split: option.split)

lemma bucketAnchorEditsByLine_get:
  "mapGet (bucketAnchorEditsByLine xs) l =
     (let b = filter (\<lambda>x. editLine (fst x) = l) xs in if b = [] then None else Some b)"
  unfolding bucketAnchorEditsByLine_def
  by (induction xs rule: rev_induct) (auto simp: pushToBucket_get Let_def)

lemma bucketAnchorEditsByLine_keys:
  "distinct (map fst (bucketAnchorEditsByLine xs))"
  "set (map fst (bucketAnchorEditsByLine xs)) = (editLine \<circ> fst) ` set xs"
proof -
  show "distinct (map fst (bucketAnchorEditsByLine xs))"
    unfolding bucketAnchorEditsByLine_def
    by (induction xs rule: rev_induct) (auto simp: pushToBucket_def Let_def distinct_mapSet split: option.split)
  have "l \<in> set (map fst (bucketAnchorEditsByLine xs)) \<longleftrightarrow> l \<in> (editLine \<circ> fst) ` set xs" for l
  proof -
    have "l \<in> set (map fst (bucketAnchorEditsByLine xs)) \<longleftrightarrow> mapGet (bucketAnchorEditsByLine xs) l \<noteq> None"
      by (auto simp: map_of_eq_None_iff)
    also have "\<dots> \<longleftrightarrow> l \<in> (editLine \<circ> fst) ` set xs"
      by (auto simp: bucketAnchorEditsByLine_get Let_def filter_empty_conv)
    finally show ?thesis .
  qed
  then show "set (map fst (bucketAnchorEditsByLine xs)) = (editLine \<circ> fst) ` set xs" by blast
qed

definition anchored :: "edit list \<Rightarrow> (edit \<times> nat) list" where
  "anchored es = filter (\<lambda>(e, idx). \<not> isBofInsert e \<and> \<not> isEofInsert e) (zip es [0 ..< length es])"

lemma editLine_head_tail: "isBofInsert e \<or> isEofInsert e \<Longrightarrow> editLine e = 0"
  by (cases e rule: editLine.cases) auto

lemma sorted_filter_snd: "sorted (map snd (filter P (zip es [0 ..< length es])))"
  by (rule sorted_filter) simp

lemma bucket_edits:
  assumes "0 < l"
  shows "map fst (sort_key snd (filter (\<lambda>x. editLine (fst x) = l) (anchored es))) = lineEdits es l"
proof -
  have f: "filter (\<lambda>x. editLine (fst x) = l) (anchored es) =
      filter (\<lambda>x. editLine (fst x) = l) (zip es [0 ..< length es])"
    using assms editLine_head_tail by (auto simp: anchored_def intro!: filter_cong)
  have "map fst (filter (\<lambda>x. Q (fst x)) (zip es ns)) = filter Q es" if "length ns = length es" for Q ns
    using that by (induction es ns rule: list_induct2') auto
  from this [of "[0 ..< length es]" "\<lambda>e. editLine e = l"] show ?thesis
    unfolding f by (simp add: sort_key_id_if_sorted sorted_filter_snd lineEdits_def)
qed

section \<open>One bucket\<close>

lemma renderLine_idle:
  assumes "filter isPlainInsert es = []" "filter isReplacementInsert es = []" "filter isAfterInsert es = []"
    and "\<not> list_ex isDelete es"
  shows "renderLine es x = [x]"
  using assms by (simp add: renderLine_def)

lemma applyBucket_lines:
  assumes "0 < l" and "l \<le> length (apLines st)"
  shows "apLines (applyBucket l (filter (\<lambda>x. editLine (fst x) = l) (anchored es)) st) =
     take (l - 1) (apLines st) @ renderLine (lineEdits es l) (apLines st ! (l - 1)) @ drop l (apLines st)"
proof -
  have split: "apLines st = take (l - 1) (apLines st) @ [apLines st ! (l - 1)] @ drop l (apLines st)"
    using assms id_take_nth_drop [of "l - 1" "apLines st"] by simp
  let ?B = "lineEdits es l"
  show ?thesis
  proof (cases "filter isPlainInsert ?B = [] \<and> filter isReplacementInsert ?B = []
      \<and> filter isAfterInsert ?B = [] \<and> \<not> list_ex isDelete ?B")
    case True
    then show ?thesis
      using split renderLine_idle [of ?B]
      by (simp add: applyBucket_def Let_def bucket_edits [OF assms(1)])
  next
    case False
    have "apLines (trackFirstChanged m s) = apLines s" for m s
      by (auto simp: trackFirstChanged_def split: option.split)
    then show ?thesis
      using False assms
      by (auto simp: applyBucket_def Let_def bucket_edits [OF assms(1)] spliceLines_def splice_def
          renderLine_def)
  qed
qed

section \<open>All buckets, from the bottom up\<close>

lemma renderWith_append:
  "renderWith g n (xs @ ys) = renderWith g n xs @ renderWith g (n + length xs) ys"
  by (induction xs arbitrary: n) simp_all

lemma renderWith_cong:
  "(\<And>k x. n \<le> k \<Longrightarrow> k < n + length xs \<Longrightarrow> g k x = h k x) \<Longrightarrow> renderWith g n xs = renderWith h n xs"
proof (induction xs arbitrary: n)
  case Nil
  then show ?case by simp
next
  case (Cons x xs)
  then show ?case using Cons.IH [of "Suc n"] by simp
qed

lemma renderWith_id: "renderWith (\<lambda>k x. [x]) n xs = xs"
  by (induction xs arbitrary: n) simp_all

definition onLines :: "nat set \<Rightarrow> (nat \<Rightarrow> jstring \<Rightarrow> jstring list) \<Rightarrow> nat \<Rightarrow> jstring \<Rightarrow> jstring list" where
  "onLines K g k x = (if k \<in> K then g k x else [x])"

lemma fold_buckets:
  assumes step: "\<And>l st. 0 < l \<Longrightarrow> l \<le> length (apLines st) \<Longrightarrow>
      apLines (f l st) = take (l - 1) (apLines st) @ g l (apLines st ! (l - 1)) @ drop l (apLines st)"
    and "sorted_wrt (>) ks" and "list_all (\<lambda>k. 0 < k \<and> k \<le> length pre) ks"
    and "apLines st = pre @ suf"
  shows "apLines (fold f ks st) = renderWith (onLines (set ks) g) 1 pre @ suf"
  using assms(2-)
proof (induction ks arbitrary: pre suf st)
  case Nil
  have "renderWith (onLines {} g) 1 pre = pre"
    using renderWith_cong [of 1 pre "onLines {} g" "\<lambda>k x. [x]"] renderWith_id by (simp add: onLines_def)
  then show ?case using Nil by simp
next
  case (Cons k ks)
  let ?pre = "take (k - 1) pre" and ?x = "pre ! (k - 1)" and ?rest = "drop k pre"
  have k: "0 < k" "k \<le> length pre" and lt: "\<And>j. j \<in> set ks \<Longrightarrow> j < k"
    using Cons.prems by auto
  have pre: "pre = ?pre @ ?x # ?rest" using k id_take_nth_drop [of "k - 1" pre] by simp
  have st: "apLines (f k st) = ?pre @ (g k ?x @ ?rest @ suf)"
  proof -
    have "k - 1 < length pre" using k by linarith
    then show ?thesis using step [of k st] k Cons.prems(3) by (simp add: nth_append)
  qed
  have "apLines (fold f ks (f k st)) =
      renderWith (onLines (set ks) g) 1 ?pre @ (g k ?x @ ?rest @ suf)"
    by (rule Cons.IH [OF _ _ st]) (use Cons.prems lt k in \<open>fastforce simp: list_all_iff\<close>)+
  moreover have "renderWith (onLines (set (k # ks)) g) 1 pre =
      renderWith (onLines (set ks) g) 1 ?pre @ g k ?x @ ?rest"
  proof -
    have a: "renderWith (onLines (set (k # ks)) g) 1 ?pre = renderWith (onLines (set ks) g) 1 ?pre"
      using k by (intro renderWith_cong) (auto simp: onLines_def)
    have b: "renderWith (onLines (set (k # ks)) g) (Suc k) ?rest = ?rest"
      using renderWith_cong [of "Suc k" ?rest "onLines (set (k # ks)) g" "\<lambda>k x. [x]"] renderWith_id lt
      by (fastforce simp: onLines_def)
    have "renderWith (onLines (set (k # ks)) g) 1 (?pre @ ?x # ?rest) =
      renderWith (onLines (set ks) g) 1 ?pre @ g k ?x @ ?rest"
      using a b k by (simp add: renderWith_append onLines_def)
    then show ?thesis using pre by metis
  qed
  ultimately show ?case by simp
qed

text \<open>Keys of the bucket map from the largest down.\<close>

lemma rev_sort_keys:
  "distinct ks \<Longrightarrow> sorted_wrt (>) (rev (sort ks))"
proof -
  assume "distinct ks"
  then have "sorted_wrt (<) (sort ks)" by (simp add: strict_sorted_iff)
  then show ?thesis by (simp add: sorted_wrt_rev)
qed

definition anchorsInFile :: "edit list \<Rightarrow> jstring list \<Rightarrow> bool" where
  "anchorsInFile es ls \<longleftrightarrow>
     list_all (\<lambda>e. list_all (\<lambda>a. 0 < a \<and> a \<le> length ls) (getEditAnchors e)) es"

lemma editLine_anchored:
  assumes "anchorsInFile es ls" and "\<not> list_ex isBlock es" and "e \<in> set es"
    and "\<not> isBofInsert e" "\<not> isEofInsert e"
  shows "0 < editLine e \<and> editLine e \<le> length ls"
  using assms
  by (cases e rule: editLine.cases) (auto simp: anchorsInFile_def list_all_iff list_ex_iff)

definition anchorLines :: "edit list \<Rightarrow> nat set" where
  "anchorLines es = editLine ` {e \<in> set es. \<not> isBofInsert e \<and> \<not> isEofInsert e}"

lemma anchored_fst: "fst ` set (anchored es) = {e \<in> set es. \<not> isBofInsert e \<and> \<not> isEofInsert e}"
proof -
  have "fst ` set (zip es [0 ..< length es]) = set es"
    unfolding set_map [symmetric] by simp
  then have "e \<in> set es \<longleftrightarrow> (\<exists>i. (e, i) \<in> set (zip es [0 ..< length es]))" for e
    by (force simp: image_iff)
  then show ?thesis by (force simp: anchored_def image_iff)
qed

lemma bucket_keys_anchorLines:
  "set (map fst (bucketAnchorEditsByLine (anchored es))) = anchorLines es"
  unfolding bucketAnchorEditsByLine_keys(2) anchorLines_def anchored_fst [symmetric]
  by (simp add: image_image comp_def)

lemma lineEdits_not_anchored:
  assumes "0 < l" and "l \<notin> anchorLines es"
  shows "lineEdits es l = []"
  using assms editLine_head_tail
  by (auto simp: lineEdits_def anchorLines_def filter_empty_conv)

lemma renderLine_Nil [simp]: "renderLine [] x = [x]"
  by (simp add: renderLine_def)

lemma applyBuckets_lines:
  assumes "anchorsInFile es ls" and "\<not> list_ex isBlock es" and "apLines st = ls"
  shows "apLines (applyBuckets (bucketAnchorEditsByLine (anchored es)) st) = renderBody es ls"
proof -
  let ?m = "bucketAnchorEditsByLine (anchored es)"
  let ?f = "\<lambda>line st. case mapGet ?m line of None \<Rightarrow> st | Some bucket \<Rightarrow> applyBucket line bucket st"
  let ?g = "\<lambda>l. renderLine (lineEdits es l)"
  let ?ks = "rev (sort (map fst ?m))"
  have step: "apLines (?f l st) = take (l - 1) (apLines st) @ ?g l (apLines st ! (l - 1)) @ drop l (apLines st)"
    if l: "0 < l" "l \<le> length (apLines st)" for l st
  proof (cases "filter (\<lambda>x. editLine (fst x) = l) (anchored es) = []")
    case True
    then have "lineEdits es l = []" using bucket_edits [OF l(1), of es] by simp
    then show ?thesis
      using True l id_take_nth_drop [of "l - 1" "apLines st"]
      by (simp add: bucketAnchorEditsByLine_get Let_def)
  next
    case False
    then show ?thesis using applyBucket_lines [OF l] by (simp add: bucketAnchorEditsByLine_get Let_def)
  qed
  have keys: "set ?ks = anchorLines es"
    using bucket_keys_anchorLines [of es] by simp
  have bound: "list_all (\<lambda>k. 0 < k \<and> k \<le> length ls) ?ks"
    unfolding list_all_iff keys
    using editLine_anchored [OF assms(1,2)] by (auto simp: anchorLines_def)
  have "apLines (fold ?f ?ks st) = renderWith (onLines (set ?ks) ?g) 1 ls @ []"
    by (rule fold_buckets [OF step rev_sort_keys bound])
      (use assms(3) bucketAnchorEditsByLine_keys(1) in \<open>auto\<close>)
  also have "renderWith (onLines (set ?ks) ?g) 1 ls = renderBody es ls"
    unfolding renderBody_def keys
    by (rule renderWith_cong) (auto simp: onLines_def lineEdits_not_anchored)
  finally show ?thesis by (simp add: applyBuckets_def)
qed

section \<open>Head and tail\<close>

lemma apLines_trackFirstChanged [simp]: "apLines (trackFirstChanged m s) = apLines s"
  by (auto simp: trackFirstChanged_def split: option.split)

lemma insertAtStart_lines: "apLines (insertAtStart new st) = placeHead new (apLines st)"
  by (cases "apLines st"; cases "tl (apLines st)")
    (auto simp: insertAtStart_def placeHead_def spliceLines_def splice_def Let_def)

lemma insertAtEnd_lines: "apLines (fst (insertAtEnd new st)) = placeTail new (apLines st)"
proof (cases "new = []")
  case True
  then show ?thesis by (simp add: insertAtEnd_def placeTail_def)
next
  case False
  show ?thesis
  proof (cases "apLines st = [[]]")
    case True
    then show ?thesis using False
      by (simp add: insertAtEnd_def placeTail_def tailIndex_def spliceLines_def splice_def)
  next
    case nonempty: False
    then have "\<not> (length (apLines st) = 1 \<and> apLines st ! 0 = [])"
      by (cases "apLines st"; cases "tl (apLines st)") auto
    then show ?thesis using False nonempty
      by (auto simp: insertAtEnd_def placeTail_def tailIndex_def spliceLines_def splice_def Let_def
          last_conv_nth)
  qed
qed

lemma insertAtEnd_changed:
  "snd (insertAtEnd new st) =
     (if new = [] then None else if apLines st = [[]] then Some 1 else Some (Suc (tailIndex (apLines st))))"
proof -
  have "length (apLines st) = 1 \<and> apLines st ! 0 = [] \<longleftrightarrow> apLines st = [[]]"
    by (cases "apLines st"; cases "tl (apLines st)") auto
  then show ?thesis
    by (auto simp: insertAtEnd_def tailIndex_def Let_def last_conv_nth)
qed

lemma applyRepaired_lines:
  assumes "anchorsInFile es ls" and "\<not> list_ex isBlock es"
  shows "apLines (applyRepaired es ls) = renderFile es ls"
proof -
  let ?st0 = "\<lparr>apLines = ls, apOrigins = map (\<lambda>_. OriginalLine) ls, apFirstChanged = None\<rparr>"
  define st1 where "st1 = applyBuckets (bucketAnchorEditsByLine (anchored es)) ?st0"
  have st1: "apLines st1 = renderBody es ls"
    unfolding st1_def by (rule applyBuckets_lines [OF assms]) simp
  define st2 where "st2 = (if length (headLines es) > 0 then trackFirstChanged 1 (insertAtStart (headLines es) st1) else st1)"
  have st2: "apLines st2 = placeHead (headLines es) (renderBody es ls)"
    by (simp add: st2_def insertAtStart_lines st1 placeHead_def)
  have "applyRepaired es ls =
      (case insertAtEnd (tailLines es) st2 of
         (st3, Some changed) \<Rightarrow> trackFirstChanged changed st3 | (st3, None) \<Rightarrow> st3)"
    unfolding applyRepaired_def Let_def headLines_def [symmetric] tailLines_def [symmetric]
      anchored_def [symmetric] st1_def [symmetric] st2_def [symmetric] ..
  moreover have "apLines (case insertAtEnd (tailLines es) st2 of
         (st3, Some changed) \<Rightarrow> trackFirstChanged changed st3 | (st3, None) \<Rightarrow> st3) =
      apLines (fst (insertAtEnd (tailLines es) st2))"
    by (auto split: prod.split option.split)
  ultimately show ?thesis by (simp add: insertAtEnd_lines st2 renderFile_def)
qed

section \<open>The first changed line\<close>

definition minOf :: "nat list \<Rightarrow> nat option" where
  "minOf xs = (if xs = [] then None else Some (Min (set xs)))"

lemma apFirstChanged_track:
  "apFirstChanged st = minOf xs \<Longrightarrow> apFirstChanged (trackFirstChanged l st) = minOf (l # xs)"
proof (cases "xs = []")
  case False
  define m where "m = Min (set xs)"
  assume "apFirstChanged st = minOf xs"
  then have st: "apFirstChanged st = Some m" using False by (simp add: minOf_def m_def)
  have "minOf (l # xs) = Some (min l m)" using False by (simp add: minOf_def m_def)
  then show ?thesis by (auto simp: trackFirstChanged_def st)
qed (simp add: trackFirstChanged_def minOf_def)

lemma minOf_cong: "set xs = set ys \<Longrightarrow> minOf xs = minOf ys"
  by (auto simp: minOf_def)

definition firstChangedLines :: "edit list \<Rightarrow> jstring list \<Rightarrow> nat list" where
  "firstChangedLines es ls =
     (let body = placeHead (headLines es) (renderBody es ls) in
      map editLine (filter (\<lambda>e. \<not> isBofInsert e \<and> \<not> isEofInsert e) es)
        @ (if headLines es = [] then [] else [1])
        @ (if tailLines es = [] then [] else [if body = [[]] then 1 else Suc (tailIndex body)]))"

lemma bucket_busy:
  assumes "\<not> list_ex isBlock es" and "lineEdits es l \<noteq> []"
  shows "\<not> (filter isPlainInsert (lineEdits es l) = [] \<and> filter isReplacementInsert (lineEdits es l) = []
      \<and> filter isAfterInsert (lineEdits es l) = [] \<and> \<not> list_ex isDelete (lineEdits es l))"
proof -
  obtain e where e: "e \<in> set (lineEdits es l)" using assms(2) by (cases "lineEdits es l") auto
  then have "\<not> isBlock e" using assms(1) by (auto simp: lineEdits_def list_ex_iff)
  then have "isPlainInsert e \<or> isReplacementInsert e \<or> isAfterInsert e \<or> isDelete e"
    by (cases e rule: isPlainInsert.cases) auto
  then show ?thesis using e by (auto simp: filter_empty_conv list_ex_iff)
qed

lemma applyBucket_first:
  assumes "0 < l" and "\<not> list_ex isBlock es" and "lineEdits es l \<noteq> []" and "apFirstChanged st = minOf xs"
  shows "apFirstChanged (applyBucket l (filter (\<lambda>x. editLine (fst x) = l) (anchored es)) st) = minOf (l # xs)"
  using bucket_busy [OF assms(2,3)] assms(4)
  by (auto simp: applyBucket_def Let_def bucket_edits [OF assms(1)] spliceLines_def
      intro!: apFirstChanged_track)

lemma applyBuckets_first:
  assumes "anchorsInFile es ls" and "\<not> list_ex isBlock es" and "apFirstChanged st = None"
  shows "apFirstChanged (applyBuckets (bucketAnchorEditsByLine (anchored es)) st) =
     minOf (map editLine (filter (\<lambda>e. \<not> isBofInsert e \<and> \<not> isEofInsert e) es))"
proof -
  let ?m = "bucketAnchorEditsByLine (anchored es)"
  let ?f = "\<lambda>line st. case mapGet ?m line of None \<Rightarrow> st | Some bucket \<Rightarrow> applyBucket line bucket st"
  have step: "apFirstChanged (?f l st) = minOf (l # xs)"
    if "l \<in> anchorLines es" "apFirstChanged st = minOf xs" for l st xs
  proof -
    have l: "0 < l" using that(1) editLine_anchored [OF assms(1,2)] by (auto simp: anchorLines_def)
    have "l \<in> set (map fst ?m)" using that(1) bucket_keys_anchorLines [of es] by simp
    then have b: "filter (\<lambda>x. editLine (fst x) = l) (anchored es) \<noteq> []"
      unfolding bucketAnchorEditsByLine_keys(2) by (force simp: filter_empty_conv)
    have "lineEdits es l \<noteq> []" using that(1) by (auto simp: anchorLines_def lineEdits_def filter_empty_conv)
    from applyBucket_first [OF l assms(2) this that(2)] b show ?thesis
      by (simp add: bucketAnchorEditsByLine_get Let_def)
  qed
  have fold: "apFirstChanged (fold ?f ks st) = minOf (ks @ xs)"
    if "set ks \<subseteq> anchorLines es" "apFirstChanged st = minOf xs" for ks xs st
    using that
  proof (induction ks arbitrary: st xs)
    case Nil
    then show ?case by simp
  next
    case (Cons k ks)
    then have "apFirstChanged (?f k st) = minOf (k # xs)" by (intro step) auto
    from Cons.IH [OF _ this] Cons.prems show ?case
      by (simp add: minOf_cong [of "ks @ k # xs" "k # ks @ xs"])
  qed
  have keys: "set (rev (sort (map fst ?m))) = anchorLines es"
    using bucket_keys_anchorLines [of es] by simp
  have "apFirstChanged (applyBuckets ?m st) = minOf (rev (sort (map fst ?m)) @ [])"
    unfolding applyBuckets_def by (rule fold) (use keys assms(3) in \<open>auto simp: minOf_def\<close>)
  also have "\<dots> = minOf (map editLine (filter (\<lambda>e. \<not> isBofInsert e \<and> \<not> isEofInsert e) es))"
    by (rule minOf_cong) (use keys in \<open>auto simp: anchorLines_def\<close>)
  finally show ?thesis .
qed

lemma insertAt_first [simp]:
  "apFirstChanged (insertAtStart new st) = apFirstChanged st"
  "apFirstChanged (fst (insertAtEnd new st)) = apFirstChanged st"
  by (auto simp: insertAtStart_def insertAtEnd_def spliceLines_def Let_def)

lemma applyRepaired_first:
  assumes "anchorsInFile es ls" and "\<not> list_ex isBlock es"
  shows "apFirstChanged (applyRepaired es ls) = minOf (firstChangedLines es ls)"
proof -
  let ?st0 = "\<lparr>apLines = ls, apOrigins = map (\<lambda>_. OriginalLine) ls, apFirstChanged = None\<rparr>"
  let ?xs = "map editLine (filter (\<lambda>e. \<not> isBofInsert e \<and> \<not> isEofInsert e) es)"
  define st1 where "st1 = applyBuckets (bucketAnchorEditsByLine (anchored es)) ?st0"
  have st1: "apFirstChanged st1 = minOf ?xs" "apLines st1 = renderBody es ls"
    unfolding st1_def using applyBuckets_first [OF assms] applyBuckets_lines [OF assms] by simp_all
  define st2 where "st2 = (if length (headLines es) > 0 then trackFirstChanged 1 (insertAtStart (headLines es) st1) else st1)"
  let ?ys = "?xs @ (if headLines es = [] then [] else [1])"
  have st2: "apLines st2 = placeHead (headLines es) (renderBody es ls)"
    by (simp add: st2_def insertAtStart_lines st1 placeHead_def)
  have "apFirstChanged st2 = minOf ?ys"
  proof (cases "headLines es = []")
    case True
    then show ?thesis by (simp add: st2_def st1)
  next
    case False
    have "apFirstChanged st2 = minOf (1 # ?xs)"
      using False st1(1) by (auto simp: st2_def intro!: apFirstChanged_track)
    then show ?thesis using False minOf_cong [of "1 # ?xs" ?ys] by simp
  qed
  note first2 = this
  obtain st3 c where c: "insertAtEnd (tailLines es) st2 = (st3, c)" by (cases "insertAtEnd (tailLines es) st2")
  have first3: "apFirstChanged st3 = minOf ?ys"
    using insertAt_first(2) [of "tailLines es" st2] c first2 by simp
  have snd: "c = (if tailLines es = [] then None
     else if apLines st2 = [[]] then Some 1 else Some (Suc (tailIndex (apLines st2))))"
    using insertAtEnd_changed [of "tailLines es" st2] c by simp
  have "applyRepaired es ls = (case c of Some changed \<Rightarrow> trackFirstChanged changed st3 | None \<Rightarrow> st3)"
    unfolding applyRepaired_def Let_def headLines_def [symmetric] tailLines_def [symmetric]
      anchored_def [symmetric] st1_def [symmetric] st2_def [symmetric]
    by (cases c) (simp_all add: c)
  then have "apFirstChanged (applyRepaired es ls) = minOf ((case c of None \<Rightarrow> [] | Some l \<Rightarrow> [l]) @ ?ys)"
    using first3 apFirstChanged_track [OF first3] by (cases c) auto
  also have "\<dots> = minOf (firstChangedLines es ls)"
    by (rule minOf_cong) (auto simp: firstChangedLines_def snd st2 Let_def)
  finally show ?thesis .
qed

section \<open>The whole of applyEdits\<close>

lemma cloneAppliedEdit_simps [simp]:
  "isBlock (cloneAppliedEdit e i) = isBlock e" "isDelete (cloneAppliedEdit e i) = isDelete e"
  "getEditAnchors (cloneAppliedEdit e i) = getEditAnchors e" "editLine (cloneAppliedEdit e i) = editLine e"
  "eindex (cloneAppliedEdit e i) = i"
  by (cases e rule: editLine.cases; simp)+

definition renumber :: "edit list \<Rightarrow> edit list" where
  "renumber es = map (\<lambda>(edit, index). cloneAppliedEdit edit index) (zip es [0 ..< length es])"

lemma renumber_map:
  assumes "\<And>e i. f (cloneAppliedEdit e i) = f e"
  shows "map f (renumber es) = map f es"
proof -
  have "length ns = length es \<Longrightarrow> map f (map (\<lambda>(e, i). cloneAppliedEdit e i) (zip es ns)) = map f es" for ns
    by (induction es ns rule: list_induct2') (simp_all add: assms)
  then show ?thesis by (simp add: renumber_def)
qed

text \<open>The edits of a parsed patch are numbered already, so the clone changes nothing.\<close>

lemma cloneAppliedEdit_id: "cloneAppliedEdit e (eindex e) = e"
  by (cases e) simp_all

lemma renumber_numbered:
  assumes "map eindex es = [0 ..< length es]"
  shows "renumber es = es"
proof -
  have "renumber es = map (\<lambda>(e, i). cloneAppliedEdit e i) (zip es (map eindex es))"
    using assms by (simp add: renumber_def)
  also have "\<dots> = es" by (induction es) (simp_all add: cloneAppliedEdit_id)
  finally show ?thesis .
qed

definition badAnchor :: "edit list \<Rightarrow> jstring list \<Rightarrow> anchor option" where
  "badAnchor es ls = find (\<lambda>a. a < 1 \<or> a > length ls) (concat (map getEditAnchors es))"

lemma foldE_unit:
  assumes "\<And>x. f x () = (case g x of None \<Rightarrow> Inr () | Some err \<Rightarrow> Inl err)"
  shows "foldE f xs () = (case find (\<lambda>x. g x \<noteq> None) xs of None \<Rightarrow> Inr () | Some x \<Rightarrow> Inl (the (g x)))"
  by (induction xs) (auto simp: assms split: option.split)

lemma validateLineBounds_eq:
  "validateLineBounds es ls =
     (case badAnchor es ls of None \<Rightarrow> Inr () | Some a \<Rightarrow> Inl (LineDoesNotExist a (length ls)))"
proof -
  have inner: "foldE (\<lambda>anchor _. validateAnchor (length ls) anchor) as () =
      (case find (\<lambda>a. a < 1 \<or> a > length ls) as of None \<Rightarrow> Inr () | Some a \<Rightarrow> Inl (LineDoesNotExist a (length ls)))" for as
    by (induction as) (auto simp: validateAnchor_def)
  have "find P (as @ bs) = (case find P as of None \<Rightarrow> find P bs | Some a \<Rightarrow> Some a)" for P and as bs :: "nat list"
    by (induction as) auto
  then show ?thesis
    unfolding validateLineBounds_def badAnchor_def
    by (induction es) (auto simp: inner split: option.split)
qed

lemma badAnchor_None: "badAnchor es ls = None \<longleftrightarrow> anchorsInFile es ls"
  by (auto simp: badAnchor_def find_None_iff anchorsInFile_def list_all_iff not_less Suc_le_eq)

lemma set_subseq: "subseq xs ys \<Longrightarrow> x \<in> set xs \<Longrightarrow> x \<in> set ys"
  by (induction rule: list_emb.induct) auto

lemma anchorsInFile_subseq:
  "subseq es' es \<Longrightarrow> anchorsInFile es ls \<Longrightarrow> anchorsInFile es' ls"
  unfolding anchorsInFile_def list_all_iff by (meson set_subseq)

lemma anchorsInFile_deletes:
  "anchorsInFile es ls \<Longrightarrow> deletesInFile es ls"
  by (auto simp: anchorsInFile_def deletesInFile_def list_all_iff isDelete_iff)

text \<open>The specification: validate, repair, render in one pass.\<close>

definition applySpec :: "jstring \<Rightarrow> edit list \<Rightarrow> hl_error + apply_result" where
  "applySpec text edits =
     (if edits = [] then Inr \<lparr>arText = text, arFirstChanged = None, arWarnings = []\<rparr>
      else if list_ex isBlock edits then Inl UnresolvedBlockInternal
      else let ls = splitLines text in
        case badAnchor edits ls of
          Some a \<Rightarrow> Inl (LineDoesNotExist a (length ls))
        | None \<Rightarrow>
            (case repairReplacementBoundaries (renumber edits) ls of
               (repaired, ws) \<Rightarrow>
                 Inr \<lparr>arText = joinLines (renderFile repaired ls),
                      arFirstChanged = minOf (firstChangedLines repaired ls), arWarnings = ws\<rparr>))"

lemma renumber_facts:
  "list_ex isBlock (renumber es) = list_ex isBlock es" "badAnchor (renumber es) ls = badAnchor es ls"
  "length (renumber es) = length es"
proof -
  have "list_ex isBlock (renumber es) = list_ex (\<lambda>b. b) (map isBlock (renumber es))"
    by (simp add: list_ex_iff)
  then show "list_ex isBlock (renumber es) = list_ex isBlock es"
    by (simp add: renumber_map list_ex_iff)
  show "badAnchor (renumber es) ls = badAnchor es ls" by (simp add: badAnchor_def renumber_map)
  show "length (renumber es) = length es" by (simp add: renumber_def)
qed

lemma repaired_ok:
  assumes "anchorsInFile es ls" and "\<not> list_ex isBlock es"
  shows "anchorsInFile (fst (repairReplacementBoundaries es ls)) ls"
    and "\<not> list_ex isBlock (fst (repairReplacementBoundaries es ls))"
proof -
  have s: "subseq (fst (repairReplacementBoundaries es ls)) es"
    by (rule repair_subseq [OF anchorsInFile_deletes [OF assms(1)]])
  show "anchorsInFile (fst (repairReplacementBoundaries es ls)) ls"
    by (rule anchorsInFile_subseq [OF s assms(1)])
  show "\<not> list_ex isBlock (fst (repairReplacementBoundaries es ls))"
    using assms(2) s by (auto simp: list_ex_iff dest: set_subseq)
qed

lemma applyEdits_eq_spec: "applyEdits text edits = applySpec text edits"
proof (cases "edits = [] \<or> list_ex isBlock edits")
  case True
  then show ?thesis by (auto simp: applyEdits_def applySpec_def)
next
  case False
  let ?ls = "splitLines text" and ?es = "renumber edits"
  have nb: "\<not> list_ex isBlock ?es" using False by (simp add: renumber_facts)
  have v: "validateLineBounds ?es ?ls =
      (case badAnchor edits ?ls of None \<Rightarrow> Inr () | Some a \<Rightarrow> Inl (LineDoesNotExist a (length ?ls)))"
    by (simp add: validateLineBounds_eq renumber_facts)
  show ?thesis
  proof (cases "badAnchor edits ?ls")
    case None
    then have ok: "anchorsInFile ?es ?ls" using badAnchor_None [of ?es ?ls] by (simp add: renumber_facts)
    obtain R ws where R: "repairReplacementBoundaries ?es ?ls = (R, ws)"
      by (cases "repairReplacementBoundaries ?es ?ls")
    have Rok: "anchorsInFile R ?ls" "\<not> list_ex isBlock R"
      using repaired_ok [OF ok nb] R by simp_all
    show ?thesis
      using False None v R applyRepaired_lines [OF Rok] applyRepaired_first [OF Rok]
      by (simp add: applyEdits_def applySpec_def renumber_def [symmetric] Let_def)
  next
    case (Some a)
    then show ?thesis using False v
      by (simp add: applyEdits_def applySpec_def renumber_def [symmetric] Let_def)
  qed
qed

section \<open>Conservation of lines\<close>

definition nonEmpty :: "jstring list \<Rightarrow> jstring list" where
  "nonEmpty ls = filter (\<lambda>l. l \<noteq> []) ls"

text \<open>The original lines that no edit deletes, in order.\<close>

definition survivors :: "edit list \<Rightarrow> jstring list \<Rightarrow> jstring list" where
  "survivors es ls = renderWith (\<lambda>n x. if list_ex isDelete (lineEdits es n) then [] else [x]) 1 ls"

lemma nonEmpty_append [simp]: "nonEmpty (xs @ ys) = nonEmpty xs @ nonEmpty ys"
  by (simp add: nonEmpty_def)

lemma nonEmpty_Nil [simp]: "nonEmpty [] = []" "nonEmpty [[]] = []"
  by (simp_all add: nonEmpty_def)

lemma nonEmpty_placeHead: "nonEmpty (placeHead new ls) = nonEmpty new @ nonEmpty ls"
  by (simp add: placeHead_def)

lemma nonEmpty_placeTail: "nonEmpty (placeTail new ls) = nonEmpty ls @ nonEmpty new"
proof (cases "ls \<noteq> [] \<and> List.last ls = []")
  case True
  then have "ls = butlast ls @ [[]]" by (metis append_butlast_last_id)
  then obtain bs where bs: "ls = bs @ [[]]" by blast
  then show ?thesis by (simp add: placeTail_def tailIndex_def)
next
  case False
  then show ?thesis by (auto simp: placeTail_def tailIndex_def)
qed

lemma renderWith_subseq:
  "(\<And>n x. subseq (g n x) (h n x)) \<Longrightarrow> subseq (renderWith g n ls) (renderWith h n ls)"
  by (induction ls arbitrary: n) (auto intro: list_emb_append_mono)

lemma survivors_subseq: "subseq (survivors es ls) (renderBody es ls)"
proof -
  have "subseq [x] (xs @ ys @ [x] @ zs)" for x :: jstring and xs ys zs
    by (metis append_Nil list_emb_append2 subseq_append_le_same_iff subseq_order.refl append.assoc
        list_emb_prefix list_emb_append_mono)
  then show ?thesis
    unfolding survivors_def renderBody_def by (intro renderWith_subseq) (simp add: renderLine_def)
qed

lemma mset_renderLine:
  assumes "\<not> list_ex isBlock es"
  shows "mset (renderLine es x) =
     mset (if list_ex isDelete es then [] else [x]) + mset (map etext (filter isInsert es))"
proof -
  have "mset (filter isPlainInsert es) + mset (filter isReplacementInsert es) + mset (filter isAfterInsert es)
      = mset (filter isInsert es)"
    using assms
  proof (induction es)
    case (Cons e es)
    then show ?case by (cases e rule: isPlainInsert.cases) auto
  qed simp
  then have "image_mset etext (mset (filter isPlainInsert es)) + image_mset etext (mset (filter isReplacementInsert es))
      + image_mset etext (mset (filter isAfterInsert es)) = image_mset etext (mset (filter isInsert es))"
    by (metis image_mset_union)
  then show ?thesis by (auto simp: renderLine_def ac_simps)
qed

lemma mset_lineEdits:
  "distinct lns \<Longrightarrow> mset (concat (map (lineEdits es) lns)) = mset (filter (\<lambda>e. editLine e \<in> set lns) es)"
proof (induction lns)
  case Nil
  then show ?case by simp
next
  case (Cons j lns)
  then have "j \<notin> set lns" by simp
  then have "mset (lineEdits es j) + mset (filter (\<lambda>e. editLine e \<in> set lns) es) =
      mset (filter (\<lambda>e. editLine e \<in> set (j # lns)) es)"
    unfolding lineEdits_def by (induction es) auto
  then show ?case using Cons by simp
qed

lemma mset_renderWith:
  assumes "\<not> list_ex isBlock es"
  shows "mset (renderWith (\<lambda>n. renderLine (lineEdits es n)) n ls) =
     mset (renderWith (\<lambda>n x. if list_ex isDelete (lineEdits es n) then [] else [x]) n ls)
       + image_mset etext (mset (filter isInsert (concat (map (lineEdits es) [n ..< n + length ls]))))"
proof (induction ls arbitrary: n)
  case Nil
  then show ?case by simp
next
  case (Cons x ls)
  have nb: "\<not> list_ex isBlock (lineEdits es n)" using assms by (auto simp: lineEdits_def list_ex_iff)
  have "[n ..< n + length (x # ls)] = n # [Suc n ..< Suc n + length ls]"
    by (simp add: upt_conv_Cons del: upt_Suc)
  then show ?case
    using Cons.IH [of "Suc n"] mset_renderLine [OF nb, of x] by (simp add: ac_simps del: upt_Suc)
qed

lemma insert_partition:
  assumes "anchorsInFile es ls" and "\<not> list_ex isBlock es"
  shows "mset (filter isInsert es) = mset (filter isInsert (concat (map (lineEdits es) [1 ..< 1 + length ls])))
     + mset (filter isBofInsert es) + mset (filter isEofInsert es)"
proof -
  have "mset (filter isInsert (concat (map (lineEdits es) [1 ..< 1 + length ls]))) =
      filter_mset isInsert (mset (filter (\<lambda>e. editLine e \<in> set [1 ..< 1 + length ls]) es))"
    by (simp only: mset_filter mset_lineEdits [OF distinct_upt])
  moreover have "mset (filter isInsert es) =
      filter_mset isInsert (mset (filter (\<lambda>e. editLine e \<in> set [1 ..< 1 + length ls]) es))
       + mset (filter isBofInsert es) + mset (filter isEofInsert es)"
    using assms
  proof (induction es)
    case (Cons e es)
    have IH: "mset (filter isInsert es) =
      filter_mset isInsert (mset (filter (\<lambda>e. editLine e \<in> set [1 ..< 1 + length ls]) es))
       + mset (filter isBofInsert es) + mset (filter isEofInsert es)"
      by (rule Cons.IH) (use Cons.prems in \<open>auto simp: anchorsInFile_def\<close>)
    show ?case
      using Cons.prems IH
      by (cases e rule: editLine.cases) (auto simp: anchorsInFile_def Suc_le_eq less_Suc_eq_le)
  qed simp
  ultimately show ?thesis by simp
qed

lemma mset_renderFile:
  assumes "anchorsInFile es ls" and "\<not> list_ex isBlock es"
  shows "mset (nonEmpty (renderFile es ls)) =
     mset (nonEmpty (survivors es ls)) + mset (nonEmpty (map etext (filter isInsert es)))"
proof -
  let ?mid = "filter isInsert (concat (map (lineEdits es) [1 ..< 1 + length ls]))"
  have body: "mset (nonEmpty (renderBody es ls)) =
      mset (nonEmpty (survivors es ls)) + mset (nonEmpty (map etext ?mid))"
    unfolding renderBody_def survivors_def nonEmpty_def mset_filter mset_renderWith [OF assms(2)]
    by simp
  have "image_mset etext (mset (filter isInsert es)) = image_mset etext (mset ?mid)
      + image_mset etext (mset (filter isBofInsert es)) + image_mset etext (mset (filter isEofInsert es))"
    by (metis insert_partition [OF assms] image_mset_union)
  then have "mset (nonEmpty (map etext (filter isInsert es))) = mset (nonEmpty (map etext ?mid))
      + mset (nonEmpty (headLines es)) + mset (nonEmpty (tailLines es))"
    by (simp add: nonEmpty_def headLines_def tailLines_def)
  then show ?thesis
    using body by (simp add: renderFile_def nonEmpty_placeHead nonEmpty_placeTail ac_simps)
qed

lemma survivors_renderFile: "subseq (nonEmpty (survivors es ls)) (nonEmpty (renderFile es ls))"
proof -
  have "subseq (nonEmpty (survivors es ls)) (nonEmpty (renderBody es ls))"
    unfolding nonEmpty_def using survivors_subseq by (rule subseq_filter)
  then show ?thesis
    by (simp add: renderFile_def nonEmpty_placeHead nonEmpty_placeTail list_emb_append2 list_emb_prefix)
qed

section \<open>The first changed line bounds the change\<close>

lemma renderWith_untouched:
  assumes "\<And>k. n \<le> k \<Longrightarrow> k < n + m \<Longrightarrow> lineEdits es k = []" and "m \<le> length ls"
  shows "take m (renderWith (\<lambda>n. renderLine (lineEdits es n)) n ls) = take m ls"
  using assms
proof (induction ls arbitrary: n m)
  case Nil
  then show ?case by simp
next
  case (Cons x ls)
  show ?case
  proof (cases m)
    case 0
    then show ?thesis by simp
  next
    case (Suc m')
    have "lineEdits es n = []" using Cons.prems(1) [of n] Suc by simp
    moreover have "take m' (renderWith (\<lambda>n. renderLine (lineEdits es n)) (Suc n) ls) = take m' ls"
      by (rule Cons.IH) (use Cons.prems Suc in auto)
    ultimately show ?thesis using Suc by simp
  qed
qed

lemma length_renderWith_prefix:
  "take m xs = take m ys \<Longrightarrow> m \<le> length ys \<Longrightarrow> m \<le> length xs"
  by (metis length_take min.absorb2 min.cobounded1)

lemma tailIndex_le: "tailIndex ls \<le> length ls"
  by (simp add: tailIndex_def)

lemma renderFile_prefix:
  assumes ok: "anchorsInFile es ls" "\<not> list_ex isBlock es"
    and first: "minOf (firstChangedLines es ls) = Some l"
  shows "take (l - 1) (renderFile es ls) = take (l - 1) ls"
proof (cases "headLines es = []")
  case False
  then have "1 \<in> set (firstChangedLines es ls)" by (simp add: firstChangedLines_def Let_def)
  then have "l \<le> 1" using first by (auto simp: minOf_def split: if_splits intro: Min_le)
  then show ?thesis by simp
next
  case True
  let ?body = "renderBody es ls" and ?xs = "map editLine (filter (\<lambda>e. \<not> isBofInsert e \<and> \<not> isEofInsert e) es)"
  have le: "k \<in> set (firstChangedLines es ls) \<Longrightarrow> l \<le> k" for k
    using first by (auto simp: minOf_def split: if_splits intro: Min_le)
  have lmem: "l \<in> set (firstChangedLines es ls)"
    using first Min_in [of "set (firstChangedLines es ls)"] by (auto simp: minOf_def split: if_splits)
  have head: "placeHead (headLines es) ?body = ?body" using True by (simp add: placeHead_def)
  have un: "lineEdits es k = []" if "0 < k" "k < l" for k
    using lineEdits_not_anchored [OF that(1)] that(2) le [of k]
    by (auto simp: firstChangedLines_def anchorLines_def Let_def)
  have pos: "l \<le> Suc (length ls)" if "tailLines es = []"
  proof -
    have "l \<in> anchorLines es" using lmem that True
      by (auto simp: firstChangedLines_def anchorLines_def Let_def)
    then show ?thesis using editLine_anchored [OF ok] by (fastforce simp: anchorLines_def)
  qed
  show ?thesis
  proof (cases "tailLines es = []")
    case tail: True
    have "take (l - 1) ?body = take (l - 1) ls"
      unfolding renderBody_def by (rule renderWith_untouched) (use un pos [OF tail] in auto)
    then show ?thesis unfolding renderFile_def head using tail by (simp add: placeTail_def)
  next
    case tail: False
    have idx: "l \<le> (if ?body = [[]] then 1 else Suc (tailIndex ?body))"
      by (rule le) (use tail True head in \<open>simp add: firstChangedLines_def Let_def\<close>)
    then have "l - 1 \<le> tailIndex ?body" by (auto split: if_splits)
    then have a: "take (l - 1) (renderFile es ls) = take (l - 1) ?body"
      unfolding renderFile_def head placeTail_def using tail tailIndex_le [of ?body]
      by (simp add: min_def)
    show ?thesis
    proof (cases "l - 1 \<le> length ls")
      case True
      have "take (l - 1) ?body = take (l - 1) ls"
        unfolding renderBody_def by (rule renderWith_untouched) (use un True in auto)
      with a show ?thesis by simp
    next
      case False
      have "?body = renderWith (\<lambda>k x. [x]) 1 ls"
        unfolding renderBody_def using un False by (intro renderWith_cong) auto
      then show ?thesis using a by (simp add: renderWith_id)
    qed
  qed
qed

section \<open>Properties\<close>

text \<open>C8
  \<open>applyEdits\<close> equals its specification on every text and edit list: an empty list returns the text
  as it is, an unresolved block edit and the first anchor outside the file throw, and otherwise the
  bottom-up splices over per-line buckets yield the one-pass rendering of the repaired edits, with the
  least affected line as first changed line.\<close>

theorem applyEdits_refines_spec: "applyEdits text edits = applySpec text edits"
  by (rule applyEdits_eq_spec)


text \<open>
  Everything above the reported first changed line is untouched.\<close>

theorem applyEdits_first_changed:
  assumes "applyEdits text edits = Inr res" and "arFirstChanged res = Some l"
  shows "\<exists>ls. arText res = joinLines ls \<and> take (l - 1) ls = take (l - 1) (splitLines text)"
proof -
  let ?ls = "splitLines text" and ?es = "renumber edits"
  have ne: "edits \<noteq> []" using assms by (auto simp: applyEdits_eq_spec applySpec_def)
  have nb: "\<not> list_ex isBlock edits" and none: "badAnchor edits ?ls = None"
    using assms ne by (auto simp: applyEdits_eq_spec applySpec_def Let_def split: if_splits option.splits)
  have ok: "anchorsInFile ?es ?ls" "\<not> list_ex isBlock ?es"
    using none nb badAnchor_None [of ?es ?ls] by (simp_all add: renumber_facts)
  obtain R ws where R: "repairReplacementBoundaries ?es ?ls = (R, ws)"
    by (cases "repairReplacementBoundaries ?es ?ls")
  have res: "arText res = joinLines (renderFile R ?ls)" "minOf (firstChangedLines R ?ls) = Some l"
    using assms ne nb none R by (auto simp: applyEdits_eq_spec applySpec_def Let_def)
  have "anchorsInFile R ?ls" "\<not> list_ex isBlock R" using repaired_ok [OF ok] R by simp_all
  from renderFile_prefix [OF this res(2)] res(1) show ?thesis by blast
qed

text \<open>A text of three lines and an edit list that replaces the second, evaluated.\<close>

lemma applyEdits_sample:
  "applyEdits (js ''a'' @ 10 # js ''b'' @ 10 # js ''c'')
     [InsertEdit (BeforeAnchor 2) (js ''x'') 1 0 True, DeleteEdit 2 1 1] =
   Inr \<lparr>arText = js ''a'' @ 10 # js ''x'' @ 10 # js ''c'', arFirstChanged = Some 2, arWarnings = []\<rparr>"
  by code_simp


lemma applyEdits_first_changed_witness:
  "\<exists>ls. js ''a'' @ 10 # js ''x'' @ 10 # js ''c'' = joinLines ls
     \<and> take 1 ls = take 1 (splitLines (js ''a'' @ 10 # js ''b'' @ 10 # js ''c''))"
  using applyEdits_first_changed [OF applyEdits_sample, of 2] by simp

end
