(* ===== verification/Hl_Block.thy ===== *)
theory Hl_Block
  imports Hl_Types
begin

text \<open>
  packages/hashline/src/block.ts: expansion of block edits into the inserts and deletes of a replace
  hunk over the span that the host's block resolver returns. The optional resolver is an argument; the
  option \<open>onUnresolved\<close> is the flag \<open>dropUnresolved\<close>.
\<close>

definition hasBlockEdit :: "edit list \<Rightarrow> bool" where
  "hasBlockEdit edits \<longleftrightarrow> list_ex isBlock edits"

text \<open>The inserts of the payload rows and the deletes of the span, numbered from \<open>synthIndex\<close>.\<close>

fun blockInserts :: "nat \<Rightarrow> nat \<Rightarrow> nat \<Rightarrow> jstring list \<Rightarrow> edit list" where
  "blockInserts start lineNum synthIndex [] = []"
| "blockInserts start lineNum synthIndex (payload # payloads) =
     InsertEdit (BeforeAnchor start) payload lineNum synthIndex True
       # blockInserts start lineNum (Suc synthIndex) payloads"

fun blockDeletes :: "nat \<Rightarrow> nat \<Rightarrow> nat list \<Rightarrow> edit list" where
  "blockDeletes lineNum synthIndex [] = []"
| "blockDeletes lineNum synthIndex (line # ls) =
     DeleteEdit line lineNum synthIndex # blockDeletes lineNum (Suc synthIndex) ls"

fun resolveLoop ::
  "jstring \<Rightarrow> jstring \<Rightarrow> block_resolver option \<Rightarrow> bool \<Rightarrow> edit list \<Rightarrow> nat \<Rightarrow> hl_error + edit list" where
  "resolveLoop text path resolver dropUnresolved [] synthIndex = Inr []"
| "resolveLoop text path resolver dropUnresolved (BlockEdit a payloads lineNum i # edits) synthIndex =
     (case (case resolver of None \<Rightarrow> None | Some r \<Rightarrow> r path text a) of
        None \<Rightarrow>
          if dropUnresolved then resolveLoop text path resolver dropUnresolved edits synthIndex
          else Inl (if resolver \<noteq> None then BlockUnresolved lineNum a else BlockResolverUnavailable lineNum)
      | Some span \<Rightarrow>
          (let ls = [spanStart span ..< Suc (spanEnd span)];
               ins = blockInserts (spanStart span) lineNum synthIndex payloads;
               dels = blockDeletes lineNum (synthIndex + length payloads) ls
           in bindE (resolveLoop text path resolver dropUnresolved edits
                       (synthIndex + length payloads + length ls))
                (\<lambda>rest. Inr (ins @ dels @ rest))))"
| "resolveLoop text path resolver dropUnresolved (edit # edits) synthIndex =
     bindE (resolveLoop text path resolver dropUnresolved edits synthIndex) (\<lambda>rest. Inr (edit # rest))"

definition resolveBlockEdits ::
  "edit list \<Rightarrow> jstring \<Rightarrow> jstring \<Rightarrow> block_resolver option \<Rightarrow> bool \<Rightarrow> hl_error + edit list" where
  "resolveBlockEdits edits text path resolver dropUnresolved =
     (if \<not> hasBlockEdit edits then Inr edits
      else resolveLoop text path resolver dropUnresolved edits 0)"

section \<open>No block edit survives\<close>

lemma blockInserts_no_block: "\<not> list_ex isBlock (blockInserts s n i ps)"
  by (induction ps arbitrary: i) simp_all

lemma blockDeletes_no_block: "\<not> list_ex isBlock (blockDeletes n i ls)"
  by (induction ls arbitrary: i) simp_all

lemma resolveLoop_no_block:
  "resolveLoop content path r d edits i = Inr out \<Longrightarrow> \<not> list_ex isBlock out"
  by (induction content path r d edits i arbitrary: out rule: resolveLoop.induct)
    (auto simp: bindE_eq_Inr Let_def blockInserts_no_block blockDeletes_no_block split: option.splits if_splits)

lemma resolveBlockEdits_no_block:
  "resolveBlockEdits edits content path r d = Inr out \<Longrightarrow> \<not> list_ex isBlock out"
  by (auto simp: resolveBlockEdits_def hasBlockEdit_def resolveLoop_no_block split: if_splits)

text \<open>Without the drop option it throws on a block edit without a span.\<close>

definition spanOf :: "jstring \<Rightarrow> jstring \<Rightarrow> block_resolver option \<Rightarrow> nat \<Rightarrow> block_span option" where
  "spanOf content path resolver a = (case resolver of None \<Rightarrow> None | Some r \<Rightarrow> r path content a)"

fun isUnresolved :: "jstring \<Rightarrow> jstring \<Rightarrow> block_resolver option \<Rightarrow> edit \<Rightarrow> bool" where
  "isUnresolved content path r (BlockEdit a _ _ _) = (spanOf content path r a = None)"
| "isUnresolved content path r _ = False"

lemma resolveLoop_block:
  "(\<exists>out. resolveLoop content path r d (BlockEdit a ps n k # edits) i = Inr out) \<longleftrightarrow>
     (case spanOf content path r a of
        None \<Rightarrow> d \<and> (\<exists>out. resolveLoop content path r d edits i = Inr out)
      | Some span \<Rightarrow> \<exists>out. resolveLoop content path r d edits
            (i + length ps + length [spanStart span ..< Suc (spanEnd span)]) = Inr out)"
  by (auto simp: spanOf_def bindE_eq_Inr Let_def simp del: upt_Suc split: option.split)

lemma resolveLoop_other:
  "\<not> isBlock e \<Longrightarrow> (\<exists>out. resolveLoop content path r d (e # edits) i = Inr out) \<longleftrightarrow>
     (\<exists>out. resolveLoop content path r d edits i = Inr out)"
  by (cases e) (auto simp: bindE_eq_Inr)

lemma resolveLoop_total: "\<exists>out. resolveLoop content path r True edits i = Inr out"
proof (induction edits arbitrary: i)
  case (Cons e edits)
  then show ?case
    by (cases "isBlock e") (auto simp: resolveLoop_other isBlock_iff resolveLoop_block
        simp del: resolveLoop.simps split: option.split)
qed simp

lemma resolveLoop_strict:
  "(\<exists>out. resolveLoop content path r False edits i = Inr out) \<longleftrightarrow> \<not> list_ex (isUnresolved content path r) edits"
proof (induction edits arbitrary: i)
  case (Cons e edits)
  show ?case
  proof (cases "isBlock e")
    case True
    then obtain a ps n k where e: "e = BlockEdit a ps n k" by (auto simp: isBlock_iff)
    show ?thesis
      unfolding e resolveLoop_block Cons.IH by (simp split: option.split)
  next
    case False
    then have "\<not> isUnresolved content path r e" by (cases e) auto
    with Cons False show ?thesis by (simp add: resolveLoop_other)
  qed
qed simp

end
