(* ===== verification/Hl_Patch_Facts.thy ===== *)
theory Hl_Patch_Facts
  imports Hl_Parser_Roundtrip Hl_Apply_Facts Hl_Block
begin

text \<open>
  Parser and applier together: what a patch of one hunk does to a file, from its text to the result;
  and block edits as the replace hunks they stand for.
\<close>

section \<open>The lines a hunk leaves\<close>

fun hunkResult :: "block_target \<Rightarrow> jstring list \<Rightarrow> jstring list \<Rightarrow> jstring list" where
  "hunkResult (TReplace rng) rows ls = take (rangeStart rng - 1) ls @ rows @ drop (rangeEnd rng) ls"
| "hunkResult (TDelete rng) rows ls = take (rangeStart rng - 1) ls @ drop (rangeEnd rng) ls"
| "hunkResult (TInsertBefore a) rows ls = take (a - 1) ls @ rows @ drop (a - 1) ls"
| "hunkResult (TInsertAfter a) rows ls = take a ls @ rows @ drop a ls"
| "hunkResult TBof rows ls = placeHead rows ls"
| "hunkResult TEof rows ls = placeTail rows ls"
| "hunkResult _ rows ls = ls"

text \<open>The edits of one hunk by line.\<close>

lemma lineEdits_insertRows:
  "lineEdits (numberEdits k (insertRows c rows n r)) l =
     (if editLine (InsertEdit c [] n 0 r) = l then numberEdits k (insertRows c rows n r) else [])"
proof -
  have "\<forall>e \<in> set (numberEdits k (insertRows c rows n r)). editLine e = editLine (InsertEdit c [] n 0 r)"
    by (cases c) (auto dest!: set_numberEdits simp: insertRows_def)
  then show ?thesis by (auto simp: lineEdits_def intro: filter_False)
qed

lemma insertRows_kinds:
  assumes "es = numberEdits k (insertRows c rows n r)"
  shows "map etext (filter isReplacementInsert es) = (if r then rows else [])"
    and "\<not> list_ex isDelete es" and "filter isBlock es = []"
    and "map etext (filter isBofInsert es) = (if c = Bof then rows else [])"
    and "map etext (filter isEofInsert es) = (if c = Eof then rows else [])"
    and "map etext (filter isPlainInsert es) = (if (\<exists>a. c = AfterAnchor a) \<or> r then [] else rows)"
    and "map etext (filter isAfterInsert es) = (if (\<exists>a. c = AfterAnchor a) \<and> \<not> r then rows else [])"
  unfolding assms insertRows_def
  by (cases c; induction rows arbitrary: k; auto)+

lemma deleteRows_kinds:
  assumes "es = numberEdits k (deleteRows rng n)"
  shows "filter isReplacementInsert es = []" "filter isBofInsert es = []" "filter isEofInsert es = []"
    "filter isPlainInsert es = []" "filter isAfterInsert es = []" "filter isBlock es = []"
proof -
  have "list_all isDelete es"
    unfolding assms deleteRows_def list_all_iff by (auto dest!: set_numberEdits)
  then show "filter isReplacementInsert es = []" "filter isBofInsert es = []" "filter isEofInsert es = []"
    "filter isPlainInsert es = []" "filter isAfterInsert es = []" "filter isBlock es = []"
    by (auto simp: filter_empty_conv list_all_iff isDelete_iff)
qed

lemma deleteRows_line:
  "list_ex isDelete (lineEdits (numberEdits k (deleteRows rng n)) l) \<longleftrightarrow> rangeStart rng \<le> l \<and> l \<le> rangeEnd rng"
proof -
  have "list_ex isDelete (filter (\<lambda>e. editLine e = l) (numberEdits k (map (\<lambda>a i. DeleteEdit a n i) as)))
      \<longleftrightarrow> l \<in> set as" for as
    by (induction as arbitrary: k) auto
  then show ?thesis by (auto simp: lineEdits_def deleteRows_def expandRange_def)
qed

lemma lineEdits_append: "lineEdits (xs @ ys) l = lineEdits xs l @ lineEdits ys l"
  by (simp add: lineEdits_def)

text \<open>Rendering a body where one block of lines changes.\<close>

lemma renderWith_splice:
  assumes "\<And>k x. n \<le> k \<Longrightarrow> k < n + i \<Longrightarrow> g k x = [x]"
    and "\<And>k x. n + i + j \<le> k \<Longrightarrow> g k x = [x]" and "i + j \<le> length ls"
  shows "renderWith g n ls = take i ls @ renderWith g (n + i) (take j (drop i ls)) @ drop (i + j) ls"
proof -
  have ls: "ls = take i ls @ take j (drop i ls) @ drop (i + j) ls"
    by (metis add.commute append_take_drop_id drop_drop)
  have "renderWith g n (take i ls) = take i ls"
    using renderWith_cong [of n "take i ls" g "\<lambda>k x. [x]"] assms(1) by (simp add: renderWith_id)
  moreover have "renderWith g (n + i + j) (drop (i + j) ls) = drop (i + j) ls"
    using renderWith_cong [of "n + i + j" "drop (i + j) ls" g "\<lambda>k x. [x]"] assms(2) by (simp add: renderWith_id)
  ultimately show ?thesis
    using assms(3) by (subst ls) (simp add: renderWith_append add.assoc)
qed

lemma renderWith_first:
  assumes "\<And>x. g n x = rows" and "\<And>k x. n < k \<Longrightarrow> k < n + length ls \<Longrightarrow> g k x = []" and "ls \<noteq> []"
  shows "renderWith g n ls = rows"
proof -
  obtain x xs where ls: "ls = x # xs" using assms(3) by (cases ls) auto
  have "renderWith g (Suc n) xs = renderWith (\<lambda>k x. []) (Suc n) xs"
    using assms(2) ls by (intro renderWith_cong) auto
  moreover have "renderWith (\<lambda>k x. []) m xs = []" for m and xs :: "jstring list"
    by (induction xs arbitrary: m) simp_all
  ultimately show ?thesis using assms(1) ls by simp
qed

lemma renderBody_replace:
  assumes "1 \<le> rangeStart rng" and "rangeStart rng \<le> rangeEnd rng" and "rangeEnd rng \<le> length ls"
  shows "renderBody (numberEdits k (insertRows (BeforeAnchor (rangeStart rng)) rows n True @ deleteRows rng n)) ls =
     take (rangeStart rng - 1) ls @ rows @ drop (rangeEnd rng) ls"
proof -
  let ?a = "rangeStart rng" and ?b = "rangeEnd rng"
  let ?I = "numberEdits k (insertRows (BeforeAnchor ?a) rows n True)"
  let ?D = "numberEdits (k + length rows) (deleteRows rng n)"
  have es: "numberEdits k (insertRows (BeforeAnchor ?a) rows n True @ deleteRows rng n) = ?I @ ?D"
    by (simp add: numberEdits_append insertRows_def)
  have D: "filter P (lineEdits ?D l) = []"
    if "P = isPlainInsert \<or> P = isReplacementInsert \<or> P = isAfterInsert" for P l
  proof -
    have "filter P ?D = []" using that deleteRows_kinds [OF refl, of "k + length rows" rng n] by auto
    then show ?thesis by (auto simp: lineEdits_def filter_empty_conv)
  qed
  have line: "renderLine (lineEdits (?I @ ?D) l) x =
      (if l = ?a then rows else []) @ (if ?a \<le> l \<and> l \<le> ?b then [] else [x])" for l x
    using insertRows_kinds [OF refl, of k "BeforeAnchor ?a" rows n True] D
      deleteRows_line [of "k + length rows" rng n l]
    by (auto simp: renderLine_def lineEdits_append lineEdits_insertRows)
  have "renderBody (?I @ ?D) ls = take (?a - 1) ls @
      renderWith (\<lambda>l. renderLine (lineEdits (?I @ ?D) l)) (1 + (?a - 1)) (take (?b - (?a - 1)) (drop (?a - 1) ls))
      @ drop ((?a - 1) + (?b - (?a - 1))) ls"
    unfolding renderBody_def
    by (rule renderWith_splice) (use assms line in auto)
  also have "renderWith (\<lambda>l. renderLine (lineEdits (?I @ ?D) l)) (1 + (?a - 1)) (take (?b - (?a - 1)) (drop (?a - 1) ls)) = rows"
    by (rule renderWith_first) (use assms line in \<open>auto simp flip: length_0_conv\<close>)
  finally show ?thesis using assms es by simp
qed

lemma renderBody_insert:
  assumes "1 \<le> a" and "a \<le> length ls" and "c = BeforeAnchor a \<or> c = AfterAnchor a"
  shows "renderBody (numberEdits k (insertRows c rows n False)) ls =
     (if c = BeforeAnchor a then take (a - 1) ls @ rows @ drop (a - 1) ls else take a ls @ rows @ drop a ls)"
proof -
  let ?I = "numberEdits k (insertRows c rows n False)"
  let ?x = "ls ! (a - 1)"
  have line: "renderLine (lineEdits ?I l) x =
      (if l \<noteq> a then [x] else if c = BeforeAnchor a then rows @ [x] else x # rows)" for l x
    using assms(3) insertRows_kinds [OF refl, of k c rows n False]
    by (auto simp: renderLine_def lineEdits_insertRows)
  have lt: "a - 1 < length ls" and suc: "Suc (a - 1) = a" using assms by simp_all
  have rest: "drop (a - 1) ls = ?x # drop a ls" "take a ls = take (a - 1) ls @ [?x]"
    using Cons_nth_drop_Suc [OF lt] take_Suc_conv_app_nth [OF lt] unfolding suc by simp_all
  have "renderBody ?I ls = take (a - 1) ls @
      renderWith (\<lambda>l. renderLine (lineEdits ?I l)) (1 + (a - 1)) (take 1 (drop (a - 1) ls)) @ drop (a - 1 + 1) ls"
    unfolding renderBody_def by (rule renderWith_splice) (use assms line in auto)
  also have "\<dots> = (if c = BeforeAnchor a then take (a - 1) ls @ rows @ drop (a - 1) ls else take a ls @ rows @ drop a ls)"
    using assms line rest by simp
  finally show ?thesis .
qed

lemma renderBody_unanchored:
  assumes "c = Bof \<or> c = Eof"
  shows "renderBody (numberEdits k (insertRows c rows n False)) ls = ls"
proof -
  let ?I = "numberEdits k (insertRows c rows n False)"
  have "lineEdits ?I l = []" if "1 \<le> l" for l
    using assms that by (auto simp: lineEdits_insertRows)
  then have "renderBody ?I ls = renderWith (\<lambda>k x. [x]) 1 ls"
    unfolding renderBody_def by (intro renderWith_cong) simp
  then show ?thesis by (simp add: renderWith_id)
qed

section \<open>One hunk from text to text\<close>

fun fitsFile :: "block_target \<Rightarrow> nat \<Rightarrow> bool" where
  "fitsFile t len = list_all (\<lambda>n. n \<le> len) (targetLines t)"

definition oneHunkEdits :: "hunk \<Rightarrow> edit list" where
  "oneHunkEdits h = numberEdits 0 (hunkEdits (hkTarget h) (hkRows h) 1)"

lemma oneHunk_numbered: "renumber (oneHunkEdits h) = oneHunkEdits h"
  by (rule renumber_numbered) (simp add: oneHunkEdits_def map_eindex_numberEdits hunkEdits_lineNum)

lemma oneHunk_no_overlap: "validateNoOverlappingDeletes (oneHunkEdits h) = Inr ()"
proof -
  have el: "elineNum d = 1" if "d \<in> set (oneHunkEdits h)" for d
    using that unfolding oneHunkEdits_def by (auto dest!: set_numberEdits simp: hunkEdits_lineNum)
  have "sameAnchorSameHunk (oneHunkEdits h)"
    unfolding sameAnchorSameHunk_def
  proof (intro allI impI)
    fix a n m i j
    assume "DeleteEdit a n i \<in> set (oneHunkEdits h)" "DeleteEdit a m j \<in> set (oneHunkEdits h)"
    from this [THEN el] show "n = m" by simp
  qed
  then show ?thesis by (simp add: validateNoOverlappingDeletes_Inr)
qed

lemma oneHunk_no_block: "validHunk h \<Longrightarrow> \<not> list_ex isBlock (oneHunkEdits h)"
  unfolding oneHunkEdits_def list_ex_iff
  by (cases "hkTarget h") (auto simp: validHunk_def insertRows_def deleteRows_def dest!: set_numberEdits)

lemma oneHunk_anchors:
  assumes "validHunk h" and "fitsFile (hkTarget h) (length ls)"
  shows "anchorsInFile (oneHunkEdits h) ls"
proof -
  have "0 < a \<and> a \<le> length ls" if "e \<in> set (oneHunkEdits h)" "a \<in> set (getEditAnchors e)" for e a
  proof -
    have "e \<in> set (numberEdits 0 (hunkEdits (hkTarget h) (hkRows h) 1))"
      using that(1) by (simp add: oneHunkEdits_def)
    from set_numberEdits [OF this] obtain f i where
      f: "f \<in> set (hunkEdits (hkTarget h) (hkRows h) 1)" "e = f i" by blast
    with that(2) assms show ?thesis
      by (cases "hkTarget h") (auto simp: validHunk_def targetOk_def insertRows_def deleteRows_def expandRange_def)
  qed
  then show ?thesis by (simp add: anchorsInFile_def list_all_iff)
qed

lemma oneHunk_render:
  assumes "validHunk h" and "fitsFile (hkTarget h) (length ls)"
  shows "renderFile (oneHunkEdits h) ls = hunkResult (hkTarget h) (hkRows h) ls"
proof -
  have unplaced: "placeTail [] xs = xs" "placeHead [] xs = xs" for xs by (simp_all add: placeTail_def placeHead_def)
  note kinds = insertRows_kinds [OF refl] deleteRows_kinds [OF refl]
  have app: "numberEdits 0 (insertRows c rows n r @ deleteRows rng n) =
      numberEdits 0 (insertRows c rows n r) @ numberEdits (length rows) (deleteRows rng n)" for c rows n r rng
    by (simp add: numberEdits_append insertRows_def)
  have parts: "headLines (oneHunkEdits h) = (if hkTarget h = TBof then hkRows h else [])"
    "tailLines (oneHunkEdits h) = (if hkTarget h = TEof then hkRows h else [])"
    using assms(1)
    by (cases "hkTarget h"; simp add: oneHunkEdits_def headLines_def tailLines_def app kinds validHunk_def)+
  have ok: "targetOk (hkTarget h)" using assms(1) by (simp add: validHunk_def)
  have body: "renderFile (oneHunkEdits h) ls = renderBody (oneHunkEdits h) ls"
    if "hkTarget h \<noteq> TBof" "hkTarget h \<noteq> TEof"
    using that by (simp add: renderFile_def parts unplaced)
  show ?thesis
  proof (cases "hkTarget h")
    case (TReplace rng)
    then show ?thesis
      using assms ok renderBody_replace [of rng ls 0 "hkRows h" 1]
      by (simp add: body) (simp add: oneHunkEdits_def targetOk_def Suc_le_eq)
  next
    case (TDelete rng)
    then have "hkRows h = []" using assms(1) by (simp add: validHunk_def)
    then show ?thesis
      using TDelete assms ok renderBody_replace [of rng ls 0 "[]" 1]
      by (simp add: body) (simp add: oneHunkEdits_def targetOk_def Suc_le_eq insertRows_def)
  next
    case (TInsertBefore a)
    then show ?thesis
      using assms ok renderBody_insert [of a ls "BeforeAnchor a" 0 "hkRows h" 1]
      by (simp add: body) (simp add: oneHunkEdits_def targetOk_def Suc_le_eq)
  next
    case (TInsertAfter a)
    then show ?thesis
      using assms ok renderBody_insert [of a ls "AfterAnchor a" 0 "hkRows h" 1]
      by (simp add: body) (simp add: oneHunkEdits_def targetOk_def Suc_le_eq)
  next
    case TBof
    then have "renderBody (oneHunkEdits h) ls = ls" by (simp add: oneHunkEdits_def renderBody_unanchored)
    then show ?thesis using TBof by (simp add: renderFile_def parts unplaced)
  next
    case TEof
    then have "renderBody (oneHunkEdits h) ls = ls" by (simp add: oneHunkEdits_def renderBody_unanchored)
    then show ?thesis using TEof by (simp add: renderFile_def parts unplaced)
  qed (use assms(1) in \<open>simp_all add: validHunk_def\<close>)
qed

text \<open>Only replacement rows start a group, so other hunks are never repaired.\<close>

lemma repair_no_replacement:
  "\<not> list_ex isReplacementInsert es \<Longrightarrow> repairReplacementBoundaries es ls = (es, [])"
proof (induction es)
  case (Cons e es)
  have "findReplacementGroup (e # es) = None"
    using Cons.prems
    by (cases e rule: isReplacementInsert.cases)
      (auto simp: findReplacementGroup_def split: cursor.split bool.split)
  then show ?case using Cons by (simp add: repairReplacementBoundaries.simps(2))
qed simp

lemma oneHunk_apply:
  assumes "validHunk h" and "fitsFile (hkTarget h) (length (splitLines content))"
  shows "\<exists>res. applyEdits content (oneHunkEdits h) = Inr res
     \<and> (arWarnings res = [] \<longrightarrow> arText res = joinLines (hunkResult (hkTarget h) (hkRows h) (splitLines content)))
     \<and> ((\<forall>rng. hkTarget h \<noteq> TReplace rng) \<longrightarrow> arWarnings res = [])"
proof -
  let ?ls = "splitLines content" and ?es = "oneHunkEdits h"
  have ne: "?es \<noteq> []"
  proof -
    have "hunkEdits (hkTarget h) (hkRows h) 1 \<noteq> []"
      using assms(1) by (cases "hkTarget h")
        (auto simp: validHunk_def targetOk_def insertRows_def deleteRows_def expandRange_def)
    then show ?thesis by (metis length_0_conv length_numberEdits oneHunkEdits_def)
  qed
  have none: "badAnchor ?es ?ls = None" using oneHunk_anchors [OF assms] by (simp add: badAnchor_None)
  obtain R ws where R: "repairReplacementBoundaries ?es ?ls = (R, ws)"
    by (cases "repairReplacementBoundaries ?es ?ls")
  have quiet: "ws = [] \<Longrightarrow> R = ?es" using repair_quiet [of ?es ?ls] R by simp
  have other: "ws = []" if "\<forall>rng. hkTarget h \<noteq> TReplace rng"
  proof -
    have "\<not> list_ex isReplacementInsert ?es"
      unfolding oneHunkEdits_def list_ex_iff using that
      by (cases "hkTarget h") (auto simp: insertRows_def deleteRows_def dest!: set_numberEdits)
    from repair_no_replacement [OF this] R show ?thesis by simp
  qed
  show ?thesis
    using ne none oneHunk_no_block [OF assms(1)] quiet other oneHunk_render [OF assms]
    by (auto simp: applyEdits_eq_spec applySpec_def oneHunk_numbered R Let_def)
qed

lemma parse_oneHunk: "validHunk h \<Longrightarrow> parsePatch (renderPatch [h]) = Inr (oneHunkEdits h, [])"
  using parsePatch_render [of "[h]"] oneHunk_no_overlap [of h] by (simp add: oneHunkEdits_def Let_def)

section \<open>Properties\<close>

text \<open>A one-hunk patch from text to text: a written valid hunk whose lines exist in the file parses and
  applies without error; when no boundary repair is reported, the result is the file with exactly the
  named lines replaced, deleted, or the rows put before, after, at the head or at the tail; only a
  replace hunk can be repaired.\<close>

theorem one_hunk_patch:
  assumes "validHunk h" and "fitsFile (hkTarget h) (length (splitLines content))"
  shows "\<exists>edits res. parsePatch (renderPatch [h]) = Inr (edits, []) \<and> applyEdits content edits = Inr res
     \<and> (arWarnings res = [] \<longrightarrow> arText res = joinLines (hunkResult (hkTarget h) (hkRows h) (splitLines content)))
     \<and> ((\<forall>rng. hkTarget h \<noteq> TReplace rng) \<longrightarrow> arWarnings res = [])"
  using parse_oneHunk [OF assms(1)] oneHunk_apply [OF assms] by blast

lemma one_hunk_patch_witness:
  "\<exists>edits res. parsePatch (renderPatch [Hunk (TInsertAfter 1) [js ''b'']]) = Inr (edits, [])
     \<and> applyEdits (js ''a'' @ 10 # js ''c'') edits = Inr res \<and> arText res = js ''a'' @ 10 # js ''b'' @ 10 # js ''c''"
  using one_hunk_patch [of "Hunk (TInsertAfter 1) [js ''b'']" "js ''a'' @ 10 # js ''c''"]
  by (auto simp: validHunk_def targetOk_def plainRow_def stripCR_def)

text \<open>Block edits: the strict expansion succeeds exactly when the host resolves every block edit, the
  dropping one always does, and no block edit is left for the applier.\<close>

theorem resolveBlockEdits_outcome:
  "((\<exists>out. resolveBlockEdits edits content path r False = Inr out)
      \<longleftrightarrow> (\<forall>a ps n i. BlockEdit a ps n i \<in> set edits \<longrightarrow> spanOf content path r a \<noteq> None))
   \<and> (\<exists>out. resolveBlockEdits edits content path r True = Inr out)
   \<and> (\<forall>d out. resolveBlockEdits edits content path r d = Inr out \<longrightarrow>
        \<not> hasBlockEdit out \<and> applyEdits content out \<noteq> Inl UnresolvedBlockInternal)"
proof -
  have un: "list_ex (isUnresolved content path r) edits \<longleftrightarrow>
      (\<exists>a ps n i. BlockEdit a ps n i \<in> set edits \<and> spanOf content path r a = None)"
    unfolding list_ex_iff by (metis isUnresolved.elims(2) isUnresolved.simps(1))
  have free: "\<not> hasBlockEdit edits \<Longrightarrow> BlockEdit a ps n i \<notin> set edits" for a ps n i
    by (auto simp: hasBlockEdit_def list_ex_iff)
  have "(\<exists>out. resolveBlockEdits edits content path r False = Inr out)
      \<longleftrightarrow> (\<forall>a ps n i. BlockEdit a ps n i \<in> set edits \<longrightarrow> spanOf content path r a \<noteq> None)"
  proof (cases "hasBlockEdit edits")
    case True
    then show ?thesis
      using un resolveLoop_strict [of content path r edits 0] unfolding resolveBlockEdits_def by metis
  next
    case False
    then show ?thesis using free by (simp add: resolveBlockEdits_def)
  qed
  moreover have "\<exists>out. resolveBlockEdits edits content path r True = Inr out"
    using resolveLoop_total [of content path r edits 0] by (simp add: resolveBlockEdits_def)
  moreover have "\<not> hasBlockEdit out \<and> applyEdits content out \<noteq> Inl UnresolvedBlockInternal"
    if "resolveBlockEdits edits content path r d = Inr out" for d out
  proof -
    have nb: "\<not> list_ex isBlock out" by (rule resolveBlockEdits_no_block [OF that])
    then show ?thesis
      by (auto simp: hasBlockEdit_def applyEdits_eq_spec applySpec_def Let_def split: option.split prod.split)
  qed
  ultimately show ?thesis by blast
qed

lemma resolveBlockEdits_outcome_witness:
  "\<exists>out. resolveBlockEdits [BlockEdit 2 [js ''x''] 1 0] (js ''a'') (js ''p'')
     (Some (\<lambda>_ _ _. Some \<lparr>spanStart = 1, spanEnd = 1\<rparr>)) False = Inr out"
  using resolveBlockEdits_outcome [of "[BlockEdit 2 [js ''x''] 1 0]" "js ''a''" "js ''p''"
      "Some (\<lambda>_ _ _. Some \<lparr>spanStart = 1, spanEnd = 1\<rparr>)"]
  by (simp add: spanOf_def)

end
