(* ===== verification/Hl_Input.thy ===== *)
theory Hl_Input
  imports Hl_Parser Hl_Apply Hl_Block Hl_Normalize
begin

text \<open>
  packages/hashline/src/input.ts: the split of an authored patch into one section per file, the
  recovery of malformed headers, the merge of sections of one path, and the operations of a section.
  \<open>node:path\<close> is the argument \<open>P\<close>. A section caches its parse; the model parses again, which is the
  same value. An optional string that the code tests for truth is absent or empty.
\<close>

record path_ops =
  pathIsAbsolute :: "jstring \<Rightarrow> bool"
  pathResolve :: "jstring \<Rightarrow> jstring"
  pathRelative :: "jstring \<Rightarrow> jstring \<Rightarrow> jstring"

record split_options =
  optCwd :: "jstring option"
  optPath :: "jstring option"

record raw_section =
  secPath :: jstring
  secHash :: "jstring option"
  secDiff :: jstring

definition truthy :: "jstring option \<Rightarrow> bool" where
  "truthy s \<longleftrightarrow> (case s of None \<Rightarrow> False | Some t \<Rightarrow> t \<noteq> [])"

definition unquoteHashlinePath :: "jstring \<Rightarrow> jstring" where
  "unquoteHashlinePath pathText =
     (if length pathText < 2 then pathText
      else let first = pathText ! 0; final = pathText ! (length pathText - 1) in
        if (first = 34 \<or> first = 39) \<and> first = final then jslice pathText 1 (length pathText - 1)
        else pathText)"

definition isNotAlnum :: "nat \<Rightarrow> bool" where
  "isNotAlnum c \<longleftrightarrow> \<not> ((48 \<le> c \<and> c \<le> 57) \<or> (65 \<le> c \<and> c \<le> 90) \<or> (97 \<le> c \<and> c \<le> 122))"

definition rUpToThreeStars :: regex where
  "rUpToThreeStars = ROpt (RSeq (rChar 42) (ROpt (RSeq (rChar 42) (ROpt (rChar 42)))))"

definition APPLY_PATCH_PATH_NOISE_RE :: regex where
  "APPLY_PATCH_PATH_NOISE_RE = rSeqs [rUpToThreeStars, rSpaces,
     ROpt (rSeqs [rAlts [rLitI (js ''update''), rLitI (js ''add''), rLitI (js ''delete''), rLitI (js ''move'')],
       RStar isNotAlnum, ROpt (rAlts [rLitI (js ''file''), rLitI (js ''to'')]), RStar isNotAlnum, rChar 58]),
     rSpaces, rUpToThreeStars, rSpaces]"

definition stripApplyPatchPathNoise :: "jstring \<Rightarrow> jstring" where
  "stripApplyPatchPathNoise pathText = rxStrip APPLY_PATCH_PATH_NOISE_RE pathText"

definition normalizeHashlinePath :: "path_ops \<Rightarrow> jstring \<Rightarrow> jstring option \<Rightarrow> jstring" where
  "normalizeHashlinePath P rawPath cwd =
     (let unquoted = stripApplyPatchPathNoise (unquoteHashlinePath (trim rawPath)) in
      case cwd of
        None \<Rightarrow> unquoted
      | Some dir \<Rightarrow>
          if dir = [] \<or> \<not> pathIsAbsolute P unquoted then unquoted
          else let relative = pathRelative P (pathResolve P dir) (pathResolve P unquoted);
                   isWithinCwd = (relative = [] \<or> (\<not> startsWith relative (js ''..'') \<and> \<not> pathIsAbsolute P relative))
               in if isWithinCwd then (if relative = [] then js ''.'' else relative) else unquoted)"

definition rRecoveryHeader :: regex where
  "rRecoveryHeader = rSeqs [RGroup (RLazyPlus (\<lambda>c. \<not> isJsSpace c)),
     ROpt (RSeq (rChar 35) (RGroup (rSeqs (replicate HL_FILE_HASH_LENGTH (RClass isHexDigitCode))))),
     rSpaces, REnd]"

definition tryParseRecoveryHeader :: "path_ops \<Rightarrow> jstring \<Rightarrow> jstring option \<Rightarrow> raw_section option" where
  "tryParseRecoveryHeader P line cwd =
     (if \<not> startsWith line HL_FILE_PREFIX then None
      else let body = stripApplyPatchPathNoise (trim (drop (length HL_FILE_PREFIX) line)) in
        if length body = 0 then None
        else (case rxExec rRecoveryHeader body of
            None \<Rightarrow> None
          | Some (caps, _) \<Rightarrow>
              (case caps of
                 [] \<Rightarrow> None
               | raw # hash \<Rightarrow>
                   let path = normalizeHashlinePath P raw cwd in
                   if length path = 0 then None
                   else Some \<lparr>secPath = path,
                     secHash = (case hash of [] \<Rightarrow> None | h # _ \<Rightarrow> Some (map toUpperAscii h)), secDiff = []\<rparr>)))"

definition parseHashlineHeaderLine ::
  "path_ops \<Rightarrow> jstring \<Rightarrow> jstring option \<Rightarrow> hl_error + raw_section option" where
  "parseHashlineHeaderLine P line cwd =
     (let trimmed = trimEnd line in
      if \<not> startsWith trimmed HL_FILE_PREFIX then Inr None
      else (case classifyLine trimmed 0 of
          Header _ path fileHash \<Rightarrow>
            (let parsedPath = normalizeHashlinePath P path cwd in
             if length parsedPath = 0 then Inl HeaderPathEmpty
             else Inr (Some \<lparr>secPath = parsedPath, secHash = fileHash, secDiff = []\<rparr>))
        | _ \<Rightarrow>
            (case tryParseRecoveryHeader P trimmed cwd of
               Some recovered \<Rightarrow> Inr (Some recovered)
             | None \<Rightarrow> Inl (HeaderMalformed trimmed))))"

definition dropTrailingCR :: "jstring \<Rightarrow> jstring" where
  "dropTrailingCR line = (if endsWith line [CHAR_CARRIAGE_RETURN] then butlast line else line)"

definition isLeadingNoise :: "jstring \<Rightarrow> bool" where
  "isLeadingNoise line \<longleftrightarrow>
     (let head = dropTrailingCR line in
      length (trim head) = 0 \<or> (case classifyLine head 0 of EnvelopeBegin _ \<Rightarrow> True | _ \<Rightarrow> False))"

definition dropBom :: "jstring \<Rightarrow> jstring" where
  "dropBom input = (if startsWith input [BOM] then drop 1 input else input)"

definition stripLeadingBlankLines :: "jstring \<Rightarrow> jstring" where
  "stripLeadingBlankLines input = joinLines (dropWhile isLeadingNoise (splitLines (dropBom input)))"

definition containsRecognizableHashlineOperations :: "jstring \<Rightarrow> bool" where
  "containsRecognizableHashlineOperations input \<longleftrightarrow> list_ex isOp (splitCRLF input)"

text \<open>\<open>some\<close> with a predicate that may throw.\<close>

fun someE :: "('a \<Rightarrow> 'e + bool) \<Rightarrow> 'a list \<Rightarrow> 'e + bool" where
  "someE p [] = Inr False"
| "someE p (x # xs) = bindE (p x) (\<lambda>b. if b then Inr True else someE p xs)"

definition normalizeFallbackInput :: "path_ops \<Rightarrow> jstring \<Rightarrow> split_options \<Rightarrow> hl_error + jstring" where
  "normalizeFallbackInput P input options =
     bindE (someE (\<lambda>rawLine. bindE (parseHashlineHeaderLine P rawLine (optCwd options)) (\<lambda>r. Inr (r \<noteq> None)))
             (splitCRLF (dropBom input)))
       (\<lambda>hasExplicitHeader.
          if hasExplicitHeader then Inr input
          else (case optPath options of
              None \<Rightarrow> Inr input
            | Some path \<Rightarrow>
                if path = [] \<or> \<not> containsRecognizableHashlineOperations input then Inr input
                else let fallbackPath = normalizeHashlinePath P path (optCwd options) in
                  if length fallbackPath = 0 then Inr input
                  else Inr (HL_FILE_PREFIX @ fallbackPath @ [CHAR_LINE_FEED] @ input)))"

record section_scan =
  scSections :: "raw_section list"
  scCurrent :: "raw_section option"
  scLines :: "jstring list"

definition flushSection :: "section_scan \<Rightarrow> section_scan" where
  "flushSection s =
     (case scCurrent s of
        None \<Rightarrow> s
      | Some current \<Rightarrow>
          (let hasOps = list_ex (\<lambda>line. length (trim line) > 0) (scLines s) in
           s\<lparr>scSections := (if hasOps then scSections s @ [current\<lparr>secDiff := joinLines (scLines s)\<rparr>]
                else scSections s), scLines := []\<rparr>))"

fun sectionLoop ::
  "path_ops \<Rightarrow> jstring option \<Rightarrow> jstring list \<Rightarrow> section_scan \<Rightarrow> hl_error + section_scan" where
  "sectionLoop P cwd [] s = Inr s"
| "sectionLoop P cwd (line # lns) s =
     (case classifyLine line 0 of
        EnvelopeEnd _ \<Rightarrow> Inr s
      | Abort _ \<Rightarrow> Inr s
      | EnvelopeBegin _ \<Rightarrow> sectionLoop P cwd lns s
      | _ \<Rightarrow>
          if startsWith (trimEnd line) HL_FILE_PREFIX then
            (case parseHashlineHeaderLine P line cwd of
               Inl err \<Rightarrow> Inl err
             | Inr (Some header) \<Rightarrow>
                 sectionLoop P cwd lns ((flushSection s)\<lparr>scCurrent := Some header, scLines := []\<rparr>)
             | Inr None \<Rightarrow> sectionLoop P cwd lns (s\<lparr>scLines := scLines s @ [line]\<rparr>))
          else sectionLoop P cwd lns (s\<lparr>scLines := scLines s @ [line]\<rparr>))"

definition splitRawSections :: "path_ops \<Rightarrow> jstring \<Rightarrow> split_options \<Rightarrow> hl_error + raw_section list" where
  "splitRawSections P input options =
     bindE (normalizeFallbackInput P input options) (\<lambda>normalized.
       (let lns = splitCRLF (stripLeadingBlankLines normalized);
            firstLine = (case lns of [] \<Rightarrow> [] | l # _ \<Rightarrow> l)
        in bindE (parseHashlineHeaderLine P firstLine (optCwd options)) (\<lambda>header.
          if header = None then
            (if rxTest rUnifiedHunk (trimEnd firstLine) then Inl FirstLineUnifiedDiff
             else Inl (FirstLineNotHeader (take 120 firstLine)))
          else bindE (sectionLoop P (optCwd options) lns \<lparr>scSections = [], scCurrent = None, scLines = []\<rparr>)
                 (\<lambda>s. Inr (scSections (flushSection s))))))"

section \<open>Merging the sections of a path\<close>

definition mergeStep ::
  "raw_section \<Rightarrow> (jstring, jstring option \<times> jstring list) jsmap \<Rightarrow>
     hl_error + (jstring, jstring option \<times> jstring list) jsmap" where
  "mergeStep sec byPath =
     (case mapGet byPath (secPath sec) of
        Some (hash, diffs) \<Rightarrow>
          (case (hash, secHash sec) of
             (Some a, Some b) \<Rightarrow>
               if a \<noteq> b then Inl (ConflictingTags (secPath sec) a b)
               else Inr (mapSet (secPath sec) (Some a, diffs @ [secDiff sec]) byPath)
           | (None, new) \<Rightarrow> Inr (mapSet (secPath sec) (new, diffs @ [secDiff sec]) byPath)
           | (Some a, None) \<Rightarrow> Inr (mapSet (secPath sec) (Some a, diffs @ [secDiff sec]) byPath))
      | None \<Rightarrow> Inr (mapSet (secPath sec) (secHash sec, [secDiff sec]) byPath))"

definition mergeSamePathSections :: "raw_section list \<Rightarrow> hl_error + raw_section list" where
  "mergeSamePathSections sections =
     bindE (foldE mergeStep sections []) (\<lambda>byPath.
       Inr (map (\<lambda>(path, hash, diffs). \<lparr>secPath = path, secHash = hash, secDiff = joinLines diffs\<rparr>) byPath))"

definition patchParse :: "path_ops \<Rightarrow> jstring \<Rightarrow> split_options \<Rightarrow> hl_error + raw_section list" where
  "patchParse P input options = bindE (splitRawSections P input options) mergeSamePathSections"

definition patchParseSingle :: "path_ops \<Rightarrow> jstring \<Rightarrow> split_options \<Rightarrow> hl_error + raw_section" where
  "patchParseSingle P input options =
     bindE (patchParse P input options) (\<lambda>sections. case sections of [] \<Rightarrow> Inl NoSections | s # _ \<Rightarrow> Inr s)"

section \<open>The operations of a section\<close>

definition sectionParse :: "raw_section \<Rightarrow> hl_error + (edit list \<times> hl_warning list)" where
  "sectionParse sec = parsePatch (secDiff sec)"

definition sectionAnchorLines :: "edit list \<Rightarrow> nat list" where
  "sectionAnchorLines edits = sort (fold setAdd (concat (map getEditAnchors edits)) [])"

definition mergeApplyWarnings :: "hl_warning list \<Rightarrow> apply_result \<Rightarrow> apply_result" where
  "mergeApplyWarnings warnings result =
     result\<lparr>arWarnings := (if length warnings = 0 then arWarnings result else warnings @ arWarnings result)\<rparr>"

definition sectionApplyTo ::
  "raw_section \<Rightarrow> jstring \<Rightarrow> block_resolver option \<Rightarrow> hl_error + apply_result" where
  "sectionApplyTo sec text blockResolver =
     bindE (sectionParse sec) (\<lambda>(edits, warnings).
       bindE (resolveBlockEdits edits text (secPath sec) blockResolver False) (\<lambda>resolved.
         bindE (applyEdits text resolved) (\<lambda>result. Inr (mergeApplyWarnings warnings result))))"

definition sectionApplyPartialTo ::
  "raw_section \<Rightarrow> jstring \<Rightarrow> block_resolver option \<Rightarrow> hl_error + apply_result" where
  "sectionApplyPartialTo sec text blockResolver =
     bindE (parsePatchStreaming (secDiff sec)) (\<lambda>(edits, warnings).
       bindE (resolveBlockEdits edits text (secPath sec) blockResolver True) (\<lambda>resolved.
         bindE (applyEdits text resolved) (\<lambda>result. Inr (mergeApplyWarnings warnings result))))"

end
