(* ===== verification/Js_Regex_Facts.thy ===== *)
theory Js_Regex_Facts
  imports Js_Regex
begin

text \<open>
  The preferred match of an expression, composed along a sequence: greedy runs end where the class
  does, so an expression over classes that do not overlap matches in one way.
\<close>

definition rxFirst :: "regex \<Rightarrow> nat option \<Rightarrow> jstring \<Rightarrow> jstring list \<Rightarrow> nat option \<Rightarrow> jstring \<Rightarrow> bool" where
  "rxFirst r p s caps q t \<longleftrightarrow> (\<exists>more. rx r p s = (caps, q, t) # more)"

definition stops :: "(nat \<Rightarrow> bool) \<Rightarrow> jstring \<Rightarrow> bool" where
  "stops P s \<longleftrightarrow> (case s of [] \<Rightarrow> True | c # _ \<Rightarrow> \<not> P c)"

definition lastOf :: "nat option \<Rightarrow> jstring \<Rightarrow> nat option" where
  "lastOf p xs = (if xs = [] then p else Some (last xs))"

lemma stops_simps [simp]: "stops P []" "stops P (c # cs) \<longleftrightarrow> \<not> P c"
  by (simp_all add: stops_def)

lemma lastOf_simps [simp]: "lastOf p [] = p" "lastOf p (xs @ [c]) = Some c" "lastOf (Some c) xs = lastOf p (c # xs)"
  by (simp_all add: lastOf_def)

lemma rxFirst_seq:
  assumes "rxFirst a p s c1 q t" and "rxFirst b q t c2 r u"
  shows "rxFirst (RSeq a b) p s (c1 @ c2) r u"
  using assms by (auto simp: rxFirst_def)

lemma rxFirst_class: "P c \<Longrightarrow> rxFirst (RClass P) p (c # cs) [] (Some c) cs"
  by (simp add: rxFirst_def)

lemma starGreedy_run: "list_all P xs \<Longrightarrow> stops P ys \<Longrightarrow> \<exists>more. starGreedy P p (xs @ ys) = ([], lastOf p xs, ys) # more"
proof (induction xs arbitrary: p)
  case Nil
  then show ?case by (cases ys) simp_all
next
  case (Cons x xs)
  then obtain more where "starGreedy P (Some x) (xs @ ys) = ([], lastOf (Some x) xs, ys) # more" by auto
  then show ?case using Cons.prems by simp
qed

lemma rxFirst_star: "list_all P xs \<Longrightarrow> stops P ys \<Longrightarrow> rxFirst (RStar P) p (xs @ ys) [] (lastOf p xs) ys"
  using starGreedy_run by (simp add: rxFirst_def)

lemma rxFirst_plus: "list_all P xs \<Longrightarrow> xs \<noteq> [] \<Longrightarrow> stops P ys \<Longrightarrow> rxFirst (RPlus P) p (xs @ ys) [] (lastOf p xs) ys"
  using starGreedy_run [of P "tl xs" ys "Some (hd xs)"] by (cases xs) (auto simp: rxFirst_def)

lemma rxFirst_star_none: "stops P ys \<Longrightarrow> rxFirst (RStar P) p ys [] p ys"
  using rxFirst_star [of P "[]" ys p] by simp

lemma rxFirst_opt: "rxFirst a p s caps q t \<Longrightarrow> rxFirst (ROpt a) p s caps q t"
  by (auto simp: rxFirst_def)

lemma rxFirst_opt_none: "rx a p s = [] \<Longrightarrow> rxFirst (ROpt a) p s [] p s"
  by (simp add: rxFirst_def)

lemma rxFirst_group: "rxFirst a p (xs @ t) caps q t \<Longrightarrow> rxFirst (RGroup a) p (xs @ t) (xs # caps) q t"
  by (auto simp: rxFirst_def)

lemma rxFirst_end: "rxFirst REnd p [] [] p []" and rxFirst_empty: "rxFirst REmpty p s [] p s"
  by (simp_all add: rxFirst_def)

lemma rxFirst_exec: "rxFirst r None s caps q t \<Longrightarrow> rxExec r s = Some (caps, t)"
  by (auto simp: rxFirst_def rxExec_def)

lemma rxFirst_test: "rxFirst r None s caps q t \<Longrightarrow> rxTest r s"
  by (auto simp: rxFirst_def rxTest_def)

text \<open>No way to match.\<close>

lemma rx_seq_none: "(\<And>c q t. (c, q, t) \<in> set (rx a p s) \<Longrightarrow> rx b q t = []) \<Longrightarrow> rx (RSeq a b) p s = []"
  by auto

lemma starGreedy_set:
  "(c, q, t) \<in> set (starGreedy P p s) \<Longrightarrow> \<exists>xs. c = [] \<and> s = xs @ t \<and> list_all P xs \<and> q = lastOf p xs"
proof (induction P p s arbitrary: c q t rule: starGreedy.induct)
  case (1 P p)
  then show ?case by simp
next
  case (2 P p d cs)
  show ?case
  proof (cases "(c, q, t) = ([], p, d # cs)")
    case True
    then show ?thesis by (intro exI [of _ "[]"]) simp
  next
    case False
    then have "P d" "(c, q, t) \<in> set (starGreedy P (Some d) cs)" using "2.prems" by (auto split: if_splits)
    from "2.IH" [OF this] obtain xs where "c = []" "cs = xs @ t" "list_all P xs" "q = lastOf (Some d) xs" by blast
    then show ?thesis using \<open>P d\<close> by (intro exI [of _ "d # xs"]) simp
  qed
qed

lemma starGreedy_caps: "(caps, q, t) \<in> set (starGreedy P p s) \<Longrightarrow> caps = []"
  by (drule starGreedy_set) blast

lemma in_rx_RSeq:
  "(caps, q, t) \<in> set (rx (RSeq a b) p s) \<Longrightarrow>
     \<exists>c1 q1 s1 c2. (c1, q1, s1) \<in> set (rx a p s) \<and> (c2, q, t) \<in> set (rx b q1 s1) \<and> caps = c1 @ c2"
  by fastforce

end
