(* ===== verification/Hl_Input_Facts.thy ===== *)
theory Hl_Input_Facts
  imports Hl_Input Hl_Tokenizer_Facts Js_Regex_Facts
begin

text \<open>
  What the split of a patch into sections promises: the merge of sections of one path is the
  abstract grouping by path, and every section of a parsed patch has a path of its own, a tag of
  four upper-case hexadecimal digits or none, and a body with a visible row.
\<close>

section \<open>The merge refines the grouping by path\<close>

definition pathsOf :: "raw_section list \<Rightarrow> jstring list" where
  "pathsOf ss = fold setAdd (map secPath ss) []"

definition sectionsOf :: "jstring \<Rightarrow> raw_section list \<Rightarrow> raw_section list" where
  "sectionsOf p ss = filter (\<lambda>s. secPath s = p) ss"

definition tagsOf :: "jstring \<Rightarrow> raw_section list \<Rightarrow> jstring list" where
  "tagsOf p ss = concat (map (\<lambda>s. case secHash s of None \<Rightarrow> [] | Some h \<Rightarrow> [h]) (sectionsOf p ss))"

definition tagOf :: "jstring \<Rightarrow> raw_section list \<Rightarrow> jstring option" where
  "tagOf p ss = (case tagsOf p ss of [] \<Rightarrow> None | h # _ \<Rightarrow> Some h)"

text \<open>All sections of a path that carry a tag carry the same one.\<close>

definition consistentTags :: "raw_section list \<Rightarrow> bool" where
  "consistentTags ss \<longleftrightarrow> list_all (\<lambda>p. list_all (\<lambda>h. Some h = tagOf p ss) (tagsOf p ss)) (pathsOf ss)"

definition groupedSection :: "raw_section list \<Rightarrow> jstring \<Rightarrow> raw_section" where
  "groupedSection ss p = \<lparr>secPath = p, secHash = tagOf p ss, secDiff = joinLines (map secDiff (sectionsOf p ss))\<rparr>"

definition groupEntry :: "raw_section list \<Rightarrow> jstring \<Rightarrow> jstring \<times> jstring option \<times> jstring list" where
  "groupEntry ss p = (p, tagOf p ss, map secDiff (sectionsOf p ss))"

lemma pathsOf_snoc: "pathsOf (ss @ [s]) = setAdd (secPath s) (pathsOf ss)"
  by (simp add: pathsOf_def)

lemma set_pathsOf [simp]: "set (pathsOf ss) = secPath ` set ss"
  by (induction ss rule: rev_induct) (auto simp: pathsOf_snoc, simp_all add: pathsOf_def)

lemma distinct_pathsOf [simp]: "distinct (pathsOf ss)"
  by (induction ss rule: rev_induct) (auto simp: pathsOf_snoc, simp add: pathsOf_def)

lemma tagsOf_snoc:
  "tagsOf p (ss @ [s]) = tagsOf p ss @ (if secPath s = p then case secHash s of None \<Rightarrow> [] | Some h \<Rightarrow> [h] else [])"
  by (simp add: tagsOf_def sectionsOf_def)

lemma tagOf_snoc:
  "tagOf p (ss @ [s]) = (if secPath s = p \<and> tagOf p ss = None then secHash s else tagOf p ss)"
  by (auto simp: tagOf_def tagsOf_snoc split: list.split option.split)

lemma tagsOf_fresh: "p \<notin> secPath ` set ss \<Longrightarrow> tagsOf p ss = [] \<and> tagOf p ss = None \<and> sectionsOf p ss = []"
proof -
  assume "p \<notin> secPath ` set ss"
  then have "sectionsOf p ss = []" by (auto simp: sectionsOf_def filter_empty_conv)
  then show ?thesis by (simp add: tagsOf_def tagOf_def)
qed

lemma consistentTags_iff: "consistentTags ss \<longleftrightarrow> (\<forall>p. \<forall>h \<in> set (tagsOf p ss). Some h = tagOf p ss)"
  unfolding consistentTags_def list_all_iff
  using tagsOf_fresh [of _ ss] by (metis empty_iff list.set(1) set_pathsOf)

lemma tagOf_None_iff: "tagOf p ss = None \<longleftrightarrow> tagsOf p ss = []"
  by (auto simp: tagOf_def split: list.split)

lemma consistentTags_snoc:
  "consistentTags (ss @ [s]) \<longleftrightarrow> consistentTags ss \<and>
     (\<forall>a b. tagOf (secPath s) ss = Some a \<longrightarrow> secHash s = Some b \<longrightarrow> a = b)"
proof (cases "tagOf (secPath s) ss")
  case None
  then have nil: "tagsOf (secPath s) ss = []" by (simp add: tagOf_None_iff)
  have "(\<forall>h \<in> set (tagsOf p (ss @ [s])). Some h = tagOf p (ss @ [s])) \<longleftrightarrow> (\<forall>h \<in> set (tagsOf p ss). Some h = tagOf p ss)" for p
  proof (cases "secPath s = p")
    case True
    then show ?thesis using None nil by (cases "secHash s") (simp_all add: tagsOf_snoc tagOf_snoc)
  next
    case False
    then show ?thesis by (simp add: tagsOf_snoc tagOf_snoc)
  qed
  then show ?thesis using None by (simp add: consistentTags_iff)
next
  case (Some a)
  have "tagOf p (ss @ [s]) = tagOf p ss" for p
    using Some by (auto simp: tagOf_snoc)
  then have "consistentTags (ss @ [s]) \<longleftrightarrow> (\<forall>p. \<forall>h \<in> set (tagsOf p (ss @ [s])). Some h = tagOf p ss)"
    by (simp add: consistentTags_iff)
  moreover have "(\<forall>h \<in> set (tagsOf p (ss @ [s])). Some h = tagOf p ss) \<longleftrightarrow>
      (\<forall>h \<in> set (tagsOf p ss). Some h = tagOf p ss) \<and> (secPath s = p \<longrightarrow> (\<forall>b. secHash s = Some b \<longrightarrow> a = b))" for p
    using Some by (cases "secHash s"; cases "secPath s = p") (auto simp: tagsOf_snoc)
  ultimately show ?thesis using Some by (auto simp: consistentTags_iff)
qed

text \<open>An entry of the map after the sections \<open>ss\<close>.\<close>

lemma map_of_entries:
  "map_of (map (groupEntry ss) ps) p = (if p \<in> set ps then Some (snd (groupEntry ss p)) else None)"
  by (induction ps) (auto simp: groupEntry_def)

lemma mapSet_entries:
  assumes "distinct ps" and "\<And>q. q \<in> set ps \<Longrightarrow> q \<noteq> p \<Longrightarrow> f q = g q" and "\<And>q. fst (f q) = q" and "g p = (p, v)"
  shows "mapSet p v (map f ps) = map g (setAdd p ps)"
  using assms
proof (induction ps)
  case Nil
  then show ?case by (simp add: setAdd_def)
next
  case (Cons q ps)
  show ?case
  proof (cases "q = p")
    case True
    then have "map f ps = map g ps" using Cons.prems(1,2) by auto
    then show ?thesis using True Cons.prems(3,4) by (simp add: setAdd_def)
  next
    case False
    have "mapSet p v (map f ps) = map g (setAdd p ps)"
      by (rule Cons.IH) (use Cons.prems in auto)
    moreover have "f q = g q" using Cons.prems(2) False by simp
    ultimately show ?thesis using False Cons.prems(3) [of q] by (auto simp: setAdd_def)
  qed
qed

lemma mergeStep_spec:
  assumes "consistentTags ss"
  shows "mergeStep s (map (groupEntry ss) (pathsOf ss)) =
     (case (tagOf (secPath s) ss, secHash s) of
        (Some a, Some b) \<Rightarrow> if a \<noteq> b then Inl (ConflictingTags (secPath s) a b)
          else Inr (map (groupEntry (ss @ [s])) (pathsOf (ss @ [s])))
      | _ \<Rightarrow> Inr (map (groupEntry (ss @ [s])) (pathsOf (ss @ [s]))))"
proof -
  let ?p = "secPath s"
  have get: "mapGet (map (groupEntry ss) (pathsOf ss)) ?p =
      (if ?p \<in> secPath ` set ss then Some (tagOf ?p ss, map secDiff (sectionsOf ?p ss)) else None)"
    by (simp add: map_of_entries) (simp add: groupEntry_def)
  have upd: "mapSet ?p (tagOf ?p (ss @ [s]), map secDiff (sectionsOf ?p ss) @ [secDiff s])
      (map (groupEntry ss) (pathsOf ss)) = map (groupEntry (ss @ [s])) (pathsOf (ss @ [s]))"
    unfolding pathsOf_snoc
    by (rule mapSet_entries) (auto simp: groupEntry_def tagOf_snoc sectionsOf_def)
  show ?thesis
  proof (cases "?p \<in> secPath ` set ss")
    case True
    then show ?thesis using upd get by (auto simp: mergeStep_def tagOf_snoc split: option.splits)
  next
    case False
    from tagsOf_fresh [OF False] show ?thesis
      using upd get False by (auto simp: mergeStep_def tagOf_snoc split: option.splits)
  qed
qed

lemma merge_fold:
  "if consistentTags ss then foldE mergeStep ss [] = Inr (map (groupEntry ss) (pathsOf ss))
   else \<exists>p a b. foldE mergeStep ss [] = Inl (ConflictingTags p a b) \<and> a \<noteq> b"
proof (induction ss rule: rev_induct)
  case Nil
  then show ?case by (simp add: consistentTags_def pathsOf_def)
next
  case (snoc s ss)
  show ?case
  proof (cases "consistentTags ss")
    case False
    then show ?thesis using snoc by (auto simp: foldE_append consistentTags_snoc)
  next
    case True
    then have "foldE mergeStep (ss @ [s]) [] = mergeStep s (map (groupEntry ss) (pathsOf ss))"
      using snoc by (simp add: foldE_append bindE_def split: sum.split)
    then show ?thesis
      unfolding mergeStep_spec [OF True] consistentTags_snoc
      using True by (auto split: option.splits)
  qed
qed

text \<open>Merging the sections of a patch groups them by path, in the order of first mention: the bodies of a
  path are joined in order, under the first tag that any of them carries; the merge is refused exactly
  when two sections of one path carry different tags.
\<close>

theorem mergeSamePathSections_groups:
  "if consistentTags ss then mergeSamePathSections ss = Inr (map (groupedSection ss) (pathsOf ss))
   else \<exists>p a b. mergeSamePathSections ss = Inl (ConflictingTags p a b) \<and> a \<noteq> b"
  using merge_fold [of ss]
  by (auto simp: mergeSamePathSections_def groupEntry_def groupedSection_def split: if_splits)

theorem mergeSamePathSections_groups_witness:
  "mergeSamePathSections
     [\<lparr>secPath = js ''a'', secHash = None, secDiff = js ''x''\<rparr>, \<lparr>secPath = js ''b'', secHash = None, secDiff = js ''y''\<rparr>,
      \<lparr>secPath = js ''a'', secHash = Some (js ''0A3F''), secDiff = js ''z''\<rparr>] =
   Inr [\<lparr>secPath = js ''a'', secHash = Some (js ''0A3F''), secDiff = js ''x'' @ 10 # js ''z''\<rparr>,
        \<lparr>secPath = js ''b'', secHash = None, secDiff = js ''y''\<rparr>]"
  using mergeSamePathSections_groups [of
     "[\<lparr>secPath = js ''a'', secHash = None, secDiff = js ''x''\<rparr>, \<lparr>secPath = js ''b'', secHash = None, secDiff = js ''y''\<rparr>,
      \<lparr>secPath = js ''a'', secHash = Some (js ''0A3F''), secDiff = js ''z''\<rparr>]"]
  by (simp add: consistentTags_def pathsOf_def setAdd_def tagsOf_def tagOf_def sectionsOf_def groupedSection_def)

section \<open>The sections of a parsed patch\<close>

lemma isUpperHex_upper: "isHexDigitCode c \<Longrightarrow> isUpperHex (toUpperAscii c)"
  by (auto simp: isHexDigitCode_def isDigitCode_def isUpperHex_def isJsDigit_def toUpperAscii_def hl_char_defs)

lemma tryParseHeader_tag:
  assumes "tryParseHeader line = Some (path, Some tag)"
  shows "validTag tag"
proof -
  define e where "e = trimEndIndex line"
  define i where "i = scanPath line FILE_PREFIX_LENGTH e + 1"
  have i: "i + HL_FILE_HASH_LENGTH \<le> e"
    "list_all (\<lambda>probe. isHexDigitCode (line ! probe)) [i ..< i + HL_FILE_HASH_LENGTH]"
    "tag = map toUpperAscii (jslice line i (i + HL_FILE_HASH_LENGTH))"
    using assms unfolding tryParseHeader_def Let_def e_def [symmetric] i_def [symmetric]
    by (auto split: if_splits simp del: upt_Suc)
  have e: "e \<le> length line" unfolding e_def trimEndIndex_eq by (metis trimWs_split length_append le_add1)
  have len: "length tag = HL_FILE_HASH_LENGTH" using i(1,3) e by simp
  have "isHexDigitCode c" if c: "c \<in> set (jslice line i (i + HL_FILE_HASH_LENGTH))" for c
  proof -
    obtain k where "k < HL_FILE_HASH_LENGTH" "c = line ! (i + k)"
      using c i(1) e by (auto simp: jslice_def in_set_conv_nth)
    then show ?thesis using i(2) by (auto simp: list_all_iff)
  qed
  then show ?thesis using len isUpperHex_upper by (auto simp: validTag_def i(3) list_all_iff)
qed

lemma classifyLine_Header: "classifyLine line n = Header m path tag \<Longrightarrow> tryParseHeader line = Some (path, tag)"
  by (auto simp: classifyLine_def split: if_splits option.splits)

text \<open>The recovery of a malformed header captures four hexadecimal digits or nothing.\<close>

lemma rx_hex_tag:
  "(caps, p', s') \<in> set (rx (rSeqs (replicate n (RClass P))) p s) \<Longrightarrow>
     caps = [] \<and> length s' + n = length s \<and> list_all P (take n s)"
  by (induction n arbitrary: p s caps) (auto split: list.splits if_splits)

lemma rx_hex_group:
  assumes "(caps, q, t) \<in> set (rx (RGroup (rSeqs (replicate n (RClass P)))) p s)"
  shows "\<exists>h. caps = [h] \<and> length h = n \<and> list_all P h"
proof -
  obtain caps' where c: "(caps', q, t) \<in> set (rx (rSeqs (replicate n (RClass P))) p s)"
    "caps = take (length s - length t) s # caps'"
    using assms by auto
  note tag = rx_hex_tag [OF c(1)]
  then have "length s = length t + n" by simp
  then have "length s - length t = n" by simp
  then show ?thesis using tag c(2) by simp
qed

lemma starLazy_caps: "(caps, q, t) \<in> set (starLazy P prev s) \<Longrightarrow> caps = []"
  by (induction P prev s rule: starLazy.induct) (auto split: if_splits)

lemma rRecoveryHeader_caps:
  assumes "rxExec rRecoveryHeader body = Some (raw # h # hs, rest)"
  shows "length h = HL_FILE_HASH_LENGTH \<and> list_all isHexDigitCode h"
proof -
  let ?tag = "RGroup (rSeqs (replicate HL_FILE_HASH_LENGTH (RClass isHexDigitCode)))"
  obtain p' where "(raw # h # hs, p', rest) \<in> set (rx rRecoveryHeader None body)"
    using assms by (cases "rx rRecoveryHeader None body") (auto simp: rxExec_def)
  from in_rx_RSeq [OF this [unfolded rRecoveryHeader_def rSeqs.simps]] obtain c1 q1 s1 c2 where
    first: "(c1, q1, s1) \<in> set (rx (RGroup (RLazyPlus (\<lambda>c. \<not> isJsSpace c))) None body)"
    and rest: "(c2, p', rest) \<in> set (rx (RSeq (ROpt (RSeq (rChar 35) ?tag)) (RSeq rSpaces (RSeq REnd REmpty))) q1 s1)"
    and caps: "raw # h # hs = c1 @ c2"
    by blast
  have "length c1 = 1" using first by (auto dest: starLazy_caps split: list.splits if_splits)
  with caps have c2: "c2 = h # hs" by (cases c1) auto
  from in_rx_RSeq [OF rest] obtain c3 q3 s3 c4 where opt: "(c3, q3, s3) \<in> set (rx (ROpt (RSeq (rChar 35) ?tag)) q1 s1)"
    and tail: "(c4, p', rest) \<in> set (rx (RSeq rSpaces (RSeq REnd REmpty)) q3 s3)" and split: "c2 = c3 @ c4"
    by blast
  have "c4 = []" using tail by (auto dest: starGreedy_caps split: if_splits)
  then have "(h # hs, q3, s3) \<in> set (rx (RSeq (rChar 35) ?tag) q1 s1)" using opt c2 split by auto
  from in_rx_RSeq [OF this] obtain c5 q5 s5 c6 where "(c5, q5, s5) \<in> set (rx (rChar 35) q1 s1)"
    and tag: "(c6, q3, s3) \<in> set (rx ?tag q5 s5)" and "h # hs = c5 @ c6"
    by blast
  then have "c6 = h # hs" by (auto simp: rChar_def split: list.splits if_splits)
  with rx_hex_group [OF tag] show ?thesis by auto
qed

text \<open>What the header of a section promises.\<close>

definition goodHead :: "raw_section \<Rightarrow> bool" where
  "goodHead s \<longleftrightarrow> secPath s \<noteq> [] \<and> (case secHash s of None \<Rightarrow> True | Some h \<Rightarrow> validTag h)"

definition goodBody :: "raw_section \<Rightarrow> bool" where
  "goodBody s \<longleftrightarrow> trim (secDiff s) \<noteq> []"

lemma recovered_header: "tryParseRecoveryHeader P line cwd = Some s \<Longrightarrow> goodHead s"
  by (auto simp: tryParseRecoveryHeader_def goodHead_def validTag_def list_all_iff Let_def
      split: if_splits option.splits list.splits prod.splits
      dest!: rRecoveryHeader_caps intro!: isUpperHex_upper)

lemma header_line: "parseHashlineHeaderLine P line cwd = Inr (Some s) \<Longrightarrow> goodHead s"
  by (auto simp: parseHashlineHeaderLine_def Let_def goodHead_def recovered_header
      split: if_splits token.splits option.splits
      dest!: classifyLine_Header tryParseHeader_tag dest: recovered_header)

lemma trim_Nil_iff: "trim s = [] \<longleftrightarrow> list_all isJsSpace s"
proof (cases "dropWhile isJsSpace s")
  case Nil
  then have "list_all isJsSpace s" by (simp add: list_all_iff)
  moreover have "trim s = []" unfolding trim_def trimStart_def Nil by (simp add: trimEnd_def)
  ultimately show ?thesis by simp
next
  case (Cons c cs)
  then have "\<not> isJsSpace c" using hd_dropWhile [of isJsSpace s] by simp
  moreover have "c \<in> set s" using Cons by (metis list.set_intros(1) set_dropWhileD)
  ultimately show ?thesis using Cons by (auto simp: trim_def trimEnd_def trimStart_def list_all_iff)
qed

lemma set_joinOn: "set (joinOn sep ls) \<subseteq> \<Union> (set ` set ls) \<union> set sep" "l \<in> set ls \<Longrightarrow> set l \<subseteq> set (joinOn sep ls)"
  by (induction sep ls rule: joinOn.induct) auto

lemma visible_row: "list_ex (\<lambda>line. 0 < length (trim line)) ls \<Longrightarrow> trim (joinLines ls) \<noteq> []"
  using set_joinOn(2) by (fastforce simp: trim_Nil_iff list_ex_iff list_all_iff)

definition scanInv :: "section_scan \<Rightarrow> bool" where
  "scanInv s \<longleftrightarrow> list_all (\<lambda>x. goodHead x \<and> goodBody x) (scSections s)
     \<and> (case scCurrent s of None \<Rightarrow> True | Some x \<Rightarrow> goodHead x)"

lemma flush_scanInv: "scanInv s \<Longrightarrow> scanInv (flushSection s)"
  by (auto simp: scanInv_def flushSection_def Let_def goodHead_def goodBody_def visible_row split: option.splits)

lemma sectionLoop_scanInv: "scanInv s \<Longrightarrow> sectionLoop P cwd lns s = Inr s' \<Longrightarrow> scanInv s'"
proof (induction lns arbitrary: s)
  case Nil
  then show ?case by simp
next
  case (Cons line lns)
  have push: "scanInv (s\<lparr>scLines := xs\<rparr>)" for xs using Cons.prems(1) by (simp add: scanInv_def)
  have new: "scanInv ((flushSection s)\<lparr>scCurrent := Some h, scLines := []\<rparr>)"
    if "parseHashlineHeaderLine P line cwd = Inr (Some h)" for h
    using flush_scanInv [OF Cons.prems(1)] header_line [OF that] by (simp add: scanInv_def)
  show ?case
    using Cons.prems(2) Cons.IH [OF Cons.prems(1)] Cons.IH [OF push] Cons.IH [OF new] Cons.prems(1)
    by (auto split: token.splits if_splits sum.splits option.splits)
qed

lemma splitRawSections_good:
  "splitRawSections P input options = Inr ss \<Longrightarrow> list_all (\<lambda>x. goodHead x \<and> goodBody x) ss"
  by (auto simp: splitRawSections_def Let_def bindE_eq_Inr scanInv_def split: if_splits
      dest!: sectionLoop_scanInv [rotated] dest: flush_scanInv)

text \<open>A patch that parses has one section per path, in the order of first mention; each has a non-empty path
  and a tag of four upper-case hexadecimal digits or none, whatever the noise and the malformed headers the
  split recovered from.
\<close>

theorem patchParse_sections:
  assumes "patchParse P input options = Inr sections"
  shows "distinct (map secPath sections) \<and> list_all goodHead sections
    \<and> (\<exists>raw. splitRawSections P input options = Inr raw \<and> list_all goodBody raw
         \<and> sections = map (groupedSection raw) (pathsOf raw))"
proof -
  obtain raw where raw: "splitRawSections P input options = Inr raw" "mergeSamePathSections raw = Inr sections"
    using assms by (auto simp: patchParse_def bindE_eq_Inr)
  note good = splitRawSections_good [OF raw(1)]
  have sec: "sections = map (groupedSection raw) (pathsOf raw)"
    using raw(2) merge_fold [of raw]
    by (auto simp: mergeSamePathSections_def groupEntry_def groupedSection_def split: if_splits)
  have "validTag h" if "tagOf p raw = Some h" for p h
  proof -
    have "h \<in> set (tagsOf p raw)" using that by (auto simp: tagOf_def split: list.splits)
    then obtain s where "s \<in> set raw" "secHash s = Some h" by (auto simp: tagsOf_def sectionsOf_def split: option.splits)
    then show ?thesis using good by (auto simp: list_all_iff goodHead_def)
  qed
  moreover have "p \<noteq> []" if "p \<in> secPath ` set raw" for p
    using that good by (auto simp: list_all_iff goodHead_def)
  ultimately have "goodHead (groupedSection raw p)" if "p \<in> set (pathsOf raw)" for p
    using that by (auto simp: goodHead_def groupedSection_def split: option.split)
  then show ?thesis using sec raw(1) good by (auto simp: list_all_iff comp_def groupedSection_def)
qed

definition plainPaths :: path_ops where
  "plainPaths = \<lparr>pathIsAbsolute = \<lambda>_. False, pathResolve = \<lambda>p. p, pathRelative = \<lambda>_ p. p\<rparr>"

abbreviation (input) sampleHeader :: jstring where "sampleHeader \<equiv> [182, 97, 35, 48, 65, 51, 70]"
abbreviation (input) sampleHunk :: jstring where "sampleHunk \<equiv> [100, 101, 108, 101, 116, 101, 32, 50]"

lemma sample_lines:
  "classifyLine sampleHeader 0 = Header 0 [97] (Some [48, 65, 51, 70])"
  "classifyLine sampleHunk 0 = OpBlock 0 (TDelete \<lparr>rangeStart = 2, rangeEnd = 2\<rparr>)"
  "trimEnd sampleHeader = sampleHeader" "trimEnd sampleHunk = sampleHunk"
  "splitCRLF (sampleHeader @ 10 # sampleHunk) = [sampleHeader, sampleHunk]"
  using classify_formatHashlineHeader [of "[97]" "[48, 65, 51, 70]" 0] classify_formatted_headers(2) [of 2 2 0]
  by (simp_all add: formatHashlineHeader_def formatDeleteHeader_def hl_keyword_defs plainPath_def validTag_def
      HL_FILE_HASH_LENGTH_def isUpperHex_def isJsDigit_def natToString.simps [of 2] trimEnd_def isJsSpace_def hl_char_defs)

lemma sample_header_line:
  "parseHashlineHeaderLine plainPaths sampleHeader None =
     Inr (Some \<lparr>secPath = [97], secHash = Some [48, 65, 51, 70], secDiff = []\<rparr>)"
  "parseHashlineHeaderLine plainPaths sampleHunk None = Inr None"
proof -
  have "normalizeHashlinePath plainPaths [97] None = [97]"
    by (simp add: normalizeHashlinePath_def unquoteHashlinePath_def trim_def trimStart_def trimEnd_def isJsSpace_def
        stripApplyPatchPathNoise_def rxStrip_def rxExec_def APPLY_PATCH_PATH_NOISE_RE_def rUpToThreeStars_def rChar_def
        toLowerAscii_def)
  then show "parseHashlineHeaderLine plainPaths sampleHeader None =
     Inr (Some \<lparr>secPath = [97], secHash = Some [48, 65, 51, 70], secDiff = []\<rparr>)"
    by (simp add: parseHashlineHeaderLine_def sample_lines startsWith_def HL_FILE_PREFIX_def)
  show "parseHashlineHeaderLine plainPaths sampleHunk None = Inr None"
    by (simp add: parseHashlineHeaderLine_def sample_lines startsWith_def HL_FILE_PREFIX_def)
qed

lemma sample_patch:
  "patchParse plainPaths (sampleHeader @ 10 # sampleHunk) \<lparr>optCwd = None, optPath = None\<rparr> =
     Inr [\<lparr>secPath = [97], secHash = Some [48, 65, 51, 70], secDiff = sampleHunk\<rparr>]"
proof -
  have norm: "normalizeFallbackInput plainPaths (sampleHeader @ 10 # sampleHunk) \<lparr>optCwd = None, optPath = None\<rparr> =
      Inr (sampleHeader @ 10 # sampleHunk)"
    using sample_lines(5) sample_header_line
    by (simp add: normalizeFallbackInput_def dropBom_def startsWith_def BOM_def del: splitCRLF.simps)
  have strip: "stripLeadingBlankLines (sampleHeader @ 10 # sampleHunk) = sampleHeader @ 10 # sampleHunk"
    using sample_lines(1)
    by (simp add: stripLeadingBlankLines_def dropBom_def startsWith_def BOM_def isLeadingNoise_def dropTrailingCR_def
        endsWith_def trim_def trimStart_def trimEnd_def isJsSpace_def)
  show ?thesis
    using norm strip sample_lines sample_header_line
    by (simp add: patchParse_def splitRawSections_def Let_def flushSection_def mergeSamePathSections_def mergeStep_def
        startsWith_def HL_FILE_PREFIX_def trim_def trimStart_def isJsSpace_def del: splitCRLF.simps)
qed

theorem patchParse_sections_witness:
  "distinct [[97 :: nat]] \<and> goodHead \<lparr>secPath = [97], secHash = Some [48, 65, 51, 70], secDiff = sampleHunk\<rparr>"
  using patchParse_sections [OF sample_patch] by simp

end
