(* ===== verification/Hl_Snapshots.thy ===== *)
theory Hl_Snapshots
  imports Hl_Format
begin

text \<open>
  packages/hashline/src/snapshots.ts: the per-path version history that binds section tags to file
  texts. The cache behind \<open>InMemorySnapshotStore\<close> is the third-party \<open>lru-cache\<close>: its operations are
  the argument \<open>L\<close> of the definitions, what the code relies on is the locale \<open>lru_cache\<close>. The abstract
  class \<open>SnapshotStore\<close> is the record \<open>store_ops\<close> and the locale \<open>snapshot_store\<close>, which the in-memory
  store satisfies over every such cache (the sublocale).

  The field \<open>recordedAt\<close> is written and never read, and is left out. The code compares snapshot
  objects by identity; a history has one version per tag, so equal values are the same object.
\<close>

record snapshot =
  snPath :: jstring
  snText :: jstring
  snHash :: jstring

record 's store_ops =
  soHead :: "jstring \<Rightarrow> 's \<Rightarrow> snapshot option \<times> 's"
  soByHash :: "jstring \<Rightarrow> jstring \<Rightarrow> 's \<Rightarrow> snapshot option \<times> 's"
  soRecord :: "jstring \<Rightarrow> jstring \<Rightarrow> 's \<Rightarrow> jstring \<times> 's"
  soInvalidate :: "jstring \<Rightarrow> 's \<Rightarrow> 's"
  soClear :: "'s \<Rightarrow> 's"

record 'c lru_ops =
  lruNew :: "nat \<Rightarrow> 'c"
  lruGet :: "jstring \<Rightarrow> 'c \<Rightarrow> snapshot list option \<times> 'c"
  lruSet :: "jstring \<Rightarrow> snapshot list \<Rightarrow> 'c \<Rightarrow> 'c"
  lruDelete :: "jstring \<Rightarrow> 'c \<Rightarrow> 'c"
  lruClear :: "'c \<Rightarrow> 'c"

definition DEFAULT_MAX_PATHS :: nat where "DEFAULT_MAX_PATHS = 30"
definition DEFAULT_MAX_VERSIONS_PER_PATH :: nat where "DEFAULT_MAX_VERSIONS_PER_PATH = 4"

section \<open>The in-memory store\<close>

record 'c mem_store =
  msVersions :: 'c
  msMaxVersionsPerPath :: nat

definition newMemStore :: "'c lru_ops \<Rightarrow> nat option \<Rightarrow> nat option \<Rightarrow> 'c mem_store" where
  "newMemStore L maxPaths maxVersionsPerPath =
     \<lparr>msVersions = lruNew L (case maxPaths of None \<Rightarrow> DEFAULT_MAX_PATHS | Some n \<Rightarrow> n),
      msMaxVersionsPerPath =
        (case maxVersionsPerPath of None \<Rightarrow> DEFAULT_MAX_VERSIONS_PER_PATH | Some n \<Rightarrow> n)\<rparr>"

definition memHead :: "'c lru_ops \<Rightarrow> jstring \<Rightarrow> 'c mem_store \<Rightarrow> snapshot option \<times> 'c mem_store" where
  "memHead L path st =
     (case lruGet L path (msVersions st) of (history, c) \<Rightarrow>
        (case history of Some (v # _) \<Rightarrow> Some v | _ \<Rightarrow> None, st\<lparr>msVersions := c\<rparr>))"

definition memByHash ::
  "'c lru_ops \<Rightarrow> jstring \<Rightarrow> jstring \<Rightarrow> 'c mem_store \<Rightarrow> snapshot option \<times> 'c mem_store" where
  "memByHash L path hash st =
     (case lruGet L path (msVersions st) of (history, c) \<Rightarrow>
        (case history of None \<Rightarrow> None | Some vs \<Rightarrow> find (\<lambda>version. snHash version = hash) vs,
         st\<lparr>msVersions := c\<rparr>))"

definition memRecord ::
  "'c lru_ops \<Rightarrow> (jstring \<Rightarrow> 32 word) \<Rightarrow> jstring \<Rightarrow> jstring \<Rightarrow> 'c mem_store \<Rightarrow> jstring \<times> 'c mem_store" where
  "memRecord L xxh path fullText st =
     (let hash = computeFileHash xxh fullText in
      case lruGet L path (msVersions st) of (found, c) \<Rightarrow>
        (let history = (case found of None \<Rightarrow> [] | Some vs \<Rightarrow> vs) in
         case find (\<lambda>version. snHash version = hash) history of
           Some existing \<Rightarrow>
             (hash, st\<lparr>msVersions :=
                if history ! 0 \<noteq> existing
                then lruSet L path (existing # filter (\<lambda>version. version \<noteq> existing) history) c
                else c\<rparr>)
         | None \<Rightarrow>
             (let s = \<lparr>snPath = path, snText = fullText, snHash = hash\<rparr> in
              (hash, st\<lparr>msVersions := lruSet L path (take (msMaxVersionsPerPath st) (s # history)) c\<rparr>))))"

definition memInvalidate :: "'c lru_ops \<Rightarrow> jstring \<Rightarrow> 'c mem_store \<Rightarrow> 'c mem_store" where
  "memInvalidate L path st = st\<lparr>msVersions := lruDelete L path (msVersions st)\<rparr>"

definition memClear :: "'c lru_ops \<Rightarrow> 'c mem_store \<Rightarrow> 'c mem_store" where
  "memClear L st = st\<lparr>msVersions := lruClear L (msVersions st)\<rparr>"

definition memStoreOps :: "'c lru_ops \<Rightarrow> (jstring \<Rightarrow> 32 word) \<Rightarrow> 'c mem_store store_ops" where
  "memStoreOps L xxh = \<lparr>soHead = memHead L, soByHash = memByHash L, soRecord = memRecord L xxh,
     soInvalidate = memInvalidate L, soClear = memClear L\<rparr>"

section \<open>The contract of a snapshot store\<close>

text \<open>A history of a path: every version carries the tag of its text, one version per tag.\<close>

definition historyOk :: "(jstring \<Rightarrow> 32 word) \<Rightarrow> jstring \<Rightarrow> snapshot list \<Rightarrow> bool" where
  "historyOk xxh path vs \<longleftrightarrow> distinct (map snHash vs)
     \<and> list_all (\<lambda>v. snPath v = path \<and> snHash v = computeFileHash xxh (snText v)) vs"

locale snapshot_store =
  fixes S :: "'s store_ops"
    and xxh :: "jstring \<Rightarrow> 32 word"
    and versions :: "'s \<Rightarrow> jstring \<Rightarrow> snapshot list"
    and wf :: "'s \<Rightarrow> bool"
  assumes history: "wf s \<Longrightarrow> historyOk xxh p (versions s p)"
    and head: "wf s \<Longrightarrow> soHead S p s = (r, s') \<Longrightarrow>
      r = (case versions s p of [] \<Rightarrow> None | v # _ \<Rightarrow> Some v) \<and> versions s' = versions s \<and> wf s'"
    and byHash: "wf s \<Longrightarrow> soByHash S p h s = (r, s') \<Longrightarrow>
      r = find (\<lambda>v. snHash v = h) (versions s p) \<and> versions s' = versions s \<and> wf s'"
    and recorded: "wf s \<Longrightarrow> soRecord S p t s = (h, s') \<Longrightarrow>
      h = computeFileHash xxh t \<and> wf s' \<and> versions s' p \<noteq> [] \<and> snHash (hd (versions s' p)) = h
      \<and> (find (\<lambda>v. snHash v = h) (versions s p) = None \<longrightarrow> snText (hd (versions s' p)) = t)
      \<and> (\<forall>q. q \<noteq> p \<longrightarrow> versions s' q = versions s q \<or> versions s' q = [])"
    and invalidate: "wf s \<Longrightarrow> versions (soInvalidate S p s) = (versions s)(p := []) \<and> wf (soInvalidate S p s)"
    and clear: "wf s \<Longrightarrow> versions (soClear S s) = (\<lambda>_. []) \<and> wf (soClear S s)"
begin

text \<open>A tag just returned resolves, and it is the head of its path.\<close>

lemma record_byHash:
  assumes "wf s" and "soRecord S p t s = (h, s1)" and "soByHash S p h s1 = (r, s2)"
  shows "r = Some (hd (versions s1 p)) \<and> snHash (hd (versions s1 p)) = h"
proof -
  note R = recorded [OF assms(1,2)]
  then obtain v vs where v: "versions s1 p = v # vs" by (cases "versions s1 p") auto
  with R byHash [OF _ assms(3)] show ?thesis by simp
qed

lemma record_head:
  assumes "wf s" and "soRecord S p t s = (h, s1)" and "soHead S p s1 = (r, s2)"
  shows "\<exists>v. r = Some v \<and> snHash v = h \<and> computeFileHash xxh (snText v) = computeFileHash xxh t"
proof -
  note R = recorded [OF assms(1,2)]
  then obtain v vs where v: "versions s1 p = v # vs" by (cases "versions s1 p") auto
  have "historyOk xxh p (versions s1 p)" using R history by blast
  then have "snHash v = computeFileHash xxh (snText v)" by (simp add: historyOk_def v)
  with R v head [OF _ assms(3)] show ?thesis by simp
qed

text \<open>What a tag resolves to hashes to that tag.\<close>

lemma byHash_hash:
  assumes "wf s" and "soByHash S p h s = (Some v, s')"
  shows "snHash v = h \<and> snPath v = p \<and> computeFileHash xxh (snText v) = h"
proof -
  have "find (\<lambda>v. snHash v = h) (versions s p) = Some v" using byHash [OF assms] by simp
  then have "v \<in> set (versions s p)" "snHash v = h" by (auto simp: find_Some_iff)
  then show ?thesis using history [OF assms(1), of p] by (auto simp: historyOk_def list_all_iff)
qed

end

section \<open>What the code relies on of the cache\<close>

locale lru_cache =
  fixes L :: "'c lru_ops"
    and view :: "'c \<Rightarrow> jstring \<Rightarrow> snapshot list option"
    and cacheOk :: "'c \<Rightarrow> bool"
  assumes new: "0 < n \<Longrightarrow> cacheOk (lruNew L n) \<and> view (lruNew L n) = (\<lambda>_. None)"
    and get: "cacheOk c \<Longrightarrow> lruGet L k c = (r, c') \<Longrightarrow> r = view c k \<and> view c' = view c \<and> cacheOk c'"
    and set_same: "cacheOk c \<Longrightarrow> view (lruSet L k v c) k = Some v \<and> cacheOk (lruSet L k v c)"
    and set_other: "cacheOk c \<Longrightarrow> k' \<noteq> k \<Longrightarrow> view (lruSet L k v c) k' = view c k' \<or> view (lruSet L k v c) k' = None"
    and delete: "cacheOk c \<Longrightarrow> view (lruDelete L k c) = (view c)(k := None) \<and> cacheOk (lruDelete L k c)"
    and clear: "cacheOk c \<Longrightarrow> view (lruClear L c) = (\<lambda>_. None) \<and> cacheOk (lruClear L c)"
begin

definition memVersions :: "'c mem_store \<Rightarrow> jstring \<Rightarrow> snapshot list" where
  "memVersions st p = (case view (msVersions st) p of None \<Rightarrow> [] | Some vs \<Rightarrow> vs)"

definition memOk :: "(jstring \<Rightarrow> 32 word) \<Rightarrow> 'c mem_store \<Rightarrow> bool" where
  "memOk xxh st \<longleftrightarrow> cacheOk (msVersions st) \<and> 0 < msMaxVersionsPerPath st
     \<and> (\<forall>p. historyOk xxh p (memVersions st p)
          \<and> length (memVersions st p) \<le> msMaxVersionsPerPath st)"

lemma memOk_new:
  "maxPaths \<noteq> Some 0 \<Longrightarrow> maxVersions \<noteq> Some 0 \<Longrightarrow> memOk xxh (newMemStore L maxPaths maxVersions)"
  using new
  by (auto simp: memOk_def newMemStore_def memVersions_def historyOk_def DEFAULT_MAX_PATHS_def
      DEFAULT_MAX_VERSIONS_PER_PATH_def split: option.split)

lemma memVersions_get:
  assumes "cacheOk (msVersions st)" and "lruGet L p (msVersions st) = (r, c)"
  shows "memVersions (st\<lparr>msVersions := c\<rparr>) = memVersions st" "cacheOk c"
    "(case r of None \<Rightarrow> [] | Some vs \<Rightarrow> vs) = memVersions st p"
  using get [OF assms] by (auto simp: memVersions_def fun_eq_iff)

lemma memVersions_set:
  assumes "cacheOk c" and "view c = view (msVersions st)"
  shows "memVersions (st\<lparr>msVersions := lruSet L p vs c\<rparr>) p = vs"
    and "q \<noteq> p \<Longrightarrow> memVersions (st\<lparr>msVersions := lruSet L p vs c\<rparr>) q = memVersions st q
       \<or> memVersions (st\<lparr>msVersions := lruSet L p vs c\<rparr>) q = []"
    and "cacheOk (lruSet L p vs c)"
  using set_same [OF assms(1), of p vs] set_other [OF assms(1), of q p vs] assms(2)
  by (auto simp: memVersions_def)

lemma memOk_replace:
  assumes ok: "memOk xxh st" and c: "cacheOk c" "view c = view (msVersions st)"
    and vs: "historyOk xxh p vs" "length vs \<le> msMaxVersionsPerPath st"
  shows "memOk xxh (st\<lparr>msVersions := lruSet L p vs c\<rparr>)"
proof -
  let ?st = "st\<lparr>msVersions := lruSet L p vs c\<rparr>"
  have "historyOk xxh q (memVersions ?st q) \<and> length (memVersions ?st q) \<le> msMaxVersionsPerPath st" for q
  proof (cases "q = p")
    case True
    then show ?thesis using memVersions_set(1) [OF c] vs by simp
  next
    case False
    have nil: "historyOk xxh q []" by (simp add: historyOk_def)
    from memVersions_set(2) [OF c False, of vs] show ?thesis
      using ok nil by (auto simp: memOk_def)
  qed
  then show ?thesis using ok memVersions_set(3) [OF c] by (simp add: memOk_def)
qed

lemma historyOk_promote:
  assumes "historyOk xxh p vs" and "find (\<lambda>v. snHash v = h) vs = Some v"
  shows "historyOk xxh p (v # filter (\<lambda>w. w \<noteq> v) vs)" "length (v # filter (\<lambda>w. w \<noteq> v) vs) = length vs"
    "snHash v = h"
proof -
  have v: "v \<in> set vs" "snHash v = h" using assms(2) by (auto simp: find_Some_iff)
  have d: "distinct (map snHash vs)" "distinct vs"
    using assms(1) by (auto simp: historyOk_def distinct_map)
  have "snHash v \<notin> snHash ` set (filter (\<lambda>w. w \<noteq> v) vs)"
    using d(1) v(1) by (auto simp: distinct_map inj_on_def)
  then show "historyOk xxh p (v # filter (\<lambda>w. w \<noteq> v) vs)"
    using assms(1) v by (auto simp: historyOk_def list_all_iff distinct_map_filter)
  have "filter (\<lambda>w. w \<noteq> v) vs = remove1 v vs" using d(2) by (auto simp: distinct_remove1_removeAll removeAll_filter_not_eq intro: filter_cong)
  then show "length (v # filter (\<lambda>w. w \<noteq> v) vs) = length vs"
    using v(1) by (simp add: length_remove1) (metis Suc_pred length_pos_if_in_set)
  show "snHash v = h" by (rule v(2))
qed

lemma historyOk_push:
  assumes "historyOk xxh p vs" and "find (\<lambda>v. snHash v = computeFileHash xxh t) vs = None"
  shows "historyOk xxh p (take n (\<lparr>snPath = p, snText = t, snHash = computeFileHash xxh t\<rparr> # vs))"
proof -
  have "historyOk xxh p (\<lparr>snPath = p, snText = t, snHash = computeFileHash xxh t\<rparr> # vs)"
    using assms by (auto simp: historyOk_def find_None_iff)
  then show ?thesis
    unfolding historyOk_def list_all_iff take_map [symmetric]
    by (auto intro: distinct_take dest!: in_set_takeD)
qed

lemma memRecord_ok:
  assumes ok: "memOk xxh st" and rec: "memRecord L xxh p t st = (h, st')"
  shows "h = computeFileHash xxh t \<and> memOk xxh st' \<and> memVersions st' p \<noteq> [] \<and> snHash (hd (memVersions st' p)) = h
      \<and> (find (\<lambda>v. snHash v = h) (memVersions st p) = None \<longrightarrow> snText (hd (memVersions st' p)) = t)
      \<and> (\<forall>q. q \<noteq> p \<longrightarrow> memVersions st' q = memVersions st q \<or> memVersions st' q = [])"
proof -
  have cok: "cacheOk (msVersions st)" using ok by (simp add: memOk_def)
  obtain r c where g: "lruGet L p (msVersions st) = (r, c)" by (cases "lruGet L p (msVersions st)")
  note G = memVersions_get [OF cok g]
  have vc: "view c = view (msVersions st)" using get [OF cok g] by simp
  let ?vs = "memVersions st p" and ?h = "computeFileHash xxh t"
  have hist: "historyOk xxh p ?vs" "length ?vs \<le> msMaxVersionsPerPath st" "0 < msMaxVersionsPerPath st"
    using ok by (simp_all add: memOk_def)
  show ?thesis
  proof (cases "find (\<lambda>v. snHash v = ?h) ?vs")
    case None
    let ?new = "take (msMaxVersionsPerPath st) (\<lparr>snPath = p, snText = t, snHash = ?h\<rparr> # ?vs)"
    have st': "h = ?h" "st' = st\<lparr>msVersions := lruSet L p ?new c\<rparr>"
      using rec None by (auto simp: memRecord_def g G(3) Let_def)
    have "memOk xxh st'"
      unfolding st'(2) by (rule memOk_replace [OF ok G(2) vc historyOk_push [OF hist(1) None]]) simp
    moreover have "memVersions st' p = ?new" unfolding st'(2) by (rule memVersions_set(1) [OF G(2) vc])
    moreover have "?new \<noteq> []" "hd ?new = \<lparr>snPath = p, snText = t, snHash = ?h\<rparr>"
      using hist(3) by (cases "msMaxVersionsPerPath st"; simp)+
    moreover have "\<forall>q. q \<noteq> p \<longrightarrow> memVersions st' q = memVersions st q \<or> memVersions st' q = []"
      unfolding st'(2) using memVersions_set(2) [OF G(2) vc] by blast
    ultimately show ?thesis using st'(1) by simp
  next
    case (Some v)
    note prom = historyOk_promote [OF hist(1) Some]
    show ?thesis
    proof (cases "?vs ! 0 = v")
      case True
      have st': "h = ?h" "st' = st\<lparr>msVersions := c\<rparr>"
        using rec Some True by (auto simp: memRecord_def g G(3) Let_def)
      have "?vs \<noteq> []" using Some by auto
      then have "hd ?vs = v" using True by (simp add: hd_conv_nth)
      then show ?thesis
        using st' Some ok prom(3) \<open>?vs \<noteq> []\<close> G by (auto simp: memOk_def)
    next
      case False
      let ?new = "v # filter (\<lambda>w. w \<noteq> v) ?vs"
      have st': "h = ?h" "st' = st\<lparr>msVersions := lruSet L p ?new c\<rparr>"
        using rec Some False by (auto simp: memRecord_def g G(3) Let_def)
      have "memOk xxh st'"
        unfolding st'(2) by (rule memOk_replace [OF ok G(2) vc prom(1)]) (use prom(2) hist(2) in simp)
      moreover have "memVersions st' p = ?new" unfolding st'(2) by (rule memVersions_set(1) [OF G(2) vc])
      moreover have "\<forall>q. q \<noteq> p \<longrightarrow> memVersions st' q = memVersions st q \<or> memVersions st' q = []"
        unfolding st'(2) using memVersions_set(2) [OF G(2) vc] by blast
      ultimately show ?thesis using st'(1) prom(3) Some by simp
    qed
  qed
qed

lemma memInvalidate_ok:
  assumes "memOk xxh st"
  shows "memVersions (memInvalidate L p st) = (memVersions st)(p := []) \<and> memOk xxh (memInvalidate L p st)"
proof -
  have d: "view (lruDelete L p (msVersions st)) = (view (msVersions st))(p := None)"
    "cacheOk (lruDelete L p (msVersions st))"
    using delete assms by (auto simp: memOk_def)
  then have "memVersions (memInvalidate L p st) = (memVersions st)(p := [])"
    by (auto simp: memVersions_def memInvalidate_def fun_eq_iff)
  then show ?thesis using assms d(2) by (auto simp: memOk_def memInvalidate_def historyOk_def)
qed

lemma memClear_ok:
  assumes "memOk xxh st"
  shows "memVersions (memClear L st) = (\<lambda>_. []) \<and> memOk xxh (memClear L st)"
  using assms clear [of "msVersions st"]
  by (auto simp: memVersions_def memClear_def memOk_def historyOk_def fun_eq_iff)

lemma memHead_ok:
  assumes "memOk xxh st" and "memHead L p st = (r, st')"
  shows "r = (case memVersions st p of [] \<Rightarrow> None | v # _ \<Rightarrow> Some v) \<and> memVersions st' = memVersions st
     \<and> memOk xxh st'"
proof -
  have cok: "cacheOk (msVersions st)" using assms(1) by (simp add: memOk_def)
  obtain h c where g: "lruGet L p (msVersions st) = (h, c)" by (cases "lruGet L p (msVersions st)")
  note G = memVersions_get [OF cok g]
  have st': "st' = st\<lparr>msVersions := c\<rparr>" "r = (case h of Some (v # _) \<Rightarrow> Some v | _ \<Rightarrow> None)"
    using assms(2) by (auto simp: memHead_def g)
  have "r = (case memVersions st p of [] \<Rightarrow> None | v # _ \<Rightarrow> Some v)"
    unfolding st'(2) G(3) [symmetric] by (cases h) (auto split: list.split)
  then show ?thesis using G assms(1) by (simp add: st'(1) memOk_def)
qed

lemma memByHash_ok:
  assumes "memOk xxh st" and "memByHash L p hash st = (r, st')"
  shows "r = find (\<lambda>v. snHash v = hash) (memVersions st p) \<and> memVersions st' = memVersions st
     \<and> memOk xxh st'"
proof -
  have cok: "cacheOk (msVersions st)" using assms(1) by (simp add: memOk_def)
  obtain h c where g: "lruGet L p (msVersions st) = (h, c)" by (cases "lruGet L p (msVersions st)")
  note G = memVersions_get [OF cok g]
  have st': "st' = st\<lparr>msVersions := c\<rparr>"
    "r = (case h of None \<Rightarrow> None | Some vs \<Rightarrow> find (\<lambda>v. snHash v = hash) vs)"
    using assms(2) by (auto simp: memByHash_def g)
  have "r = find (\<lambda>v. snHash v = hash) (memVersions st p)"
    unfolding st'(2) G(3) [symmetric] by (cases h) auto
  then show ?thesis using G assms(1) by (simp add: st'(1) memOk_def)
qed

end

text \<open>The in-memory store keeps the store's contract over every such cache.\<close>

sublocale lru_cache \<subseteq> mem: snapshot_store "memStoreOps L xxh" xxh memVersions "memOk xxh" for xxh
proof
  fix s s' :: "'c mem_store" and p t h r
  show "memOk xxh s \<Longrightarrow> historyOk xxh p (memVersions s p)" by (simp add: memOk_def)
  show "memOk xxh s \<Longrightarrow> soHead (memStoreOps L xxh) p s = (r, s') \<Longrightarrow>
      r = (case memVersions s p of [] \<Rightarrow> None | v # _ \<Rightarrow> Some v) \<and> memVersions s' = memVersions s \<and> memOk xxh s'"
    unfolding memStoreOps_def store_ops.simps by (rule memHead_ok)
  show "memOk xxh s \<Longrightarrow> soByHash (memStoreOps L xxh) p h s = (r, s') \<Longrightarrow>
      r = find (\<lambda>v. snHash v = h) (memVersions s p) \<and> memVersions s' = memVersions s \<and> memOk xxh s'"
    unfolding memStoreOps_def store_ops.simps by (rule memByHash_ok)
  show "memOk xxh s \<Longrightarrow> soRecord (memStoreOps L xxh) p t s = (h, s') \<Longrightarrow>
      h = computeFileHash xxh t \<and> memOk xxh s' \<and> memVersions s' p \<noteq> [] \<and> snHash (hd (memVersions s' p)) = h
      \<and> (find (\<lambda>v. snHash v = h) (memVersions s p) = None \<longrightarrow> snText (hd (memVersions s' p)) = t)
      \<and> (\<forall>q. q \<noteq> p \<longrightarrow> memVersions s' q = memVersions s q \<or> memVersions s' q = [])"
    unfolding memStoreOps_def store_ops.simps by (rule memRecord_ok)
  show "memOk xxh s \<Longrightarrow> memVersions (soInvalidate (memStoreOps L xxh) p s) = (memVersions s)(p := [])
      \<and> memOk xxh (soInvalidate (memStoreOps L xxh) p s)"
    unfolding memStoreOps_def store_ops.simps by (rule memInvalidate_ok)
  show "memOk xxh s \<Longrightarrow> memVersions (soClear (memStoreOps L xxh) s) = (\<lambda>_. [])
      \<and> memOk xxh (soClear (memStoreOps L xxh) s)"
    unfolding memStoreOps_def store_ops.simps by (rule memClear_ok)
qed

section \<open>A cache that meets the contract\<close>

text \<open>
  The documented behaviour of the cache, as a list of entries from the most to the least recently
  used: \<open>get\<close> moves an entry to the front, \<open>set\<close> writes it there and drops what exceeds the bound.
\<close>

record recency =
  rcMax :: nat
  rcEntries :: "(jstring \<times> snapshot list) list"

definition recencyGet :: "jstring \<Rightarrow> recency \<Rightarrow> snapshot list option \<times> recency" where
  "recencyGet k c =
     (case map_of (rcEntries c) k of
        None \<Rightarrow> (None, c)
      | Some vs \<Rightarrow> (Some vs, c\<lparr>rcEntries := (k, vs) # mapDelete k (rcEntries c)\<rparr>))"

definition recencySet :: "jstring \<Rightarrow> snapshot list \<Rightarrow> recency \<Rightarrow> recency" where
  "recencySet k vs c = c\<lparr>rcEntries := take (rcMax c) ((k, vs) # mapDelete k (rcEntries c))\<rparr>"

definition recencyOps :: "recency lru_ops" where
  "recencyOps = \<lparr>lruNew = \<lambda>n. \<lparr>rcMax = n, rcEntries = []\<rparr>, lruGet = recencyGet, lruSet = recencySet,
     lruDelete = \<lambda>k c. c\<lparr>rcEntries := mapDelete k (rcEntries c)\<rparr>, lruClear = \<lambda>c. c\<lparr>rcEntries := []\<rparr>\<rparr>"

definition recencyView :: "recency \<Rightarrow> jstring \<Rightarrow> snapshot list option" where
  "recencyView c = map_of (rcEntries c)"

definition recencyOk :: "recency \<Rightarrow> bool" where
  "recencyOk c \<longleftrightarrow> 0 < rcMax c \<and> distinct (map fst (rcEntries c))"

lemma distinct_mapDelete: "distinct (map fst m) \<Longrightarrow> distinct (map fst (mapDelete k m))"
  by (simp add: mapDelete_def distinct_map_filter)

lemma mapDelete_fresh: "(k, b) \<notin> set (mapDelete k m)" "k \<notin> set (map fst (mapDelete k m))"
  by (auto simp: mapDelete_def)

lemma map_of_take:
  assumes "distinct (map fst m)"
  shows "map_of (take n m) k = map_of m k \<or> map_of (take n m) k = None"
proof (cases "map_of (take n m) k")
  case (Some v)
  then have "(k, v) \<in> set m" by (auto dest: map_of_SomeD in_set_takeD)
  then show ?thesis using assms Some by simp
qed simp

interpretation recencyCache: lru_cache recencyOps recencyView recencyOk
proof
  fix n :: nat and k k' v r and c c' :: recency
  show "0 < n \<Longrightarrow> recencyOk (lruNew recencyOps n) \<and> recencyView (lruNew recencyOps n) = (\<lambda>_. None)"
    by (simp add: recencyOps_def recencyOk_def recencyView_def fun_eq_iff)
  show "recencyOk c \<Longrightarrow> lruGet recencyOps k c = (r, c') \<Longrightarrow>
      r = recencyView c k \<and> recencyView c' = recencyView c \<and> recencyOk c'"
    by (auto simp: distinct_mapDelete mapDelete_fresh recencyOps_def recencyGet_def recencyView_def recencyOk_def fun_eq_iff split: option.splits)
  show "recencyOk c \<Longrightarrow> recencyView (lruSet recencyOps k v c) k = Some v \<and> recencyOk (lruSet recencyOps k v c)"
    using distinct_mapDelete [of "rcEntries c" k] mapDelete_fresh [of k "rcEntries c"]
    by (cases "rcMax c") (auto simp: recencyOps_def recencySet_def recencyView_def recencyOk_def
        simp flip: take_map intro!: distinct_take dest: in_set_takeD)
  show "recencyOk c \<Longrightarrow> k' \<noteq> k \<Longrightarrow> recencyView (lruSet recencyOps k v c) k' = recencyView c k'
      \<or> recencyView (lruSet recencyOps k v c) k' = None"
    using map_of_take [of "(k, v) # mapDelete k (rcEntries c)" "rcMax c" k']
      distinct_mapDelete [of "rcEntries c" k] mapDelete_fresh [of k "rcEntries c"]
    by (auto simp: recencyOps_def recencySet_def recencyView_def recencyOk_def)
  show "recencyOk c \<Longrightarrow> recencyView (lruDelete recencyOps k c) = (recencyView c)(k := None)
      \<and> recencyOk (lruDelete recencyOps k c)"
    using distinct_mapDelete by (auto simp: recencyOps_def recencyView_def recencyOk_def fun_eq_iff)
  show "recencyOk c \<Longrightarrow> recencyView (lruClear recencyOps c) = (\<lambda>_. None) \<and> recencyOk (lruClear recencyOps c)"
    by (auto simp: recencyOps_def recencyView_def recencyOk_def fun_eq_iff)
qed

section \<open>The contract of the in-memory store\<close>

text \<open>C4
  Over every cache that keeps its contract: recording a text returns the hash of the text as its tag, the
  tag resolves at once, to the head of its path, a version whose text hashes to it (the text itself when
  the tag was new); no path keeps more versions than the bound, one per tag; other paths keep theirs or
  are evicted whole.
\<close>

theorem memRecord_resolves:
  assumes "lru_cache L view cacheOk" and "lru_cache.memOk view cacheOk xxh st"
    and "memRecord L xxh path content st = (tag, st1)" and "memByHash L path tag st1 = (found, st2)"
  shows "tag = computeFileHash xxh content \<and> (\<exists>v. found = Some v \<and> fst (memHead L path st2) = Some v
      \<and> computeFileHash xxh (snText v) = tag \<and> (fst (memByHash L path tag st) = None \<longrightarrow> snText v = content))
    \<and> (\<forall>p. length (lru_cache.memVersions view st1 p) \<le> msMaxVersionsPerPath st
         \<and> distinct (map snHash (lru_cache.memVersions view st1 p))
         \<and> (p \<noteq> path \<longrightarrow> lru_cache.memVersions view st1 p \<in> {lru_cache.memVersions view st p, []}))"
proof -
  let ?versions = "lru_cache.memVersions view"
  note R = lru_cache.memRecord_ok [OF assms(1-3)]
  note B = lru_cache.memByHash_ok [OF assms(1) _ assms(4)]
  obtain v vs where v: "?versions st1 path = v # vs" using R by (cases "?versions st1 path") auto
  have found: "found = Some v" "?versions st2 = ?versions st1" "lru_cache.memOk view cacheOk xxh st2"
    using B R v by auto
  obtain r st3 where h: "memHead L path st2 = (r, st3)" by (cases "memHead L path st2")
  obtain r0 st0 where b: "memByHash L path tag st = (r0, st0)" by (cases "memByHash L path tag st")
  have head: "fst (memHead L path st2) = Some v"
    using lru_cache.memHead_ok [OF assms(1) found(3) h] found(2) v h by simp
  have old: "fst (memByHash L path tag st) = find (\<lambda>v. snHash v = tag) (?versions st path)"
    using lru_cache.memByHash_ok [OF assms(1,2) b] b by simp
  have ok: "historyOk xxh p (?versions st1 p)" "length (?versions st1 p) \<le> msMaxVersionsPerPath st1" for p
    using R lru_cache.memOk_def [OF assms(1)] by blast+
  have "computeFileHash xxh (snText v) = tag"
    using ok(1) [of path] v R by (simp add: historyOk_def)
  moreover have "msMaxVersionsPerPath st1 = msMaxVersionsPerPath st"
    using assms(3) by (auto simp: memRecord_def Let_def split: prod.splits option.splits)
  ultimately show ?thesis
    using R v found(1) head old ok by (auto simp: historyOk_def)
qed

theorem memRecord_resolves_witness:
  "fst (memByHash recencyOps (js ''f'') (computeFileHash (\<lambda>_. 0) (js ''x''))
     (snd (memRecord recencyOps (\<lambda>_. 0) (js ''f'') (js ''x'') (newMemStore recencyOps None None)))) \<noteq> None"
proof -
  let ?new = "newMemStore recencyOps None None"
  obtain tag st1 where r: "memRecord recencyOps (\<lambda>_. 0) (js ''f'') (js ''x'') ?new = (tag, st1)" by fastforce
  obtain found st2 where b: "memByHash recencyOps (js ''f'') tag st1 = (found, st2)" by fastforce
  have "recencyCache.memOk (\<lambda>_. 0) ?new" by (rule recencyCache.memOk_new) simp_all
  from memRecord_resolves [OF recencyCache.lru_cache_axioms this r b] r b show ?thesis by auto
qed

end
