(* ===== verification/Hl_Recovery.thy ===== *)
theory Hl_Recovery
  imports Hl_Apply_Facts Hl_Snapshots
begin

text \<open>
  packages/hashline/src/recovery.ts: replay of a stale edit against the snapshot its tag names,
  merged onto the live text by the third-party \<open>diff\<close> package (the argument \<open>D\<close>: \<open>structuredPatch\<close> with
  its context size, \<open>applyPatch\<close> with its fuzz factor, nothing when it refuses), or replayed directly
  when the anchored lines did not move. The snapshot store is the argument \<open>S\<close> and its state is passed
  along, since a lookup refreshes recency.
\<close>

record 'p diff_ops =
  dfStructuredPatch :: "nat \<Rightarrow> jstring \<Rightarrow> jstring \<Rightarrow> 'p"
  dfApplyPatch :: "nat \<Rightarrow> jstring \<Rightarrow> 'p \<Rightarrow> jstring option"

definition RECOVERY_FUZZ_FACTOR :: nat where "RECOVERY_FUZZ_FACTOR = 0"

record recovery_args =
  raPath :: jstring
  raCurrentText :: jstring
  raFileHash :: jstring
  raEdits :: "edit list"

record recovery_result =
  rrText :: jstring
  rrFirstChanged :: "nat option"
  rrWarnings :: "hl_warning list"

text \<open>\<open>xs[i]\<close>, undefined outside the array.\<close>

definition nthOpt :: "'a list \<Rightarrow> nat \<Rightarrow> 'a option" where
  "nthOpt xs i = (if i < length xs then Some (xs ! i) else None)"

definition findFirstChangedLine :: "jstring \<Rightarrow> jstring \<Rightarrow> nat option" where
  "findFirstChangedLine a b =
     (if a = b then None
      else let aLines = splitLines a; bLines = splitLines b in
        map_option Suc (find (\<lambda>i. nthOpt aLines i \<noteq> nthOpt bLines i)
          [0 ..< max (length aLines) (length bLines)]))"

definition applyEditsToSnapshot ::
  "'p diff_ops \<Rightarrow> jstring \<Rightarrow> jstring \<Rightarrow> edit list \<Rightarrow> hl_warning \<Rightarrow> recovery_result option" where
  "applyEditsToSnapshot D previousText currentText edits recoveryWarning =
     (case applyEdits previousText edits of
        Inl _ \<Rightarrow> None
      | Inr applied \<Rightarrow>
          if arText applied = previousText then None
          else (case dfApplyPatch D RECOVERY_FUZZ_FACTOR currentText
                       (dfStructuredPatch D 3 previousText (arText applied)) of
             None \<Rightarrow> None
           | Some merged \<Rightarrow>
               if merged = currentText then None
               else let firstChangedLine =
                      (case findFirstChangedLine currentText merged of
                         Some l \<Rightarrow> Some l | None \<Rightarrow> arFirstChanged applied);
                    hasNetChange = (firstChangedLine \<noteq> None);
                    warnings = (if hasNetChange then recoveryWarning # arWarnings applied else arWarnings applied)
                 in Some \<lparr>rrText = merged, rrFirstChanged = firstChangedLine, rrWarnings = warnings\<rparr>))"

definition collectAnchorLines :: "edit list \<Rightarrow> nat list" where
  "collectAnchorLines edits = concat (map getEditAnchors edits)"

definition verifyAnchorContent :: "jstring \<Rightarrow> jstring \<Rightarrow> edit list \<Rightarrow> bool" where
  "verifyAnchorContent previousText currentText edits =
     (let lns = collectAnchorLines edits in
      if length lns = 0 then True
      else let prev = splitLines previousText; curr = splitLines currentText in
        list_all (\<lambda>line. \<not> (line < 1 \<or> line - 1 \<ge> length prev \<or> line - 1 \<ge> length curr)
          \<and> prev ! (line - 1) = curr ! (line - 1)) lns)"

definition replaySessionChainOnCurrent ::
  "jstring \<Rightarrow> jstring \<Rightarrow> edit list \<Rightarrow> recovery_result option" where
  "replaySessionChainOnCurrent previousText currentText edits =
     (if length (splitLines previousText) \<noteq> length (splitLines currentText) then None
      else if \<not> verifyAnchorContent previousText currentText edits then None
      else (case applyEdits currentText edits of
              Inl _ \<Rightarrow> None
            | Inr applied \<Rightarrow>
                if arText applied = currentText then None
                else Some \<lparr>rrText = arText applied, rrFirstChanged = arFirstChanged applied,
                           rrWarnings = RecoverySessionReplay # arWarnings applied\<rparr>))"

definition isHeadSnapshot :: "snapshot option \<Rightarrow> snapshot \<Rightarrow> bool" where
  "isHeadSnapshot head s \<longleftrightarrow> head = Some s"

definition tryRecover ::
  "'s store_ops \<Rightarrow> 'p diff_ops \<Rightarrow> recovery_args \<Rightarrow> 's \<Rightarrow> recovery_result option \<times> 's" where
  "tryRecover S D args st =
     (case soByHash S (raPath args) (raFileHash args) st of
        (None, st1) \<Rightarrow> (None, st1)
      | (Some snap, st1) \<Rightarrow>
          (case soHead S (raPath args) st1 of (head, st2) \<Rightarrow>
            (let isHead = isHeadSnapshot head snap;
                 recoveryWarning = (if isHead then RecoveryExternal else RecoverySessionChain) in
             case applyEditsToSnapshot D (snText snap) (raCurrentText args) (raEdits args) recoveryWarning of
               Some merged \<Rightarrow> (Some merged, st2)
             | None \<Rightarrow>
                 if \<not> isHead
                 then (replaySessionChainOnCurrent (snText snap) (raCurrentText args) (raEdits args), st2)
                 else (None, st2))))"

section \<open>What a recovery result is\<close>

text \<open>Two texts that differ differ at the reported line and agree above it.\<close>

lemma findFirstChangedLine_spec:
  "a \<noteq> b \<Longrightarrow> \<exists>l. findFirstChangedLine a b = Some (Suc l)
     \<and> nthOpt (splitLines a) l \<noteq> nthOpt (splitLines b) l
     \<and> (\<forall>i < l. nthOpt (splitLines a) i = nthOpt (splitLines b) i)"
proof -
  assume "a \<noteq> b"
  let ?A = "splitLines a" and ?B = "splitLines b"
  let ?P = "\<lambda>i. nthOpt ?A i \<noteq> nthOpt ?B i" and ?m = "max (length ?A) (length ?B)"
  have "?A \<noteq> ?B" using \<open>a \<noteq> b\<close> by (simp add: inj_splitOn)
  have "\<exists>i < ?m. ?P i"
  proof (rule ccontr)
    assume "\<not> ?thesis"
    then have eq: "nthOpt ?A i = nthOpt ?B i" if "i < ?m" for i using that by blast
    have "length ?A = length ?B"
    proof (rule ccontr)
      assume "length ?A \<noteq> length ?B"
      then have "min (length ?A) (length ?B) < ?m" by auto
      from eq [OF this] \<open>length ?A \<noteq> length ?B\<close> show False by (auto simp: nthOpt_def min_def split: if_splits)
    qed
    moreover from this eq have "?A ! i = ?B ! i" if "i < length ?A" for i
      using that by (auto simp: nthOpt_def)
    ultimately show False using \<open>?A \<noteq> ?B\<close> by (simp add: list_eq_iff_nth_eq)
  qed
  then obtain i where "i \<in> set [0 ..< ?m]" "?P i" by auto
  then have "find ?P [0 ..< ?m] \<noteq> None" by (auto simp: find_None_iff)
  then obtain l where "find ?P [0 ..< ?m] = Some l" by blast
  moreover from this have "?P l \<and> (\<forall>j < l. \<not> ?P j)"
    unfolding find_Some_iff by auto
  ultimately show "\<exists>l. findFirstChangedLine a b = Some (Suc l)
     \<and> nthOpt (splitLines a) l \<noteq> nthOpt (splitLines b) l
     \<and> (\<forall>i < l. nthOpt (splitLines a) i = nthOpt (splitLines b) i)"
    using \<open>a \<noteq> b\<close> by (auto simp: findFirstChangedLine_def Let_def)
qed

lemma applyEditsToSnapshot_Some:
  assumes "applyEditsToSnapshot D prev cur edits w = Some res"
  shows "\<exists>applied. applyEdits prev edits = Inr applied \<and> arText applied \<noteq> prev
     \<and> dfApplyPatch D 0 cur (dfStructuredPatch D 3 prev (arText applied)) = Some (rrText res)
     \<and> rrText res \<noteq> cur \<and> rrWarnings res = w # arWarnings applied
     \<and> rrFirstChanged res = findFirstChangedLine cur (rrText res)"
proof -
  obtain applied merged where a: "applyEdits prev edits = Inr applied" "arText applied \<noteq> prev"
    "dfApplyPatch D 0 cur (dfStructuredPatch D 3 prev (arText applied)) = Some merged" "merged \<noteq> cur"
    and res: "rrText res = merged"
    using assms by (auto simp: applyEditsToSnapshot_def RECOVERY_FUZZ_FACTOR_def Let_def
        split: sum.splits option.splits if_splits)
  from a(4) findFirstChangedLine_spec [of cur merged] obtain l where
    "findFirstChangedLine cur merged = Some (Suc l)" by auto
  with assms a show ?thesis
    by (auto simp: applyEditsToSnapshot_def RECOVERY_FUZZ_FACTOR_def Let_def)
qed

text \<open>The direct replay only runs where every anchored line reads the same in both texts.\<close>

lemma replay_Some:
  assumes "replaySessionChainOnCurrent prev cur edits = Some res"
  shows "\<exists>applied. applyEdits cur edits = Inr applied \<and> rrText res = arText applied
     \<and> rrText res \<noteq> cur \<and> length (splitLines prev) = length (splitLines cur)
     \<and> rrWarnings res = RecoverySessionReplay # arWarnings applied
     \<and> rrFirstChanged res = arFirstChanged applied
     \<and> (\<forall>e \<in> set edits. \<forall>a \<in> set (getEditAnchors e).
          0 < a \<and> a \<le> length (splitLines cur) \<and> splitLines prev ! (a - 1) = splitLines cur ! (a - 1))"
proof -
  have v: "verifyAnchorContent prev cur edits" "length (splitLines prev) = length (splitLines cur)"
    using assms by (auto simp: replaySessionChainOnCurrent_def split: if_splits)
  have "0 < a \<and> a \<le> length (splitLines cur) \<and> splitLines prev ! (a - 1) = splitLines cur ! (a - 1)"
    if "e \<in> set edits" "a \<in> set (getEditAnchors e)" for e a
  proof -
    have "a \<in> set (collectAnchorLines edits)" using that by (auto simp: collectAnchorLines_def)
    then show ?thesis
      using v by (auto simp: verifyAnchorContent_def Let_def list_all_iff split: if_splits)
  qed
  then show ?thesis
    using assms v by (auto simp: replaySessionChainOnCurrent_def split: sum.splits if_splits)
qed

section \<open>Recovery over a store\<close>

context snapshot_store
begin

lemma tryRecover_store:
  assumes "wf st" and "tryRecover S D args st = (r, st')"
  shows "wf st' \<and> versions st' = versions st"
proof -
  obtain sn st1 where b: "soByHash S (raPath args) (raFileHash args) st = (sn, st1)"
    by (cases "soByHash S (raPath args) (raFileHash args) st")
  obtain h st2 where hd: "soHead S (raPath args) st1 = (h, st2)" by (cases "soHead S (raPath args) st1")
  have 1: "versions st1 = versions st \<and> wf st1" using byHash [OF assms(1) b] by blast
  have 2: "versions st2 = versions st1 \<and> wf st2" using head [OF _ hd] 1 by blast
  have "st' = st1 \<or> st' = st2"
    using assms(2) b hd by (auto simp: tryRecover_def Let_def split: option.splits if_splits)
  with 1 2 show ?thesis by auto
qed

text \<open>A recovered text comes from the snapshot that the tag names.\<close>

lemma tryRecover_Some:
  assumes "wf st" and "tryRecover S D args st = (Some res, st')"
  shows "\<exists>snap \<in> set (versions st (raPath args)). snHash snap = raFileHash args
     \<and> computeFileHash xxh (snText snap) = raFileHash args \<and> rrText res \<noteq> raCurrentText args
     \<and> ((\<exists>w \<in> {RecoveryExternal, RecoverySessionChain}.
           applyEditsToSnapshot D (snText snap) (raCurrentText args) (raEdits args) w = Some res)
        \<or> (snap \<noteq> hd (versions st (raPath args))
           \<and> replaySessionChainOnCurrent (snText snap) (raCurrentText args) (raEdits args) = Some res))"
proof -
  let ?vs = "versions st (raPath args)"
  obtain sn st1 where b: "soByHash S (raPath args) (raFileHash args) st = (sn, st1)"
    by (cases "soByHash S (raPath args) (raFileHash args) st")
  with assms(2) obtain snap where sn: "sn = Some snap" by (cases sn) (auto simp: tryRecover_def)
  obtain h st2 where hd: "soHead S (raPath args) st1 = (h, st2)" by (cases "soHead S (raPath args) st1")
  have v1: "versions st1 = versions st" "wf st1" using byHash [OF assms(1) b] by blast+
  have find: "find (\<lambda>v. snHash v = raFileHash args) ?vs = Some snap" using byHash [OF assms(1) b] sn by simp
  then have mem: "snap \<in> set ?vs" "snHash snap = raFileHash args" by (auto simp: find_Some_iff)
  have hash: "computeFileHash xxh (snText snap) = raFileHash args"
    using mem history [OF assms(1), of "raPath args"] by (auto simp: historyOk_def list_all_iff)
  have h: "h = Some (hd ?vs)" using head [OF v1(2) hd] v1(1) mem(1) by (cases ?vs) auto
  have cases: "(\<exists>w \<in> {RecoveryExternal, RecoverySessionChain}.
           applyEditsToSnapshot D (snText snap) (raCurrentText args) (raEdits args) w = Some res)
        \<or> (snap \<noteq> hd ?vs
           \<and> replaySessionChainOnCurrent (snText snap) (raCurrentText args) (raEdits args) = Some res)"
    using assms(2) b sn hd h
    by (auto simp: tryRecover_def Let_def isHeadSnapshot_def split: option.splits if_splits)
  then have "rrText res \<noteq> raCurrentText args"
    using applyEditsToSnapshot_Some replay_Some by blast
  with mem hash cases show ?thesis by blast
qed

end

section \<open>The contract of recovery\<close>

text \<open>C3
  A recovered edit is never a guess: it starts from a recorded version of the file whose text hashes to
  the section's tag, it changes the live text, and it is either the edit's diff against that version,
  applied to the live text with no fuzz and with the exact first changed line, or the edit replayed on a live
  text of the same length in which every anchored line reads as in that version. The store is unchanged.
\<close>

theorem tryRecover_sound:
  assumes "snapshot_store S xxh versions storeOk" and "storeOk st" and "tryRecover S D args st = (Some res, st')"
  shows "versions st' = versions st \<and> storeOk st' \<and> rrText res \<noteq> raCurrentText args
    \<and> (\<exists>snap \<in> set (versions st (raPath args)). computeFileHash xxh (snText snap) = raFileHash args
      \<and> ((\<exists>applied l. applyEdits (snText snap) (raEdits args) = Inr applied
            \<and> dfApplyPatch D 0 (raCurrentText args) (dfStructuredPatch D 3 (snText snap) (arText applied)) = Some (rrText res)
            \<and> rrFirstChanged res = Some (Suc l)
            \<and> nthOpt (splitLines (raCurrentText args)) l \<noteq> nthOpt (splitLines (rrText res)) l
            \<and> (\<forall>i < l. nthOpt (splitLines (raCurrentText args)) i = nthOpt (splitLines (rrText res)) i))
        \<or> (\<exists>applied. applyEdits (raCurrentText args) (raEdits args) = Inr applied \<and> rrText res = arText applied
            \<and> length (splitLines (snText snap)) = length (splitLines (raCurrentText args))
            \<and> (\<forall>e \<in> set (raEdits args). \<forall>a \<in> set (getEditAnchors e). 0 < a
                 \<and> a \<le> length (splitLines (raCurrentText args))
                 \<and> splitLines (snText snap) ! (a - 1) = splitLines (raCurrentText args) ! (a - 1)))))"
proof -
  note kept = snapshot_store.tryRecover_store [OF assms]
  from snapshot_store.tryRecover_Some [OF assms] obtain snap where snap: "snap \<in> set (versions st (raPath args))"
    "computeFileHash xxh (snText snap) = raFileHash args" "rrText res \<noteq> raCurrentText args"
    "(\<exists>w. applyEditsToSnapshot D (snText snap) (raCurrentText args) (raEdits args) w = Some res)
      \<or> replaySessionChainOnCurrent (snText snap) (raCurrentText args) (raEdits args) = Some res"
    by blast
  note diff = findFirstChangedLine_spec [OF snap(3) [symmetric]]
  from snap(4) show ?thesis
  proof
    assume "\<exists>w. applyEditsToSnapshot D (snText snap) (raCurrentText args) (raEdits args) w = Some res"
    then show ?thesis using kept snap(1-3) diff applyEditsToSnapshot_Some by (metis (no_types, lifting))
  next
    assume "replaySessionChainOnCurrent (snText snap) (raCurrentText args) (raEdits args) = Some res"
    then show ?thesis using kept snap(1-3) replay_Some by (metis (no_types, lifting))
  qed
qed

text \<open>A history of two versions, a tag that names the older one, and a live text that no longer matches it.\<close>

definition sampleHistory :: "recency mem_store" where
  "sampleHistory = \<lparr>msVersions = \<lparr>rcMax = 30, rcEntries = [(js ''f'',
     [\<lparr>snPath = js ''f'', snText = js ''z'', snHash = js ''0001''\<rparr>,
      \<lparr>snPath = js ''f'', snText = js ''a'' @ 10 # js ''b'', snHash = js ''0003''\<rparr>])]\<rparr>, msMaxVersionsPerPath = 4\<rparr>"

definition sampleArgs :: recovery_args where
  "sampleArgs = \<lparr>raPath = js ''f'', raCurrentText = js ''a'' @ 10 # js ''c'', raFileHash = js ''0003'',
     raEdits = [DeleteEdit 1 1 0]\<rparr>"

definition lengthHash :: "jstring \<Rightarrow> 32 word" where
  "lengthHash t = of_nat (length t)"

definition noDiff :: "unit diff_ops" where
  "noDiff = \<lparr>dfStructuredPatch = \<lambda>_ _ _. (), dfApplyPatch = \<lambda>_ _ _. None\<rparr>"

lemma lengthHash_tags:
  "computeFileHash lengthHash (js ''z'') = js ''0001''" "computeFileHash lengthHash (js ''a'' @ 10 # js ''b'') = js ''0003''"
  by code_simp+

lemma sampleHistory_ok: "recencyCache.memOk lengthHash sampleHistory"
  using lengthHash_tags
  by (auto simp: recencyCache.memOk_def recencyCache.memVersions_def sampleHistory_def recencyOk_def recencyView_def
      historyOk_def)

lemma sample_recovery:
  "tryRecover (memStoreOps recencyOps lengthHash) noDiff sampleArgs sampleHistory =
     (Some \<lparr>rrText = js ''c'', rrFirstChanged = Some 1, rrWarnings = [RecoverySessionReplay]\<rparr>, sampleHistory)"
  by code_simp

theorem tryRecover_sound_witness:
  "recencyCache.memVersions sampleHistory (js ''f'') \<noteq> [] \<and> js ''c'' \<noteq> raCurrentText sampleArgs"
  using tryRecover_sound [OF recencyCache.mem.snapshot_store_axioms sampleHistory_ok sample_recovery]
  by (auto simp: sampleArgs_def)

end
