(* ===== verification/Js_State.thy ===== *)
theory Js_State
  imports Js_Base
begin

text \<open>
  Stateful code that may throw: a computation maps a state to a result or an error and the state it
  leaves, also when it throws. An \<open>await\<close> is the sequencing of two such computations.
\<close>

type_synonym ('e, 'a, 's) comp = "'s \<Rightarrow> ('e + 'a) \<times> 's"

definition returnSE :: "'a \<Rightarrow> ('e, 'a, 's) comp" where
  "returnSE x s = (Inr x, s)"

definition throwSE :: "'e \<Rightarrow> ('e, 'a, 's) comp" where
  "throwSE e s = (Inl e, s)"

definition bindSE :: "('e, 'a, 's) comp \<Rightarrow> ('a \<Rightarrow> ('e, 'b, 's) comp) \<Rightarrow> ('e, 'b, 's) comp" where
  "bindSE m f s = (case m s of (Inl e, s') \<Rightarrow> (Inl e, s') | (Inr x, s') \<Rightarrow> f x s')"

text \<open>A pure step that may throw.\<close>

definition liftSE :: "'e + 'a \<Rightarrow> ('e, 'a, 's) comp" where
  "liftSE r s = (r, s)"

text \<open>A loop that collects results and stops at the first error.\<close>

fun mapSE :: "('x \<Rightarrow> ('e, 'a, 's) comp) \<Rightarrow> 'x list \<Rightarrow> ('e, 'a list, 's) comp" where
  "mapSE f [] s = (Inr [], s)"
| "mapSE f (x # xs) s =
     (case f x s of
        (Inl e, s') \<Rightarrow> (Inl e, s')
      | (Inr y, s') \<Rightarrow>
          (case mapSE f xs s' of (Inl e, s'') \<Rightarrow> (Inl e, s'') | (Inr ys, s'') \<Rightarrow> (Inr (y # ys), s'')))"

lemma SE_simps [simp]:
  "returnSE x s = (Inr x, s)" "throwSE e s = (Inl e, s)" "liftSE r s = (r, s)"
  by (simp_all add: returnSE_def throwSE_def liftSE_def)

lemma bindSE_Inr_iff:
  "bindSE m f s = (Inr y, s'') \<longleftrightarrow> (\<exists>x s'. m s = (Inr x, s') \<and> f x s' = (Inr y, s''))"
  by (auto simp: bindSE_def split: prod.splits sum.splits)

lemma bindSE_Inl_iff:
  "bindSE m f s = (Inl e, s'') \<longleftrightarrow>
     m s = (Inl e, s'') \<or> (\<exists>x s'. m s = (Inr x, s') \<and> f x s' = (Inl e, s''))"
  by (auto simp: bindSE_def split: prod.splits sum.splits)

lemma bindSE_eval:
  "m s = (Inr x, s') \<Longrightarrow> bindSE m f s = f x s'" "m s = (Inl e, s') \<Longrightarrow> bindSE m f s = (Inl e, s')"
  by (simp_all add: bindSE_def)

text \<open>A relation between states that every step keeps holds across a computation.\<close>

definition keeps :: "('s \<Rightarrow> 's \<Rightarrow> bool) \<Rightarrow> ('e, 'a, 's) comp \<Rightarrow> bool" where
  "keeps R m \<longleftrightarrow> (\<forall>s. R s (snd (m s)))"

lemma keepsD: "keeps R m \<Longrightarrow> m s = (r, s') \<Longrightarrow> R s s'"
  unfolding keeps_def by (metis snd_conv)

lemma keeps_pure [intro]:
  "reflp R \<Longrightarrow> keeps R (returnSE x)" "reflp R \<Longrightarrow> keeps R (throwSE e)" "reflp R \<Longrightarrow> keeps R (liftSE r)"
  by (auto simp: keeps_def reflp_def)

lemma keeps_bindSE [intro]:
  assumes "transp R" and "keeps R m" and "\<And>x. keeps R (f x)"
  shows "keeps R (bindSE m f)"
  unfolding keeps_def
proof
  fix s
  obtain r s' where m: "m s = (r, s')" by (cases "m s")
  have R: "R s s'" by (rule keepsD [OF assms(2) m])
  show "R s (snd (bindSE m f s))"
  proof (cases r)
    case (Inl e)
    then show ?thesis using m R by (simp add: bindSE_def)
  next
    case (Inr x)
    then have "R s' (snd (f x s'))" using assms(3) by (simp add: keeps_def)
    then show ?thesis using m R Inr assms(1) by (auto simp: bindSE_def dest: transpD)
  qed
qed

lemma keeps_mapSE [intro]:
  assumes "reflp R" and "transp R" and "\<And>x. keeps R (f x)"
  shows "keeps R (mapSE f xs)"
proof -
  have "R s (snd (mapSE f xs s))" for s
  proof (induction xs arbitrary: s)
    case Nil
    then show ?case using assms(1) by (simp add: reflp_def)
  next
    case (Cons x xs)
    obtain r s' where m: "f x s = (r, s')" by (cases "f x s")
    have "R s s'" by (rule keepsD [OF assms(3) m])
    then show ?case using Cons [of s'] m assms(2)
      by (auto simp: transp_def split: sum.split prod.splits)
  qed
  then show ?thesis by (simp add: keeps_def)
qed

lemma mapSE_Inr_length: "mapSE f xs s = (Inr ys, s') \<Longrightarrow> length ys = length xs"
  by (induction xs arbitrary: s ys) (auto split: prod.splits sum.splits)

end
