(* ===== verification/Hl_Fs.thy ===== *)
theory Hl_Fs
  imports Hl_Types Js_State
begin

text \<open>
  packages/hashline/src/fs.ts: the storage seam of the patcher. The abstract class \<open>Filesystem\<close> is the
  record \<open>fs_ops\<close> over a state of the backend; \<open>InMemoryFilesystem\<close> is its instance on a map, and
  \<open>NodeFilesystem\<close> its instance on the file API of the runtime (the argument \<open>B\<close>) and on \<open>path.resolve\<close>.
  Two locales state what the patcher's guarantees need of a backend.
\<close>

record 'f fs_ops =
  fsReadText :: "jstring \<Rightarrow> (fs_error, jstring, 'f) comp"
  fsPreflightWrite :: "jstring \<Rightarrow> (fs_error, unit, 'f) comp"
  fsWriteText :: "jstring \<Rightarrow> jstring \<Rightarrow> (fs_error, jstring, 'f) comp"
  fsExists :: "jstring \<Rightarrow> (fs_error, bool, 'f) comp"
  fsCanonicalPath :: "jstring \<Rightarrow> jstring"

fun isNotFound :: "fs_error \<Rightarrow> bool" where
  "isNotFound (NotFound _) = True"
| "isNotFound (OtherFsError _) = False"

section \<open>The default methods of the abstract class\<close>

definition defaultPreflightWrite :: "jstring \<Rightarrow> (fs_error, unit, 'f) comp" where
  "defaultPreflightWrite path = returnSE ()"

definition defaultExists ::
  "(jstring \<Rightarrow> (fs_error, jstring, 'f) comp) \<Rightarrow> jstring \<Rightarrow> (fs_error, bool, 'f) comp" where
  "defaultExists readText path f =
     (case readText path f of
        (Inr _, f') \<Rightarrow> (Inr True, f')
      | (Inl e, f') \<Rightarrow> if isNotFound e then (Inr False, f') else (Inl e, f'))"

definition defaultCanonicalPath :: "jstring \<Rightarrow> jstring" where
  "defaultCanonicalPath path = path"

section \<open>The in-memory backend\<close>

type_synonym memory_fs = "(jstring, jstring) jsmap"

definition newMemoryFs :: "(jstring \<times> jstring) list \<Rightarrow> memory_fs" where
  "newMemoryFs initial = fold (\<lambda>(path, content). mapSet path content) initial []"

definition memoryReadText :: "jstring \<Rightarrow> (fs_error, jstring, memory_fs) comp" where
  "memoryReadText path files =
     (case mapGet files path of None \<Rightarrow> (Inl (NotFound path), files) | Some content \<Rightarrow> (Inr content, files))"

definition memoryWriteText :: "jstring \<Rightarrow> jstring \<Rightarrow> (fs_error, jstring, memory_fs) comp" where
  "memoryWriteText path content files = (Inr content, mapSet path content files)"

definition memoryExists :: "jstring \<Rightarrow> (fs_error, bool, memory_fs) comp" where
  "memoryExists path files = (Inr (mapHas files path), files)"

definition memorySet :: "jstring \<Rightarrow> jstring \<Rightarrow> memory_fs \<Rightarrow> memory_fs" where
  "memorySet path content files = mapSet path content files"

definition memoryGet :: "jstring \<Rightarrow> memory_fs \<Rightarrow> jstring option" where
  "memoryGet path files = mapGet files path"

definition memoryDelete :: "jstring \<Rightarrow> memory_fs \<Rightarrow> bool \<times> memory_fs" where
  "memoryDelete path files = (mapHas files path, mapDelete path files)"

definition memoryClear :: "memory_fs \<Rightarrow> memory_fs" where
  "memoryClear files = []"

definition memoryEntries :: "memory_fs \<Rightarrow> (jstring \<times> jstring) list" where
  "memoryEntries files = files"

definition memoryFsOps :: "memory_fs fs_ops" where
  "memoryFsOps = \<lparr>fsReadText = memoryReadText, fsPreflightWrite = defaultPreflightWrite,
     fsWriteText = memoryWriteText, fsExists = memoryExists, fsCanonicalPath = defaultCanonicalPath\<rparr>"

section \<open>The disk backend\<close>

record 'd bun_ops =
  bunExists :: "jstring \<Rightarrow> 'd \<Rightarrow> bool \<times> 'd"
  bunText :: "jstring \<Rightarrow> (fs_error, jstring, 'd) comp"
  bunWrite :: "jstring \<Rightarrow> jstring \<Rightarrow> (fs_error, unit, 'd) comp"

definition nodeReadText :: "'d bun_ops \<Rightarrow> jstring \<Rightarrow> (fs_error, jstring, 'd) comp" where
  "nodeReadText B path d =
     (case bunExists B path d of (found, d') \<Rightarrow> if \<not> found then (Inl (NotFound path), d') else bunText B path d')"

definition nodeWriteText :: "'d bun_ops \<Rightarrow> jstring \<Rightarrow> jstring \<Rightarrow> (fs_error, jstring, 'd) comp" where
  "nodeWriteText B path content = bindSE (bunWrite B path content) (\<lambda>_. returnSE content)"

definition nodeExists :: "'d bun_ops \<Rightarrow> jstring \<Rightarrow> (fs_error, bool, 'd) comp" where
  "nodeExists B path d = (case bunExists B path d of (found, d') \<Rightarrow> (Inr found, d'))"

definition nodeFsOps :: "'d bun_ops \<Rightarrow> (jstring \<Rightarrow> jstring) \<Rightarrow> 'd fs_ops" where
  "nodeFsOps B pathResolve = \<lparr>fsReadText = nodeReadText B, fsPreflightWrite = defaultPreflightWrite,
     fsWriteText = nodeWriteText B, fsExists = nodeExists B, fsCanonicalPath = pathResolve\<rparr>"

section \<open>What the patcher needs of a backend\<close>

text \<open>Reading and the preflight leave the files as they are.\<close>

locale filesystem =
  fixes F :: "'f fs_ops" and contents :: "'f \<Rightarrow> jstring \<Rightarrow> jstring option"
  assumes read_quiet: "fsReadText F p f = (r, f') \<Longrightarrow> contents f' = contents f"
    and preflight_quiet: "fsPreflightWrite F p f = (u, f') \<Longrightarrow> contents f' = contents f"

text \<open>Moreover a read finds what is stored, and a write stores it and succeeds.\<close>

locale reliable_filesystem = filesystem +
  assumes read_stored: "fsReadText F p f = (r, f') \<Longrightarrow>
      r = (case contents f p of None \<Rightarrow> Inl (NotFound p) | Some t \<Rightarrow> Inr t)"
    and write_stores: "fsWriteText F p t f = (r, f') \<Longrightarrow> r = Inr t \<and> contents f' = (contents f)(p \<mapsto> t)"

lemma memoryFs_reliable: "reliable_filesystem memoryFsOps mapGet"
proof
  fix p t r u and f f' :: memory_fs
  show "fsReadText memoryFsOps p f = (r, f') \<Longrightarrow> mapGet f' = mapGet f"
    by (auto simp: memoryFsOps_def memoryReadText_def split: option.splits)
  show "fsPreflightWrite memoryFsOps p f = (u, f') \<Longrightarrow> mapGet f' = mapGet f"
    by (auto simp: memoryFsOps_def defaultPreflightWrite_def)
  show "fsReadText memoryFsOps p f = (r, f') \<Longrightarrow>
      r = (case mapGet f p of None \<Rightarrow> Inl (NotFound p) | Some t \<Rightarrow> Inr t)"
    by (auto simp: memoryFsOps_def memoryReadText_def split: option.splits)
  show "fsWriteText memoryFsOps p t f = (r, f') \<Longrightarrow> r = Inr t \<and> mapGet f' = (mapGet f)(p \<mapsto> t)"
    by (auto simp: memoryFsOps_def memoryWriteText_def fun_eq_iff)
qed

interpretation memoryFs: reliable_filesystem memoryFsOps mapGet
  by (rule memoryFs_reliable)

end
