(* ===== verification/Hl_Patcher.thy ===== *)
theory Hl_Patcher
  imports Hl_Input Hl_Recovery Hl_Fs
begin

text \<open>
  packages/hashline/src/patcher.ts: the orchestrator. The fields of the class are the record \<open>patcher\<close>
  (backend, snapshot store, merge package, block resolver, hash function); the state is the backend's
  and the store's. \<open>prepare\<close> reads, validates and applies in memory; \<open>commit\<close> writes and records. The
  awaits of a call run in sequence.
\<close>

record ('f, 's, 'p) patcher =
  paFs :: "'f fs_ops"
  paSnapshots :: "'s store_ops"
  paDiff :: "'p diff_ops"
  paBlockResolver :: "block_resolver option"
  paXxh :: "jstring \<Rightarrow> 32 word"

record ('f, 's) world =
  wdFs :: 'f
  wdStore :: 's

type_synonym ('a, 'f, 's) patcher_comp = "(hl_error, 'a, ('f, 's) world) comp"

datatype section_op = OpCreate | OpUpdate | OpNoop

record section_result =
  srPath :: jstring
  srCanonicalPath :: jstring
  srOp :: section_op
  srBefore :: jstring
  srAfter :: jstring
  srPersisted :: jstring
  srWritten :: jstring
  srFileHash :: jstring
  srHeader :: jstring
  srFirstChanged :: "nat option"
  srWarnings :: "hl_warning list"

record prepared_section =
  prSection :: raw_section
  prCanonicalPath :: jstring
  prExists :: bool
  prRawContent :: jstring
  prBom :: jstring
  prLineEnding :: line_ending
  prNormalized :: jstring
  prApplyResult :: apply_result
  prParseWarnings :: "hl_warning list"

definition isNoop :: "prepared_section \<Rightarrow> bool" where
  "isNoop p \<longleftrightarrow> arText (prApplyResult p) = prNormalized p"

definition assertSectionHashPresent :: "jstring \<Rightarrow> jstring option \<Rightarrow> hl_error + unit" where
  "assertSectionHashPresent sectionPath fileHash =
     (if fileHash \<noteq> None then Inr () else Inl (MissingSnapshotTag sectionPath))"

definition recoveryToApplyResult :: "recovery_result \<Rightarrow> apply_result" where
  "recoveryToApplyResult r =
     \<lparr>arText = rrText r, arFirstChanged = rrFirstChanged r, arWarnings = rrWarnings r\<rparr>"

definition mergeWarnings :: "hl_warning list option list \<Rightarrow> hl_warning list" where
  "mergeWarnings sources = concat (map (\<lambda>source. case source of None \<Rightarrow> [] | Some ws \<Rightarrow> ws) sources)"

fun uniqueLoop :: "prepared_section list \<Rightarrow> (jstring, jstring) jsmap \<Rightarrow> hl_error + unit" where
  "uniqueLoop [] seen = Inr ()"
| "uniqueLoop (entry # entries) seen =
     (case mapGet seen (prCanonicalPath entry) of
        Some previous \<Rightarrow> Inl (DuplicateTarget previous (secPath (prSection entry)))
      | None \<Rightarrow> uniqueLoop entries (mapSet (prCanonicalPath entry) (secPath (prSection entry)) seen))"

definition assertUniqueCanonicalPaths :: "prepared_section list \<Rightarrow> hl_error + unit" where
  "assertUniqueCanonicalPaths prepared = uniqueLoop prepared []"

fun assertChanges :: "prepared_section list \<Rightarrow> hl_error + unit" where
  "assertChanges [] = Inr ()"
| "assertChanges (entry # entries) =
     (if isNoop entry then Inl (NoChanges (secPath (prSection entry))) else assertChanges entries)"

section \<open>Backend and store calls on the world\<close>

definition onFs :: "(fs_error, 'a, 'f) comp \<Rightarrow> ('a, 'f, 's) patcher_comp" where
  "onFs m w = (case m (wdFs w) of
      (Inl e, f) \<Rightarrow> (Inl (FsFailure e), w\<lparr>wdFs := f\<rparr>)
    | (Inr x, f) \<Rightarrow> (Inr x, w\<lparr>wdFs := f\<rparr>))"

definition onStore :: "('s \<Rightarrow> 'a \<times> 's) \<Rightarrow> ('a, 'f, 's) patcher_comp" where
  "onStore m w = (case m (wdStore w) of (x, s) \<Rightarrow> (Inr x, w\<lparr>wdStore := s\<rparr>))"

definition tryRead :: "('f, 's, 'p) patcher \<Rightarrow> jstring \<Rightarrow> (bool \<times> jstring, 'f, 's) patcher_comp" where
  "tryRead E path w =
     (case fsReadText (paFs E) path (wdFs w) of
        (Inr content, f) \<Rightarrow> (Inr (True, content), w\<lparr>wdFs := f\<rparr>)
      | (Inl e, f) \<Rightarrow>
          if isNotFound e then (Inr (False, []), w\<lparr>wdFs := f\<rparr>)
          else (Inl (FsFailure e), w\<lparr>wdFs := f\<rparr>))"

definition recordFullSnapshot ::
  "('f, 's, 'p) patcher \<Rightarrow> jstring \<Rightarrow> jstring \<Rightarrow> (jstring, 'f, 's) patcher_comp" where
  "recordFullSnapshot E canonicalPath normalized =
     onStore (soRecord (paSnapshots E) canonicalPath normalized)"

definition throwMismatch ::
  "('f, 's, 'p) patcher \<Rightarrow> raw_section \<Rightarrow> jstring \<Rightarrow> jstring \<Rightarrow> jstring \<Rightarrow> bool \<Rightarrow> ('a, 'f, 's) patcher_comp" where
  "throwMismatch E sec canonicalPath normalized expected hashRecognized =
     bindSE (recordFullSnapshot E canonicalPath normalized) (\<lambda>actualFileHash.
       bindSE (liftSE (sectionParse sec)) (\<lambda>(edits, _).
         throwSE (MismatchError \<lparr>mmPath = Some (secPath sec), mmExpected = expected, mmActual = actualFileHash,
           mmFileLines = splitLines normalized, mmAnchorLines = Some (sectionAnchorLines edits),
           mmRecognized = Some hashRecognized\<rparr>)))"

section \<open>Applying with recovery\<close>

definition resolveForApply ::
  "('f, 's, 'p) patcher \<Rightarrow> raw_section \<Rightarrow> jstring \<Rightarrow> jstring option \<Rightarrow> bool \<Rightarrow> jstring \<Rightarrow> edit list
     \<Rightarrow> (edit list, 'f, 's) patcher_comp" where
  "resolveForApply E sec canonicalPath expected liveMatches normalized edits =
     (if \<not> hasBlockEdit edits then returnSE edits
      else bindSE (case expected of
             None \<Rightarrow> returnSE (Some normalized)
           | Some h \<Rightarrow>
               if liveMatches then returnSE (Some normalized)
               else bindSE (onStore (soByHash (paSnapshots E) canonicalPath h))
                      (\<lambda>snap. returnSE (map_option snText snap)))
        (\<lambda>baseText. case baseText of
             None \<Rightarrow> throwMismatch E sec canonicalPath normalized
                       (case expected of None \<Rightarrow> [] | Some h \<Rightarrow> h) False
           | Some base \<Rightarrow>
               liftSE (resolveBlockEdits edits base (secPath sec) (paBlockResolver E) False)))"

definition applyWithRecovery ::
  "('f, 's, 'p) patcher \<Rightarrow> raw_section \<Rightarrow> jstring \<Rightarrow> bool \<Rightarrow> jstring \<Rightarrow> edit list
     \<Rightarrow> (apply_result, 'f, 's) patcher_comp" where
  "applyWithRecovery E sec canonicalPath exist normalized edits =
     (let expected = (if exist then secHash sec else None);
          liveMatches = (case expected of None \<Rightarrow> False
             | Some h \<Rightarrow> computeFileHash (paXxh E) normalized = h)
      in bindSE (resolveForApply E sec canonicalPath expected liveMatches normalized edits) (\<lambda>resolved.
        (case expected of
           None \<Rightarrow> liftSE (applyEdits normalized resolved)
         | Some h \<Rightarrow>
             if liveMatches then liftSE (applyEdits normalized resolved)
             else if \<not> hasAnchorScopedEdit resolved then
               bindSE (liftSE (applyEdits normalized resolved))
                 (\<lambda>result. returnSE (result\<lparr>arWarnings := HeadtailDrift # arWarnings result\<rparr>))
             else bindSE (onStore (tryRecover (paSnapshots E) (paDiff E)
                    \<lparr>raPath = canonicalPath, raCurrentText = normalized, raFileHash = h, raEdits = resolved\<rparr>))
               (\<lambda>recovered. case recovered of
                  Some r \<Rightarrow> returnSE (recoveryToApplyResult r)
                | None \<Rightarrow>
                    bindSE (onStore (soByHash (paSnapshots E) canonicalPath h))
                      (\<lambda>snap. throwMismatch E sec canonicalPath normalized h (snap \<noteq> None))))))"

section \<open>Prepare and commit\<close>

definition prepare ::
  "('f, 's, 'p) patcher \<Rightarrow> raw_section \<Rightarrow> (prepared_section, 'f, 's) patcher_comp" where
  "prepare E sec =
     bindSE (liftSE (sectionParse sec)) (\<lambda>(edits, parseWarnings).
     bindSE (liftSE (assertSectionHashPresent (secPath sec) (secHash sec))) (\<lambda>_.
     (let canonicalPath = fsCanonicalPath (paFs E) (secPath sec) in
      bindSE (onFs (fsPreflightWrite (paFs E) (secPath sec))) (\<lambda>_.
      bindSE (tryRead E (secPath sec)) (\<lambda>(exist, rawContent).
        if \<not> exist then throwSE (FileNotFound (secPath sec))
        else
          (let stripped = stripBom rawContent;
               lineEnding = detectLineEnding (bomText stripped);
               normalized = normalizeToLF (bomText stripped)
           in bindSE (applyWithRecovery E sec canonicalPath exist normalized edits) (\<lambda>applyResult.
                returnSE \<lparr>prSection = sec, prCanonicalPath = canonicalPath, prExists = exist,
                  prRawContent = rawContent, prBom = bomBom stripped, prLineEnding = lineEnding,
                  prNormalized = normalized, prApplyResult = applyResult,
                  prParseWarnings = parseWarnings\<rparr>)))))))"

definition commit ::
  "('f, 's, 'p) patcher \<Rightarrow> prepared_section \<Rightarrow> (section_result, 'f, 's) patcher_comp" where
  "commit E p =
     (let path = secPath (prSection p); after = arText (prApplyResult p);
          warnings = mergeWarnings [Some (prParseWarnings p), Some (arWarnings (prApplyResult p))] in
      if after = prNormalized p then
        bindSE (recordFullSnapshot E (prCanonicalPath p) (prNormalized p)) (\<lambda>hash.
          returnSE \<lparr>srPath = path, srCanonicalPath = prCanonicalPath p, srOp = OpNoop,
            srBefore = prNormalized p, srAfter = prNormalized p, srPersisted = prRawContent p,
            srWritten = prRawContent p, srFileHash = hash, srHeader = formatHashlineHeader path hash,
            srFirstChanged = None, srWarnings = warnings\<rparr>)
      else
        (let persisted = prBom p @ restoreLineEndings after (prLineEnding p) in
         bindSE (onFs (fsWriteText (paFs E) path persisted)) (\<lambda>written.
         bindSE (recordFullSnapshot E (prCanonicalPath p) after) (\<lambda>fileHash.
           returnSE \<lparr>srPath = path, srCanonicalPath = prCanonicalPath p,
             srOp = (if prExists p then OpUpdate else OpCreate),
             srBefore = prNormalized p, srAfter = after, srPersisted = persisted, srWritten = written,
             srFileHash = fileHash, srHeader = formatHashlineHeader path fileHash,
             srFirstChanged = arFirstChanged (prApplyResult p), srWarnings = warnings\<rparr>))))"

definition prepareAll ::
  "('f, 's, 'p) patcher \<Rightarrow> raw_section list \<Rightarrow> (prepared_section list, 'f, 's) patcher_comp" where
  "prepareAll E sections =
     bindSE (mapSE (prepare E) sections) (\<lambda>prepared.
       bindSE (liftSE (assertUniqueCanonicalPaths prepared)) (\<lambda>_.
         bindSE (liftSE (assertChanges prepared)) (\<lambda>_. returnSE prepared)))"

definition patcherApply ::
  "('f, 's, 'p) patcher \<Rightarrow> raw_section list \<Rightarrow> (section_result list, 'f, 's) patcher_comp" where
  "patcherApply E sections =
     (if length sections = 1 then
        bindSE (prepare E (sections ! 0)) (\<lambda>prepared.
          bindSE (commit E prepared) (\<lambda>result. returnSE [result]))
      else bindSE (prepareAll E sections) (mapSE (commit E)))"

definition patcherPreflight ::
  "('f, 's, 'p) patcher \<Rightarrow> raw_section list \<Rightarrow> (unit, 'f, 's) patcher_comp" where
  "patcherPreflight E sections = bindSE (prepareAll E sections) (\<lambda>_. returnSE ())"

end
