(* ===== verification/Hl_Patcher_Facts.thy ===== *)
theory Hl_Patcher_Facts
  imports Hl_Patcher Hl_Patch_Facts
begin

text \<open>
  What the patcher guarantees over every reliable backend and every snapshot store that keep their
  contracts: preparation writes nothing, a commit writes one file and mints a tag that resolves, a
  batch is all or nothing, and a stale tag is only ever applied through recovery.
\<close>

text \<open>The files after the commits that returned \<open>rs\<close>.\<close>

definition writeResults :: "section_result list \<Rightarrow> (jstring \<Rightarrow> jstring option) \<Rightarrow> jstring \<Rightarrow> jstring option" where
  "writeResults rs m = fold (\<lambda>r m. if srOp r = OpNoop then m else m(srPath r \<mapsto> srPersisted r)) rs m"

locale patcher_env =
  fs: reliable_filesystem F contents + st: snapshot_store S xxh versions wf
  for F :: "'f fs_ops" and contents and S :: "'s store_ops" and xxh and versions and wf +
  fixes E :: "('f, 's, 'p) patcher"
  assumes fs_is: "paFs E = F" and store_is: "paSnapshots E = S" and hash_is: "paXxh E = xxh"
begin

text \<open>The files are the same and the store stays well formed.\<close>

definition quiet :: "('f, 's) world \<Rightarrow> ('f, 's) world \<Rightarrow> bool" where
  "quiet w w' \<longleftrightarrow> contents (wdFs w') = contents (wdFs w) \<and> (wf (wdStore w) \<longrightarrow> wf (wdStore w'))"

lemma quiet_rel: "reflp quiet" "transp quiet"
  by (auto simp: quiet_def reflp_def transp_def)

lemma keeps_preflight: "keeps quiet (onFs (fsPreflightWrite F p))"
  using fs.preflight_quiet
  by (auto simp: keeps_def onFs_def quiet_def split: prod.split sum.split)

lemma keeps_tryRead: "keeps quiet (tryRead E p)"
  using fs.read_quiet
  by (auto simp: keeps_def tryRead_def quiet_def fs_is split: prod.split sum.split)

lemma keeps_record: "keeps quiet (recordFullSnapshot E p t)"
  using st.recorded
  by (auto simp: keeps_def recordFullSnapshot_def onStore_def quiet_def store_is split: prod.split)

lemma keeps_byHash: "keeps quiet (onStore (soByHash S p h))"
  using st.byHash by (auto simp: keeps_def onStore_def quiet_def split: prod.split)

lemma keeps_recover: "keeps quiet (onStore (tryRecover S D args))"
  by (auto simp: keeps_def onStore_def quiet_def split: prod.split dest: st.tryRecover_store)

lemmas keeps_intros = quiet_rel keeps_preflight keeps_tryRead keeps_record keeps_byHash keeps_recover

lemma keeps_throwMismatch: "keeps quiet (throwMismatch E sec p t h b)"
  unfolding throwMismatch_def
  by (intro keeps_bindSE keeps_intros keeps_pure) (auto intro: keeps_intros keeps_pure split: prod.split)

lemma keeps_resolve: "keeps quiet (resolveForApply E sec p ex live t edits)"
  unfolding resolveForApply_def store_is
  by (auto intro!: keeps_bindSE keeps_intros keeps_pure keeps_throwMismatch split: option.split)

lemma keeps_applyWithRecovery: "keeps quiet (applyWithRecovery E sec p ex t edits)"
  unfolding applyWithRecovery_def store_is Let_def
  by (auto intro!: keeps_bindSE keeps_intros keeps_pure keeps_throwMismatch keeps_resolve split: option.split)

lemma keeps_prepare: "keeps quiet (prepare E sec)"
  unfolding prepare_def Let_def fs_is
  by (auto intro!: keeps_bindSE keeps_intros keeps_pure keeps_applyWithRecovery split: prod.split)

lemma keeps_prepareAll: "keeps quiet (prepareAll E sections)"
  unfolding prepareAll_def
  by (auto intro!: keeps_bindSE keeps_mapSE keeps_intros keeps_pure keeps_prepare)

section \<open>What prepare returns\<close>

lemma prepare_Inr:
  assumes "prepare E sec w = (Inr p, w')"
  shows "\<exists>edits raw w1. parsePatch (secDiff sec) = Inr (edits, prParseWarnings p)
     \<and> secHash sec \<noteq> None \<and> prSection p = sec \<and> prCanonicalPath p = fsCanonicalPath F (secPath sec)
     \<and> prExists p \<and> prRawContent p = raw \<and> contents (wdFs w) (secPath sec) = Some raw
     \<and> prBom p = bomBom (stripBom raw) \<and> prLineEnding p = detectLineEnding (bomText (stripBom raw))
     \<and> prNormalized p = normalizeToLF (bomText (stripBom raw)) \<and> quiet w w1 \<and> wdStore w1 = wdStore w
     \<and> applyWithRecovery E sec (prCanonicalPath p) True (prNormalized p) edits w1 = (Inr (prApplyResult p), w')"
proof -
  obtain edits pw where parse: "parsePatch (secDiff sec) = Inr (edits, pw)"
    using assms by (auto simp: prepare_def bindSE_Inr_iff sectionParse_def)
  obtain w0 where pre: "onFs (fsPreflightWrite F (secPath sec)) w = (Inr (), w0)"
    using assms by (auto simp: prepare_def bindSE_Inr_iff sectionParse_def parse Let_def fs_is)
  obtain ex raw w1 where rd: "tryRead E (secPath sec) w0 = (Inr (ex, raw), w1)"
    using assms by (auto simp: prepare_def bindSE_Inr_iff sectionParse_def parse Let_def fs_is pre)
  have w0: "contents (wdFs w0) = contents (wdFs w)" "quiet w w0"
    using keepsD [OF keeps_preflight pre] by (simp_all add: quiet_def)
  have q: "quiet w w1"
    using w0(2) keepsD [OF keeps_tryRead rd] quiet_rel(2) by (blast dest: transpD)
  have store: "wdStore w1 = wdStore w"
    using pre rd by (auto simp: onFs_def tryRead_def split: prod.splits sum.splits if_splits)
  have rest: "ex \<and> secHash sec \<noteq> None"
    using assms by (auto simp: prepare_def bindSE_Inr_iff sectionParse_def parse Let_def fs_is pre rd
        assertSectionHashPresent_def split: if_splits)
  then have ex: "ex = True" by simp
  have "contents (wdFs w0) (secPath sec) = Some raw"
    using rd ex
    by (auto simp: tryRead_def fs_is split: prod.splits sum.splits if_splits option.splits
        dest!: fs.read_stored)
  then have raw: "contents (wdFs w) (secPath sec) = Some raw" using w0(1) by simp
  show ?thesis
    using assms parse rest raw q store
    by (auto simp: prepare_def bindSE_Inr_iff sectionParse_def Let_def fs_is pre rd ex
        assertSectionHashPresent_def split: if_splits)
qed

section \<open>What commit does\<close>

lemma commit_effect:
  assumes "wf (wdStore w)"
  shows "\<exists>r w'. commit E p w = (Inr r, w') \<and> wf (wdStore w')
     \<and> srPath r = secPath (prSection p) \<and> srCanonicalPath r = prCanonicalPath p
     \<and> srAfter r = arText (prApplyResult p) \<and> (srOp r = OpNoop \<longleftrightarrow> isNoop p)
     \<and> srPersisted r = (if isNoop p then prRawContent p
          else prBom p @ restoreLineEndings (srAfter r) (prLineEnding p))
     \<and> contents (wdFs w') = (if isNoop p then contents (wdFs w)
          else (contents (wdFs w))(srPath r \<mapsto> srPersisted r))
     \<and> srFileHash r = computeFileHash xxh (srAfter r)
     \<and> (\<exists>v. find (\<lambda>v. snHash v = srFileHash r) (versions (wdStore w') (prCanonicalPath p)) = Some v)"
proof -
  have found: "\<exists>v. find (\<lambda>v. snHash v = h) vs = Some v" if "vs \<noteq> []" "snHash (hd vs) = h" for vs and h
    using that by (cases vs) auto
  show ?thesis
  proof (cases "isNoop p")
    case True
    obtain h s' where rec: "soRecord S (prCanonicalPath p) (prNormalized p) (wdStore w) = (h, s')"
      by (cases "soRecord S (prCanonicalPath p) (prNormalized p) (wdStore w)")
    note R = st.recorded [OF assms rec]
    show ?thesis
      using True R found [of "versions s' (prCanonicalPath p)" h]
      by (auto simp: commit_def isNoop_def bindSE_def recordFullSnapshot_def onStore_def store_is rec Let_def)
  next
    case False
    let ?text = "prBom p @ restoreLineEndings (arText (prApplyResult p)) (prLineEnding p)"
    obtain r f' where wr: "fsWriteText F (secPath (prSection p)) ?text (wdFs w) = (r, f')"
      by (cases "fsWriteText F (secPath (prSection p)) ?text (wdFs w)")
    note W = fs.write_stores [OF wr]
    obtain h s' where rec: "soRecord S (prCanonicalPath p) (arText (prApplyResult p)) (wdStore w) = (h, s')"
      by (cases "soRecord S (prCanonicalPath p) (arText (prApplyResult p)) (wdStore w)")
    note R = st.recorded [OF assms rec]
    show ?thesis
      using False R W found [of "versions s' (prCanonicalPath p)" h]
      by (auto simp: commit_def isNoop_def bindSE_def recordFullSnapshot_def onStore_def onFs_def store_is
          fs_is rec wr Let_def)
  qed
qed

lemma commit_total: "wf (wdStore w) \<Longrightarrow> commit E p w \<noteq> (Inl e, w')"
  using commit_effect [of w p] by auto

lemma mapSE_commit:
  assumes "wf (wdStore w)"
  shows "\<exists>rs w'. mapSE (commit E) ps w = (Inr rs, w') \<and> wf (wdStore w')
     \<and> contents (wdFs w') = writeResults rs (contents (wdFs w))
     \<and> map srPath rs = map (secPath \<circ> prSection) ps
     \<and> map srFileHash rs = map (computeFileHash xxh \<circ> srAfter) rs
     \<and> list_all2 (\<lambda>r p. srOp r = OpNoop \<longleftrightarrow> isNoop p) rs ps"
  using assms
proof (induction ps arbitrary: w)
  case Nil
  then show ?case by (simp add: writeResults_def)
next
  case (Cons p ps)
  obtain r w1 where c: "commit E p w = (Inr r, w1)" "wf (wdStore w1)"
    "srPath r = secPath (prSection p)" "srOp r = OpNoop \<longleftrightarrow> isNoop p"
    "contents (wdFs w1) = (if isNoop p then contents (wdFs w)
          else (contents (wdFs w))(srPath r \<mapsto> srPersisted r))"
    "srFileHash r = computeFileHash xxh (srAfter r)"
    using commit_effect [OF Cons.prems, of p] by blast
  from Cons.IH [OF c(2)] obtain rs w2 where
    "mapSE (commit E) ps w1 = (Inr rs, w2)" "wf (wdStore w2)"
    "contents (wdFs w2) = writeResults rs (contents (wdFs w1))"
    "map srPath rs = map (secPath \<circ> prSection) ps" "map srFileHash rs = map (computeFileHash xxh \<circ> srAfter) rs"
    "list_all2 (\<lambda>r p. srOp r = OpNoop \<longleftrightarrow> isNoop p) rs ps"
    by blast
  then show ?case using c by (simp add: writeResults_def)
qed

lemma mapSE_prepare_sections:
  "mapSE (prepare E) sections w = (Inr ps, w') \<Longrightarrow> map prSection ps = sections"
proof (induction sections arbitrary: w ps)
  case Nil
  then show ?case by simp
next
  case (Cons sec sections)
  then show ?case by (auto split: prod.splits sum.splits dest!: prepare_Inr)
qed

lemma apply_success:
  assumes ok: "wf (wdStore w)" and run: "patcherApply E sections w = (Inr rs, w')"
  shows "contents (wdFs w') = writeResults rs (contents (wdFs w)) \<and> map srPath rs = map secPath sections
     \<and> map srFileHash rs = map (computeFileHash xxh \<circ> srAfter) rs \<and> wf (wdStore w')"
proof (cases "length sections = 1")
  case True
  then obtain sec where sec: "sections = [sec]" by (cases sections) auto
  obtain p w1 r where p: "prepare E sec w = (Inr p, w1)" "commit E p w1 = (Inr r, w')" "rs = [r]"
    using run by (auto simp: patcherApply_def sec bindSE_Inr_iff)
  have q: "contents (wdFs w1) = contents (wdFs w)" "wf (wdStore w1)"
    using keepsD [OF keeps_prepare p(1)] ok by (simp_all add: quiet_def)
  have "prSection p = sec" using prepare_Inr [OF p(1)] by blast
  then show ?thesis
    using mapSE_commit [OF q(2), of "[p]"] p(2,3) q(1) sec by auto
next
  case False
  then obtain ps w1 where p: "prepareAll E sections w = (Inr ps, w1)" "mapSE (commit E) ps w1 = (Inr rs, w')"
    using run by (auto simp: patcherApply_def bindSE_Inr_iff)
  have q: "contents (wdFs w1) = contents (wdFs w)" "wf (wdStore w1)"
    using keepsD [OF keeps_prepareAll p(1)] ok by (simp_all add: quiet_def)
  have "map prSection ps = sections"
    using p(1) mapSE_prepare_sections by (auto simp: prepareAll_def bindSE_Inr_iff)
  then show ?thesis
    using mapSE_commit [OF q(2), of ps] p(2) q(1) by (auto simp flip: map_map)
qed

section \<open>All or nothing\<close>

lemma apply_error_quiet:
  assumes "wf (wdStore w)" and "patcherApply E sections w = (Inl e, w')"
  shows "contents (wdFs w') = contents (wdFs w)"
proof (cases "length sections = 1")
  case True
  then have "bindSE (prepare E (sections ! 0)) (\<lambda>p. bindSE (commit E p) (\<lambda>r. returnSE [r])) w = (Inl e, w')"
    using assms(2) by (simp add: patcherApply_def)
  then consider "prepare E (sections ! 0) w = (Inl e, w')"
    | p w1 where "prepare E (sections ! 0) w = (Inr p, w1)" "bindSE (commit E p) (\<lambda>r. returnSE [r]) w1 = (Inl e, w')"
    by (auto simp: bindSE_Inl_iff [of "prepare E (sections ! 0)"])
  then show ?thesis
  proof cases
    case 1
    then show ?thesis using keepsD [OF keeps_prepare 1] by (simp add: quiet_def)
  next
    case 2
    then have "wf (wdStore w1)" using keepsD [OF keeps_prepare 2(1)] assms(1) by (simp add: quiet_def)
    then have False using 2(2) commit_total by (auto simp: bindSE_Inl_iff)
    then show ?thesis ..
  qed
next
  case False
  then have "bindSE (prepareAll E sections) (mapSE (commit E)) w = (Inl e, w')"
    using assms(2) by (simp add: patcherApply_def)
  then consider "prepareAll E sections w = (Inl e, w')"
    | ps w1 where "prepareAll E sections w = (Inr ps, w1)" "mapSE (commit E) ps w1 = (Inl e, w')"
    by (auto simp: bindSE_Inl_iff)
  then show ?thesis
  proof cases
    case 1
    then show ?thesis using keepsD [OF keeps_prepareAll 1] by (simp add: quiet_def)
  next
    case 2
    then have "wf (wdStore w1)" using keepsD [OF keeps_prepareAll 2(1)] assms(1) by (simp add: quiet_def)
    from mapSE_commit [OF this, of ps] 2(2) have False by auto
    then show ?thesis ..
  qed
qed

text \<open>A preflight writes nothing, and after one that succeeds the same patch applies and changes every section.\<close>

lemma assertChanges_iff: "assertChanges ps = Inr () \<longleftrightarrow> (\<forall>p \<in> set ps. \<not> isNoop p)"
  by (induction ps) auto

lemma preflight_then_apply:
  assumes ok: "wf (wdStore w)" and pre: "patcherPreflight E sections w = (Inr (), w1)"
  shows "contents (wdFs w1) = contents (wdFs w)"
    "\<exists>rs w'. patcherApply E sections w = (Inr rs, w') \<and> (\<forall>r \<in> set rs. srOp r \<noteq> OpNoop)"
proof -
  obtain ps where all: "prepareAll E sections w = (Inr ps, w1)"
    using pre by (auto simp: patcherPreflight_def bindSE_Inr_iff)
  have w1: "contents (wdFs w1) = contents (wdFs w)" "wf (wdStore w1)"
    using keepsD [OF keeps_prepareAll all] ok by (simp_all add: quiet_def)
  show "contents (wdFs w1) = contents (wdFs w)" by (rule w1(1))
  have ps: "mapSE (prepare E) sections w = (Inr ps, w1)" "\<forall>p \<in> set ps. \<not> isNoop p"
    using all by (auto simp: prepareAll_def bindSE_Inr_iff assertChanges_iff)
  obtain rs w2 where run: "mapSE (commit E) ps w1 = (Inr rs, w2)"
    and ops: "list_all2 (\<lambda>r p. srOp r = OpNoop \<longleftrightarrow> isNoop p) rs ps"
    using mapSE_commit [OF w1(2), of ps] by blast
  have changed: "\<forall>r \<in> set rs. srOp r \<noteq> OpNoop"
    using ops ps(2) by (induction rs ps rule: list_all2_induct) auto
  have "patcherApply E sections w = (Inr rs, w2)"
  proof (cases "length sections = 1")
    case True
    then obtain sec where sec: "sections = [sec]" by (cases sections) auto
    then obtain p where p: "ps = [p]" "prepare E sec w = (Inr p, w1)"
      using ps(1) by (auto split: prod.splits sum.splits)
    then show ?thesis
      using run sec by (auto simp: patcherApply_def bindSE_def split: prod.splits sum.splits)
  next
    case False
    then show ?thesis using all run by (simp add: patcherApply_def bindSE_def)
  qed
  with changed show "\<exists>rs w'. patcherApply E sections w = (Inr rs, w') \<and> (\<forall>r \<in> set rs. srOp r \<noteq> OpNoop)"
    by blast
qed

section \<open>Tags\<close>

text \<open>
  A section without block edits, by its tag: on a match the edits apply to the live text as they are;
  otherwise head and tail inserts apply with a warning, and anchored edits only through recovery from
  the recorded version that the tag names.
\<close>

lemma prepare_by_tag:
  assumes "wf (wdStore w)" and prep: "prepare E sec w = (Inr p, w')"
    and parse: "parsePatch (secDiff sec) = Inr (edits, ws)" and nb: "\<not> hasBlockEdit edits"
  shows "\<exists>h. secHash sec = Some h \<and>
     (if computeFileHash xxh (prNormalized p) = h
      then applyEdits (prNormalized p) edits = Inr (prApplyResult p)
      else if \<not> hasAnchorScopedEdit edits
      then \<exists>a. applyEdits (prNormalized p) edits = Inr a
          \<and> prApplyResult p = a\<lparr>arWarnings := HeadtailDrift # arWarnings a\<rparr>
      else \<exists>snap \<in> set (versions (wdStore w) (prCanonicalPath p)).
          computeFileHash xxh (snText snap) = h \<and> arText (prApplyResult p) \<noteq> prNormalized p
          \<and> ((\<exists>wn. applyEditsToSnapshot (paDiff E) (snText snap) (prNormalized p) edits wn =
                  Some \<lparr>rrText = arText (prApplyResult p), rrFirstChanged = arFirstChanged (prApplyResult p),
                        rrWarnings = arWarnings (prApplyResult p)\<rparr>)
             \<or> replaySessionChainOnCurrent (snText snap) (prNormalized p) edits =
                  Some \<lparr>rrText = arText (prApplyResult p), rrFirstChanged = arFirstChanged (prApplyResult p),
                        rrWarnings = arWarnings (prApplyResult p)\<rparr>))"
proof -
  obtain w1 where P: "secHash sec \<noteq> None" "wdStore w1 = wdStore w"
    "applyWithRecovery E sec (prCanonicalPath p) True (prNormalized p) edits w1 = (Inr (prApplyResult p), w')"
    using prepare_Inr [OF prep] parse by auto
  then obtain h where h: "secHash sec = Some h" by blast
  have res: "resolveForApply E sec c e l t edits w1 = (Inr edits, w1)" for c e l t
    using nb by (simp add: resolveForApply_def)
  show ?thesis
  proof (cases "computeFileHash xxh (prNormalized p) = h \<or> \<not> hasAnchorScopedEdit edits")
    case True
    then show ?thesis
      using P(3) h by (auto simp: applyWithRecovery_def Let_def res hash_is bindSE_Inr_iff)
  next
    case False
    let ?args = "\<lparr>raPath = prCanonicalPath p, raCurrentText = prNormalized p, raFileHash = h, raEdits = edits\<rparr>"
    obtain r w2 where rec: "onStore (tryRecover S (paDiff E) ?args) w1 = (Inr (Some r), w2)"
      "prApplyResult p = recoveryToApplyResult r"
      using P(3) h False
      by (auto simp: applyWithRecovery_def Let_def res hash_is store_is bindSE_Inr_iff
          throwMismatch_def split: option.splits)
    obtain s2 where "tryRecover S (paDiff E) ?args (wdStore w1) = (Some r, s2)"
      using rec(1) by (auto simp: onStore_def split: prod.splits)
    then have "tryRecover S (paDiff E) ?args (wdStore w) = (Some r, s2)" using P(2) by simp
    from st.tryRecover_Some [OF assms(1) this] h False rec(2) show ?thesis
      by (cases r) (auto simp: recoveryToApplyResult_def)
  qed
qed

text \<open>The tag of a commit validates a follow-up section against the file it left.\<close>

lemma committed_text:
  assumes "prepare E sec w = (Inr p, w1)" and "wf (wdStore w1)" and "commit E p w1 = (Inr r, w2)"
    and plain: "CHAR_CARRIAGE_RETURN \<notin> set (srAfter r)" "take 1 (srAfter r) \<noteq> [BOM]"
  shows "\<exists>raw. contents (wdFs w2) (srPath r) = Some raw \<and> normalizeToLF (bomText (stripBom raw)) = srAfter r
     \<and> srFileHash r = computeFileHash xxh (srAfter r) \<and> wf (wdStore w2)"
proof -
  obtain raw where P: "prSection p = sec" "contents (wdFs w) (secPath sec) = Some raw" "prRawContent p = raw"
    "prBom p = bomBom (stripBom raw)" "prNormalized p = normalizeToLF (bomText (stripBom raw))"
    using prepare_Inr [OF assms(1)] by blast
  have same: "contents (wdFs w1) = contents (wdFs w)"
    using keepsD [OF keeps_prepare assms(1)] by (simp add: quiet_def)
  have C: "wf (wdStore w2)" "srPath r = secPath sec" "srAfter r = arText (prApplyResult p)"
    "srPersisted r = (if isNoop p then raw else prBom p @ restoreLineEndings (srAfter r) (prLineEnding p))"
    "contents (wdFs w2) = (if isNoop p then contents (wdFs w1) else (contents (wdFs w1))(srPath r \<mapsto> srPersisted r))"
    "srFileHash r = computeFileHash xxh (srAfter r)"
    using commit_effect [OF assms(2), of p] assms(3) P(1,3) by auto
  show ?thesis
  proof (cases "isNoop p")
    case True
    then show ?thesis using C P same by (auto simp: isNoop_def)
  next
    case False
    let ?body = "restoreLineEndings (srAfter r) (prLineEnding p)"
    have first: "take 1 ?body \<noteq> [BOM]"
      using plain(2) by (cases "srAfter r"; cases "prLineEnding p") (auto simp: BOM_def)
    have "bomText (stripBom (prBom p @ ?body)) = ?body"
      using first unfolding P(4)
      by (cases raw) (auto simp: stripBom_def startsWith_def)
    then show ?thesis
      using False C normalize_restore [OF plain(1), of "prLineEnding p"] by simp
  qed
qed

lemma follow_up_matches:
  assumes "prepare E sec w = (Inr p, w1)" and "wf (wdStore w1)" and "commit E p w1 = (Inr r, w2)"
    and "CHAR_CARRIAGE_RETURN \<notin> set (srAfter r)" "take 1 (srAfter r) \<noteq> [BOM]"
    and next_sec: "secPath sec2 = srPath r" "secHash sec2 = Some (srFileHash r)"
    and parse: "parsePatch (secDiff sec2) = Inr (edits, ws)" and nb: "\<not> hasBlockEdit edits"
    and prep2: "prepare E sec2 w2 = (Inr p2, w3)"
  shows "prNormalized p2 = srAfter r \<and> applyEdits (srAfter r) edits = Inr (prApplyResult p2)"
proof -
  obtain raw where C: "contents (wdFs w2) (srPath r) = Some raw"
    "normalizeToLF (bomText (stripBom raw)) = srAfter r" "srFileHash r = computeFileHash xxh (srAfter r)"
    "wf (wdStore w2)"
    using committed_text [OF assms(1-5)] by blast
  have n: "prNormalized p2 = srAfter r"
    using prepare_Inr [OF prep2] C(1,2) next_sec(1) by auto
  with prepare_by_tag [OF C(4) prep2 parse nb] next_sec(2) C(3) show ?thesis by auto
qed

end

end
