(* ===== verification/Hl_Patcher_Memory.thy ===== *)
theory Hl_Patcher_Memory
  imports Hl_Patcher_Facts
begin

text \<open>
  The guarantees of the patcher as theorems over every reliable backend and every snapshot store,
  and the in-memory patcher on which they hold: \<open>InMemoryFilesystem\<close> and \<open>InMemorySnapshotStore\<close>.
\<close>

section \<open>The in-memory patcher\<close>

definition memoryPatcher ::
  "'p diff_ops \<Rightarrow> block_resolver option \<Rightarrow> (jstring \<Rightarrow> 32 word) \<Rightarrow> (memory_fs, recency mem_store, 'p) patcher" where
  "memoryPatcher D resolver xxh = \<lparr>paFs = memoryFsOps, paSnapshots = memStoreOps recencyOps xxh,
     paDiff = D, paBlockResolver = resolver, paXxh = xxh\<rparr>"

interpretation memoryPatcherEnv: patcher_env memoryFsOps mapGet "memStoreOps recencyOps xxh" xxh
    recencyCache.memVersions "recencyCache.memOk xxh" "memoryPatcher D resolver xxh" for D resolver xxh
  by unfold_locales (simp_all add: memoryPatcher_def)

lemma patcher_env_of:
  assumes "reliable_filesystem (paFs E) contents" and "snapshot_store (paSnapshots E) (paXxh E) versions storeOk"
  shows "patcher_env (paFs E) contents (paSnapshots E) (paXxh E) versions storeOk E"
  using assms by (simp add: patcher_env_def patcher_env_axioms_def)

lemma memoryStore_contract:
  "snapshot_store (memStoreOps recencyOps xxh) xxh recencyCache.memVersions (recencyCache.memOk xxh)"
  by unfold_locales

lemma memoryPatcher_contracts:
  "reliable_filesystem (paFs (memoryPatcher D resolver xxh)) mapGet"
  "snapshot_store (paSnapshots (memoryPatcher D resolver xxh)) (paXxh (memoryPatcher D resolver xxh))
     recencyCache.memVersions (recencyCache.memOk xxh)"
  using memoryFs_reliable memoryStore_contract by (simp_all add: memoryPatcher_def)

text \<open>A world with one file, a fresh store, and a patch of it that names its tag.\<close>

definition sampleWorld :: "(memory_fs, recency mem_store) world" where
  "sampleWorld = \<lparr>wdFs = [(js ''f'', js ''a'' @ 10 # js ''b'')], wdStore = newMemStore recencyOps None None\<rparr>"

definition samplePatcher :: "(memory_fs, recency mem_store, unit) patcher" where
  "samplePatcher = memoryPatcher \<lparr>dfStructuredPatch = \<lambda>_ _ _. (), dfApplyPatch = \<lambda>_ _ _. None\<rparr> None (\<lambda>_. 0)"

definition sampleSection :: raw_section where
  "sampleSection = \<lparr>secPath = js ''f'', secHash = Some (js ''0000''), secDiff = js ''delete 2''\<rparr>"

lemma sampleWorld_ok: "recencyCache.memOk (\<lambda>_. 0) (wdStore sampleWorld)"
  by (simp add: sampleWorld_def recencyCache.memOk_new)

lemma samplePatcher_contracts:
  "reliable_filesystem (paFs samplePatcher) mapGet"
  "snapshot_store (paSnapshots samplePatcher) (paXxh samplePatcher) recencyCache.memVersions
     (recencyCache.memOk (\<lambda>_. 0))"
  using memoryPatcher_contracts [of "\<lparr>dfStructuredPatch = \<lambda>_ _ _. (), dfApplyPatch = \<lambda>_ _ _. None\<rparr>" None "\<lambda>_. 0"]
  by (simp_all add: samplePatcher_def)

lemma sample_parse:
  "sectionParse sampleSection = Inr ([DeleteEdit 2 1 0], [])"
  by code_simp

lemma sample_text:
  "stripBom (js ''a'' @ 10 # js ''b'') = \<lparr>bomBom = [], bomText = js ''a'' @ 10 # js ''b''\<rparr>"
  "detectLineEnding (js ''a'' @ 10 # js ''b'') = LF"
  "normalizeToLF (js ''a'' @ 10 # js ''b'') = js ''a'' @ 10 # js ''b''"
  "computeFileHash (\<lambda>_. 0) t = js ''0000''"
  by (simp_all add: stripBom_def startsWith_def BOM_def detectLineEnding_def normalizeToLF_id computeFileHash_def
      Let_def padStart_def HL_FILE_HASH_LENGTH_def toUpperAscii_def natToHex.simps [of 0] hexDigit_def eval_nat_numeral)

lemma sample_apply:
  "applyEdits (js ''a'' @ 10 # js ''b'') [DeleteEdit 2 1 0] =
     Inr \<lparr>arText = js ''a'', arFirstChanged = Some 2, arWarnings = []\<rparr>"
  by code_simp

text \<open>On the in-memory backend, a section whose tag is the hash of the live text applies to it.\<close>

lemma prepare_live:
  assumes "mapGet (wdFs w) (secPath sec) = Some raw" and "sectionParse sec = Inr (edits, ws)"
    and "\<not> hasBlockEdit edits" and "normalizeToLF (bomText (stripBom raw)) = live"
    and "secHash sec = Some (computeFileHash xxh live)" and "applyEdits live edits = Inr result"
  shows "prepare (memoryPatcher D resolver xxh) sec w = (Inr \<lparr>prSection = sec, prCanonicalPath = secPath sec,
     prExists = True, prRawContent = raw, prBom = bomBom (stripBom raw),
     prLineEnding = detectLineEnding (bomText (stripBom raw)), prNormalized = live,
     prApplyResult = result, prParseWarnings = ws\<rparr>, w)"
proof -
  let ?E = "memoryPatcher D resolver xxh"
  have fs: "onFs (fsPreflightWrite (paFs ?E) p) w = (Inr (), w)"
    "tryRead ?E (secPath sec) w = (Inr (True, raw), w)"
    "fsCanonicalPath (paFs ?E) p = p" "paXxh ?E = xxh" for p
    using assms(1) by (simp_all add: memoryPatcher_def memoryFsOps_def memoryReadText_def onFs_def tryRead_def
        defaultPreflightWrite_def defaultCanonicalPath_def)
  show ?thesis
    using assms(2-6) fs
    by (simp add: prepare_def bindSE_def assertSectionHashPresent_def applyWithRecovery_def resolveForApply_def Let_def)
qed

lemma sample_prepare:
  "prepare samplePatcher sampleSection sampleWorld = (Inr \<lparr>prSection = sampleSection, prCanonicalPath = js ''f'',
     prExists = True, prRawContent = js ''a'' @ 10 # js ''b'', prBom = [], prLineEnding = LF,
     prNormalized = js ''a'' @ 10 # js ''b'',
     prApplyResult = \<lparr>arText = js ''a'', arFirstChanged = Some 2, arWarnings = []\<rparr>, prParseWarnings = []\<rparr>,
     sampleWorld)"
proof -
  have world: "mapGet (wdFs sampleWorld) (secPath sampleSection) = Some (js ''a'' @ 10 # js ''b'')"
    "secPath sampleSection = js ''f''" "secHash sampleSection = Some (computeFileHash (\<lambda>_. 0) (js ''a'' @ 10 # js ''b''))"
    unfolding sample_text(4) by (simp_all add: sampleWorld_def sampleSection_def)
  have lf: "normalizeToLF (bomText (stripBom (js ''a'' @ 10 # js ''b''))) = js ''a'' @ 10 # js ''b''"
    by (simp only: sample_text bom_result.simps)
  have nb: "\<not> hasBlockEdit [DeleteEdit 2 1 0]" by (simp add: hasBlockEdit_def)
  show ?thesis
    unfolding samplePatcher_def prepare_live [OF world(1) sample_parse nb lf world(3) sample_apply]
    by (simp only: sample_text bom_result.simps world(2))
qed

definition sampleStored :: "(memory_fs, recency mem_store) world" where
  "sampleStored = \<lparr>wdFs = [(js ''f'', js ''a'')], wdStore = snd (memRecord recencyOps (\<lambda>_. 0) (js ''f'') (js ''a'')
     (wdStore sampleWorld))\<rparr>"

definition sampleResult :: section_result where
  "sampleResult = \<lparr>srPath = js ''f'', srCanonicalPath = js ''f'', srOp = OpUpdate,
     srBefore = js ''a'' @ 10 # js ''b'', srAfter = js ''a'', srPersisted = js ''a'', srWritten = js ''a'',
     srFileHash = js ''0000'', srHeader = formatHashlineHeader (js ''f'') (js ''0000''), srFirstChanged = Some 2,
     srWarnings = []\<rparr>"

lemma sample_run: "patcherApply samplePatcher [sampleSection] sampleWorld = (Inr [sampleResult], sampleStored)"
proof -
  have "soRecord (paSnapshots samplePatcher) (js ''f'') (js ''a'') (wdStore sampleWorld) =
      (js ''0000'', wdStore sampleStored)"
    by (simp add: samplePatcher_def memoryPatcher_def memStoreOps_def sampleStored_def memRecord_def sample_text(4)
        Let_def split: prod.split option.split)
  moreover have "fsWriteText (paFs samplePatcher) (js ''f'') t f = (Inr t, mapSet (js ''f'') t f)" for t f
    by (simp add: samplePatcher_def memoryPatcher_def memoryFsOps_def memoryWriteText_def)
  moreover have "mapSet (js ''f'') t (wdFs sampleWorld) = [(js ''f'', t)]" for t
    by (simp add: sampleWorld_def)
  moreover have "secPath sampleSection = js ''f''" by (simp add: sampleSection_def)
  ultimately show ?thesis
    by (simp add: patcherApply_def sample_prepare bindSE_def commit_def recordFullSnapshot_def
        onStore_def onFs_def Let_def mergeWarnings_def sampleResult_def) (simp add: sampleStored_def)
qed

section \<open>The guarantees\<close>



text \<open>A preflight writes nothing; after a preflight that succeeds the same patch applies without an error
  and changes every section.
\<close>

theorem patcher_preflight_sound:
  assumes "reliable_filesystem (paFs E) contents" and "snapshot_store (paSnapshots E) (paXxh E) versions storeOk"
    and "storeOk (wdStore w)" and "patcherPreflight E sections w = (Inr (), w1)"
  shows "contents (wdFs w1) = contents (wdFs w)
    \<and> (\<exists>rs w'. patcherApply E sections w = (Inr rs, w') \<and> (\<forall>r \<in> set rs. srOp r \<noteq> OpNoop))"
  using patcher_env.preflight_then_apply [OF patcher_env_of [OF assms(1,2)] assms(3,4)] by blast

lemma sample_preflight: "patcherPreflight samplePatcher [sampleSection] sampleWorld = (Inr (), sampleWorld)"
  by (simp add: patcherPreflight_def prepareAll_def bindSE_def sample_prepare assertUniqueCanonicalPaths_def isNoop_def)

theorem patcher_preflight_sound_witness:
  "\<exists>rs w'. patcherApply samplePatcher [sampleSection] sampleWorld = (Inr rs, w') \<and> (\<forall>r \<in> set rs. srOp r \<noteq> OpNoop)"
  using patcher_preflight_sound [OF samplePatcher_contracts sampleWorld_ok sample_preflight] by blast



text \<open>The tag of a committed result validates the next section on the same file: it is matched against the
  text just written, whatever line ending and byte order mark the file has, and the edits apply to it.
\<close>

theorem committed_tag_validates:
  assumes "reliable_filesystem (paFs E) contents" and "snapshot_store (paSnapshots E) (paXxh E) versions storeOk"
    and "prepare E sec w = (Inr p, w1)" and "storeOk (wdStore w1)" and "commit E p w1 = (Inr r, w2)"
    and "CHAR_CARRIAGE_RETURN \<notin> set (srAfter r)" and "take 1 (srAfter r) \<noteq> [BOM]"
    and "secPath sec2 = srPath r" and "secHash sec2 = Some (srFileHash r)"
    and "parsePatch (secDiff sec2) = Inr (edits, ws)" and "\<not> hasBlockEdit edits"
    and "prepare E sec2 w2 = (Inr p2, w3)"
  shows "prNormalized p2 = srAfter r \<and> applyEdits (srAfter r) edits = Inr (prApplyResult p2)"
  by (rule patcher_env.follow_up_matches [OF patcher_env_of [OF assms(1,2)] assms(3-12)])

definition sampleFollowUp :: raw_section where
  "sampleFollowUp = \<lparr>secPath = js ''f'', secHash = Some (js ''0000''), secDiff = js ''delete 1''\<rparr>"

lemma follow_up_parse: "parsePatch (secDiff sampleFollowUp) = Inr ([DeleteEdit 1 1 0], [])"
  by code_simp

lemma follow_up_apply: "applyEdits (js ''a'') [DeleteEdit 1 1 0] = Inr \<lparr>arText = [], arFirstChanged = Some 1, arWarnings = []\<rparr>"
  by code_simp

lemma follow_up_prepare:
  "prepare samplePatcher sampleFollowUp sampleStored = (Inr \<lparr>prSection = sampleFollowUp, prCanonicalPath = js ''f'',
     prExists = True, prRawContent = js ''a'', prBom = [], prLineEnding = LF, prNormalized = js ''a'',
     prApplyResult = \<lparr>arText = [], arFirstChanged = Some 1, arWarnings = []\<rparr>, prParseWarnings = []\<rparr>, sampleStored)"
proof -
  have world: "mapGet (wdFs sampleStored) (secPath sampleFollowUp) = Some (js ''a'')"
    "secPath sampleFollowUp = js ''f''" "secHash sampleFollowUp = Some (computeFileHash (\<lambda>_. 0) (js ''a''))"
    unfolding sample_text(4) by (simp_all add: sampleStored_def sampleFollowUp_def)
  have lf: "normalizeToLF (bomText (stripBom (js ''a''))) = js ''a''" "stripBom (js ''a'') = \<lparr>bomBom = [], bomText = js ''a''\<rparr>"
    "detectLineEnding (js ''a'') = LF"
    by (simp_all add: stripBom_def startsWith_def BOM_def detectLineEnding_def normalizeToLF_id)
  have nb: "\<not> hasBlockEdit [DeleteEdit 1 1 0]" by (simp add: hasBlockEdit_def)
  show ?thesis
    unfolding samplePatcher_def prepare_live [OF world(1) follow_up_parse [folded sectionParse_def] nb lf(1) world(3) follow_up_apply]
    by (simp only: lf bom_result.simps world(2))
qed

lemma sample_commit:
  "commit samplePatcher \<lparr>prSection = sampleSection, prCanonicalPath = js ''f'',
     prExists = True, prRawContent = js ''a'' @ 10 # js ''b'', prBom = [], prLineEnding = LF,
     prNormalized = js ''a'' @ 10 # js ''b'',
     prApplyResult = \<lparr>arText = js ''a'', arFirstChanged = Some 2, arWarnings = []\<rparr>, prParseWarnings = []\<rparr> sampleWorld
   = (Inr sampleResult, sampleStored)"
  using sample_run
  by (simp add: patcherApply_def sample_prepare bindSE_def split: prod.splits sum.splits)

theorem committed_tag_validates_witness:
  "applyEdits (js ''a'') [DeleteEdit 1 1 0] = Inr \<lparr>arText = [], arFirstChanged = Some 1, arWarnings = []\<rparr>"
proof -
  have facts: "recencyCache.memOk (\<lambda>_. 0) (wdStore sampleWorld)" "CHAR_CARRIAGE_RETURN \<notin> set (srAfter sampleResult)"
    "take 1 (srAfter sampleResult) \<noteq> [BOM]" "secPath sampleFollowUp = srPath sampleResult"
    "secHash sampleFollowUp = Some (srFileHash sampleResult)" "\<not> hasBlockEdit [DeleteEdit 1 1 0]"
    using sampleWorld_ok by (simp_all add: sampleResult_def sampleFollowUp_def hasBlockEdit_def BOM_def)
  show ?thesis
    using committed_tag_validates [OF samplePatcher_contracts sample_prepare facts(1) sample_commit facts(2-5)
        follow_up_parse facts(6) follow_up_prepare]
    by (simp add: sampleResult_def)
qed

end
