(* ===== verification/Hl_Mismatch.thy ===== *)
theory Hl_Mismatch
  imports Hl_Format Hl_Types Js_Regex_Facts
begin

text \<open>
  packages/hashline/src/mismatch.ts: the diagnostic of a rejected section. The fields of the error are
  the record \<open>mismatch_details\<close>; its message lists the anchored lines with two lines of context.
  Line numbers are natural numbers: a run of digits beyond the exact range of doubles is not rounded.
\<close>

definition MISMATCH_CONTEXT :: nat where "MISMATCH_CONTEXT = 2"

section \<open>Line references\<close>

definition isLineTerminator :: "nat \<Rightarrow> bool" where
  "isLineTerminator c \<longleftrightarrow> c = 10 \<or> c = 13 \<or> c = 8232 \<or> c = 8233"

definition isRefMark :: "nat \<Rightarrow> bool" where
  "isRefMark c \<longleftrightarrow> c = 62 \<or> c = 43 \<or> c = 45 \<or> c = 42"

definition LINE_REF_RE :: regex where
  "LINE_REF_RE = rSeqs [rSpaces, RStar isRefMark, rSpaces, RGroup rDigits1,
     ROpt (RSeq (rChar 58) (RStar (\<lambda>c. \<not> isLineTerminator c))), rSpaces, REnd]"

definition parseTag :: "jstring \<Rightarrow> hl_error + nat" where
  "parseTag ref =
     (case rxExec LINE_REF_RE ref of
        Some (digits # _, _) \<Rightarrow>
          (let line = digitsValue digits in if line < 1 then Inl (LineNumberTooSmall line ref) else Inr line)
      | _ \<Rightarrow> Inl (InvalidLineReference ref))"

definition validateLineRef :: "nat \<Rightarrow> jstring list \<Rightarrow> hl_error + unit" where
  "validateLineRef line fileLines =
     (if line < 1 \<or> line > length fileLines then Inl (LineDoesNotExist line (length fileLines)) else Inr ())"

section \<open>The message\<close>

definition addContext :: "jstring list \<Rightarrow> nat \<Rightarrow> nat list \<Rightarrow> nat list" where
  "addContext fileLines line displayLines =
     (if line < 1 \<or> line > length fileLines then displayLines
      else let lo = max 1 (line - MISMATCH_CONTEXT); hi = min (length fileLines) (line + MISMATCH_CONTEXT)
        in fold setAdd [lo ..< hi + 1] displayLines)"

definition getMismatchDisplayLines :: "nat list \<Rightarrow> jstring list \<Rightarrow> nat list" where
  "getMismatchDisplayLines anchorLines fileLines = sort (fold (addContext fileLines) anchorLines [])"

definition rejectionHeader :: "mismatch_details \<Rightarrow> jstring list" where
  "rejectionHeader details =
     (let pathText = (case mmPath details of None \<Rightarrow> []
            | Some p \<Rightarrow> if p = [] then [] else js '' for '' @ p);
          hashRecognized = (case mmRecognized details of None \<Rightarrow> True | Some b \<Rightarrow> b) in
      if \<not> hashRecognized then
        [js ''Edit rejected'' @ pathText @ js '': hash '' @ HL_FILE_HASH_SEP @ mmExpected details
           @ js '' is not from this session.'',
         js ''The current file hashes to '' @ HL_FILE_HASH_SEP @ mmActual details
           @ js ''. Re-read the file with `read` to copy a current '' @ HL_FILE_PREFIX @ js ''path'' @ HL_FILE_HASH_SEP
           @ js ''tag header '' @ [8212] @ js '' never invent the tag and never reuse one from a prior session.'']
      else
        [js ''Edit rejected'' @ pathText @ js '': file changed between read and edit.'',
         js ''Section is bound to '' @ HL_FILE_HASH_SEP @ mmExpected details
           @ js '', but the current file hashes to '' @ HL_FILE_HASH_SEP @ mmActual details
           @ js ''. If a prior edit in this session modified this file, copy the '' @ HL_FILE_PREFIX @ js ''path''
           @ HL_FILE_HASH_SEP @ js ''newhash header from that edit'' @ [39]
           @ js ''s response; otherwise re-read the file with `read` to refresh the tag before retrying.''])"

text \<open>The rows of the message; \<open>previous\<close> is the line shown before, nothing for the first.\<close>

fun contextRows :: "nat list \<Rightarrow> jstring list \<Rightarrow> nat option \<Rightarrow> nat list \<Rightarrow> jstring list" where
  "contextRows anchors fileLines previous [] = []"
| "contextRows anchors fileLines previous (lineNum # rest) =
     (case previous of None \<Rightarrow> [] | Some p \<Rightarrow> if lineNum > p + 1 then [js ''...''] else [])
     @ (let content = (if lineNum - 1 < length fileLines then fileLines ! (lineNum - 1) else []);
            marker = (if lineNum \<in> set anchors then js ''*'' else js '' '')
        in [marker @ formatNumberedLine lineNum content])
     @ contextRows anchors fileLines (Some lineNum) rest"

definition formatMessage :: "mismatch_details \<Rightarrow> jstring" where
  "formatMessage details =
     (let anchors = (case mmAnchorLines details of None \<Rightarrow> [] | Some ls \<Rightarrow> ls);
          lns = rejectionHeader details;
          displayLines = getMismatchDisplayLines anchors (mmFileLines details) in
      if length displayLines = 0 then joinLines lns
      else joinLines (lns @ [[]] @ contextRows anchors (mmFileLines details) None displayLines))"

section \<open>The lines shown\<close>

lemma fold_setAdd: "set (fold setAdd xs acc) = set xs \<union> set acc" "distinct acc \<Longrightarrow> distinct (fold setAdd xs acc)"
  by (induction xs arbitrary: acc) auto

lemma set_addContext:
  "set (addContext fileLines line acc) = set acc \<union>
     {l. 0 < line \<and> line \<le> length fileLines \<and> 0 < l \<and> l \<le> length fileLines
       \<and> line \<le> l + MISMATCH_CONTEXT \<and> l \<le> line + MISMATCH_CONTEXT}"
  by (auto simp: addContext_def Let_def fold_setAdd simp del: upt_Suc)

lemma distinct_addContext: "distinct acc \<Longrightarrow> distinct (addContext fileLines line acc)"
  by (simp add: addContext_def Let_def fold_setAdd(2) del: upt_Suc)

lemma fold_addContext:
  "set (fold (addContext fileLines) anchors acc) = set acc \<union> (\<Union>line \<in> set anchors. set (addContext fileLines line []))"
  "distinct acc \<Longrightarrow> distinct (fold (addContext fileLines) anchors acc)"
  by (induction anchors arbitrary: acc) (auto simp: set_addContext distinct_addContext)

text \<open>
  The diagnostic shows exactly the lines of the file within two lines of an anchor that exists, in
  ascending order and each once.
\<close>

theorem mismatch_lines_shown:
  "sorted (getMismatchDisplayLines anchors fileLines) \<and> distinct (getMismatchDisplayLines anchors fileLines)
   \<and> set (getMismatchDisplayLines anchors fileLines) =
       {l. 0 < l \<and> l \<le> length fileLines \<and> (\<exists>a \<in> set anchors. 0 < a \<and> a \<le> length fileLines
         \<and> a \<le> l + MISMATCH_CONTEXT \<and> l \<le> a + MISMATCH_CONTEXT)}"
  by (auto simp: getMismatchDisplayLines_def fold_addContext set_addContext)

section \<open>Reading a shown row back\<close>

lemma natToString_all: "list_all isJsDigit (natToString n)"
  using natToString_digits by (auto simp: list_all_iff)

lemma stops_natToString [simp]:
  "(\<And>c. isJsDigit c \<Longrightarrow> \<not> P c) \<Longrightarrow> stops P (natToString n @ xs)"
proof -
  assume "\<And>c. isJsDigit c \<Longrightarrow> \<not> P c"
  moreover obtain c cs where "natToString n = c # cs" by (cases "natToString n") auto
  moreover have "isJsDigit c" using natToString_digits [of c n] calculation(2) by simp
  ultimately show ?thesis by simp
qed

lemma digit_not_mark: "isJsDigit c \<Longrightarrow> \<not> isRefMark c" "isJsDigit c \<Longrightarrow> \<not> isJsSpace c"
  by (auto simp: isJsDigit_def isRefMark_def isJsSpace_def)

lemma isRefMark_simps [simp]: "isRefMark 42" "\<not> isRefMark 32" "isJsSpace 32" "\<not> isJsSpace 42" "\<not> isJsDigit 58" "\<not> isJsSpace 58"
  by (simp_all add: isRefMark_def isJsSpace_def isJsDigit_def)

text \<open>The marker of a row, or none, is passed over.\<close>

lemma rxFirst_marker:
  assumes "m \<in> {[], [32], [42]}" and "\<And>p. rxFirst r p (natToString n @ xs) caps (q :: nat option) t"
  shows "rxFirst (RSeq rSpaces (RSeq (RStar isRefMark) (RSeq rSpaces r))) None (m @ natToString n @ xs) caps q t"
proof -
  let ?ds = "natToString n @ xs"
  have stop: "stops isJsSpace ?ds" "stops isRefMark ?ds" using digit_not_mark by auto
  have tail: "rxFirst (RSeq rSpaces r) p ?ds caps q t" for p
    using rxFirst_seq [OF rxFirst_star_none [OF stop(1)] assms(2)] by simp
  consider "m = []" | "m = [32]" | "m = [42]" using assms(1) by auto
  then show ?thesis
  proof cases
    case 1
    then show ?thesis
      using rxFirst_seq [OF rxFirst_star_none [OF stop(1)] rxFirst_seq [OF rxFirst_star_none [OF stop(2)] tail]] by simp
  next
    case 2
    then show ?thesis
      using rxFirst_seq [OF rxFirst_star [of isJsSpace "[32]", OF _ stop(1)] rxFirst_seq [OF rxFirst_star_none [OF stop(2)] tail]]
      by simp
  next
    case 3
    have "rxFirst (RSeq (RStar isRefMark) (RSeq rSpaces r)) p (42 # ?ds) caps q t" for p
      using rxFirst_seq [OF rxFirst_star [of isRefMark "[42]", OF _ stop(2)] tail] by simp
    then show ?thesis
      using 3 rxFirst_seq [OF rxFirst_star_none [of isJsSpace "42 # ?ds"]] by fastforce
  qed
qed

lemma rxFirst_line_ref:
  assumes "m \<in> {[], [32], [42]}" and "list_all (\<lambda>c. \<not> isLineTerminator c) content"
  shows "\<exists>q. rxFirst LINE_REF_RE None (m @ natToString n @ 58 # content) [natToString n] q []"
proof -
  let ?tail = "RSeq (ROpt (RSeq (rChar 58) (RStar (\<lambda>c. \<not> isLineTerminator c)))) (RSeq rSpaces (RSeq REnd REmpty))"
  let ?q = "lastOf (Some 58) content"
  have colon: "rxFirst (RSeq (rChar 58) (RStar (\<lambda>c. \<not> isLineTerminator c))) p (58 # content) [] ?q []" for p
    using rxFirst_seq [OF rxFirst_class [of "\<lambda>x. x = 58"] rxFirst_star [of "\<lambda>c. \<not> isLineTerminator c" content "[]"]] assms(2)
    by (simp add: rChar_def)
  have fin: "rxFirst (RSeq rSpaces (RSeq REnd REmpty)) p [] [] p []" for p
    using rxFirst_seq [OF rxFirst_star_none [of isJsSpace "[]"] rxFirst_seq [OF rxFirst_end rxFirst_empty]] by simp
  have tail: "rxFirst ?tail p (58 # content) [] ?q []" for p
    using rxFirst_seq [OF rxFirst_opt [OF colon] fin] by simp
  have digits: "rxFirst (RGroup rDigits1) p (natToString n @ 58 # content) [natToString n] (lastOf p (natToString n)) (58 # content)" for p
    by (rule rxFirst_group, rule rxFirst_plus) (simp_all add: natToString_all)
  have body: "rxFirst (RSeq (RGroup rDigits1) ?tail) p (natToString n @ 58 # content) [natToString n] ?q []" for p
    using rxFirst_seq [OF digits tail] by simp
  show ?thesis
    using rxFirst_marker [OF assms(1) body] by (auto simp: LINE_REF_RE_def)
qed

text \<open>
  Every row the diagnostic shows reads back as the line reference it stands for, with its marker and its
  text; so does a numbered row of a file view.
\<close>

theorem parseTag_reads_rows:
  assumes "0 < n" and "m \<in> {[], js '' '', js ''*''}" and "list_all (\<lambda>c. \<not> isLineTerminator c) content"
  shows "parseTag (m @ formatNumberedLine n content) = Inr n"
proof -
  have "m \<in> {[], [32], [42]}" using assms(2) by auto
  from rxFirst_line_ref [OF this assms(3)] obtain q where
    "rxFirst LINE_REF_RE None (m @ natToString n @ 58 # content) [natToString n] q []" by blast
  from rxFirst_exec [OF this] show ?thesis
    using assms(1) by (simp add: parseTag_def formatNumberedLine_def hl_keyword_defs)
qed

theorem parseTag_reads_rows_witness: "parseTag (js ''*12:foo'') = Inr 12"
  using parseTag_reads_rows [of 12 "js ''*''" "js ''foo''"]
  by (simp add: isLineTerminator_def formatNumberedLine_def hl_keyword_defs natToString.simps)

end
