(* ===== verification/Hl_Prefixes.thy ===== *)
theory Hl_Prefixes
  imports Hl_Mismatch Hl_Tokenizer_Facts
begin

text \<open>
  packages/hashline/src/prefixes.ts: payload rows that a model copied from a file view or a diff, with
  line numbers or plus signs before the text, are recognised and stripped.
\<close>

definition isListMark :: "nat \<Rightarrow> bool" where
  "isListMark c \<longleftrightarrow> c = 43 \<or> c = 42 \<or> c = 45"

definition rQuoteMark :: regex where
  "rQuoteMark = ROpt (RAlt (rLit (js ''>>>'')) (rLit (js ''>>'')))"

definition HL_PREFIX_RE :: regex where
  "HL_PREFIX_RE = rSeqs [rSpaces, rQuoteMark, rSpaces, ROpt (RSeq (RClass isListMark) rSpaces), rDigits1, rChar 58]"

definition HL_PREFIX_PLUS_RE :: regex where
  "HL_PREFIX_PLUS_RE = rSeqs [rSpaces, rQuoteMark, rSpaces, rChar 43, rSpaces, rDigits1, rChar 58]"

definition HL_HEADER_RE :: regex where
  "HL_HEADER_RE = rSeqs [rSpaces, rChar 182, RPlus (\<lambda>c. \<not> isJsSpace c), rChar 35,
     RClass isHexDigitCode, RClass isHexDigitCode, RClass isHexDigitCode, rSpaces, REnd]"

definition DIFF_PLUS_RE :: regex where
  "DIFF_PLUS_RE = RSeq (rChar 43) (RNotAhead (rChar 43))"

definition READ_TRUNCATION_NOTICE_RE :: regex where
  "READ_TRUNCATION_NOTICE_RE = rSeqs [rChar 91,
     RAlt (rSeqs [rLit (js ''Showing lines ''), rDigits1, rChar 45, rDigits1, rLit (js '' of ''), rDigits1])
          (rSeqs [rDigits1, rLit (js '' more line''), ROpt (rChar 115), rLit (js '' in ''),
             RAlt (rLit (js ''file'')) (RPlus (\<lambda>c. \<not> isJsSpace c))]),
     RWordBoundary, RStar (\<lambda>c. \<not> isLineTerminator c), RWordBoundary, rLit (js ''Use :''), ROpt (rChar 76), rDigits1]"

function stripLeadingHashlinePrefixes :: "jstring \<Rightarrow> jstring" where
  "stripLeadingHashlinePrefixes line =
     (let result = rxStrip HL_PREFIX_RE line in
      if result \<noteq> line then stripLeadingHashlinePrefixes result else result)"
  by pat_completeness auto
termination
proof (relation "measure length")
  fix line result
  assume r: "result = rxStrip HL_PREFIX_RE line" "result \<noteq> line"
  have "suffix (rxStrip HL_PREFIX_RE line) line" by (rule suffix_rxStrip)
  then show "(result, line) \<in> measure length"
    using r by (metis in_measure suffix_length_le le_neq_implies_less suffix_order.eq_iff suffix_def append_Nil length_append add_cancel_right_left length_0_conv)
qed simp

declare stripLeadingHashlinePrefixes.simps [simp del]

record line_prefix_stats =
  stNonEmpty :: nat
  stHeaders :: nat
  stHashPrefixes :: nat
  stPlusHashPrefixes :: nat
  stPlus :: nat
  stNotices :: nat

definition emptyStats :: line_prefix_stats where
  "emptyStats = \<lparr>stNonEmpty = 0, stHeaders = 0, stHashPrefixes = 0, stPlusHashPrefixes = 0, stPlus = 0, stNotices = 0\<rparr>"

definition countIf :: "bool \<Rightarrow> nat \<Rightarrow> nat" where
  "countIf b n = (if b then n + 1 else n)"

definition lineStats :: "jstring \<Rightarrow> line_prefix_stats \<Rightarrow> line_prefix_stats" where
  "lineStats line st =
     (if length line = 0 then st
      else if rxTest READ_TRUNCATION_NOTICE_RE line then st\<lparr>stNotices := stNotices st + 1\<rparr>
      else if rxTest HL_HEADER_RE line then st\<lparr>stNonEmpty := stNonEmpty st + 1, stHeaders := stHeaders st + 1\<rparr>
      else st\<lparr>stNonEmpty := stNonEmpty st + 1,
              stHashPrefixes := countIf (rxTest HL_PREFIX_RE line) (stHashPrefixes st),
              stPlusHashPrefixes := countIf (rxTest HL_PREFIX_PLUS_RE line) (stPlusHashPrefixes st),
              stPlus := countIf (rxTest DIFF_PLUS_RE line) (stPlus st)\<rparr>)"

definition collectLinePrefixStats :: "jstring list \<Rightarrow> line_prefix_stats" where
  "collectLinePrefixStats lns = fold lineStats lns emptyStats"

text \<open>The comparison with half the count is made in integers.\<close>

definition stripNewLinePrefixes :: "jstring list \<Rightarrow> jstring list" where
  "stripNewLinePrefixes lns =
     (let stats = collectLinePrefixStats lns in
      if stNonEmpty stats = 0 then lns
      else let contentLineCount = stNonEmpty stats - stHeaders stats;
               stripHash = (contentLineCount > 0 \<and> stHashPrefixes stats = contentLineCount);
               stripPlus = (\<not> stripHash \<and> stPlusHashPrefixes stats = 0 \<and> stPlus stats > 0
                 \<and> 2 * stPlus stats \<ge> stNonEmpty stats)
           in if \<not> stripHash \<and> \<not> stripPlus \<and> stPlusHashPrefixes stats = 0 then lns
              else map (\<lambda>line.
                    if stripHash then stripLeadingHashlinePrefixes line
                    else if stripPlus then rxStrip DIFF_PLUS_RE line
                    else if stPlusHashPrefixes stats > 0 \<and> rxTest HL_PREFIX_PLUS_RE line then rxStrip HL_PREFIX_RE line
                    else line)
                  (filter (\<lambda>line. \<not> rxTest READ_TRUNCATION_NOTICE_RE line \<and> \<not> (stripHash \<and> rxTest HL_HEADER_RE line)) lns))"

definition stripHashlinePrefixes :: "jstring list \<Rightarrow> jstring list" where
  "stripHashlinePrefixes lns =
     (let stats = collectLinePrefixStats lns in
      if stNonEmpty stats = 0 then lns
      else let contentLineCount = stNonEmpty stats - stHeaders stats in
        if contentLineCount = 0 \<or> stHashPrefixes stats \<noteq> contentLineCount then lns
        else map stripLeadingHashlinePrefixes
          (filter (\<lambda>line. \<not> rxTest READ_TRUNCATION_NOTICE_RE line \<and> \<not> rxTest HL_HEADER_RE line) lns))"

datatype edit_text = EditNull | EditString jstring | EditLines "jstring list"

fun hashlineParseText :: "edit_text \<Rightarrow> jstring list" where
  "hashlineParseText EditNull = []"
| "hashlineParseText (EditString edit) =
     (let trimmed = (if endsWith edit [CHAR_LINE_FEED] then butlast edit else edit) in
      stripNewLinePrefixes (splitLines (filter (\<lambda>c. c \<noteq> CHAR_CARRIAGE_RETURN) trimmed)))"
| "hashlineParseText (EditLines edit) = stripNewLinePrefixes edit"

section \<open>Stripping leaves no prefix\<close>

lemma stripLeading_fixpoint: "rxStrip HL_PREFIX_RE (stripLeadingHashlinePrefixes line) = stripLeadingHashlinePrefixes line"
  by (induction line rule: stripLeadingHashlinePrefixes.induct)
    (subst (1 2) stripLeadingHashlinePrefixes.simps, auto simp: Let_def)

lemma suffix_stripLeading: "suffix (stripLeadingHashlinePrefixes line) line"
proof (induction line rule: stripLeadingHashlinePrefixes.induct)
  case (1 line)
  then show ?case
    by (subst stripLeadingHashlinePrefixes.simps)
      (auto simp: Let_def intro: suffix_order.trans suffix_rxStrip)
qed

section \<open>A numbered view comes back as its text\<close>

definition numberedLines :: "nat \<Rightarrow> jstring list \<Rightarrow> jstring list" where
  "numberedLines start lns = map (\<lambda>(i, line). formatNumberedLine (start + i) line) (enumerate 0 lns)"

lemma numbered_head:
  obtains c cs where "formatNumberedLine n line = c # cs" "isJsDigit c"
  using natToString_digits [of _ n] by (cases "natToString n") (auto simp: formatNumberedLine_def)

lemma digit_class: "isJsDigit c \<Longrightarrow> c \<noteq> 91 \<and> c \<noteq> 182 \<and> c \<noteq> 62 \<and> \<not> isListMark c \<and> \<not> isJsSpace c \<and> c \<noteq> 43"
  by (auto simp: isJsDigit_def isListMark_def isJsSpace_def)

lemma rx_char_mismatch: "c \<noteq> d \<Longrightarrow> rx (RSeq (rChar d) r) p (c # cs) = []"
  by (simp add: rChar_def)

lemma rx_star_pass: "stops P s \<Longrightarrow> rx (RSeq (RStar P) r) p s = rx r p s"
  by (cases s) (simp_all add: case_prod_beta)

lemma numbered_not_notice: "\<not> rxTest READ_TRUNCATION_NOTICE_RE (formatNumberedLine n line)"
  unfolding rxTest_def READ_TRUNCATION_NOTICE_RE_def rSeqs.simps(2) [of "rChar 91"]
  by (rule numbered_head [of n line]) (metis digit_class rx_char_mismatch)

lemma numbered_not_header: "\<not> rxTest HL_HEADER_RE (formatNumberedLine n line)"
proof (rule numbered_head [of n line])
  fix c cs assume c: "formatNumberedLine n line = c # cs" "isJsDigit c"
  then have "stops isJsSpace (c # cs)" "c \<noteq> 182" by (simp_all add: digit_class)
  then show ?thesis
    unfolding rxTest_def HL_HEADER_RE_def rSeqs.simps c(1) rx_star_pass [OF \<open>stops isJsSpace (c # cs)\<close>]
    by (simp only: rx_char_mismatch not_True_eq_False simp_thms)
qed

lemma numbered_prefix: "\<exists>q. rxFirst HL_PREFIX_RE None (formatNumberedLine n line) [] q line"
proof -
  let ?s = "natToString n @ 58 # line"
  have sp: "rxFirst rSpaces p ?s [] p ?s" for p
    by (rule rxFirst_star_none, rule stops_natToString) (auto dest: digit_class)
  obtain c cs where c: "?s = c # cs" "isJsDigit c"
    by (rule numbered_head [of n line]) (auto simp: formatNumberedLine_def hl_keyword_defs)
  have "rx (RAlt (rLit (js ''>>>'')) (rLit (js ''>>''))) p ?s = []" for p
    using c digit_class [OF c(2)] by (simp add: rChar_def)
  then have quote: "rxFirst rQuoteMark p ?s [] p ?s" for p
    unfolding rQuoteMark_def by (rule rxFirst_opt_none)
  have mark: "rxFirst (ROpt (RSeq (RClass isListMark) rSpaces)) p ?s [] p ?s" for p
    by (rule rxFirst_opt_none) (use c in \<open>auto dest: digit_class\<close>)
  have digits: "rxFirst rDigits1 p ?s [] (lastOf p (natToString n)) (58 # line)" for p
    by (rule rxFirst_plus) (simp_all add: natToString_all)
  have colon: "rxFirst (RSeq (rChar 58) REmpty) p (58 # line) [] (Some 58) line" for p
    using rxFirst_seq [OF rxFirst_class [of "\<lambda>x. x = 58"] rxFirst_empty] by (simp add: rChar_def)
  show ?thesis
    using rxFirst_seq [OF sp rxFirst_seq [OF quote rxFirst_seq [OF sp rxFirst_seq [OF mark rxFirst_seq [OF digits colon]]]]]
    by (auto simp: HL_PREFIX_RE_def formatNumberedLine_def hl_keyword_defs)
qed

lemma numbered_strip:
  "rxTest HL_PREFIX_RE (formatNumberedLine n line)"
  "rxStrip HL_PREFIX_RE line = line \<Longrightarrow> stripLeadingHashlinePrefixes (formatNumberedLine n line) = line"
proof -
  obtain q where q: "rxFirst HL_PREFIX_RE None (formatNumberedLine n line) [] q line" using numbered_prefix by blast
  show "rxTest HL_PREFIX_RE (formatNumberedLine n line)" by (rule rxFirst_test [OF q])
  have "rxStrip HL_PREFIX_RE (formatNumberedLine n line) = line"
    using rxFirst_exec [OF q] by (simp add: rxStrip_def)
  moreover have "line \<noteq> formatNumberedLine n line"
    by (metis formatNumberedLine_def append_self_conv2 natToString_not_Nil append_is_Nil_conv append.assoc)
  ultimately show "rxStrip HL_PREFIX_RE line = line \<Longrightarrow> stripLeadingHashlinePrefixes (formatNumberedLine n line) = line"
    by (subst stripLeadingHashlinePrefixes.simps) (simp add: stripLeadingHashlinePrefixes.simps [of line])
qed

lemma lineStats_numbered:
  "lineStats (formatNumberedLine n line) st =
     st\<lparr>stNonEmpty := stNonEmpty st + 1, stHashPrefixes := stHashPrefixes st + 1,
        stPlusHashPrefixes := countIf (rxTest HL_PREFIX_PLUS_RE (formatNumberedLine n line)) (stPlusHashPrefixes st),
        stPlus := countIf (rxTest DIFF_PLUS_RE (formatNumberedLine n line)) (stPlus st)\<rparr>"
  using numbered_not_notice [of n line] numbered_not_header [of n line] numbered_strip(1) [of n line]
  by (rule_tac numbered_head [of n line]) (simp add: lineStats_def countIf_def)

lemma numberedStats:
  "(let st' = fold lineStats (map (\<lambda>(n, line). formatNumberedLine n line) nls) st in
    stNonEmpty st' = stNonEmpty st + length nls \<and> stHashPrefixes st' = stHashPrefixes st + length nls
    \<and> stHeaders st' = stHeaders st)"
  by (induction nls arbitrary: st) (auto simp: Let_def lineStats_numbered)

text \<open>Rows copied from a numbered view come back as their text, in the tolerant and in the strict mode,
  whatever the numbers, when no row of the text itself starts like a numbered row.
\<close>

theorem numbered_view_stripped:
  assumes "list_all (\<lambda>line. rxStrip HL_PREFIX_RE line = line) lns"
  shows "stripNewLinePrefixes (numberedLines start lns) = lns \<and> stripHashlinePrefixes (numberedLines start lns) = lns"
proof -
  let ?nls = "map (\<lambda>(i, line). (start + i, line)) (enumerate 0 lns)"
  have nl: "numberedLines start lns = map (\<lambda>(n, line). formatNumberedLine n line) ?nls"
    by (simp add: numberedLines_def case_prod_beta comp_def)
  have stats: "stNonEmpty (collectLinePrefixStats (numberedLines start lns)) = length lns"
    "stHashPrefixes (collectLinePrefixStats (numberedLines start lns)) = length lns"
    "stHeaders (collectLinePrefixStats (numberedLines start lns)) = 0"
    using numberedStats [of ?nls emptyStats]
    by (simp_all add: nl collectLinePrefixStats_def emptyStats_def Let_def)
  have kept: "filter (\<lambda>line. \<not> rxTest READ_TRUNCATION_NOTICE_RE line \<and> \<not> rxTest HL_HEADER_RE line) (numberedLines start lns)
      = numberedLines start lns"
    unfolding filter_id_conv
    by (auto simp: numberedLines_def numbered_not_notice numbered_not_header)
  have "map stripLeadingHashlinePrefixes (numberedLines start lns) = map snd (enumerate 0 lns)"
    unfolding numberedLines_def map_map
  proof (rule map_cong [OF refl])
    fix x assume "x \<in> set (enumerate 0 lns)"
    then have "snd x \<in> set lns" by (simp add: in_set_enumerate_eq) (metis nth_mem)
    then have "rxStrip HL_PREFIX_RE (snd x) = snd x" using assms by (simp add: list_all_iff)
    from numbered_strip(2) [OF this]
    show "(stripLeadingHashlinePrefixes \<circ> (\<lambda>(i, line). formatNumberedLine (start + i) line)) x = snd x"
      by (simp add: case_prod_beta)
  qed
  then have strip: "map stripLeadingHashlinePrefixes (numberedLines start lns) = lns" by simp
  show ?thesis
  proof (cases "lns = []")
    case True
    then show ?thesis
      by (simp add: numberedLines_def stripNewLinePrefixes_def stripHashlinePrefixes_def collectLinePrefixStats_def
          emptyStats_def)
  next
    case False
    then show ?thesis
      using stats kept strip by (simp add: stripNewLinePrefixes_def stripHashlinePrefixes_def Let_def)
  qed
qed

theorem numbered_view_stripped_witness:
  "stripNewLinePrefixes [js ''7:a'', js ''8:b''] = [js ''a'', js ''b'']"
proof -
  have "list_all (\<lambda>line. rxStrip HL_PREFIX_RE line = line) [js ''a'', js ''b'']"
    by (simp add: rxStrip_def rxExec_def HL_PREFIX_RE_def rQuoteMark_def rChar_def isJsSpace_def isJsDigit_def isListMark_def)
  from numbered_view_stripped [OF this, of 7] show ?thesis
    by (simp add: numberedLines_def formatNumberedLine_def hl_keyword_defs natToString.simps)
qed

section \<open>The header of a view\<close>

text \<open>What the parts of an expression consume.\<close>

lemma rx_parts:
  "(c, q, t) \<in> set (rx (RClass P) p s) \<Longrightarrow> \<exists>x. s = x # t \<and> P x"
  "(c, q, t) \<in> set (rx (RStar P) p s) \<Longrightarrow> \<exists>xs. s = xs @ t \<and> list_all P xs"
  "(c, q, t) \<in> set (rx (RPlus P) p s) \<Longrightarrow> \<exists>xs. s = xs @ t"
  "(c, q, t) \<in> set (rx REnd p s) \<Longrightarrow> s = [] \<and> t = []"
  "(c, q, t) \<in> set (rx REmpty p s) \<Longrightarrow> s = t"
  using rx_suffix [of c q t "RPlus P" p s] starGreedy_set [of c q t P p s]
  by (auto simp: suffix_def split: list.splits if_splits)

lemma header_re_shape:
  assumes "rxTest HL_HEADER_RE line"
  shows "\<exists>ws xs a b c ws'. line = ws @ 182 # xs @ 35 # a # b # c # ws' \<and> list_all isJsSpace ws \<and> list_all isJsSpace ws'
     \<and> isHexDigitCode a \<and> isHexDigitCode b \<and> isHexDigitCode c"
proof -
  obtain caps q t where "(caps, q, t) \<in> set (rx HL_HEADER_RE None line)"
    using assms by (cases "rx HL_HEADER_RE None line") (auto simp: rxTest_def)
  then show ?thesis
    unfolding HL_HEADER_RE_def rSeqs.simps rChar_def
    by (auto simp del: rx.simps dest!: in_rx_RSeq rx_parts, blast)
qed

text \<open>
  \<open>HL_HEADER_RE\<close> wants three hexadecimal digits; the tags that \<open>formatHashlineHeader\<close> writes have four,
  so it accepts none of them.
\<close>

lemma header_not_recognised:
  assumes "plainPath path" and "validTag tag"
  shows "\<not> rxTest HL_HEADER_RE (formatHashlineHeader path tag)"
proof
  assume "rxTest HL_HEADER_RE (formatHashlineHeader path tag)"
  then obtain ws xs a b c ws' where eq: "182 # path @ 35 # tag = ws @ 182 # xs @ 35 # a # b # c # ws'"
    and sp: "list_all isJsSpace ws" "list_all isJsSpace ws'" and hex: "isHexDigitCode a" "isHexDigitCode b" "isHexDigitCode c"
    using header_re_shape [of "formatHashlineHeader path tag"] by (auto simp: formatHashlineHeader_def hl_keyword_defs)
  have "ws = []" using eq sp(1) by (cases ws) (auto simp: isJsSpace_def)
  with eq have split: "path @ 35 # tag = xs @ 35 # a # b # c # ws'" by simp
  have p: "35 \<notin> set path" using assms(1) by (auto simp: plainPath_def list_all_iff CHAR_HASH_def)
  have t: "length tag = 4" "list_all isUpperHex tag" using assms(2) by (auto simp: validTag_def HL_FILE_HASH_LENGTH_def)
  then have t35: "35 \<notin> set tag" by (auto simp: list_all_iff isUpperHex_def isJsDigit_def)
  have "35 \<notin> set (a # b # c # ws')"
    using hex sp(2) by (auto simp: list_all_iff isJsSpace_def isHexDigitCode_def isDigitCode_def hl_char_defs)
  then have "path = xs" "tag = a # b # c # ws'"
    using split p t35 by (metis append_Cons_eq_iff)+
  moreover from this have "length ws' = 1" using t(1) by simp
  then obtain d where "ws' = [d]" by (cases ws') auto
  ultimately have "isUpperHex d" "isJsSpace d" using t(2) sp(2) by auto
  then show False by (auto simp: isUpperHex_def isJsDigit_def isJsSpace_def)
qed

text \<open>The header that a file view carries is not recognised: with it in front, the rows of a numbered view
  come back with their numbers, in the strict mode, although every row below the header is numbered.
\<close>

theorem view_header_blocks_strip:
  assumes "plainPath path" and "validTag tag" and "lns \<noteq> []"
  shows "stripHashlinePrefixes (formatHashlineHeader path tag # numberedLines start lns)
     = formatHashlineHeader path tag # numberedLines start lns"
proof -
  let ?h = "formatHashlineHeader path tag"
  let ?nls = "map (\<lambda>(i, line). (start + i, line)) (enumerate 0 lns)"
  have nl: "numberedLines start lns = map (\<lambda>(n, line). formatNumberedLine n line) ?nls"
    by (simp add: numberedLines_def case_prod_beta comp_def)
  obtain cs where h: "?h = 182 # cs" by (simp add: formatHashlineHeader_def hl_keyword_defs)
  have "\<not> rxTest READ_TRUNCATION_NOTICE_RE ?h"
    unfolding rxTest_def READ_TRUNCATION_NOTICE_RE_def rSeqs.simps(2) [of "rChar 91"] h by (simp add: rChar_def)
  moreover have "\<not> rxTest HL_PREFIX_RE ?h"
    unfolding h by (simp add: rxTest_def HL_PREFIX_RE_def rQuoteMark_def rChar_def isJsSpace_def isListMark_def isJsDigit_def)
  ultimately have one: "lineStats ?h emptyStats = emptyStats\<lparr>stNonEmpty := 1,
      stPlusHashPrefixes := countIf (rxTest HL_PREFIX_PLUS_RE ?h) 0, stPlus := countIf (rxTest DIFF_PLUS_RE ?h) 0\<rparr>"
    using header_not_recognised [OF assms(1,2)] h by (simp add: lineStats_def countIf_def emptyStats_def)
  show ?thesis
    using numberedStats [of ?nls "lineStats ?h emptyStats"] assms(3)
    by (simp add: nl collectLinePrefixStats_def one Let_def stripHashlinePrefixes_def) (simp add: emptyStats_def)
qed

theorem view_header_blocks_strip_witness:
  "stripHashlinePrefixes [formatHashlineHeader (js ''a'') (js ''0A3F''), js ''1:x''] =
     [formatHashlineHeader (js ''a'') (js ''0A3F''), js ''1:x'']"
  using view_header_blocks_strip [of "js ''a''" "js ''0A3F''" "[js ''x'']" 1]
  by (simp add: plainPath_def validTag_def HL_FILE_HASH_LENGTH_def isUpperHex_def isJsDigit_def hl_char_defs
      numberedLines_def formatNumberedLine_def hl_keyword_defs natToString.simps)

end
