(* ===== verification/Js_Value.thy ===== *)
theory Js_Value
  imports Complex_Main Js_Base
begin

text \<open>
  The dynamic values (\<open>unknown\<close>) of the workflow code: what JSON, YAML and plain object literals build. A
  number is an IEEE double, given by the rational it stands for (both zeros are \<open>0\<close>; the code cannot tell
  them apart). An object is its own properties in insertion order; reading a property it lacks falls back
  to \<open>Object.prototype\<close>, whose members are functions (\<open>JFun\<close>). The accessor \<open>__proto__\<close> is not in the model,
  nor are objects with other prototypes, accessors or an own \<open>toJSON\<close> function. Values are trees: sharing
  of one object by two holders is not represented.
\<close>

datatype jsnum = NumNaN | NumInf bool | NumFin rat

datatype js_val =
    JUndef
  | JNull
  | JBool bool
  | JNum jsnum
  | JStr jstring
  | JArr "js_val list"
  | JObj "(jstring \<times> js_val) list"
  | JFun jstring

type_synonym js_obj = "(jstring \<times> js_val) list"

definition objectPrototypeNames :: "jstring list" where
  "objectPrototypeNames = map js [''constructor'', ''hasOwnProperty'', ''isPrototypeOf'', ''propertyIsEnumerable'',
     ''toLocaleString'', ''toString'', ''valueOf'', ''__defineGetter__'', ''__defineSetter__'', ''__lookupGetter__'',
     ''__lookupSetter__'']"

definition objGet :: "js_obj \<Rightarrow> jstring \<Rightarrow> js_val" where
  "objGet o' k =
     (case map_of o' k of
        Some v \<Rightarrow> v
      | None \<Rightarrow> if k \<in> set objectPrototypeNames then JFun k else JUndef)"

fun isRecord :: "js_val \<Rightarrow> bool" where
  "isRecord (JObj _) = True"
| "isRecord _ = False"

lemma isRecord_iff: "isRecord v \<longleftrightarrow> (\<exists>o'. v = JObj o')"
  by (cases v) simp_all

lemma objGet_mapSet: "objGet (mapSet k v o') k' = (if k' = k then v else objGet o' k')"
  by (simp add: objGet_def)

text \<open>The order in which \<open>Object.entries\<close> and \<open>JSON.stringify\<close> visit the own properties: array indices
  ascending, then the others in insertion order.\<close>

definition isArrayIndex :: "jstring \<Rightarrow> bool" where
  "isArrayIndex k \<longleftrightarrow> k \<noteq> [] \<and> list_all isJsDigit k \<and> (length k = 1 \<or> hd k \<noteq> 48) \<and> digitsValue k < 2 ^ 32 - 1"

definition objEntries :: "js_obj \<Rightarrow> js_obj" where
  "objEntries o' =
     sort_key (\<lambda>p. digitsValue (fst p)) (filter (\<lambda>p. isArrayIndex (fst p)) o')
     @ filter (\<lambda>p. \<not> isArrayIndex (fst p)) o'"

lemma set_objEntries [simp]: "set (objEntries o') = set o'"
  by (auto simp: objEntries_def)

lemma length_objEntries: "length (objEntries o') = length o'"
  using sum_length_filter_compl [of "\<lambda>p. isArrayIndex (fst p)" o'] by (simp add: objEntries_def)

section \<open>Numbers\<close>

fun bitLength :: "nat \<Rightarrow> nat" where
  "bitLength n = (if n = 0 then 0 else Suc (bitLength (n div 2)))"

declare bitLength.simps [simp del]

definition roundHalfEven :: "nat \<Rightarrow> nat \<Rightarrow> nat" where
  "roundHalfEven n d =
     (let q = n div d; r = n mod d in
      if 2 * r < d then q else if d < 2 * r then q + 1 else if even q then q else q + 1)"

text \<open>The exponent that leaves 53 bits for the significand of \<open>n / d\<close>, but for the subnormals.\<close>

definition doubleExponent :: "nat \<Rightarrow> nat \<Rightarrow> int" where
  "doubleExponent n d =
     (let e0 = int (bitLength n) - int (bitLength d) - 53;
          below = (if 0 \<le> e0 + 53 then n < d * 2 ^ nat (e0 + 53) else n * 2 ^ nat (- (e0 + 53)) < d)
      in max (- 1074) (if below then e0 else e0 + 1))"

text \<open>The double nearest to \<open>n / d\<close>, ties to the even significand.\<close>

definition nearestDouble :: "bool \<Rightarrow> nat \<Rightarrow> nat \<Rightarrow> jsnum" where
  "nearestDouble negative n d =
     (if n = 0 then NumFin 0
      else
        let e = doubleExponent n d;
            m = (if 0 \<le> e then roundHalfEven n (d * 2 ^ nat e) else roundHalfEven (n * 2 ^ nat (- e)) d);
            x = (if 0 \<le> e then rat_of_nat m * 2 ^ nat e else rat_of_nat m / 2 ^ nat (- e))
        in if 2 ^ 1024 \<le> x then NumInf negative else NumFin (if negative then - x else x))"

text \<open>\<open>Number\<close> of a decimal literal \<open>-?\d+(\.\d+)?\<close>, given by its parts.\<close>

definition decimalNumber :: "bool \<Rightarrow> jstring \<Rightarrow> jstring \<Rightarrow> jsnum" where
  "decimalNumber negative whole fraction = nearestDouble negative (digitsValue (whole @ fraction)) (10 ^ length fraction)"

text \<open>\<open>Number.prototype.toString\<close>: the fewest digits that read back as the number, the nearest of those.\<close>

definition decimalExponent :: "nat \<Rightarrow> nat \<Rightarrow> int" where
  "decimalExponent p q =
     (let n0 = int (length (natToString p)) - int (length (natToString q));
          below = (if 0 \<le> n0 then p < q * 10 ^ nat n0 else p * 10 ^ nat (- n0) < q)
      in if below then n0 else n0 + 1)"

definition readsBack :: "nat \<Rightarrow> nat \<Rightarrow> nat \<Rightarrow> int \<Rightarrow> bool" where
  "readsBack p q s e =
     (nearestDouble False (if 0 \<le> e then s * 10 ^ nat e else s) (if 0 \<le> e then 1 else 10 ^ nat (- e)) =
      NumFin (rat_of_nat p / rat_of_nat q))"

text \<open>The neighbours \<open>s * 10 ^ e\<close> of \<open>p / q\<close>, the nearest first.\<close>

definition digitCandidates :: "nat \<Rightarrow> nat \<Rightarrow> int \<Rightarrow> nat \<times> nat" where
  "digitCandidates p q e =
     (let num = (if 0 \<le> e then p else p * 10 ^ nat (- e));
          den = (if 0 \<le> e then q * 10 ^ nat e else q);
          lo = num div den
      in if 2 * (num mod den) \<le> den then (lo, lo + 1) else (lo + 1, lo))"

primrec shortestDigits :: "nat \<Rightarrow> nat \<Rightarrow> nat \<Rightarrow> int \<Rightarrow> nat \<times> int" where
  "shortestDigits 0 p q e = (fst (digitCandidates p q e), e)"
| "shortestDigits (Suc left) p q e =
     (let (near, far) = digitCandidates p q e in
      if readsBack p q near e then (near, e)
      else if readsBack p q far e then (far, e)
      else shortestDigits left p q (e - 1))"

definition formatDecimal :: "nat \<Rightarrow> int \<Rightarrow> jstring" where
  "formatDecimal s e =
     (let digits = natToString s; k = int (length digits); n = k + e; zero = (\<lambda>i. replicate (nat i) 48);
          expo = (if n \<ge> 1 then js ''e+'' @ natToString (nat (n - 1)) else js ''e-'' @ natToString (nat (1 - n)))
      in if k \<le> n \<and> n \<le> 21 then digits @ zero (n - k)
         else if 0 < n \<and> n \<le> 21 then take (nat n) digits @ js ''.'' @ drop (nat n) digits
         else if -6 < n \<and> n \<le> 0 then js ''0.'' @ zero (- n) @ digits
         else if k = 1 then digits @ expo
         else take 1 digits @ js ''.'' @ drop 1 digits @ expo)"

text \<open>Trailing zeros of the digits belong to the exponent.\<close>

fun stripZeros :: "nat \<Rightarrow> int \<Rightarrow> nat \<times> int" where
  "stripZeros s e = (if s \<noteq> 0 \<and> s mod 10 = 0 then stripZeros (s div 10) (e + 1) else (s, e))"

declare stripZeros.simps [simp del]

definition numberToString :: "jsnum \<Rightarrow> jstring" where
  "numberToString x =
     (case x of
        NumNaN \<Rightarrow> js ''NaN''
      | NumInf negative \<Rightarrow> (if negative then js ''-Infinity'' else js ''Infinity'')
      | NumFin r \<Rightarrow>
          if r = 0 then js ''0''
          else
            let (p, q) = quotient_of \<bar>r\<bar>;
                (s, e) = shortestDigits 16 (nat p) (nat q) (decimalExponent (nat p) (nat q) - 1);
                (s', e') = stripZeros s e
            in (if r < 0 then js ''-'' else []) @ formatDecimal s' e')"

text \<open>The relational operators on numbers; every comparison with \<open>NaN\<close> is false.\<close>

fun numLess :: "jsnum \<Rightarrow> jsnum \<Rightarrow> bool" where
  "numLess NumNaN _ = False"
| "numLess _ NumNaN = False"
| "numLess (NumInf a) (NumInf b) = (a \<and> \<not> b)"
| "numLess (NumInf a) (NumFin _) = a"
| "numLess (NumFin _) (NumInf b) = (\<not> b)"
| "numLess (NumFin x) (NumFin y) = (x < y)"

definition numEq :: "jsnum \<Rightarrow> jsnum \<Rightarrow> bool" where
  "numEq x y \<longleftrightarrow> x = y \<and> x \<noteq> NumNaN"

definition numLessEq :: "jsnum \<Rightarrow> jsnum \<Rightarrow> bool" where
  "numLessEq x y \<longleftrightarrow> numLess x y \<or> numEq x y"

fun isFiniteNumber :: "jsnum \<Rightarrow> bool" where
  "isFiniteNumber (NumFin _) = True"
| "isFiniteNumber _ = False"

lemma numLess_trichotomy:
  "x \<noteq> NumNaN \<Longrightarrow> y \<noteq> NumNaN \<Longrightarrow> numLess y x \<longleftrightarrow> \<not> numLessEq x y"
  by (cases x; cases y) (auto simp: numLessEq_def numEq_def)

section \<open>UTF-8 lengths\<close>

text \<open>The UTF-8 length of a string; a lone surrogate is encoded as the replacement character.\<close>

definition isHighSurrogate :: "nat \<Rightarrow> bool" where "isHighSurrogate c \<longleftrightarrow> 55296 \<le> c \<and> c \<le> 56319"
definition isLowSurrogate :: "nat \<Rightarrow> bool" where "isLowSurrogate c \<longleftrightarrow> 56320 \<le> c \<and> c \<le> 57343"

fun utf8Length :: "jstring \<Rightarrow> nat" where
  "utf8Length [] = 0"
| "utf8Length (c # cs) =
     (if c < 128 then 1 + utf8Length cs
      else if c < 2048 then 2 + utf8Length cs
      else if isHighSurrogate c \<and> cs \<noteq> [] \<and> isLowSurrogate (hd cs) then 4 + utf8Length (tl cs)
      else 3 + utf8Length cs)"

section \<open>JSON\<close>

definition hexDigit :: "nat \<Rightarrow> nat" where
  "hexDigit n = (if n < 10 then 48 + n else 87 + n)"

definition unicodeEscape :: "nat \<Rightarrow> jstring" where
  "unicodeEscape c =
     [92, 117, hexDigit (c div 4096), hexDigit (c div 256 mod 16), hexDigit (c div 16 mod 16), hexDigit (c mod 16)]"

fun jsonQuoteBody :: "jstring \<Rightarrow> jstring" where
  "jsonQuoteBody [] = []"
| "jsonQuoteBody (c # cs) =
     (if c = 34 then [92, 34] @ jsonQuoteBody cs
      else if c = 92 then [92, 92] @ jsonQuoteBody cs
      else if c = 8 then [92, 98] @ jsonQuoteBody cs
      else if c = 9 then [92, 116] @ jsonQuoteBody cs
      else if c = 10 then [92, 110] @ jsonQuoteBody cs
      else if c = 12 then [92, 102] @ jsonQuoteBody cs
      else if c = 13 then [92, 114] @ jsonQuoteBody cs
      else if c < 32 then unicodeEscape c @ jsonQuoteBody cs
      else if isHighSurrogate c \<and> cs \<noteq> [] \<and> isLowSurrogate (hd cs) then c # hd cs # jsonQuoteBody (tl cs)
      else if isHighSurrogate c \<or> isLowSurrogate c then unicodeEscape c @ jsonQuoteBody cs
      else c # jsonQuoteBody cs)"

definition jsonQuote :: "jstring \<Rightarrow> jstring" where
  "jsonQuote s = [34] @ jsonQuoteBody s @ [34]"

text \<open>\<open>JSON.stringify\<close> without indentation; nothing for \<open>undefined\<close> and functions.\<close>

fun jsonStringify :: "js_val \<Rightarrow> jstring option" where
  "jsonStringify JUndef = None"
| "jsonStringify (JFun f) = None"
| "jsonStringify JNull = Some (js ''null'')"
| "jsonStringify (JBool b) = Some (if b then js ''true'' else js ''false'')"
| "jsonStringify (JNum x) = Some (if isFiniteNumber x then numberToString x else js ''null'')"
| "jsonStringify (JStr s) = Some (jsonQuote s)"
| "jsonStringify (JArr vs) =
     Some ([91] @ joinOn [44] (map (\<lambda>v. case jsonStringify v of None \<Rightarrow> js ''null'' | Some t \<Rightarrow> t) vs) @ [93])"
| "jsonStringify (JObj o') =
     Some ([123] @ joinOn [44] (concat (map (\<lambda>(k, r). case r of None \<Rightarrow> [] | Some t \<Rightarrow> [jsonQuote k @ [58] @ t])
       (let rs = map (\<lambda>(k, v). (k, jsonStringify v)) o' in
        sort_key (\<lambda>p. digitsValue (fst p)) (filter (\<lambda>p. isArrayIndex (fst p)) rs)
        @ filter (\<lambda>p. \<not> isArrayIndex (fst p)) rs))) @ [125])"

end
