(* ===== verification/Hl_Stream.thy ===== *)
theory Hl_Stream
  imports Js_Value Hl_Format Hl_Input
begin

text \<open>
  packages/hashline/src/stream.ts: a byte stream turned into numbered lines in bounded chunks. The
  decoding of the bytes is the runtime's \<open>TextDecoder\<close>: the stream is given as the strings that the
  decoder returned for its chunks and the string of its final call; the reader loop that pulls bytes
  is not modelled. The closure of \<open>createChunkEmitter\<close> is the record \<open>chunk_emitter\<close>.
\<close>

record stream_options =
  optStartLine :: "nat option"
  optMaxChunkLines :: "nat option"
  optMaxChunkBytes :: "nat option"

record resolved_stream_options =
  rsStartLine :: nat
  rsMaxChunkLines :: nat
  rsMaxChunkBytes :: nat

definition resolveStreamOptions :: "stream_options \<Rightarrow> resolved_stream_options" where
  "resolveStreamOptions options =
     \<lparr>rsStartLine = (case optStartLine options of None \<Rightarrow> 1 | Some n \<Rightarrow> n),
      rsMaxChunkLines = (case optMaxChunkLines options of None \<Rightarrow> 200 | Some n \<Rightarrow> n),
      rsMaxChunkBytes = (case optMaxChunkBytes options of None \<Rightarrow> 64 * 1024 | Some n \<Rightarrow> n)\<rparr>"

record chunk_emitter =
  ceLineNumber :: nat
  ceOutLines :: "jstring list"
  ceOutBytes :: nat

definition createChunkEmitter :: "resolved_stream_options \<Rightarrow> chunk_emitter" where
  "createChunkEmitter options = \<lparr>ceLineNumber = rsStartLine options, ceOutLines = [], ceOutBytes = 0\<rparr>"

definition emitterFlush :: "chunk_emitter \<Rightarrow> jstring option \<times> chunk_emitter" where
  "emitterFlush em =
     (if length (ceOutLines em) = 0 then (None, em)
      else (Some (joinLines (ceOutLines em)), em\<lparr>ceOutLines := [], ceOutBytes := 0\<rparr>))"

definition pushFlushed :: "jstring option \<Rightarrow> jstring list \<Rightarrow> jstring list" where
  "pushFlushed flushed chunks =
     (case flushed of None \<Rightarrow> chunks | Some chunk \<Rightarrow> if chunk = [] then chunks else chunks @ [chunk])"

definition emitterPushLine ::
  "resolved_stream_options \<Rightarrow> jstring \<Rightarrow> chunk_emitter \<Rightarrow> jstring list \<times> chunk_emitter" where
  "emitterPushLine options line em0 =
     (let formatted = formatNumberedLine (ceLineNumber em0) line;
          em = em0\<lparr>ceLineNumber := ceLineNumber em0 + 1\<rparr>;
          sepBytes = (if length (ceOutLines em) = 0 then 0 else 1);
          lineBytes = utf8Length formatted;
          wouldOverflow = (length (ceOutLines em) \<ge> rsMaxChunkLines options
            \<or> ceOutBytes em + sepBytes + lineBytes > rsMaxChunkBytes options);
          (chunks1, em1) = (if length (ceOutLines em) > 0 \<and> wouldOverflow
            then (case emitterFlush em of (flushed, e) \<Rightarrow> (pushFlushed flushed [], e)) else ([], em));
          outLines = ceOutLines em1 @ [formatted];
          em2 = em1\<lparr>ceOutLines := outLines,
            ceOutBytes := ceOutBytes em1 + ((if length outLines = 1 then 0 else 1) + lineBytes)\<rparr>
      in if length (ceOutLines em2) \<ge> rsMaxChunkLines options \<or> ceOutBytes em2 \<ge> rsMaxChunkBytes options
         then (case emitterFlush em2 of (flushed, e) \<Rightarrow> (pushFlushed flushed chunks1, e))
         else (chunks1, em2))"

lemma indexOf_single_less: "indexOf s [c] = Some i \<Longrightarrow> i < length s"
  by (induction s arbitrary: i) (auto split: if_splits)

function drainPending ::
  "resolved_stream_options \<Rightarrow> jstring \<Rightarrow> chunk_emitter \<Rightarrow> jstring list \<times> jstring \<times> chunk_emitter" where
  "drainPending options pending em =
     (case indexOf pending [CHAR_LINE_FEED] of
        None \<Rightarrow> ([], pending, em)
      | Some nl \<Rightarrow>
          (case emitterPushLine options (dropTrailingCR (take nl pending)) em of (outs, em1) \<Rightarrow>
            (case drainPending options (drop (nl + 1) pending) em1 of (outs2, rest, em2) \<Rightarrow> (outs @ outs2, rest, em2))))"
  by pat_completeness auto
termination
  by (relation "measure (\<lambda>(options, pending, em). length pending)") (auto dest: indexOf_single_less)

declare drainPending.simps [simp del]

record hash_stream =
  hsPending :: jstring
  hsSawAnyLine :: bool
  hsEmitter :: chunk_emitter
  hsYielded :: "jstring list"

definition streamChunk :: "resolved_stream_options \<Rightarrow> jstring \<Rightarrow> hash_stream \<Rightarrow> hash_stream" where
  "streamChunk options decoded s =
     (let pending = hsPending s @ decoded in
      case drainPending options pending (hsEmitter s) of (outs, rest, em) \<Rightarrow>
        \<lparr>hsPending = rest, hsSawAnyLine = (hsSawAnyLine s \<or> CHAR_LINE_FEED \<in> set pending), hsEmitter = em,
         hsYielded = hsYielded s @ outs\<rparr>)"

definition streamPush :: "resolved_stream_options \<Rightarrow> jstring \<Rightarrow> hash_stream \<Rightarrow> hash_stream" where
  "streamPush options line s =
     (case emitterPushLine options line (hsEmitter s) of (outs, em) \<Rightarrow>
        s\<lparr>hsEmitter := em, hsYielded := hsYielded s @ outs, hsSawAnyLine := True\<rparr>)"

definition streamHashLines :: "stream_options \<Rightarrow> jstring list \<Rightarrow> jstring \<Rightarrow> jstring list" where
  "streamHashLines options decoded tail =
     (let resolved = resolveStreamOptions options;
          s1 = fold (streamChunk resolved) decoded
            \<lparr>hsPending = [], hsSawAnyLine = False, hsEmitter = createChunkEmitter resolved, hsYielded = []\<rparr>;
          pending = hsPending s1 @ tail;
          s2 = (if length pending > 0 then streamPush resolved (dropTrailingCR pending) s1 else s1);
          s3 = (if \<not> hsSawAnyLine s2 then streamPush resolved [] s2 else s2)
      in case emitterFlush (hsEmitter s3) of (flushed, _) \<Rightarrow> pushFlushed flushed (hsYielded s3))"

section \<open>The lines of a stream\<close>

definition streamLines :: "jstring \<Rightarrow> jstring list" where
  "streamLines text =
     (let lns = splitLines text;
          found = map dropTrailingCR (butlast lns) @ (if last lns = [] then [] else [dropTrailingCR (last lns)])
      in if found = [] then [[]] else found)"

definition numberedFrom :: "nat \<Rightarrow> jstring list \<Rightarrow> jstring list" where
  "numberedFrom start lns = map (\<lambda>i. formatNumberedLine (start + i) (lns ! i)) [0 ..< length lns]"

lemma numberedFrom_Cons: "numberedFrom n (l # ls) = formatNumberedLine n l # numberedFrom (Suc n) ls"
proof -
  have "map (\<lambda>i. formatNumberedLine (n + i) ((l # ls) ! i)) [0 ..< Suc (length ls)] =
      formatNumberedLine n l # map (\<lambda>i. formatNumberedLine (n + Suc i) (ls ! i)) [0 ..< length ls]"
    by (simp add: upt_conv_Cons map_Suc_upt [symmetric] comp_def del: upt_Suc)
  then show ?thesis by (simp add: numberedFrom_def)
qed

lemma numberedFrom_Nil [simp]: "numberedFrom n [] = []"
  by (simp add: numberedFrom_def)

fun pushAll :: "resolved_stream_options \<Rightarrow> jstring list \<Rightarrow> chunk_emitter \<Rightarrow> jstring list \<times> chunk_emitter" where
  "pushAll options [] em = ([], em)"
| "pushAll options (l # ls) em =
     (case emitterPushLine options l em of (outs, em1) \<Rightarrow>
        (case pushAll options ls em1 of (outs2, em2) \<Rightarrow> (outs @ outs2, em2)))"

lemma pushAll_append:
  "pushAll options (xs @ ys) em =
     (case pushAll options xs em of (outs, em1) \<Rightarrow> (case pushAll options ys em1 of (outs2, em2) \<Rightarrow> (outs @ outs2, em2)))"
  by (induction xs arbitrary: em) (auto split: prod.split)

lemma indexOf_split:
  "indexOf s [c] = Some i \<Longrightarrow> s = take i s @ c # drop (Suc i) s \<and> c \<notin> set (take i s)"
  by (induction s arbitrary: i) (auto simp: startsWith_def split: if_splits)

text \<open>Draining pushes the complete lines and keeps what follows the last line feed.\<close>

lemma drainPending_eq:
  "drainPending options p em =
     (case pushAll options (map dropTrailingCR (butlast (splitLines p))) em of (outs, em') \<Rightarrow> (outs, last (splitLines p), em'))"
proof (induction options p em rule: drainPending.induct)
  case (1 options p em)
  show ?case
  proof (cases "indexOf p [CHAR_LINE_FEED]")
    case None
    then have "splitLines p = [p]" by (simp add: indexOf_single splitOn_no_sep)
    then show ?thesis using None by (subst drainPending.simps) simp
  next
    case (Some nl)
    note split = indexOf_split [OF Some]
    then have lines: "splitLines p = take nl p # splitLines (drop (Suc nl) p)"
      by (metis splitOn_append_sep)
    obtain outs em1 where p: "emitterPushLine options (dropTrailingCR (take nl p)) em = (outs, em1)" by fastforce
    have "drainPending options (drop (nl + 1) p) em1 =
      (case pushAll options (map dropTrailingCR (butlast (splitLines (drop (nl + 1) p)))) em1 of
         (outs, em') \<Rightarrow> (outs, last (splitLines (drop (nl + 1) p)), em'))"
      by (rule "1.IH" [OF Some p [symmetric]])
    then show ?thesis
      using Some p lines by (subst drainPending.simps) (simp split: prod.splits)
  qed
qed

lemma last_splitOn_append: "last (splitOn c (last (splitOn c a) @ b)) = last (splitOn c (a @ b))"
  by (subst (2) splitOn_append) simp

lemma butlast_splitOn_append:
  "butlast (splitOn c (a @ b)) = butlast (splitOn c a) @ butlast (splitOn c (last (splitOn c a) @ b))"
  by (subst splitOn_append) (simp add: butlast_append)

text \<open>After any chunks, the stream has pushed the complete lines of their concatenation.\<close>

definition streamHolds :: "resolved_stream_options \<Rightarrow> jstring \<Rightarrow> hash_stream \<Rightarrow> bool" where
  "streamHolds options body s \<longleftrightarrow>
     pushAll options (map dropTrailingCR (butlast (splitLines body))) (createChunkEmitter options) = (hsYielded s, hsEmitter s)
     \<and> hsPending s = last (splitLines body) \<and> (hsSawAnyLine s \<longleftrightarrow> butlast (splitLines body) \<noteq> [])"

lemma newline_lines: "CHAR_LINE_FEED \<in> set s \<longleftrightarrow> butlast (splitLines s) \<noteq> []"
  by (induction s) (auto split: list.splits)

lemma streamChunk_holds:
  assumes "streamHolds options body s"
  shows "streamHolds options (body @ decoded) (streamChunk options decoded s)"
proof -
  let ?p = "last (splitLines body) @ decoded"
  obtain outs em where d: "pushAll options (map dropTrailingCR (butlast (splitLines ?p))) (hsEmitter s) = (outs, em)"
    by fastforce
  have "pushAll options (map dropTrailingCR (butlast (splitLines (body @ decoded)))) (createChunkEmitter options)
      = (hsYielded s @ outs, em)"
    unfolding butlast_splitOn_append [of _ body decoded] map_append pushAll_append using assms d by (simp add: streamHolds_def)
  moreover have "hsSawAnyLine s \<or> CHAR_LINE_FEED \<in> set ?p \<longleftrightarrow> butlast (splitLines (body @ decoded)) \<noteq> []"
    unfolding newline_lines butlast_splitOn_append [of _ body decoded] using assms by (auto simp: streamHolds_def)
  moreover have "streamChunk options decoded s = \<lparr>hsPending = last (splitLines ?p),
      hsSawAnyLine = (hsSawAnyLine s \<or> CHAR_LINE_FEED \<in> set ?p), hsEmitter = em, hsYielded = hsYielded s @ outs\<rparr>"
    using assms unfolding streamChunk_def streamHolds_def Let_def drainPending_eq by (simp only: d prod.case)
  ultimately show ?thesis by (simp add: streamHolds_def last_splitOn_append)
qed

lemma streamChunks_hold:
  "streamHolds options body s \<Longrightarrow> streamHolds options (body @ concat cs) (fold (streamChunk options) cs s)"
proof (induction cs arbitrary: body s)
  case Nil
  then show ?case by simp
next
  case (Cons c cs)
  from Cons.IH [OF streamChunk_holds [OF Cons.prems, of c]] show ?case by simp
qed

lemma streamHashLines_eq:
  assumes "CHAR_LINE_FEED \<notin> set tail"
  shows "streamHashLines options decoded tail =
     (let resolved = resolveStreamOptions options in
      case pushAll resolved (streamLines (concat decoded @ tail)) (createChunkEmitter resolved) of
        (outs, em) \<Rightarrow> pushFlushed (fst (emitterFlush em)) outs)"
proof -
  let ?r = "resolveStreamOptions options" and ?text = "concat decoded"
  let ?init = "\<lparr>hsPending = [], hsSawAnyLine = False, hsEmitter = createChunkEmitter ?r, hsYielded = []\<rparr>"
  let ?s = "fold (streamChunk ?r) decoded ?init"
  have "streamHolds ?r [] ?init" by (simp add: streamHolds_def)
  then have "streamHolds ?r ?text ?s" using streamChunks_hold [of ?r "[]" ?init decoded] by simp
  then have h: "pushAll ?r (map dropTrailingCR (butlast (splitLines ?text))) (createChunkEmitter ?r) = (hsYielded ?s, hsEmitter ?s)"
    "hsPending ?s = last (splitLines ?text)" "hsSawAnyLine ?s \<longleftrightarrow> butlast (splitLines ?text) \<noteq> []"
    unfolding streamHolds_def by blast+
  let ?l = "last (splitLines ?text) @ tail"
  have "CHAR_LINE_FEED \<notin> set (last (splitLines ?text))" by (rule splitOn_elem_no_sep [of _ _ ?text]) simp
  then have "splitLines ?l = [?l]" using assms by (intro splitOn_no_sep) simp
  then have lines: "butlast (splitLines (?text @ tail)) = butlast (splitLines ?text)" "last (splitLines (?text @ tail)) = ?l"
    using splitOn_append [of CHAR_LINE_FEED ?text tail] by (simp_all add: butlast_append)
  obtain y em p saw where s: "?s = \<lparr>hsPending = p, hsSawAnyLine = saw, hsEmitter = em, hsYielded = y\<rparr>"
    by (cases ?s) blast
  show ?thesis
    using h lines unfolding streamHashLines_def Let_def s
    by (cases "?l = []"; cases "butlast (splitLines ?text) = []")
      (auto simp: streamLines_def streamPush_def pushAll_append split: prod.splits)
qed

section \<open>The chunks are bounded\<close>

lemma utf8Length_sep: "utf8Length (a @ 10 # b) = utf8Length a + 1 + utf8Length b"
proof (induction a rule: utf8Length.induct)
  case 1
  then show ?case by simp
next
  case (2 c cs)
  then show ?case by (cases cs) (auto simp: isLowSurrogate_def)
qed

lemma utf8Length_join_snoc:
  "ls \<noteq> [] \<Longrightarrow> utf8Length (joinLines (ls @ [l])) = utf8Length (joinLines ls) + 1 + utf8Length l"
proof (induction ls rule: induct_list012)
  case 1
  then show ?case by simp
next
  case (2 x)
  then show ?case using utf8Length_sep [of x l] by simp
next
  case (3 x y zs)
  then show ?case by (simp add: utf8Length_sep)
qed

definition chunkOk :: "resolved_stream_options \<Rightarrow> jstring list \<Rightarrow> bool" where
  "chunkOk options g \<longleftrightarrow> g \<noteq> [] \<and> length g \<le> max 1 (rsMaxChunkLines options)
     \<and> (utf8Length (joinLines g) \<le> rsMaxChunkBytes options \<or> length g = 1)"

definition emitterOk :: "resolved_stream_options \<Rightarrow> chunk_emitter \<Rightarrow> bool" where
  "emitterOk options em \<longleftrightarrow> list_all (\<lambda>l. l \<noteq> []) (ceOutLines em)
     \<and> ceOutBytes em = utf8Length (joinLines (ceOutLines em))
     \<and> (ceOutLines em \<noteq> [] \<longrightarrow> length (ceOutLines em) < rsMaxChunkLines options \<and> ceOutBytes em < rsMaxChunkBytes options)"

lemma emitterOk_new: "emitterOk options (createChunkEmitter options)"
  by (simp add: emitterOk_def createChunkEmitter_def)

lemma formatted_not_Nil [simp]: "formatNumberedLine n l \<noteq> []"
  by (simp add: formatNumberedLine_def)

lemma joinOn_eq_Nil: "list_all (\<lambda>l. l \<noteq> []) ls \<Longrightarrow> ls \<noteq> [] \<Longrightarrow> joinOn sep ls \<noteq> []"
  by (cases ls; cases "tl ls") (auto simp: joinOn_Cons)

lemma emitterPushLine_ok:
  assumes "emitterOk options em" and "emitterPushLine options line em = (outs, em')"
  shows "\<exists>groups. outs = map joinLines groups \<and> list_all (chunkOk options) groups \<and> emitterOk options em'
     \<and> concat groups @ ceOutLines em' = ceOutLines em @ [formatNumberedLine (ceLineNumber em) line]
     \<and> ceLineNumber em' = Suc (ceLineNumber em)"
proof -
  let ?f = "formatNumberedLine (ceLineNumber em) line" and ?out = "ceOutLines em"
  note ok = assms(1) [unfolded emitterOk_def]
  have ne: "?out \<noteq> [] \<Longrightarrow> joinLines ?out \<noteq> []" using ok joinOn_eq_Nil by blast
  have join: "joinLines (?out @ [?f]) \<noteq> []" using ok by (intro joinOn_eq_Nil) auto
  let ?over = "?out \<noteq> [] \<and> (rsMaxChunkLines options \<le> length ?out
      \<or> rsMaxChunkBytes options < ceOutBytes em + 1 + utf8Length ?f)"
  show ?thesis
  proof (cases ?over)
    case True
    let ?full = "rsMaxChunkLines options \<le> 1 \<or> rsMaxChunkBytes options \<le> utf8Length ?f"
    have good: "chunkOk options ?out" "chunkOk options [?f]" using ok True by (auto simp: chunkOk_def)
    show ?thesis
    proof (cases ?full)
      case full: True
      have "outs = [joinLines ?out, ?f]" "ceOutLines em' = []" "ceOutBytes em' = 0" "ceLineNumber em' = Suc (ceLineNumber em)"
        using assms(2) True full ne by (auto simp: emitterPushLine_def Let_def emitterFlush_def pushFlushed_def)
      then show ?thesis using good by (intro exI [of _ "[?out, [?f]]"]) (simp add: emitterOk_def)
    next
      case False
      then have "outs = [joinLines ?out]" "ceOutLines em' = [?f]" "ceOutBytes em' = utf8Length ?f" "ceLineNumber em' = Suc (ceLineNumber em)"
        using assms(2) True ne by (auto simp: emitterPushLine_def Let_def emitterFlush_def pushFlushed_def)
      then show ?thesis using good False by (intro exI [of _ "[?out]"]) (simp add: emitterOk_def)
    qed
  next
    case False
    let ?bytes = "ceOutBytes em + ((if ?out = [] then 0 else 1) + utf8Length ?f)"
    let ?full = "rsMaxChunkLines options \<le> Suc (length ?out) \<or> rsMaxChunkBytes options \<le> ?bytes"
    have bytes: "?bytes = utf8Length (joinLines (?out @ [?f]))"
      using ok utf8Length_join_snoc [of ?out ?f] by simp
    have good: "chunkOk options (?out @ [?f])" using ok False bytes by (auto simp: chunkOk_def)
    show ?thesis
    proof (cases ?full)
      case True
      have "outs = [joinLines (?out @ [?f])]" "ceOutLines em' = []" "ceOutBytes em' = 0" "ceLineNumber em' = Suc (ceLineNumber em)"
        using assms(2) False True join
        by (cases "?out = []"; auto simp: emitterPushLine_def Let_def emitterFlush_def pushFlushed_def)+
      then show ?thesis using good by (intro exI [of _ "[?out @ [?f]]"]) (simp add: emitterOk_def)
    next
      case nf: False
      then have "outs = []" "ceOutLines em' = ?out @ [?f]" "ceOutBytes em' = ?bytes" "ceLineNumber em' = Suc (ceLineNumber em)"
        using assms(2) False
        by (cases "?out = []"; auto simp: emitterPushLine_def Let_def emitterFlush_def pushFlushed_def)+
      then show ?thesis using nf ok bytes by (intro exI [of _ "[]"]) (simp add: emitterOk_def)
    qed
  qed
qed

lemma pushAll_ok:
  assumes "emitterOk options em" and "pushAll options ls em = (outs, em')"
  shows "\<exists>groups. outs = map joinLines groups \<and> list_all (chunkOk options) groups \<and> emitterOk options em'
     \<and> concat groups @ ceOutLines em' = ceOutLines em @ numberedFrom (ceLineNumber em) ls"
  using assms
proof (induction ls arbitrary: em outs)
  case Nil
  then show ?case by (intro exI [of _ "[]"]) simp
next
  case (Cons l ls)
  obtain o1 em1 o2 where p: "emitterPushLine options l em = (o1, em1)" "pushAll options ls em1 = (o2, em')" "outs = o1 @ o2"
    using Cons.prems(2) by (auto split: prod.splits)
  obtain g1 where g1: "o1 = map joinLines g1" "list_all (chunkOk options) g1" "emitterOk options em1"
    "concat g1 @ ceOutLines em1 = ceOutLines em @ [formatNumberedLine (ceLineNumber em) l]"
    "ceLineNumber em1 = Suc (ceLineNumber em)"
    using emitterPushLine_ok [OF Cons.prems(1) p(1)] by blast
  obtain g2 where g2: "o2 = map joinLines g2" "list_all (chunkOk options) g2" "emitterOk options em'"
    "concat g2 @ ceOutLines em' = ceOutLines em1 @ numberedFrom (ceLineNumber em1) ls"
    using Cons.IH [OF g1(3) p(2)] by blast
  have "concat (g1 @ g2) @ ceOutLines em' = ceOutLines em @ numberedFrom (ceLineNumber em) (l # ls)"
    using g1(4,5) g2(4) by (simp add: numberedFrom_Cons)
  then show ?case using g1 g2 p(3) by (intro exI [of _ "g1 @ g2"]) simp
qed

text \<open>The stream yields the numbered lines of the whole text, in order and without loss, cut into chunks of
  whole lines; no chunk has more lines than the limit, and none more bytes than the limit unless it is a
  single line. An empty stream yields one empty line.
\<close>

theorem streamHashLines_chunks:
  assumes "CHAR_LINE_FEED \<notin> set tail"
  shows "\<exists>groups. streamHashLines options decoded tail = map joinLines groups
     \<and> concat groups = numberedFrom (rsStartLine (resolveStreamOptions options)) (streamLines (concat decoded @ tail))
     \<and> list_all (chunkOk (resolveStreamOptions options)) groups"
proof -
  let ?r = "resolveStreamOptions options" and ?lns = "streamLines (concat decoded @ tail)"
  obtain outs em where p: "pushAll ?r ?lns (createChunkEmitter ?r) = (outs, em)" by fastforce
  from pushAll_ok [OF emitterOk_new p] obtain groups where g: "outs = map joinLines groups"
    "list_all (chunkOk ?r) groups" "emitterOk ?r em" "concat groups @ ceOutLines em = numberedFrom (rsStartLine ?r) ?lns"
    by (auto simp: createChunkEmitter_def)
  have out: "streamHashLines options decoded tail = pushFlushed (fst (emitterFlush em)) outs"
    using streamHashLines_eq [OF assms] p by (simp add: Let_def)
  show ?thesis
  proof (cases "ceOutLines em = []")
    case True
    then show ?thesis using g out by (intro exI [of _ groups]) (simp add: emitterFlush_def pushFlushed_def)
  next
    case False
    then have "joinLines (ceOutLines em) \<noteq> []" using g(3) joinOn_eq_Nil by (simp add: emitterOk_def)
    then have "streamHashLines options decoded tail = map joinLines (groups @ [ceOutLines em])"
      using out g(1) False by (simp add: emitterFlush_def pushFlushed_def)
    moreover have "chunkOk ?r (ceOutLines em)" using g(3) False by (auto simp: emitterOk_def chunkOk_def)
    ultimately show ?thesis using g by (intro exI [of _ "groups @ [ceOutLines em]"]) simp
  qed
qed

theorem streamHashLines_chunks_witness:
  "\<exists>groups. streamHashLines \<lparr>optStartLine = None, optMaxChunkLines = None, optMaxChunkBytes = None\<rparr> [js ''a''] [] = map joinLines groups
     \<and> concat groups = [js ''1:a'']"
  using streamHashLines_chunks [of "[]" "\<lparr>optStartLine = None, optMaxChunkLines = None, optMaxChunkBytes = None\<rparr>" "[js ''a'']"]
  by (auto simp: resolveStreamOptions_def streamLines_def numberedFrom_def formatNumberedLine_def hl_keyword_defs
      natToString.simps dropTrailingCR_def endsWith_def)

text \<open>
  How the bytes arrive does not matter: two streams with the same text yield the same chunks.
\<close>

theorem streamHashLines_chunking_irrelevant:
  assumes "CHAR_LINE_FEED \<notin> set t1" and "CHAR_LINE_FEED \<notin> set t2" and "concat d1 @ t1 = concat d2 @ t2"
  shows "streamHashLines options d1 t1 = streamHashLines options d2 t2"
  using assms by (simp add: streamHashLines_eq)

theorem streamHashLines_chunking_irrelevant_witness:
  "streamHashLines
       \<lparr>optStartLine = Some 5, optMaxChunkLines = None, optMaxChunkBytes = None\<rparr> [js ''a'', 10 # js ''b''] []
   = streamHashLines \<lparr>optStartLine = Some 5, optMaxChunkLines = None, optMaxChunkBytes = None\<rparr> [js ''a'' @ [10]] (js ''b'')"
  using streamHashLines_chunking_irrelevant [of "[]" "js ''b''" "[js ''a'', 10 # js ''b'']" "[js ''a'' @ [10]]"] by simp

end
