(* ===== verification/Hl_Preview.thy ===== *)
theory Hl_Preview
  imports Hl_Format
begin

text \<open>
  packages/hashline/src/diff-preview.ts: a diff whose rows carry line numbers is rewritten so that every
  row is anchored to its position after the edit. A line number is an integer or not a number, as
  \<open>Number.parseInt\<close> returns it (integers beyond the exact range of doubles are not rounded); the
  counters that the callback of \<open>map\<close> closes over are passed along.
\<close>

definition intToString :: "int \<Rightarrow> jstring" where
  "intToString i = (if i < 0 then 45 # natToString (nat (- i)) else natToString (nat i))"

definition numberToString :: "int option \<Rightarrow> jstring" where
  "numberToString n = (case n of None \<Rightarrow> js ''NaN'' | Some i \<Rightarrow> intToString i)"

definition parseIntDigits :: "jstring \<Rightarrow> int option" where
  "parseIntDigits s = (let ds = takeWhile isJsDigit s in if ds = [] then None else Some (int (digitsValue ds)))"

definition parseInt :: "jstring \<Rightarrow> int option" where
  "parseInt s =
     (case trimStart s of
        [] \<Rightarrow> None
      | c # cs \<Rightarrow>
          if c = 45 then map_option uminus (parseIntDigits cs)
          else if c = 43 then parseIntDigits cs
          else parseIntDigits (c # cs))"

record diff_counts =
  addedLines :: nat
  removedLines :: nat

record compact_diff_preview =
  cpPreview :: jstring
  cpAddedLines :: nat
  cpRemovedLines :: nat

definition previewLine :: "jstring \<Rightarrow> diff_counts \<Rightarrow> jstring \<times> diff_counts" where
  "previewLine line st =
     (case line of
        [] \<Rightarrow> (line, st)
      | kind # body \<Rightarrow>
          if kind \<noteq> 43 \<and> kind \<noteq> 45 \<and> kind \<noteq> 32 then (line, st)
          else (case indexOf body (js ''|'') of
              None \<Rightarrow> (line, st)
            | Some sep \<Rightarrow>
                (let lineNumber = parseInt (take sep body); content = drop (sep + 1) body in
                 if kind = 43 then
                   (43 # numberToString lineNumber @ 58 # content, st\<lparr>addedLines := addedLines st + 1\<rparr>)
                 else if kind = 45 then
                   (45 # numberToString lineNumber @ 58 # content, st\<lparr>removedLines := removedLines st + 1\<rparr>)
                 else
                   (let newLineNumber = map_option (\<lambda>n. n + int (addedLines st) - int (removedLines st)) lineNumber in
                    (32 # numberToString newLineNumber @ 58 # content, st)))))"

fun previewLines :: "jstring list \<Rightarrow> diff_counts \<Rightarrow> jstring list \<times> diff_counts" where
  "previewLines [] st = ([], st)"
| "previewLines (line # lns) st =
     (case previewLine line st of (out, st1) \<Rightarrow> (case previewLines lns st1 of (outs, st2) \<Rightarrow> (out # outs, st2)))"

definition buildCompactDiffPreview :: "jstring \<Rightarrow> compact_diff_preview" where
  "buildCompactDiffPreview diff =
     (let lns = (if length diff = 0 then [] else splitLines diff) in
      case previewLines lns \<lparr>addedLines = 0, removedLines = 0\<rparr> of (formatted, st) \<Rightarrow>
        \<lparr>cpPreview = joinLines formatted, cpAddedLines = addedLines st, cpRemovedLines = removedLines st\<rparr>)"

section \<open>Against a diff script\<close>

text \<open>
  A script over two files: added, removed and kept rows, and gaps, which pass over kept lines that the
  diff does not show and print a row of another shape. A producer numbers kept and removed rows by the
  old file and added rows by the new one.
\<close>

datatype diff_row = AddRow jstring | RemoveRow jstring | KeepRow jstring | GapRow nat jstring

fun numberOld :: "nat \<Rightarrow> nat \<Rightarrow> diff_row list \<Rightarrow> jstring list" where
  "numberOld old new [] = []"
| "numberOld old new (AddRow t # rows) = (43 # natToString new @ 124 # t) # numberOld old (Suc new) rows"
| "numberOld old new (RemoveRow t # rows) = (45 # natToString old @ 124 # t) # numberOld (Suc old) new rows"
| "numberOld old new (KeepRow t # rows) = (32 # natToString old @ 124 # t) # numberOld (Suc old) (Suc new) rows"
| "numberOld old new (GapRow k t # rows) = t # numberOld (old + k) (new + k) rows"

fun numberNew :: "nat \<Rightarrow> nat \<Rightarrow> diff_row list \<Rightarrow> jstring list" where
  "numberNew old new [] = []"
| "numberNew old new (AddRow t # rows) = (43 # natToString new @ 58 # t) # numberNew old (Suc new) rows"
| "numberNew old new (RemoveRow t # rows) = (45 # natToString old @ 58 # t) # numberNew (Suc old) new rows"
| "numberNew old new (KeepRow t # rows) = (32 # natToString new @ 58 # t) # numberNew (Suc old) (Suc new) rows"
| "numberNew old new (GapRow k t # rows) = t # numberNew (old + k) (new + k) rows"

fun isAddRow :: "diff_row \<Rightarrow> bool" where "isAddRow (AddRow _) = True" | "isAddRow _ = False"
fun isRemoveRow :: "diff_row \<Rightarrow> bool" where "isRemoveRow (RemoveRow _) = True" | "isRemoveRow _ = False"

fun rowPlain :: "diff_row \<Rightarrow> bool" where
  "rowPlain (GapRow _ t) \<longleftrightarrow> CHAR_LINE_FEED \<notin> set t \<and> (t = [] \<or> hd t \<notin> {43, 45, 32})"
| "rowPlain (AddRow t) \<longleftrightarrow> CHAR_LINE_FEED \<notin> set t"
| "rowPlain (RemoveRow t) \<longleftrightarrow> CHAR_LINE_FEED \<notin> set t"
| "rowPlain (KeepRow t) \<longleftrightarrow> CHAR_LINE_FEED \<notin> set t"

lemma parseInt_natToString [simp]: "parseInt (natToString n) = Some (int n)"
proof -
  obtain c cs where c: "natToString n = c # cs" by (cases "natToString n") auto
  have d: "isJsDigit c" using natToString_digits [of c n] c by simp
  have all: "takeWhile isJsDigit (natToString n) = natToString n"
    using natToString_digits by (auto simp: takeWhile_eq_all_conv)
  have "trimStart (natToString n) = c # cs" using d by (auto simp: trimStart_def c isJsSpace_def isJsDigit_def)
  moreover have "c \<noteq> 45" "c \<noteq> 43" using d by (auto simp: isJsDigit_def)
  ultimately show ?thesis using all c digitsValue_natToString [of n] by (simp add: parseInt_def parseIntDigits_def)
qed

lemma indexOf_after_digits: "indexOf (natToString n @ 124 # t) [124] = Some (length (natToString n))"
proof -
  have "124 \<notin> set ds \<Longrightarrow> indexOf (ds @ 124 # t) [124] = Some (length ds)" for ds
    by (induction ds) (auto simp: startsWith_def)
  moreover have "124 \<notin> set (natToString n)" using natToString_digits [of 124 n] by (auto simp: isJsDigit_def)
  ultimately show ?thesis by blast
qed

lemma previewLine_rows:
  "previewLine (43 # natToString n @ 124 # t) st = (43 # natToString n @ 58 # t, st\<lparr>addedLines := Suc (addedLines st)\<rparr>)"
  "previewLine (45 # natToString n @ 124 # t) st = (45 # natToString n @ 58 # t, st\<lparr>removedLines := Suc (removedLines st)\<rparr>)"
  "int n + int (addedLines st) - int (removedLines st) = int m \<Longrightarrow>
     previewLine (32 # natToString n @ 124 # t) st = (32 # natToString m @ 58 # t, st)"
  by (simp_all add: previewLine_def indexOf_after_digits Let_def numberToString_def intToString_def)

lemma previewLine_gap: "rowPlain (GapRow k t) \<Longrightarrow> previewLine t st = (t, st)"
  by (cases t) (auto simp: previewLine_def)

lemma previewLines_script:
  assumes "list_all rowPlain rows" and "int new = int old + int (addedLines st) - int (removedLines st)"
  shows "fst (previewLines (numberOld old new rows) st) = numberNew old new rows
    \<and> addedLines (snd (previewLines (numberOld old new rows) st)) = addedLines st + length (filter isAddRow rows)
    \<and> removedLines (snd (previewLines (numberOld old new rows) st)) = removedLines st + length (filter isRemoveRow rows)"
  using assms
proof (induction old new rows arbitrary: st rule: numberOld.induct)
  case (2 old new t rows)
  then show ?case using "2.IH" [of "st\<lparr>addedLines := Suc (addedLines st)\<rparr>"]
    by (simp add: previewLine_rows case_prod_beta)
next
  case (3 old new t rows)
  then show ?case using "3.IH" [of "st\<lparr>removedLines := Suc (removedLines st)\<rparr>"]
    by (simp add: previewLine_rows case_prod_beta)
next
  case (4 old new t rows)
  then have "previewLine (32 # natToString old @ 124 # t) st = (32 # natToString new @ 58 # t, st)"
    by (intro previewLine_rows(3)) simp
  then show ?case using 4 "4.IH" [of st] by (simp add: case_prod_beta)
next
  case (5 old new k t rows)
  then show ?case using previewLine_gap [of k t st] "5.IH" [of st] by (simp add: case_prod_beta)
qed simp

lemma natToString_no_LF [simp]: "CHAR_LINE_FEED \<notin> set (natToString n)"
  using natToString_digits [of CHAR_LINE_FEED n] by (auto simp: isJsDigit_def)

lemma numberOld_plain: "list_all rowPlain rows \<Longrightarrow> l \<in> set (numberOld old new rows) \<Longrightarrow> CHAR_LINE_FEED \<notin> set l"
  by (induction old new rows rule: numberOld.induct)
    auto

text \<open>The preview anchors every added and every kept row of a diff to its line in the edited file, whatever
  precedes it, leaves removed rows at their old line, and counts both kinds of changes.
\<close>

theorem preview_anchors_new_file:
  assumes "list_all rowPlain rows" and "joinLines (numberOld start start rows) \<noteq> []"
  shows "buildCompactDiffPreview (joinLines (numberOld start start rows)) =
    \<lparr>cpPreview = joinLines (numberNew start start rows), cpAddedLines = length (filter isAddRow rows),
     cpRemovedLines = length (filter isRemoveRow rows)\<rparr>"
proof -
  let ?ls = "numberOld start start rows" and ?st = "\<lparr>addedLines = 0, removedLines = 0\<rparr>"
  have "?ls \<noteq> []" using assms(2) by auto
  then have "splitLines (joinLines ?ls) = ?ls" using numberOld_plain [OF assms(1)] by (intro splitOn_joinOn) auto
  moreover note previewLines_script [OF assms(1), of start start ?st]
  ultimately show ?thesis
    using assms(2) by (simp add: buildCompactDiffPreview_def Let_def case_prod_beta)
qed

theorem preview_anchors_new_file_witness:
  "buildCompactDiffPreview (joinLines [js ''+7|a'', js '' 7|b'', js ''-8|c'']) =
    \<lparr>cpPreview = joinLines [js ''+7:a'', js '' 8:b'', js ''-8:c''], cpAddedLines = 1, cpRemovedLines = 1\<rparr>"
  using preview_anchors_new_file [of "[AddRow (js ''a''), KeepRow (js ''b''), RemoveRow (js ''c'')]" 7]
  by (simp add: natToString.simps)

end
