(* ===== verification/Util_Ring.thy ===== *)
theory Util_Ring
  imports Js_Base
begin

text \<open>
  packages/utils/src/ring.ts: the fixed-capacity circular buffer, refining a bounded double-ended queue
  (\<open>contents\<close>, oldest first). A slot is absent (\<open>undefined\<close>) or holds an element. The end of the file has
  packages/tui/src/kill-ring.ts, the kill ring of the editor.
\<close>

record 'a ring_buffer =
  rbCapacity :: nat
  rbBuf :: "'a option list"
  rbHead :: nat
  rbSize :: nat

definition newRing :: "nat \<Rightarrow> 'a ring_buffer" where
  "newRing capacity = \<lparr>rbCapacity = capacity, rbBuf = replicate capacity None, rbHead = 0, rbSize = 0\<rparr>"

definition ringIsFull :: "'a ring_buffer \<Rightarrow> bool" where
  "ringIsFull rb \<longleftrightarrow> rbSize rb = rbCapacity rb"

definition ringIsEmpty :: "'a ring_buffer \<Rightarrow> bool" where
  "ringIsEmpty rb \<longleftrightarrow> rbSize rb = 0"

definition ringPush :: "'a \<Rightarrow> 'a ring_buffer \<Rightarrow> 'a option \<times> 'a ring_buffer" where
  "ringPush item rb =
     (let idx = (rbHead rb + rbSize rb) mod rbCapacity rb;
          overwritten = (if rbSize rb = rbCapacity rb then rbBuf rb ! idx else None);
          rb1 = rb\<lparr>rbBuf := (rbBuf rb)[idx := Some item]\<rparr>
      in (overwritten,
          if rbSize rb = rbCapacity rb then rb1\<lparr>rbHead := (rbHead rb + 1) mod rbCapacity rb\<rparr>
          else rb1\<lparr>rbSize := rbSize rb + 1\<rparr>))"

definition ringShift :: "'a ring_buffer \<Rightarrow> 'a option \<times> 'a ring_buffer" where
  "ringShift rb =
     (if rbSize rb = 0 then (None, rb)
      else (rbBuf rb ! rbHead rb,
            rb\<lparr>rbBuf := (rbBuf rb)[rbHead rb := None], rbHead := (rbHead rb + 1) mod rbCapacity rb,
               rbSize := rbSize rb - 1\<rparr>))"

definition ringPop :: "'a ring_buffer \<Rightarrow> 'a option \<times> 'a ring_buffer" where
  "ringPop rb =
     (if rbSize rb = 0 then (None, rb)
      else let idx = (rbHead rb + rbSize rb - 1) mod rbCapacity rb in
        (rbBuf rb ! idx, rb\<lparr>rbBuf := (rbBuf rb)[idx := None], rbSize := rbSize rb - 1\<rparr>))"

text \<open>\<open>head - 1 + capacity\<close> is not negative; the model adds first.\<close>

definition ringUnshift :: "'a \<Rightarrow> 'a ring_buffer \<Rightarrow> 'a option \<times> 'a ring_buffer" where
  "ringUnshift item rb =
     (let head = (rbHead rb + rbCapacity rb - 1) mod rbCapacity rb;
          overwritten = (if rbSize rb = rbCapacity rb then rbBuf rb ! head else None);
          rb1 = rb\<lparr>rbHead := head, rbBuf := (rbBuf rb)[head := Some item]\<rparr>
      in (overwritten, if rbSize rb < rbCapacity rb then rb1\<lparr>rbSize := rbSize rb + 1\<rparr> else rb1))"

definition ringAt :: "int \<Rightarrow> 'a ring_buffer \<Rightarrow> 'a option" where
  "ringAt index0 rb =
     (let index = (if index0 < 0 then index0 + int (rbSize rb) else index0) in
      if index < 0 \<or> index \<ge> int (rbSize rb) then None
      else rbBuf rb ! ((rbHead rb + nat index) mod rbCapacity rb))"

definition ringPeek :: "'a ring_buffer \<Rightarrow> 'a option" where
  "ringPeek rb = ringAt 0 rb"

definition ringPeekBack :: "'a ring_buffer \<Rightarrow> 'a option" where
  "ringPeekBack rb = ringAt (int (rbSize rb) - 1) rb"

definition ringClear :: "'a ring_buffer \<Rightarrow> 'a ring_buffer" where
  "ringClear rb = rb\<lparr>rbBuf := replicate (rbCapacity rb) None, rbHead := 0, rbSize := 0\<rparr>"

definition ringIterate :: "'a ring_buffer \<Rightarrow> 'a option list" where
  "ringIterate rb = map (\<lambda>i. rbBuf rb ! ((rbHead rb + i) mod rbCapacity rb)) [0 ..< rbSize rb]"

definition ringToArray :: "'a ring_buffer \<Rightarrow> 'a option list" where
  "ringToArray rb =
     (if rbHead rb + rbSize rb \<le> rbCapacity rb then take (rbSize rb) (drop (rbHead rb) (rbBuf rb))
      else drop (rbHead rb) (take (rbCapacity rb) (rbBuf rb))
        @ take ((rbHead rb + rbSize rb) mod rbCapacity rb) (rbBuf rb))"

section \<open>Refinement of a bounded queue\<close>

text \<open>The slot of the element with index \<open>i\<close>.\<close>

definition slot :: "'a ring_buffer \<Rightarrow> nat \<Rightarrow> nat" where
  "slot rb i = (rbHead rb + i) mod rbCapacity rb"

definition ringHolds :: "'a ring_buffer \<Rightarrow> 'a list \<Rightarrow> bool" where
  "ringHolds rb xs \<longleftrightarrow> 0 < rbCapacity rb \<and> length (rbBuf rb) = rbCapacity rb \<and> rbHead rb < rbCapacity rb
     \<and> rbSize rb = length xs \<and> length xs \<le> rbCapacity rb \<and> (\<forall>i < length xs. rbBuf rb ! slot rb i = Some (xs ! i))"

lemma slot_less: "0 < rbCapacity rb \<Longrightarrow> slot rb i < rbCapacity rb"
  by (simp add: slot_def)

lemma slot_inj:
  assumes "slot rb i = slot rb j" and "rbHead rb < rbCapacity rb" and "i < rbCapacity rb" and "j < rbCapacity rb"
  shows "i = j"
proof -
  have s: "slot rb k = (if rbHead rb + k < rbCapacity rb then rbHead rb + k else rbHead rb + k - rbCapacity rb)"
    if "k < rbCapacity rb" for k
    using assms(2) that by (simp add: slot_def mod_if)
  show ?thesis using assms(1) s [OF assms(3)] s [OF assms(4)] assms(2-4) by (simp split: if_splits)
qed

lemma ringHoldsD:
  assumes "ringHolds rb xs"
  shows "0 < rbCapacity rb" "length (rbBuf rb) = rbCapacity rb" "rbHead rb < rbCapacity rb" "rbSize rb = length xs"
    "length xs \<le> rbCapacity rb" "i < length xs \<Longrightarrow> rbBuf rb ! slot rb i = Some (xs ! i)"
  using assms by (auto simp: ringHolds_def)

text \<open>Writing the slot of one index leaves the others.\<close>

lemma slot_update:
  assumes "ringHolds rb xs" and "i < rbCapacity rb" and "j < rbCapacity rb"
  shows "(rbBuf rb)[slot rb j := v] ! slot rb i = (if i = j then v else rbBuf rb ! slot rb i)"
  using slot_inj [of rb i j] assms ringHoldsD(1-3) [OF assms(1)] slot_less [of rb] by (auto simp: nth_list_update)

lemma slot_step: "rbHead rb' = (rbHead rb + k) mod rbCapacity rb \<Longrightarrow> rbCapacity rb' = rbCapacity rb \<Longrightarrow> slot rb' i = slot rb (k + i)"
  by (simp add: slot_def mod_simps add.assoc)

lemma slot_wrap: "slot rb (rbCapacity rb) = slot rb 0"
  by (simp add: slot_def)

lemma push_holds:
  assumes h: "ringHolds rb xs"
  shows "if length xs = rbCapacity rb
     then fst (ringPush x rb) = Some (hd xs) \<and> ringHolds (snd (ringPush x rb)) (tl xs @ [x])
     else fst (ringPush x rb) = None \<and> ringHolds (snd (ringPush x rb)) (xs @ [x])"
proof -
  note H = ringHoldsD [OF h]
  have idx: "(rbHead rb + length xs) mod rbCapacity rb = slot rb (length xs)" by (simp add: slot_def)
  show ?thesis
  proof (cases "length xs = rbCapacity rb")
    case False
    then have len: "length xs < rbCapacity rb" using H(5) by simp
    have "(rbBuf rb)[slot rb (length xs) := Some x] ! slot rb i = Some ((xs @ [x]) ! i)" if "i \<le> length xs" for i
      using slot_update [OF h _ len, of i "Some x"] that len H(6) [of i] by (auto simp: nth_append)
    moreover have "slot (rb\<lparr>rbBuf := b, rbSize := n\<rparr>) i = slot rb i" for b n i by (simp add: slot_def)
    ultimately show ?thesis using False len H by (simp add: ringPush_def Let_def idx ringHolds_def less_Suc_eq_le)
  next
    case True
    then obtain y ys where xs: "xs = y # ys" using H(1) by (cases xs) auto
    let ?rb = "snd (ringPush x rb)"
    have rb: "?rb = rb\<lparr>rbBuf := (rbBuf rb)[slot rb 0 := Some x], rbHead := (rbHead rb + 1) mod rbCapacity rb\<rparr>"
      using True H(4) idx slot_wrap [of rb] by (simp add: ringPush_def Let_def)
    have slot: "slot ?rb i = slot rb (1 + i)" for i by (rule slot_step) (simp_all add: rb)
    have "rbBuf ?rb ! slot ?rb i = Some ((ys @ [x]) ! i)" if i: "i < rbCapacity rb" for i
    proof (cases "1 + i = rbCapacity rb")
      case wrap: True
      have "rbBuf ?rb ! slot ?rb i = (rbBuf rb)[slot rb 0 := Some x] ! slot rb 0"
        unfolding slot wrap slot_wrap by (simp add: rb)
      then show ?thesis using slot_update [OF h H(1) H(1), of "Some x"] wrap True xs by (simp add: nth_append)
    next
      case False
      then have "rbBuf ?rb ! slot ?rb i = rbBuf rb ! slot rb (1 + i)"
        using slot_update [OF h _ H(1), of "1 + i" "Some x"] i by (simp add: slot) (simp add: rb)
      then show ?thesis using H(6) [of "1 + i"] False i True xs by (simp add: nth_append)
    qed
    moreover have "fst (ringPush x rb) = Some y"
      using True H(4) idx slot_wrap [of rb] H(6) [of 0] xs by (simp add: ringPush_def Let_def)
    ultimately show ?thesis using True H xs by (simp add: ringHolds_def) (simp add: rb)
  qed
qed

lemma shift_holds:
  assumes h: "ringHolds rb xs"
  shows "if xs = [] then ringShift rb = (None, rb)
     else fst (ringShift rb) = Some (hd xs) \<and> ringHolds (snd (ringShift rb)) (tl xs)"
proof (cases xs)
  case Nil
  then show ?thesis using ringHoldsD(4) [OF h] by (simp add: ringShift_def)
next
  case (Cons y ys)
  note H = ringHoldsD [OF h]
  have head: "rbHead rb = slot rb 0" using H(3) by (simp add: slot_def)
  let ?rb = "snd (ringShift rb)"
  have rb: "?rb = rb\<lparr>rbBuf := (rbBuf rb)[slot rb 0 := None], rbHead := (rbHead rb + 1) mod rbCapacity rb, rbSize := length ys\<rparr>"
    using Cons H(4) head by (simp add: ringShift_def)
  have slot: "slot ?rb i = slot rb (1 + i)" for i by (rule slot_step) (simp_all add: rb)
  have "rbBuf ?rb ! slot ?rb i = Some (ys ! i)" if "i < length ys" for i
    using slot_update [OF h _ H(1), of "1 + i" None] that H(5) H(6) [of "1 + i"] Cons by (simp add: slot) (simp add: rb)
  moreover have "fst (ringShift rb) = Some y" using H(4) H(6) [of 0] Cons head by (simp add: ringShift_def)
  ultimately show ?thesis using H Cons by (simp add: ringHolds_def) (simp add: rb)
qed

lemma pop_holds:
  assumes h: "ringHolds rb xs"
  shows "if xs = [] then ringPop rb = (None, rb)
     else fst (ringPop rb) = Some (last xs) \<and> ringHolds (snd (ringPop rb)) (butlast xs)"
proof (cases xs rule: rev_cases)
  case Nil
  then show ?thesis using ringHoldsD(4) [OF h] by (simp add: ringPop_def)
next
  case (snoc ys y)
  note H = ringHoldsD [OF h]
  have idx: "(rbHead rb + length ys) mod rbCapacity rb = slot rb (length ys)" by (simp add: slot_def)
  have "(rbBuf rb)[slot rb (length ys) := None] ! slot rb i = Some (ys ! i)" if "i < length ys" for i
    using slot_update [OF h, of i "length ys" None] that H(5) H(6) [of i] snoc by (simp add: nth_append)
  moreover have "slot (rb\<lparr>rbBuf := b, rbSize := n\<rparr>) i = slot rb i" for b n i by (simp add: slot_def)
  ultimately show ?thesis
    using H(1-5) H(6) [of "length ys"] snoc by (simp add: ringPop_def Let_def idx ringHolds_def)
qed

lemma unshift_holds:
  assumes h: "ringHolds rb xs"
  shows "if length xs = rbCapacity rb
     then fst (ringUnshift x rb) = Some (last xs) \<and> ringHolds (snd (ringUnshift x rb)) (x # butlast xs)
     else fst (ringUnshift x rb) = None \<and> ringHolds (snd (ringUnshift x rb)) (x # xs)"
proof -
  note H = ringHoldsD [OF h]
  let ?rb = "snd (ringUnshift x rb)" and ?last = "rbCapacity rb - 1"
  have prev: "(rbHead rb + rbCapacity rb - Suc 0) mod rbCapacity rb = slot rb ?last" using H(1) by (simp add: slot_def)
  have rb: "?rb = rb\<lparr>rbBuf := (rbBuf rb)[slot rb ?last := Some x], rbHead := slot rb ?last,
      rbSize := (if length xs = rbCapacity rb then length xs else length xs + 1)\<rparr>"
    using H(4,5) prev by (simp add: ringUnshift_def Let_def)
  have slot: "slot ?rb i = slot rb (?last + i)" for i by (rule slot_step) (simp_all add: rb slot_def)
  have zero: "rbBuf ?rb ! slot ?rb 0 = Some x"
    using slot_update [OF h, of ?last ?last "Some x"] H(1) by (simp add: slot) (simp add: rb)
  have later: "rbBuf ?rb ! slot ?rb (Suc i) = Some (xs ! i)" if "i < length xs" "Suc i < rbCapacity rb" for i
  proof -
    have "rbHead rb + (?last + Suc i) = rbHead rb + i + rbCapacity rb" using H(1) by simp
    then have "slot rb (?last + Suc i) = slot rb i" unfolding slot_def by (metis mod_add_self2)
    then show ?thesis using slot_update [OF h, of i ?last "Some x"] H(1) H(6) [of i] that by (cases "i = ?last") (simp_all add: slot, simp_all add: rb)
  qed
  have cap: "slot rb ?last < rbCapacity rb" by (rule slot_less [OF H(1)])
  show ?thesis
  proof (cases "length xs = rbCapacity rb")
    case True
    then have "xs \<noteq> []" using H(1) by auto
    moreover have "rbBuf ?rb ! slot ?rb i = Some ((x # butlast xs) ! i)" if "i < rbCapacity rb" for i
      using that zero later [of "i - 1"] True by (cases i) (simp_all add: nth_butlast)
    moreover have "fst (ringUnshift x rb) = Some (last xs)"
      using True H(4) prev H(6) [of ?last] H(1) \<open>xs \<noteq> []\<close> by (simp add: ringUnshift_def Let_def last_conv_nth)
    ultimately show ?thesis using True H cap by (simp add: ringHolds_def) (simp add: rb)
  next
    case False
    have "rbBuf ?rb ! slot ?rb i = Some ((x # xs) ! i)" if "i < Suc (length xs)" for i
      using that zero later [of "i - 1"] False H(5) by (cases i) simp_all
    moreover have "fst (ringUnshift x rb) = None" using False H(4) by (simp add: ringUnshift_def Let_def)
    ultimately show ?thesis using False H cap by (simp add: ringHolds_def) (simp add: rb)
  qed
qed

lemma at_holds:
  assumes h: "ringHolds rb xs"
  shows "ringAt i rb = (let j = (if i < 0 then i + int (length xs) else i) in
     if 0 \<le> j \<and> j < int (length xs) then Some (xs ! nat j) else None)"
  using ringHoldsD(4) [OF h] ringHoldsD(6) [OF h] by (simp add: ringAt_def Let_def slot_def nat_less_iff)

lemma iterate_holds: "ringHolds rb xs \<Longrightarrow> ringIterate rb = map Some xs"
  using ringHoldsD(4) [of rb xs] ringHoldsD(6) [of rb xs]
  by (auto simp: ringIterate_def slot_def intro!: nth_equalityI)

lemma clear_holds: "ringHolds rb xs \<Longrightarrow> ringHolds (ringClear rb) []"
  by (simp add: ringHolds_def ringClear_def)

lemma newRing_holds: "0 < n \<Longrightarrow> ringHolds (newRing n) []"
  by (simp add: ringHolds_def newRing_def)

text \<open>The two slices of \<open>toArray\<close> are the elements in order.\<close>

lemma toArray_holds:
  assumes h: "ringHolds rb xs"
  shows "ringToArray rb = map Some xs"
proof (rule nth_equalityI)
  note H = ringHoldsD [OF h]
  have wrap: "(rbHead rb + length xs) mod rbCapacity rb = rbHead rb + length xs - rbCapacity rb"
    if "\<not> rbHead rb + length xs \<le> rbCapacity rb" using that H(3,5) by (simp add: mod_if)
  show len: "length (ringToArray rb) = length (map Some xs)"
    using H(2-5) wrap by (auto simp: ringToArray_def min_def)
  show "ringToArray rb ! i = map Some xs ! i" if "i < length (ringToArray rb)" for i
  proof -
    have i: "i < length xs" using that len by simp
    have s: "slot rb i = (if rbHead rb + i < rbCapacity rb then rbHead rb + i else rbHead rb + i - rbCapacity rb)"
      using i H(3,5) by (simp add: slot_def mod_if)
    show ?thesis using H(2-5) H(6) [OF i] i wrap unfolding s
      by (auto simp: ringToArray_def nth_append add.commute split: if_splits)
  qed
qed

section \<open>Sequences of operations\<close>

datatype 'a ring_op = RPush 'a | RUnshift 'a | RShift | RPop | RClear

fun ringStep :: "'a ring_op \<Rightarrow> 'a ring_buffer \<Rightarrow> 'a option \<times> 'a ring_buffer" where
  "ringStep (RPush x) rb = ringPush x rb"
| "ringStep (RUnshift x) rb = ringUnshift x rb"
| "ringStep RShift rb = ringShift rb"
| "ringStep RPop rb = ringPop rb"
| "ringStep RClear rb = (None, ringClear rb)"

text \<open>The specification: a list of at most \<open>n\<close> elements, oldest first.\<close>

fun dequeStep :: "nat \<Rightarrow> 'a ring_op \<Rightarrow> 'a list \<Rightarrow> 'a option \<times> 'a list" where
  "dequeStep n (RPush x) xs = (if length xs = n then (Some (hd xs), tl xs @ [x]) else (None, xs @ [x]))"
| "dequeStep n (RUnshift x) xs = (if length xs = n then (Some (last xs), x # butlast xs) else (None, x # xs))"
| "dequeStep n RShift xs = (if xs = [] then (None, []) else (Some (hd xs), tl xs))"
| "dequeStep n RPop xs = (if xs = [] then (None, []) else (Some (last xs), butlast xs))"
| "dequeStep n RClear xs = (None, [])"

fun runOps :: "('op \<Rightarrow> 's \<Rightarrow> 'r \<times> 's) \<Rightarrow> 'op list \<Rightarrow> 's \<Rightarrow> 'r list \<times> 's" where
  "runOps step [] s = ([], s)"
| "runOps step (op # ops) s =
     (let (r, s1) = step op s; (rs, s2) = runOps step ops s1 in (r # rs, s2))"

lemma ringStep_capacity: "rbCapacity (snd (ringStep op rb)) = rbCapacity rb"
  by (cases op) (simp_all add: ringPush_def ringUnshift_def ringShift_def ringPop_def ringClear_def Let_def)

lemma ringStep_refines:
  assumes "ringHolds rb xs" and "rbCapacity rb = n"
  shows "fst (ringStep op rb) = fst (dequeStep n op xs) \<and> ringHolds (snd (ringStep op rb)) (snd (dequeStep n op xs))"
  using assms push_holds [OF assms(1)] unshift_holds [OF assms(1)] shift_holds [OF assms(1)] pop_holds [OF assms(1)]
    clear_holds [OF assms(1)]
  by (cases op) (auto split: if_splits)

lemma runOps_refines:
  "ringHolds rb xs \<Longrightarrow> rbCapacity rb = n \<Longrightarrow>
   fst (runOps ringStep ops rb) = fst (runOps (dequeStep n) ops xs)
   \<and> ringHolds (snd (runOps ringStep ops rb)) (snd (runOps (dequeStep n) ops xs))"
proof (induction ops arbitrary: rb xs)
  case (Cons op ops)
  then show ?case
    using ringStep_refines [OF Cons.prems, of op] ringStep_capacity [of op rb]
      Cons.IH [of "snd (ringStep op rb)" "snd (dequeStep n op xs)"]
    by (simp add: case_prod_beta Let_def)
qed simp

text \<open>C10 A ring buffer of positive capacity is a bounded double-ended queue: every sequence of pushes, unshifts, shifts,
  pops and clears returns the items the queue returns (the overwritten item when full, the removed one, none when
  empty), and afterwards \<open>toArray\<close>, the iterator, \<open>at\<close> with any index, \<open>peek\<close> and \<open>peekBack\<close> read the queue.\<close>

theorem ring_refines_deque:
  assumes "0 < n"
  shows "fst (runOps ringStep ops (newRing n)) = fst (runOps (dequeStep n) ops [])
    \<and> (let rb = snd (runOps ringStep ops (newRing n)); xs = snd (runOps (dequeStep n) ops []) in
        length xs \<le> n \<and> rbSize rb = length xs
        \<and> ringToArray rb = map Some xs \<and> ringIterate rb = map Some xs
        \<and> (\<forall>i. ringAt i rb = (let j = (if i < 0 then i + int (length xs) else i) in
              if 0 \<le> j \<and> j < int (length xs) then Some (xs ! nat j) else None))
        \<and> ringPeek rb = (if xs = [] then None else Some (hd xs))
        \<and> ringPeekBack rb = (if xs = [] then None else Some (last xs))
        \<and> (ringIsEmpty rb \<longleftrightarrow> xs = []) \<and> (ringIsFull rb \<longleftrightarrow> length xs = n))"
proof -
  have cap: "rbCapacity (snd (runOps ringStep ops rb)) = rbCapacity rb" for rb :: "'a ring_buffer"
    by (induction ops arbitrary: rb) (simp_all add: case_prod_beta Let_def ringStep_capacity)
  let ?rb = "snd (runOps ringStep ops (newRing n))" and ?xs = "snd (runOps (dequeStep n) ops [])"
  have c: "rbCapacity (newRing n) = n" by (simp add: newRing_def)
  have r: "fst (runOps ringStep ops (newRing n)) = fst (runOps (dequeStep n) ops [])" and h: "ringHolds ?rb ?xs"
    using runOps_refines [OF newRing_holds [OF assms] c, of ops] by simp_all
  note H = ringHoldsD [OF h]
  have "ringPeek ?rb = (if ?xs = [] then None else Some (hd ?xs))"
    by (simp add: ringPeek_def at_holds [OF h] hd_conv_nth)
  moreover have "ringPeekBack ?rb = (if ?xs = [] then None else Some (last ?xs))"
    by (auto simp: ringPeekBack_def at_holds [OF h] H(4) last_conv_nth Let_def nat_diff_distrib')
  ultimately show ?thesis
    using r cap H(4,5) toArray_holds [OF h] iterate_holds [OF h] at_holds [OF h]
    by (simp add: Let_def c ringIsEmpty_def ringIsFull_def)
qed

lemma ring_refines_deque_witness:
  "fst (runOps ringStep [RPush 1, RPush 2, RUnshift 3, RPush 4, RShift, RPop] (newRing 2)) =
     [None, None, Some (2::nat), Some 3, Some 1, Some 4]"
proof -
  let ?ops = "[RPush (1::nat), RPush 2, RUnshift 3, RPush 4, RShift, RPop]"
  have "fst (runOps ringStep ?ops (newRing 2)) = fst (runOps (dequeStep 2) ?ops [])"
    by (rule conjunct1 [OF ring_refines_deque [of 2 ?ops]]) simp
  then show ?thesis by simp
qed

section \<open>The kill ring\<close>

type_synonym kill_ring = "jstring list"

definition killPush :: "jstring \<Rightarrow> bool \<Rightarrow> bool \<Rightarrow> kill_ring \<Rightarrow> kill_ring" where
  "killPush t prepend accumulate ring =
     (if t = [] then ring
      else if accumulate \<and> ring \<noteq> [] then
        butlast ring @ [if prepend then t @ last ring else last ring @ t]
      else ring @ [t])"

definition killPeek :: "kill_ring \<Rightarrow> jstring option" where
  "killPeek ring = (if 0 < length ring then Some (ring ! (length ring - 1)) else None)"

definition killRotate :: "kill_ring \<Rightarrow> kill_ring" where
  "killRotate ring = (if 1 < length ring then last ring # butlast ring else ring)"

lemma killPeek_last: "killPeek ring = (if ring = [] then None else Some (last ring))"
  by (simp add: killPeek_def last_conv_nth)

text \<open>Yank-pop: each rotation makes the entry before the one shown the next to be shown, and a full turn
  restores the ring.\<close>

lemma killRotate_rotate: "rotate1 (killRotate ring) = ring"
  by (cases ring rule: rev_cases) (auto simp: killRotate_def)

lemma killRotate_pow: "k \<le> length ring \<Longrightarrow> (killRotate ^^ k) ring = drop (length ring - k) ring @ take (length ring - k) ring"
proof (induction k)
  case (Suc k)
  let ?m = "length ring - Suc k"
  have m: "length ring - k = Suc ?m" "?m < length ring" using Suc.prems by simp_all
  have "take (Suc ?m) ring = take ?m ring @ [ring ! ?m]" using m(2) by (rule take_Suc_conv_app_nth)
  moreover have "drop ?m ring = ring ! ?m # drop (Suc ?m) ring" using m(2) by (rule Cons_nth_drop_Suc [symmetric])
  moreover have "killRotate (ys @ zs @ [z]) = z # ys @ zs" for ys zs :: kill_ring and z
    by (simp add: killRotate_def butlast_append)
  ultimately show ?case using Suc m by (simp del: take_Suc_conv_app_nth)
qed simp

text \<open>A run of accumulated kills is one entry: forward deletions in order, backward deletions reversed.\<close>

fun killAll :: "bool \<Rightarrow> jstring list \<Rightarrow> kill_ring \<Rightarrow> kill_ring" where
  "killAll prepend [] ring = ring"
| "killAll prepend (t # ts) ring = killAll prepend ts (killPush t prepend True ring)"

lemma killAll_accumulates:
  "killAll prepend ts (ring @ [e]) = ring @ [if prepend then concat (rev ts) @ e else e @ concat ts]"
  by (induction ts arbitrary: e) (auto simp: killPush_def)

text \<open>Consecutive kills of non-empty texts form one entry (the deleted text in document order, whichever direction
  they went), and yank-pop shows the entries newest first: after \<open>k\<close> rotations the ring shows the entry \<open>k\<close> places
  before the newest, and after as many rotations as entries it is the ring it was.\<close>

theorem killRing_yank:
  assumes "t \<noteq> []" and "k \<le> length ring"
  shows "killPeek (killAll prepend ts (killPush t prepend False ring)) =
      Some (if prepend then concat (rev ts) @ t else t @ concat ts)
    \<and> length (killAll prepend ts (killPush t prepend False ring)) = Suc (length ring)
    \<and> (k < length ring \<longrightarrow> killPeek ((killRotate ^^ k) ring) = Some (rev ring ! k))
    \<and> (killRotate ^^ length ring) ring = ring"
proof -
  have "last (drop (length ring - k) ring @ take (length ring - k) ring) = rev ring ! k" if "k < length ring"
    using that by (cases "ring = []") (simp_all add: last_append rev_nth last_conv_nth)
  then show ?thesis
    using assms killAll_accumulates [of prepend ts ring t] killRotate_pow [of k ring] killRotate_pow [of "length ring" ring]
    by (auto simp: killPeek_last killPush_def)
qed

lemma killRing_yank_witness:
  "killPeek (killAll True [(js ''b''), (js ''a'')] (killPush (js ''c'') True False [(js ''x''), (js ''y'')])) = Some (js ''abc'')
   \<and> killPeek (killRotate [(js ''x''), (js ''y'')]) = Some (js ''x'')"
  using killRing_yank [of "(js ''c'')" 1 "[(js ''x''), (js ''y'')]" True "[(js ''b''), (js ''a'')]"] by simp

end
