(* ===== verification/Wf_Condition.thy ===== *)
theory Wf_Condition
  imports Js_Value
begin

text \<open>
  packages/coding-agent/src/workflow/condition.ts: the conditions on the edges of a workflow. The scanner reads the
  rest of the source instead of an index; the parser's state \<open>tokens, index\<close> is the list of tokens from the index
  on. The parser descends with fuel, one unit per call; \<open>parseTokens\<close> starts with \<open>6 n + 6\<close> units for \<open>n\<close> tokens,
  which Wf_Condition_Facts shows to be always enough. The kinds of the tokens the code expects by name are
  constructors of \<open>cond_error\<close>.
\<close>

datatype cond_operator = CEq | CNe | CGe | CLe | CGt | CLt

datatype cond_literal = CStr jstring | CNum jsnum | CBool bool | CNull

datatype cond_ast =
    WComparison "jstring list" cond_operator cond_literal
  | WAnd cond_ast cond_ast
  | WOr cond_ast cond_ast
  | WNot cond_ast
  | WExists "jstring list"

record cond_expression =
  ceSource :: jstring
  ceAst :: cond_ast

record cond_context =
  ctxState :: js_val
  ctxOutputs :: js_val

datatype cond_token =
    KPath jstring
  | KLiteral cond_literal
  | KOperator cond_operator
  | KAnd | KOr | KNot | KLparen | KRparen | KEof

datatype cond_error =
    FunctionCallsNotAllowed jstring
  | ExistsExpectsPath
  | ExpectedPath
  | ExpectedOperatorAfter jstring
  | ExpectedLiteral
  | UnexpectedToken nat
  | UnterminatedString
  | ExpectedLparen | ExpectedRparen | ExpectedEof
  | OutOfFuel

section \<open>Scanner\<close>

fun readString :: "nat \<Rightarrow> jstring \<Rightarrow> cond_error + jstring \<times> jstring" where
  "readString quote [] = Inl UnterminatedString"
| "readString quote (c # cs) =
     (if c = quote then Inr ([], cs)
      else bindE (readString quote cs) (\<lambda>(value, rest). Inr (c # value, rest)))"

text \<open>\<open>/^-?\d+(?:\.\d+)?/\<close>: the sign, the two digit runs and the rest.\<close>

definition scanNumber :: "jstring \<Rightarrow> (bool \<times> jstring \<times> jstring \<times> jstring) option" where
  "scanNumber s =
     (let negative = (s \<noteq> [] \<and> hd s = 45);
          s1 = (if negative then tl s else s);
          whole = takeWhile isJsDigit s1;
          s2 = dropWhile isJsDigit s1
      in if whole = [] then None
         else if s2 \<noteq> [] \<and> hd s2 = 46 \<and> takeWhile isJsDigit (tl s2) \<noteq> []
         then Some (negative, whole, takeWhile isJsDigit (tl s2), dropWhile isJsDigit (tl s2))
         else Some (negative, whole, [], s2))"

definition isIdentStart :: "nat \<Rightarrow> bool" where
  "isIdentStart c \<longleftrightarrow> (65 \<le> c \<and> c \<le> 90) \<or> (97 \<le> c \<and> c \<le> 122) \<or> c = 95"

definition isIdentChar :: "nat \<Rightarrow> bool" where
  "isIdentChar c \<longleftrightarrow> isIdentStart c \<or> isJsDigit c \<or> c = 45"

text \<open>\<open>(?:\.[A-Za-z_][A-Za-z0-9_-]*)*\<close>, and the whole of the path expression.\<close>

fun scanPathTail :: "jstring \<Rightarrow> jstring \<times> jstring" where
  "scanPathTail (d # c # cs) =
     (if d = 46 \<and> isIdentStart c then
        let (more, rest) = scanPathTail (dropWhile isIdentChar cs)
        in (d # c # takeWhile isIdentChar cs @ more, rest)
      else ([], d # c # cs))"
| "scanPathTail s = ([], s)"

definition scanPath :: "jstring \<Rightarrow> (jstring \<times> jstring) option" where
  "scanPath s =
     (case s of
        [] \<Rightarrow> None
      | c # cs \<Rightarrow>
          if isIdentStart c then
            let (more, rest) = scanPathTail (dropWhile isIdentChar cs)
            in Some (c # takeWhile isIdentChar cs @ more, rest)
          else None)"

definition pathToken :: "jstring \<Rightarrow> cond_token" where
  "pathToken raw =
     (if raw = js ''true'' then KLiteral (CBool True)
      else if raw = js ''false'' then KLiteral (CBool False)
      else if raw = js ''null'' then KLiteral CNull
      else KPath raw)"

definition twoCharToken :: "jstring \<Rightarrow> cond_token option" where
  "twoCharToken two =
     (if two = js ''&&'' then Some KAnd
      else if two = js ''||'' then Some KOr
      else if two = js ''=='' then Some (KOperator CEq)
      else if two = js ''!='' then Some (KOperator CNe)
      else if two = js ''>='' then Some (KOperator CGe)
      else if two = js ''<='' then Some (KOperator CLe)
      else None)"

definition oneCharToken :: "nat \<Rightarrow> cond_token option" where
  "oneCharToken c =
     (if c = 62 then Some (KOperator CGt)
      else if c = 60 then Some (KOperator CLt)
      else if c = 33 then Some KNot
      else if c = 40 then Some KLparen
      else if c = 41 then Some KRparen
      else None)"

lemma readString_length: "readString quote s = Inr (v, rest) \<Longrightarrow> length rest < length s"
  by (induction s arbitrary: v) (auto simp: bindE_eq_Inr less_Suc_eq split: if_splits prod.splits)

lemma scanNumber_length: "scanNumber s = Some (n, w, f, rest) \<Longrightarrow> length rest < length s"
proof -
  assume a: "scanNumber s = Some (n, w, f, rest)"
  define s1 where "s1 = (if s \<noteq> [] \<and> hd s = 45 then tl s else s)"
  have s1: "length s1 \<le> length s" by (simp add: s1_def)
  have len: "length (takeWhile isJsDigit s1) + length (dropWhile isJsDigit s1) = length s1"
    by (metis length_append takeWhile_dropWhile_id)
  have tl: "length (dropWhile isJsDigit (tl t)) \<le> length t" for t
    using length_dropWhile_le [of isJsDigit "tl t"] by simp
  have w: "takeWhile isJsDigit s1 \<noteq> []" and r: "rest = dropWhile isJsDigit s1 \<or> rest = dropWhile isJsDigit (tl (dropWhile isJsDigit s1))"
    using a by (auto simp: scanNumber_def Let_def s1_def [symmetric] split: if_splits)
  have "length (dropWhile isJsDigit s1) < length s1" using len w by (cases "takeWhile isJsDigit s1") auto
  then show ?thesis using r s1 tl [of "dropWhile isJsDigit s1"] by auto
qed

lemma scanPathTail_length: "length (snd (scanPathTail s)) \<le> length s"
proof (induction s rule: scanPathTail.induct)
  case (1 d c cs)
  then show ?case
    using length_dropWhile_le [of isIdentChar cs] by (auto simp: case_prod_beta Let_def)
qed simp_all

lemma scanPath_length: "scanPath s = Some (raw, rest) \<Longrightarrow> length rest < length s"
proof (cases s)
  case (Cons c cs)
  assume "scanPath s = Some (raw, rest)"
  then have "rest = snd (scanPathTail (dropWhile isIdentChar cs))"
    using Cons by (auto simp: scanPath_def case_prod_beta Let_def split: if_splits)
  then show ?thesis
    using Cons scanPathTail_length [of "dropWhile isIdentChar cs"] length_dropWhile_le [of isIdentChar cs] by simp
qed (simp add: scanPath_def)

text \<open>One round of the scanner's loop: white space gives no token.\<close>

definition nextToken :: "jstring \<Rightarrow> cond_error + cond_token option \<times> jstring" where
  "nextToken s =
     (let c = hd s in
      if isJsSpace c then Inr (None, tl s)
      else case twoCharToken (take 2 s) of
        Some t \<Rightarrow> Inr (Some t, drop 2 s)
      | None \<Rightarrow>
      (case oneCharToken c of
        Some t \<Rightarrow> Inr (Some t, tl s)
      | None \<Rightarrow>
      if c = 34 \<or> c = 39 then
        bindE (readString c (tl s)) (\<lambda>(value, rest). Inr (Some (KLiteral (CStr value)), rest))
      else case scanNumber s of
        Some (negative, whole, fraction, rest) \<Rightarrow> Inr (Some (KLiteral (CNum (decimalNumber negative whole fraction))), rest)
      | None \<Rightarrow>
      (case scanPath s of
        Some (raw, rest) \<Rightarrow> Inr (Some (pathToken raw), rest)
      | None \<Rightarrow> Inl (UnexpectedToken c))))"

lemma twoCharToken_length: "twoCharToken (take 2 s) = Some t \<Longrightarrow> length (drop 2 s) < length s"
  by (cases s) (auto simp: twoCharToken_def split: if_splits)

lemma nextToken_length: "s \<noteq> [] \<Longrightarrow> nextToken s = Inr (t, rest) \<Longrightarrow> length rest < length s"
  by (auto simp: nextToken_def Let_def bindE_eq_Inr split: if_splits option.splits prod.splits
      dest!: readString_length scanNumber_length scanPath_length dest: twoCharToken_length)

function tokenizeCond :: "jstring \<Rightarrow> cond_error + cond_token list" where
  "tokenizeCond s =
     (if s = [] then Inr [KEof]
      else case nextToken s of
        Inl e \<Rightarrow> Inl e
      | Inr (None, rest) \<Rightarrow> tokenizeCond rest
      | Inr (Some t, rest) \<Rightarrow> bindE (tokenizeCond rest) (\<lambda>ts. Inr (t # ts)))"
  by pat_completeness auto
termination
  by (relation "measure length") (auto dest: nextToken_length)

declare tokenizeCond.simps [simp del]

section \<open>Parser\<close>

definition peekToken :: "cond_token list \<Rightarrow> nat \<Rightarrow> cond_token" where
  "peekToken ts offset = (if offset < length ts then ts ! offset else KEof)"

definition consumeToken :: "cond_token list \<Rightarrow> cond_token \<times> cond_token list" where
  "consumeToken ts = (case ts of [] \<Rightarrow> (KEof, []) | t # ts' \<Rightarrow> (t, ts'))"

definition expectToken :: "cond_token \<Rightarrow> cond_error \<Rightarrow> cond_token list \<Rightarrow> cond_error + cond_token list" where
  "expectToken kind e ts = (let (t, ts') = consumeToken ts in if t = kind then Inr ts' else Inl e)"

text \<open>\<open>matchToken\<close>: the tokens after it when the next token is of the kind.\<close>

definition matchToken :: "cond_token \<Rightarrow> cond_token list \<Rightarrow> cond_token list option" where
  "matchToken kind ts = (if peekToken ts 0 = kind then Some (tl ts) else None)"

definition parseExists :: "cond_token list \<Rightarrow> cond_error + cond_ast \<times> cond_token list" where
  "parseExists ts =
     bindE (expectToken KLparen ExpectedLparen (snd (consumeToken ts))) (\<lambda>ts1.
       case consumeToken ts1 of
         (KPath p, ts2) \<Rightarrow>
           bindE (expectToken KRparen ExpectedRparen ts2) (\<lambda>ts3. Inr (WExists (splitOn 46 p), ts3))
       | _ \<Rightarrow> Inl ExistsExpectsPath)"

definition parseComparison :: "cond_token list \<Rightarrow> cond_error + cond_ast \<times> cond_token list" where
  "parseComparison ts =
     (case consumeToken ts of
        (KPath p, ts1) \<Rightarrow>
          (case consumeToken ts1 of
             (KOperator op, ts2) \<Rightarrow>
               (case consumeToken ts2 of
                  (KLiteral l, ts3) \<Rightarrow> Inr (WComparison (splitOn 46 p) op l, ts3)
                | _ \<Rightarrow> Inl ExpectedLiteral)
           | _ \<Rightarrow> Inl (ExpectedOperatorAfter p))
      | _ \<Rightarrow> Inl ExpectedPath)"

fun isPathToken :: "cond_token \<Rightarrow> jstring option" where
  "isPathToken (KPath p) = Some p"
| "isPathToken _ = None"

type_synonym cond_parser = "cond_token list \<Rightarrow> cond_error + cond_ast \<times> cond_token list"

function parseOr :: "nat \<Rightarrow> cond_parser"
  and parseOrLoop :: "nat \<Rightarrow> cond_ast \<Rightarrow> cond_parser"
  and parseAnd :: "nat \<Rightarrow> cond_parser"
  and parseAndLoop :: "nat \<Rightarrow> cond_ast \<Rightarrow> cond_parser"
  and parseUnary :: "nat \<Rightarrow> cond_parser"
  and parsePrimary :: "nat \<Rightarrow> cond_parser"
where
  "parseOr 0 ts = Inl OutOfFuel"
| "parseOr (Suc n) ts = bindE (parseAnd n ts) (\<lambda>(left, ts1). parseOrLoop n left ts1)"
| "parseOrLoop 0 left ts = Inl OutOfFuel"
| "parseOrLoop (Suc n) left ts =
     (case matchToken KOr ts of
        None \<Rightarrow> Inr (left, ts)
      | Some ts1 \<Rightarrow> bindE (parseAnd n ts1) (\<lambda>(right, ts2). parseOrLoop n (WOr left right) ts2))"
| "parseAnd 0 ts = Inl OutOfFuel"
| "parseAnd (Suc n) ts = bindE (parseUnary n ts) (\<lambda>(left, ts1). parseAndLoop n left ts1)"
| "parseAndLoop 0 left ts = Inl OutOfFuel"
| "parseAndLoop (Suc n) left ts =
     (case matchToken KAnd ts of
        None \<Rightarrow> Inr (left, ts)
      | Some ts1 \<Rightarrow> bindE (parseUnary n ts1) (\<lambda>(right, ts2). parseAndLoop n (WAnd left right) ts2))"
| "parseUnary 0 ts = Inl OutOfFuel"
| "parseUnary (Suc n) ts =
     (case matchToken KNot ts of
        Some ts1 \<Rightarrow> bindE (parseUnary n ts1) (\<lambda>(e, ts2). Inr (WNot e, ts2))
      | None \<Rightarrow> parsePrimary n ts)"
| "parsePrimary 0 ts = Inl OutOfFuel"
| "parsePrimary (Suc n) ts =
     (if peekToken ts 0 = KPath (js ''exists'') then parseExists ts
      else if isPathToken (peekToken ts 0) \<noteq> None \<and> peekToken ts 1 = KLparen
      then Inl (FunctionCallsNotAllowed (the (isPathToken (peekToken ts 0))))
      else case matchToken KLparen ts of
        Some ts1 \<Rightarrow>
          bindE (parseOr n ts1) (\<lambda>(e, ts2). bindE (expectToken KRparen ExpectedRparen ts2) (\<lambda>ts3. Inr (e, ts3)))
      | None \<Rightarrow> parseComparison ts)"
  by pat_completeness auto
termination by size_change

definition parseTokens :: "cond_token list \<Rightarrow> cond_error + cond_ast" where
  "parseTokens ts =
     bindE (parseOr (6 * length ts + 6) ts) (\<lambda>(ast, ts1).
       bindE (expectToken KEof ExpectedEof ts1) (\<lambda>_. Inr ast))"

definition parseWorkflowCondition :: "jstring \<Rightarrow> cond_error + cond_expression" where
  "parseWorkflowCondition source =
     (let trimmed = trim source in
      bindE (tokenizeCond trimmed) (\<lambda>ts.
        bindE (parseTokens ts) (\<lambda>ast. Inr \<lparr>ceSource = trimmed, ceAst = ast\<rparr>)))"

section \<open>Evaluation\<close>

fun resolveSegments :: "jstring list \<Rightarrow> js_val \<Rightarrow> js_val" where
  "resolveSegments [] current = current"
| "resolveSegments (segment # segments) (JObj o') = resolveSegments segments (objGet o' segment)"
| "resolveSegments (segment # segments) current = JUndef"

definition resolvePath :: "jstring list \<Rightarrow> cond_context \<Rightarrow> js_val" where
  "resolvePath path ctx =
     (case path of
        [] \<Rightarrow> JUndef
      | first # segments \<Rightarrow>
          if first = js ''state'' then resolveSegments segments (ctxState ctx)
          else if first = js ''outputs'' then resolveSegments segments (ctxOutputs ctx)
          else JUndef)"

text \<open>\<open>===\<close> of a value and a literal.\<close>

fun strictEqLiteral :: "js_val \<Rightarrow> cond_literal \<Rightarrow> bool" where
  "strictEqLiteral (JStr s) (CStr t) = (s = t)"
| "strictEqLiteral (JNum x) (CNum y) = numEq x y"
| "strictEqLiteral (JBool a) (CBool b) = (a = b)"
| "strictEqLiteral JNull CNull = True"
| "strictEqLiteral _ _ = False"

fun compareNumbers :: "js_val \<Rightarrow> cond_literal \<Rightarrow> (jsnum \<Rightarrow> jsnum \<Rightarrow> bool) \<Rightarrow> bool" where
  "compareNumbers (JNum x) (CNum y) compare = compare x y"
| "compareNumbers _ _ compare = False"

definition evaluateComparison :: "jstring list \<Rightarrow> cond_operator \<Rightarrow> cond_literal \<Rightarrow> cond_context \<Rightarrow> bool" where
  "evaluateComparison leftPath operator right ctx =
     (let left = resolvePath leftPath ctx in
      if left = JUndef then False
      else case operator of
        CEq \<Rightarrow> strictEqLiteral left right
      | CNe \<Rightarrow> \<not> strictEqLiteral left right
      | CGe \<Rightarrow> compareNumbers left right (\<lambda>a b. numLessEq b a)
      | CLe \<Rightarrow> compareNumbers left right numLessEq
      | CGt \<Rightarrow> compareNumbers left right (\<lambda>a b. numLess b a)
      | CLt \<Rightarrow> compareNumbers left right numLess)"

fun evaluateAst :: "cond_ast \<Rightarrow> cond_context \<Rightarrow> bool" where
  "evaluateAst (WComparison p op l) ctx = evaluateComparison p op l ctx"
| "evaluateAst (WAnd a b) ctx = (evaluateAst a ctx \<and> evaluateAst b ctx)"
| "evaluateAst (WOr a b) ctx = (evaluateAst a ctx \<or> evaluateAst b ctx)"
| "evaluateAst (WNot e) ctx = (\<not> evaluateAst e ctx)"
| "evaluateAst (WExists p) ctx = (resolvePath p ctx \<noteq> JUndef)"

text \<open>A condition is given by its source or parsed.\<close>

definition evaluateWorkflowCondition :: "jstring + cond_expression \<Rightarrow> cond_context \<Rightarrow> cond_error + bool" where
  "evaluateWorkflowCondition condition ctx =
     bindE (case condition of Inl source \<Rightarrow> parseWorkflowCondition source | Inr expression \<Rightarrow> Inr expression)
       (\<lambda>expression. Inr (evaluateAst (ceAst expression) ctx))"

end
