(* ===== verification/Wf_Condition_Facts.thy ===== *)
theory Wf_Condition_Facts
  imports Wf_Condition
begin

text \<open>
  The condition parser: its fuel is always enough, and it accepts exactly the sentences of the grammar below, with
  \<open>||\<close> and \<open>&&\<close> associating to the left and \<open>!\<close> binding tightest. Printing a condition and parsing the text gives the
  condition back.
\<close>

section \<open>Fuel\<close>

text \<open>More fuel does not change a result other than running out.\<close>

lemma bindE_mono:
  assumes "m \<noteq> Inl e \<Longrightarrow> m' = m" and "\<And>x. m = Inr x \<Longrightarrow> f x \<noteq> Inl e \<Longrightarrow> f' x = f x" and "bindE m f \<noteq> Inl e"
  shows "bindE m' f' = bindE m f"
  using assms by (cases m) auto

lemma parse_mono:
  "(parseOr n ts \<noteq> Inl OutOfFuel \<longrightarrow> parseOr (Suc n) ts = parseOr n ts)
   \<and> (parseOrLoop n a ts \<noteq> Inl OutOfFuel \<longrightarrow> parseOrLoop (Suc n) a ts = parseOrLoop n a ts)
   \<and> (parseAnd n ts \<noteq> Inl OutOfFuel \<longrightarrow> parseAnd (Suc n) ts = parseAnd n ts)
   \<and> (parseAndLoop n a ts \<noteq> Inl OutOfFuel \<longrightarrow> parseAndLoop (Suc n) a ts = parseAndLoop n a ts)
   \<and> (parseUnary n ts \<noteq> Inl OutOfFuel \<longrightarrow> parseUnary (Suc n) ts = parseUnary n ts)
   \<and> (parsePrimary n ts \<noteq> Inl OutOfFuel \<longrightarrow> parsePrimary (Suc n) ts = parsePrimary n ts)"
proof (induction n arbitrary: a ts)
  case (Suc n)
  have or: "parseOr n us \<noteq> Inl OutOfFuel \<Longrightarrow> parseOr (Suc n) us = parseOr n us"
    and orl: "parseOrLoop n b us \<noteq> Inl OutOfFuel \<Longrightarrow> parseOrLoop (Suc n) b us = parseOrLoop n b us"
    and an: "parseAnd n us \<noteq> Inl OutOfFuel \<Longrightarrow> parseAnd (Suc n) us = parseAnd n us"
    and anl: "parseAndLoop n b us \<noteq> Inl OutOfFuel \<Longrightarrow> parseAndLoop (Suc n) b us = parseAndLoop n b us"
    and un: "parseUnary n us \<noteq> Inl OutOfFuel \<Longrightarrow> parseUnary (Suc n) us = parseUnary n us"
    and pr: "parsePrimary n us \<noteq> Inl OutOfFuel \<Longrightarrow> parsePrimary (Suc n) us = parsePrimary n us" for us b
    using Suc.IH by blast+
  have "parseOr (Suc n) ts \<noteq> Inl OutOfFuel \<longrightarrow> parseOr (Suc (Suc n)) ts = parseOr (Suc n) ts"
    unfolding parseOr.simps(2) [of "Suc n" ts] parseOr.simps(2) [of n ts] using an orl
    by (auto intro!: bindE_mono simp del: parseAnd.simps parseOrLoop.simps)
  moreover have "parseAnd (Suc n) ts \<noteq> Inl OutOfFuel \<longrightarrow> parseAnd (Suc (Suc n)) ts = parseAnd (Suc n) ts"
    unfolding parseAnd.simps(2) [of "Suc n" ts] parseAnd.simps(2) [of n ts] using un anl
    by (auto intro!: bindE_mono simp del: parseUnary.simps parseAndLoop.simps)
  moreover have "parseOrLoop (Suc n) a ts \<noteq> Inl OutOfFuel \<longrightarrow> parseOrLoop (Suc (Suc n)) a ts = parseOrLoop (Suc n) a ts"
    unfolding parseOrLoop.simps(2) [of "Suc n" a ts] parseOrLoop.simps(2) [of n a ts] using an orl
    by (auto intro!: bindE_mono simp del: parseAnd.simps parseOrLoop.simps split: option.split)
  moreover have "parseAndLoop (Suc n) a ts \<noteq> Inl OutOfFuel \<longrightarrow> parseAndLoop (Suc (Suc n)) a ts = parseAndLoop (Suc n) a ts"
    unfolding parseAndLoop.simps(2) [of "Suc n" a ts] parseAndLoop.simps(2) [of n a ts] using un anl
    by (auto intro!: bindE_mono simp del: parseUnary.simps parseAndLoop.simps split: option.split)
  moreover have "parseUnary (Suc n) ts \<noteq> Inl OutOfFuel \<longrightarrow> parseUnary (Suc (Suc n)) ts = parseUnary (Suc n) ts"
    unfolding parseUnary.simps(2) [of "Suc n" ts] parseUnary.simps(2) [of n ts] using un pr
    by (auto intro!: bindE_mono simp del: parseUnary.simps parsePrimary.simps split: option.split)
  moreover have "parsePrimary (Suc n) ts \<noteq> Inl OutOfFuel \<longrightarrow> parsePrimary (Suc (Suc n)) ts = parsePrimary (Suc n) ts"
    unfolding parsePrimary.simps(2) [of "Suc n" ts] parsePrimary.simps(2) [of n ts] using or
    by (auto intro!: bindE_mono simp del: parseOr.simps split: option.split)
  ultimately show ?case by blast
qed simp

lemma fuel_le:
  fixes P :: "nat \<Rightarrow> cond_error + 'a"
  assumes "\<And>n. P n \<noteq> Inl OutOfFuel \<Longrightarrow> P (Suc n) = P n" and "P n \<noteq> Inl OutOfFuel" and "n \<le> m"
  shows "P m = P n"
  using assms(3) by (induction rule: dec_induct) (auto simp: assms(1,2))

lemma fuel_agree:
  fixes P :: "nat \<Rightarrow> cond_error + 'a"
  assumes "\<And>n. P n \<noteq> Inl OutOfFuel \<Longrightarrow> P (Suc n) = P n" and "P n \<noteq> Inl OutOfFuel" and "P m \<noteq> Inl OutOfFuel"
  shows "P n = P m"
  using fuel_le [of P n m] fuel_le [of P m n] assms by (metis nle_le)

lemma matchToken_length: "matchToken k ts = Some ts' \<Longrightarrow> k \<noteq> KEof \<Longrightarrow> length ts = Suc (length ts')"
  by (cases ts) (auto simp: matchToken_def peekToken_def split: if_splits)

lemma expectToken_length: "expectToken k e ts = Inr ts' \<Longrightarrow> length ts' \<le> length ts"
  by (auto simp: expectToken_def consumeToken_def split: list.splits if_splits)

lemma expectToken_fuel [simp]: "expectToken k e ts = Inl OutOfFuel \<Longrightarrow> e = OutOfFuel"
  by (auto simp: expectToken_def consumeToken_def split: list.splits if_splits)

lemma consumeToken_simps [simp]: "consumeToken [] = (KEof, [])" "consumeToken (t # ts) = (t, ts)"
  by (simp_all add: consumeToken_def)

lemma expectToken_iff: "k \<noteq> KEof \<Longrightarrow> expectToken k e ts = Inr ts' \<longleftrightarrow> ts = k # ts'"
  by (cases ts) (auto simp: expectToken_def)

lemma parseComparison_iff:
  "parseComparison ts = Inr (a, ts') \<longleftrightarrow>
     (\<exists>p op l. ts = KPath p # KOperator op # KLiteral l # ts' \<and> a = WComparison (splitOn 46 p) op l)"
proof
  assume r: "parseComparison ts = Inr (a, ts')"
  then obtain p ts1 where 1: "ts = KPath p # ts1"
    by (cases ts) (auto simp: parseComparison_def split: cond_token.splits)
  with r obtain op ts2 where 2: "ts1 = KOperator op # ts2"
    by (cases ts1) (auto simp: parseComparison_def split: cond_token.splits)
  with r 1 obtain l ts3 where "ts2 = KLiteral l # ts3"
    by (cases ts2) (auto simp: parseComparison_def split: cond_token.splits)
  with r 1 2 show "\<exists>p op l. ts = KPath p # KOperator op # KLiteral l # ts' \<and> a = WComparison (splitOn 46 p) op l"
    by (auto simp: parseComparison_def)
qed (auto simp: parseComparison_def)

lemma parseExists_iff:
  "parseExists (t # ts) = Inr (a, ts') \<longleftrightarrow>
     (\<exists>p. ts = KLparen # KPath p # KRparen # ts' \<and> a = WExists (splitOn 46 p))"
proof
  assume r: "parseExists (t # ts) = Inr (a, ts')"
  then obtain ts1 where 1: "ts = KLparen # ts1"
    by (auto simp: parseExists_def bindE_eq_Inr expectToken_iff)
  with r obtain p ts2 where "ts1 = KPath p # ts2"
    by (cases ts1) (auto simp: parseExists_def expectToken_iff expectToken_def split: cond_token.splits)
  with r 1 show "\<exists>p. ts = KLparen # KPath p # KRparen # ts' \<and> a = WExists (splitOn 46 p)"
    by (auto simp: parseExists_def bindE_eq_Inr expectToken_iff)
qed (auto simp: parseExists_def expectToken_def)

lemma leaf_fuel: "parseExists ts \<noteq> Inl OutOfFuel" "parseComparison ts \<noteq> Inl OutOfFuel"
  by (auto simp: parseExists_def parseComparison_def bindE_eq_Inl split: prod.splits cond_token.splits
      dest!: expectToken_fuel)

text \<open>A result within its fuel that leaves fewer than \<open>k\<close> tokens.\<close>

definition enough :: "cond_error + cond_ast \<times> cond_token list \<Rightarrow> nat \<Rightarrow> bool" where
  "enough r k \<longleftrightarrow> r \<noteq> Inl OutOfFuel \<and> (\<forall>a ts. r = Inr (a, ts) \<longrightarrow> length ts < k)"

lemma enough_bind:
  "enough m k \<Longrightarrow> (\<And>a ts. length ts < k \<Longrightarrow> enough (f (a, ts)) k') \<Longrightarrow> enough (bindE m f) k'"
  by (cases m) (auto simp: enough_def)

lemma enough_le: "enough r k \<Longrightarrow> k \<le> k' \<Longrightarrow> enough r k'"
  by (fastforce simp: enough_def)

lemma enough_Inr [simp]: "enough (Inr (a, ts)) k \<longleftrightarrow> length ts < k"
  by (auto simp: enough_def)

lemma enough_match:
  assumes "k \<noteq> KEof" and "enough none m" and "\<And>ts1. length ts = Suc (length ts1) \<Longrightarrow> enough (some ts1) m"
  shows "enough (case matchToken k ts of None \<Rightarrow> none | Some ts1 \<Rightarrow> some ts1) m"
  using assms matchToken_length [of k ts] by (auto split: option.splits)

lemma enough_leaf: "ts \<noteq> [] \<Longrightarrow> enough (parseExists ts) (length ts)" "enough (parseComparison ts) (length ts)"
  using leaf_fuel [of ts] by (cases ts, auto simp: enough_def parseExists_iff parseComparison_iff)

lemma enough_expect:
  "length ts < k \<Longrightarrow> enough (bindE (expectToken KRparen ExpectedRparen ts) (\<lambda>ts3. Inr (e, ts3))) k"
  by (cases ts) (auto simp: enough_def expectToken_def)

text \<open>What each level needs for a list of \<open>n\<close> tokens: \<open>6 n\<close> and its place in the chain of calls.\<close>

lemma parse_enough:
  "(6 * length ts + 6 \<le> n \<longrightarrow> enough (parseOr n ts) (length ts))
   \<and> (6 * length ts + 5 \<le> n \<longrightarrow> enough (parseOrLoop n b ts) (Suc (length ts)))
   \<and> (6 * length ts + 4 \<le> n \<longrightarrow> enough (parseAnd n ts) (length ts))
   \<and> (6 * length ts + 3 \<le> n \<longrightarrow> enough (parseAndLoop n b ts) (Suc (length ts)))
   \<and> (6 * length ts + 2 \<le> n \<longrightarrow> enough (parseUnary n ts) (length ts))
   \<and> (6 * length ts + 1 \<le> n \<longrightarrow> enough (parsePrimary n ts) (length ts))"
proof (induction n arbitrary: b ts)
  case (Suc n)
  note IH = conjunct1 [OF Suc.IH] conjunct1 [OF conjunct2 [OF Suc.IH]] conjunct1 [OF conjunct2 [OF conjunct2 [OF Suc.IH]]]
    conjunct1 [OF conjunct2 [OF conjunct2 [OF conjunct2 [OF Suc.IH]]]]
    conjunct1 [OF conjunct2 [OF conjunct2 [OF conjunct2 [OF conjunct2 [OF Suc.IH]]]]]
    conjunct2 [OF conjunct2 [OF conjunct2 [OF conjunct2 [OF conjunct2 [OF Suc.IH]]]]]
  note step = enough_le [OF mp [OF IH(1)]] enough_le [OF mp [OF IH(2)]] enough_le [OF mp [OF IH(3)]]
    enough_le [OF mp [OF IH(4)]] enough_le [OF mp [OF IH(5)]] enough_le [OF mp [OF IH(6)]]
  have "6 * length ts + 6 \<le> Suc n \<longrightarrow> enough (parseOr (Suc n) ts) (length ts)"
    by (auto intro!: enough_bind [where k = "length ts"] step)
  moreover have "6 * length ts + 4 \<le> Suc n \<longrightarrow> enough (parseAnd (Suc n) ts) (length ts)"
    by (auto intro!: enough_bind [where k = "length ts"] step)
  moreover have "6 * length ts + 5 \<le> Suc n \<longrightarrow> enough (parseOrLoop (Suc n) b ts) (Suc (length ts))"
    by (auto intro!: enough_match enough_bind [where k = "length ts"] step)
  moreover have "6 * length ts + 3 \<le> Suc n \<longrightarrow> enough (parseAndLoop (Suc n) b ts) (Suc (length ts))"
    by (auto intro!: enough_match enough_bind [where k = "length ts"] step)
  moreover have "6 * length ts + 2 \<le> Suc n \<longrightarrow> enough (parseUnary (Suc n) ts) (length ts)"
    by (auto intro!: enough_match enough_bind [where k = "length ts"] step)
  moreover have "6 * length ts + 1 \<le> Suc n \<longrightarrow> enough (parsePrimary (Suc n) ts) (length ts)"
  proof
    assume n: "6 * length ts + 1 \<le> Suc n"
    have paren: "enough (case matchToken KLparen ts of
        None \<Rightarrow> parseComparison ts
      | Some ts1 \<Rightarrow> bindE (parseOr n ts1) (\<lambda>(e, ts2). bindE (expectToken KRparen ExpectedRparen ts2) (\<lambda>ts3. Inr (e, ts3)))) (length ts)"
      using n by (auto intro!: enough_match enough_leaf enough_bind [where k = "length ts"] enough_expect step)
    have "ts \<noteq> []" if "peekToken ts 0 = KPath p" for p using that by (auto simp: peekToken_def)
    with paren show "enough (parsePrimary (Suc n) ts) (length ts)"
      by (simp add: enough_leaf) (simp add: enough_def)
  qed
  ultimately show ?case by blast
qed simp

section \<open>The parser without fuel\<close>

definition pOr :: cond_parser where "pOr ts = parseOr (6 * length ts + 6) ts"
definition pOrLoop :: "cond_ast \<Rightarrow> cond_parser" where "pOrLoop a ts = parseOrLoop (6 * length ts + 5) a ts"
definition pAnd :: cond_parser where "pAnd ts = parseAnd (6 * length ts + 4) ts"
definition pAndLoop :: "cond_ast \<Rightarrow> cond_parser" where "pAndLoop a ts = parseAndLoop (6 * length ts + 3) a ts"
definition pUnary :: cond_parser where "pUnary ts = parseUnary (6 * length ts + 2) ts"
definition pPrimary :: cond_parser where "pPrimary ts = parsePrimary (6 * length ts + 1) ts"

lemmas parse_monos = conjunct1 [OF parse_mono] conjunct1 [OF conjunct2 [OF parse_mono]]
  conjunct1 [OF conjunct2 [OF conjunct2 [OF parse_mono]]] conjunct1 [OF conjunct2 [OF conjunct2 [OF conjunct2 [OF parse_mono]]]]
  conjunct1 [OF conjunct2 [OF conjunct2 [OF conjunct2 [OF conjunct2 [OF parse_mono]]]]]
  conjunct2 [OF conjunct2 [OF conjunct2 [OF conjunct2 [OF conjunct2 [OF parse_mono]]]]]

lemmas parse_enoughs = conjunct1 [OF parse_enough] conjunct1 [OF conjunct2 [OF parse_enough]]
  conjunct1 [OF conjunct2 [OF conjunct2 [OF parse_enough]]] conjunct1 [OF conjunct2 [OF conjunct2 [OF conjunct2 [OF parse_enough]]]]
  conjunct1 [OF conjunct2 [OF conjunct2 [OF conjunct2 [OF conjunct2 [OF parse_enough]]]]]
  conjunct2 [OF conjunct2 [OF conjunct2 [OF conjunct2 [OF conjunct2 [OF parse_enough]]]]]

lemma enoughD: "enough r k \<Longrightarrow> r \<noteq> Inl OutOfFuel" "enough r k \<Longrightarrow> r = Inr (a, ts) \<Longrightarrow> length ts < k"
  by (auto simp: enough_def)

lemma p_enough:
  "enough (pOr ts) (length ts)" "enough (pOrLoop a ts) (Suc (length ts))" "enough (pAnd ts) (length ts)"
  "enough (pAndLoop a ts) (Suc (length ts))" "enough (pUnary ts) (length ts)" "enough (pPrimary ts) (length ts)"
  unfolding pOr_def pOrLoop_def pAnd_def pAndLoop_def pUnary_def pPrimary_def
  by (rule mp [OF parse_enoughs(1)] mp [OF parse_enoughs(2)] mp [OF parse_enoughs(3)] mp [OF parse_enoughs(4)]
      mp [OF parse_enoughs(5)] mp [OF parse_enoughs(6)], simp)+

lemma p_fuel:
  "6 * length ts + 6 \<le> n \<Longrightarrow> parseOr n ts = pOr ts"
  "6 * length ts + 5 \<le> n \<Longrightarrow> parseOrLoop n a ts = pOrLoop a ts"
  "6 * length ts + 4 \<le> n \<Longrightarrow> parseAnd n ts = pAnd ts"
  "6 * length ts + 3 \<le> n \<Longrightarrow> parseAndLoop n a ts = pAndLoop a ts"
  "6 * length ts + 2 \<le> n \<Longrightarrow> parseUnary n ts = pUnary ts"
  "6 * length ts + 1 \<le> n \<Longrightarrow> parsePrimary n ts = pPrimary ts"
  unfolding pOr_def pOrLoop_def pAnd_def pAndLoop_def pUnary_def pPrimary_def
  by (rule fuel_le; use parse_monos p_enough [THEN enoughD(1)] in
      \<open>simp add: pOr_def pOrLoop_def pAnd_def pAndLoop_def pUnary_def pPrimary_def\<close>)+

lemma bindE_cong: "m = m' \<Longrightarrow> (\<And>a t. m' = Inr (a, t) \<Longrightarrow> f (a, t) = f' (a, t)) \<Longrightarrow> bindE m f = bindE m' f'"
  by (cases m') auto

lemma pOr_eq: "pOr ts = bindE (pAnd ts) (\<lambda>(left, ts1). pOrLoop left ts1)"
proof -
  have "6 * length ts + 6 = Suc (6 * length ts + 5)" by simp
  then have "pOr ts = bindE (parseAnd (6 * length ts + 5) ts) (\<lambda>(left, ts1). parseOrLoop (6 * length ts + 5) left ts1)"
    unfolding pOr_def by (simp only: parseOr.simps)
  also have "\<dots> = bindE (pAnd ts) (\<lambda>(left, ts1). pOrLoop left ts1)"
    by (rule bindE_cong) (auto simp: p_fuel dest: enoughD(2) [OF p_enough(3)])
  finally show ?thesis .
qed

lemma pAnd_eq: "pAnd ts = bindE (pUnary ts) (\<lambda>(left, ts1). pAndLoop left ts1)"
proof -
  have "6 * length ts + 4 = Suc (6 * length ts + 3)" by simp
  then have "pAnd ts = bindE (parseUnary (6 * length ts + 3) ts) (\<lambda>(left, ts1). parseAndLoop (6 * length ts + 3) left ts1)"
    unfolding pAnd_def by (simp only: parseAnd.simps)
  also have "\<dots> = bindE (pUnary ts) (\<lambda>(left, ts1). pAndLoop left ts1)"
    by (rule bindE_cong) (auto simp: p_fuel dest: enoughD(2) [OF p_enough(5)])
  finally show ?thesis .
qed

lemma match_cong:
  assumes "k \<noteq> KEof" and "\<And>ts1. length ts = Suc (length ts1) \<Longrightarrow> some ts1 = some' ts1"
  shows "(case matchToken k ts of None \<Rightarrow> none | Some ts1 \<Rightarrow> some ts1)
    = (case matchToken k ts of None \<Rightarrow> none | Some ts1 \<Rightarrow> some' ts1)"
  using assms matchToken_length [of k ts] by (auto split: option.split)

lemma pOrLoop_eq:
  "pOrLoop left ts = (case matchToken KOr ts of
      None \<Rightarrow> Inr (left, ts)
    | Some ts1 \<Rightarrow> bindE (pAnd ts1) (\<lambda>(right, ts2). pOrLoop (WOr left right) ts2))"
proof -
  have "6 * length ts + 5 = Suc (6 * length ts + 4)" by simp
  then have "pOrLoop left ts = (case matchToken KOr ts of
      None \<Rightarrow> Inr (left, ts)
    | Some ts1 \<Rightarrow> bindE (parseAnd (6 * length ts + 4) ts1) (\<lambda>(right, ts2). parseOrLoop (6 * length ts + 4) (WOr left right) ts2))"
    unfolding pOrLoop_def by (simp only: parseOrLoop.simps)
  also have "\<dots> = (case matchToken KOr ts of
      None \<Rightarrow> Inr (left, ts)
    | Some ts1 \<Rightarrow> bindE (pAnd ts1) (\<lambda>(right, ts2). pOrLoop (WOr left right) ts2))"
    by (rule match_cong, simp, rule bindE_cong) (auto simp: p_fuel dest: enoughD(2) [OF p_enough(3)])
  finally show ?thesis .
qed

lemma pAndLoop_eq:
  "pAndLoop left ts = (case matchToken KAnd ts of
      None \<Rightarrow> Inr (left, ts)
    | Some ts1 \<Rightarrow> bindE (pUnary ts1) (\<lambda>(right, ts2). pAndLoop (WAnd left right) ts2))"
proof -
  have "6 * length ts + 3 = Suc (6 * length ts + 2)" by simp
  then have "pAndLoop left ts = (case matchToken KAnd ts of
      None \<Rightarrow> Inr (left, ts)
    | Some ts1 \<Rightarrow> bindE (parseUnary (6 * length ts + 2) ts1) (\<lambda>(right, ts2). parseAndLoop (6 * length ts + 2) (WAnd left right) ts2))"
    unfolding pAndLoop_def by (simp only: parseAndLoop.simps)
  also have "\<dots> = (case matchToken KAnd ts of
      None \<Rightarrow> Inr (left, ts)
    | Some ts1 \<Rightarrow> bindE (pUnary ts1) (\<lambda>(right, ts2). pAndLoop (WAnd left right) ts2))"
    by (rule match_cong, simp, rule bindE_cong) (auto simp: p_fuel dest: enoughD(2) [OF p_enough(5)])
  finally show ?thesis .
qed

lemma pUnary_eq:
  "pUnary ts = (case matchToken KNot ts of
      None \<Rightarrow> pPrimary ts
    | Some ts1 \<Rightarrow> bindE (pUnary ts1) (\<lambda>(e, ts2). Inr (WNot e, ts2)))"
proof -
  have "6 * length ts + 2 = Suc (6 * length ts + 1)" by simp
  then have "pUnary ts = (case matchToken KNot ts of
      None \<Rightarrow> parsePrimary (6 * length ts + 1) ts
    | Some ts1 \<Rightarrow> bindE (parseUnary (6 * length ts + 1) ts1) (\<lambda>(e, ts2). Inr (WNot e, ts2)))"
    unfolding pUnary_def by (simp only: parseUnary.simps)
  also have "\<dots> = (case matchToken KNot ts of
      None \<Rightarrow> pPrimary ts
    | Some ts1 \<Rightarrow> bindE (pUnary ts1) (\<lambda>(e, ts2). Inr (WNot e, ts2)))"
    unfolding pPrimary_def by (rule match_cong, simp, rule bindE_cong) (auto simp: p_fuel)
  finally show ?thesis .
qed

lemma pPrimary_eq:
  "pPrimary ts =
     (if peekToken ts 0 = KPath (js ''exists'') then parseExists ts
      else if isPathToken (peekToken ts 0) \<noteq> None \<and> peekToken ts 1 = KLparen
      then Inl (FunctionCallsNotAllowed (the (isPathToken (peekToken ts 0))))
      else case matchToken KLparen ts of
        None \<Rightarrow> parseComparison ts
      | Some ts1 \<Rightarrow>
          bindE (pOr ts1) (\<lambda>(e, ts2). bindE (expectToken KRparen ExpectedRparen ts2) (\<lambda>ts3. Inr (e, ts3))))"
proof -
  have "6 * length ts + 1 = Suc (6 * length ts)" by simp
  then have "pPrimary ts = (if peekToken ts 0 = KPath (js ''exists'') then parseExists ts
      else if isPathToken (peekToken ts 0) \<noteq> None \<and> peekToken ts 1 = KLparen
      then Inl (FunctionCallsNotAllowed (the (isPathToken (peekToken ts 0))))
      else case matchToken KLparen ts of
        None \<Rightarrow> parseComparison ts
      | Some ts1 \<Rightarrow>
          bindE (parseOr (6 * length ts) ts1) (\<lambda>(e, ts2). bindE (expectToken KRparen ExpectedRparen ts2) (\<lambda>ts3. Inr (e, ts3))))"
    unfolding pPrimary_def by (simp only: parsePrimary.simps)
  moreover have "(case matchToken KLparen ts of
        None \<Rightarrow> parseComparison ts
      | Some ts1 \<Rightarrow>
          bindE (parseOr (6 * length ts) ts1) (\<lambda>(e, ts2). bindE (expectToken KRparen ExpectedRparen ts2) (\<lambda>ts3. Inr (e, ts3))))
      = (case matchToken KLparen ts of
        None \<Rightarrow> parseComparison ts
      | Some ts1 \<Rightarrow>
          bindE (pOr ts1) (\<lambda>(e, ts2). bindE (expectToken KRparen ExpectedRparen ts2) (\<lambda>ts3. Inr (e, ts3))))"
    by (rule match_cong, simp, rule bindE_cong) (auto simp: p_fuel)
  ultimately show ?thesis by simp
qed

section \<open>The grammar\<close>

inductive gOr and gAnd and gUnary and gPrimary where
  or_one: "gAnd a ts \<Longrightarrow> gOr a ts"
| or_more: "gOr a ts \<Longrightarrow> gAnd b us \<Longrightarrow> gOr (WOr a b) (ts @ KOr # us)"
| and_one: "gUnary a ts \<Longrightarrow> gAnd a ts"
| and_more: "gAnd a ts \<Longrightarrow> gUnary b us \<Longrightarrow> gAnd (WAnd a b) (ts @ KAnd # us)"
| unary_primary: "gPrimary a ts \<Longrightarrow> gUnary a ts"
| unary_not: "gUnary a ts \<Longrightarrow> gUnary (WNot a) (KNot # ts)"
| primary_paren: "gOr a ts \<Longrightarrow> gPrimary a (KLparen # ts @ [KRparen])"
| primary_exists: "gPrimary (WExists (splitOn 46 p)) [KPath (js ''exists''), KLparen, KPath p, KRparen]"
| primary_comparison: "p \<noteq> js ''exists'' \<Longrightarrow>
    gPrimary (WComparison (splitOn 46 p) op l) [KPath p, KOperator op, KLiteral l]"

text \<open>What the parser returns derives the tokens it consumed.\<close>

lemma match_iff: "k \<noteq> KEof \<Longrightarrow> matchToken k ts = Some ts1 \<longleftrightarrow> ts = k # ts1"
  by (cases ts) (auto simp: matchToken_def peekToken_def)

lemma parse_sound:
  "(pOr ts = Inr (a, r) \<longrightarrow> (\<exists>us. ts = us @ r \<and> gOr a us))
   \<and> (\<forall>b vs. gOr b vs \<longrightarrow> pOrLoop b ts = Inr (a, r) \<longrightarrow> (\<exists>us. ts = us @ r \<and> gOr a (vs @ us)))
   \<and> (pAnd ts = Inr (a, r) \<longrightarrow> (\<exists>us. ts = us @ r \<and> gAnd a us))
   \<and> (\<forall>b vs. gAnd b vs \<longrightarrow> pAndLoop b ts = Inr (a, r) \<longrightarrow> (\<exists>us. ts = us @ r \<and> gAnd a (vs @ us)))
   \<and> (pUnary ts = Inr (a, r) \<longrightarrow> (\<exists>us. ts = us @ r \<and> gUnary a us))
   \<and> (pPrimary ts = Inr (a, r) \<longrightarrow> (\<exists>us. ts = us @ r \<and> gPrimary a us))"
proof (induction "length ts" arbitrary: ts a r rule: less_induct)
  case less
  note IH = less
  have or: "\<exists>us. ts1 = us @ r \<and> gOr a us" if "length ts1 < length ts" "pOr ts1 = Inr (a, r)" for ts1 a r
    using IH [OF that(1)] that(2) by blast
  have orl: "\<exists>us. ts1 = us @ r \<and> gOr a (vs @ us)" if "length ts1 < length ts" "gOr b vs" "pOrLoop b ts1 = Inr (a, r)" for ts1 a r b vs
    using IH [OF that(1)] that(2,3) by blast
  have an: "\<exists>us. ts1 = us @ r \<and> gAnd a us" if "length ts1 < length ts" "pAnd ts1 = Inr (a, r)" for ts1 a r
    using IH [OF that(1)] that(2) by blast
  have anl: "\<exists>us. ts1 = us @ r \<and> gAnd a (vs @ us)" if "length ts1 < length ts" "gAnd b vs" "pAndLoop b ts1 = Inr (a, r)" for ts1 a r b vs
    using IH [OF that(1)] that(2,3) by blast
  have un: "\<exists>us. ts1 = us @ r \<and> gUnary a us" if "length ts1 < length ts" "pUnary ts1 = Inr (a, r)" for ts1 a r
    using IH [OF that(1)] that(2) by blast
  have primary: "\<exists>us. ts = us @ r \<and> gPrimary a us" if p: "pPrimary ts = Inr (a, r)" for a r
  proof (cases "peekToken ts 0 = KPath (js ''exists'')")
    case True
    then obtain ts1 where ts: "ts = KPath (js ''exists'') # ts1" by (cases ts) (auto simp: peekToken_def)
    with p True obtain p' where "ts1 = KLparen # KPath p' # KRparen # r" "a = WExists (splitOn 46 p')"
      by (auto simp: pPrimary_eq parseExists_iff)
    with ts show ?thesis by (auto intro!: exI [of _ "[KPath (js ''exists''), KLparen, KPath p', KRparen]"] primary_exists simp del: js_simps_base)
  next
    case False
    show ?thesis
    proof (cases "matchToken KLparen ts")
      case None
      with p False have "parseComparison ts = Inr (a, r)" by (simp add: pPrimary_eq split: if_splits)
      then obtain p' op l where "ts = KPath p' # KOperator op # KLiteral l # r" "a = WComparison (splitOn 46 p') op l"
        by (auto simp: parseComparison_iff)
      then show ?thesis using False
        by (auto intro!: exI [of _ "[KPath p', KOperator op, KLiteral l]"] primary_comparison simp: peekToken_def)
    next
      case (Some ts1)
      then have ts: "ts = KLparen # ts1" by (simp add: match_iff)
      have "matchToken KLparen (KLparen # ts1) = Some ts1" by (simp add: match_iff)
      with p ts have "pOr ts1 = Inr (a, KRparen # r)"
        by (auto simp: pPrimary_eq peekToken_def bindE_eq_Inr expectToken_iff split: if_splits)
      with or [of ts1 a "KRparen # r"] ts obtain us where "ts1 = us @ KRparen # r" "gOr a us" by auto
      with ts show ?thesis by (auto intro!: exI [of _ "KLparen # us @ [KRparen]"] primary_paren)
    qed
  qed
  have unary: "\<exists>us. ts = us @ r \<and> gUnary a us" if p: "pUnary ts = Inr (a, r)" for a r
  proof (cases "matchToken KNot ts")
    case None
    with p primary [of a r] show ?thesis by (auto simp: pUnary_eq [of ts] intro: unary_primary)
  next
    case (Some ts1)
    then have ts: "ts = KNot # ts1" by (simp add: match_iff)
    from p [unfolded pUnary_eq [of ts] Some option.case] obtain e where "pUnary ts1 = Inr (e, r)" "a = WNot e"
      by (auto simp: bindE_eq_Inr)
    with un [of ts1 e r] ts show ?thesis by (auto intro: unary_not simp: Cons_eq_append_conv)
  qed
  have andl: "\<exists>us. ts = us @ r \<and> gAnd a (vs @ us)" if "gAnd b vs" and p: "pAndLoop b ts = Inr (a, r)" for a r b vs
  proof (cases "matchToken KAnd ts")
    case None
    with p that(1) show ?thesis by (auto simp: pAndLoop_eq [of b ts])
  next
    case (Some ts1)
    then have ts: "ts = KAnd # ts1" by (simp add: match_iff)
    from p [unfolded pAndLoop_eq [of b ts] Some option.case] obtain c ts2
      where c: "pUnary ts1 = Inr (c, ts2)" and l: "pAndLoop (WAnd b c) ts2 = Inr (a, r)"
      by (auto simp: bindE_eq_Inr)
    obtain us where us: "ts1 = us @ ts2" "gUnary c us" using un [OF _ c] ts by auto
    have "length ts2 < length ts" using ts us by simp
    from anl [OF this and_more [OF that(1) us(2)] l] obtain ws where "ts2 = ws @ r" "gAnd a ((vs @ KAnd # us) @ ws)" by blast
    then show ?thesis using ts us by (intro exI [of _ "KAnd # us @ ws"]) simp
  qed
  have and1: "\<exists>us. ts = us @ r \<and> gAnd a us" if p: "pAnd ts = Inr (a, r)" for a r
  proof -
    from p obtain c ts2 where c: "pUnary ts = Inr (c, ts2)" and l: "pAndLoop c ts2 = Inr (a, r)"
      by (auto simp: pAnd_eq bindE_eq_Inr)
    obtain us where us: "ts = us @ ts2" "gUnary c us" using unary [OF c] by auto
    have "length ts2 < length ts" using enoughD(2) [OF p_enough(5) c] .
    from anl [OF this and_one [OF us(2)] l] us show ?thesis by auto
  qed
  have orl1: "\<exists>us. ts = us @ r \<and> gOr a (vs @ us)" if "gOr b vs" and p: "pOrLoop b ts = Inr (a, r)" for a r b vs
  proof (cases "matchToken KOr ts")
    case None
    with p that(1) show ?thesis by (auto simp: pOrLoop_eq [of b ts])
  next
    case (Some ts1)
    then have ts: "ts = KOr # ts1" by (simp add: match_iff)
    from p [unfolded pOrLoop_eq [of b ts] Some option.case] obtain c ts2
      where c: "pAnd ts1 = Inr (c, ts2)" and l: "pOrLoop (WOr b c) ts2 = Inr (a, r)"
      by (auto simp: bindE_eq_Inr)
    obtain us where us: "ts1 = us @ ts2" "gAnd c us" using an [OF _ c] ts by auto
    have "length ts2 < length ts" using ts us by simp
    from orl [OF this or_more [OF that(1) us(2)] l] obtain ws where "ts2 = ws @ r" "gOr a ((vs @ KOr # us) @ ws)" by blast
    then show ?thesis using ts us by (intro exI [of _ "KOr # us @ ws"]) simp
  qed
  have or1: "\<exists>us. ts = us @ r \<and> gOr a us" if p: "pOr ts = Inr (a, r)" for a r
  proof -
    from p obtain c ts2 where c: "pAnd ts = Inr (c, ts2)" and l: "pOrLoop c ts2 = Inr (a, r)"
      by (auto simp: pOr_eq bindE_eq_Inr)
    obtain us where us: "ts = us @ ts2" "gAnd c us" using and1 [OF c] by auto
    have "length ts2 < length ts" using enoughD(2) [OF p_enough(3) c] .
    from orl [OF this or_one [OF us(2)] l] us show ?thesis by auto
  qed
  show ?case using or1 orl1 and1 andl unary primary by blast
qed

text \<open>And what derives is parsed, up to the end of what can continue it.\<close>

lemma gPrimary_first: "gPrimary a ts \<Longrightarrow> ts \<noteq> [] \<and> hd ts \<noteq> KNot"
  by (erule gPrimary.cases) auto

lemma match_other: "ts \<noteq> [] \<Longrightarrow> hd ts \<noteq> k \<Longrightarrow> matchToken k (ts @ r) = None"
  by (cases ts) (auto simp: matchToken_def peekToken_def)

lemma match_Cons [simp]: "matchToken k (t # ts) = (if t = k then Some ts else None)"
  by (simp add: matchToken_def peekToken_def)

lemma peekToken_Cons [simp]: "peekToken (t # ts) 0 = t" "peekToken (t # ts) (Suc n) = peekToken ts n"
  by (simp_all add: peekToken_def)

lemma expectToken_Cons [simp]: "expectToken k e (t # ts) = (if t = k then Inr ts else Inl e)"
  by (simp add: expectToken_def)

lemma pAndLoop_stop: "matchToken KAnd r = None \<Longrightarrow> pAndLoop a r = Inr (a, r)"
  by (subst pAndLoop_eq) simp

lemma pOrLoop_stop: "matchToken KOr r = None \<Longrightarrow> pOrLoop a r = Inr (a, r)"
  by (subst pOrLoop_eq) simp

lemma pAndLoop_more: "pUnary ts = Inr (b, r) \<Longrightarrow> pAndLoop a (KAnd # ts) = pAndLoop (WAnd a b) r"
  by (subst pAndLoop_eq) simp

lemma pOrLoop_more: "pAnd ts = Inr (b, r) \<Longrightarrow> pOrLoop a (KOr # ts) = pOrLoop (WOr a b) r"
  by (subst pOrLoop_eq) simp

lemma pUnary_not: "pUnary ts = Inr (b, r) \<Longrightarrow> pUnary (KNot # ts) = Inr (WNot b, r)"
  by (subst pUnary_eq) simp

lemma parse_complete:
  "gOr a ts \<Longrightarrow> (\<And>r. matchToken KAnd r = None \<Longrightarrow> pOr (ts @ r) = pOrLoop a r)"
  "gAnd a ts \<Longrightarrow> (\<And>r. pAnd (ts @ r) = pAndLoop a r)"
  "gUnary a ts \<Longrightarrow> (\<And>r. pUnary (ts @ r) = Inr (a, r))"
  "gPrimary a ts \<Longrightarrow> (\<And>r. pPrimary (ts @ r) = Inr (a, r))"
proof (induction rule: gOr_gAnd_gUnary_gPrimary.inducts)
  case (or_one a ts)
  then show ?case by (simp add: pOr_eq pAndLoop_stop)
next
  case (or_more a ts b us)
  then show ?case by (simp add: pOrLoop_more pAndLoop_stop)
next
  case (and_one a ts)
  then show ?case by (simp add: pAnd_eq)
next
  case (and_more a ts b us)
  then show ?case by (simp add: pAndLoop_more)
next
  case (unary_primary a ts)
  then show ?case using gPrimary_first [of a ts] by (subst pUnary_eq) (simp add: match_other)
next
  case (unary_not a ts)
  then show ?case by (simp add: pUnary_not)
next
  case (primary_paren a ts)
  then show ?case by (simp add: pPrimary_eq pOrLoop_stop)
next
  case (primary_exists p)
  then show ?case by (simp add: pPrimary_eq parseExists_def)
next
  case (primary_comparison p op l)
  then show ?case by (simp add: pPrimary_eq parseComparison_def)
qed

lemma grammar_no_eof:
  "gOr a ts \<Longrightarrow> KEof \<notin> set ts" "gAnd a ts \<Longrightarrow> KEof \<notin> set ts"
  "gUnary a ts \<Longrightarrow> KEof \<notin> set ts" "gPrimary a ts \<Longrightarrow> KEof \<notin> set ts"
  by (induction rule: gOr_gAnd_gUnary_gPrimary.inducts) auto

lemma expectToken_eof: "expectToken KEof e r = Inr r' \<Longrightarrow> r = [] \<or> hd r = KEof"
  by (cases r) (auto split: if_splits)

lemma parseTokens_pOr: "parseTokens ts = bindE (pOr ts) (\<lambda>(ast, ts1). bindE (expectToken KEof ExpectedEof ts1) (\<lambda>_. Inr ast))"
  by (simp add: parseTokens_def pOr_def)

lemma parseTokens_iff:
  assumes "KEof \<notin> set us"
  shows "parseTokens (us @ [KEof]) = Inr a \<longleftrightarrow> gOr a us"
proof
  assume "gOr a us"
  then show "parseTokens (us @ [KEof]) = Inr a"
    using parse_complete(1) [of a us "[KEof]"] by (simp add: parseTokens_pOr pOrLoop_stop)
next
  assume "parseTokens (us @ [KEof]) = Inr a"
  then obtain r where r: "pOr (us @ [KEof]) = Inr (a, r)" "r = [] \<or> hd r = KEof"
    using expectToken_eof by (fastforce simp: parseTokens_pOr bindE_eq_Inr)
  with parse_sound [of "us @ [KEof]" a r] obtain vs where vs: "us @ [KEof] = vs @ r" "gOr a vs" by blast
  have "r \<noteq> []" using vs grammar_no_eof(1) [OF vs(2)] by (metis append.right_neutral in_set_conv_decomp)
  then obtain r' where r': "r = KEof # r'" using r(2) by (cases r) auto
  have "r' = []"
  proof (cases r' rule: rev_cases)
    case (snoc ys y)
    then have "us = vs @ KEof # ys" using vs(1) r' by simp
    with assms show ?thesis by simp
  qed
  then have "us = vs" using vs(1) r' by simp
  with vs(2) show "gOr a us" by simp
qed

text \<open>The scanner ends the tokens with \<open>eof\<close> and uses it nowhere else.\<close>

lemma nextToken_no_eof: "nextToken s \<noteq> Inl OutOfFuel" "nextToken s = Inr (Some t, rest) \<Longrightarrow> t \<noteq> KEof"
proof -
  have "readString q u \<noteq> Inl OutOfFuel" for q u by (induction u) (auto simp: bindE_eq_Inl)
  then show "nextToken s \<noteq> Inl OutOfFuel"
    by (auto simp: nextToken_def Let_def bindE_eq_Inl split: option.splits prod.splits)
  show "nextToken s = Inr (Some t, rest) \<Longrightarrow> t \<noteq> KEof"
    by (auto simp: nextToken_def Let_def bindE_eq_Inr twoCharToken_def oneCharToken_def pathToken_def
        split: option.splits prod.splits if_splits)
qed

lemma tokenizeCond_eof: "tokenizeCond s \<noteq> Inl OutOfFuel \<and> (tokenizeCond s = Inr ts \<longrightarrow> (\<exists>us. ts = us @ [KEof] \<and> KEof \<notin> set us))"
proof (induction s arbitrary: ts rule: tokenizeCond.induct)
  case (1 s)
  show ?case
  proof (cases "s = []")
    case False
    show ?thesis
    proof (cases "nextToken s")
      case (Inl e)
      then show ?thesis using False nextToken_no_eof(1) [of s] by (subst (1 2) tokenizeCond.simps) simp
    next
      case (Inr q)
      then obtain t rest where q: "q = (t, rest)" by fastforce
      show ?thesis
      proof (cases t)
        case None
        then show ?thesis using "1.IH"(1) [OF False Inr q [symmetric] None] False Inr q by (subst (1 2) tokenizeCond.simps) simp
      next
        case (Some t')
        note IH = "1.IH"(2) [OF False Inr q [symmetric] Some]
        have "t' \<noteq> KEof" using nextToken_no_eof(2) [of s t' rest] Inr q Some by simp
        have "tokenizeCond s = bindE (tokenizeCond rest) (\<lambda>ts. Inr (t' # ts))"
          using False Inr q Some by (subst tokenizeCond.simps) simp
        then show ?thesis using IH \<open>t' \<noteq> KEof\<close>
          by (auto simp: bindE_eq_Inl bindE_eq_Inr) (metis Cons_eq_appendI set_ConsD)
      qed
    qed
  qed (subst (1 2) tokenizeCond.simps, simp)
qed

text \<open>Parsing a condition always ends: whatever the source, the parser returns a condition or one of its own errors,
  never running out of the fuel it starts with.\<close>

theorem parseWorkflowCondition_total: "parseWorkflowCondition source \<noteq> Inl OutOfFuel"
proof -
  have "parseTokens ts \<noteq> Inl OutOfFuel" for ts
    using enoughD(1) [OF p_enough(1), of ts] by (auto simp: parseTokens_pOr bindE_eq_Inl dest!: expectToken_fuel)
  then show ?thesis using tokenizeCond_eof [of "trim source"] by (auto simp: parseWorkflowCondition_def Let_def bindE_eq_Inl)
qed

text \<open>C32 The parser accepts exactly the grammar: a source parses to a condition precisely when the scanner cuts it into
  tokens that derive that condition, with both connectives associating to the left, \<open>&&\<close> binding tighter than \<open>||\<close> and
  \<open>!\<close> tighter than both; so no source has two readings.\<close>

theorem parseWorkflowCondition_grammar:
  "(parseWorkflowCondition source = Inr expression \<longleftrightarrow>
     (\<exists>us. tokenizeCond (trim source) = Inr (us @ [KEof]) \<and> gOr (ceAst expression) us \<and> ceSource expression = trim source))
   \<and> \<not> (gOr a us \<and> gOr b us \<and> a \<noteq> b)"
proof (intro conjI notI iffI)
  assume "parseWorkflowCondition source = Inr expression"
  then obtain ts a' where ts: "tokenizeCond (trim source) = Inr ts" "parseTokens ts = Inr a'"
    "expression = \<lparr>ceSource = trim source, ceAst = a'\<rparr>"
    by (auto simp: parseWorkflowCondition_def Let_def bindE_eq_Inr)
  obtain vs where "ts = vs @ [KEof]" "KEof \<notin> set vs" using tokenizeCond_eof [of "trim source" ts] ts(1) by auto
  with ts show "\<exists>us. tokenizeCond (trim source) = Inr (us @ [KEof]) \<and> gOr (ceAst expression) us \<and> ceSource expression = trim source"
    by (auto simp: parseTokens_iff)
next
  assume "\<exists>us. tokenizeCond (trim source) = Inr (us @ [KEof]) \<and> gOr (ceAst expression) us \<and> ceSource expression = trim source"
  then obtain us where us: "tokenizeCond (trim source) = Inr (us @ [KEof])" "gOr (ceAst expression) us" "ceSource expression = trim source"
    by blast
  have "parseTokens (us @ [KEof]) = Inr (ceAst expression)"
    using us(2) grammar_no_eof(1) [OF us(2)] by (simp add: parseTokens_iff)
  with us show "parseWorkflowCondition source = Inr expression"
    by (simp add: parseWorkflowCondition_def Let_def)
next
  assume ab: "gOr a us \<and> gOr b us \<and> a \<noteq> b"
  then have "parseTokens (us @ [KEof]) = Inr a" "parseTokens (us @ [KEof]) = Inr b"
    using grammar_no_eof(1) [of a us] by (simp_all add: parseTokens_iff)
  with ab show False by simp
qed

section \<open>Printing\<close>

definition literalText :: "cond_literal \<Rightarrow> jstring" where
  "literalText l =
     (case l of
        CStr s \<Rightarrow> (if 34 \<in> set s then [39] @ s @ [39] else [34] @ s @ [34])
      | CNum (NumFin r) \<Rightarrow> (if r < 0 then [45] else []) @ natToString (nat \<bar>\<lfloor>r\<rfloor>\<bar>)
      | CNum _ \<Rightarrow> []
      | CBool b \<Rightarrow> (if b then js ''true'' else js ''false'')
      | CNull \<Rightarrow> js ''null'')"

fun operatorText :: "cond_operator \<Rightarrow> jstring" where
  "operatorText CEq = js ''==''"
| "operatorText CNe = js ''!=''"
| "operatorText CGe = js ''>=''"
| "operatorText CLe = js ''<=''"
| "operatorText CGt = js ''>''"
| "operatorText CLt = js ''<''"

fun tokenText :: "cond_token \<Rightarrow> jstring" where
  "tokenText (KPath p) = p"
| "tokenText (KLiteral l) = literalText l"
| "tokenText (KOperator op) = operatorText op"
| "tokenText KAnd = js ''&&''"
| "tokenText KOr = js ''||''"
| "tokenText KNot = js ''!''"
| "tokenText KLparen = js ''(''"
| "tokenText KRparen = js '')''"
| "tokenText KEof = []"

definition parens :: "bool \<Rightarrow> cond_token list \<Rightarrow> cond_token list" where
  "parens b ts = (if b then KLparen # ts @ [KRparen] else ts)"

text \<open>The tokens of a condition where the grammar asks for an \<open>or\<close> (level 0), an \<open>and\<close> (1) or a unary (2).\<close>

fun conditionTokens :: "nat \<Rightarrow> cond_ast \<Rightarrow> cond_token list" where
  "conditionTokens level (WOr a b) = parens (0 < level) (conditionTokens 0 a @ KOr # conditionTokens 1 b)"
| "conditionTokens level (WAnd a b) = parens (1 < level) (conditionTokens 1 a @ KAnd # conditionTokens 2 b)"
| "conditionTokens level (WNot e) = KNot # conditionTokens 2 e"
| "conditionTokens level (WExists p) = [KPath (js ''exists''), KLparen, KPath (joinOn [46] p), KRparen]"
| "conditionTokens level (WComparison p op l) = [KPath (joinOn [46] p), KOperator op, KLiteral l]"

definition conditionText :: "cond_ast \<Rightarrow> jstring" where
  "conditionText a = joinOn [32] (map tokenText (conditionTokens 0 a))"

definition isIdent :: "jstring \<Rightarrow> bool" where
  "isIdent w \<longleftrightarrow> w \<noteq> [] \<and> isIdentStart (hd w) \<and> list_all isIdentChar (tl w)"

definition pathOk :: "jstring list \<Rightarrow> bool" where
  "pathOk p \<longleftrightarrow> p \<noteq> [] \<and> list_all isIdent p \<and> joinOn [46] p \<notin> set (map js [''true'', ''false'', ''null''])"

fun literalOk :: "cond_literal \<Rightarrow> bool" where
  "literalOk (CStr s) = (34 \<notin> set s \<or> 39 \<notin> set s)"
| "literalOk (CNum (NumFin r)) = (r = of_int \<lfloor>r\<rfloor> \<and> \<bar>\<lfloor>r\<rfloor>\<bar> < 2 ^ 53)"
| "literalOk (CNum _) = False"
| "literalOk _ = True"

text \<open>The conditions a source can hold, but for numbers beyond the integers that doubles count exactly.\<close>

fun printable :: "cond_ast \<Rightarrow> bool" where
  "printable (WComparison p op l) = (pathOk p \<and> p \<noteq> [js ''exists''] \<and> literalOk l)"
| "printable (WExists p) = pathOk p"
| "printable (WNot e) = printable e"
| "printable (WAnd a b) = (printable a \<and> printable b)"
| "printable (WOr a b) = (printable a \<and> printable b)"

lemma pathOk_split: "pathOk p \<Longrightarrow> splitOn 46 (joinOn [46] p) = p"
  by (rule splitOn_joinOn)
    (auto simp: pathOk_def isIdent_def list_all_iff isIdentStart_def isIdentChar_def isJsDigit_def dest!: bspec
      elim: list.set_cases)

lemma conditionTokens_derive:
  "printable a \<Longrightarrow> gOr a (conditionTokens 0 a) \<and> gAnd a (conditionTokens 1 a) \<and> gUnary a (conditionTokens 2 a)"
proof (induction a)
  case (WComparison p op l)
  have "joinOn [46] p \<noteq> js ''exists''" using WComparison pathOk_split [of p] by (auto simp del: js_simps_base) (simp add: js_def)
  with primary_comparison [of "joinOn [46] p" op l] WComparison show ?case
    by (simp add: pathOk_split unary_primary and_one or_one)
next
  case (WExists p)
  with primary_exists [of "joinOn [46] p"] show ?case by (simp add: pathOk_split unary_primary and_one or_one)
next
  case (WNot e)
  then show ?case by (auto intro: or_one and_one unary_not)
next
  case (WAnd a b)
  then have g: "gAnd (WAnd a b) (conditionTokens 1 a @ KAnd # conditionTokens 2 b)" by (auto intro: and_more)
  show ?case using g unary_primary [OF primary_paren [OF or_one [OF g]]] by (simp add: parens_def or_one)
next
  case (WOr a b)
  then have g: "gOr (WOr a b) (conditionTokens 0 a @ KOr # conditionTokens 1 b)" by (auto intro: or_more)
  show ?case using g unary_primary [OF primary_paren [OF g]] by (simp add: parens_def and_one)
qed

section \<open>Scanning what was printed\<close>

text \<open>The number of an integer's digits.\<close>

lemma bitLength_le: "n < 2 ^ k \<Longrightarrow> bitLength n \<le> k"
proof (induction k arbitrary: n)
  case (Suc k)
  then show ?case by (subst bitLength.simps) (auto simp: less_mult_imp_div_less)
qed (simp add: bitLength.simps)

lemma roundHalfEven_exact: "0 < d \<Longrightarrow> roundHalfEven (m * d) d = m"
  by (simp add: roundHalfEven_def)

lemma nearestDouble_int:
  assumes "n < 2 ^ 53"
  shows "nearestDouble negative n 1 = NumFin (if negative then - rat_of_nat n else rat_of_nat n)"
proof (cases "n = 0")
  case True
  then show ?thesis by (simp add: nearestDouble_def)
next
  case False
  have one: "bitLength (Suc 0) = 1" by (simp add: bitLength.simps)
  define e where "e = doubleExponent n 1"
  have e: "e \<le> 0" using bitLength_le [OF assms] by (simp add: e_def one doubleExponent_def Let_def)
  have bound: "rat_of_nat n < 2 ^ 1024"
  proof -
    have "rat_of_nat n < of_nat (2 ^ 53)" using assms by (rule of_nat_less_iff [THEN iffD2])
    also have "\<dots> \<le> 2 ^ 1024" by simp
    finally show ?thesis .
  qed
  show ?thesis
  proof (cases "e = 0")
    case True
    then show ?thesis
      using False bound roundHalfEven_exact [of 1 n]
      by (simp add: nearestDouble_def Let_def e_def [symmetric, simplified])
  next
    case neg: False
    define k where "k = nat (- e)"
    have k: "\<not> 0 \<le> e" using e neg by simp
    have "roundHalfEven (n * 2 ^ k) 1 = n * 2 ^ k" using roundHalfEven_exact [of 1 "n * 2 ^ k"] by simp
    then show ?thesis using False bound k
      by (simp add: nearestDouble_def Let_def e_def [symmetric, simplified] k_def [symmetric])
  qed
qed

text \<open>A token's text followed by a blank or the end.\<close>

definition blank :: "jstring \<Rightarrow> bool" where
  "blank s \<longleftrightarrow> s = [] \<or> hd s = 32"

lemma takeWhile_run: "list_all P w \<Longrightarrow> s = [] \<or> \<not> P (hd s) \<Longrightarrow> takeWhile P (w @ s) = w \<and> dropWhile P (w @ s) = s"
  by (induction w) (cases s, auto)

lemma takeWhile_blank: "list_all P w \<Longrightarrow> \<not> P 32 \<Longrightarrow> blank s \<Longrightarrow> takeWhile P (w @ s) = w \<and> dropWhile P (w @ s) = s"
  by (rule takeWhile_run) (auto simp: blank_def)

lemma scanNumber_int:
  assumes "blank s"
  shows "scanNumber ((if negative then [45] else []) @ natToString n @ s) = Some (negative, natToString n, [], s)"
proof -
  have d: "list_all isJsDigit (natToString n)" by (auto simp: list_all_iff dest: natToString_digits)
  have "hd (natToString n @ s) \<noteq> 45"
    using natToString_digits [of "hd (natToString n)" n] by (auto simp: isJsDigit_def)
  moreover have "\<not> isJsDigit 32" by (simp add: isJsDigit_def)
  ultimately show ?thesis using takeWhile_blank [OF d _ assms] assms by (auto simp: scanNumber_def Let_def blank_def)
qed

lemma identChar_facts: "\<not> isIdentChar 32" "\<not> isIdentChar 46"
  by (simp_all add: isIdentChar_def isIdentStart_def isJsDigit_def)

lemma scanIdents:
  "list_all isIdent ids \<Longrightarrow> blank s \<Longrightarrow> scanPathTail (concat (map (\<lambda>w. 46 # w) ids) @ s) = (concat (map (\<lambda>w. 46 # w) ids), s)"
proof (induction ids)
  case Nil
  then show ?case by (cases s rule: scanPathTail.cases) (auto simp: blank_def)
next
  case (Cons w ids)
  obtain c cs where w: "w = c # cs" "isIdentStart c" "list_all isIdentChar cs"
    using Cons.prems(1) by (cases w) (auto simp: isIdent_def)
  let ?rest = "concat (map (\<lambda>w. 46 # w) ids) @ s"
  have "?rest = [] \<or> \<not> isIdentChar (hd ?rest)"
    using Cons.prems(2) identChar_facts by (cases ids) (auto simp: blank_def)
  then have "takeWhile isIdentChar (cs @ ?rest) = cs" "dropWhile isIdentChar (cs @ ?rest) = ?rest"
    using takeWhile_run [OF w(3), of ?rest] by simp_all
  with Cons w show ?case by simp
qed

lemma joinOn_dots: "joinOn [46] (w # ids) = w @ concat (map (\<lambda>w. 46 # w) ids)"
  by (induction ids arbitrary: w) simp_all

lemma scanPath_joined:
  assumes "ids \<noteq> []" and "list_all isIdent ids" and "blank s"
  shows "scanPath (joinOn [46] ids @ s) = Some (joinOn [46] ids, s)"
proof -
  obtain w ids' where ids: "ids = w # ids'" using assms(1) by (cases ids) auto
  obtain c cs where w: "w = c # cs" "isIdentStart c" "list_all isIdentChar cs"
    using assms(2) ids by (cases w) (auto simp: isIdent_def)
  let ?rest = "concat (map (\<lambda>w. 46 # w) ids') @ s"
  have "?rest = [] \<or> \<not> isIdentChar (hd ?rest)"
    using assms(3) identChar_facts by (cases ids') (auto simp: blank_def)
  then have "takeWhile isIdentChar (cs @ ?rest) = cs" "dropWhile isIdentChar (cs @ ?rest) = ?rest"
    using takeWhile_run [OF w(3), of ?rest] by simp_all
  then show ?thesis using w scanIdents [of ids' s] assms(2,3) ids by (simp add: scanPath_def joinOn_dots)
qed

lemma readString_quoted: "q \<notin> set v \<Longrightarrow> readString q (v @ q # s) = Inr (v, s)"
  by (induction v) auto

lemma twoCharToken_first: "c \<notin> {38, 124, 61, 33, 62, 60} \<Longrightarrow> twoCharToken (c # cs) = None"
  by (auto simp: twoCharToken_def split: if_splits)

lemma identStart_facts:
  assumes "isIdentStart c"
  shows "\<not> isJsSpace c" "\<not> isJsDigit c" "c \<noteq> 45" "c \<noteq> 34" "c \<noteq> 39" "twoCharToken (c # cs) = None" "oneCharToken c = None"
  using assms twoCharToken_first [of c cs]
  by (auto simp: isIdentStart_def isJsSpace_def isJsDigit_def oneCharToken_def)

lemma nextToken_path:
  assumes "ids \<noteq> []" and "list_all isIdent ids" and "blank s"
  shows "nextToken (joinOn [46] ids @ s) = Inr (Some (pathToken (joinOn [46] ids)), s)"
proof -
  obtain w ids' where ids: "ids = w # ids'" using assms(1) by (cases ids) auto
  then obtain c cs where "w = c # cs" "isIdentStart c" using assms(2) by (cases w) (auto simp: isIdent_def)
  then obtain cs' where joined: "joinOn [46] ids @ s = c # cs'" using ids by (simp add: joinOn_dots)
  note c = identStart_facts [OF \<open>isIdentStart c\<close>]
  have "scanNumber (c # cs') = None" using c(2,3) by (simp add: scanNumber_def Let_def)
  moreover have "scanPath (c # cs') = Some (joinOn [46] ids, s)" using scanPath_joined [OF assms] joined by simp
  moreover have "take 2 (c # cs') = c # take 1 cs'" by (simp add: take_Suc numeral_2_eq_2)
  ultimately show ?thesis using c by (simp add: nextToken_def Let_def joined)
qed

definition lexable :: "cond_token \<Rightarrow> bool" where
  "lexable t \<longleftrightarrow>
     (case t of
        KPath p \<Rightarrow> (\<exists>ids. p = joinOn [46] ids \<and> pathOk ids)
      | KLiteral l \<Rightarrow> literalOk l
      | KEof \<Rightarrow> False
      | _ \<Rightarrow> True)"

lemma keyword_ident: "isIdent (js ''true'')" "isIdent (js ''false'')" "isIdent (js ''null'')" "isIdent (js ''exists'')"
  by (simp_all add: isIdent_def isIdentStart_def isIdentChar_def)

lemma nextToken_number:
  assumes "blank s" and "literalOk (CNum (NumFin r))"
  shows "nextToken (literalText (CNum (NumFin r)) @ s) = Inr (Some (KLiteral (CNum (NumFin r))), s)"
proof -
  let ?n = "nat \<bar>\<lfloor>r\<rfloor>\<bar>" and ?sign = "if r < 0 then [45] else []"
  let ?t = "?sign @ natToString ?n @ s"
  have digit: "isJsDigit (hd (natToString ?n))" using natToString_digits [of "hd (natToString ?n)" ?n] by simp
  have hd: "hd ?t = 45 \<or> isJsDigit (hd ?t)" using digit by (simp add: hd_append)
  obtain c cs where t: "?t = c # cs" by (cases ?t) simp_all
  have c: "c = 45 \<or> isJsDigit c" using hd t by simp
  then have f: "\<not> isJsSpace c" "c \<noteq> 34" "c \<noteq> 39" "twoCharToken (c # take 1 cs) = None" "oneCharToken c = None"
    using twoCharToken_first [of c "take 1 cs"] by (auto simp: isJsSpace_def isJsDigit_def oneCharToken_def)
  have n: "?n < 2 ^ 53" using assms(2) by (simp add: nat_less_iff)
  have r: "(if r < 0 then - rat_of_nat ?n else rat_of_nat ?n) = r"
  proof -
    have "r = of_int \<lfloor>r\<rfloor>" using assms(2) by simp
    moreover have "\<lfloor>r\<rfloor> < 0 \<longleftrightarrow> r < 0" by simp
    ultimately show ?thesis by (cases "r < 0") (simp_all add: abs_if)
  qed
  have "decimalNumber (r < 0) (natToString ?n) [] = NumFin r"
    using nearestDouble_int [OF n, of "r < 0"] r by (simp add: decimalNumber_def)
  moreover have "scanNumber (c # cs) = Some (r < 0, natToString ?n, [], s)"
    using scanNumber_int [OF assms(1), of "r < 0" ?n] t by simp
  moreover have "take 2 (c # cs) = c # take 1 cs" by (simp add: take_Suc numeral_2_eq_2)
  ultimately have "nextToken (c # cs) = Inr (Some (KLiteral (CNum (NumFin r))), s)"
    using f by (simp add: nextToken_def Let_def)
  then show ?thesis using t by (simp add: literalText_def)
qed

lemma nextToken_string:
  assumes "literalOk (CStr v)"
  shows "nextToken (literalText (CStr v) @ s) = Inr (Some (KLiteral (CStr v)), s)"
  using assms readString_quoted [of 34 v s] readString_quoted [of 39 v s]
  by (auto simp: literalText_def nextToken_def Let_def isJsSpace_def oneCharToken_def twoCharToken_first numeral_2_eq_2)

lemma nextToken_fixed:
  assumes "blank s" and "t \<in> {KAnd, KOr, KNot, KLparen, KRparen, KOperator CEq, KOperator CNe, KOperator CGe, KOperator CLe,
    KOperator CGt, KOperator CLt}"
  shows "nextToken (tokenText t @ s) = Inr (Some t, s)"
proof -
  have "take (Suc 0) s = [] \<or> take (Suc 0) s = [32]" using assms(1) by (cases s) (auto simp: blank_def)
  then show ?thesis using assms(2)
    by (elim insertE) (auto simp: nextToken_def Let_def isJsSpace_def twoCharToken_def oneCharToken_def numeral_2_eq_2)
qed

lemma nextToken_text:
  assumes "lexable t" and "blank s"
  shows "nextToken (tokenText t @ s) = Inr (Some t, s)"
proof (cases t)
  case (KPath p)
  then obtain ids where ids: "p = joinOn [46] ids" "pathOk ids" using assms(1) by (auto simp: lexable_def)
  then have "pathToken p = KPath p" by (auto simp: pathToken_def pathOk_def simp del: js_simps_base)
  then show ?thesis using KPath ids nextToken_path [OF _ _ assms(2), of ids] by (simp add: pathOk_def)
next
  case (KLiteral l)
  then have ok: "literalOk l" using assms(1) by (simp add: lexable_def)
  show ?thesis
  proof (cases l)
    case (CStr v)
    then show ?thesis using KLiteral ok nextToken_string [of v s] by simp
  next
    case (CNum x)
    then show ?thesis using KLiteral ok nextToken_number [OF assms(2)] by (cases x) simp_all
  next
    case (CBool b)
    then show ?thesis
      using KLiteral nextToken_path [OF _ _ assms(2), of "[js (if b then ''true'' else ''false'')]"] keyword_ident
      by (cases b) (simp_all add: literalText_def pathToken_def)
  next
    case CNull
    then show ?thesis using KLiteral nextToken_path [OF _ _ assms(2), of "[js ''null'']"] keyword_ident
      by (simp add: literalText_def pathToken_def)
  qed
next
  case (KOperator op)
  then show ?thesis using nextToken_fixed [OF assms(2), of t] by (cases op) simp_all
qed (use assms nextToken_fixed [OF assms(2), of t] in \<open>simp_all add: lexable_def\<close>)

text \<open>The ends of a token's text are not white space.\<close>

lemma ident_chars:
  assumes "isIdent w" and "c \<in> set w"
  shows "\<not> isJsSpace c"
proof -
  have "isIdentStart c \<or> isIdentChar c" using assms by (cases w) (auto simp: isIdent_def list_all_iff)
  then show ?thesis unfolding isIdentChar_def isIdentStart_def isJsDigit_def isJsSpace_def by (elim disjE conjE) simp_all
qed

lemma joinOn_chars: "c \<in> set (joinOn sep ls) \<Longrightarrow> c \<in> set sep \<or> (\<exists>l \<in> set ls. c \<in> set l)"
  by (induction sep ls rule: joinOn.induct) auto

lemma set_joined: "list_all isIdent ids \<Longrightarrow> c \<in> set (joinOn [46] ids) \<Longrightarrow> \<not> isJsSpace c"
  by (drule joinOn_chars) (auto simp: list_all_iff ident_chars isJsSpace_def [of 46])

lemma tokenText_ends:
  assumes "lexable t"
  shows "tokenText t \<noteq> []" "\<not> isJsSpace (hd (tokenText t))" "\<not> isJsSpace (last (tokenText t))"
proof -
  have "tokenText t \<noteq> [] \<and> \<not> isJsSpace (hd (tokenText t)) \<and> \<not> isJsSpace (last (tokenText t))"
  proof (cases t)
    case (KPath p)
    then obtain ids where ids: "p = joinOn [46] ids" "ids \<noteq> []" "list_all isIdent ids"
      using assms by (auto simp: lexable_def pathOk_def)
    then have "p \<noteq> []" by (cases ids) (auto simp: joinOn_dots isIdent_def)
    then show ?thesis using KPath ids set_joined [of ids "hd p"] set_joined [of ids "last p"] by simp
  next
    case (KLiteral l)
    show ?thesis
    proof (cases l)
      case (CNum x)
      then obtain r where r: "x = NumFin r" using assms KLiteral by (cases x) (auto simp: lexable_def)
      let ?d = "natToString (nat \<bar>\<lfloor>r\<rfloor>\<bar>)"
      have "isJsDigit (hd ?d)" "isJsDigit (last ?d)"
        using natToString_digits [of "hd ?d" "nat \<bar>\<lfloor>r\<rfloor>\<bar>"]
          natToString_digits [of "last ?d" "nat \<bar>\<lfloor>r\<rfloor>\<bar>"] by simp_all
      then show ?thesis using KLiteral CNum r by (auto simp: literalText_def isJsSpace_def isJsDigit_def)
    qed (use KLiteral in \<open>auto simp: literalText_def isJsSpace_def\<close>)
  next
    case (KOperator op)
    then show ?thesis by (cases op) (simp_all add: isJsSpace_def)
  qed (use assms in \<open>simp_all add: isJsSpace_def lexable_def\<close>)
  then show "tokenText t \<noteq> []" "\<not> isJsSpace (hd (tokenText t))" "\<not> isJsSpace (last (tokenText t))" by simp_all
qed

lemma tokenizeCond_joined: "list_all lexable ts \<Longrightarrow> tokenizeCond (joinOn [32] (map tokenText ts)) = Inr (ts @ [KEof])"
proof (induction ts)
  case Nil
  then show ?case by (simp add: tokenizeCond.simps)
next
  case (Cons t ts)
  then have t: "lexable t" "tokenText t \<noteq> []" using tokenText_ends(1) by simp_all
  show ?case
  proof (cases "ts = []")
    case True
    then show ?thesis using t nextToken_text [OF t(1), of "[]"]
      by (subst tokenizeCond.simps) (simp add: blank_def tokenizeCond.simps [of "[]"])
  next
    case False
    let ?rest = "joinOn [32] (map tokenText ts)"
    have "nextToken (32 # ?rest) = Inr (None, ?rest)" by (simp add: nextToken_def isJsSpace_def)
    then have "tokenizeCond (32 # ?rest) = Inr (ts @ [KEof])"
      using Cons by (subst tokenizeCond.simps) simp
    moreover have "nextToken (tokenText t @ 32 # ?rest) = Inr (Some t, 32 # ?rest)"
      by (rule nextToken_text [OF t(1)]) (simp add: blank_def)
    ultimately have "tokenizeCond (tokenText t @ 32 # ?rest) = Inr (t # ts @ [KEof])"
      using t(2) by (subst tokenizeCond.simps) simp
    then show ?thesis using False by (simp add: joinOn_Cons)
  qed
qed

lemma joined_ends:
  "ts \<noteq> [] \<Longrightarrow> list_all lexable ts \<Longrightarrow>
   (let s = joinOn [32] (map tokenText ts) in s \<noteq> [] \<and> \<not> isJsSpace (hd s) \<and> \<not> isJsSpace (last s))"
proof (induction ts)
  case (Cons t ts)
  then show ?case using tokenText_ends [of t] by (cases "ts = []") (auto simp: joinOn_Cons Let_def)
qed simp

lemma trim_id: "s \<noteq> [] \<Longrightarrow> \<not> isJsSpace (hd s) \<Longrightarrow> \<not> isJsSpace (last s) \<Longrightarrow> trim s = s"
proof -
  assume a: "s \<noteq> []" "\<not> isJsSpace (hd s)" "\<not> isJsSpace (last s)"
  then have "trimStart s = s" by (cases s) (simp_all add: trimStart_def)
  moreover have "trimEnd s = s" using a by (cases s rule: rev_cases) (simp_all add: trimEnd_def)
  ultimately show ?thesis by (simp add: trim_def)
qed

lemma conditionTokens_lexable: "printable a \<Longrightarrow> list_all lexable (conditionTokens level a) \<and> conditionTokens level a \<noteq> []"
proof (induction a arbitrary: level)
  case (WExists p)
  have "lexable (KPath (js ''exists''))"
    unfolding lexable_def using keyword_ident(4) by (auto simp: pathOk_def intro!: exI [of _ "[js ''exists'']"])
  moreover have "lexable (KPath (joinOn [46] p))" using WExists by (auto simp: lexable_def)
  ultimately show ?case by (simp add: lexable_def [of KLparen] lexable_def [of KRparen] del: js_simps_base)
qed (auto simp: parens_def lexable_def)

text \<open>Printing and parsing are inverse: the text of a condition, with the fewest parentheses, parses to that condition
  (an \<open>and\<close> under an \<open>or\<close> needs none, right operands that repeat the connective keep theirs), and evaluating the text is
  evaluating the condition.\<close>

theorem condition_roundtrip:
  assumes "printable a"
  shows "parseWorkflowCondition (conditionText a) = Inr \<lparr>ceSource = conditionText a, ceAst = a\<rparr>
    \<and> evaluateWorkflowCondition (Inl (conditionText a)) ctx = Inr (evaluateAst a ctx)"
proof -
  have lex: "list_all lexable (conditionTokens 0 a)" "conditionTokens 0 a \<noteq> []"
    using conditionTokens_lexable [OF assms] by simp_all
  have trim: "trim (conditionText a) = conditionText a"
    using joined_ends [OF lex(2,1)] by (intro trim_id) (simp_all add: conditionText_def Let_def)
  have g: "gOr a (conditionTokens 0 a)" using conditionTokens_derive [OF assms] by simp
  have "parseTokens (conditionTokens 0 a @ [KEof]) = Inr a"
    using g grammar_no_eof(1) [OF g] by (simp add: parseTokens_iff)
  then have "parseWorkflowCondition (conditionText a) = Inr \<lparr>ceSource = conditionText a, ceAst = a\<rparr>"
    using tokenizeCond_joined [OF lex(1)] by (simp add: parseWorkflowCondition_def trim) (simp add: conditionText_def)
  then show ?thesis by (simp add: evaluateWorkflowCondition_def)
qed

lemma condition_roundtrip_witness:
  "parseWorkflowCondition (js ''! exists ( state.x ) && ( outputs.n >= -3 || state.t == \"it's\" )'') =
     Inr \<lparr>ceSource = js ''! exists ( state.x ) && ( outputs.n >= -3 || state.t == \"it's\" )'',
       ceAst = WAnd (WNot (WExists [js ''state'', js ''x'']))
         (WOr (WComparison [js ''outputs'', js ''n''] CGe (CNum (NumFin (- 3))))
           (WComparison [js ''state'', js ''t''] CEq (CStr (js ''it's''))))\<rparr>"
proof -
  let ?a = "WAnd (WNot (WExists [js ''state'', js ''x'']))
    (WOr (WComparison [js ''outputs'', js ''n''] CGe (CNum (NumFin (- 3))))
      (WComparison [js ''state'', js ''t''] CEq (CStr (js ''it's''))))"
  have "printable ?a"
    by (simp add: pathOk_def isIdent_def isIdentStart_def isIdentChar_def)
  from condition_roundtrip [OF this, THEN conjunct1] show ?thesis
    by (simp add: conditionText_def parens_def literalText_def natToString.simps)
qed

end
