(* ===== verification/Wf_State.thy ===== *)
theory Wf_State
  imports Js_State Wf_Condition
begin

text \<open>
  packages/coding-agent/src/workflow/state.ts: the shared state of a workflow run, an object tree addressed by JSON
  pointers; the operations that read it, patch it under an access policy, and check what an activation returns. The
  label of an error is the text the code interpolates. Errors are returned; \<open>applyWorkflowStatePatch\<close> mutates as it
  goes, so the model returns the state also when it throws.
\<close>

definition DEFAULT_WORKFLOW_MAX_INLINE_VALUE_BYTES :: nat where
  "DEFAULT_WORKFLOW_MAX_INLINE_VALUE_BYTES = 32 * 1024"

definition DEFAULT_WORKFLOW_MAX_SUMMARY_BYTES :: nat where
  "DEFAULT_WORKFLOW_MAX_SUMMARY_BYTES = 8 * 1024"

record state_operation =
  opPath :: jstring
  opValue :: js_val

record activation_output =
  aoSummary :: "jstring option"
  aoData :: "js_obj option"
  aoStatePatch :: "state_operation list option"
  aoArtifacts :: "jstring list option"

record access_policy =
  apReadPaths :: "jstring list option"
  apWritePaths :: "jstring list option"
  apMaxInline :: "nat option"
  apMaxSummary :: "nat option"

definition noPolicy :: access_policy where
  "noPolicy = \<lparr>apReadPaths = None, apWritePaths = None, apMaxInline = None, apMaxSummary = None\<rparr>"

datatype state_error =
    WritesMoreThanOnce jstring
  | CannotReplaceRoot
  | MustBePointer jstring
  | NotAllowed jstring jstring
  | ValueExceedsLimit jstring
  | DataExceedsLimit
  | TextExceedsLimit jstring
  | UnsupportedScheme jstring
  | TranscriptsNotAllowed
  | PatchMustBeArray
  | OpMustBeSet nat
  | MustBeArray jstring
  | MustBeString jstring
  | MustBeObject jstring

section \<open>Pointers\<close>

text \<open>\<open>replaceAll\<close> of a pair of code units by one.\<close>

fun replacePair :: "nat \<Rightarrow> nat \<Rightarrow> nat \<Rightarrow> jstring \<Rightarrow> jstring" where
  "replacePair x y r (a # b # cs) =
     (if a = x \<and> b = y then r # replacePair x y r cs else a # replacePair x y r (b # cs))"
| "replacePair x y r s = s"

definition decodeSegment :: "jstring \<Rightarrow> jstring" where
  "decodeSegment segment = replacePair 126 48 126 (replacePair 126 49 47 segment)"

definition parseJsonPointer :: "jstring \<Rightarrow> state_error + jstring list" where
  "parseJsonPointer pointer =
     (if startsWith pointer (js ''/'') then Inr (map decodeSegment (splitOn 47 (drop 1 pointer)))
      else Inl (MustBePointer pointer))"

definition getStatePath :: "js_obj \<Rightarrow> jstring \<Rightarrow> state_error + js_val" where
  "getStatePath state pointer =
     bindE (parseJsonPointer pointer) (\<lambda>segments. Inr (resolveSegments segments (JObj state)))"

text \<open>The loop of \<open>setStatePath\<close>: a value on the way that is not an object is replaced by an empty one.\<close>

fun setSegments :: "jstring list \<Rightarrow> js_val \<Rightarrow> js_obj \<Rightarrow> js_obj" where
  "setSegments [] value current = current"
| "setSegments [leaf] value current = mapSet leaf value current"
| "setSegments (segment # segments) value current =
     mapSet segment
       (JObj (setSegments segments value (case objGet current segment of JObj existing \<Rightarrow> existing | _ \<Rightarrow> [])))
       current"

definition setStatePath :: "js_obj \<Rightarrow> jstring \<Rightarrow> js_val \<Rightarrow> state_error + js_obj" where
  "setStatePath state pointer value =
     bindE (parseJsonPointer pointer) (\<lambda>segments.
       if length segments = 0 then Inl CannotReplaceRoot else Inr (setSegments segments value state))"

definition pointerWithinScope :: "jstring \<Rightarrow> jstring \<Rightarrow> state_error + bool" where
  "pointerWithinScope pointer scope =
     bindE (parseJsonPointer scope) (\<lambda>_.
       if scope = js ''/'' then Inr (startsWith pointer (js ''/''))
       else Inr (pointer = scope \<or> startsWith pointer (scope @ js ''/'')))"

text \<open>\<open>some\<close> with a predicate that may throw.\<close>

fun someE :: "('a \<Rightarrow> 'e + bool) \<Rightarrow> 'a list \<Rightarrow> 'e + bool" where
  "someE f [] = Inr False"
| "someE f (x # xs) = bindE (f x) (\<lambda>b. if b then Inr True else someE f xs)"

definition assertPointerAllowed :: "jstring \<Rightarrow> jstring list option \<Rightarrow> jstring \<Rightarrow> state_error + unit" where
  "assertPointerAllowed pointer allowedScopes action =
     bindE (parseJsonPointer pointer) (\<lambda>_.
       case allowedScopes of
         None \<Rightarrow> Inr ()
       | Some scopes \<Rightarrow>
           bindE (someE (pointerWithinScope pointer) scopes) (\<lambda>b.
             if b then Inr () else Inl (NotAllowed action pointer)))"

definition readWorkflowState :: "js_obj \<Rightarrow> jstring \<Rightarrow> access_policy \<Rightarrow> state_error + js_val" where
  "readWorkflowState state pointer policy =
     bindE (assertPointerAllowed pointer (apReadPaths policy) (js ''read from'')) (\<lambda>_. getStatePath state pointer)"

section \<open>Limits\<close>

definition maxInlineValueBytes :: "access_policy \<Rightarrow> nat" where
  "maxInlineValueBytes policy =
     (case apMaxInline policy of Some n \<Rightarrow> n | None \<Rightarrow> DEFAULT_WORKFLOW_MAX_INLINE_VALUE_BYTES)"

definition maxSummaryBytes :: "access_policy \<Rightarrow> nat" where
  "maxSummaryBytes policy =
     (case apMaxSummary policy of Some n \<Rightarrow> n | None \<Rightarrow> DEFAULT_WORKFLOW_MAX_SUMMARY_BYTES)"

definition assertInlineValue :: "jstring \<Rightarrow> js_val \<Rightarrow> access_policy \<Rightarrow> state_error + unit" where
  "assertInlineValue pointer value policy =
     (case jsonStringify value of
        None \<Rightarrow> Inr ()
      | Some serialized \<Rightarrow>
          if utf8Length serialized \<le> maxInlineValueBytes policy then Inr () else Inl (ValueExceedsLimit pointer))"

definition assertInlineActivationData :: "js_obj \<Rightarrow> access_policy \<Rightarrow> state_error + unit" where
  "assertInlineActivationData data policy =
     (case jsonStringify (JObj data) of
        None \<Rightarrow> Inr ()
      | Some serialized \<Rightarrow>
          if utf8Length serialized \<le> maxInlineValueBytes policy then Inr () else Inl DataExceedsLimit)"

definition assertInlineText :: "jstring \<Rightarrow> jstring \<Rightarrow> nat \<Rightarrow> state_error + unit" where
  "assertInlineText label value maxBytes =
     (if utf8Length value \<le> maxBytes then Inr () else Inl (TextExceedsLimit label))"

section \<open>Patches\<close>

text \<open>The loop keeps the paths seen so far.\<close>

fun conflictLoop :: "state_operation list \<Rightarrow> jstring list \<Rightarrow> state_error + unit" where
  "conflictLoop [] seen = Inr ()"
| "conflictLoop (operation # patch) seen =
     (if opPath operation \<in> set seen then Inl (WritesMoreThanOnce (opPath operation))
      else conflictLoop patch (setAdd (opPath operation) seen))"

definition assertNoConflictingWrites :: "state_operation list \<Rightarrow> state_error + unit" where
  "assertNoConflictingWrites patch = conflictLoop patch []"

text \<open>The two checks that both the validation and the application make of an operation.\<close>

definition checkOperation :: "access_policy \<Rightarrow> state_operation \<Rightarrow> state_error + unit" where
  "checkOperation policy operation =
     bindE (assertPointerAllowed (opPath operation) (apWritePaths policy) (js ''write to'')) (\<lambda>_.
       assertInlineValue (opPath operation) (opValue operation) policy)"

fun applyOperations :: "access_policy \<Rightarrow> state_operation list \<Rightarrow> (state_error, unit, js_obj) comp" where
  "applyOperations policy [] state = (Inr (), state)"
| "applyOperations policy (operation # patch) state =
     (case bindE (checkOperation policy operation) (\<lambda>_. setStatePath state (opPath operation) (opValue operation)) of
        Inl e \<Rightarrow> (Inl e, state)
      | Inr state' \<Rightarrow> applyOperations policy patch state')"

definition applyWorkflowStatePatch ::
  "state_operation list \<Rightarrow> access_policy \<Rightarrow> (state_error, unit, js_obj) comp" where
  "applyWorkflowStatePatch patch policy =
     bindSE (liftSE (assertNoConflictingWrites patch)) (\<lambda>_. applyOperations policy patch)"

section \<open>What an activation returns\<close>

definition expectRecord :: "js_val \<Rightarrow> jstring \<Rightarrow> state_error + js_obj" where
  "expectRecord value label = (case value of JObj o' \<Rightarrow> Inr o' | _ \<Rightarrow> Inl (MustBeObject label))"

definition expectString :: "js_val \<Rightarrow> jstring \<Rightarrow> state_error + jstring" where
  "expectString value label = (case value of JStr s \<Rightarrow> Inr s | _ \<Rightarrow> Inl (MustBeString label))"

text \<open>\<open>map\<close> with the index and a function that may throw.\<close>

definition mapIndexE :: "(nat \<Rightarrow> 'a \<Rightarrow> 'e + 'b) \<Rightarrow> 'a list \<Rightarrow> 'e + 'b list" where
  "mapIndexE f xs = mapE (\<lambda>(i, x). f i x) (zip [0 ..< length xs] xs)"

definition dotted :: "jstring \<Rightarrow> nat \<Rightarrow> jstring" where
  "dotted label index = label @ js ''.'' @ natToString index"

definition expectStringList :: "js_val \<Rightarrow> jstring \<Rightarrow> state_error + jstring list" where
  "expectStringList value label =
     (case value of
        JArr vs \<Rightarrow> mapIndexE (\<lambda>index entry. expectString entry (dotted label index)) vs
      | _ \<Rightarrow> Inl (MustBeArray label))"

definition expectStatePatch :: "js_val \<Rightarrow> state_error + state_operation list" where
  "expectStatePatch value =
     (case value of
        JArr vs \<Rightarrow>
          mapIndexE (\<lambda>index entry.
            let label = dotted (js ''workflow activation output statePatch'') index in
            bindE (expectRecord entry label) (\<lambda>operation.
              if objGet operation (js ''op'') \<noteq> JStr (js ''set'') then Inl (OpMustBeSet index)
              else bindE (expectString (objGet operation (js ''path'')) (label @ js ''.path'')) (\<lambda>path.
                Inr \<lparr>opPath = path, opValue = objGet operation (js ''value'')\<rparr>))) vs
      | _ \<Rightarrow> Inl PatchMustBeArray)"

definition assertArtifactReference :: "jstring \<Rightarrow> state_error + unit" where
  "assertArtifactReference reference =
     (if startsWith reference (js ''artifact://'') \<or> startsWith reference (js ''agent-output://'')
        \<or> startsWith reference (js ''local://'')
      then Inr () else Inl (UnsupportedScheme reference))"

definition assertNoRawTranscriptFields :: "js_obj \<Rightarrow> state_error + unit" where
  "assertNoRawTranscriptFields raw =
     (if \<exists>field \<in> set (map js [''transcript'', ''rawTranscript'', ''rawOutput'']). objGet raw field \<noteq> JUndef
      then Inl TranscriptsNotAllowed else Inr ())"

text \<open>A loop of checks.\<close>

definition eachE :: "('a \<Rightarrow> 'e + unit) \<Rightarrow> 'a list \<Rightarrow> 'e + unit" where
  "eachE f xs = foldE (\<lambda>x _. f x) xs ()"

definition validateSummary :: "js_obj \<Rightarrow> access_policy \<Rightarrow> state_error + jstring option" where
  "validateSummary raw policy =
     (if objGet raw (js ''summary'') = JUndef then Inr None
      else bindE (expectString (objGet raw (js ''summary'')) (js ''workflow activation output summary'')) (\<lambda>summary.
        bindE (assertInlineText (js ''workflow activation output summary'') summary (maxSummaryBytes policy)) (\<lambda>_.
          Inr (Some summary))))"

definition validateArtifacts :: "js_obj \<Rightarrow> state_error + jstring list option" where
  "validateArtifacts raw =
     (if objGet raw (js ''artifacts'') = JUndef then Inr None
      else bindE (expectStringList (objGet raw (js ''artifacts'')) (js ''workflow activation output artifacts''))
        (\<lambda>artifacts. bindE (eachE assertArtifactReference artifacts) (\<lambda>_. Inr (Some artifacts))))"

definition validateData :: "js_obj \<Rightarrow> access_policy \<Rightarrow> state_error + js_obj option" where
  "validateData raw policy =
     (if objGet raw (js ''data'') = JUndef then Inr None
      else bindE (expectRecord (objGet raw (js ''data'')) (js ''workflow activation output data'')) (\<lambda>data.
        bindE (assertInlineActivationData data policy) (\<lambda>_. Inr (Some data))))"

definition validateStatePatch :: "js_obj \<Rightarrow> access_policy \<Rightarrow> state_error + state_operation list option" where
  "validateStatePatch raw policy =
     (if objGet raw (js ''statePatch'') = JUndef then Inr None
      else bindE (expectStatePatch (objGet raw (js ''statePatch''))) (\<lambda>patch.
        bindE (assertNoConflictingWrites patch) (\<lambda>_.
          bindE (eachE (checkOperation policy) patch) (\<lambda>_. Inr (Some patch)))))"

definition validateWorkflowActivationOutput :: "js_val \<Rightarrow> access_policy \<Rightarrow> state_error + activation_output" where
  "validateWorkflowActivationOutput output policy =
     bindE (expectRecord output (js ''workflow activation output'')) (\<lambda>raw.
     bindE (assertNoRawTranscriptFields raw) (\<lambda>_.
     bindE (validateSummary raw policy) (\<lambda>summary.
     bindE (validateArtifacts raw) (\<lambda>artifacts.
     bindE (validateData raw policy) (\<lambda>data.
     bindE (validateStatePatch raw policy) (\<lambda>patch.
       Inr \<lparr>aoSummary = summary, aoData = data, aoStatePatch = patch, aoArtifacts = artifacts\<rparr>))))))"

end
