(* ===== verification/Wf_Definition.thy ===== *)
theory Wf_Definition
  imports Wf_Condition
begin

text \<open>
  packages/coding-agent/src/workflow/definition.ts: a workflow definition read from YAML. \<open>YAML.parse\<close> of the runtime is
  a parameter; its result is a value or the message of its exception. An error carries its message, by kind and with
  the path the code interpolates, and the source path.
\<close>

datatype node_type = NodeAgent | NodeScript | NodeHuman | NodeReview
datatype unavailable_policy = FallbackToParent | FailUnavailable
datatype script_language = LangJs | LangPy
datatype activation_selector = SelParent | SelLatestCompleted

record model_context =
  mcRole :: "jstring option"
  mcSelector :: "jstring option"
  mcCandidates :: "jstring list option"
  mcUnavailable :: "unavailable_policy option"

record workflow_models =
  wmRoles :: "(jstring, jstring) jsmap"
  wmDefaults :: "(jstring, jstring) jsmap"
  wmUnavailable :: "unavailable_policy option"

record workflow_edge =
  weFrom :: jstring
  weTo :: jstring
  weCondition :: "jstring option"

datatype prompt_source =
    PromptInline jstring
  | PromptFile jstring
  | PromptState jstring
  | PromptOutput jstring jstring activation_selector
  | PromptHuman jstring

record script_source =
  scLanguage :: "script_language option"
  scCode :: "jstring option"
  scFile :: "jstring option"

record workflow_node =
  wnId :: jstring
  wnType :: node_type
  wnAgent :: "jstring option"
  wnModel :: "model_context option"
  wnPrompt :: "jstring option"
  wnPromptSource :: "prompt_source option"
  wnScript :: "script_source option"
  wnGates :: "jstring list option"
  wnReads :: "jstring list option"
  wnWrites :: "jstring list option"
  wnWaitFor :: "jstring list option"

record workflow_definition =
  wdName :: jstring
  wdVersion :: jsnum
  wdSourcePath :: "jstring option"
  wdModels :: workflow_models
  wdNodes :: "workflow_node list"
  wdEdges :: "workflow_edge list"

datatype definition_message =
    YamlFailed jstring
  | DuplicateNode jstring
  | EdgesMustBeArray
  | InvalidCondition jstring cond_error
  | UnknownSourceNode jstring
  | UnknownTargetNode jstring
  | UnknownOutputNode jstring jstring
  | NotOnePromptSource jstring
  | NotOneModelSource jstring
  | NotOneScriptSource jstring
  | NotPackageRelative jstring
  | NotJsOrPy jstring
  | NotUnavailablePolicy jstring
  | NotNodeType jstring
  | NotActivationSelector jstring
  | NotStringArray jstring
  | NotJsonPointer jstring
  | NotNonEmptyString jstring
  | NotFiniteNumber jstring
  | NotObject jstring

datatype definition_error = DefinitionError definition_message "jstring option"

type_synonym 'a def_result = "definition_error + 'a"

definition failDef :: "definition_message \<Rightarrow> jstring option \<Rightarrow> 'a def_result" where
  "failDef message sourcePath = Inl (DefinitionError message sourcePath)"

section \<open>Values of the expected shape\<close>

definition expectRecordD :: "js_val \<Rightarrow> jstring \<Rightarrow> jstring option \<Rightarrow> js_obj def_result" where
  "expectRecordD value path sourcePath =
     (case value of JObj o' \<Rightarrow> Inr o' | _ \<Rightarrow> failDef (NotObject path) sourcePath)"

definition expectStringD :: "js_val \<Rightarrow> jstring \<Rightarrow> jstring option \<Rightarrow> jstring def_result" where
  "expectStringD value path sourcePath =
     (case value of
        JStr s \<Rightarrow> if trim s \<noteq> [] then Inr s else failDef (NotNonEmptyString path) sourcePath
      | _ \<Rightarrow> failDef (NotNonEmptyString path) sourcePath)"

definition expectNumberD :: "js_val \<Rightarrow> jstring \<Rightarrow> jstring option \<Rightarrow> jsnum def_result" where
  "expectNumberD value path sourcePath =
     (case value of
        JNum x \<Rightarrow> if isFiniteNumber x then Inr x else failDef (NotFiniteNumber path) sourcePath
      | _ \<Rightarrow> failDef (NotFiniteNumber path) sourcePath)"

definition expectJsonPointer :: "js_val \<Rightarrow> jstring \<Rightarrow> jstring option \<Rightarrow> jstring def_result" where
  "expectJsonPointer value path sourcePath =
     bindE (expectStringD value path sourcePath) (\<lambda>pointer.
       if startsWith pointer (js ''/'') then Inr pointer else failDef (NotJsonPointer path) sourcePath)"

definition parseOptionalString :: "js_val \<Rightarrow> jstring \<Rightarrow> jstring option \<Rightarrow> jstring option def_result" where
  "parseOptionalString value path sourcePath =
     (if value = JUndef then Inr None else bindE (expectStringD value path sourcePath) (\<lambda>s. Inr (Some s)))"

definition dot :: "jstring \<Rightarrow> string \<Rightarrow> jstring" where
  "dot path key = path @ js ''.'' @ js key"

definition dotIndex :: "jstring \<Rightarrow> nat \<Rightarrow> jstring" where
  "dotIndex path index = path @ js ''.'' @ natToString index"

definition mapIndexD :: "(nat \<Rightarrow> 'a \<Rightarrow> 'b def_result) \<Rightarrow> 'a list \<Rightarrow> 'b list def_result" where
  "mapIndexD f xs = mapE (\<lambda>(i, x). f i x) (zip [0 ..< length xs] xs)"

definition parseOptionalStringList :: "js_val \<Rightarrow> jstring \<Rightarrow> jstring option \<Rightarrow> jstring list option def_result" where
  "parseOptionalStringList value path sourcePath =
     (case value of
        JUndef \<Rightarrow> Inr None
      | JArr vs \<Rightarrow>
          bindE (mapIndexD (\<lambda>index entry. expectStringD entry (dotIndex path index) sourcePath) vs) (\<lambda>ss. Inr (Some ss))
      | _ \<Rightarrow> failDef (NotStringArray path) sourcePath)"

definition parseStringRecord :: "js_val \<Rightarrow> jstring \<Rightarrow> jstring option \<Rightarrow> (jstring, jstring) jsmap def_result" where
  "parseStringRecord value path sourcePath =
     (if value = JUndef then Inr []
      else bindE (expectRecordD value path sourcePath) (\<lambda>raw.
        foldE (\<lambda>(key, entry) result.
          bindE (expectStringD entry (path @ js ''.'' @ key) sourcePath) (\<lambda>s. Inr (mapSet key s result)))
          (objEntries raw) []))"

definition parseUnavailable :: "js_val \<Rightarrow> jstring \<Rightarrow> jstring option \<Rightarrow> unavailable_policy option def_result" where
  "parseUnavailable value path sourcePath =
     (if value = JUndef then Inr None
      else if value = JStr (js ''fallback-to-parent'') then Inr (Some FallbackToParent)
      else if value = JStr (js ''fail'') then Inr (Some FailUnavailable)
      else failDef (NotUnavailablePolicy path) sourcePath)"

definition parseNodeType :: "js_val \<Rightarrow> jstring \<Rightarrow> jstring option \<Rightarrow> node_type def_result" where
  "parseNodeType value path sourcePath =
     (if value = JStr (js ''agent'') then Inr NodeAgent
      else if value = JStr (js ''script'') then Inr NodeScript
      else if value = JStr (js ''human'') then Inr NodeHuman
      else if value = JStr (js ''review'') then Inr NodeReview
      else failDef (NotNodeType path) sourcePath)"

definition parseScriptLanguage :: "js_val \<Rightarrow> jstring \<Rightarrow> jstring option \<Rightarrow> script_language option def_result" where
  "parseScriptLanguage value path sourcePath =
     (if value = JUndef then Inr None
      else if value = JStr (js ''js'') then Inr (Some LangJs)
      else if value = JStr (js ''py'') then Inr (Some LangPy)
      else failDef (NotJsOrPy path) sourcePath)"

definition parsePromptActivationSelector ::
  "js_val \<Rightarrow> jstring \<Rightarrow> jstring option \<Rightarrow> activation_selector def_result" where
  "parsePromptActivationSelector value path sourcePath =
     (if value = JStr (js ''parent'') then Inr SelParent
      else if value = JStr (js ''latest-completed'') then Inr SelLatestCompleted
      else failDef (NotActivationSelector path) sourcePath)"

section \<open>The parts of a definition\<close>

definition parseModels :: "js_val \<Rightarrow> jstring option \<Rightarrow> workflow_models def_result" where
  "parseModels value sourcePath =
     (if value = JUndef then Inr \<lparr>wmRoles = [], wmDefaults = [], wmUnavailable = None\<rparr>
      else bindE (expectRecordD value (js ''models'') sourcePath) (\<lambda>raw.
        bindE (parseStringRecord (objGet raw (js ''roles'')) (js ''models.roles'') sourcePath) (\<lambda>roles.
        bindE (parseStringRecord (objGet raw (js ''defaults'')) (js ''models.defaults'') sourcePath) (\<lambda>defaults.
        bindE (parseUnavailable (objGet raw (js ''unavailable'')) (js ''models.unavailable'') sourcePath) (\<lambda>unavailable.
          Inr \<lparr>wmRoles = roles, wmDefaults = defaults, wmUnavailable = unavailable\<rparr>)))))"

definition parsePromptSource ::
  "js_val \<Rightarrow> jstring \<Rightarrow> jstring option \<Rightarrow> (jstring option \<times> prompt_source option) def_result" where
  "parsePromptSource value path sourcePath =
     (case value of
        JUndef \<Rightarrow> Inr (None, None)
      | JStr s \<Rightarrow>
          bindE (expectStringD value path sourcePath) (\<lambda>prompt.
            Inr (Some prompt, Some (if startsWith prompt (js ''./'') then PromptFile prompt else PromptInline prompt)))
      | _ \<Rightarrow>
          bindE (expectRecordD value path sourcePath) (\<lambda>raw.
            let sourceKeys = filter (\<lambda>key. objGet raw (js key) \<noteq> JUndef)
                  [''inline'', ''file'', ''state'', ''output'', ''human''] in
            if length sourceKeys \<noteq> 1 then failDef (NotOnePromptSource path) sourcePath
            else if hd sourceKeys = ''inline'' then
              bindE (expectStringD (objGet raw (js ''inline'')) (dot path ''inline'') sourcePath) (\<lambda>t.
                Inr (Some t, Some (PromptInline t)))
            else if hd sourceKeys = ''file'' then
              bindE (expectStringD (objGet raw (js ''file'')) (dot path ''file'') sourcePath) (\<lambda>filePath.
                Inr (Some filePath, Some (PromptFile filePath)))
            else if hd sourceKeys = ''state'' then
              bindE (expectJsonPointer (objGet raw (js ''state'')) (dot path ''state'') sourcePath) (\<lambda>statePath.
                Inr (None, Some (PromptState statePath)))
            else if hd sourceKeys = ''human'' then
              bindE (expectJsonPointer (objGet raw (js ''human'')) (dot path ''human'') sourcePath) (\<lambda>humanPath.
                Inr (None, Some (PromptHuman humanPath)))
            else
              bindE (expectRecordD (objGet raw (js ''output'')) (dot path ''output'') sourcePath) (\<lambda>output.
              bindE (expectStringD (objGet output (js ''node'')) (dot path ''output.node'') sourcePath) (\<lambda>node.
              bindE (expectJsonPointer (objGet output (js ''path'')) (dot path ''output.path'') sourcePath) (\<lambda>outputPath.
              bindE (parsePromptActivationSelector (objGet output (js ''activation'')) (dot path ''output.activation'') sourcePath)
                (\<lambda>activation. Inr (None, Some (PromptOutput node outputPath activation))))))))"

definition count :: "bool list \<Rightarrow> nat" where
  "count bs = length (filter id bs)"

definition parseModelContext :: "js_val \<Rightarrow> jstring \<Rightarrow> jstring option \<Rightarrow> model_context option def_result" where
  "parseModelContext value path sourcePath =
     (case value of
        JUndef \<Rightarrow> Inr None
      | JStr s \<Rightarrow> Inr (Some \<lparr>mcRole = None, mcSelector = Some s, mcCandidates = None, mcUnavailable = None\<rparr>)
      | _ \<Rightarrow>
          bindE (expectRecordD value path sourcePath) (\<lambda>raw.
          bindE (parseOptionalString (objGet raw (js ''role'')) (dot path ''role'') sourcePath) (\<lambda>role.
          bindE (parseOptionalString (objGet raw (js ''selector'')) (dot path ''selector'') sourcePath) (\<lambda>selector.
          bindE (parseOptionalStringList (objGet raw (js ''candidates'')) (dot path ''candidates'') sourcePath) (\<lambda>candidates.
          bindE (parseUnavailable (objGet raw (js ''unavailable'')) (dot path ''unavailable'') sourcePath) (\<lambda>unavailable.
            if count [role \<noteq> None, selector \<noteq> None, candidates \<noteq> None] \<noteq> 1 then failDef (NotOneModelSource path) sourcePath
            else Inr (Some \<lparr>mcRole = role, mcSelector = selector, mcCandidates = candidates, mcUnavailable = unavailable\<rparr>)))))))"

definition parseScriptSource :: "js_val \<Rightarrow> jstring \<Rightarrow> jstring option \<Rightarrow> script_source option def_result" where
  "parseScriptSource value path sourcePath =
     (if value = JUndef then Inr None
      else bindE (expectRecordD value path sourcePath) (\<lambda>raw.
        bindE (parseScriptLanguage (objGet raw (js ''language'')) (dot path ''language'') sourcePath) (\<lambda>language.
        bindE (parseOptionalString (objGet raw (js ''inline'')) (dot path ''inline'') sourcePath) (\<lambda>code.
        bindE (parseOptionalString (objGet raw (js ''file'')) (dot path ''file'') sourcePath) (\<lambda>file.
          if count [code \<noteq> None, file \<noteq> None] \<noteq> 1 then failDef (NotOneScriptSource path) sourcePath
          else if file \<noteq> None \<and> \<not> startsWith (the file) (js ''./'') then failDef (NotPackageRelative (dot path ''file'')) sourcePath
          else Inr (Some \<lparr>scLanguage = language, scCode = code, scFile = file\<rparr>))))))"

text \<open>The callback of \<open>parseNodes\<close>; \<open>compactNode\<close> drops the undefined members, which are \<open>None\<close> here.\<close>

definition parseNode :: "jstring \<Rightarrow> js_val \<Rightarrow> jstring \<Rightarrow> jstring option \<Rightarrow> workflow_node def_result" where
  "parseNode nodeId rawNode path sourcePath =
     bindE (expectRecordD rawNode path sourcePath) (\<lambda>node.
     bindE (parseNodeType (objGet node (js ''type'')) (dot path ''type'') sourcePath) (\<lambda>type'.
     bindE (parseOptionalString (objGet node (js ''agent'')) (dot path ''agent'') sourcePath) (\<lambda>agent.
     bindE (parseModelContext (objGet node (js ''model'')) (dot path ''model'') sourcePath) (\<lambda>model.
     bindE (parsePromptSource (objGet node (js ''prompt'')) (dot path ''prompt'') sourcePath) (\<lambda>(prompt, promptSource).
     bindE (parseScriptSource (objGet node (js ''script'')) (dot path ''script'') sourcePath) (\<lambda>script.
     bindE (parseOptionalStringList (objGet node (js ''gates'')) (dot path ''gates'') sourcePath) (\<lambda>gates.
     bindE (parseOptionalStringList (objGet node (js ''reads'')) (dot path ''reads'') sourcePath) (\<lambda>reads.
     bindE (parseOptionalStringList (objGet node (js ''writes'')) (dot path ''writes'') sourcePath) (\<lambda>writes.
     bindE (parseOptionalStringList (objGet node (js ''waitFor'')) (dot path ''waitFor'') sourcePath) (\<lambda>waitFor.
       Inr \<lparr>wnId = nodeId, wnType = type', wnAgent = agent, wnModel = model, wnPrompt = prompt,
         wnPromptSource = promptSource, wnScript = script, wnGates = gates, wnReads = reads, wnWrites = writes,
         wnWaitFor = waitFor\<rparr>))))))))))"

definition parseNodeEntries :: "js_val \<Rightarrow> jstring option \<Rightarrow> (jstring \<times> js_val \<times> jstring) list def_result" where
  "parseNodeEntries value sourcePath =
     (case value of
        JArr vs \<Rightarrow>
          mapIndexD (\<lambda>index rawNode.
            let path = dotIndex (js ''nodes'') index in
            bindE (expectRecordD rawNode path sourcePath) (\<lambda>node.
            bindE (expectStringD (objGet node (js ''id'')) (dot path ''id'') sourcePath) (\<lambda>nodeId.
              Inr (nodeId, rawNode, path)))) vs
      | _ \<Rightarrow>
          bindE (expectRecordD value (js ''nodes'') sourcePath) (\<lambda>rawNodes.
            Inr (map (\<lambda>(nodeId, rawNode). (nodeId, rawNode, js ''nodes.'' @ nodeId)) (objEntries rawNodes))))"

fun parseNodeLoop ::
  "(jstring \<times> js_val \<times> jstring) list \<Rightarrow> jstring list \<Rightarrow> jstring option \<Rightarrow> workflow_node list def_result" where
  "parseNodeLoop [] seen sourcePath = Inr []"
| "parseNodeLoop ((nodeId, rawNode, path) # entries) seen sourcePath =
     (if nodeId \<in> set seen then failDef (DuplicateNode nodeId) sourcePath
      else bindE (parseNode nodeId rawNode path sourcePath) (\<lambda>node.
        bindE (parseNodeLoop entries (setAdd nodeId seen) sourcePath) (\<lambda>nodes. Inr (node # nodes))))"

definition parseNodes :: "js_val \<Rightarrow> jstring option \<Rightarrow> workflow_node list def_result" where
  "parseNodes value sourcePath =
     bindE (parseNodeEntries value sourcePath) (\<lambda>entries. parseNodeLoop entries [] sourcePath)"

definition parseConditionSource :: "jstring \<Rightarrow> jstring \<Rightarrow> jstring option \<Rightarrow> jstring def_result" where
  "parseConditionSource source path sourcePath =
     (let trimmed = trim source in
      case parseWorkflowCondition trimmed of
        Inl e \<Rightarrow> failDef (InvalidCondition path e) sourcePath
      | Inr _ \<Rightarrow> Inr trimmed)"

definition parseEdge :: "jstring option \<Rightarrow> nat \<Rightarrow> js_val \<Rightarrow> workflow_edge def_result" where
  "parseEdge sourcePath index rawEdge =
     (let path = dotIndex (js ''edges'') index in
      bindE (expectRecordD rawEdge path sourcePath) (\<lambda>edge.
      bindE (expectStringD (objGet edge (js ''from'')) (dot path ''from'') sourcePath) (\<lambda>from'.
      bindE (expectStringD (objGet edge (js ''to'')) (dot path ''to'') sourcePath) (\<lambda>to.
      bindE (parseOptionalString (objGet edge (js ''when'')) (dot path ''when'') sourcePath) (\<lambda>when.
        case when of
          None \<Rightarrow> Inr \<lparr>weFrom = from', weTo = to, weCondition = None\<rparr>
        | Some source \<Rightarrow>
            bindE (parseConditionSource source (dot path ''when'') sourcePath) (\<lambda>condition.
              Inr \<lparr>weFrom = from', weTo = to, weCondition = Some condition\<rparr>))))))"

definition parseEdges :: "js_val \<Rightarrow> jstring option \<Rightarrow> workflow_edge list def_result" where
  "parseEdges value sourcePath =
     (case value of
        JArr vs \<Rightarrow> mapIndexD (parseEdge sourcePath) vs
      | _ \<Rightarrow> failDef EdgesMustBeArray sourcePath)"

definition validateEdgeReferences :: "workflow_node list \<Rightarrow> workflow_edge list \<Rightarrow> jstring option \<Rightarrow> unit def_result" where
  "validateEdgeReferences nodes edges sourcePath =
     (let nodeIds = set (map wnId nodes) in
      foldE (\<lambda>edge _.
        if weFrom edge \<notin> nodeIds then failDef (UnknownSourceNode (weFrom edge)) sourcePath
        else if weTo edge \<notin> nodeIds then failDef (UnknownTargetNode (weTo edge)) sourcePath
        else Inr ()) edges ())"

definition validatePromptSourceReferences :: "workflow_node list \<Rightarrow> jstring option \<Rightarrow> unit def_result" where
  "validatePromptSourceReferences nodes sourcePath =
     (let nodeIds = set (map wnId nodes) in
      foldE (\<lambda>node _.
        case wnPromptSource node of
          Some (PromptOutput source path activation) \<Rightarrow>
            if source \<notin> nodeIds then failDef (UnknownOutputNode (wnId node) source) sourcePath else Inr ()
        | _ \<Rightarrow> Inr ()) nodes ())"

definition parseYaml :: "(jstring \<Rightarrow> jstring + js_val) \<Rightarrow> jstring \<Rightarrow> jstring option \<Rightarrow> js_val def_result" where
  "parseYaml yaml source sourcePath =
     (case yaml source of Inl message \<Rightarrow> failDef (YamlFailed message) sourcePath | Inr value \<Rightarrow> Inr value)"

definition parseWorkflowDefinition ::
  "(jstring \<Rightarrow> jstring + js_val) \<Rightarrow> jstring \<Rightarrow> jstring option \<Rightarrow> workflow_definition def_result" where
  "parseWorkflowDefinition yaml source sourcePath =
     bindE (parseYaml yaml source sourcePath) (\<lambda>raw.
     bindE (expectRecordD raw (js ''workflow definition'') sourcePath) (\<lambda>top.
     bindE (expectStringD (objGet top (js ''name'')) (js ''name'') sourcePath) (\<lambda>name.
     bindE (expectNumberD (objGet top (js ''version'')) (js ''version'') sourcePath) (\<lambda>version.
     bindE (parseModels (objGet top (js ''models'')) sourcePath) (\<lambda>models.
     bindE (parseNodes (objGet top (js ''nodes'')) sourcePath) (\<lambda>nodes.
     bindE (parseEdges (objGet top (js ''edges'')) sourcePath) (\<lambda>edges.
     bindE (validateEdgeReferences nodes edges sourcePath) (\<lambda>_.
     bindE (validatePromptSourceReferences nodes sourcePath) (\<lambda>_.
       Inr \<lparr>wdName = name, wdVersion = version, wdSourcePath = sourcePath, wdModels = models, wdNodes = nodes,
         wdEdges = edges\<rparr>)))))))))"

end
