(* ===== verification/Wf_Scheduler.thy ===== *)
theory Wf_Scheduler
  imports Wf_State Wf_Definition
begin

text \<open>
  packages/coding-agent/src/workflow/scheduler.ts: the loop that runs a workflow. The host's callbacks read and change a
  world \<open>'w\<close>: \<open>hkExecute\<close> runs a node (it may change the shared state object, which it is handed; it throws a message
  or returns a value, and leaves the activation objects alone), \<open>hkDefinition\<close> and \<open>hkRevision\<close> give the current definition and graph revision, \<open>hkAbort\<close> the
  reason of an aborted signal. An iteration of the loop is \<open>schedulerStep\<close>; without a limit the loop may run for ever,
  so \<open>schedulerLoop\<close> takes the number of iterations. An activation object sits in the queue or in the list of
  activations, never in both, so it is a value.
\<close>

datatype activation_status = Queued | Running | Completed | Failed

datatype activation_error =
    Aborted jstring
  | UnknownNode jstring
  | NodeThrew jstring
  | OutputRejected state_error
  | PatchRejected state_error

record activation =
  acId :: jstring
  acNodeId :: jstring
  acRevision :: jstring
  acStatus :: activation_status
  acParents :: "jstring list"
  acOutput :: "activation_output option"
  acError :: "activation_error option"

text \<open>The reason of an abort: an \<open>Error\<close> with its message, a string, nothing, or another value as \<open>String\<close> prints it.\<close>

datatype abort_reason = ReasonError jstring | ReasonString jstring | ReasonMissing | ReasonOther jstring

definition workflowAbortReason :: "abort_reason option \<Rightarrow> jstring option" where
  "workflowAbortReason signal =
     (case signal of
        None \<Rightarrow> None
      | Some (ReasonError message) \<Rightarrow> Some message
      | Some (ReasonString s) \<Rightarrow> Some (if 0 < length s then s else [])
      | Some ReasonMissing \<Rightarrow> Some (js ''workflow cancelled'')
      | Some (ReasonOther s) \<Rightarrow> Some s)"

record 'w scheduler_hooks =
  hkExecute :: "activation \<Rightarrow> workflow_node \<Rightarrow> js_obj \<Rightarrow> activation list \<Rightarrow> 'w \<Rightarrow> (jstring + js_val) \<times> js_obj \<times> 'w"
  hkDefinition :: "'w \<Rightarrow> workflow_definition"
  hkRevision :: "'w \<Rightarrow> jstring"
  hkAbort :: "'w \<Rightarrow> abort_reason option"

record scheduler_limits =
  slMaxActivations :: "nat option"
  slMaxNodeActivations :: "nat option"

record 'w scheduler =
  scState :: js_obj
  scActivations :: "activation list"
  scCompleted :: "(jstring, jstring list) jsmap"
  scOutputs :: js_obj
  scJoinKeys :: "jstring list"
  scNextId :: nat
  scQueue :: "activation list"
  scLimitReached :: bool
  scWorld :: 'w

definition createNextActivation ::
  "'w scheduler_hooks \<Rightarrow> jstring \<Rightarrow> jstring list \<Rightarrow> 'w scheduler \<Rightarrow> 'w scheduler" where
  "createNextActivation hooks nodeId parents sc =
     sc\<lparr>scNextId := scNextId sc + 1,
        scQueue := scQueue sc @ [\<lparr>acId = js ''activation-'' @ natToString (scNextId sc), acNodeId = nodeId,
          acRevision = hkRevision hooks (scWorld sc), acStatus = Queued, acParents = parents, acOutput = None,
          acError = None\<rparr>]\<rparr>"

definition startScheduler :: "'w scheduler_hooks \<Rightarrow> jstring \<Rightarrow> js_obj \<Rightarrow> 'w \<Rightarrow> 'w scheduler" where
  "startScheduler hooks startNodeId initialState world =
     createNextActivation hooks startNodeId []
       \<lparr>scState = initialState, scActivations = [], scCompleted = [], scOutputs = [], scJoinKeys = [], scNextId = 1,
        scQueue = [], scLimitReached = False, scWorld = world\<rparr>"

definition countNodeActivations :: "activation list \<Rightarrow> jstring \<Rightarrow> nat" where
  "countNodeActivations activations nodeId = length (filter (\<lambda>a. acNodeId a = nodeId) activations)"

definition belowLimit :: "nat \<Rightarrow> nat option \<Rightarrow> bool" where
  "belowLimit n limit = (case limit of None \<Rightarrow> True | Some m \<Rightarrow> n < m)"

definition findNode :: "workflow_definition \<Rightarrow> jstring \<Rightarrow> workflow_node option" where
  "findNode d nodeId = map_of (rev (map (\<lambda>node. (wnId node, node)) (wdNodes d))) nodeId"

text \<open>The ids of the latest completed activations of the nodes waited for; nothing when one has none.\<close>

fun collectJoinParentIds :: "jstring list \<Rightarrow> (jstring, jstring list) jsmap \<Rightarrow> jstring list option" where
  "collectJoinParentIds [] completedByNode = Some []"
| "collectJoinParentIds (nodeId # waitFor) completedByNode =
     (case mapGet completedByNode nodeId of
        None \<Rightarrow> None
      | Some [] \<Rightarrow> None
      | Some ids \<Rightarrow>
          (case collectJoinParentIds waitFor completedByNode of
             None \<Rightarrow> None
           | Some parentIds \<Rightarrow> Some (last ids # parentIds)))"

text \<open>One edge out of the node that completed; the condition may throw, which ends the whole run.\<close>

definition followEdge ::
  "'w scheduler_hooks \<Rightarrow> workflow_definition \<Rightarrow> jstring \<Rightarrow> workflow_edge \<Rightarrow> 'w scheduler \<Rightarrow> cond_error + 'w scheduler" where
  "followEdge hooks d activationId edge sc =
     bindE (case weCondition edge of
              None \<Rightarrow> Inr True
            | Some source \<Rightarrow>
                evaluateWorkflowCondition (Inl source) \<lparr>ctxState = JObj (scState sc), ctxOutputs = JObj (scOutputs sc)\<rparr>)
       (\<lambda>holds.
         if \<not> holds then Inr sc
         else case findNode d (weTo edge) of
           Some target \<Rightarrow>
             (case wnWaitFor target of
                Some (w # ws) \<Rightarrow>
                  (case collectJoinParentIds (w # ws) (scCompleted sc) of
                     None \<Rightarrow> Inr sc
                   | Some parentIds \<Rightarrow>
                       let joinKey = wnId target @ js '':'' @ joinOn (js '','') parentIds in
                       if joinKey \<in> set (scJoinKeys sc) then Inr sc
                       else Inr (createNextActivation hooks (weTo edge) parentIds (sc\<lparr>scJoinKeys := scJoinKeys sc @ [joinKey]\<rparr>)))
              | _ \<Rightarrow> Inr (createNextActivation hooks (weTo edge) [activationId] sc))
         | None \<Rightarrow> Inr (createNextActivation hooks (weTo edge) [activationId] sc))"

definition policyOf :: "workflow_node \<Rightarrow> access_policy" where
  "policyOf node = noPolicy\<lparr>apWritePaths := wnWrites node\<rparr>"

text \<open>The \<open>try\<close> block: run the node, validate what it returned, apply its patch. The state keeps what was written
  before an error, the activation an output that was accepted before its patch failed.\<close>

definition runNode ::
  "'w scheduler_hooks \<Rightarrow> activation \<Rightarrow> workflow_node \<Rightarrow> 'w scheduler \<Rightarrow>
     (activation_error \<times> activation_output option + activation_output) \<times> 'w scheduler" where
  "runNode hooks activation node sc =
     (let (result, state1, world1) =
            hkExecute hooks activation node (scState sc) (filter (\<lambda>a. acStatus a = Completed) (scActivations sc)) (scWorld sc);
          sc1 = sc\<lparr>scState := state1, scWorld := world1\<rparr>
      in case result of
           Inl message \<Rightarrow> (Inl (NodeThrew message, None), sc1)
         | Inr value \<Rightarrow>
             (case validateWorkflowActivationOutput value (policyOf node) of
                Inl e \<Rightarrow> (Inl (OutputRejected e, None), sc1)
              | Inr output \<Rightarrow>
                  (case aoStatePatch output of
                     None \<Rightarrow> (Inr output, sc1)
                   | Some patch \<Rightarrow>
                       (case applyWorkflowStatePatch patch (policyOf node) state1 of
                          (Inl e, state2) \<Rightarrow> (Inl (PatchRejected e, Some output), sc1\<lparr>scState := state2\<rparr>)
                        | (Inr _, state2) \<Rightarrow> (Inr output, sc1\<lparr>scState := state2\<rparr>)))))"

definition pushActivation :: "activation \<Rightarrow> 'w scheduler \<Rightarrow> 'w scheduler" where
  "pushActivation activation sc = sc\<lparr>scActivations := scActivations sc @ [activation]\<rparr>"

text \<open>The last activation, which is the one running, gets its outcome.\<close>

definition finishActivation :: "activation \<Rightarrow> 'w scheduler \<Rightarrow> 'w scheduler" where
  "finishActivation activation sc = sc\<lparr>scActivations := butlast (scActivations sc) @ [activation]\<rparr>"

definition recordCompletion :: "activation \<Rightarrow> activation_output \<Rightarrow> 'w scheduler \<Rightarrow> 'w scheduler" where
  "recordCompletion activation output sc =
     finishActivation (activation\<lparr>acStatus := Completed, acOutput := Some output\<rparr>)
       (sc\<lparr>scOutputs :=
             (case aoData output of
                Some data \<Rightarrow> mapSet (acNodeId activation) (JObj data) (scOutputs sc)
              | None \<Rightarrow> mapDelete (acNodeId activation) (scOutputs sc)),
           scCompleted :=
             mapSet (acNodeId activation)
               ((case mapGet (scCompleted sc) (acNodeId activation) of None \<Rightarrow> [] | Some ids \<Rightarrow> ids) @ [acId activation])
               (scCompleted sc)\<rparr>)"

datatype 'w iteration =
    Next "'w scheduler"
  | Finish "'w scheduler"
  | Threw cond_error "'w scheduler"

definition schedulerStep :: "'w scheduler_hooks \<Rightarrow> scheduler_limits \<Rightarrow> 'w scheduler \<Rightarrow> 'w iteration" where
  "schedulerStep hooks limits sc =
     (case scQueue sc of
        [] \<Rightarrow> Finish sc
      | activation # queue \<Rightarrow>
          if \<not> belowLimit (length (scActivations sc)) (slMaxActivations limits) then Finish (sc\<lparr>scLimitReached := True\<rparr>)
          else
            let sc0 = sc\<lparr>scQueue := queue\<rparr>;
                reason = workflowAbortReason (hkAbort hooks (scWorld sc))
            in
            if reason \<noteq> None \<and> reason \<noteq> Some [] then
              Finish (pushActivation (activation\<lparr>acStatus := Failed, acError := Some (Aborted (the reason))\<rparr>) sc0)
            else if \<not> belowLimit (countNodeActivations (scActivations sc) (acNodeId activation)) (slMaxNodeActivations limits)
            then Finish (sc0\<lparr>scLimitReached := True\<rparr>)
            else case findNode (hkDefinition hooks (scWorld sc)) (acNodeId activation) of
              None \<Rightarrow>
                Next (pushActivation (activation\<lparr>acStatus := Failed, acError := Some (UnknownNode (acNodeId activation))\<rparr>) sc0)
            | Some node \<Rightarrow>
                let running = activation\<lparr>acStatus := Running\<rparr> in
                (case runNode hooks running node (pushActivation running sc0) of
                   (Inl (e, output), sc1) \<Rightarrow>
                     Next (finishActivation (running\<lparr>acStatus := Failed, acOutput := output, acError := Some e\<rparr>) sc1)
                 | (Inr output, sc1) \<Rightarrow>
                     let sc2 = recordCompletion running output sc1;
                         d = hkDefinition hooks (scWorld sc2)
                     in (case foldE (followEdge hooks d (acId activation))
                                (filter (\<lambda>edge. weFrom edge = acNodeId activation) (wdEdges d)) sc2 of
                           Inl e \<Rightarrow> Threw e sc2
                         | Inr sc3 \<Rightarrow> Next sc3)))"

fun schedulerLoop :: "nat \<Rightarrow> 'w scheduler_hooks \<Rightarrow> scheduler_limits \<Rightarrow> 'w scheduler \<Rightarrow> 'w iteration" where
  "schedulerLoop 0 hooks limits sc = Next sc"
| "schedulerLoop (Suc n) hooks limits sc =
     (case schedulerStep hooks limits sc of
        Next sc' \<Rightarrow> schedulerLoop n hooks limits sc'
      | final \<Rightarrow> final)"

definition runWorkflowScheduler ::
  "nat \<Rightarrow> 'w scheduler_hooks \<Rightarrow> scheduler_limits \<Rightarrow> jstring \<Rightarrow> js_obj \<Rightarrow> 'w \<Rightarrow> 'w iteration" where
  "runWorkflowScheduler n hooks limits startNodeId initialState world =
     schedulerLoop n hooks limits (startScheduler hooks startNodeId initialState world)"

end
