(* ===== verification/Wf_Prompt.thy ===== *)
theory Wf_Prompt
  imports Wf_Scheduler
begin

text \<open>
  packages/coding-agent/src/workflow/prompt-source.ts: the prompt of an activation, read from its node, a file of the
  package, the shared state or the output of an earlier activation. The runtime gives the environment: \<open>node:path\<close>,
  the text of a file or the message of its error, and the hexadecimal SHA-256 of a string.
\<close>

definition DEFAULT_WORKFLOW_MAX_PROMPT_BYTES :: nat where
  "DEFAULT_WORKFLOW_MAX_PROMPT_BYTES = 32 * 1024"

record prompt_env =
  peResolve :: "jstring list \<Rightarrow> jstring"
  peRelative :: "jstring \<Rightarrow> jstring \<Rightarrow> jstring"
  peIsAbsolute :: "jstring \<Rightarrow> bool"
  peReadFile :: "jstring \<Rightarrow> jstring + jstring"
  peSha256 :: "jstring \<Rightarrow> jstring"

record prompt_context =
  pxState :: js_obj
  pxCompleted :: "activation list"
  pxParents :: "jstring list"
  pxPackageRoot :: "jstring option"
  pxMaxBytes :: "nat option"

text \<open>The source of a prompt, with the activation that an output was read from.\<close>

datatype resolved_source =
    ResolvedFrom prompt_source
  | ResolvedOutput jstring jstring activation_selector jstring

record resolved_prompt =
  rpValue :: jstring
  rpByteLength :: nat
  rpContentHash :: jstring
  rpSource :: resolved_source

datatype prompt_error =
    PromptNoOutput jstring jstring
  | PromptNoParent jstring jstring
  | PromptManyParents jstring jstring
  | PromptNoCompleted jstring jstring
  | PromptNeedsRoot jstring
  | PromptNotRelative jstring jstring
  | PromptEscapes jstring
  | PromptUnreadable jstring jstring
  | PromptNotString jstring jstring
  | PromptTooLong jstring
  | PromptStateError state_error

text \<open>An accepted output as the object that the validation builds, its members in the order of the checks.\<close>

definition operationObject :: "state_operation \<Rightarrow> js_val" where
  "operationObject operation =
     JObj [(js ''op'', JStr (js ''set'')), (js ''path'', JStr (opPath operation)), (js ''value'', opValue operation)]"

definition optionalMember :: "string \<Rightarrow> js_val option \<Rightarrow> js_obj" where
  "optionalMember key value = (case value of None \<Rightarrow> [] | Some v \<Rightarrow> [(js key, v)])"

definition outputObject :: "activation_output \<Rightarrow> js_obj" where
  "outputObject output =
     optionalMember ''summary'' (map_option JStr (aoSummary output))
     @ optionalMember ''artifacts'' (map_option (\<lambda>refs. JArr (map JStr refs)) (aoArtifacts output))
     @ optionalMember ''data'' (map_option JObj (aoData output))
     @ optionalMember ''statePatch'' (map_option (\<lambda>patch. JArr (map operationObject patch)) (aoStatePatch output))"

definition contentHash :: "prompt_env \<Rightarrow> jstring \<Rightarrow> jstring" where
  "contentHash E value = js ''sha256:'' @ peSha256 E value"

definition resolvedPrompt ::
  "prompt_env \<Rightarrow> workflow_node \<Rightarrow> resolved_source \<Rightarrow> js_val \<Rightarrow> jstring \<Rightarrow> prompt_context \<Rightarrow> prompt_error + resolved_prompt" where
  "resolvedPrompt E node source value label context =
     (case value of
        JStr s \<Rightarrow>
          let byteLength = utf8Length s in
          if byteLength > (case pxMaxBytes context of Some n \<Rightarrow> n | None \<Rightarrow> DEFAULT_WORKFLOW_MAX_PROMPT_BYTES)
          then Inl (PromptTooLong (wnId node))
          else Inr \<lparr>rpValue = s, rpByteLength = byteLength, rpContentHash = contentHash E s, rpSource = source\<rparr>
      | _ \<Rightarrow> Inl (PromptNotString (wnId node) label))"

definition readPackagePromptFile ::
  "prompt_env \<Rightarrow> workflow_node \<Rightarrow> jstring \<Rightarrow> prompt_context \<Rightarrow> prompt_error + jstring" where
  "readPackagePromptFile E node promptPath context =
     (case pxPackageRoot context of
        None \<Rightarrow> Inl (PromptNeedsRoot (wnId node))
      | Some packageRoot \<Rightarrow>
          if packageRoot = [] then Inl (PromptNeedsRoot (wnId node))
          else if \<not> startsWith promptPath (js ''./'') then Inl (PromptNotRelative (wnId node) promptPath)
          else
            let root' = peResolve E [packageRoot];
                resolved = peResolve E [root', promptPath];
                relative = peRelative E root' resolved
            in if startsWith relative (js ''..'') \<or> peIsAbsolute E relative then Inl (PromptEscapes (wnId node))
               else (case peReadFile E resolved of
                       Inl reason \<Rightarrow> Inl (PromptUnreadable (wnId node) reason)
                     | Inr s \<Rightarrow> Inr s))"

definition selectParentActivation ::
  "workflow_node \<Rightarrow> jstring \<Rightarrow> prompt_context \<Rightarrow> prompt_error + activation" where
  "selectParentActivation node sourceNode context =
     (case filter (\<lambda>a. acId a \<in> set (pxParents context) \<and> acNodeId a = sourceNode) (pxCompleted context) of
        [a] \<Rightarrow> Inr a
      | [] \<Rightarrow> Inl (PromptNoParent (wnId node) sourceNode)
      | _ \<Rightarrow> Inl (PromptManyParents (wnId node) sourceNode))"

definition selectLatestCompletedActivation ::
  "workflow_node \<Rightarrow> jstring \<Rightarrow> prompt_context \<Rightarrow> prompt_error + activation" where
  "selectLatestCompletedActivation node sourceNode context =
     (let candidates = filter (\<lambda>a. acNodeId a = sourceNode \<and> acStatus a = Completed) (pxCompleted context) in
      if candidates = [] then Inl (PromptNoCompleted (wnId node) sourceNode) else Inr (last candidates))"

definition selectOutputPromptActivation ::
  "workflow_node \<Rightarrow> jstring \<Rightarrow> activation_selector \<Rightarrow> prompt_context \<Rightarrow> prompt_error + activation" where
  "selectOutputPromptActivation node sourceNode selector context =
     (if selector = SelParent then selectParentActivation node sourceNode context
      else selectLatestCompletedActivation node sourceNode context)"

definition readStateE :: "js_obj \<Rightarrow> jstring \<Rightarrow> workflow_node \<Rightarrow> prompt_error + js_val" where
  "readStateE state path node =
     (case readWorkflowState state path (noPolicy\<lparr>apReadPaths := wnReads node\<rparr>) of
        Inl e \<Rightarrow> Inl (PromptStateError e)
      | Inr v \<Rightarrow> Inr v)"

definition readOutputPromptValue :: "workflow_node \<Rightarrow> jstring \<Rightarrow> activation \<Rightarrow> prompt_error + js_val" where
  "readOutputPromptValue node path activation =
     (case acOutput activation of
        None \<Rightarrow> Inl (PromptNoOutput (wnId node) (acId activation))
      | Some output \<Rightarrow> readStateE (outputObject output) path node)"

definition resolveWorkflowPrompt ::
  "prompt_env \<Rightarrow> workflow_node \<Rightarrow> prompt_context \<Rightarrow> prompt_error + resolved_prompt option" where
  "resolveWorkflowPrompt E node context =
     (case wnPromptSource node of
        None \<Rightarrow> Inr None
      | Some source \<Rightarrow>
          bindE
            (case source of
               PromptInline t \<Rightarrow> resolvedPrompt E node (ResolvedFrom source) (JStr t) (js ''/inline'') context
             | PromptFile path \<Rightarrow>
                 bindE (readPackagePromptFile E node path context) (\<lambda>t.
                   resolvedPrompt E node (ResolvedFrom source) (JStr t) path context)
             | PromptState path \<Rightarrow>
                 bindE (readStateE (pxState context) path node) (\<lambda>value.
                   resolvedPrompt E node (ResolvedFrom source) value path context)
             | PromptHuman path \<Rightarrow>
                 bindE (readStateE (pxState context) path node) (\<lambda>value.
                   resolvedPrompt E node (ResolvedFrom source) value path context)
             | PromptOutput sourceNode path selector \<Rightarrow>
                 bindE (selectOutputPromptActivation node sourceNode selector context) (\<lambda>activation.
                 bindE (readOutputPromptValue node path activation) (\<lambda>value.
                   resolvedPrompt E node (ResolvedOutput sourceNode path selector (acId activation)) value path context)))
            (\<lambda>prompt. Inr (Some prompt)))"

end
