(* ===== verification/Wf_Runtime.thy ===== *)
theory Wf_Runtime
  imports Wf_Prompt Js_State
begin

text \<open>
  packages/coding-agent/src/workflow/node-runtime.ts and session-runtime.ts: running one node through the host, and the
  host that a session builds from its runners. A runner acts on a world \<open>'w\<close> and returns a value or the message of its
  error. An error is its message. \<open>JSON.parse\<close> is the argument \<open>parse\<close> of the review output (nothing for a
  syntax error).
\<close>

type_synonym ('a, 'w) node_call = "(jstring, 'a, 'w) comp"

record agent_input =
  aiNode :: workflow_node
  aiActivation :: activation
  aiAgent :: jstring
  aiPrompt :: "jstring option"
  aiModel :: "model_context option"
  aiModelOverride :: "jstring option"

record script_input =
  siNode :: workflow_node
  siActivation :: activation
  siScript :: "jstring option"
  siLanguage :: "script_language option"
  siPath :: "jstring option"
  siModel :: "model_context option"

record human_input =
  hiNode :: workflow_node
  hiActivation :: activation
  hiPrompt :: "jstring option"

record review_input =
  riNode :: workflow_node
  riActivation :: activation
  riAgent :: "jstring option"
  riPrompt :: "jstring option"
  riModel :: "model_context option"
  riModelOverride :: "jstring option"
  riGates :: "jstring list option"

record review_output =
  roSummary :: "jstring option"
  roVerdict :: jstring
  roArtifacts :: "jstring list option"

record 'w node_host =
  nhAgent :: "(agent_input \<Rightarrow> (js_val, 'w) node_call) option"
  nhScript :: "(script_input \<Rightarrow> (js_val, 'w) node_call) option"
  nhHuman :: "(human_input \<Rightarrow> (js_val, 'w) node_call) option"
  nhReview :: "(review_input \<Rightarrow> (review_output, 'w) node_call) option"

definition quoted :: "string \<Rightarrow> jstring \<Rightarrow> string \<Rightarrow> jstring" where
  "quoted before name after = js before @ [34] @ name @ [34] @ js after"

section \<open>One node\<close>

definition executeAgentNode ::
  "workflow_node \<Rightarrow> activation \<Rightarrow> 'w node_host \<Rightarrow> jstring option \<Rightarrow> (js_val, 'w) node_call" where
  "executeAgentNode node activation host modelOverride =
     (case wnAgent node of
        None \<Rightarrow> throwSE (quoted ''agent node '' (wnId node) '' must define an agent'')
      | Some agent \<Rightarrow>
          if agent = [] then throwSE (quoted ''agent node '' (wnId node) '' must define an agent'')
          else (case nhAgent host of
            None \<Rightarrow> throwSE (js ''workflow runtime host does not support agent nodes'')
          | Some run \<Rightarrow>
              run \<lparr>aiNode = node, aiActivation = activation, aiAgent = agent, aiPrompt = wnPrompt node, aiModel = wnModel node,
                   aiModelOverride = modelOverride\<rparr>))"

definition executeScriptNode :: "workflow_node \<Rightarrow> activation \<Rightarrow> 'w node_host \<Rightarrow> (js_val, 'w) node_call" where
  "executeScriptNode node activation host =
     (case nhScript host of
        None \<Rightarrow> throwSE (js ''workflow runtime host does not support script nodes'')
      | Some run \<Rightarrow>
          run \<lparr>siNode = node, siActivation = activation,
               siScript = (case Option.bind (wnScript node) scCode of Some code \<Rightarrow> Some code | None \<Rightarrow> wnPrompt node),
               siLanguage = Option.bind (wnScript node) scLanguage, siPath = Option.bind (wnScript node) scFile,
               siModel = wnModel node\<rparr>)"

definition executeHumanNode :: "workflow_node \<Rightarrow> activation \<Rightarrow> 'w node_host \<Rightarrow> (js_val, 'w) node_call" where
  "executeHumanNode node activation host =
     (case nhHuman host of
        None \<Rightarrow> throwSE (js ''workflow runtime host does not support human nodes'')
      | Some run \<Rightarrow> run \<lparr>hiNode = node, hiActivation = activation, hiPrompt = wnPrompt node\<rparr>)"

text \<open>The object a review returns: its verdict as data and as a write of \<open>/verdict\<close>.\<close>

definition reviewObject :: "review_output \<Rightarrow> js_obj" where
  "reviewObject output =
     [(js ''summary'', case roSummary output of Some s \<Rightarrow> JStr s | None \<Rightarrow> JUndef),
      (js ''data'', JObj [(js ''verdict'', JStr (roVerdict output))]),
      (js ''statePatch'', JArr [operationObject \<lparr>opPath = js ''/verdict'', opValue = JStr (roVerdict output)\<rparr>])]
     @ optionalMember ''artifacts'' (map_option (\<lambda>refs. JArr (map JStr refs)) (roArtifacts output))"

definition executeReviewNode ::
  "workflow_node \<Rightarrow> activation \<Rightarrow> 'w node_host \<Rightarrow> jstring option \<Rightarrow> (js_val, 'w) node_call" where
  "executeReviewNode node activation host modelOverride =
     (case nhReview host of
        None \<Rightarrow> throwSE (js ''workflow runtime host does not support review nodes'')
      | Some run \<Rightarrow>
          bindSE (run \<lparr>riNode = node, riActivation = activation, riAgent = wnAgent node, riPrompt = wnPrompt node,
                      riModel = wnModel node, riModelOverride = modelOverride, riGates = wnGates node\<rparr>)
            (\<lambda>output.
              if (case wnGates node of Some (g # gs) \<Rightarrow> roVerdict output \<notin> set (g # gs) | _ \<Rightarrow> False)
              then throwSE (quoted ''workflow review node '' (wnId node) '' returned undeclared verdict ''
                 @ [34] @ roVerdict output @ [34])
              else returnSE (JObj (reviewObject output))))"

definition executeWorkflowNode ::
  "workflow_node \<Rightarrow> activation \<Rightarrow> 'w node_host \<Rightarrow> jstring option \<Rightarrow> (js_val, 'w) node_call" where
  "executeWorkflowNode node activation host modelOverride =
     (case wnType node of
        NodeAgent \<Rightarrow> executeAgentNode node activation host modelOverride
      | NodeScript \<Rightarrow> executeScriptNode node activation host
      | NodeHuman \<Rightarrow> executeHumanNode node activation host
      | NodeReview \<Rightarrow> executeReviewNode node activation host modelOverride)"

section \<open>The host of a session\<close>

record task_request =
  trAgent :: jstring
  trActivationId :: jstring
  trNodeId :: jstring
  trModelOverride :: "jstring option"
  trTaskId :: jstring
  trDescription :: jstring
  trAssignment :: jstring

record task_result =
  tsExitCode :: jsnum
  tsOutput :: jstring
  tsStderr :: "jstring option"
  tsError :: "jstring option"
  tsOutputPath :: "jstring option"

record eval_request =
  erActivationId :: jstring
  erNodeId :: jstring
  erCode :: jstring
  erLanguage :: script_language
  erTitle :: jstring

record eval_result =
  evExitCode :: jsnum
  evOutput :: jstring
  evError :: "jstring option"
  evArtifactId :: "jstring option"

record human_request =
  hrActivationId :: jstring
  hrNodeId :: jstring
  hrQuestion :: jstring

record human_result =
  hsResponse :: jstring
  hsSelected :: "jstring list option"
  hsCustom :: "jstring option"

record 'w session_options =
  soEval :: "(eval_request \<Rightarrow> (eval_result, 'w) node_call) option"
  soTask :: "(task_request \<Rightarrow> (task_result, 'w) node_call) option"
  soHuman :: "(human_request \<Rightarrow> (human_result, 'w) node_call) option"

text \<open>The first of some strings that is not empty, as \<open>||\<close> picks it.\<close>

fun firstTruthy :: "jstring option list \<Rightarrow> jstring \<Rightarrow> jstring" where
  "firstTruthy [] fallback = fallback"
| "firstTruthy (s # ss) fallback = (if s \<noteq> None \<and> s \<noteq> Some [] then the s else firstTruthy ss fallback)"

definition isWordUnit :: "nat \<Rightarrow> bool" where
  "isWordUnit c \<longleftrightarrow> (65 \<le> c \<and> c \<le> 90) \<or> (97 \<le> c \<and> c \<le> 122) \<or> (48 \<le> c \<and> c \<le> 57) \<or> c = 95"

definition taskIdForNode :: "jstring \<Rightarrow> jstring" where
  "taskIdForNode nodeId =
     (let sanitized = take 48 (map (\<lambda>c. if isWordUnit c then c else 95) nodeId) in
      if sanitized = [] then js ''workflow_node'' else sanitized)"

definition exitReason :: "jsnum \<Rightarrow> jstring" where
  "exitReason code = js ''exit code '' @ numberToString code"

definition activationOutputFromTaskResult :: "jstring \<Rightarrow> task_result \<Rightarrow> jstring + js_val" where
  "activationOutputFromTaskResult nodeId result =
     (if tsExitCode result \<noteq> NumFin 0 then
        Inl (quoted ''workflow agent node '' nodeId '' failed: ''
             @ firstTruthy [tsError result, tsStderr result] (exitReason (tsExitCode result)))
      else
        Inr (JObj
          ([(js ''summary'', JStr (firstTruthy [Some (trim (tsOutput result))] (quoted ''agent node '' nodeId '' completed''))),
            (js ''data'', JObj [(js ''exitCode'', JNum (tsExitCode result))])]
           @ (if firstTruthy [tsOutputPath result] [] = [] then []
              else [(js ''artifacts'', JArr [JStr (js ''local://'' @ the (tsOutputPath result))])]))))"

definition activationOutputFromHumanInputResult :: "human_result \<Rightarrow> js_val" where
  "activationOutputFromHumanInputResult result =
     JObj [(js ''summary'', JStr (hsResponse result)),
           (js ''data'', JObj
             ([(js ''response'', JStr (hsResponse result))]
              @ optionalMember ''selectedOptions'' (map_option (\<lambda>ss. JArr (map JStr ss)) (hsSelected result))
              @ optionalMember ''customInput'' (map_option JStr (hsCustom result))))]"

definition parseReviewTaskOutput ::
  "(jstring \<Rightarrow> js_val option) \<Rightarrow> jstring \<Rightarrow> jstring \<Rightarrow> jstring list option \<Rightarrow> jstring + (jstring \<times> jstring)" where
  "parseReviewTaskOutput parse nodeId output gates =
     (let trimmed = trim output in
      case parse trimmed of
        Some (JObj parsed) \<Rightarrow>
          (case objGet parsed (js ''verdict'') of
             JStr (c # cs) \<Rightarrow>
               Inr (c # cs, case objGet parsed (js ''summary'') of JStr (s # ss) \<Rightarrow> s # ss | _ \<Rightarrow> trimmed)
           | _ \<Rightarrow> Inl (quoted ''workflow review node '' nodeId '' must return a string verdict''))
      | _ \<Rightarrow>
          if (case gates of None \<Rightarrow> False | Some gs \<Rightarrow> trimmed \<in> set gs) then Inr (trimmed, trimmed)
          else Inl (quoted ''workflow review node '' nodeId '' must return a verdict''))"

definition reviewOutputFromTaskResult ::
  "(jstring \<Rightarrow> js_val option) \<Rightarrow> jstring \<Rightarrow> task_result \<Rightarrow> jstring list option \<Rightarrow> jstring + review_output" where
  "reviewOutputFromTaskResult parse nodeId result gates =
     (if tsExitCode result \<noteq> NumFin 0 then
        Inl (quoted ''workflow review node '' nodeId '' failed: ''
             @ firstTruthy [tsError result, tsStderr result] (exitReason (tsExitCode result)))
      else
        bindE (parseReviewTaskOutput parse nodeId (tsOutput result) gates) (\<lambda>(verdict, summary).
          Inr \<lparr>roSummary = Some summary, roVerdict = verdict,
               roArtifacts = (if firstTruthy [tsOutputPath result] [] = [] then None
                              else Some [js ''local://'' @ the (tsOutputPath result)])\<rparr>))"

definition sessionAgent :: "'w session_options \<Rightarrow> agent_input \<Rightarrow> (js_val, 'w) node_call" where
  "sessionAgent options input =
     (case soTask options of
        None \<Rightarrow> throwSE (quoted ''workflow agent node '' (wnId (aiNode input)) '' requires a subagent runtime adapter'')
      | Some runAgentTask \<Rightarrow>
          bindSE (runAgentTask
            \<lparr>trAgent = aiAgent input, trActivationId = acId (aiActivation input), trNodeId = wnId (aiNode input),
             trModelOverride = aiModelOverride input, trTaskId = taskIdForNode (wnId (aiNode input)),
             trDescription = wnId (aiNode input),
             trAssignment = firstTruthy [map_option trim (aiPrompt input)] (quoted ''Run workflow node '' (wnId (aiNode input)) ''.'')\<rparr>)
            (\<lambda>result. liftSE (activationOutputFromTaskResult (wnId (aiNode input)) result)))"

definition sessionScript :: "'w session_options \<Rightarrow> script_input \<Rightarrow> (js_val, 'w) node_call" where
  "sessionScript options input =
     (case soEval options of
        None \<Rightarrow> throwSE (quoted ''workflow script node '' (wnId (siNode input)) '' requires an eval runtime adapter'')
      | Some runEvalScript \<Rightarrow>
          let code = firstTruthy [map_option trim (siScript input)] [] in
          if code = [] then throwSE (quoted ''workflow script node '' (wnId (siNode input)) '' must define script code'')
          else
            bindSE (runEvalScript
              \<lparr>erActivationId = acId (siActivation input), erNodeId = wnId (siNode input), erCode = code,
               erLanguage = (case siLanguage input of Some l \<Rightarrow> l | None \<Rightarrow> LangJs),
               erTitle = (case siPath input of Some p \<Rightarrow> p | None \<Rightarrow> wnId (siNode input))\<rparr>)
              (\<lambda>result.
                if evExitCode result \<noteq> NumFin 0 then
                  throwSE (quoted ''workflow script node '' (wnId (siNode input)) '' failed: ''
                    @ firstTruthy [evError result] (exitReason (evExitCode result)))
                else returnSE (JObj
                  ([(js ''summary'', JStr (firstTruthy [Some (trim (evOutput result))]
                      (quoted ''script node '' (wnId (siNode input)) '' completed''))),
                    (js ''data'', JObj [(js ''exitCode'', JNum (evExitCode result))])]
                   @ (if firstTruthy [evArtifactId result] [] = [] then []
                      else [(js ''artifacts'', JArr [JStr (js ''artifact://'' @ the (evArtifactId result))])])))))"

definition sessionHuman :: "'w session_options \<Rightarrow> human_input \<Rightarrow> (js_val, 'w) node_call" where
  "sessionHuman options input =
     (case soHuman options of
        None \<Rightarrow> throwSE (quoted ''workflow human node '' (wnId (hiNode input)) '' requires a human input adapter'')
      | Some runHumanInput \<Rightarrow>
          let question = firstTruthy [map_option trim (hiPrompt input)] [] in
          if question = [] then throwSE (quoted ''workflow human node '' (wnId (hiNode input)) '' must define a question prompt'')
          else
            bindSE (runHumanInput
              \<lparr>hrActivationId = acId (hiActivation input), hrNodeId = wnId (hiNode input), hrQuestion = question\<rparr>)
              (\<lambda>result. returnSE (activationOutputFromHumanInputResult result)))"

definition sessionReview ::
  "(jstring \<Rightarrow> js_val option) \<Rightarrow> 'w session_options \<Rightarrow> review_input \<Rightarrow> (review_output, 'w) node_call" where
  "sessionReview parse options input =
     (case soTask options of
        None \<Rightarrow> throwSE (quoted ''workflow review node '' (wnId (riNode input)) '' requires a review runtime adapter'')
      | Some runAgentTask \<Rightarrow>
          let assignment = firstTruthy [map_option trim (riPrompt input)] [] in
          if assignment = [] then throwSE (quoted ''workflow review node '' (wnId (riNode input)) '' must define a review prompt'')
          else
            bindSE (runAgentTask
              \<lparr>trAgent = (case riAgent input of Some a \<Rightarrow> a | None \<Rightarrow> js ''reviewer''), trActivationId = acId (riActivation input),
               trNodeId = wnId (riNode input), trModelOverride = riModelOverride input,
               trTaskId = taskIdForNode (wnId (riNode input)), trDescription = wnId (riNode input), trAssignment = assignment\<rparr>)
              (\<lambda>result. liftSE (reviewOutputFromTaskResult parse (wnId (riNode input)) result (riGates input))))"

definition createSessionWorkflowRuntimeHost ::
  "(jstring \<Rightarrow> js_val option) \<Rightarrow> 'w session_options \<Rightarrow> 'w node_host" where
  "createSessionWorkflowRuntimeHost parse options =
     \<lparr>nhAgent = Some (sessionAgent options), nhScript = Some (sessionScript options), nhHuman = Some (sessionHuman options),
      nhReview = Some (sessionReview parse options)\<rparr>"

end
