(* ===== verification/Wf_Model.thy ===== *)
theory Wf_Model
  imports Wf_Definition
begin

text \<open>
  packages/coding-agent/src/workflow/model-resolution.ts: which model a node runs on. The matching of a pattern against the
  available models (\<open>resolveModelRoleValue\<close> of config/model-resolver.ts, which reads settings and the model registry) and
  the patterns of an agent's front matter (\<open>resolveAgentModelPatterns\<close>) are members of the options. A thinking level is its
  name. A role named like a member of \<open>Object.prototype\<close> is outside the model.
\<close>

datatype model_source = SrcActivationOverride | SrcNode | SrcWorkflowDefault | SrcAgentFrontmatter | SrcParentFallback | SrcNone

record model_ref =
  mdProvider :: jstring
  mdId :: jstring

record resolved_role =
  rrModel :: "model_ref option"
  rrThinkingLevel :: "jstring option"
  rrExplicit :: bool
  rrWarning :: "jstring option"

text \<open>\<open>moAgentPatterns\<close> is nothing when the agent of the node names no model.\<close>

record model_options =
  moResolveRole :: "jstring \<Rightarrow> resolved_role"
  moAgentPatterns :: "jstring list option"
  moParentPattern :: "jstring option"
  moActivationModel :: "model_context option"

record model_audit =
  auNodeId :: jstring
  auSource :: model_source
  auRequestedRole :: "jstring option"
  auRequestedPattern :: "jstring option"
  auRequestedCandidates :: "jstring list option"
  auUnavailablePolicy :: unavailable_policy
  auResolvedModel :: "jstring option"
  auThinkingLevel :: "jstring option"
  auExplicit :: bool
  auFallbackUsed :: bool
  auFallbackReason :: "jstring option"
  auWarning :: "jstring option"
  auError :: "jstring option"

record model_resolution =
  mrModel :: "model_ref option"
  mrThinkingLevel :: "jstring option"
  mrAudit :: model_audit

record model_request =
  rqSource :: model_source
  rqRole :: "jstring option"
  rqPatterns :: "jstring list"
  rqCandidates :: "jstring list option"
  rqModelContext :: "model_context option"

record resolved_request =
  rsvModel :: model_ref
  rsvThinkingLevel :: "jstring option"
  rsvExplicit :: bool
  rsvWarning :: "jstring option"
  rsvPattern :: jstring

text \<open>A string that counts as true: present and not empty.\<close>

definition presentString :: "jstring option \<Rightarrow> bool" where
  "presentString s \<longleftrightarrow> s \<noteq> None \<and> s \<noteq> Some []"

definition formatModel :: "model_ref \<Rightarrow> jstring" where
  "formatModel model = mdProvider model @ js ''/'' @ mdId model"

definition nodeTypeName :: "node_type \<Rightarrow> jstring" where
  "nodeTypeName t =
     (case t of NodeAgent \<Rightarrow> js ''agent'' | NodeScript \<Rightarrow> js ''script'' | NodeHuman \<Rightarrow> js ''human'' | NodeReview \<Rightarrow> js ''review'')"

definition modelContextRequest :: "workflow_definition \<Rightarrow> model_context \<Rightarrow> model_source \<Rightarrow> model_request" where
  "modelContextRequest d model source =
     (if presentString (mcRole model) then
        let rolePattern = mapGet (wmRoles (wdModels d)) (the (mcRole model)) in
        \<lparr>rqSource = source, rqRole = mcRole model, rqPatterns = (if presentString rolePattern then [the rolePattern] else []),
         rqCandidates = None, rqModelContext = Some model\<rparr>
      else if presentString (mcSelector model) then
        \<lparr>rqSource = source, rqRole = None, rqPatterns = [the (mcSelector model)], rqCandidates = None, rqModelContext = Some model\<rparr>
      else case mcCandidates model of
        Some candidates \<Rightarrow>
          \<lparr>rqSource = source, rqRole = None, rqPatterns = candidates, rqCandidates = Some candidates, rqModelContext = Some model\<rparr>
      | None \<Rightarrow> \<lparr>rqSource = source, rqRole = None, rqPatterns = [], rqCandidates = None, rqModelContext = Some model\<rparr>)"

definition defaultRequest :: "workflow_definition \<Rightarrow> jstring \<Rightarrow> model_request" where
  "defaultRequest d value =
     (let rolePattern = mapGet (wmRoles (wdModels d)) value in
      if presentString rolePattern then
        \<lparr>rqSource = SrcWorkflowDefault, rqRole = Some value, rqPatterns = [the rolePattern], rqCandidates = None, rqModelContext = None\<rparr>
      else \<lparr>rqSource = SrcWorkflowDefault, rqRole = None, rqPatterns = [value], rqCandidates = None, rqModelContext = None\<rparr>)"

definition selectModelRequest :: "workflow_definition \<Rightarrow> workflow_node \<Rightarrow> model_options \<Rightarrow> model_request option" where
  "selectModelRequest d node options =
     (case moActivationModel options of
        Some model \<Rightarrow> Some (modelContextRequest d model SrcActivationOverride)
      | None \<Rightarrow>
          (case wnModel node of
             Some model \<Rightarrow> Some (modelContextRequest d model SrcNode)
           | None \<Rightarrow>
               let defaultRole = mapGet (wmDefaults (wdModels d)) (nodeTypeName (wnType node)) in
               if presentString defaultRole then Some (defaultRequest d (the defaultRole))
               else if wnType node = NodeAgent then
                 (case moAgentPatterns options of
                    Some (p # ps) \<Rightarrow>
                      Some \<lparr>rqSource = SrcAgentFrontmatter, rqRole = None, rqPatterns = p # ps, rqCandidates = Some (p # ps),
                            rqModelContext = None\<rparr>
                  | _ \<Rightarrow> None)
               else None))"

fun resolveFirstPattern :: "jstring list \<Rightarrow> model_options \<Rightarrow> resolved_request option" where
  "resolveFirstPattern [] options = None"
| "resolveFirstPattern (pattern # patterns) options =
     (let resolved = moResolveRole options pattern in
      case rrModel resolved of
        None \<Rightarrow> resolveFirstPattern patterns options
      | Some model \<Rightarrow>
          Some \<lparr>rsvModel = model, rsvThinkingLevel = rrThinkingLevel resolved, rsvExplicit = rrExplicit resolved,
                rsvWarning = rrWarning resolved, rsvPattern = pattern\<rparr>)"

definition resolveUnavailablePolicy ::
  "workflow_definition \<Rightarrow> workflow_node \<Rightarrow> model_context option \<Rightarrow> unavailable_policy" where
  "resolveUnavailablePolicy d node model =
     (case Option.bind model mcUnavailable of
        Some policy \<Rightarrow> policy
      | None \<Rightarrow>
          (case wmUnavailable (wdModels d) of
             Some policy \<Rightarrow> policy
           | None \<Rightarrow> if wnType node = NodeReview then FailUnavailable else FallbackToParent))"

definition createAudit :: "jstring \<Rightarrow> model_request option \<Rightarrow> unavailable_policy \<Rightarrow> model_audit" where
  "createAudit nodeId request policy =
     \<lparr>auNodeId = nodeId,
      auSource = (case request of Some r \<Rightarrow> rqSource r | None \<Rightarrow> SrcNone),
      auRequestedRole = Option.bind request rqRole,
      auRequestedPattern = Option.bind request (\<lambda>r. case rqPatterns r of [] \<Rightarrow> None | p # ps \<Rightarrow> Some p),
      auRequestedCandidates = Option.bind request rqCandidates,
      auUnavailablePolicy = policy, auResolvedModel = None, auThinkingLevel = None, auExplicit = False,
      auFallbackUsed = False, auFallbackReason = None, auWarning = None, auError = None\<rparr>"

definition resolveWorkflowNodeModel ::
  "workflow_definition \<Rightarrow> workflow_node \<Rightarrow> model_options \<Rightarrow> model_resolution" where
  "resolveWorkflowNodeModel d node options =
     (let request = selectModelRequest d node options;
          policy = resolveUnavailablePolicy d node (Option.bind request rqModelContext);
          baseAudit = createAudit (wnId node) request policy
      in case request of
           None \<Rightarrow> \<lparr>mrModel = None, mrThinkingLevel = None, mrAudit = baseAudit\<rparr>
         | Some r \<Rightarrow>
             (case resolveFirstPattern (rqPatterns r) options of
                Some resolved \<Rightarrow>
                  \<lparr>mrModel = Some (rsvModel resolved), mrThinkingLevel = rsvThinkingLevel resolved,
                   mrAudit = baseAudit\<lparr>auResolvedModel := Some (formatModel (rsvModel resolved)),
                     auThinkingLevel := rsvThinkingLevel resolved, auExplicit := rsvExplicit resolved, auFallbackUsed := False,
                     auWarning := rsvWarning resolved, auRequestedPattern := Some (rsvPattern resolved)\<rparr>\<rparr>
              | None \<Rightarrow>
                  (case (if policy = FallbackToParent \<and> presentString (moParentPattern options)
                         then resolveFirstPattern [the (moParentPattern options)] options else None) of
                     Some fallback \<Rightarrow>
                       \<lparr>mrModel = Some (rsvModel fallback), mrThinkingLevel = rsvThinkingLevel fallback,
                        mrAudit = baseAudit\<lparr>auSource := SrcParentFallback, auResolvedModel := Some (formatModel (rsvModel fallback)),
                          auThinkingLevel := rsvThinkingLevel fallback, auExplicit := rsvExplicit fallback, auFallbackUsed := True,
                          auFallbackReason := Some (js ''requested model unavailable'')\<rparr>\<rparr>
                   | None \<Rightarrow>
                       \<lparr>mrModel = None, mrThinkingLevel = None,
                        mrAudit = baseAudit\<lparr>auError := Some (js ''workflow model for node \"'' @ wnId node
                          @ js ''\" could not resolve requested model'')\<rparr>\<rparr>)))"

end
