(* ===== verification/Wf_Patches.thy ===== *)
theory Wf_Patches
  imports Wf_State Wf_Definition
begin

text \<open>
  packages/coding-agent/src/workflow/patches.ts, the part on definitions: the operations of a graph patch, the checks they
  make and the preview they fill in. The code clones the definition and mutates the clone; since a throw discards
  the clone, an operation returns the new definition and preview or an error. Values have their declared types, so the
  checks of a type at run time (of a node type, of a policy) have no branch here. \<open>models.roles\<close> is read like any
  object, with the names of \<open>Object.prototype\<close>.
\<close>

datatype patch_actor = ActorAgent | ActorSupervisor | ActorHuman

datatype graph_operation =
    AddNode workflow_node
  | RemoveNode jstring
  | AddEdge workflow_edge
  | RemoveEdge jstring jstring
  | ReplaceEdgeCondition jstring jstring "jstring option"
  | ReplaceNodePromptSource jstring prompt_source
  | ReplaceNodeModel jstring model_context
  | ReplaceNodePermissions jstring "jstring list option" "jstring list option"
  | SetModelRole jstring jstring

type_synonym edge_reference = "jstring \<times> jstring"

record prompt_source_change =
  pscNodeId :: jstring
  pscBefore :: "prompt_source option"
  pscAfter :: prompt_source

record node_model_change =
  nmcNodeId :: jstring
  nmcBefore :: "model_context option"
  nmcAfter :: "model_context option"

record node_permissions =
  npReads :: "jstring list option"
  npWrites :: "jstring list option"

record permission_change =
  pmcNodeId :: jstring
  pmcBefore :: node_permissions
  pmcAfter :: node_permissions

record model_role_change =
  mrcRole :: jstring
  mrcBefore :: js_val
  mrcAfter :: jstring

record patch_preview =
  pvAddedNodes :: "jstring list"
  pvRemovedNodes :: "jstring list"
  pvChangedNodes :: "jstring list"
  pvAddedEdges :: "edge_reference list"
  pvRemovedEdges :: "edge_reference list"
  pvChangedEdges :: "edge_reference list"
  pvPromptSourceChanges :: "prompt_source_change list"
  pvModelChanges :: "node_model_change list"
  pvPermissionChanges :: "permission_change list"
  pvModelRoleChanges :: "model_role_change list"
  pvWarnings :: "jstring list"

datatype graph_patch_error =
    ApplyNeedsApproval
  | AddsDuplicateNode jstring
  | AddsDuplicateEdge jstring jstring
  | UnknownPatchNode jstring
  | UnknownPatchEdge jstring jstring
  | ProducedDuplicateNode jstring
  | NodeIdEmpty
  | UnknownPatchSource jstring
  | UnknownPatchTarget jstring
  | PatchCondition cond_error
  | NotOneModel
  | CandidatesEmpty
  | DanglingOutputPrompt jstring jstring
  | LabelEmpty jstring
  | LabelNotPointer jstring
  | PatchStateError state_error

type_synonym 'a patch_result = "graph_patch_error + 'a"

section \<open>Small operations\<close>

definition createEmptyPreview :: patch_preview where
  "createEmptyPreview =
     \<lparr>pvAddedNodes = [], pvRemovedNodes = [], pvChangedNodes = [], pvAddedEdges = [], pvRemovedEdges = [],
      pvChangedEdges = [], pvPromptSourceChanges = [], pvModelChanges = [], pvPermissionChanges = [],
      pvModelRoleChanges = [], pvWarnings = []\<rparr>"

definition pushUnique :: "jstring list \<Rightarrow> jstring \<Rightarrow> jstring list" where
  "pushUnique values value = (if value \<in> set values then values else values @ [value])"

definition edgeReference :: "workflow_edge \<Rightarrow> edge_reference" where
  "edgeReference edge = (weFrom edge, weTo edge)"

fun promptTextForSource :: "prompt_source \<Rightarrow> jstring option" where
  "promptTextForSource (PromptInline t) = Some t"
| "promptTextForSource (PromptFile path) = Some path"
| "promptTextForSource _ = None"

text \<open>\<open>findIndex\<close>, or nothing for \<open>-1\<close>.\<close>

fun firstIndex :: "('a \<Rightarrow> bool) \<Rightarrow> 'a list \<Rightarrow> nat option" where
  "firstIndex p [] = None"
| "firstIndex p (x # xs) = (if p x then Some 0 else map_option Suc (firstIndex p xs))"

definition removeAt :: "nat \<Rightarrow> 'a list \<Rightarrow> 'a list" where
  "removeAt i xs = take i xs @ drop (Suc i) xs"

definition findNodeIndex :: "workflow_definition \<Rightarrow> jstring \<Rightarrow> nat patch_result" where
  "findNodeIndex d nodeId =
     (case firstIndex (\<lambda>node. wnId node = nodeId) (wdNodes d) of
        Some index \<Rightarrow> Inr index
      | None \<Rightarrow> Inl (UnknownPatchNode nodeId))"

definition findEdgeIndex :: "workflow_definition \<Rightarrow> jstring \<Rightarrow> jstring \<Rightarrow> nat patch_result" where
  "findEdgeIndex d from' to' =
     (case firstIndex (\<lambda>edge. weFrom edge = from' \<and> weTo edge = to') (wdEdges d) of
        Some index \<Rightarrow> Inr index
      | None \<Rightarrow> Inl (UnknownPatchEdge from' to'))"

section \<open>Checks\<close>

text \<open>The model cites a label by what it names: the node and the field.\<close>

definition nodeLabel :: "jstring \<Rightarrow> string \<Rightarrow> jstring" where
  "nodeLabel nodeId field = js ''workflow graph patch node \"'' @ nodeId @ js ''\" '' @ js field"

definition validateNonEmptyString :: "jstring \<Rightarrow> jstring \<Rightarrow> unit patch_result" where
  "validateNonEmptyString value label = (if trim value = [] then Inl (LabelEmpty label) else Inr ())"

definition validateJsonPointer :: "jstring \<Rightarrow> jstring \<Rightarrow> unit patch_result" where
  "validateJsonPointer path label =
     bindE (validateNonEmptyString path label) (\<lambda>_.
       if startsWith path (js ''/'') then Inr () else Inl (LabelNotPointer label))"

fun validatePromptSourceShape :: "prompt_source \<Rightarrow> jstring \<Rightarrow> unit patch_result" where
  "validatePromptSourceShape (PromptInline t) nodeId = validateNonEmptyString t (nodeLabel nodeId ''inline prompt'')"
| "validatePromptSourceShape (PromptFile path) nodeId = validateNonEmptyString path (nodeLabel nodeId ''prompt file path'')"
| "validatePromptSourceShape (PromptState path) nodeId = validateJsonPointer path (nodeLabel nodeId ''prompt path'')"
| "validatePromptSourceShape (PromptHuman path) nodeId = validateJsonPointer path (nodeLabel nodeId ''prompt path'')"
| "validatePromptSourceShape (PromptOutput node path selector) nodeId =
     bindE (validateNonEmptyString node (nodeLabel nodeId ''prompt output node'')) (\<lambda>_.
       validateJsonPointer path (nodeLabel nodeId ''prompt output path''))"

text \<open>A read of the empty state, for its checks.\<close>

definition probeRead :: "jstring \<Rightarrow> jstring list option \<Rightarrow> unit patch_result" where
  "probeRead path allowed =
     (case readWorkflowState [] path (noPolicy\<lparr>apReadPaths := allowed\<rparr>) of
        Inl e \<Rightarrow> Inl (PatchStateError e)
      | Inr _ \<Rightarrow> Inr ())"

definition validateStateScopes :: "jstring list option \<Rightarrow> unit patch_result" where
  "validateStateScopes scopes =
     (case scopes of
        None \<Rightarrow> Inr ()
      | Some ss \<Rightarrow> foldE (\<lambda>scope _. probeRead scope (Some [scope])) ss ())"

definition validateModelContext :: "model_context option \<Rightarrow> unit patch_result" where
  "validateModelContext model =
     (case model of
        None \<Rightarrow> Inr ()
      | Some m \<Rightarrow>
          if count [mcRole m \<noteq> None, mcSelector m \<noteq> None, mcCandidates m \<noteq> None] \<noteq> 1 then Inl NotOneModel
          else if mcCandidates m = Some [] then Inl CandidatesEmpty
          else Inr ())"

definition validateEdgeCondition :: "jstring option \<Rightarrow> unit patch_result" where
  "validateEdgeCondition source =
     (case source of
        None \<Rightarrow> Inr ()
      | Some s \<Rightarrow>
          (case parseWorkflowCondition (trim s) of
             Inl e \<Rightarrow> Inl (PatchCondition e)
           | Inr _ \<Rightarrow> Inr ()))"

definition validatePatchEdgeReferences :: "workflow_definition \<Rightarrow> workflow_edge \<Rightarrow> unit patch_result" where
  "validatePatchEdgeReferences d edge =
     (if \<not> list_ex (\<lambda>node. wnId node = weFrom edge) (wdNodes d) then Inl (UnknownPatchSource (weFrom edge))
      else if \<not> list_ex (\<lambda>node. wnId node = weTo edge) (wdNodes d) then Inl (UnknownPatchTarget (weTo edge))
      else Inr ())"

definition validateNodeShape :: "workflow_node \<Rightarrow> unit patch_result" where
  "validateNodeShape node =
     (if trim (wnId node) = [] then Inl NodeIdEmpty
      else
        bindE (validateModelContext (wnModel node)) (\<lambda>_.
        bindE (validateStateScopes (wnReads node)) (\<lambda>_.
        bindE (validateStateScopes (wnWrites node)) (\<lambda>_.
          case wnPromptSource node of
            None \<Rightarrow> Inr ()
          | Some source \<Rightarrow> validatePromptSourceShape source (wnId node)))))"

definition validatePromptSourcePermissions :: "workflow_node \<Rightarrow> unit patch_result" where
  "validatePromptSourcePermissions node =
     (case wnPromptSource node of
        Some (PromptState path) \<Rightarrow> probeRead path (wnReads node)
      | Some (PromptHuman path) \<Rightarrow> probeRead path (wnReads node)
      | Some (PromptOutput source path selector) \<Rightarrow> probeRead path (wnReads node)
      | _ \<Rightarrow> Inr ())"

definition validatePatchPromptSourceReferences :: "workflow_definition \<Rightarrow> jstring list \<Rightarrow> unit patch_result" where
  "validatePatchPromptSourceReferences d nodeIds =
     foldE (\<lambda>node _.
       case wnPromptSource node of
         Some (PromptOutput source path selector) \<Rightarrow>
           if source \<notin> set nodeIds then Inl (DanglingOutputPrompt (wnId node) source)
           else validatePromptSourcePermissions node
       | _ \<Rightarrow> validatePromptSourcePermissions node) (wdNodes d) ()"

definition validateDefinitionGraph :: "workflow_definition \<Rightarrow> unit patch_result" where
  "validateDefinitionGraph d =
     bindE (foldE (\<lambda>node nodeIds.
              bindE (validateNodeShape node) (\<lambda>_.
                if wnId node \<in> set nodeIds then Inl (ProducedDuplicateNode (wnId node))
                else Inr (setAdd (wnId node) nodeIds))) (wdNodes d) []) (\<lambda>nodeIds.
     bindE (validatePatchPromptSourceReferences d nodeIds) (\<lambda>_.
       foldE (\<lambda>edge _.
         bindE (validatePatchEdgeReferences d edge) (\<lambda>_. validateEdgeCondition (weCondition edge))) (wdEdges d) ()))"

section \<open>The operations\<close>

type_synonym patch_step = "workflow_definition \<Rightarrow> patch_preview \<Rightarrow> (workflow_definition \<times> patch_preview) patch_result"

definition addNode :: "workflow_node \<Rightarrow> patch_step" where
  "addNode node d preview =
     (if list_ex (\<lambda>existing. wnId existing = wnId node) (wdNodes d) then Inl (AddsDuplicateNode (wnId node))
      else bindE (validateNodeShape node) (\<lambda>_.
        Inr (d\<lparr>wdNodes := wdNodes d @ [node]\<rparr>,
             preview\<lparr>pvAddedNodes := pvAddedNodes preview @ [wnId node]\<rparr>)))"

definition removeNode :: "jstring \<Rightarrow> patch_step" where
  "removeNode nodeId d preview =
     bindE (findNodeIndex d nodeId) (\<lambda>nodeIndex.
       let gone = (\<lambda>edge. weFrom edge = nodeId \<or> weTo edge = nodeId) in
       Inr (d\<lparr>wdNodes := removeAt nodeIndex (wdNodes d), wdEdges := filter (\<lambda>edge. \<not> gone edge) (wdEdges d)\<rparr>,
            preview\<lparr>pvRemovedEdges := pvRemovedEdges preview @ map edgeReference (filter gone (wdEdges d)),
                    pvRemovedNodes := pvRemovedNodes preview @ [nodeId]\<rparr>))"

definition addEdge :: "workflow_edge \<Rightarrow> patch_step" where
  "addEdge edge d preview =
     (if list_ex (\<lambda>existing. weFrom existing = weFrom edge \<and> weTo existing = weTo edge) (wdEdges d)
      then Inl (AddsDuplicateEdge (weFrom edge) (weTo edge))
      else
        bindE (validatePatchEdgeReferences d edge) (\<lambda>_.
        bindE (validateEdgeCondition (weCondition edge)) (\<lambda>_.
        Inr (d\<lparr>wdEdges := wdEdges d @ [edge]\<rparr>,
             preview\<lparr>pvAddedEdges := pvAddedEdges preview @ [edgeReference edge]\<rparr>))))"

definition removeEdge :: "jstring \<Rightarrow> jstring \<Rightarrow> patch_step" where
  "removeEdge from' to' d preview =
     bindE (findEdgeIndex d from' to') (\<lambda>edgeIndex.
       Inr (d\<lparr>wdEdges := removeAt edgeIndex (wdEdges d)\<rparr>,
            preview\<lparr>pvRemovedEdges := pvRemovedEdges preview @ [edgeReference (wdEdges d ! edgeIndex)]\<rparr>))"

definition replaceEdgeCondition :: "jstring \<Rightarrow> jstring \<Rightarrow> jstring option \<Rightarrow> patch_step" where
  "replaceEdgeCondition from' to' condition d preview =
     bindE (findEdgeIndex d from' to') (\<lambda>edgeIndex.
     bindE (validateEdgeCondition condition) (\<lambda>_.
       Inr (d\<lparr>wdEdges := (wdEdges d)[edgeIndex := (wdEdges d ! edgeIndex)\<lparr>weCondition := map_option trim condition\<rparr>]\<rparr>,
            preview\<lparr>pvChangedEdges := pvChangedEdges preview @ [(from', to')]\<rparr>)))"

text \<open>Replacing a node by an edited copy of it, as the mutation of the node does.\<close>

definition setNodeAt :: "nat \<Rightarrow> workflow_node \<Rightarrow> workflow_definition \<Rightarrow> workflow_definition" where
  "setNodeAt nodeIndex node d = d\<lparr>wdNodes := (wdNodes d)[nodeIndex := node]\<rparr>"

definition replaceNodePromptSource :: "jstring \<Rightarrow> prompt_source \<Rightarrow> patch_step" where
  "replaceNodePromptSource nodeId source d preview =
     bindE (findNodeIndex d nodeId) (\<lambda>nodeIndex.
     bindE (validatePromptSourceShape source nodeId) (\<lambda>_.
       let node = wdNodes d ! nodeIndex in
       Inr (setNodeAt nodeIndex (node\<lparr>wnPromptSource := Some source, wnPrompt := promptTextForSource source\<rparr>) d,
            preview\<lparr>pvPromptSourceChanges := pvPromptSourceChanges preview
                      @ [\<lparr>pscNodeId = nodeId, pscBefore = wnPromptSource node, pscAfter = source\<rparr>],
                    pvChangedNodes := pushUnique (pvChangedNodes preview) nodeId\<rparr>)))"

definition replaceNodeModel :: "jstring \<Rightarrow> model_context \<Rightarrow> patch_step" where
  "replaceNodeModel nodeId model d preview =
     bindE (findNodeIndex d nodeId) (\<lambda>nodeIndex.
     bindE (validateModelContext (Some model)) (\<lambda>_.
       let node = wdNodes d ! nodeIndex in
       Inr (setNodeAt nodeIndex (node\<lparr>wnModel := Some model\<rparr>) d,
            preview\<lparr>pvModelChanges := pvModelChanges preview
                      @ [\<lparr>nmcNodeId = nodeId, nmcBefore = wnModel node, nmcAfter = Some model\<rparr>],
                    pvChangedNodes := pushUnique (pvChangedNodes preview) nodeId\<rparr>)))"

definition replaceNodePermissions :: "jstring \<Rightarrow> jstring list option \<Rightarrow> jstring list option \<Rightarrow> patch_step" where
  "replaceNodePermissions nodeId reads writes d preview =
     bindE (findNodeIndex d nodeId) (\<lambda>nodeIndex.
     bindE (validateStateScopes reads) (\<lambda>_.
     bindE (validateStateScopes writes) (\<lambda>_.
       let node = wdNodes d ! nodeIndex in
       Inr (setNodeAt nodeIndex (node\<lparr>wnReads := reads, wnWrites := writes\<rparr>) d,
            preview\<lparr>pvPermissionChanges := pvPermissionChanges preview
                      @ [\<lparr>pmcNodeId = nodeId, pmcBefore = \<lparr>npReads = wnReads node, npWrites = wnWrites node\<rparr>,
                          pmcAfter = \<lparr>npReads = reads, npWrites = writes\<rparr>\<rparr>],
                    pvChangedNodes := pushUnique (pvChangedNodes preview) nodeId\<rparr>))))"

text \<open>A property of \<open>models.roles\<close>.\<close>

definition roleValue :: "(jstring, jstring) jsmap \<Rightarrow> jstring \<Rightarrow> js_val" where
  "roleValue roles role = objGet (map (\<lambda>(k, v). (k, JStr v)) roles) role"

definition setModelRole :: "jstring \<Rightarrow> jstring \<Rightarrow> patch_step" where
  "setModelRole role selector d preview =
     bindE (validateNonEmptyString role (js ''workflow graph patch model role'')) (\<lambda>_.
     bindE (validateNonEmptyString selector (js ''workflow graph patch model role selector'')) (\<lambda>_.
       let roles = wmRoles (wdModels d) in
       Inr (d\<lparr>wdModels := (wdModels d)\<lparr>wmRoles := mapSet role selector roles\<rparr>\<rparr>,
            preview\<lparr>pvModelRoleChanges := pvModelRoleChanges preview
                      @ [\<lparr>mrcRole = role, mrcBefore = roleValue roles role, mrcAfter = selector\<rparr>]\<rparr>)))"

fun applyPatchOperation :: "graph_operation \<Rightarrow> patch_step" where
  "applyPatchOperation (AddNode node) = addNode node"
| "applyPatchOperation (RemoveNode nodeId) = removeNode nodeId"
| "applyPatchOperation (AddEdge edge) = addEdge edge"
| "applyPatchOperation (RemoveEdge from' to') = removeEdge from' to'"
| "applyPatchOperation (ReplaceEdgeCondition from' to' condition) = replaceEdgeCondition from' to' condition"
| "applyPatchOperation (ReplaceNodePromptSource nodeId source) = replaceNodePromptSource nodeId source"
| "applyPatchOperation (ReplaceNodeModel nodeId model) = replaceNodeModel nodeId model"
| "applyPatchOperation (ReplaceNodePermissions nodeId reads writes) = replaceNodePermissions nodeId reads writes"
| "applyPatchOperation (SetModelRole role selector) = setModelRole role selector"

definition applyPatchOperations ::
  "workflow_definition \<Rightarrow> graph_operation list \<Rightarrow> (workflow_definition \<times> patch_preview) patch_result" where
  "applyPatchOperations d patch =
     bindE (foldE (\<lambda>operation (d', preview). applyPatchOperation operation d' preview) patch (d, createEmptyPreview))
       (\<lambda>(d', preview). bindE (validateDefinitionGraph d') (\<lambda>_. Inr (d', preview)))"

record graph_proposal =
  gpId :: jstring
  gpPatch :: "graph_operation list"
  gpReason :: "jstring option"
  gpPreview :: patch_preview

record proposal_context =
  pcActor :: patch_actor
  pcReason :: "jstring option"
  pcProposalId :: "jstring option"

definition proposeWorkflowGraphPatch ::
  "workflow_definition \<Rightarrow> graph_operation list \<Rightarrow> proposal_context \<Rightarrow> graph_proposal patch_result" where
  "proposeWorkflowGraphPatch d patch context =
     bindE (applyPatchOperations d patch) (\<lambda>(_, preview).
       Inr \<lparr>gpId = (case pcProposalId context of Some i \<Rightarrow> i | None \<Rightarrow> js ''workflow-graph-proposal''),
            gpPatch = patch, gpReason = pcReason context, gpPreview = preview\<rparr>)"

definition applyWorkflowGraphPatch ::
  "workflow_definition \<Rightarrow> graph_operation list \<Rightarrow> patch_actor \<Rightarrow> (workflow_definition \<times> patch_preview) patch_result" where
  "applyWorkflowGraphPatch d patch actor =
     (if actor \<noteq> ActorSupervisor \<and> actor \<noteq> ActorHuman then Inl ApplyNeedsApproval
      else applyPatchOperations d patch)"

end
