(* ===== verification/Wf_Run_Store.thy ===== *)
theory Wf_Run_Store
  imports Wf_Prompt Wf_Model Wf_Patches
begin

text \<open>
  packages/coding-agent/src/workflow/run-store.ts and the part of patches.ts that works on runs: the log of a workflow run
  in the session, the functions that append to it, and the snapshot that is read back from it. The log is the branch of
  the session: an entry is an event of a run, or another entry, among them the data that fails the checks of
  \<open>isWorkflowRunEvent\<close>. \<open>appendCustomEntry\<close> adds an entry at the end; the model returns the longer log. An event has the
  members of its interface, so the checks of their types at run time have no branch here.
\<close>

record activation_input =
  inPrompt :: "resolved_prompt option"

datatype record_status = RecRunning | RecCompleted | RecFailed

record activation_record =
  arId :: jstring
  arNodeId :: jstring
  arRevision :: jstring
  arParents :: "jstring list"
  arStatus :: record_status
  arInput :: "activation_input option"
  arOutput :: "activation_output option"
  arAudit :: "model_audit option"
  arError :: "jstring option"

record graph_revision =
  grId :: jstring
  grParent :: "jstring option"
  grDefinition :: workflow_definition
  grReason :: "jstring option"

record proposal_record =
  prId :: jstring
  prActor :: patch_actor
  prPatch :: "graph_operation list"
  prPreview :: patch_preview
  prReason :: "jstring option"

record applied_record =
  apProposalId :: "jstring option"
  apActor :: patch_actor
  apPatch :: "graph_operation list"
  apPreview :: patch_preview
  apRevision :: jstring
  apParentRevision :: "jstring option"
  apReason :: "jstring option"

record run_snapshot =
  rsId :: jstring
  rsCurrentRevision :: jstring
  rsDefinition :: workflow_definition
  rsRevisions :: "graph_revision list"
  rsProposals :: "proposal_record list"
  rsApplied :: "applied_record list"
  rsState :: js_obj
  rsActivations :: "activation_record list"

datatype run_event =
    RunStarted jstring jstring workflow_definition
  | GraphRevisionCreated jstring graph_revision
  | StatePatchApplied jstring "state_operation list" "jstring option"
  | GraphPatchProposed jstring proposal_record
  | GraphPatchApplied jstring applied_record
  | ActivationStarted jstring jstring jstring jstring "jstring list" "activation_input option"
  | ActivationCompleted jstring jstring "activation_output option" "model_audit option"
  | ActivationFailed jstring jstring jstring

datatype log_entry = RunEventEntry run_event | OtherEntry

type_synonym run_log = "log_entry list"

fun eventRunId :: "run_event \<Rightarrow> jstring" where
  "eventRunId (RunStarted i _ _) = i"
| "eventRunId (GraphRevisionCreated i _) = i"
| "eventRunId (StatePatchApplied i _ _) = i"
| "eventRunId (GraphPatchProposed i _) = i"
| "eventRunId (GraphPatchApplied i _) = i"
| "eventRunId (ActivationStarted i _ _ _ _ _) = i"
| "eventRunId (ActivationCompleted i _ _ _) = i"
| "eventRunId (ActivationFailed i _ _) = i"

fun workflowEventFromEntry :: "log_entry \<Rightarrow> run_event option" where
  "workflowEventFromEntry (RunEventEntry event) = Some event"
| "workflowEventFromEntry OtherEntry = None"

section \<open>Appending\<close>

definition appendEvent :: "run_event \<Rightarrow> run_log \<Rightarrow> run_log" where
  "appendEvent event entries = entries @ [RunEventEntry event]"

definition newRun :: "jstring \<Rightarrow> jstring \<Rightarrow> workflow_definition \<Rightarrow> run_snapshot" where
  "newRun runId revisionId d =
     \<lparr>rsId = runId, rsCurrentRevision = revisionId, rsDefinition = d,
      rsRevisions = [\<lparr>grId = revisionId, grParent = None, grDefinition = d, grReason = None\<rparr>],
      rsProposals = [], rsApplied = [], rsState = [], rsActivations = []\<rparr>"

definition startWorkflowRun ::
  "workflow_definition \<Rightarrow> jstring \<Rightarrow> jstring option \<Rightarrow> run_log \<Rightarrow> run_snapshot \<times> run_log" where
  "startWorkflowRun d runId graphRevisionId entries =
     (let revisionId = (case graphRevisionId of Some r \<Rightarrow> r | None \<Rightarrow> runId @ js '':graph-0'') in
      (newRun runId revisionId d, appendEvent (RunStarted runId revisionId d) entries))"

definition appendWorkflowGraphRevision ::
  "jstring \<Rightarrow> workflow_definition \<Rightarrow> jstring \<Rightarrow> jstring option \<Rightarrow> jstring option \<Rightarrow> run_log \<Rightarrow> graph_revision \<times> run_log" where
  "appendWorkflowGraphRevision runId d revisionId parent reason entries =
     (let revision = \<lparr>grId = revisionId, grParent = parent, grDefinition = d, grReason = reason\<rparr> in
      (revision, appendEvent (GraphRevisionCreated runId revision) entries))"

definition appendWorkflowStatePatch ::
  "jstring \<Rightarrow> state_operation list \<Rightarrow> jstring option \<Rightarrow> run_log \<Rightarrow> run_log" where
  "appendWorkflowStatePatch runId patch reason = appendEvent (StatePatchApplied runId patch reason)"

definition appendWorkflowGraphPatchProposed :: "jstring \<Rightarrow> proposal_record \<Rightarrow> run_log \<Rightarrow> run_log" where
  "appendWorkflowGraphPatchProposed runId proposal = appendEvent (GraphPatchProposed runId proposal)"

definition appendWorkflowGraphPatchApplied :: "jstring \<Rightarrow> applied_record \<Rightarrow> run_log \<Rightarrow> run_log" where
  "appendWorkflowGraphPatchApplied runId applied = appendEvent (GraphPatchApplied runId applied)"

definition appendWorkflowActivationStarted ::
  "jstring \<Rightarrow> jstring \<Rightarrow> jstring \<Rightarrow> jstring \<Rightarrow> jstring list \<Rightarrow> activation_input option \<Rightarrow> run_log \<Rightarrow> run_log" where
  "appendWorkflowActivationStarted runId activationId nodeId revisionId parents input =
     appendEvent (ActivationStarted runId activationId nodeId revisionId parents input)"

definition appendWorkflowActivationCompleted ::
  "jstring \<Rightarrow> jstring \<Rightarrow> activation_output option \<Rightarrow> model_audit option \<Rightarrow> run_log \<Rightarrow> run_log" where
  "appendWorkflowActivationCompleted runId activationId output audit =
     appendEvent (ActivationCompleted runId activationId output audit)"

definition appendWorkflowActivationFailed :: "jstring \<Rightarrow> jstring \<Rightarrow> jstring \<Rightarrow> run_log \<Rightarrow> run_log" where
  "appendWorkflowActivationFailed runId activationId error = appendEvent (ActivationFailed runId activationId error)"

section \<open>Reading back\<close>

text \<open>\<open>find\<close> by id, and the update of the record found.\<close>

fun updateRecord :: "jstring \<Rightarrow> (activation_record \<Rightarrow> activation_record) \<Rightarrow> activation_record list \<Rightarrow> activation_record list" where
  "updateRecord i f [] = []"
| "updateRecord i f (r # rs) = (if arId r = i then f r # rs else r # updateRecord i f rs)"

fun replayOnRun :: "run_event \<Rightarrow> run_snapshot \<Rightarrow> state_error + run_snapshot" where
  "replayOnRun (RunStarted i revisionId d) run = Inr (newRun i revisionId d)"
| "replayOnRun (StatePatchApplied i patch reason) run =
     (case applyWorkflowStatePatch patch noPolicy (rsState run) of
        (Inl e, _) \<Rightarrow> Inl e
      | (Inr _, state) \<Rightarrow> Inr (run\<lparr>rsState := state\<rparr>))"
| "replayOnRun (GraphPatchProposed i proposal) run = Inr (run\<lparr>rsProposals := rsProposals run @ [proposal]\<rparr>)"
| "replayOnRun (GraphPatchApplied i applied) run = Inr (run\<lparr>rsApplied := rsApplied run @ [applied]\<rparr>)"
| "replayOnRun (ActivationStarted i activationId nodeId revisionId parents input) run =
     Inr (run\<lparr>rsActivations := rsActivations run @
       [\<lparr>arId = activationId, arNodeId = nodeId, arRevision = revisionId, arParents = parents, arStatus = RecRunning,
         arInput = input, arOutput = None, arAudit = None, arError = None\<rparr>]\<rparr>)"
| "replayOnRun (ActivationCompleted i activationId output audit) run =
     Inr (run\<lparr>rsActivations := updateRecord activationId
       (\<lambda>r. r\<lparr>arStatus := RecCompleted, arOutput := (if output \<noteq> None then output else arOutput r),
            arAudit := (if audit \<noteq> None then audit else arAudit r), arError := None\<rparr>) (rsActivations run)\<rparr>)"
| "replayOnRun (ActivationFailed i activationId error) run =
     Inr (run\<lparr>rsActivations := updateRecord activationId
       (\<lambda>r. r\<lparr>arStatus := RecFailed, arError := Some error\<rparr>) (rsActivations run)\<rparr>)"
| "replayOnRun (GraphRevisionCreated i revision) run =
     Inr (run\<lparr>rsCurrentRevision := grId revision, rsDefinition := grDefinition revision,
       rsRevisions := rsRevisions run @ [revision]\<rparr>)"

text \<open>One entry: a start makes the run or replaces it, any other event needs the run.\<close>

definition replayEntry ::
  "log_entry \<Rightarrow> (jstring, run_snapshot) jsmap \<Rightarrow> state_error + (jstring, run_snapshot) jsmap" where
  "replayEntry entry runs =
     (case workflowEventFromEntry entry of
        None \<Rightarrow> Inr runs
      | Some (RunStarted runId revisionId d) \<Rightarrow> Inr (mapSet runId (newRun runId revisionId d) runs)
      | Some event \<Rightarrow>
          (case mapGet runs (eventRunId event) of
             None \<Rightarrow> Inr runs
           | Some run \<Rightarrow> bindE (replayOnRun event run) (\<lambda>run'. Inr (mapSet (eventRunId event) run' runs))))"

definition reconstructRuns :: "run_log \<Rightarrow> state_error + (jstring, run_snapshot) jsmap" where
  "reconstructRuns entries = foldE replayEntry entries []"

definition reconstructWorkflowRuns :: "run_log \<Rightarrow> state_error + run_snapshot list" where
  "reconstructWorkflowRuns entries = bindE (reconstructRuns entries) (\<lambda>runs. Inr (map snd runs))"

section \<open>Graph patches of a run\<close>

text \<open>What a run and its log are together.\<close>

record run_world =
  rwLog :: run_log
  rwRun :: run_snapshot

record run_patch_context =
  rcActor :: patch_actor
  rcReason :: "jstring option"
  rcProposalId :: "jstring option"
  rcRevisionId :: jstring

definition proposeWorkflowGraphPatchToRun ::
  "graph_operation list \<Rightarrow> proposal_context \<Rightarrow> 'z run_world_scheme \<Rightarrow> (graph_patch_error + graph_proposal) \<times> 'z run_world_scheme" where
  "proposeWorkflowGraphPatchToRun patch context w =
     (let run = rwRun w in
      case proposeWorkflowGraphPatch (rsDefinition run) patch context of
        Inl e \<Rightarrow> (Inl e, w)
      | Inr proposal \<Rightarrow>
          let entry = \<lparr>prId = gpId proposal, prActor = pcActor context, prPatch = patch, prPreview = gpPreview proposal,
                       prReason = pcReason context\<rparr>
          in (Inr proposal,
              w\<lparr>rwLog := appendWorkflowGraphPatchProposed (rsId run) entry (rwLog w),
               rwRun := run\<lparr>rsProposals := rsProposals run @ [entry]\<rparr>\<rparr>))"

definition applyWorkflowGraphPatchToRun ::
  "graph_operation list \<Rightarrow> run_patch_context \<Rightarrow> 'z run_world_scheme \<Rightarrow>
     (graph_patch_error + (workflow_definition \<times> patch_preview \<times> graph_revision)) \<times> 'z run_world_scheme" where
  "applyWorkflowGraphPatchToRun patch context w =
     (let run = rwRun w in
      case applyWorkflowGraphPatch (rsDefinition run) patch (rcActor context) of
        Inl e \<Rightarrow> (Inl e, w)
      | Inr (d, preview) \<Rightarrow>
          let (revision, log1) = appendWorkflowGraphRevision (rsId run) d (rcRevisionId context)
                (Some (rsCurrentRevision run)) (rcReason context) (rwLog w);
              applied = \<lparr>apProposalId = rcProposalId context, apActor = rcActor context, apPatch = patch, apPreview = preview,
                apRevision = grId revision, apParentRevision = Some (rsCurrentRevision run), apReason = rcReason context\<rparr>;
              log2 = appendWorkflowGraphPatchApplied (rsId run) applied log1
          in (Inr (d, preview, revision),
              w\<lparr>rwLog := log2,
               rwRun := run\<lparr>rsCurrentRevision := grId revision, rsDefinition := d, rsRevisions := rsRevisions run @ [revision],
                 rsApplied := rsApplied run @ [applied\<lparr>apParentRevision := grParent revision\<rparr>]\<rparr>\<rparr>))"

end
