(* ===== verification/Wf_Runner.thy ===== *)
theory Wf_Runner
  imports Wf_Runtime Wf_Run_Store
begin

text \<open>
  packages/coding-agent/src/workflow/runner.ts: a workflow run, the scheduler with a node execution that resolves the prompt,
  the script and the model of a node, runs it, checks what it returned and records all of it in the log. The world of
  the scheduler's callbacks is the log, the snapshot in memory and whatever else the host keeps. Errors are messages here, since
  the log stores them.
\<close>

record 'h runner_world = run_world +
  rnHost :: 'h

datatype agent_model = AgentModel jstring | AgentModels "jstring list"

record model_resolution_options =
  moptResolveRole :: "jstring \<Rightarrow> resolved_role"
  moptAgentPatterns :: "agent_model \<Rightarrow> jstring list"
  moptParentPattern :: "jstring option"
  moptAgentModels :: "(jstring, agent_model) jsmap option"

record 'h runner_options =
  roDefinition :: workflow_definition
  roRunId :: jstring
  roGraphRevision :: "jstring option"
  roStartNode :: jstring
  roRuntimeHost :: "'h runner_world node_host"
  roModelResolution :: "model_resolution_options option"
  roMaxActivations :: "nat option"
  roMaxNodeActivations :: "nat option"
  roSignal :: "'h runner_world \<Rightarrow> abort_reason option"
  roPackageRoot :: "jstring option"
  roMaxPromptBytes :: "nat option"
  roEnv :: "'h runner_world \<Rightarrow> prompt_env"

section \<open>Messages\<close>

fun stateErrorMessage :: "state_error \<Rightarrow> jstring" where
  "stateErrorMessage (WritesMoreThanOnce p) = quoted ''workflow state patch writes '' p '' more than once''"
| "stateErrorMessage CannotReplaceRoot = js ''workflow state patch cannot replace the state root''"
| "stateErrorMessage (MustBePointer p) = js ''workflow state path must be a JSON pointer: '' @ p"
| "stateErrorMessage (NotAllowed action p) = js ''workflow state '' @ action @ quoted '' '' p '' is not allowed''"
| "stateErrorMessage (ValueExceedsLimit p) = quoted ''workflow state value at '' p '' exceeds the inline size limit''"
| "stateErrorMessage DataExceedsLimit = quoted ''workflow activation output data at '' (js ''/data'') '' exceeds the inline size limit''"
| "stateErrorMessage (TextExceedsLimit label) = label @ js '' exceeds the inline size limit''"
| "stateErrorMessage (UnsupportedScheme r) = js ''workflow artifact reference must use a supported scheme: '' @ r"
| "stateErrorMessage TranscriptsNotAllowed = js ''workflow activation output must store transcripts as artifact references''"
| "stateErrorMessage PatchMustBeArray = js ''workflow activation output statePatch must be an array''"
| "stateErrorMessage (OpMustBeSet i) = dotted (js ''workflow activation output statePatch'') i @ js ''.op must be set''"
| "stateErrorMessage (MustBeArray label) = label @ js '' must be an array''"
| "stateErrorMessage (MustBeString label) = label @ js '' must be a string''"
| "stateErrorMessage (MustBeObject label) = label @ js '' must be an object''"

definition promptFor :: "jstring \<Rightarrow> jstring" where
  "promptFor nodeId = quoted ''workflow prompt source for node '' nodeId ''''"

fun promptErrorMessage :: "prompt_error \<Rightarrow> jstring" where
  "promptErrorMessage (PromptNoOutput n a) = promptFor n @ quoted '' references activation '' a '' without output''"
| "promptErrorMessage (PromptNoParent n s) = promptFor n @ quoted '' has no completed parent activation for node '' s ''''"
| "promptErrorMessage (PromptManyParents n s) = promptFor n @ quoted '' has multiple parent activations for node '' s ''''"
| "promptErrorMessage (PromptNoCompleted n s) = promptFor n @ quoted '' has no completed activation for node '' s ''''"
| "promptErrorMessage (PromptNeedsRoot n) = promptFor n @ js '' requires a workflow package root''"
| "promptErrorMessage (PromptNotRelative n p) =
     quoted ''workflow prompt file for node '' n '' must be package-relative: '' @ p"
| "promptErrorMessage (PromptEscapes n) = quoted ''workflow prompt file for node '' n '' escapes the package root''"
| "promptErrorMessage (PromptUnreadable n r) = quoted ''workflow prompt file for node '' n '' is not readable: '' @ r"
| "promptErrorMessage (PromptNotString n l) = promptFor n @ quoted '' at '' l '' must resolve to a string''"
| "promptErrorMessage (PromptTooLong n) = promptFor n @ js '' exceeds the prompt size limit''"
| "promptErrorMessage (PromptStateError e) = stateErrorMessage e"

definition withMessage :: "('e \<Rightarrow> jstring) \<Rightarrow> 'e + 'a \<Rightarrow> jstring + 'a" where
  "withMessage message r = map_sum message id r"

section \<open>Executing an activation\<close>

definition nodeRequiresModel :: "workflow_node \<Rightarrow> bool" where
  "nodeRequiresModel node \<longleftrightarrow> wnType node = NodeAgent \<or> wnType node = NodeReview \<or> wnModel node \<noteq> None"

definition nodeConsumesPrompt :: "workflow_node \<Rightarrow> bool" where
  "nodeConsumesPrompt node \<longleftrightarrow> wnType node = NodeAgent \<or> wnType node = NodeReview \<or> wnType node = NodeHuman"

definition modelOverrideFromAudit :: "model_audit option \<Rightarrow> jstring option" where
  "modelOverrideFromAudit audit =
     (case audit of
        None \<Rightarrow> None
      | Some au \<Rightarrow>
          if \<not> presentString (auResolvedModel au) then None
          else if auExplicit au \<and> presentString (auThinkingLevel au)
          then Some (the (auResolvedModel au) @ js '':'' @ the (auThinkingLevel au))
          else auResolvedModel au)"

definition resolvePromptForActivation ::
  "'h runner_options \<Rightarrow> prompt_env \<Rightarrow> activation \<Rightarrow> workflow_node \<Rightarrow> js_obj \<Rightarrow> activation list \<Rightarrow>
     prompt_error + resolved_prompt option" where
  "resolvePromptForActivation options E activation node state completed =
     (if \<not> nodeConsumesPrompt node then Inr None
      else resolveWorkflowPrompt E node
        \<lparr>pxState = state, pxCompleted = completed, pxParents = acParents activation,
         pxPackageRoot = roPackageRoot options, pxMaxBytes = roMaxPromptBytes options\<rparr>)"

definition inputSnapshotFromPrompt :: "resolved_prompt option \<Rightarrow> activation_input option" where
  "inputSnapshotFromPrompt prompt = map_option (\<lambda>p. \<lparr>inPrompt = Some p\<rparr>) prompt"

definition resolveAgentModelPattern :: "model_resolution_options \<Rightarrow> workflow_node \<Rightarrow> agent_model option" where
  "resolveAgentModelPattern m node =
     (case wnAgent node of
        None \<Rightarrow> None
      | Some agent \<Rightarrow>
          if agent = [] then None
          else case moptAgentModels m of
            None \<Rightarrow> None
          | Some models \<Rightarrow>
              (case mapGet models agent of Some p \<Rightarrow> Some p | None \<Rightarrow> mapGet models (wnId node)))"

definition resolveModelAudit :: "'h runner_options \<Rightarrow> workflow_node \<Rightarrow> model_audit option" where
  "resolveModelAudit options node =
     map_option (\<lambda>m. mrAudit (resolveWorkflowNodeModel (roDefinition options) node
       \<lparr>moResolveRole = moptResolveRole m, moAgentPatterns = map_option (moptAgentPatterns m) (resolveAgentModelPattern m node),
        moParentPattern = moptParentPattern m, moActivationModel = None\<rparr>)) (roModelResolution options)"

definition resolveScriptForExecution :: "'h runner_options \<Rightarrow> prompt_env \<Rightarrow> workflow_node \<Rightarrow> jstring + workflow_node" where
  "resolveScriptForExecution options E node =
     (let file' = Option.bind (wnScript node) scFile in
      if wnType node \<noteq> NodeScript \<or> \<not> presentString file' then Inr node
      else if \<not> presentString (roPackageRoot options) then
        Inl (quoted ''workflow script file for node '' (wnId node) '' requires a workflow package root'')
      else
        let root' = peResolve E [the (roPackageRoot options)];
            resolved = peResolve E [root', the file'];
            relative = peRelative E root' resolved
        in if startsWith relative (js ''..'') \<or> peIsAbsolute E relative then
             Inl (quoted ''workflow script file for node '' (wnId node) '' escapes the package root'')
           else (case peReadFile E resolved of
               Inl reason \<Rightarrow> Inl (quoted ''workflow script file for node '' (wnId node) '' is not readable: '' @ reason)
             | Inr code \<Rightarrow> Inr (node\<lparr>wnScript := Some ((the (wnScript node))\<lparr>scCode := Some code\<rparr>)\<rparr>)))"

definition updateLog :: "(run_log \<Rightarrow> run_log) \<Rightarrow> ('e, unit, 'h runner_world) comp" where
  "updateLog f w = (Inr (), w\<lparr>rwLog := f (rwLog w)\<rparr>)"

text \<open>The \<open>try\<close> block after the start of the activation is on record.\<close>

definition executeStarted ::
  "'h runner_options \<Rightarrow> jstring \<Rightarrow> activation \<Rightarrow> workflow_node \<Rightarrow> resolved_prompt option \<Rightarrow>
     (activation_output, 'h runner_world) node_call" where
  "executeStarted options runId activation node prompt w =
     (let promptedNode = (case prompt of Some p \<Rightarrow> node\<lparr>wnPrompt := Some (rpValue p)\<rparr> | None \<Rightarrow> node) in
      bindSE (liftSE (resolveScriptForExecution options (roEnv options w) promptedNode)) (\<lambda>nodeForExecution.
      let modelAudit = (if nodeRequiresModel node then resolveModelAudit options node else None);
          failure = Option.bind modelAudit auError
      in
      if presentString failure then throwSE (the failure)
      else
        bindSE (executeWorkflowNode nodeForExecution activation (roRuntimeHost options) (modelOverrideFromAudit modelAudit)) (\<lambda>value.
        bindSE (liftSE (withMessage stateErrorMessage (validateWorkflowActivationOutput value (policyOf node)))) (\<lambda>output.
        bindSE (case aoStatePatch output of
                  None \<Rightarrow> returnSE ()
                | Some patch \<Rightarrow>
                    updateLog (appendWorkflowStatePatch runId patch (Some (js ''activation '' @ acId activation)))) (\<lambda>_.
        bindSE (updateLog (appendWorkflowActivationCompleted runId (acId activation) (Some output) modelAudit)) (\<lambda>_.
          returnSE output))))) w)"

definition appendStarted :: "jstring \<Rightarrow> activation \<Rightarrow> workflow_node \<Rightarrow> activation_input option \<Rightarrow> run_log \<Rightarrow> run_log" where
  "appendStarted runId activation node input =
     appendWorkflowActivationStarted runId (acId activation) (wnId node) (acRevision activation) (acParents activation) input"

definition executeAndPersistActivation ::
  "'h runner_options \<Rightarrow> activation \<Rightarrow> workflow_node \<Rightarrow> js_obj \<Rightarrow> activation list \<Rightarrow>
     (activation_output, 'h runner_world) node_call" where
  "executeAndPersistActivation options activation node state completed w =
     (let runId = rsId (rwRun w);
          failed = (\<lambda>message w'. (Inl message,
            w'\<lparr>rwLog := appendWorkflowActivationFailed runId (acId activation) message (rwLog w')\<rparr>))
      in case resolvePromptForActivation options (roEnv options w) activation node state completed of
           Inl e \<Rightarrow> failed (promptErrorMessage e) (w\<lparr>rwLog := appendStarted runId activation node None (rwLog w)\<rparr>)
         | Inr prompt \<Rightarrow>
             (case executeStarted options runId activation node prompt
                     (w\<lparr>rwLog := appendStarted runId activation node (inputSnapshotFromPrompt prompt) (rwLog w)\<rparr>) of
                (Inl message, w') \<Rightarrow> failed message w'
              | (Inr output, w') \<Rightarrow> (Inr output, w')))"

section \<open>A run\<close>

definition runnerHooks :: "'h runner_options \<Rightarrow> 'h runner_world scheduler_hooks" where
  "runnerHooks options =
     \<lparr>hkExecute = (\<lambda>activation node state completed w.
        case executeAndPersistActivation options activation node state completed w of
          (Inl message, w') \<Rightarrow> (Inl message, state, w')
        | (Inr output, w') \<Rightarrow> (Inr (JObj (outputObject output)), state, w')),
      hkDefinition = (\<lambda>w. rsDefinition (rwRun w)),
      hkRevision = (\<lambda>w. rsCurrentRevision (rwRun w)),
      hkAbort = roSignal options\<rparr>"

text \<open>The iterations are bounded by \<open>n\<close>; the world at the start holds the log before the run.\<close>

definition runWorkflow :: "nat \<Rightarrow> 'h runner_options \<Rightarrow> 'h runner_world \<Rightarrow> 'h runner_world iteration" where
  "runWorkflow n options w =
     (let (run, entries) = startWorkflowRun (roDefinition options) (roRunId options) (roGraphRevision options) (rwLog w) in
      runWorkflowScheduler n (runnerHooks options)
        \<lparr>slMaxActivations = roMaxActivations options, slMaxNodeActivations = roMaxNodeActivations options\<rparr>
        (roStartNode options) [] (w\<lparr>rwLog := entries, rwRun := run\<rparr>))"

end
