(* ===== verification/Wf_Definition_Facts.thy ===== *)
theory Wf_Definition_Facts
  imports Wf_Definition
begin

text \<open>What holds of every workflow definition that the parser returns.\<close>

definition modelOk :: "model_context \<Rightarrow> bool" where
  "modelOk model \<longleftrightarrow> count [mcRole model \<noteq> None, mcSelector model \<noteq> None, mcCandidates model \<noteq> None] = 1"

definition scriptOk :: "script_source \<Rightarrow> bool" where
  "scriptOk script \<longleftrightarrow> (scCode script = None) \<noteq> (scFile script = None)
     \<and> (case scFile script of None \<Rightarrow> True | Some file \<Rightarrow> startsWith file (js ''./''))"

definition promptOk :: "jstring set \<Rightarrow> prompt_source \<Rightarrow> bool" where
  "promptOk nodeIds source \<longleftrightarrow>
     (case source of
        PromptInline t \<Rightarrow> trim t \<noteq> []
      | PromptFile path \<Rightarrow> trim path \<noteq> []
      | PromptState path \<Rightarrow> startsWith path (js ''/'')
      | PromptHuman path \<Rightarrow> startsWith path (js ''/'')
      | PromptOutput node path activation \<Rightarrow> node \<in> nodeIds \<and> startsWith path (js ''/''))"

definition nodeOk :: "jstring set \<Rightarrow> workflow_node \<Rightarrow> bool" where
  "nodeOk nodeIds node \<longleftrightarrow>
     (case wnModel node of None \<Rightarrow> True | Some model \<Rightarrow> modelOk model)
     \<and> (case wnScript node of None \<Rightarrow> True | Some script \<Rightarrow> scriptOk script)
     \<and> (case wnPromptSource node of None \<Rightarrow> True | Some source \<Rightarrow> promptOk nodeIds source)"

definition edgeOk :: "jstring set \<Rightarrow> workflow_edge \<Rightarrow> bool" where
  "edgeOk nodeIds edge \<longleftrightarrow> weFrom edge \<in> nodeIds \<and> weTo edge \<in> nodeIds
     \<and> (case weCondition edge of None \<Rightarrow> True | Some source \<Rightarrow> \<exists>expression. parseWorkflowCondition source = Inr expression)"

lemma failDef_Inr [simp]: "failDef m p = Inr x \<longleftrightarrow> False"
  by (simp add: failDef_def)

lemma expectStringD_Inr: "expectStringD v path sp = Inr s \<Longrightarrow> trim s \<noteq> [] \<and> v = JStr s"
  by (auto simp: expectStringD_def split: js_val.splits if_splits)

lemma expectJsonPointer_Inr: "expectJsonPointer v path sp = Inr s \<Longrightarrow> startsWith s (js ''/'')"
  by (auto simp: expectJsonPointer_def bindE_eq_Inr split: if_splits)

lemma mapIndexD_Inr: "mapIndexD f xs = Inr ys \<Longrightarrow> y \<in> set ys \<Longrightarrow> \<exists>i x. f i x = Inr y"
  by (fastforce simp: mapIndexD_def mapE_eq_Inr list_all2_conv_all_nth in_set_conv_nth)

lemma parseModelContext_Inr: "parseModelContext v path sp = Inr (Some model) \<Longrightarrow> modelOk model"
  by (auto simp: parseModelContext_def modelOk_def bindE_eq_Inr count_def split: js_val.splits if_splits)

lemma count_two: "count [a, b] = Suc 0 \<longleftrightarrow> a \<noteq> b"
  by (auto simp: count_def)

lemma parseScriptSource_Inr:
  assumes "parseScriptSource v path sp = Inr (Some script)"
  shows "scriptOk script"
proof -
  obtain language code fname where f: "count [code \<noteq> None, fname \<noteq> None] = 1"
    "\<not> (fname \<noteq> None \<and> \<not> startsWith (the fname) (js ''./''))" "script = \<lparr>scLanguage = language, scCode = code, scFile = fname\<rparr>"
    using assms by (auto simp: parseScriptSource_def bindE_eq_Inr simp del: js_simps_base split: if_splits)
  then show ?thesis by (auto simp: scriptOk_def count_two split: option.split)
qed

lemma parsePromptSource_Inr:
  assumes "parsePromptSource v path sp = Inr (prompt, Some source)"
    and "case source of PromptOutput node p a \<Rightarrow> node \<in> nodeIds | _ \<Rightarrow> True"
  shows "promptOk nodeIds source"
  using assms
  by (auto simp: parsePromptSource_def bindE_eq_Inr promptOk_def Let_def simp del: js_simps_base
      split: js_val.splits if_splits dest!: expectStringD_Inr expectJsonPointer_Inr)

lemma parseNode_Inr:
  assumes "parseNode nodeId raw path sp = Inr node"
    and "case wnPromptSource node of Some (PromptOutput source p a) \<Rightarrow> source \<in> nodeIds | _ \<Rightarrow> True"
  shows "wnId node = nodeId" and "nodeOk nodeIds node"
  using assms
  by (auto simp: parseNode_def bindE_eq_Inr nodeOk_def split: option.splits prompt_source.splits
      intro: parseModelContext_Inr parseScriptSource_Inr parsePromptSource_Inr)

lemma parseNode_id: "parseNode nodeId raw path sp = Inr node \<Longrightarrow> wnId node = nodeId"
  by (auto simp: parseNode_def bindE_eq_Inr)

lemma parseNodeLoop_Inr:
  "parseNodeLoop entries seen sp = Inr nodes \<Longrightarrow>
     distinct (map wnId nodes) \<and> set (map wnId nodes) \<inter> set seen = {}
     \<and> (\<forall>node \<in> set nodes. \<exists>nodeId raw path. parseNode nodeId raw path sp = Inr node)"
proof (induction entries seen sp arbitrary: nodes rule: parseNodeLoop.induct)
  case (2 nodeId raw path entries seen sp)
  then obtain node nodes' where n: "nodeId \<notin> set seen" "parseNode nodeId raw path sp = Inr node"
    "parseNodeLoop entries (setAdd nodeId seen) sp = Inr nodes'" "nodes = node # nodes'"
    by (auto simp: bindE_eq_Inr split: if_splits)
  from "2.IH" [OF n(1,3)] n parseNode_id [OF n(2)] show ?case by auto
qed simp

lemma foldE_each: "foldE (\<lambda>x _. f x) xs u = Inr v \<Longrightarrow> x \<in> set xs \<Longrightarrow> f x = Inr ()"
  by (induction xs arbitrary: u) (auto simp: bindE_eq_Inr)

lemma parseConditionSource_Inr: "parseConditionSource source path sp = Inr c \<Longrightarrow> \<exists>expression. parseWorkflowCondition c = Inr expression"
  by (auto simp: parseConditionSource_def Let_def split: sum.splits)

lemma parseEdge_Inr:
  "parseEdge sp i raw = Inr edge \<Longrightarrow> weCondition edge = Some source \<Longrightarrow> \<exists>expression. parseWorkflowCondition source = Inr expression"
  by (auto simp: parseEdge_def bindE_eq_Inr Let_def split: option.splits)
    (blast dest: parseConditionSource_Inr)

text \<open>C34 A workflow definition that parses is well-formed: its node ids are distinct, every edge joins two of its nodes and
  carries no condition or one that parses, every model names exactly one of role, selector and candidates, every script
  is either inline or a package-relative file, prompts from a state, output or human path are JSON pointers and an
  output prompt names a node of the definition.\<close>

theorem parseWorkflowDefinition_wellFormed:
  assumes "parseWorkflowDefinition yaml source sourcePath = Inr d"
  shows "distinct (map wnId (wdNodes d))
    \<and> list_all (edgeOk (set (map wnId (wdNodes d)))) (wdEdges d)
    \<and> list_all (nodeOk (set (map wnId (wdNodes d)))) (wdNodes d)
    \<and> trim (wdName d) \<noteq> [] \<and> isFiniteNumber (wdVersion d)"
proof -
  obtain top name version models nodes edges rawNodes rawEdges where
    name: "expectStringD (objGet top (js ''name'')) (js ''name'') sourcePath = Inr name"
    and version: "expectNumberD (objGet top (js ''version'')) (js ''version'') sourcePath = Inr version"
    and nodes: "parseNodes rawNodes sourcePath = Inr nodes" and edges: "parseEdges rawEdges sourcePath = Inr edges"
    and ve: "validateEdgeReferences nodes edges sourcePath = Inr ()" and vp: "validatePromptSourceReferences nodes sourcePath = Inr ()"
    and d: "d = \<lparr>wdName = name, wdVersion = version, wdSourcePath = sourcePath, wdModels = models, wdNodes = nodes, wdEdges = edges\<rparr>"
    using assms by (auto simp: parseWorkflowDefinition_def bindE_eq_Inr simp del: js_simps_base)
  let ?ids = "set (map wnId nodes)"
  obtain entries where "parseNodeLoop entries [] sourcePath = Inr nodes" using nodes by (auto simp: parseNodes_def bindE_eq_Inr)
  note loop = parseNodeLoop_Inr [OF this]
  have "nodeOk ?ids node" if n: "node \<in> set nodes" for node
  proof -
    obtain nodeId raw path where p: "parseNode nodeId raw path sourcePath = Inr node"
      using loop [THEN conjunct2, THEN conjunct2, rule_format, OF n] by auto
    have "(case wnPromptSource node of
          Some (PromptOutput source path activation) \<Rightarrow>
            if source \<notin> ?ids then failDef (UnknownOutputNode (wnId node) source) sourcePath else Inr ()
        | _ \<Rightarrow> Inr ()) = Inr ()"
      by (rule foldE_each [OF vp [unfolded validatePromptSourceReferences_def Let_def] n])
    then have "case wnPromptSource node of Some (PromptOutput source p a) \<Rightarrow> source \<in> ?ids | _ \<Rightarrow> True"
      by (auto split: option.splits prompt_source.splits if_splits)
    from parseNode_Inr(2) [OF p this] show ?thesis .
  qed
  moreover have "edgeOk ?ids edge" if e: "edge \<in> set edges" for edge
  proof -
    have "(if weFrom edge \<notin> ?ids then failDef (UnknownSourceNode (weFrom edge)) sourcePath
        else if weTo edge \<notin> ?ids then failDef (UnknownTargetNode (weTo edge)) sourcePath
        else Inr ()) = Inr ()"
      by (rule foldE_each [OF ve [unfolded validateEdgeReferences_def Let_def] e])
    then have "weFrom edge \<in> ?ids" "weTo edge \<in> ?ids" by (simp_all split: if_splits)
    moreover obtain i raw where "parseEdge sourcePath i raw = Inr edge"
      using edges e by (auto simp: parseEdges_def split: js_val.splits dest: mapIndexD_Inr)
    ultimately show ?thesis using parseEdge_Inr by (auto simp: edgeOk_def split: option.split)
  qed
  ultimately show ?thesis
    using loop expectStringD_Inr [OF name] version
    by (auto simp: d list_all_iff expectNumberD_def split: js_val.splits if_splits)
qed

text \<open>A definition of two nodes and one edge.\<close>

definition plainNode :: "string \<Rightarrow> workflow_node" where
  "plainNode name' = \<lparr>wnId = js name', wnType = NodeHuman, wnAgent = None, wnModel = None, wnPrompt = None,
     wnPromptSource = None, wnScript = None, wnGates = None, wnReads = None, wnWrites = None, wnWaitFor = None\<rparr>"

definition plainDefinition :: workflow_definition where
  "plainDefinition = \<lparr>wdName = js ''w'', wdVersion = NumFin 1, wdSourcePath = None,
     wdModels = \<lparr>wmRoles = [], wmDefaults = [], wmUnavailable = None\<rparr>, wdNodes = [plainNode ''b'', plainNode ''a''],
     wdEdges = [\<lparr>weFrom = js ''a'', weTo = js ''b'', weCondition = None\<rparr>]\<rparr>"

definition plainYaml :: "jstring \<Rightarrow> jstring + js_val" where
  "plainYaml source =
     (let node = JObj [(js ''type'', JStr (js ''human''))] in
      Inr (JObj [(js ''name'', JStr (js ''w'')), (js ''version'', JNum (NumFin 1)),
        (js ''nodes'', JObj [(js ''b'', node), (js ''a'', node)]),
        (js ''edges'', JArr [JObj [(js ''from'', JStr (js ''a'')), (js ''to'', JStr (js ''b''))]])]))"

lemma plainYaml_parses: "parseWorkflowDefinition plainYaml [] None = Inr plainDefinition"
proof -
  have "parseNode (js name') (JObj [(js ''type'', JStr (js ''human''))]) path None = Inr (plainNode name')" for name' path
    by (simp add: parseNode_def expectRecordD_def objGet_def objectPrototypeNames_def parseNodeType_def parseOptionalString_def
        parseModelContext_def parsePromptSource_def parseScriptSource_def parseOptionalStringList_def plainNode_def)
  note node = this [of "''b''", simplified] this [of "''a''", simplified]
  have ids: "wnId (plainNode name') = js name'" "wnPromptSource (plainNode name') = None" for name'
    by (simp_all add: plainNode_def)
  show ?thesis
    by (simp add: parseWorkflowDefinition_def parseYaml_def expectRecordD_def objGet_def objectPrototypeNames_def expectStringD_def
        trim_def trimStart_def trimEnd_def isJsSpace_def expectNumberD_def parseModels_def parseNodes_def parseNodeEntries_def
        objEntries_def isArrayIndex_def isJsDigit_def node setAdd_def parseEdges_def mapIndexD_def parseEdge_def Let_def
        parseOptionalString_def validateEdgeReferences_def validatePromptSourceReferences_def plainYaml_def plainDefinition_def ids)
qed

lemma parseWorkflowDefinition_wellFormed_witness:
  "edgeOk (set (map wnId (wdNodes plainDefinition))) \<lparr>weFrom = js ''a'', weTo = js ''b'', weCondition = None\<rparr>"
  using parseWorkflowDefinition_wellFormed [OF plainYaml_parses] by (simp add: plainDefinition_def)

end
