(* ===== verification/Wf_State_Facts.thy ===== *)
theory Wf_State_Facts
  imports Wf_State
begin

text \<open>
  The state operations: a write is read back, leaves what lies apart from it, and stays within the scopes of the
  policy; a patch stops at its first refused operation; a validated patch always applies.
\<close>

section \<open>Writing and reading one path\<close>

lemma resolve_set_same: "segs \<noteq> [] \<Longrightarrow> resolveSegments segs (JObj (setSegments segs v s)) = v"
  by (induction segs v s rule: setSegments.induct) (simp_all add: objGet_mapSet)

text \<open>Two paths neither of which leads through the other.\<close>

definition apart :: "jstring list \<Rightarrow> jstring list \<Rightarrow> bool" where
  "apart p q \<longleftrightarrow> \<not> prefix p q \<and> \<not> prefix q p"

definition ownNames :: "jstring list \<Rightarrow> bool" where
  "ownNames q \<longleftrightarrow> set q \<inter> set objectPrototypeNames = {}"

lemma resolve_not_record: "q \<noteq> [] \<Longrightarrow> \<not> isRecord v \<Longrightarrow> resolveSegments q v = JUndef"
  by (cases q; cases v) simp_all

lemma resolve_empty: "ownNames q \<Longrightarrow> q \<noteq> [] \<Longrightarrow> resolveSegments q (JObj []) = JUndef"
  by (cases q; cases "tl q") (auto simp: objGet_def ownNames_def)

lemma resolve_set_apart:
  "segs \<noteq> [] \<Longrightarrow> apart segs q \<Longrightarrow> ownNames q \<Longrightarrow> resolveSegments q (JObj (setSegments segs v s)) = resolveSegments q (JObj s)"
proof (induction segs v s arbitrary: q rule: setSegments.induct)
  case (2 leaf v s)
  then obtain x q' where "q = x # q'" "x \<noteq> leaf" by (cases q) (auto simp: apart_def)
  then show ?case by (simp add: objGet_mapSet)
next
  case (3 seg seg2 segs v s)
  then obtain x q' where q: "q = x # q'" by (cases q) (auto simp: apart_def)
  show ?case
  proof (cases "x = seg")
    case True
    let ?o = "case objGet s seg of JObj existing \<Rightarrow> existing | _ \<Rightarrow> []"
    have q': "apart (seg2 # segs) q'" "ownNames q'" "q' \<noteq> []"
      using "3.prems" q True by (auto simp: apart_def ownNames_def)
    have "resolveSegments q' (JObj (setSegments (seg2 # segs) v ?o)) = resolveSegments q' (JObj ?o)"
      by (rule "3.IH" [OF _ q'(1,2)]) simp
    also have "\<dots> = resolveSegments q' (objGet s seg)"
      using resolve_empty [OF q'(2,3)] resolve_not_record [OF q'(3), of "objGet s seg"] by (cases "objGet s seg") simp_all
    finally show ?thesis using q True by (simp add: objGet_mapSet)
  qed (simp add: q objGet_mapSet)
qed simp

section \<open>Pointers and scopes\<close>

definition pointerSegments :: "jstring \<Rightarrow> jstring list" where
  "pointerSegments pointer = map decodeSegment (splitOn 47 (drop 1 pointer))"

lemma pointerSegments_not_Nil [simp]: "pointerSegments p \<noteq> []"
  by (simp add: pointerSegments_def)

lemma parseJsonPointer_iff: "parseJsonPointer p = Inr segs \<longleftrightarrow> startsWith p (js ''/'') \<and> segs = pointerSegments p"
  by (auto simp: parseJsonPointer_def pointerSegments_def)

lemma scope_prefix:
  assumes "pointerWithinScope p scope = Inr True" and "scope \<noteq> js ''/''"
  shows "prefix (pointerSegments scope) (pointerSegments p)"
proof -
  have s: "startsWith scope (js ''/'')" and "p = scope \<or> startsWith p (scope @ js ''/'')"
    using assms by (auto simp: pointerWithinScope_def bindE_eq_Inr parseJsonPointer_iff)
  then consider "p = scope" | t where "p = scope @ 47 # t"
    by (auto simp: startsWith_iff_prefix prefix_def)
  then show ?thesis
  proof cases
    case 2
    obtain u where "scope = 47 # u" using s by (cases scope) (auto simp: startsWith_def)
    then show ?thesis using 2 by (simp add: pointerSegments_def splitOn_sep)
  qed simp
qed

lemma someE_True: "someE f xs = Inr True \<Longrightarrow> \<exists>x \<in> set xs. f x = Inr True"
  by (induction xs) (auto simp: bindE_eq_Inr split: if_splits)

lemma assertPointerAllowed_Inr:
  "assertPointerAllowed p scopes action = Inr () \<Longrightarrow>
     startsWith p (js ''/'') \<and> (\<forall>ss. scopes = Some ss \<longrightarrow> (\<exists>scope \<in> set ss. pointerWithinScope p scope = Inr True))"
  by (auto simp: assertPointerAllowed_def bindE_eq_Inr parseJsonPointer_iff split: option.splits if_splits dest!: someE_True)

lemma checkOperation_Inr:
  assumes "checkOperation policy operation = Inr ()"
  shows "startsWith (opPath operation) (js ''/'')"
    and "apWritePaths policy = Some scopes \<Longrightarrow> js ''/'' \<notin> set scopes \<Longrightarrow>
      \<exists>scope \<in> set scopes. prefix (pointerSegments scope) (pointerSegments (opPath operation))"
  using assms assertPointerAllowed_Inr [of "opPath operation" "apWritePaths policy" "js ''write to''"]
  by (auto simp: checkOperation_def bindE_eq_Inr dest: scope_prefix)

text \<open>A path apart from a scope is apart from everything in the scope.\<close>

lemma apart_extends: "apart scope q \<Longrightarrow> prefix scope p \<Longrightarrow> apart p q"
  unfolding apart_def by (meson prefix_order.trans prefix_same_cases)

section \<open>Patches\<close>

definition writeOperation :: "state_operation \<Rightarrow> js_obj \<Rightarrow> js_obj" where
  "writeOperation operation state = setSegments (pointerSegments (opPath operation)) (opValue operation) state"

definition acceptable :: "access_policy \<Rightarrow> state_operation \<Rightarrow> bool" where
  "acceptable policy operation \<longleftrightarrow> checkOperation policy operation = Inr ()"

lemma conflictLoop_iff: "conflictLoop patch seen = Inr () \<longleftrightarrow> distinct (map opPath patch) \<and> set (map opPath patch) \<inter> set seen = {}"
  by (induction patch arbitrary: seen) auto

lemma assertNoConflictingWrites_iff: "assertNoConflictingWrites patch = Inr () \<longleftrightarrow> distinct (map opPath patch)"
  by (simp add: assertNoConflictingWrites_def conflictLoop_iff)

lemma applyOperations_outcome:
  "snd (applyOperations policy patch s) = fold writeOperation (takeWhile (acceptable policy) patch) s
   \<and> (fst (applyOperations policy patch s) = Inr () \<longleftrightarrow> list_all (acceptable policy) patch)"
proof (induction patch arbitrary: s)
  case (Cons operation patch)
  show ?case
  proof (cases "checkOperation policy operation")
    case (Inl e)
    then show ?thesis by (simp add: acceptable_def)
  next
    case (Inr u)
    have "setStatePath s (opPath operation) (opValue operation) = Inr (writeOperation operation s)"
      using checkOperation_Inr(1) [of policy operation] Inr by (simp add: setStatePath_def writeOperation_def bindE_eq_Inr parseJsonPointer_iff)
    then show ?thesis using Cons Inr by (simp add: acceptable_def)
  qed
qed simp

text \<open>Applying a patch succeeds exactly when no path is written twice and every operation passes its checks; it performs
  the operations before the first refused one, in order, and those stay when the patch then fails; a patch that
  writes a path twice changes nothing.\<close>

lemma statePatch_outcome:
  "(fst (applyWorkflowStatePatch patch policy s) = Inr () \<longleftrightarrow>
      distinct (map opPath patch) \<and> list_all (acceptable policy) patch)
   \<and> snd (applyWorkflowStatePatch patch policy s) =
      (if distinct (map opPath patch) then fold writeOperation (takeWhile (acceptable policy) patch) s else s)"
proof (cases "assertNoConflictingWrites patch")
  case (Inl e)
  then show ?thesis using assertNoConflictingWrites_iff [of patch] by (simp add: applyWorkflowStatePatch_def bindSE_def)
next
  case (Inr u)
  then show ?thesis using assertNoConflictingWrites_iff [of patch] applyOperations_outcome [of policy patch s]
    by (simp add: applyWorkflowStatePatch_def bindSE_def)
qed

lemma statePatch_accepted:
  assumes "distinct (map opPath patch)" and "list_all (acceptable policy) patch"
  shows "applyWorkflowStatePatch patch policy s = (Inr (), fold writeOperation patch s)"
proof -
  have "takeWhile (acceptable policy) patch = patch" using assms(2) by (simp add: takeWhile_eq_all_conv list_all_iff)
  then show ?thesis using assms statePatch_outcome [of patch policy s] by (intro prod_eqI) (simp_all del: takeWhile_eq_all_conv)
qed

lemma fold_write_apart:
  "(\<And>operation. operation \<in> set patch \<Longrightarrow> apart (pointerSegments (opPath operation)) q) \<Longrightarrow> ownNames q \<Longrightarrow>
   resolveSegments q (JObj (fold writeOperation patch s)) = resolveSegments q (JObj s)"
  by (induction patch arbitrary: s) (simp_all add: writeOperation_def resolve_set_apart)

lemma patch_frame:
  assumes "apWritePaths policy = Some scopes" and "js ''/'' \<notin> set scopes"
    and "\<forall>scope \<in> set scopes. apart (pointerSegments scope) segs" and "ownNames segs"
  shows "resolveSegments segs (JObj (snd (applyWorkflowStatePatch patch policy s))) = resolveSegments segs (JObj s)"
proof -
  let ?done = "takeWhile (acceptable policy) patch"
  have "apart (pointerSegments (opPath operation)) segs" if "operation \<in> set ?done" for operation
  proof -
    have "checkOperation policy operation = Inr ()" using that set_takeWhileD [of operation "acceptable policy" patch] by (simp add: acceptable_def)
    from checkOperation_Inr(2) [OF this assms(1,2)] assms(3) show ?thesis by (blast intro: apart_extends)
  qed
  then have "resolveSegments segs (JObj (fold writeOperation ?done s)) = resolveSegments segs (JObj s)"
    using fold_write_apart [of ?done, OF _ assms(4)] by blast
  then show ?thesis using statePatch_outcome [of patch policy s] by simp
qed

lemma getStatePath_cong:
  "resolveSegments (pointerSegments q) (JObj s) = resolveSegments (pointerSegments q) (JObj t) \<Longrightarrow> getStatePath s q = getStatePath t q"
  by (simp add: getStatePath_def parseJsonPointer_def pointerSegments_def)

text \<open>C33 A node writes only inside its scopes: with an allow-list of write paths, whatever patch it returns and whether
  or not the patch is refused, every path that lies apart from all the scopes reads the same afterwards.\<close>

theorem statePatch_respects_scopes:
  assumes "apWritePaths policy = Some scopes" and "js ''/'' \<notin> set scopes"
    and "\<forall>scope \<in> set scopes. apart (pointerSegments scope) (pointerSegments q)" and "ownNames (pointerSegments q)"
  shows "getStatePath (snd (applyWorkflowStatePatch patch policy s)) q = getStatePath s q"
  by (rule getStatePath_cong) (rule patch_frame [OF assms])

lemma statePatch_respects_scopes_witness:
  "getStatePath (snd (applyWorkflowStatePatch
      [\<lparr>opPath = js ''/plan/step'', opValue = JNull\<rparr>, \<lparr>opPath = js ''/secret'', opValue = JNull\<rparr>]
      (noPolicy\<lparr>apWritePaths := Some [js ''/plan'']\<rparr>) [(js ''secret'', JBool True)])) (js ''/secret'') =
   getStatePath [(js ''secret'', JBool True)] (js ''/secret'')"
  by (rule statePatch_respects_scopes [of _ "[js ''/plan'']"])
    (simp_all add: apart_def pointerSegments_def decodeSegment_def ownNames_def objectPrototypeNames_def noPolicy_def)

text \<open>What a successful patch wrote is read back: after the patch, reading the path of an operation gives its value,
  unless a later operation of the same patch wrote on, above or below that path.\<close>

theorem statePatch_reads_back:
  assumes "fst (applyWorkflowStatePatch (before @ operation # later) policy s) = Inr ()"
    and "\<forall>other \<in> set later. apart (pointerSegments (opPath other)) (pointerSegments (opPath operation))"
    and "ownNames (pointerSegments (opPath operation))"
  shows "readWorkflowState (snd (applyWorkflowStatePatch (before @ operation # later) policy s)) (opPath operation) noPolicy
    = Inr (opValue operation)"
proof -
  let ?segs = "pointerSegments (opPath operation)" and ?s = "writeOperation operation (fold writeOperation before s)"
  have ok: "distinct (map opPath (before @ operation # later))" "list_all (acceptable policy) (before @ operation # later)"
    using assms(1) statePatch_outcome [of "before @ operation # later" policy s] by simp_all
  have "snd (applyWorkflowStatePatch (before @ operation # later) policy s) = fold writeOperation later ?s"
    using statePatch_accepted [OF ok, of s] by simp
  moreover have "resolveSegments ?segs (JObj (fold writeOperation later ?s)) = resolveSegments ?segs (JObj ?s)"
    by (rule fold_write_apart) (use assms(2,3) in auto)
  moreover have "resolveSegments ?segs (JObj ?s) = opValue operation"
    by (simp add: writeOperation_def resolve_set_same)
  moreover have "startsWith (opPath operation) (js ''/'')"
    using ok(2) checkOperation_Inr(1) [of policy operation] by (simp add: acceptable_def)
  ultimately show ?thesis
    by (simp add: readWorkflowState_def getStatePath_def assertPointerAllowed_def noPolicy_def parseJsonPointer_def
        pointerSegments_def)
qed

lemma statePatch_reads_back_witness:
  "readWorkflowState (snd (applyWorkflowStatePatch
      [\<lparr>opPath = js ''/a/b'', opValue = JNull\<rparr>, \<lparr>opPath = js ''/c~1d'', opValue = JBool True\<rparr>] noPolicy [(js ''a'', JNull)]))
      (js ''/a/b'') noPolicy = Inr JNull"
proof -
  let ?p = "\<lparr>opPath = js ''/a/b'', opValue = JNull\<rparr>" and ?q = "\<lparr>opPath = js ''/c~1d'', opValue = JBool True\<rparr>"
  have "fst (applyWorkflowStatePatch ([] @ ?p # [?q]) noPolicy [(js ''a'', JNull)]) = Inr ()"
    by (simp add: statePatch_outcome acceptable_def checkOperation_def assertPointerAllowed_def noPolicy_def
        parseJsonPointer_def assertInlineValue_def maxInlineValueBytes_def DEFAULT_WORKFLOW_MAX_INLINE_VALUE_BYTES_def startsWith_def)
  from statePatch_reads_back [OF this] show ?thesis
    by (simp add: apart_def pointerSegments_def decodeSegment_def ownNames_def objectPrototypeNames_def)
qed

lemma eachE_Inr: "eachE f xs = Inr () \<longleftrightarrow> (\<forall>x \<in> set xs. f x = Inr ())"
  by (induction xs) (auto simp: eachE_def bindE_eq_Inr)

text \<open>A validated patch always applies: when the output of an activation passes validation under a policy, applying its
  patch under the same policy cannot throw, whatever the state, and performs every operation; a summary, the data and
  every patched value are within their limits and every artifact is a reference.\<close>

theorem validated_output_applies:
  assumes "validateWorkflowActivationOutput output policy = Inr out"
  shows "(case aoStatePatch out of
      None \<Rightarrow> True
    | Some patch \<Rightarrow> applyWorkflowStatePatch patch policy s = (Inr (), fold writeOperation patch s))
    \<and> (case aoSummary out of None \<Rightarrow> True | Some summary \<Rightarrow> utf8Length summary \<le> maxSummaryBytes policy)
    \<and> (case aoData out of None \<Rightarrow> True | Some data \<Rightarrow>
        (case jsonStringify (JObj data) of None \<Rightarrow> True | Some text \<Rightarrow> utf8Length text \<le> maxInlineValueBytes policy))"
proof (intro conjI)
  have p: "validateStatePatch raw policy = Inr (Some patch) \<Longrightarrow> applyWorkflowStatePatch patch policy s = (Inr (), fold writeOperation patch s)" for raw patch
  proof -
    assume "validateStatePatch raw policy = Inr (Some patch)"
    then have "assertNoConflictingWrites patch = Inr ()" "eachE (checkOperation policy) patch = Inr ()"
      by (auto simp: validateStatePatch_def bindE_eq_Inr split: if_splits)
    then have "distinct (map opPath patch)" "list_all (acceptable policy) patch"
      by (auto simp: assertNoConflictingWrites_iff eachE_Inr acceptable_def list_all_iff)
    then show ?thesis by (rule statePatch_accepted)
  qed
  show "case aoStatePatch out of None \<Rightarrow> True
    | Some patch \<Rightarrow> applyWorkflowStatePatch patch policy s = (Inr (), fold writeOperation patch s)"
    using assms p by (auto simp: validateWorkflowActivationOutput_def bindE_eq_Inr split: option.split)
  show "case aoSummary out of None \<Rightarrow> True | Some summary \<Rightarrow> utf8Length summary \<le> maxSummaryBytes policy"
    using assms by (auto simp: validateWorkflowActivationOutput_def bindE_eq_Inr validateSummary_def assertInlineText_def
        split: option.split if_splits)
  show "case aoData out of None \<Rightarrow> True | Some data \<Rightarrow>
        (case jsonStringify (JObj data) of None \<Rightarrow> True | Some text \<Rightarrow> utf8Length text \<le> maxInlineValueBytes policy)"
    using assms by (auto simp: validateWorkflowActivationOutput_def bindE_eq_Inr validateData_def assertInlineActivationData_def
        simp del: jsonStringify.simps split: option.splits if_splits)
qed

lemma validated_output_applies_witness:
  "applyWorkflowStatePatch [\<lparr>opPath = js ''/plan'', opValue = JBool True\<rparr>]
     (noPolicy\<lparr>apWritePaths := Some [js ''/plan'']\<rparr>) [(js ''plan'', JNull)] = (Inr (), [(js ''plan'', JBool True)])"
proof -
  have "validateWorkflowActivationOutput (JObj [(js ''statePatch'', JArr [JObj [(js ''op'', JStr (js ''set'')),
      (js ''path'', JStr (js ''/plan'')), (js ''value'', JBool True)]])]) (noPolicy\<lparr>apWritePaths := Some [js ''/plan'']\<rparr>) =
    Inr \<lparr>aoSummary = None, aoData = None, aoStatePatch = Some [\<lparr>opPath = js ''/plan'', opValue = JBool True\<rparr>], aoArtifacts = None\<rparr>"
    by (simp add: validateWorkflowActivationOutput_def expectRecord_def assertNoRawTranscriptFields_def objGet_def
        objectPrototypeNames_def validateSummary_def validateArtifacts_def validateData_def validateStatePatch_def
        expectStatePatch_def mapIndexE_def Let_def expectString_def assertNoConflictingWrites_def eachE_def checkOperation_def
        assertPointerAllowed_def pointerWithinScope_def parseJsonPointer_def startsWith_def noPolicy_def assertInlineValue_def
        maxInlineValueBytes_def DEFAULT_WORKFLOW_MAX_INLINE_VALUE_BYTES_def)
  from validated_output_applies [OF this, of "[(js ''plan'', JNull)]"] show ?thesis
    by (simp add: writeOperation_def pointerSegments_def decodeSegment_def)
qed

text \<open>An array is not an object of the walk: its elements cannot be read, and a write below it replaces it.\<close>

lemma write_below_array_replaces_it:
  "readWorkflowState [(js ''xs'', JArr [JBool True])] (js ''/xs/0'') noPolicy = Inr JUndef"
  "snd (applyWorkflowStatePatch [\<lparr>opPath = js ''/xs/0'', opValue = JNull\<rparr>] noPolicy [(js ''xs'', JArr [JBool True])]) =
     [(js ''xs'', JObj [(js ''0'', JNull)])]"
  by (simp_all add: readWorkflowState_def assertPointerAllowed_def noPolicy_def parseJsonPointer_def getStatePath_def
      decodeSegment_def statePatch_outcome acceptable_def checkOperation_def assertInlineValue_def maxInlineValueBytes_def
      DEFAULT_WORKFLOW_MAX_INLINE_VALUE_BYTES_def startsWith_def writeOperation_def pointerSegments_def objGet_def)

end
