(* ===== verification/Wf_Patches_Facts.thy ===== *)
theory Wf_Patches_Facts
  imports Wf_Patches Wf_Definition_Facts Wf_State_Facts "HOL-Library.Multiset"
begin

text \<open>
  Graph patches: the final check accepts exactly the well-formed graphs, and the preview accounts for the change: what
  it does not mention is as it was, in its order.
\<close>

section \<open>Lists changed at a few keys\<close>

text \<open>The elements whose key is not among \<open>ks\<close> are the same up to \<open>f\<close>, in the same order.\<close>

definition untouched :: "('a \<Rightarrow> 'k) \<Rightarrow> ('a \<Rightarrow> 'b) \<Rightarrow> 'k list \<Rightarrow> 'a list \<Rightarrow> 'a list \<Rightarrow> bool" where
  "untouched key f ks xs ys \<longleftrightarrow>
     (\<forall>S. S \<inter> set ks = {} \<longrightarrow> map f (filter (\<lambda>x. key x \<in> S) ys) = map f (filter (\<lambda>x. key x \<in> S) xs))"

lemma untouched_refl [simp]: "untouched key f ks xs xs"
  by (simp add: untouched_def)

lemma untouched_trans:
  assumes "untouched key f ks xs ys" and "untouched key f ks' ys zs" and "set ks \<subseteq> set ks''" and "set ks' \<subseteq> set ks''"
  shows "untouched key f ks'' xs zs"
  unfolding untouched_def
proof (intro allI impI)
  fix S :: "'b set"
  assume "S \<inter> set ks'' = {}"
  then have "S \<inter> set ks = {}" "S \<inter> set ks' = {}" using assms(3,4) by blast+
  then show "map f (filter (\<lambda>x. key x \<in> S) zs) = map f (filter (\<lambda>x. key x \<in> S) xs)"
    using assms(1,2) by (simp add: untouched_def)
qed

lemma untouched_append: "untouched key f [key y] xs (xs @ [y])"
  by (simp add: untouched_def)

lemma untouched_removeAt:
  assumes "i < length xs"
  shows "untouched key f [key (xs ! i)] xs (removeAt i xs)"
proof -
  have "filter (\<lambda>x. key x \<in> S) (removeAt i xs) = filter (\<lambda>x. key x \<in> S) xs" if "key (xs ! i) \<notin> S" for S
  proof -
    have "filter (\<lambda>x. key x \<in> S) xs = filter (\<lambda>x. key x \<in> S) (take i xs @ xs ! i # drop (Suc i) xs)"
      by (simp only: id_take_nth_drop [OF assms, symmetric])
    with that show ?thesis by (simp add: removeAt_def)
  qed
  then show ?thesis by (simp add: untouched_def)
qed

lemma untouched_update:
  assumes "i < length xs" and "key y = key (xs ! i)" and "f y = f (xs ! i) \<or> key y \<in> set ks"
  shows "untouched key f ks xs (xs[i := y])"
  unfolding untouched_def
proof (intro allI impI)
  fix S
  assume "S \<inter> set ks = {}"
  then have s: "f y = f (xs ! i) \<or> key y \<notin> S" using assms(3) by blast
  have "map f (filter (\<lambda>x. key x \<in> S) xs) = map f (filter (\<lambda>x. key x \<in> S) (take i xs @ xs ! i # drop (Suc i) xs))"
    by (simp only: id_take_nth_drop [OF assms(1), symmetric])
  with s assms(1,2) show "map f (filter (\<lambda>x. key x \<in> S) (xs[i := y])) = map f (filter (\<lambda>x. key x \<in> S) xs)"
    by (auto simp: upd_conv_take_nth_drop)
qed

lemma untouched_filter: "untouched key f (map key (filter P xs)) xs (filter (\<lambda>x. \<not> P x) xs)"
proof -
  have "filter (\<lambda>x. key x \<in> S \<and> \<not> P x) xs = filter (\<lambda>x. key x \<in> S) xs"
    if "S \<inter> key ` {x \<in> set xs. P x} = {}" for S
    using that by (auto intro!: filter_cong)
  then show ?thesis by (simp add: untouched_def conj_commute)
qed

text \<open>The keys of two lists differ by those removed and those added.\<close>

lemma mset_removeAt:
  assumes "i < length xs"
  shows "mset (map f (removeAt i xs)) + {#f (xs ! i)#} = mset (map f xs)"
proof -
  have "mset (map f xs) = mset (map f (take i xs @ xs ! i # drop (Suc i) xs))"
    by (simp only: id_take_nth_drop [OF assms, symmetric])
  then show ?thesis by (simp add: removeAt_def)
qed

lemma map_update_same:
  "i < length xs \<Longrightarrow> f y = f (xs ! i) \<Longrightarrow> map f (xs[i := y]) = map f xs"
  by (simp add: map_update list_update_same_conv)

lemma firstIndex_Some: "firstIndex p xs = Some i \<Longrightarrow> i < length xs \<and> p (xs ! i)"
  by (induction xs arbitrary: i) (auto split: if_splits)

lemma findNodeIndex_Inr: "findNodeIndex d nodeId = Inr i \<Longrightarrow> i < length (wdNodes d) \<and> wnId (wdNodes d ! i) = nodeId"
  by (auto simp: findNodeIndex_def split: option.splits dest: firstIndex_Some)

lemma findEdgeIndex_Inr:
  "findEdgeIndex d from' to' = Inr i \<Longrightarrow> i < length (wdEdges d) \<and> edgeReference (wdEdges d ! i) = (from', to')"
  by (auto simp: findEdgeIndex_def edgeReference_def split: option.splits dest: firstIndex_Some)

section \<open>The preview accounts for the change\<close>

definition promptOf :: "workflow_node \<Rightarrow> jstring option \<times> prompt_source option" where
  "promptOf node = (wnPrompt node, wnPromptSource node)"

definition permissionsOf :: "workflow_node \<Rightarrow> node_permissions" where
  "permissionsOf node = \<lparr>npReads = wnReads node, npWrites = wnWrites node\<rparr>"

text \<open>What no operation changes of a node.\<close>

definition nodeCore :: "workflow_node \<Rightarrow> workflow_node" where
  "nodeCore node = node\<lparr>wnPrompt := None, wnPromptSource := None, wnModel := None, wnReads := None, wnWrites := None\<rparr>"

definition replacedNodes :: "patch_preview \<Rightarrow> jstring list" where
  "replacedNodes pv = pvAddedNodes pv @ pvRemovedNodes pv"

definition nodesAccounted :: "workflow_definition \<Rightarrow> workflow_definition \<Rightarrow> patch_preview \<Rightarrow> bool" where
  "nodesAccounted d d' pv \<longleftrightarrow>
     mset (map wnId (wdNodes d')) + mset (pvRemovedNodes pv) = mset (map wnId (wdNodes d)) + mset (pvAddedNodes pv)
     \<and> untouched wnId promptOf (replacedNodes pv @ map pscNodeId (pvPromptSourceChanges pv)) (wdNodes d) (wdNodes d')
     \<and> untouched wnId wnModel (replacedNodes pv @ map nmcNodeId (pvModelChanges pv)) (wdNodes d) (wdNodes d')
     \<and> untouched wnId permissionsOf (replacedNodes pv @ map pmcNodeId (pvPermissionChanges pv)) (wdNodes d) (wdNodes d')
     \<and> untouched wnId nodeCore (replacedNodes pv) (wdNodes d) (wdNodes d')"

definition edgesAccounted :: "workflow_definition \<Rightarrow> workflow_definition \<Rightarrow> patch_preview \<Rightarrow> bool" where
  "edgesAccounted d d' pv \<longleftrightarrow>
     mset (map edgeReference (wdEdges d')) + mset (pvRemovedEdges pv)
       = mset (map edgeReference (wdEdges d)) + mset (pvAddedEdges pv)
     \<and> untouched edgeReference id (pvAddedEdges pv @ pvRemovedEdges pv @ pvChangedEdges pv) (wdEdges d) (wdEdges d')"

definition restAccounted :: "workflow_definition \<Rightarrow> workflow_definition \<Rightarrow> patch_preview \<Rightarrow> bool" where
  "restAccounted d d' pv \<longleftrightarrow>
     wdName d' = wdName d \<and> wdVersion d' = wdVersion d \<and> wdSourcePath d' = wdSourcePath d
     \<and> wmDefaults (wdModels d') = wmDefaults (wdModels d) \<and> wmUnavailable (wdModels d') = wmUnavailable (wdModels d)
     \<and> (\<forall>role. role \<notin> set (map mrcRole (pvModelRoleChanges pv)) \<longrightarrow>
          mapGet (wmRoles (wdModels d')) role = mapGet (wmRoles (wdModels d)) role)"

definition accounted :: "workflow_definition \<Rightarrow> workflow_definition \<Rightarrow> patch_preview \<Rightarrow> bool" where
  "accounted d d' pv \<longleftrightarrow> nodesAccounted d d' pv \<and> edgesAccounted d d' pv \<and> restAccounted d d' pv"

text \<open>One operation adds to the preview what it changes; \<open>as\<close> and \<open>rs\<close> are the nodes it adds and removes.\<close>

lemma untouched_more:
  assumes "untouched key f ks xs ys" and "untouched key f ks' ys zs" and "set ks'' = set ks \<union> set ks'"
  shows "untouched key f ks'' xs zs"
  by (rule untouched_trans [OF assms(1,2)]) (use assms(3) in auto)

lemma nodesAccounted_step:
  assumes "nodesAccounted d d1 pv"
    and "mset (map wnId (wdNodes d2)) + mset rs = mset (map wnId (wdNodes d1)) + mset as"
    and "pvAddedNodes pv2 = pvAddedNodes pv @ as" and "pvRemovedNodes pv2 = pvRemovedNodes pv @ rs"
    and "map pscNodeId (pvPromptSourceChanges pv2) = map pscNodeId (pvPromptSourceChanges pv) @ ps"
    and "map nmcNodeId (pvModelChanges pv2) = map nmcNodeId (pvModelChanges pv) @ ms"
    and "map pmcNodeId (pvPermissionChanges pv2) = map pmcNodeId (pvPermissionChanges pv) @ qs"
    and "untouched wnId promptOf (as @ rs @ ps) (wdNodes d1) (wdNodes d2)"
    and "untouched wnId wnModel (as @ rs @ ms) (wdNodes d1) (wdNodes d2)"
    and "untouched wnId permissionsOf (as @ rs @ qs) (wdNodes d1) (wdNodes d2)"
    and "untouched wnId nodeCore (as @ rs) (wdNodes d1) (wdNodes d2)"
  shows "nodesAccounted d d2 pv2"
  unfolding nodesAccounted_def
proof (intro conjI)
  note n = assms(1) [unfolded nodesAccounted_def]
  have "mset (map wnId (wdNodes d2)) + mset (pvRemovedNodes pv2)
      = (mset (map wnId (wdNodes d2)) + mset rs) + mset (pvRemovedNodes pv)"
    by (simp add: assms(4) ac_simps)
  also have "\<dots> = (mset (map wnId (wdNodes d1)) + mset (pvRemovedNodes pv)) + mset as"
    by (simp only: assms(2)) (simp add: ac_simps)
  also have "\<dots> = mset (map wnId (wdNodes d)) + mset (pvAddedNodes pv2)"
    using n by (simp add: assms(3) ac_simps)
  finally show "mset (map wnId (wdNodes d2)) + mset (pvRemovedNodes pv2) = mset (map wnId (wdNodes d)) + mset (pvAddedNodes pv2)" .
  note k = replacedNodes_def assms(3-7)
  show "untouched wnId promptOf (replacedNodes pv2 @ map pscNodeId (pvPromptSourceChanges pv2)) (wdNodes d) (wdNodes d2)"
    by (rule untouched_more [OF _ assms(8)]) (use n in \<open>auto simp only: k set_append\<close>)
  show "untouched wnId wnModel (replacedNodes pv2 @ map nmcNodeId (pvModelChanges pv2)) (wdNodes d) (wdNodes d2)"
    by (rule untouched_more [OF _ assms(9)]) (use n in \<open>auto simp only: k set_append\<close>)
  show "untouched wnId permissionsOf (replacedNodes pv2 @ map pmcNodeId (pvPermissionChanges pv2)) (wdNodes d) (wdNodes d2)"
    by (rule untouched_more [OF _ assms(10)]) (use n in \<open>auto simp only: k set_append\<close>)
  show "untouched wnId nodeCore (replacedNodes pv2) (wdNodes d) (wdNodes d2)"
    by (rule untouched_more [OF _ assms(11)]) (use n in \<open>auto simp only: k set_append\<close>)
qed

lemma edgesAccounted_step:
  assumes "edgesAccounted d d1 pv"
    and "mset (map edgeReference (wdEdges d2)) + mset rs = mset (map edgeReference (wdEdges d1)) + mset as"
    and "pvAddedEdges pv2 = pvAddedEdges pv @ as" and "pvRemovedEdges pv2 = pvRemovedEdges pv @ rs"
    and "pvChangedEdges pv2 = pvChangedEdges pv @ cs"
    and "untouched edgeReference id (as @ rs @ cs) (wdEdges d1) (wdEdges d2)"
  shows "edgesAccounted d d2 pv2"
  unfolding edgesAccounted_def
proof (intro conjI)
  note n = assms(1) [unfolded edgesAccounted_def]
  have "mset (map edgeReference (wdEdges d2)) + mset (pvRemovedEdges pv2)
      = (mset (map edgeReference (wdEdges d2)) + mset rs) + mset (pvRemovedEdges pv)"
    by (simp add: assms(4) ac_simps)
  also have "\<dots> = (mset (map edgeReference (wdEdges d1)) + mset (pvRemovedEdges pv)) + mset as"
    by (simp only: assms(2)) (simp add: ac_simps)
  also have "\<dots> = mset (map edgeReference (wdEdges d)) + mset (pvAddedEdges pv2)"
    using n by (simp add: assms(3) ac_simps)
  finally show "mset (map edgeReference (wdEdges d2)) + mset (pvRemovedEdges pv2)
      = mset (map edgeReference (wdEdges d)) + mset (pvAddedEdges pv2)" .
  show "untouched edgeReference id (pvAddedEdges pv2 @ pvRemovedEdges pv2 @ pvChangedEdges pv2) (wdEdges d) (wdEdges d2)"
    by (rule untouched_more [OF _ assms(6)]) (use n in \<open>auto simp only: assms(3-5) set_append\<close>)
qed

text \<open>The steps that leave nodes, edges or the rest alone.\<close>

lemma nodesAccounted_same:
  "nodesAccounted d d1 pv \<Longrightarrow> wdNodes d2 = wdNodes d1
     \<Longrightarrow> pvAddedNodes pv2 = pvAddedNodes pv \<Longrightarrow> pvRemovedNodes pv2 = pvRemovedNodes pv
     \<Longrightarrow> pvPromptSourceChanges pv2 = pvPromptSourceChanges pv \<Longrightarrow> pvModelChanges pv2 = pvModelChanges pv
     \<Longrightarrow> pvPermissionChanges pv2 = pvPermissionChanges pv \<Longrightarrow> nodesAccounted d d2 pv2"
  by (simp add: nodesAccounted_def replacedNodes_def)

lemma edgesAccounted_same:
  "edgesAccounted d d1 pv \<Longrightarrow> wdEdges d2 = wdEdges d1 \<Longrightarrow> pvAddedEdges pv2 = pvAddedEdges pv
     \<Longrightarrow> pvRemovedEdges pv2 = pvRemovedEdges pv \<Longrightarrow> pvChangedEdges pv2 = pvChangedEdges pv \<Longrightarrow> edgesAccounted d d2 pv2"
  by (simp add: edgesAccounted_def)

lemma restAccounted_same:
  "restAccounted d d1 pv \<Longrightarrow> wdName d2 = wdName d1 \<Longrightarrow> wdVersion d2 = wdVersion d1 \<Longrightarrow> wdSourcePath d2 = wdSourcePath d1
     \<Longrightarrow> wdModels d2 = wdModels d1 \<Longrightarrow> pvModelRoleChanges pv2 = pvModelRoleChanges pv \<Longrightarrow> restAccounted d d2 pv2"
  by (simp add: restAccounted_def)

lemmas accounted_same = nodesAccounted_same edgesAccounted_same restAccounted_same

lemma addNode_accounted:
  assumes "accounted d d1 pv" and "addNode node d1 pv = Inr (d2, pv2)"
  shows "accounted d d2 pv2"
proof -
  have r: "d2 = d1\<lparr>wdNodes := wdNodes d1 @ [node]\<rparr>" "pv2 = pv\<lparr>pvAddedNodes := pvAddedNodes pv @ [wnId node]\<rparr>"
    using assms(2) by (auto simp: addNode_def bindE_eq_Inr split: if_splits)
  have "nodesAccounted d d2 pv2"
    by (rule nodesAccounted_step [where as = "[wnId node]" and rs = "[]" and ps = "[]" and ms = "[]" and qs = "[]"])
      (use assms(1) untouched_append [of wnId _ node "wdNodes d1"] in \<open>simp_all add: r accounted_def\<close>)
  then show ?thesis using assms(1) by (auto simp: r accounted_def intro: accounted_same)
qed

lemma removeNode_accounted:
  assumes "accounted d d1 pv" and "removeNode nodeId d1 pv = Inr (d2, pv2)"
  shows "accounted d d2 pv2"
proof -
  let ?gone = "\<lambda>edge. weFrom edge = nodeId \<or> weTo edge = nodeId"
  obtain i where i: "i < length (wdNodes d1)" "wnId (wdNodes d1 ! i) = nodeId"
    and r: "d2 = d1\<lparr>wdNodes := removeAt i (wdNodes d1), wdEdges := filter (\<lambda>edge. \<not> ?gone edge) (wdEdges d1)\<rparr>"
      "pv2 = pv\<lparr>pvRemovedEdges := pvRemovedEdges pv @ map edgeReference (filter ?gone (wdEdges d1)),
        pvRemovedNodes := pvRemovedNodes pv @ [nodeId]\<rparr>"
    using assms(2) by (auto simp: removeNode_def bindE_eq_Inr Let_def dest: findNodeIndex_Inr)
  have u: "untouched wnId f [nodeId] (wdNodes d1) (removeAt i (wdNodes d1))" for f :: "workflow_node \<Rightarrow> 'b"
    using untouched_removeAt [OF i(1), of wnId f] i(2) by simp
  have "nodesAccounted d d2 pv2"
    by (rule nodesAccounted_step [where as = "[]" and rs = "[nodeId]" and ps = "[]" and ms = "[]" and qs = "[]"])
      (use assms(1) mset_removeAt [OF i(1), of wnId] i(2) u in \<open>simp_all add: r accounted_def\<close>)
  moreover have "mset (map edgeReference (filter (\<lambda>e. \<not> ?gone e) es)) + mset (map edgeReference (filter ?gone es))
      = mset (map edgeReference es)" for es
    by (induction es) auto
  then have "edgesAccounted d d2 pv2"
    using untouched_filter [of edgeReference id ?gone "wdEdges d1"] assms(1)
    by (intro edgesAccounted_step [of d d1 pv d2 "map edgeReference (filter ?gone (wdEdges d1))" "[]" _ "[]"])
      (simp_all add: r accounted_def)
  moreover have "restAccounted d d2 pv2" using assms(1) by (simp add: r accounted_def restAccounted_def)
  ultimately show ?thesis by (simp add: accounted_def)
qed

lemma addEdge_accounted:
  assumes "accounted d d1 pv" and "addEdge edge d1 pv = Inr (d2, pv2)"
  shows "accounted d d2 pv2"
proof -
  have r: "d2 = d1\<lparr>wdEdges := wdEdges d1 @ [edge]\<rparr>" "pv2 = pv\<lparr>pvAddedEdges := pvAddedEdges pv @ [edgeReference edge]\<rparr>"
    using assms(2) by (auto simp: addEdge_def bindE_eq_Inr split: if_splits)
  have "edgesAccounted d d2 pv2"
    by (rule edgesAccounted_step [where as = "[edgeReference edge]" and rs = "[]" and cs = "[]"])
      (use assms(1) untouched_append [of edgeReference _ edge "wdEdges d1"] in \<open>simp_all add: r accounted_def\<close>)
  then show ?thesis using assms(1) by (auto simp: r accounted_def intro: accounted_same)
qed

lemma removeEdge_accounted:
  assumes "accounted d d1 pv" and "removeEdge from' to' d1 pv = Inr (d2, pv2)"
  shows "accounted d d2 pv2"
proof -
  obtain i where i: "i < length (wdEdges d1)" "edgeReference (wdEdges d1 ! i) = (from', to')"
    and r: "d2 = d1\<lparr>wdEdges := removeAt i (wdEdges d1)\<rparr>"
      "pv2 = pv\<lparr>pvRemovedEdges := pvRemovedEdges pv @ [edgeReference (wdEdges d1 ! i)]\<rparr>"
    using assms(2) by (auto simp: removeEdge_def bindE_eq_Inr dest: findEdgeIndex_Inr)
  have "edgesAccounted d d2 pv2"
    by (rule edgesAccounted_step [where as = "[]" and rs = "[(from', to')]" and cs = "[]"])
      (use assms(1) mset_removeAt [OF i(1), of edgeReference] untouched_removeAt [OF i(1), of edgeReference id] i(2)
        in \<open>simp_all add: r accounted_def\<close>)
  then show ?thesis using assms(1) by (auto simp: r accounted_def intro: accounted_same)
qed

lemma replaceEdgeCondition_accounted:
  assumes "accounted d d1 pv" and "replaceEdgeCondition from' to' condition d1 pv = Inr (d2, pv2)"
  shows "accounted d d2 pv2"
proof -
  obtain i where i: "i < length (wdEdges d1)" "edgeReference (wdEdges d1 ! i) = (from', to')"
    and r: "d2 = d1\<lparr>wdEdges := (wdEdges d1)[i := (wdEdges d1 ! i)\<lparr>weCondition := map_option trim condition\<rparr>]\<rparr>"
      "pv2 = pv\<lparr>pvChangedEdges := pvChangedEdges pv @ [(from', to')]\<rparr>"
    using assms(2) by (auto simp: replaceEdgeCondition_def bindE_eq_Inr dest: findEdgeIndex_Inr)
  have k: "edgeReference ((wdEdges d1 ! i)\<lparr>weCondition := c\<rparr>) = edgeReference (wdEdges d1 ! i)" for c
    by (simp add: edgeReference_def)
  have "edgesAccounted d d2 pv2"
  proof (rule edgesAccounted_step [where as = "[]" and rs = "[]" and cs = "[(from', to')]"])
    show "mset (map edgeReference (wdEdges d2)) + mset [] = mset (map edgeReference (wdEdges d1)) + mset []"
      using map_update_same [of i "wdEdges d1" edgeReference, OF i(1) k] by (simp add: r)
    show "untouched edgeReference id ([] @ [] @ [(from', to')]) (wdEdges d1) (wdEdges d2)"
      using untouched_update [of i "wdEdges d1" edgeReference _ id "[(from', to')]", OF i(1) k] i(2) by (simp add: r k)
  qed (use assms(1) in \<open>simp_all add: r accounted_def\<close>)
  then show ?thesis using assms(1) by (auto simp: r accounted_def intro: accounted_same)
qed

text \<open>A node replaced by an edited copy.\<close>

lemma setNodeAt_accounted:
  assumes "accounted d d1 pv" and i: "i < length (wdNodes d1)" "wnId (wdNodes d1 ! i) = nodeId" "wnId node = nodeId"
    and pv2: "pv2 = pv\<lparr>pvPromptSourceChanges := pvPromptSourceChanges pv @ pcs, pvModelChanges := pvModelChanges pv @ mcs,
        pvPermissionChanges := pvPermissionChanges pv @ qcs, pvChangedNodes := changed\<rparr>"
    and "promptOf node = promptOf (wdNodes d1 ! i) \<or> nodeId \<in> set (map pscNodeId pcs)"
    and "wnModel node = wnModel (wdNodes d1 ! i) \<or> nodeId \<in> set (map nmcNodeId mcs)"
    and "permissionsOf node = permissionsOf (wdNodes d1 ! i) \<or> nodeId \<in> set (map pmcNodeId qcs)"
    and "nodeCore node = nodeCore (wdNodes d1 ! i)"
  shows "accounted d (setNodeAt i node d1) pv2"
proof -
  have k: "wnId node = wnId (wdNodes d1 ! i)" using i by simp
  note u = untouched_update [of i "wdNodes d1" wnId, OF i(1) k]
  have n: "wdNodes (setNodeAt i node d1) = (wdNodes d1)[i := node]" by (simp add: setNodeAt_def)
  have "nodesAccounted d (setNodeAt i node d1) pv2"
  proof (rule nodesAccounted_step [where as = "[]" and rs = "[]" and ps = "map pscNodeId pcs" and ms = "map nmcNodeId mcs"
        and qs = "map pmcNodeId qcs"])
    show "mset (map wnId (wdNodes (setNodeAt i node d1))) + mset [] = mset (map wnId (wdNodes d1)) + mset []"
      using map_update_same [of i "wdNodes d1" wnId, OF i(1) k] by (simp add: n)
    show "untouched wnId promptOf ([] @ [] @ map pscNodeId pcs) (wdNodes d1) (wdNodes (setNodeAt i node d1))"
      unfolding n by (rule u) (use assms(6) i in simp)
    show "untouched wnId wnModel ([] @ [] @ map nmcNodeId mcs) (wdNodes d1) (wdNodes (setNodeAt i node d1))"
      unfolding n by (rule u) (use assms(7) i in simp)
    show "untouched wnId permissionsOf ([] @ [] @ map pmcNodeId qcs) (wdNodes d1) (wdNodes (setNodeAt i node d1))"
      unfolding n by (rule u) (use assms(8) i in simp)
    show "untouched wnId nodeCore ([] @ []) (wdNodes d1) (wdNodes (setNodeAt i node d1))"
      unfolding n by (rule u) (use assms(9) in simp)
  qed (use assms(1) in \<open>simp_all add: pv2 accounted_def\<close>)
  then show ?thesis using assms(1) by (auto simp: pv2 accounted_def setNodeAt_def intro: accounted_same)
qed

lemma replaceNodePromptSource_accounted:
  assumes "accounted d d1 pv" and "replaceNodePromptSource nodeId source d1 pv = Inr (d2, pv2)"
  shows "accounted d d2 pv2"
proof -
  obtain i where i: "i < length (wdNodes d1)" "wnId (wdNodes d1 ! i) = nodeId"
    and d2: "d2 = setNodeAt i ((wdNodes d1 ! i)\<lparr>wnPromptSource := Some source, wnPrompt := promptTextForSource source\<rparr>) d1"
    and pv2: "pv2 = pv\<lparr>pvPromptSourceChanges := pvPromptSourceChanges pv
        @ [\<lparr>pscNodeId = nodeId, pscBefore = wnPromptSource (wdNodes d1 ! i), pscAfter = source\<rparr>],
        pvChangedNodes := pushUnique (pvChangedNodes pv) nodeId\<rparr>"
    using assms(2) by (auto simp: replaceNodePromptSource_def bindE_eq_Inr Let_def dest!: findNodeIndex_Inr)
  show ?thesis
    unfolding d2 by (rule setNodeAt_accounted [OF assms(1) i, where mcs = "[]" and qcs = "[]"
        and pcs = "[\<lparr>pscNodeId = nodeId, pscBefore = wnPromptSource (wdNodes d1 ! i), pscAfter = source\<rparr>]"])
      (simp_all add: pv2 i permissionsOf_def nodeCore_def)
qed

lemma replaceNodeModel_accounted:
  assumes "accounted d d1 pv" and "replaceNodeModel nodeId model d1 pv = Inr (d2, pv2)"
  shows "accounted d d2 pv2"
proof -
  obtain i where i: "i < length (wdNodes d1)" "wnId (wdNodes d1 ! i) = nodeId"
    and d2: "d2 = setNodeAt i ((wdNodes d1 ! i)\<lparr>wnModel := Some model\<rparr>) d1"
    and pv2: "pv2 = pv\<lparr>pvModelChanges := pvModelChanges pv
        @ [\<lparr>nmcNodeId = nodeId, nmcBefore = wnModel (wdNodes d1 ! i), nmcAfter = Some model\<rparr>],
        pvChangedNodes := pushUnique (pvChangedNodes pv) nodeId\<rparr>"
    using assms(2) by (auto simp: replaceNodeModel_def bindE_eq_Inr Let_def dest!: findNodeIndex_Inr)
  show ?thesis
    unfolding d2 by (rule setNodeAt_accounted [OF assms(1) i, where pcs = "[]" and qcs = "[]"
        and mcs = "[\<lparr>nmcNodeId = nodeId, nmcBefore = wnModel (wdNodes d1 ! i), nmcAfter = Some model\<rparr>]"])
      (simp_all add: pv2 i permissionsOf_def promptOf_def nodeCore_def)
qed

lemma replaceNodePermissions_accounted:
  assumes "accounted d d1 pv" and "replaceNodePermissions nodeId reads writes d1 pv = Inr (d2, pv2)"
  shows "accounted d d2 pv2"
proof -
  obtain i where i: "i < length (wdNodes d1)" "wnId (wdNodes d1 ! i) = nodeId"
    and d2: "d2 = setNodeAt i ((wdNodes d1 ! i)\<lparr>wnReads := reads, wnWrites := writes\<rparr>) d1"
    and pv2: "pv2 = pv\<lparr>pvPermissionChanges := pvPermissionChanges pv
        @ [\<lparr>pmcNodeId = nodeId, pmcBefore = permissionsOf (wdNodes d1 ! i), pmcAfter = \<lparr>npReads = reads, npWrites = writes\<rparr>\<rparr>],
        pvChangedNodes := pushUnique (pvChangedNodes pv) nodeId\<rparr>"
    using assms(2) by (auto simp: replaceNodePermissions_def bindE_eq_Inr Let_def permissionsOf_def dest!: findNodeIndex_Inr)
  show ?thesis
    unfolding d2 by (rule setNodeAt_accounted [OF assms(1) i, where pcs = "[]" and mcs = "[]"
        and qcs = "[\<lparr>pmcNodeId = nodeId, pmcBefore = permissionsOf (wdNodes d1 ! i),
          pmcAfter = \<lparr>npReads = reads, npWrites = writes\<rparr>\<rparr>]"])
      (simp_all add: pv2 i promptOf_def nodeCore_def)
qed

lemma setModelRole_accounted:
  assumes "accounted d d1 pv" and "setModelRole role selector d1 pv = Inr (d2, pv2)"
  shows "accounted d d2 pv2"
proof -
  let ?roles = "wmRoles (wdModels d1)"
  have d2: "d2 = d1\<lparr>wdModels := (wdModels d1)\<lparr>wmRoles := mapSet role selector ?roles\<rparr>\<rparr>"
    and pv2: "pv2 = pv\<lparr>pvModelRoleChanges := pvModelRoleChanges pv
      @ [\<lparr>mrcRole = role, mrcBefore = roleValue ?roles role, mrcAfter = selector\<rparr>]\<rparr>"
    using assms(2) by (auto simp: setModelRole_def bindE_eq_Inr Let_def)
  have "nodesAccounted d d2 pv2"
    by (rule nodesAccounted_same [of d d1 pv]) (use assms(1) in \<open>simp_all add: accounted_def d2 pv2\<close>)
  moreover have "edgesAccounted d d2 pv2"
    by (rule edgesAccounted_same [of d d1 pv]) (use assms(1) in \<open>simp_all add: accounted_def d2 pv2\<close>)
  moreover have "restAccounted d d2 pv2"
    using assms(1) by (simp add: accounted_def restAccounted_def d2 pv2)
  ultimately show ?thesis by (simp add: accounted_def)
qed

lemma applyPatchOperation_accounted:
  "accounted d d1 pv \<Longrightarrow> applyPatchOperation operation d1 pv = Inr (d2, pv2) \<Longrightarrow> accounted d d2 pv2"
  by (cases operation)
    (auto dest: addNode_accounted [rotated] removeNode_accounted [rotated] addEdge_accounted [rotated]
      removeEdge_accounted [rotated] replaceEdgeCondition_accounted [rotated] replaceNodePromptSource_accounted [rotated]
      replaceNodeModel_accounted [rotated] replaceNodePermissions_accounted [rotated] setModelRole_accounted [rotated])

lemma accounted_start: "accounted d d createEmptyPreview"
  by (simp add: accounted_def nodesAccounted_def edgesAccounted_def restAccounted_def createEmptyPreview_def)

lemma applyPatchOperations_accounted:
  assumes "applyPatchOperations d patch = Inr (d', pv)"
  shows "accounted d d' pv"
proof -
  have "foldE (\<lambda>operation (d', preview). applyPatchOperation operation d' preview) patch (d, createEmptyPreview) = Inr (d', pv)"
    using assms by (auto simp: applyPatchOperations_def bindE_eq_Inr)
  then have "(\<lambda>(d', pv). accounted d d' pv) (d', pv)"
    by (rule foldE_invariant) (auto intro: applyPatchOperation_accounted accounted_start)
  then show ?thesis by simp
qed

section \<open>The final check\<close>

definition pointersOnly :: "jstring list option \<Rightarrow> bool" where
  "pointersOnly scopes = (case scopes of None \<Rightarrow> True | Some ss \<Rightarrow> list_all (\<lambda>scope. startsWith scope (js ''/'')) ss)"

definition readableBy :: "jstring list option \<Rightarrow> jstring \<Rightarrow> bool" where
  "readableBy reads path =
     (case reads of
        None \<Rightarrow> True
      | Some scopes \<Rightarrow> list_ex (\<lambda>scope. scope = js ''/'' \<or> path = scope \<or> startsWith path (scope @ js ''/'')) scopes)"

text \<open>The prompt of a node: a source of the right shape that the node may read.\<close>

definition promptReadable :: "workflow_node \<Rightarrow> prompt_source \<Rightarrow> bool" where
  "promptReadable node source =
     (case source of
        PromptState path \<Rightarrow> readableBy (wnReads node) path
      | PromptHuman path \<Rightarrow> readableBy (wnReads node) path
      | PromptOutput from' path selector \<Rightarrow> readableBy (wnReads node) path
      | _ \<Rightarrow> True)"

definition graphNodeOk :: "jstring set \<Rightarrow> workflow_node \<Rightarrow> bool" where
  "graphNodeOk nodeIds node \<longleftrightarrow>
     trim (wnId node) \<noteq> []
     \<and> (case wnModel node of None \<Rightarrow> True | Some model \<Rightarrow> modelOk model \<and> mcCandidates model \<noteq> Some [])
     \<and> pointersOnly (wnReads node) \<and> pointersOnly (wnWrites node)
     \<and> (case wnPromptSource node of None \<Rightarrow> True | Some source \<Rightarrow> promptOk nodeIds source \<and> promptReadable node source)"

definition graphOk :: "workflow_definition \<Rightarrow> bool" where
  "graphOk d \<longleftrightarrow>
     distinct (map wnId (wdNodes d))
     \<and> list_all (graphNodeOk (set (map wnId (wdNodes d)))) (wdNodes d)
     \<and> list_all (edgeOk (set (map wnId (wdNodes d)))) (wdEdges d)"

text \<open>The checks one by one.\<close>

lemma trimEnd_Cons: "\<not> isJsSpace x \<Longrightarrow> \<exists>us. trimEnd (x # t) = x # us"
  by (auto simp: trimEnd_def dropWhile_append) (metis rev_rev_ident)

lemma trim_trim [simp]: "trim (trim s) = trim s"
proof (cases "dropWhile isJsSpace s")
  case Nil
  show ?thesis unfolding trim_def trimStart_def trimEnd_def Nil by simp
next
  case (Cons x t)
  then have x: "\<not> isJsSpace x" using hd_dropWhile [of isJsSpace s] by simp
  from trimEnd_Cons [OF x] obtain us where us: "trimEnd (x # t) = x # us" ..
  have "trim s = x # us" by (simp add: trim_def trimStart_def Cons us)
  moreover have "trimEnd (x # us) = x # us" unfolding us [symmetric] by (simp add: trimEnd_def)
  ultimately show ?thesis using x by (simp add: trim_def trimStart_def)
qed

lemma pointer_not_blank: "startsWith p (js ''/'') \<Longrightarrow> trim p \<noteq> []"
  by (auto simp: startsWith_iff_prefix prefix_def trim_def trimStart_def trimEnd_def isJsSpace_def dropWhile_append)

lemma parse_trim: "parseWorkflowCondition (trim s) = parseWorkflowCondition s"
  by (simp add: parseWorkflowCondition_def Let_def)

lemma probeRead_scope: "probeRead scope (Some [scope]) = Inr () \<longleftrightarrow> startsWith scope (js ''/'')"
  by (auto simp: probeRead_def readWorkflowState_def assertPointerAllowed_def parseJsonPointer_def pointerWithinScope_def
      getStatePath_def noPolicy_def)

lemma someE_pure: "(\<And>x. x \<in> set xs \<Longrightarrow> f x = Inr (g x)) \<Longrightarrow> someE f xs = Inr (list_ex g xs)"
  by (induction xs) auto

lemma probeRead_path:
  assumes "pointersOnly reads"
  shows "probeRead path reads = Inr () \<longleftrightarrow> startsWith path (js ''/'') \<and> readableBy reads path"
proof (cases "startsWith path (js ''/'')")
  case False
  then show ?thesis
    by (simp add: probeRead_def readWorkflowState_def assertPointerAllowed_def parseJsonPointer_def)
next
  case True
  have "someE (pointerWithinScope path) scopes
      = Inr (list_ex (\<lambda>scope. scope = js ''/'' \<or> path = scope \<or> startsWith path (scope @ js ''/'')) scopes)"
    if "reads = Some scopes" for scopes
    by (rule someE_pure)
      (use assms that True in \<open>auto simp: pointersOnly_def list_all_iff pointerWithinScope_def parseJsonPointer_def\<close>)
  with True show ?thesis
    by (auto simp: probeRead_def readWorkflowState_def assertPointerAllowed_def parseJsonPointer_def getStatePath_def noPolicy_def
        readableBy_def split: option.splits)
qed

lemma foldE_checks: "foldE (\<lambda>x _. f x) xs () = Inr () \<longleftrightarrow> (\<forall>x \<in> set xs. f x = Inr ())"
  by (induction xs) (auto simp: bindE_eq_Inr)

lemma validateStateScopes_iff: "validateStateScopes scopes = Inr () \<longleftrightarrow> pointersOnly scopes"
  by (cases scopes) (auto simp: validateStateScopes_def pointersOnly_def foldE_checks probeRead_scope list_all_iff)

lemma validateModelContext_iff:
  "validateModelContext model = Inr () \<longleftrightarrow>
     (case model of None \<Rightarrow> True | Some m \<Rightarrow> modelOk m \<and> mcCandidates m \<noteq> Some [])"
  by (cases model) (simp_all add: validateModelContext_def modelOk_def)

lemma validateEdgeCondition_iff:
  "validateEdgeCondition condition = Inr () \<longleftrightarrow>
     (case condition of None \<Rightarrow> True | Some source \<Rightarrow> \<exists>expression. parseWorkflowCondition source = Inr expression)"
  by (auto simp: validateEdgeCondition_def parse_trim split: option.split sum.split)

lemma validatePatchEdgeReferences_iff:
  "validatePatchEdgeReferences d edge = Inr () \<longleftrightarrow>
     weFrom edge \<in> set (map wnId (wdNodes d)) \<and> weTo edge \<in> set (map wnId (wdNodes d))"
proof -
  have "list_ex (\<lambda>node. wnId node = i) ns \<longleftrightarrow> i \<in> set (map wnId ns)" for i ns
    by (induction ns) auto
  note this [simp]
  show ?thesis by (simp add: validatePatchEdgeReferences_def)
qed

lemma validateJsonPointer_iff: "validateJsonPointer path label = Inr () \<longleftrightarrow> startsWith path (js ''/'')"
  using pointer_not_blank [of path] by (auto simp: validateJsonPointer_def validateNonEmptyString_def)

definition outputKnown :: "jstring set \<Rightarrow> prompt_source option \<Rightarrow> bool" where
  "outputKnown nodeIds source =
     (case source of Some (PromptOutput from' path selector) \<Rightarrow> from' \<in> nodeIds | _ \<Rightarrow> True)"

text \<open>The shape and the references of a prompt source together, when all node ids are visible.\<close>

lemma promptSource_checks_iff:
  assumes "\<forall>i \<in> set ids. trim i \<noteq> []" and "pointersOnly (wnReads node)"
  shows "(validatePromptSourceShape source nodeId = Inr ()
      \<and> outputKnown (set ids) (Some source)
      \<and> validatePromptSourcePermissions (node\<lparr>wnPromptSource := Some source\<rparr>) = Inr ())
    \<longleftrightarrow> promptOk (set ids) source \<and> promptReadable node source"
  using assms(1) probeRead_path [OF assms(2)]
  by (cases source)
    (auto simp: validatePromptSourcePermissions_def promptOk_def promptReadable_def bindE_eq_Inr validateJsonPointer_iff
      validateNonEmptyString_def outputKnown_def)

lemma validateNodeShape_iff:
  "validateNodeShape node = Inr () \<longleftrightarrow>
     trim (wnId node) \<noteq> []
     \<and> (case wnModel node of None \<Rightarrow> True | Some m \<Rightarrow> modelOk m \<and> mcCandidates m \<noteq> Some [])
     \<and> pointersOnly (wnReads node) \<and> pointersOnly (wnWrites node)
     \<and> (case wnPromptSource node of None \<Rightarrow> True | Some source \<Rightarrow> validatePromptSourceShape source (wnId node) = Inr ())"
  by (auto simp: validateNodeShape_def bindE_eq_Inr validateModelContext_iff validateStateScopes_iff split: option.splits)

lemma nodeLoop_iff:
  "(\<exists>ids'. foldE (\<lambda>node nodeIds.
      bindE (validateNodeShape node) (\<lambda>_.
        if wnId node \<in> set nodeIds then Inl (ProducedDuplicateNode (wnId node))
        else Inr (setAdd (wnId node) nodeIds))) nodes ids = Inr ids' \<and> P (set ids'))
   \<longleftrightarrow> (\<forall>node \<in> set nodes. validateNodeShape node = Inr ()) \<and> distinct (map wnId nodes)
      \<and> set (map wnId nodes) \<inter> set ids = {} \<and> P (set ids \<union> set (map wnId nodes))"
proof (induction nodes arbitrary: ids)
  case (Cons node nodes)
  show ?case
    by (cases "validateNodeShape node"; cases "wnId node \<in> set ids") (auto simp: Cons.IH)
qed simp

lemma validatePatchPromptSourceReferences_iff:
  "validatePatchPromptSourceReferences d ids = Inr () \<longleftrightarrow>
     (\<forall>node \<in> set (wdNodes d).
        outputKnown (set ids) (wnPromptSource node)
        \<and> validatePromptSourcePermissions node = Inr ())"
proof -
  have "(case wnPromptSource node of
         Some (PromptOutput source path selector) \<Rightarrow>
           if source \<notin> set ids then Inl (DanglingOutputPrompt (wnId node) source)
           else validatePromptSourcePermissions node
       | _ \<Rightarrow> validatePromptSourcePermissions node) = Inr ()
     \<longleftrightarrow> outputKnown (set ids) (wnPromptSource node) \<and> validatePromptSourcePermissions node = Inr ()" for node
    by (auto simp: outputKnown_def split: option.split prompt_source.split)
  then show ?thesis unfolding validatePatchPromptSourceReferences_def foldE_checks by simp
qed

lemma node_checks_iff:
  assumes "\<forall>i \<in> set ids. trim i \<noteq> []"
  shows "validateNodeShape node = Inr ()
      \<and> outputKnown (set ids) (wnPromptSource node)
      \<and> validatePromptSourcePermissions node = Inr ()
    \<longleftrightarrow> graphNodeOk (set ids) node"
proof (cases "wnPromptSource node")
  case None
  then show ?thesis by (auto simp: validateNodeShape_iff graphNodeOk_def validatePromptSourcePermissions_def outputKnown_def)
next
  case (Some source)
  then have n: "node\<lparr>wnPromptSource := Some source\<rparr> = node" by simp
  show ?thesis
    using promptSource_checks_iff [OF assms, of node source "wnId node", unfolded n] Some
    by (auto simp: validateNodeShape_iff graphNodeOk_def)
qed

text \<open>The final check accepts exactly the well-formed graphs.\<close>

theorem validateDefinitionGraph_iff: "validateDefinitionGraph d = Inr () \<longleftrightarrow> graphOk d"
proof -
  let ?ids = "map wnId (wdNodes d)"
  let ?edges = "foldE (\<lambda>edge _. bindE (validatePatchEdgeReferences d edge) (\<lambda>_. validateEdgeCondition (weCondition edge))) (wdEdges d) ()"
  have edges: "?edges = Inr () \<longleftrightarrow> list_all (edgeOk (set ?ids)) (wdEdges d)"
    by (auto simp: foldE_checks bindE_eq_Inr validatePatchEdgeReferences_iff validateEdgeCondition_iff edgeOk_def list_all_iff)
  have "validateDefinitionGraph d = Inr () \<longleftrightarrow>
      (\<exists>ids'. foldE (\<lambda>node nodeIds.
        bindE (validateNodeShape node) (\<lambda>_.
          if wnId node \<in> set nodeIds then Inl (ProducedDuplicateNode (wnId node))
          else Inr (setAdd (wnId node) nodeIds))) (wdNodes d) [] = Inr ids'
        \<and> (\<forall>node \<in> set (wdNodes d).
            outputKnown (set ids') (wnPromptSource node)
            \<and> validatePromptSourcePermissions node = Inr ())
        \<and> ?edges = Inr ())"
    by (simp add: validateDefinitionGraph_def bindE_eq_Inr validatePatchPromptSourceReferences_iff)
  also have "\<dots> \<longleftrightarrow> (\<forall>node \<in> set (wdNodes d). validateNodeShape node = Inr ()) \<and> distinct ?ids
      \<and> (\<forall>node \<in> set (wdNodes d).
          outputKnown (set ?ids) (wnPromptSource node)
          \<and> validatePromptSourcePermissions node = Inr ())
      \<and> ?edges = Inr ()"
    by (subst nodeLoop_iff) simp
  also have "\<dots> \<longleftrightarrow> graphOk d"
  proof (cases "\<forall>i \<in> set ?ids. trim i \<noteq> []")
    case True
    show ?thesis using node_checks_iff [OF True] edges by (auto simp: graphOk_def list_all_iff)
  next
    case False
    then show ?thesis by (auto simp: graphOk_def list_all_iff graphNodeOk_def validateNodeShape_iff)
  qed
  finally show ?thesis .
qed

text \<open>C35 A graph patch is applied only for a supervisor or a human, and then the new graph is well formed (distinct visible
  node ids, edges between nodes, conditions that parse, one model source, scopes that are pointers, prompts within
  the read scopes of their nodes and about existing nodes) and the preview accounts for the change: the nodes and
  edges that come and go are those it lists, and every field of a node, every edge, model role and setting that it does not
  list is as before, in the old order.\<close>

theorem graph_patch_sound:
  assumes "applyWorkflowGraphPatch d patch actor = Inr (d', pv)"
  shows "actor \<noteq> ActorAgent \<and> graphOk d' \<and> accounted d d' pv"
proof -
  have p: "actor \<noteq> ActorAgent" "applyPatchOperations d patch = Inr (d', pv)"
    using assms by (auto simp: applyWorkflowGraphPatch_def split: if_splits)
  have "validateDefinitionGraph d' = Inr ()"
    using p(2) by (auto simp: applyPatchOperations_def bindE_eq_Inr)
  with p show ?thesis by (simp add: validateDefinitionGraph_iff applyPatchOperations_accounted)
qed

definition beforePatch :: workflow_definition where
  "beforePatch = \<lparr>wdName = js ''w'', wdVersion = NumFin 1, wdSourcePath = None,
     wdModels = \<lparr>wmRoles = [], wmDefaults = [], wmUnavailable = None\<rparr>,
     wdNodes = [plainNode ''a'', plainNode ''b'', plainNode ''c''],
     wdEdges = [\<lparr>weFrom = js ''a'', weTo = js ''b'', weCondition = None\<rparr>, \<lparr>weFrom = js ''b'', weTo = js ''c'', weCondition = None\<rparr>]\<rparr>"

definition graphPatch :: "graph_operation list" where
  "graphPatch = [RemoveNode (js ''b''), AddEdge \<lparr>weFrom = js ''a'', weTo = js ''c'', weCondition = None\<rparr>,
     ReplaceNodePermissions (js ''c'') (Some [js ''/plan'']) (Some [js ''/plan/done'']),
     ReplaceNodePromptSource (js ''c'') (PromptState (js ''/plan/text'')), SetModelRole (js ''fast'') (js ''m'')]"

definition afterPatch :: workflow_definition where
  "afterPatch = beforePatch\<lparr>
     wdModels := \<lparr>wmRoles = [(js ''fast'', js ''m'')], wmDefaults = [], wmUnavailable = None\<rparr>,
     wdNodes := [plainNode ''a'', (plainNode ''c'')\<lparr>wnPromptSource := Some (PromptState (js ''/plan/text'')),
       wnReads := Some [js ''/plan''], wnWrites := Some [js ''/plan/done'']\<rparr>],
     wdEdges := [\<lparr>weFrom = js ''a'', weTo = js ''c'', weCondition = None\<rparr>]\<rparr>"

lemma afterPatch_ok: "validateDefinitionGraph afterPatch = Inr ()"
  by (simp add: validateDefinitionGraph_iff afterPatch_def beforePatch_def plainNode_def graphOk_def graphNodeOk_def
      edgeOk_def pointersOnly_def promptOk_def promptReadable_def readableBy_def startsWith_def trim_def trimStart_def
      trimEnd_def isJsSpace_def)

lemma graphPatch_applies:
  "\<exists>pv. applyWorkflowGraphPatch beforePatch graphPatch ActorHuman = Inr (afterPatch, pv)
     \<and> pvRemovedNodes pv = [js ''b''] \<and> pvRemovedEdges pv = [(js ''a'', js ''b''), (js ''b'', js ''c'')]
     \<and> map pmcNodeId (pvPermissionChanges pv) = [js ''c'']"
proof -
  have scopes: "validateStateScopes (Some [js ''/plan'']) = Inr ()" "validateStateScopes (Some [js ''/plan/done'']) = Inr ()"
    "validateJsonPointer (js ''/plan/text'') label = Inr ()" for label
    by (simp_all add: validateStateScopes_iff validateJsonPointer_iff pointersOnly_def startsWith_def)
  note scopes [simplified, simp]
  have "\<exists>pv. foldE (\<lambda>operation (d', preview). applyPatchOperation operation d' preview) graphPatch
        (beforePatch, createEmptyPreview) = Inr (afterPatch, pv)
     \<and> pvRemovedNodes pv = [js ''b''] \<and> pvRemovedEdges pv = [(js ''a'', js ''b''), (js ''b'', js ''c'')]
     \<and> map pmcNodeId (pvPermissionChanges pv) = [js ''c'']"
    by (simp add: graphPatch_def beforePatch_def afterPatch_def plainNode_def removeNode_def findNodeIndex_def
        removeAt_def Let_def edgeReference_def createEmptyPreview_def addEdge_def validatePatchEdgeReferences_def
        validateEdgeCondition_def replaceNodePermissions_def setNodeAt_def replaceNodePromptSource_def setModelRole_def
        validateNonEmptyString_def trim_def trimStart_def trimEnd_def isJsSpace_def)
  then show ?thesis
    by (auto simp: applyWorkflowGraphPatch_def applyPatchOperations_def afterPatch_ok)
qed

lemma graph_patch_sound_witness: "graphOk afterPatch \<and> afterPatch \<noteq> beforePatch"
proof -
  obtain pv where "applyWorkflowGraphPatch beforePatch graphPatch ActorHuman = Inr (afterPatch, pv)"
    using graphPatch_applies by blast
  from graph_patch_sound [OF this] show ?thesis by (simp add: afterPatch_def beforePatch_def)
qed

end
