(* ===== verification/Wf_Run_Facts.thy ===== *)
theory Wf_Run_Facts
  imports Wf_Run_Store Wf_Patches_Facts
begin

text \<open>
  The log of a run and the snapshot in memory: reading the log back gives the graph part of the snapshot, and the state
  and the activations that the events describe. Graph patches of the run and entries of others keep the agreement.
\<close>

lemma reconstructRuns_snoc: "reconstructRuns (entries @ [e]) = bindE (reconstructRuns entries) (replayEntry e)"
proof -
  have "foldE replayEntry [e] = replayEntry e"
  proof
    fix runs
    show "foldE replayEntry [e] runs = replayEntry e runs" by (cases "replayEntry e runs") simp_all
  qed
  then show ?thesis by (simp only: reconstructRuns_def foldE_append)
qed

text \<open>The log is readable, and run \<open>i\<close> reads back as the snapshot with this state and these activations.\<close>

definition logged :: "jstring \<Rightarrow> 'z run_world_scheme \<Rightarrow> js_obj \<Rightarrow> activation_record list \<Rightarrow> bool" where
  "logged i w state records \<longleftrightarrow>
     rsId (rwRun w) = i
     \<and> (\<exists>runs. reconstructRuns (rwLog w) = Inr runs
          \<and> mapGet runs i = Some ((rwRun w)\<lparr>rsState := state, rsActivations := records\<rparr>))"

lemma logged_id: "logged i w state records \<Longrightarrow> rsId (rwRun w) = i"
  by (simp add: logged_def)

lemma logged_cong: "rwLog w' = rwLog w \<Longrightarrow> rwRun w' = rwRun w \<Longrightarrow> logged i w' state records \<longleftrightarrow> logged i w state records"
  by (simp add: logged_def)

text \<open>An event of the run itself.\<close>

lemma replayEntry_event:
  assumes "eventRunId event = i" and "mapGet runs i = Some run"
    and "replayOnRun event run = Inr run'" and "rsId run = i"
  shows "\<exists>runs'. replayEntry (RunEventEntry event) runs = Inr runs' \<and> mapGet runs' i = Some run'"
  using assms by (cases event) (auto simp: replayEntry_def)

lemma logged_event:
  assumes "logged i w state records" and "eventRunId event = i"
    and "replayOnRun event ((rwRun w)\<lparr>rsState := state, rsActivations := records\<rparr>)
      = Inr (run'\<lparr>rsState := state', rsActivations := records'\<rparr>)"
    and "rwLog w' = appendEvent event (rwLog w)" and "rwRun w' = run'" and "rsId run' = i"
  shows "logged i w' state' records'"
proof -
  obtain runs where runs: "reconstructRuns (rwLog w) = Inr runs"
    "mapGet runs i = Some ((rwRun w)\<lparr>rsState := state, rsActivations := records\<rparr>)" and "rsId (rwRun w) = i"
    using assms(1) by (auto simp: logged_def)
  then obtain runs' where "replayEntry (RunEventEntry event) runs = Inr runs'"
    "mapGet runs' i = Some (run'\<lparr>rsState := state', rsActivations := records'\<rparr>)"
    using replayEntry_event [OF assms(2) runs(2) assms(3)] by auto
  then show ?thesis
    using assms(4-6) runs(1) by (simp add: logged_def appendEvent_def reconstructRuns_snoc)
qed

text \<open>What an activation adds.\<close>

definition startedRecord :: "jstring \<Rightarrow> jstring \<Rightarrow> jstring \<Rightarrow> jstring list \<Rightarrow> activation_input option \<Rightarrow> activation_record" where
  "startedRecord activationId nodeId revisionId parents input =
     \<lparr>arId = activationId, arNodeId = nodeId, arRevision = revisionId, arParents = parents, arStatus = RecRunning,
      arInput = input, arOutput = None, arAudit = None, arError = None\<rparr>"

lemma logged_started:
  assumes "logged i w state records"
    and "rwLog w' = appendWorkflowActivationStarted i activationId nodeId revisionId parents input (rwLog w)" and "rwRun w' = rwRun w"
  shows "logged i w' state (records @ [startedRecord activationId nodeId revisionId parents input])"
  by (rule logged_event [OF assms(1), where run' = "rwRun w"])
    (use assms logged_id [OF assms(1)] in \<open>simp_all add: appendWorkflowActivationStarted_def startedRecord_def\<close>)

lemma updateRecord_last:
  "activationId \<notin> set (map arId records) \<Longrightarrow> arId r = activationId \<Longrightarrow>
   updateRecord activationId f (records @ [r]) = records @ [f r]"
  by (induction records) auto

lemma logged_failed:
  assumes "logged i w state (records @ [r])" and "arId r = activationId" and "activationId \<notin> set (map arId records)"
    and "rwLog w' = appendWorkflowActivationFailed i activationId message (rwLog w)" and "rwRun w' = rwRun w"
  shows "logged i w' state (records @ [r\<lparr>arStatus := RecFailed, arError := Some message\<rparr>])"
  by (rule logged_event [OF assms(1), where run' = "rwRun w"])
    (use assms logged_id [OF assms(1)] in \<open>simp_all add: appendWorkflowActivationFailed_def updateRecord_last\<close>)

lemma logged_completed:
  assumes "logged i w state (records @ [r])" and "arId r = activationId" and "activationId \<notin> set (map arId records)"
    and "rwLog w' = appendWorkflowActivationCompleted i activationId (Some out) audit (rwLog w)" and "rwRun w' = rwRun w"
  shows "logged i w' state (records @ [r\<lparr>arStatus := RecCompleted, arOutput := Some out,
      arAudit := (if audit \<noteq> None then audit else arAudit r), arError := None\<rparr>])"
  by (rule logged_event [OF assms(1), where run' = "rwRun w"])
    (use assms logged_id [OF assms(1)] in \<open>simp_all add: appendWorkflowActivationCompleted_def updateRecord_last\<close>)

lemma logged_state_patch:
  assumes "logged i w state records" and "applyWorkflowStatePatch patch noPolicy state = (Inr (), state')"
    and "rwLog w' = appendWorkflowStatePatch i patch reason (rwLog w)" and "rwRun w' = rwRun w"
  shows "logged i w' state' records"
  by (rule logged_event [OF assms(1), where run' = "rwRun w"])
    (use assms logged_id [OF assms(1)] in \<open>simp_all add: appendWorkflowStatePatch_def\<close>)

section \<open>What may happen to a run from outside\<close>

text \<open>
  A host that runs a node may append entries of its own and change what it keeps; it changes the run only through the
  functions of patches.ts, and leaves the log readable.
\<close>

inductive hostActs :: "'z run_world_scheme \<Rightarrow> 'z run_world_scheme \<Rightarrow> bool" where
  acts_none: "hostActs w w"
| acts_entry: "hostActs w w1 \<Longrightarrow> (case workflowEventFromEntry e of None \<Rightarrow> True | Some event \<Rightarrow> eventRunId event \<noteq> rsId (rwRun w1))
    \<Longrightarrow> reconstructRuns (rwLog w1 @ [e]) = Inr runs \<Longrightarrow> hostActs w (w1\<lparr>rwLog := rwLog w1 @ [e]\<rparr>)"
| acts_own: "hostActs w w1 \<Longrightarrow> rwLog w2 = rwLog w1 \<Longrightarrow> rwRun w2 = rwRun w1 \<Longrightarrow> hostActs w w2"
| acts_propose: "hostActs w w1 \<Longrightarrow> hostActs w (snd (proposeWorkflowGraphPatchToRun patch context w1))"
| acts_apply: "hostActs w w1 \<Longrightarrow> hostActs w (snd (applyWorkflowGraphPatchToRun patch context' w1))"

lemma logged_other_entry:
  assumes "logged i w state records"
    and "case workflowEventFromEntry e of None \<Rightarrow> True | Some event \<Rightarrow> eventRunId event \<noteq> i"
    and "reconstructRuns (rwLog w @ [e]) = Inr runs'"
  shows "logged i (w\<lparr>rwLog := rwLog w @ [e]\<rparr>) state records"
proof -
  obtain runs where runs: "reconstructRuns (rwLog w) = Inr runs"
    "mapGet runs i = Some ((rwRun w)\<lparr>rsState := state, rsActivations := records\<rparr>)" "rsId (rwRun w) = i"
    using assms(1) by (auto simp: logged_def)
  have "replayEntry e runs = Inr runs'" using assms(3) by (simp add: reconstructRuns_snoc runs(1))
  then have "mapGet runs' i = mapGet runs i"
    using assms(2) by (auto simp: replayEntry_def bindE_eq_Inr split: option.splits run_event.splits)
  with runs assms(3) show ?thesis by (simp add: logged_def)
qed

lemma logged_propose:
  assumes "logged i w state records"
  shows "logged i (snd (proposeWorkflowGraphPatchToRun patch context w)) state records"
proof (cases "proposeWorkflowGraphPatch (rsDefinition (rwRun w)) patch context")
  case (Inl e)
  then show ?thesis using assms by (simp add: proposeWorkflowGraphPatchToRun_def)
next
  case (Inr proposal)
  let ?entry = "\<lparr>prId = gpId proposal, prActor = pcActor context, prPatch = patch, prPreview = gpPreview proposal,
    prReason = pcReason context\<rparr>"
  show ?thesis
    by (rule logged_event [OF assms, where event = "GraphPatchProposed i ?entry"
          and run' = "(rwRun w)\<lparr>rsProposals := rsProposals (rwRun w) @ [?entry]\<rparr>"])
      (use logged_id [OF assms] Inr in \<open>simp_all add: proposeWorkflowGraphPatchToRun_def Let_def appendWorkflowGraphPatchProposed_def\<close>)
qed

lemma logged_apply:
  assumes "logged i w state records"
  shows "logged i (snd (applyWorkflowGraphPatchToRun patch context w)) state records"
proof (cases "applyWorkflowGraphPatch (rsDefinition (rwRun w)) patch (rcActor context)")
  case (Inl e)
  then show ?thesis using assms by (simp add: applyWorkflowGraphPatchToRun_def)
next
  case (Inr r)
  obtain d preview where r: "r = (d, preview)" by fastforce
  let ?run = "rwRun w"
  let ?revision = "\<lparr>grId = rcRevisionId context, grParent = Some (rsCurrentRevision ?run), grDefinition = d, grReason = rcReason context\<rparr>"
  let ?applied = "\<lparr>apProposalId = rcProposalId context, apActor = rcActor context, apPatch = patch, apPreview = preview,
    apRevision = rcRevisionId context, apParentRevision = Some (rsCurrentRevision ?run), apReason = rcReason context\<rparr>"
  let ?run1 = "?run\<lparr>rsCurrentRevision := rcRevisionId context, rsDefinition := d, rsRevisions := rsRevisions ?run @ [?revision]\<rparr>"
  let ?w1 = "w\<lparr>rwLog := appendEvent (GraphRevisionCreated i ?revision) (rwLog w), rwRun := ?run1\<rparr>"
  have id: "rsId ?run = i" by (rule logged_id [OF assms])
  have "logged i ?w1 state records"
    by (rule logged_event [OF assms, where event = "GraphRevisionCreated i ?revision" and run' = ?run1]) (simp_all add: id)
  then show ?thesis
    by (rule logged_event [where event = "GraphPatchApplied i ?applied" and run' = "?run1\<lparr>rsApplied := rsApplied ?run @ [?applied]\<rparr>"])
      (use Inr id in \<open>simp_all add: r applyWorkflowGraphPatchToRun_def appendWorkflowGraphRevision_def
        appendWorkflowGraphPatchApplied_def Let_def\<close>)
qed

lemma hostActs_logged: "hostActs w w' \<Longrightarrow> logged i w state records \<Longrightarrow> logged i w' state records"
proof (induction rule: hostActs.induct)
  case (acts_entry w w1 e runs)
  then have l: "logged i w1 state records" by simp
  show ?case
    by (rule logged_other_entry [OF l _ acts_entry.hyps(3)]) (rule acts_entry.hyps(2) [unfolded logged_id [OF l]])
next
  case (acts_own w w1 w2)
  then show ?case by (simp add: logged_cong [of w2 w1])
qed (simp_all add: logged_propose logged_apply)

end
