(* ===== verification/Wf_Scheduler_Facts.thy ===== *)
theory Wf_Scheduler_Facts
  imports Wf_Scheduler Wf_State_Facts
begin

text \<open>
  The scheduler loop: one activation per iteration, in the order of creation; each activation after the first is
  justified by an edge and completed parents; the shared state changes only inside the write scopes of the nodes.
\<close>

section \<open>One iteration\<close>

fun outcome :: "'w iteration \<Rightarrow> 'w scheduler" where
  "outcome (Next sc) = sc"
| "outcome (Finish sc) = sc"
| "outcome (Threw e sc) = sc"

fun ended :: "'w iteration \<Rightarrow> bool" where
  "ended (Next sc) = False"
| "ended _ = True"

definition activationId :: "nat \<Rightarrow> jstring" where
  "activationId k = js ''activation-'' @ natToString k"

lemma activationId_inj: "activationId i = activationId j \<longleftrightarrow> i = j"
  unfolding activationId_def by (metis append_same_eq digitsValue_natToString same_append_eq)

lemma runNode_frame:
  assumes "runNode hooks a node sc = (r, sc1)"
  shows "scActivations sc1 = scActivations sc" "scCompleted sc1 = scCompleted sc" "scQueue sc1 = scQueue sc"
    "scNextId sc1 = scNextId sc" "scOutputs sc1 = scOutputs sc" "scLimitReached sc1 = scLimitReached sc"
  using assms by (auto simp: runNode_def Let_def split: prod.splits sum.splits option.splits)

text \<open>Following edges only extends the queue, with fresh ids.\<close>

definition completedAs :: "activation list \<Rightarrow> jstring \<Rightarrow> jstring \<Rightarrow> bool" where
  "completedAs acts parent nodeId \<longleftrightarrow> (\<exists>b \<in> set acts. acId b = parent \<and> acNodeId b = nodeId \<and> acStatus b = Completed)"

text \<open>An edge leads to the activation, whose parents have completed: the node of the edge, or all the nodes waited for.\<close>

definition justified :: "workflow_definition \<Rightarrow> activation list \<Rightarrow> activation \<Rightarrow> bool" where
  "justified d acts a \<longleftrightarrow>
     (\<exists>edge \<in> set (wdEdges d). weTo edge = acNodeId a
        \<and> (case findNode d (weTo edge) of
             Some target \<Rightarrow>
               (case wnWaitFor target of
                  Some (w # ws) \<Rightarrow> list_all2 (completedAs acts) (acParents a) (w # ws)
                | _ \<Rightarrow> \<exists>p. acParents a = [p] \<and> completedAs acts p (weFrom edge))
           | None \<Rightarrow> \<exists>p. acParents a = [p] \<and> completedAs acts p (weFrom edge)))"

definition completedOk :: "activation list \<Rightarrow> (jstring, jstring list) jsmap \<Rightarrow> bool" where
  "completedOk acts m \<longleftrightarrow> (\<forall>nodeId ids p. mapGet m nodeId = Some ids \<longrightarrow> p \<in> set ids \<longrightarrow> completedAs acts p nodeId)"

lemma collectJoinParentIds_Some:
  "completedOk acts m \<Longrightarrow> collectJoinParentIds ws m = Some ps \<Longrightarrow> list_all2 (completedAs acts) ps ws"
proof (induction ws arbitrary: ps)
  case (Cons w ws)
  then obtain ids ps' where "mapGet m w = Some ids" "ids \<noteq> []" "collectJoinParentIds ws m = Some ps'" "ps = last ids # ps'"
    by (auto split: option.splits list.splits)
  with Cons show ?case by (auto simp: completedOk_def)
qed simp

lemma followEdge_shape:
  assumes "followEdge hooks d aid edge sc = Inr sc'" and "edge \<in> set (wdEdges d)"
    and "completedAs (scActivations sc) aid (weFrom edge)" and "completedOk (scActivations sc) (scCompleted sc)"
  shows "\<exists>new. scQueue sc' = scQueue sc @ new \<and> map acId new = map activationId [scNextId sc ..< scNextId sc']
    \<and> scNextId sc \<le> scNextId sc' \<and> list_all (justified d (scActivations sc)) new
    \<and> scActivations sc' = scActivations sc \<and> scCompleted sc' = scCompleted sc \<and> scState sc' = scState sc"
proof -
  have create: "\<exists>new. scQueue t = scQueue sc @ new \<and> map acId new = map activationId [scNextId sc ..< scNextId t]
    \<and> scNextId sc \<le> scNextId t \<and> list_all (justified d (scActivations sc)) new
    \<and> scActivations t = scActivations sc \<and> scCompleted t = scCompleted sc \<and> scState t = scState sc"
    if "t = createNextActivation hooks (weTo edge) ps (sc\<lparr>scJoinKeys := ks\<rparr>)"
      and "\<And>r. justified d (scActivations sc) \<lparr>acId = activationId (scNextId sc), acNodeId = weTo edge, acRevision = r,
        acStatus = Queued, acParents = ps, acOutput = None, acError = None\<rparr>" for t ps ks
    using that by (simp add: createNextActivation_def activationId_def)
  have plain: "sc = sc\<lparr>scJoinKeys := scJoinKeys sc\<rparr>" by simp
  consider "sc' = sc" | "sc' = createNextActivation hooks (weTo edge) [aid] sc"
      "\<forall>target w ws. findNode d (weTo edge) = Some target \<longrightarrow> wnWaitFor target \<noteq> Some (w # ws)"
    | target w ws ps ks where "findNode d (weTo edge) = Some target" "wnWaitFor target = Some (w # ws)"
      "collectJoinParentIds (w # ws) (scCompleted sc) = Some ps"
      "sc' = createNextActivation hooks (weTo edge) ps (sc\<lparr>scJoinKeys := ks\<rparr>)"
  proof (cases "sc' = sc")
    case False
    note e = assms(1) [unfolded followEdge_def bindE_eq_Inr]
    show ?thesis
    proof (cases "findNode d (weTo edge)")
      case None
      then show ?thesis using e False that(2) by (auto split: if_splits)
    next
      case (Some target)
      show ?thesis
      proof (cases "wnWaitFor target")
        case None
        then show ?thesis using e False that(2) Some by (auto split: if_splits)
      next
        case (Some waits)
        note target = \<open>findNode d (weTo edge) = Some target\<close>
        show ?thesis
        proof (cases waits)
          case Nil
          then show ?thesis using e False that(2) Some target by (auto split: if_splits)
        next
          case (Cons w ws)
          with e False Some target obtain ps where ps: "collectJoinParentIds (w # ws) (scCompleted sc) = Some ps"
            by (cases "collectJoinParentIds (w # ws) (scCompleted sc)") (auto split: if_splits)
          have "\<exists>ks. sc' = createNextActivation hooks (weTo edge) ps (sc\<lparr>scJoinKeys := ks\<rparr>)"
            using e False Some target Cons by (auto simp: ps Let_def simp del: collectJoinParentIds.simps split: if_splits)
          then show ?thesis using that(3) Some target Cons ps by blast
        qed
      qed
    qed
  qed (use that in blast)
  then show ?thesis
  proof cases
    case 2
    from 2(1) have "sc' = createNextActivation hooks (weTo edge) [aid] (sc\<lparr>scJoinKeys := scJoinKeys sc\<rparr>)" by simp
    then show ?thesis
      by (rule create) (use assms(2,3) 2(2) in \<open>auto simp: justified_def split: option.splits list.splits intro!: bexI [of _ edge]\<close>)
  next
    case 3
    have "list_all2 (completedAs (scActivations sc)) ps (w # ws)"
      by (rule collectJoinParentIds_Some [OF assms(4) 3(3)])
    then show ?thesis using 3 assms(2) by (intro create [OF 3(4)]) (auto simp: justified_def intro!: bexI [of _ edge])
  qed (intro exI [of _ "[]"], simp)
qed

lemma followEdges_shape:
  assumes "foldE (followEdge hooks d aid) edges sc = Inr sc'" and "set edges \<subseteq> set (wdEdges d)"
    and "\<forall>edge \<in> set edges. completedAs (scActivations sc) aid (weFrom edge)" and "completedOk (scActivations sc) (scCompleted sc)"
  shows "\<exists>new. scQueue sc' = scQueue sc @ new \<and> map acId new = map activationId [scNextId sc ..< scNextId sc']
    \<and> scNextId sc \<le> scNextId sc' \<and> list_all (justified d (scActivations sc)) new
    \<and> scActivations sc' = scActivations sc \<and> scCompleted sc' = scCompleted sc \<and> scState sc' = scState sc"
  using assms
proof (induction edges arbitrary: sc)
  case (Cons edge edges)
  then obtain t where t: "followEdge hooks d aid edge sc = Inr t" "foldE (followEdge hooks d aid) edges t = Inr sc'"
    by (auto simp: bindE_eq_Inr)
  obtain new where new: "scQueue t = scQueue sc @ new" "map acId new = map activationId [scNextId sc ..< scNextId t]"
    "scNextId sc \<le> scNextId t" "list_all (justified d (scActivations sc)) new"
    "scActivations t = scActivations sc" "scCompleted t = scCompleted sc" "scState t = scState sc"
    using followEdge_shape [OF t(1)] Cons.prems by auto
  obtain new' where new': "scQueue sc' = scQueue t @ new'" "map acId new' = map activationId [scNextId t ..< scNextId sc']"
    "scNextId t \<le> scNextId sc'" "list_all (justified d (scActivations t)) new'"
    "scActivations sc' = scActivations t" "scCompleted sc' = scCompleted t" "scState sc' = scState t"
    using Cons.IH [OF t(2)] Cons.prems new(5,6) by auto
  have "[scNextId sc ..< scNextId sc'] = [scNextId sc ..< scNextId t] @ [scNextId t ..< scNextId sc']"
    using new(3) new'(3) by (metis le_add_diff_inverse upt_add_eq_append)
  then show ?case using new new' by (intro exI [of _ "new @ new'"]) simp
qed (intro exI [of _ "[]"], simp)

lemma completedAs_mono: "completedAs acts p n \<Longrightarrow> set acts \<subseteq> set acts' \<Longrightarrow> completedAs acts' p n"
  by (auto simp: completedAs_def)

lemma completedOk_mono: "completedOk acts m \<Longrightarrow> set acts \<subseteq> set acts' \<Longrightarrow> completedOk acts' m"
  by (auto simp: completedOk_def intro: completedAs_mono)

lemma justified_mono: "justified d acts a \<Longrightarrow> set acts \<subseteq> set acts' \<Longrightarrow> justified d acts' a"
  unfolding justified_def
  by (elim bexE, rule bexI) (auto split: option.splits list.splits intro: completedAs_mono list_all2_mono)

lemma completedOk_record:
  assumes ok: "completedOk acts m" and a: "acId a = p" "acNodeId a = n" "acStatus a = Completed"
  shows "completedOk (acts @ [a]) (mapSet n ((case mapGet m n of None \<Rightarrow> [] | Some ids \<Rightarrow> ids) @ [p]) m)"
  unfolding completedOk_def
proof (intro allI impI)
  fix nodeId ids q
  assume get: "mapGet (mapSet n ((case mapGet m n of None \<Rightarrow> [] | Some ids \<Rightarrow> ids) @ [p]) m) nodeId = Some ids" and q: "q \<in> set ids"
  have new: "completedAs (acts @ [a]) p n" using a by (auto simp: completedAs_def)
  have old: "mapGet m k = Some rs \<Longrightarrow> r \<in> set rs \<Longrightarrow> completedAs (acts @ [a]) r k" for k rs r
    using completedOk_mono [OF ok, of "acts @ [a]"] by (auto simp: completedOk_def)
  show "completedAs (acts @ [a]) q nodeId"
    using get q new old by (cases "nodeId = n") (auto split: option.splits)
qed

text \<open>Two activations that are one up to their outcome.\<close>

definition sameActivation :: "activation \<Rightarrow> activation \<Rightarrow> bool" where
  "sameActivation a b \<longleftrightarrow> acId a = acId b \<and> acNodeId a = acNodeId b \<and> acParents a = acParents b"

definition stepAdds :: "workflow_definition \<Rightarrow> 'w scheduler \<Rightarrow> 'w iteration \<Rightarrow> bool" where
  "stepAdds d sc it \<longleftrightarrow>
     (\<exists>x q x'. scQueue sc = x # q \<and> scActivations (outcome it) = scActivations sc @ [x'] \<and> sameActivation x x'
        \<and> acStatus x' \<in> {Completed, Failed}
        \<and> (\<not> ended it \<longrightarrow>
            (\<exists>new. scQueue (outcome it) = q @ new
               \<and> map acId new = map activationId [scNextId sc ..< scNextId (outcome it)] \<and> scNextId sc \<le> scNextId (outcome it)
               \<and> list_all (justified d (scActivations (outcome it))) new
               \<and> completedOk (scActivations (outcome it)) (scCompleted (outcome it)))))"

lemma stepAdds_fail:
  assumes "scQueue sc = x # q" and "scActivations sc' = scActivations sc @ [x']" and "sameActivation x x'"
    and "acStatus x' = Failed" and "scQueue sc' = q" and "scNextId sc' = scNextId sc" and "scCompleted sc' = scCompleted sc"
    and "completedOk (scActivations sc) (scCompleted sc)" and "outcome it = sc'"
  shows "stepAdds d sc it"
  unfolding stepAdds_def
  using assms completedOk_mono [OF assms(8), of "scActivations sc @ [x']"] by (auto intro!: exI [of _ "[]"])

lemma step_shape:
  assumes defs: "\<And>w. hkDefinition hooks w = d" and ok: "completedOk (scActivations sc) (scCompleted sc)"
    and it: "schedulerStep hooks limits sc = it"
  shows "ended it \<and> scActivations (outcome it) = scActivations sc
    \<or> stepAdds d sc it \<and> belowLimit (length (scActivations sc)) (slMaxActivations limits)"
proof (cases "scQueue sc")
  case Nil
  then show ?thesis using it by (auto simp: schedulerStep_def)
next
  case (Cons x q)
  let ?sc0 = "sc\<lparr>scQueue := q\<rparr>" and ?reason = "workflowAbortReason (hkAbort hooks (scWorld sc))"
  let ?running = "x\<lparr>acStatus := Running\<rparr>"
  show ?thesis
  proof (cases "belowLimit (length (scActivations sc)) (slMaxActivations limits)")
    case False
    then show ?thesis using it Cons by (auto simp: schedulerStep_def)
  next
    case below: True
    show ?thesis
    proof (cases "?reason \<noteq> None \<and> ?reason \<noteq> Some []")
      case True
      then have "it = Finish (pushActivation (x\<lparr>acStatus := Failed, acError := Some (Aborted (the ?reason))\<rparr>) ?sc0)"
        using it Cons below by (auto simp: schedulerStep_def)
      then show ?thesis using below Cons ok
        by (intro disjI2 conjI stepAdds_fail [OF Cons,
              where x' = "x\<lparr>acStatus := Failed, acError := Some (Aborted (the ?reason))\<rparr>"])
            (auto simp: pushActivation_def sameActivation_def)
    next
      case noabort: False
      show ?thesis
      proof (cases "belowLimit (countNodeActivations (scActivations sc) (acNodeId x)) (slMaxNodeActivations limits)")
        case False
        then show ?thesis using it Cons below noabort by (auto simp: schedulerStep_def Let_def)
      next
        case nodeBelow: True
        show ?thesis
        proof (cases "findNode d (acNodeId x)")
          case None
          then have "it = Next (pushActivation (x\<lparr>acStatus := Failed, acError := Some (UnknownNode (acNodeId x))\<rparr>) ?sc0)"
            using it Cons below noabort nodeBelow defs by (auto simp: schedulerStep_def Let_def)
          then show ?thesis using below Cons ok
            by (intro disjI2 conjI stepAdds_fail [OF Cons,
                where x' = "x\<lparr>acStatus := Failed, acError := Some (UnknownNode (acNodeId x))\<rparr>"])
              (auto simp: pushActivation_def sameActivation_def)
        next
          case (Some node)
          obtain r sc1 where run: "runNode hooks ?running node (pushActivation ?running ?sc0) = (r, sc1)" by fastforce
          note frame = runNode_frame [OF run]
          have acts1: "scActivations sc1 = scActivations sc @ [?running]" using frame(1) by (simp add: pushActivation_def)
          have step: "it = (case r of
              Inl (e, output) \<Rightarrow> Next (finishActivation (?running\<lparr>acStatus := Failed, acOutput := output, acError := Some e\<rparr>) sc1)
            | Inr output \<Rightarrow>
                (case foldE (followEdge hooks d (acId x)) (filter (\<lambda>edge. weFrom edge = acNodeId x) (wdEdges d))
                    (recordCompletion ?running output sc1) of
                  Inl e \<Rightarrow> Threw e (recordCompletion ?running output sc1)
                | Inr sc3 \<Rightarrow> Next sc3))"
            using it Cons below noabort nodeBelow Some defs run by (auto simp: schedulerStep_def Let_def split: sum.split)
          show ?thesis
          proof (cases r)
            case (Inl eo)
            obtain e res where eo: "eo = (e, res)" by fastforce
            have "outcome it = finishActivation (?running\<lparr>acStatus := Failed, acOutput := res, acError := Some e\<rparr>) sc1"
              using step Inl eo by simp
            then show ?thesis using below Cons ok frame acts1
              by (intro disjI2 conjI stepAdds_fail [OF Cons,
                  where x' = "?running\<lparr>acStatus := Failed, acOutput := res, acError := Some e\<rparr>"])
                (auto simp: finishActivation_def pushActivation_def sameActivation_def)
          next
            case (Inr res)
            let ?done = "?running\<lparr>acStatus := Completed, acOutput := Some res\<rparr>"
            let ?sc2 = "recordCompletion ?running res sc1"
            have acts2: "scActivations ?sc2 = scActivations sc @ [?done]"
              by (simp add: recordCompletion_def finishActivation_def acts1)
            have queue2: "scQueue ?sc2 = q" "scNextId ?sc2 = scNextId sc"
              using frame by (simp_all add: recordCompletion_def finishActivation_def pushActivation_def)
            have "completedOk (scActivations sc @ [?done]) (mapSet (acNodeId x)
                ((case mapGet (scCompleted sc) (acNodeId x) of None \<Rightarrow> [] | Some ids \<Rightarrow> ids) @ [acId x]) (scCompleted sc))"
              by (rule completedOk_record [OF ok]) simp_all
            then have ok2: "completedOk (scActivations ?sc2) (scCompleted ?sc2)"
              using frame(2) unfolding acts2 by (simp add: recordCompletion_def finishActivation_def pushActivation_def)
            show ?thesis
            proof (cases "foldE (followEdge hooks d (acId x)) (filter (\<lambda>edge. weFrom edge = acNodeId x) (wdEdges d)) ?sc2")
              case (Inl e)
              then have "it = Threw e ?sc2" using step Inr by simp
              then show ?thesis using below Cons acts2 by (auto simp: stepAdds_def sameActivation_def)
            next
              case (Inr sc3)
              then have it3: "it = Next sc3" using step \<open>r = Inr res\<close> by simp
              have "\<forall>edge \<in> set (filter (\<lambda>edge. weFrom edge = acNodeId x) (wdEdges d)). completedAs (scActivations ?sc2) (acId x) (weFrom edge)"
                by (auto simp: acts2 completedAs_def)
              from followEdges_shape [OF Inr _ this ok2] obtain new where new: "scQueue sc3 = q @ new"
                "map acId new = map activationId [scNextId sc ..< scNextId sc3]" "scNextId sc \<le> scNextId sc3"
                "list_all (justified d (scActivations ?sc2)) new" "scActivations sc3 = scActivations ?sc2"
                "scCompleted sc3 = scCompleted ?sc2"
                using queue2 by auto
              have "stepAdds d sc it"
                unfolding stepAdds_def it3 outcome.simps new(5)
                by (rule exI [of _ x], rule exI [of _ q], rule exI [of _ ?done])
                  (use new ok2 acts2 Cons in \<open>auto simp: sameActivation_def\<close>)
              with below show ?thesis by simp
            qed
          qed
        qed
      qed
    qed
  qed
qed

section \<open>The loop\<close>

text \<open>What every step keeps, to the end of the loop and in its last step.\<close>

lemma schedulerLoop_rule:
  assumes "I sc"
    and "\<And>sc sc'. I sc \<Longrightarrow> schedulerStep hooks limits sc = Next sc' \<Longrightarrow> I sc'"
    and "\<And>sc it. I sc \<Longrightarrow> schedulerStep hooks limits sc = it \<Longrightarrow> J (outcome it)"
    and "\<And>sc. I sc \<Longrightarrow> J sc"
  shows "J (outcome (schedulerLoop n hooks limits sc))"
  using assms(1)
proof (induction n arbitrary: sc)
  case (Suc n)
  then show ?case using assms(2) assms(3) [OF Suc.prems refl] by (cases "schedulerStep hooks limits sc") auto
qed (simp add: assms(4))

text \<open>An activation in its place: the first is the start node, every other is justified by those before it.\<close>

definition placed :: "workflow_definition \<Rightarrow> jstring \<Rightarrow> activation list \<Rightarrow> nat \<Rightarrow> activation \<Rightarrow> bool" where
  "placed d start acts k a \<longleftrightarrow> k = 0 \<and> acNodeId a = start \<and> acParents a = [] \<or> justified d (take k acts) a"

definition runOk :: "workflow_definition \<Rightarrow> jstring \<Rightarrow> activation list \<Rightarrow> bool" where
  "runOk d start acts \<longleftrightarrow>
     map acId acts = map activationId [1 ..< Suc (length acts)]
     \<and> (\<forall>a \<in> set acts. acStatus a \<in> {Completed, Failed})
     \<and> (\<forall>k < length acts. placed d start acts k (acts ! k))"

definition schedulerInv :: "workflow_definition \<Rightarrow> jstring \<Rightarrow> 'w scheduler \<Rightarrow> bool" where
  "schedulerInv d start sc \<longleftrightarrow>
     runOk d start (scActivations sc)
     \<and> map acId (scActivations sc @ scQueue sc) = map activationId [1 ..< scNextId sc]
     \<and> (\<forall>k < length (scQueue sc). placed d start (scActivations sc) (length (scActivations sc) + k) (scQueue sc ! k))
     \<and> completedOk (scActivations sc) (scCompleted sc)"

lemma startScheduler_inv: "schedulerInv d start (startScheduler hooks start s w)"
  by (simp add: schedulerInv_def runOk_def startScheduler_def createNextActivation_def activationId_def completedOk_def placed_def)

lemma placed_same:
  assumes "sameActivation a b"
  shows "placed d start acts k a \<longleftrightarrow> placed d start acts k b"
proof -
  have e: "acNodeId a = acNodeId b" "acParents a = acParents b" using assms by (simp_all add: sameActivation_def)
  show ?thesis unfolding placed_def justified_def e ..
qed

lemma placed_extend: "placed d start acts k a \<Longrightarrow> placed d start (acts @ rest) k a"
  using justified_mono [of d "take k acts" a "take k (acts @ rest)"] by (auto simp: placed_def)

lemma runOk_snoc:
  assumes inv: "schedulerInv d start sc" and "scQueue sc = x # q" and "sameActivation x x'" and "acStatus x' \<in> {Completed, Failed}"
  shows "runOk d start (scActivations sc @ [x'])"
proof -
  let ?acts = "scActivations sc"
  have ids: "map acId (?acts @ x # q) = map activationId [1 ..< scNextId sc]" and ok: "runOk d start ?acts"
    using inv assms(2) by (simp_all add: schedulerInv_def)
  have len: "length ?acts + Suc (length q) = scNextId sc - 1" using arg_cong [OF ids, of length] by simp
  have "acId x = activationId (Suc (length ?acts))"
    using arg_cong [OF ids, of "\<lambda>l. l ! length ?acts"] len by (simp add: nth_append del: upt_Suc)
  then have "map acId (?acts @ [x']) = map activationId [1 ..< Suc (length (?acts @ [x']))]"
    using ok assms(3) by (simp add: runOk_def sameActivation_def)
  moreover have "placed d start ?acts (length ?acts) x"
    using inv assms(2) by (auto simp: schedulerInv_def dest: spec [of _ 0])
  then have "placed d start (?acts @ [x']) (length ?acts) x'"
    using placed_extend placed_same [OF assms(3)] by blast
  ultimately show ?thesis using ok assms(4)
    by (auto simp: runOk_def nth_append less_Suc_eq placed_extend simp del: upt_Suc)
qed

lemma step_inv:
  assumes defs: "\<And>w. hkDefinition hooks w = d" and inv: "schedulerInv d start sc" and step: "schedulerStep hooks limits sc = Next sc'"
  shows "schedulerInv d start sc' \<and> length (scActivations sc') = Suc (length (scActivations sc))
    \<and> belowLimit (length (scActivations sc)) (slMaxActivations limits)"
proof -
  have "stepAdds d sc (Next sc')" and below: "belowLimit (length (scActivations sc)) (slMaxActivations limits)"
    using step_shape [OF defs _ step] inv by (auto simp: schedulerInv_def)
  then obtain x q x' new where x: "scQueue sc = x # q" "scActivations sc' = scActivations sc @ [x']" "sameActivation x x'"
    "acStatus x' \<in> {Completed, Failed}" "scQueue sc' = q @ new" "map acId new = map activationId [scNextId sc ..< scNextId sc']"
    "scNextId sc \<le> scNextId sc'" "list_all (justified d (scActivations sc')) new" "completedOk (scActivations sc') (scCompleted sc')"
    by (auto simp: stepAdds_def)
  have ids: "map acId (scActivations sc @ x # q) = map activationId [1 ..< scNextId sc]" using inv x(1) by (simp add: schedulerInv_def)
  have pos: "1 \<le> scNextId sc" using arg_cong [OF ids, of length] by simp
  have "[1 ..< scNextId sc'] = [1 ..< scNextId sc] @ [scNextId sc ..< scNextId sc']"
    using x(7) pos by (metis le_add_diff_inverse upt_add_eq_append)
  then have "map acId (scActivations sc' @ scQueue sc') = map activationId [1 ..< scNextId sc']"
    using ids x(2,3,5,6) by (simp add: sameActivation_def)
  moreover have "placed d start (scActivations sc') (length (scActivations sc') + k) (scQueue sc' ! k)" if "k < length (scQueue sc')" for k
  proof (cases "k < length q")
    case True
    then have "placed d start (scActivations sc) (length (scActivations sc) + Suc k) (scQueue sc ! Suc k)"
      using inv x(1) by (auto simp: schedulerInv_def simp del: nth_Cons_Suc)
    then show ?thesis using placed_extend True x(1,2,5) by (simp add: nth_append)
  next
    case False
    then have "scQueue sc' ! k \<in> set new" using that x(5) by (simp add: nth_append)
    then show ?thesis using x(8) by (simp add: placed_def list_all_iff)
  qed
  ultimately show ?thesis using runOk_snoc [OF inv x(1,3,4)] x(2,9) below by (simp add: schedulerInv_def)
qed

lemma last_step_ok:
  assumes defs: "\<And>w. hkDefinition hooks w = d" and inv: "schedulerInv d start sc" and step: "schedulerStep hooks limits sc = it"
  shows "runOk d start (scActivations (outcome it))"
proof -
  have "completedOk (scActivations sc) (scCompleted sc)" using inv by (simp add: schedulerInv_def)
  from step_shape [OF defs this step] show ?thesis
  proof (elim disjE conjE)
    assume "scActivations (outcome it) = scActivations sc"
    then show ?thesis using inv by (simp add: schedulerInv_def)
  next
    assume "stepAdds d sc it"
    then obtain x q x' where "scQueue sc = x # q" "scActivations (outcome it) = scActivations sc @ [x']" "sameActivation x x'"
      "acStatus x' \<in> {Completed, Failed}"
      by (auto simp: stepAdds_def)
    then show ?thesis using runOk_snoc [OF inv] by simp
  qed
qed


section \<open>Bounds, and the shared state\<close>

lemma followEdge_frame:
  "followEdge hooks d aid edge sc = Inr sc' \<Longrightarrow> scActivations sc' = scActivations sc \<and> scState sc' = scState sc"
  unfolding followEdge_def bindE_eq_Inr
  by (elim exE conjE) (auto simp: createNextActivation_def Let_def simp del: collectJoinParentIds.simps
      split: if_splits option.splits list.splits)

lemma followEdges_frame:
  "foldE (followEdge hooks d aid) edges sc = Inr sc' \<Longrightarrow> scActivations sc' = scActivations sc \<and> scState sc' = scState sc"
  by (induction edges arbitrary: sc) (auto simp: bindE_eq_Inr dest: followEdge_frame)

text \<open>What a step does to the activations and the state, whatever the definitions it sees.\<close>

definition stepRuns :: "'w scheduler_hooks \<Rightarrow> scheduler_limits \<Rightarrow> 'w scheduler \<Rightarrow> 'w iteration \<Rightarrow> activation \<Rightarrow> activation \<Rightarrow> bool" where
  "stepRuns hooks limits sc it x x' \<longleftrightarrow>
     belowLimit (countNodeActivations (scActivations sc) (acNodeId x)) (slMaxNodeActivations limits)
     \<and> (scState (outcome it) = scState sc
        \<or> (\<exists>node r sc0 sc1. node \<in> set (wdNodes (hkDefinition hooks (scWorld sc))) \<and> scState sc0 = scState sc
             \<and> runNode hooks (x\<lparr>acStatus := Running\<rparr>) node sc0 = (r, sc1) \<and> scState (outcome it) = scState sc1))"

lemma findNode_in: "findNode d n = Some node \<Longrightarrow> node \<in> set (wdNodes d)"
  by (auto simp: findNode_def dest!: map_of_SomeD)

lemma step_frame:
  assumes it: "schedulerStep hooks limits sc = it"
  shows "ended it \<and> scActivations (outcome it) = scActivations sc \<and> scState (outcome it) = scState sc
    \<or> belowLimit (length (scActivations sc)) (slMaxActivations limits)
      \<and> (\<exists>x x'. scActivations (outcome it) = scActivations sc @ [x'] \<and> sameActivation x x'
          \<and> (ended it \<and> acStatus x' = Failed \<and> scState (outcome it) = scState sc \<or> stepRuns hooks limits sc it x x'))"
proof (cases "scQueue sc")
  case Nil
  then show ?thesis using it by (auto simp: schedulerStep_def)
next
  case (Cons x q)
  let ?reason = "workflowAbortReason (hkAbort hooks (scWorld sc))"
  let ?sc0 = "sc\<lparr>scQueue := q\<rparr>" and ?running = "x\<lparr>acStatus := Running\<rparr>"
  let ?limit = "belowLimit (length (scActivations sc)) (slMaxActivations limits)"
  let ?nodeLimit = "belowLimit (countNodeActivations (scActivations sc) (acNodeId x)) (slMaxNodeActivations limits)"
  consider "\<not> ?limit" | "?limit" "?reason \<noteq> None \<and> ?reason \<noteq> Some []"
    | "?limit" "\<not> (?reason \<noteq> None \<and> ?reason \<noteq> Some [])" "\<not> ?nodeLimit"
    | "?limit" "\<not> (?reason \<noteq> None \<and> ?reason \<noteq> Some [])" "?nodeLimit" "findNode (hkDefinition hooks (scWorld sc)) (acNodeId x) = None"
    | node where "?limit" "\<not> (?reason \<noteq> None \<and> ?reason \<noteq> Some [])" "?nodeLimit"
      "findNode (hkDefinition hooks (scWorld sc)) (acNodeId x) = Some node"
    by (cases "findNode (hkDefinition hooks (scWorld sc)) (acNodeId x)") blast+
  then show ?thesis
  proof cases
    case 1
    then show ?thesis using it Cons by (auto simp: schedulerStep_def)
  next
    case 2
    then have "it = Finish (pushActivation (x\<lparr>acStatus := Failed, acError := Some (Aborted (the ?reason))\<rparr>) ?sc0)"
      using it Cons by (auto simp: schedulerStep_def)
    then show ?thesis using 2(1)
      by (intro disjI2 conjI exI [of _ x] exI [of _ "x\<lparr>acStatus := Failed, acError := Some (Aborted (the ?reason))\<rparr>"] disjI1)
        (simp_all add: pushActivation_def sameActivation_def)
  next
    case 3
    then show ?thesis using it Cons by (auto simp: schedulerStep_def Let_def)
  next
    case 4
    then have "it = Next (pushActivation (x\<lparr>acStatus := Failed, acError := Some (UnknownNode (acNodeId x))\<rparr>) ?sc0)"
      using it Cons by (auto simp: schedulerStep_def Let_def)
    then show ?thesis using 4
      by (intro disjI2 conjI exI [of _ x] exI [of _ "x\<lparr>acStatus := Failed, acError := Some (UnknownNode (acNodeId x))\<rparr>"])
        (simp_all add: pushActivation_def sameActivation_def stepRuns_def)
  next
    case 5
    obtain r sc1 where run: "runNode hooks ?running node (pushActivation ?running ?sc0) = (r, sc1)" by fastforce
    have acts1: "scActivations sc1 = scActivations sc @ [?running]" using runNode_frame(1) [OF run] by (simp add: pushActivation_def)
    have "\<exists>x'. scActivations (outcome it) = scActivations sc @ [x'] \<and> sameActivation x x' \<and> scState (outcome it) = scState sc1"
    proof (cases r)
      case (Inl eo)
      obtain e res where eo: "eo = (e, res)" by fastforce
      have "it = Next (finishActivation (?running\<lparr>acStatus := Failed, acOutput := res, acError := Some e\<rparr>) sc1)"
        using it Cons 5 run Inl eo by (auto simp: schedulerStep_def Let_def)
      then show ?thesis by (simp add: finishActivation_def acts1 sameActivation_def)
    next
      case (Inr res)
      let ?sc2 = "recordCompletion ?running res sc1" and ?d = "hkDefinition hooks (scWorld (recordCompletion ?running res sc1))"
      let ?follow = "foldE (followEdge hooks ?d (acId x)) (filter (\<lambda>edge. weFrom edge = acNodeId x) (wdEdges ?d)) ?sc2"
      have "it = (case ?follow of Inl e \<Rightarrow> Threw e ?sc2 | Inr sc3 \<Rightarrow> Next sc3)"
        using it Cons 5 run Inr by (auto simp: schedulerStep_def Let_def split: sum.split)
      then have "scActivations (outcome it) = scActivations ?sc2 \<and> scState (outcome it) = scState ?sc2"
        by (cases ?follow) (auto dest: followEdges_frame)
      then show ?thesis by (simp add: recordCompletion_def finishActivation_def acts1 sameActivation_def)
    qed
    moreover have "scState (pushActivation ?running ?sc0) = scState sc" by (simp add: pushActivation_def)
    ultimately show ?thesis using 5 run findNode_in [OF 5(4)] unfolding stepRuns_def by blast
  qed
qed

lemma loop_terminates:
  "slMaxActivations limits = Some m \<Longrightarrow> length (scActivations sc) \<le> m \<Longrightarrow> m - length (scActivations sc) < n \<Longrightarrow>
   ended (schedulerLoop n hooks limits sc) \<and> length (scActivations (outcome (schedulerLoop n hooks limits sc))) \<le> m"
proof (induction n arbitrary: sc)
  case (Suc n)
  show ?case
  proof (cases "schedulerStep hooks limits sc")
    case (Next sc')
    then show ?thesis using step_frame [OF Next] Suc by (auto simp: belowLimit_def)
  next
    case (Finish sc')
    then show ?thesis using step_frame [OF Finish] Suc.prems by (auto simp: belowLimit_def)
  next
    case (Threw e sc')
    then show ?thesis using step_frame [OF Threw] Suc.prems by (auto simp: belowLimit_def)
  qed
qed simp

lemma countNode_snoc:
  "countNodeActivations (acts @ [a]) n = countNodeActivations acts n + (if acNodeId a = n then 1 else 0)"
  by (simp add: countNodeActivations_def)

definition completions :: "activation list \<Rightarrow> jstring \<Rightarrow> nat" where
  "completions acts nodeId = length (filter (\<lambda>a. acNodeId a = nodeId \<and> acStatus a = Completed) acts)"

lemma completions_le: "completions acts n \<le> countNodeActivations acts n"
  unfolding completions_def countNodeActivations_def by (induction acts) auto

lemma step_counts:
  assumes limit: "slMaxNodeActivations limits = Some k" and before: "\<forall>n. countNodeActivations (scActivations sc) n \<le> k"
    and it: "schedulerStep hooks limits sc = it"
  shows "(\<forall>n. completions (scActivations (outcome it)) n \<le> k)
    \<and> (\<not> ended it \<longrightarrow> (\<forall>n. countNodeActivations (scActivations (outcome it)) n \<le> k))"
proof -
  have old: "completions (scActivations sc) n \<le> k" for n
    using completions_le [of "scActivations sc" n] before by (meson le_trans)
  from step_frame [OF it] consider "scActivations (outcome it) = scActivations sc" "ended it"
    | x' where "scActivations (outcome it) = scActivations sc @ [x']" "ended it" "acStatus x' = Failed"
    | x x' where "scActivations (outcome it) = scActivations sc @ [x']" "sameActivation x x'"
      "belowLimit (countNodeActivations (scActivations sc) (acNodeId x)) (slMaxNodeActivations limits)"
    unfolding stepRuns_def by blast
  then show ?thesis
  proof cases
    case 1
    then show ?thesis using old by simp
  next
    case 2
    have "completions (scActivations sc @ [x']) n = completions (scActivations sc) n" for n
      using 2(3) by (simp add: completions_def)
    then show ?thesis using 2 old by simp
  next
    case 3
    have "countNodeActivations (scActivations sc @ [x']) n \<le> k" for n
      using 3(2,3) before limit by (auto simp: countNode_snoc sameActivation_def belowLimit_def)
    then show ?thesis using 3(1) completions_le [of "scActivations sc @ [x']"] by (auto intro: le_trans)
  qed
qed

text \<open>C40 The limits bound a run: with at most \<open>m\<close> activations and \<open>k\<close> per node allowed, the loop ends within \<open>m + 1\<close>
  iterations whatever the nodes do and however cyclic the graph is, with at most \<open>m\<close> activations of which at most \<open>k\<close>
  of any one node have completed.\<close>

theorem scheduler_bounded:
  assumes "slMaxActivations limits = Some m" and "slMaxNodeActivations limits = Some k"
  shows "ended (runWorkflowScheduler (m + 1) hooks limits start s w)
    \<and> length (scActivations (outcome (runWorkflowScheduler (m + 1) hooks limits start s w))) \<le> m
    \<and> completions (scActivations (outcome (runWorkflowScheduler n hooks limits start s w))) nodeId \<le> k"
proof -
  have "completions (scActivations (outcome (runWorkflowScheduler n hooks limits start s w))) nodeId \<le> k"
    unfolding runWorkflowScheduler_def
  proof (rule schedulerLoop_rule [where I = "\<lambda>sc. \<forall>n. countNodeActivations (scActivations sc) n \<le> k"
        and J = "\<lambda>sc. completions (scActivations sc) nodeId \<le> k"])
    show "\<forall>n. countNodeActivations (scActivations (startScheduler hooks start s w)) n \<le> k"
      by (simp add: startScheduler_def createNextActivation_def countNodeActivations_def)
    show "\<forall>n. countNodeActivations (scActivations sc') n \<le> k"
      if "\<forall>n. countNodeActivations (scActivations sc) n \<le> k" "schedulerStep hooks limits sc = Next sc'" for sc sc' :: "'a scheduler"
      using step_counts [OF assms(2) that] by simp
    show "completions (scActivations (outcome it)) nodeId \<le> k"
      if "\<forall>n. countNodeActivations (scActivations sc) n \<le> k" "schedulerStep hooks limits sc = it" for sc and it :: "'a iteration"
      using step_counts [OF assms(2) that] by simp
    show "completions (scActivations sc) nodeId \<le> k" if "\<forall>n. countNodeActivations (scActivations sc) n \<le> k" for sc :: "'a scheduler"
      using that completions_le [of "scActivations sc" nodeId] by (meson le_trans)
  qed
  moreover have "length (scActivations (startScheduler hooks start s w)) = 0"
    by (simp add: startScheduler_def createNextActivation_def)
  ultimately show ?thesis
    using loop_terminates [OF assms(1), of "startScheduler hooks start s w" "m + 1" hooks] by (simp add: runWorkflowScheduler_def)
qed

lemma runNode_state:
  assumes "runNode hooks a node sc = (r, sc1)" and "\<And>a node s done w. fst (snd (hkExecute hooks a node s done w)) = s"
  shows "scState sc1 = scState sc \<or> (\<exists>patch. scState sc1 = snd (applyWorkflowStatePatch patch (policyOf node) (scState sc)))"
proof -
  obtain res world where e: "hkExecute hooks a node (scState sc) (filter (\<lambda>a. acStatus a = Completed) (scActivations sc)) (scWorld sc)
      = (res, scState sc, world)"
    using assms(2) [of a node "scState sc" "filter (\<lambda>a. acStatus a = Completed) (scActivations sc)" "scWorld sc"]
    by (metis prod.collapse)
  show ?thesis
    using assms(1) unfolding runNode_def e
    by (auto simp: Let_def split: sum.splits option.splits prod.splits) (metis snd_conv)+
qed

text \<open>The shared state is confined: when every node declares its write scopes and the node runner leaves the state object
  alone, a path that lies apart from every scope of every node reads at the end of the run as it did at its start,
  whatever the nodes return, also when outputs are refused, nodes fail or the graph changes during the run.\<close>

theorem scheduler_confines_state:
  assumes "\<forall>a node s done w. fst (snd (hkExecute hooks a node s done w)) = s"
    and "\<forall>w. \<forall>node \<in> set (wdNodes (hkDefinition hooks w)). \<exists>scopes. wnWrites node = Some scopes \<and> js ''/'' \<notin> set scopes
      \<and> (\<forall>scope \<in> set scopes. apart (pointerSegments scope) (pointerSegments q))"
    and "ownNames (pointerSegments q)"
  shows "getStatePath (scState (outcome (runWorkflowScheduler n hooks limits start s w))) q = getStatePath s q"
proof (rule getStatePath_cong)
  let ?I = "\<lambda>sc. resolveSegments (pointerSegments q) (JObj (scState sc)) = resolveSegments (pointerSegments q) (JObj s)"
  have step: "?I (outcome it)" if I: "?I sc" and it: "schedulerStep hooks limits sc = it" for sc and it :: "'a iteration"
  proof -
    consider "scState (outcome it) = scState sc"
      | x node r sc0 sc1 where "node \<in> set (wdNodes (hkDefinition hooks (scWorld sc)))" "scState sc0 = scState sc"
        "runNode hooks x node sc0 = (r, sc1)" "scState (outcome it) = scState sc1"
      using step_frame [OF it] unfolding stepRuns_def by blast
    then show ?thesis
    proof cases
      case 1
      then show ?thesis using I by simp
    next
      case 2
      obtain scopes where scopes: "wnWrites node = Some scopes" "js ''/'' \<notin> set scopes"
        "\<forall>scope \<in> set scopes. apart (pointerSegments scope) (pointerSegments q)"
        using assms(2) 2(1) by blast
      have "apWritePaths (policyOf node) = Some scopes" using scopes(1) by (simp add: policyOf_def)
      note frame = patch_frame [OF this scopes(2,3) assms(3)]
      show ?thesis using runNode_state [OF 2(3)] assms(1) 2(2,4) I frame by auto
    qed
  qed
  show "?I (outcome (runWorkflowScheduler n hooks limits start s w))"
    unfolding runWorkflowScheduler_def
  proof (rule schedulerLoop_rule [where I = ?I and J = ?I])
    show "?I (startScheduler hooks start s w)" by (simp add: startScheduler_def createNextActivation_def)
    show "?I sc'" if "?I sc" "schedulerStep hooks limits sc = Next sc'" for sc sc' :: "'a scheduler" using step [OF that] by simp
  qed (use step in auto)
qed

section \<open>An example run\<close>

text \<open>Two nodes in a cycle; the first writes its step, the second tries to write outside its scope.\<close>

definition exampleDefinition :: workflow_definition where
  "exampleDefinition =
     (let node = (\<lambda>name'. \<lparr>wnId = js name', wnType = NodeScript, wnAgent = None, wnModel = None, wnPrompt = None,
        wnPromptSource = None, wnScript = None, wnGates = None, wnReads = None, wnWrites = Some [js ''/step''], wnWaitFor = None\<rparr>)
      in \<lparr>wdName = js ''example'', wdVersion = NumFin 1, wdSourcePath = None,
        wdModels = \<lparr>wmRoles = [], wmDefaults = [], wmUnavailable = None\<rparr>, wdNodes = [node ''a'', node ''b''],
        wdEdges = [\<lparr>weFrom = js ''a'', weTo = js ''b'', weCondition = None\<rparr>, \<lparr>weFrom = js ''b'', weTo = js ''a'', weCondition = None\<rparr>]\<rparr>)"

definition exampleHooks :: "unit scheduler_hooks" where
  "exampleHooks =
     \<lparr>hkExecute = (\<lambda>a node s done w. (Inr (JObj [(js ''statePatch'', JArr [JObj [(js ''op'', JStr (js ''set'')),
         (js ''path'', JStr (if wnId node = js ''a'' then js ''/step'' else js ''/secret'')), (js ''value'', JNull)]])]), s, w)),
      hkDefinition = (\<lambda>w. exampleDefinition), hkRevision = (\<lambda>w. js ''r1''), hkAbort = (\<lambda>w. None)\<rparr>"


lemma scheduler_bounded_witness:
  "ended (runWorkflowScheduler 4 exampleHooks \<lparr>slMaxActivations = Some 3, slMaxNodeActivations = Some 2\<rparr> (js ''a'') [] ())"
  using scheduler_bounded [of "\<lparr>slMaxActivations = Some 3, slMaxNodeActivations = Some 2\<rparr>" 3 2 exampleHooks "js ''a''" "[]" "()"]
  by simp

lemma scheduler_confines_state_witness:
  "getStatePath (scState (outcome (runWorkflowScheduler 4 exampleHooks \<lparr>slMaxActivations = Some 3, slMaxNodeActivations = None\<rparr>
     (js ''a'') [(js ''secret'', JBool True)] ()))) (js ''/secret'') = getStatePath [(js ''secret'', JBool True)] (js ''/secret'')"
  by (rule scheduler_confines_state)
    (simp_all add: exampleHooks_def exampleDefinition_def Let_def apart_def pointerSegments_def decodeSegment_def ownNames_def
      objectPrototypeNames_def)

end
