(* ===== verification/Wf_Runner_Facts.thy ===== *)
theory Wf_Runner_Facts
  imports Wf_Runner Wf_Run_Facts Wf_Scheduler_Facts
begin

text \<open>
  A whole run: replaying its log gives the state and the activations that the scheduler ended with and the graph part
  of the snapshot in memory; and a run of well-formed graphs is never ended by a condition that does not parse.
\<close>

section \<open>Validated outputs\<close>

lemma mapIndexE_map:
  assumes "\<And>j x. f j (g x) = Inr x"
  shows "mapIndexE f (map g xs) = Inr xs"
proof -
  have "mapE (\<lambda>(i, x). f i x) (zip [n ..< n + length xs] (map g xs)) = Inr xs" for n
  proof (induction xs arbitrary: n)
    case (Cons x xs)
    have "[n ..< n + length (x # xs)] = n # [Suc n ..< Suc n + length xs]" by (simp add: upt_conv_Cons del: upt_Suc)
    then show ?case using Cons [of "Suc n"] assms by simp
  qed simp
  from this [of 0] show ?thesis by (simp add: mapIndexE_def)
qed

lemma expectStatePatch_objects: "expectStatePatch (JArr (map operationObject patch)) = Inr patch"
  by (simp add: expectStatePatch_def Let_def)
    (rule mapIndexE_map, simp add: operationObject_def expectRecord_def expectString_def objGet_def)

lemma expectStringList_strings: "expectStringList (JArr (map JStr ss)) label = Inr ss"
  by (simp add: expectStringList_def) (rule mapIndexE_map, simp add: expectString_def)

text \<open>The members of an accepted output read back.\<close>

lemma outputObject_get:
  "objGet (outputObject out) (js ''summary'') = (case aoSummary out of None \<Rightarrow> JUndef | Some s \<Rightarrow> JStr s)"
  "objGet (outputObject out) (js ''artifacts'') = (case aoArtifacts out of None \<Rightarrow> JUndef | Some refs \<Rightarrow> JArr (map JStr refs))"
  "objGet (outputObject out) (js ''data'') = (case aoData out of None \<Rightarrow> JUndef | Some data \<Rightarrow> JObj data)"
  "objGet (outputObject out) (js ''statePatch'') =
     (case aoStatePatch out of None \<Rightarrow> JUndef | Some patch \<Rightarrow> JArr (map operationObject patch))"
  "objGet (outputObject out) (js ''transcript'') = JUndef"
  "objGet (outputObject out) (js ''rawTranscript'') = JUndef"
  "objGet (outputObject out) (js ''rawOutput'') = JUndef"
  by (simp_all add: outputObject_def optionalMember_def objGet_def objectPrototypeNames_def split: option.split)

lemma validate_parts:
  "validateWorkflowActivationOutput value policy = Inr out \<Longrightarrow>
     (\<forall>summary. aoSummary out = Some summary \<longrightarrow> assertInlineText (js ''workflow activation output summary'') summary (maxSummaryBytes policy) = Inr ())
     \<and> (\<forall>refs. aoArtifacts out = Some refs \<longrightarrow> eachE assertArtifactReference refs = Inr ())
     \<and> (\<forall>data. aoData out = Some data \<longrightarrow> assertInlineActivationData data policy = Inr ())
     \<and> (\<forall>patch. aoStatePatch out = Some patch \<longrightarrow>
          assertNoConflictingWrites patch = Inr () \<and> eachE (checkOperation policy) patch = Inr ())"
  by (auto simp: validateWorkflowActivationOutput_def bindE_eq_Inr validateSummary_def validateArtifacts_def validateData_def
      validateStatePatch_def split: if_splits)

text \<open>The scheduler checks again what the runner checked, with the same result.\<close>

lemma validate_again:
  assumes "validateWorkflowActivationOutput value policy = Inr out"
  shows "validateWorkflowActivationOutput (JObj (outputObject out)) policy = Inr out"
proof -
  note p = validate_parts [OF assms]
  let ?o = "outputObject out"
  have "assertNoRawTranscriptFields ?o = Inr ()"
    by (simp add: assertNoRawTranscriptFields_def outputObject_get [simplified] del: js_simps_base) (simp add: outputObject_get [simplified])
  moreover have "validateSummary ?o policy = Inr (aoSummary out)"
    using p by (cases "aoSummary out") (simp_all only: validateSummary_def outputObject_get option.case expectString_def
        js_val.case js_val.distinct if_False if_True bindE_simps simp_thms)
  moreover have "validateArtifacts ?o = Inr (aoArtifacts out)"
    using p by (cases "aoArtifacts out") (simp_all only: validateArtifacts_def outputObject_get option.case
        expectStringList_strings js_val.distinct if_False if_True bindE_simps simp_thms)
  moreover have "validateData ?o policy = Inr (aoData out)"
    using p by (cases "aoData out") (simp_all only: validateData_def outputObject_get option.case expectRecord_def
        js_val.case js_val.distinct if_False if_True bindE_simps simp_thms)
  moreover have "validateStatePatch ?o policy = Inr (aoStatePatch out)"
    using p by (cases "aoStatePatch out") (simp_all only: validateStatePatch_def outputObject_get option.case
        expectStatePatch_objects js_val.distinct if_False if_True bindE_simps simp_thms)
  ultimately show ?thesis by (simp add: validateWorkflowActivationOutput_def expectRecord_def)
qed

text \<open>Its patch applies, under its policy and under none.\<close>

lemma validated_patch_applies:
  assumes "validateWorkflowActivationOutput value (policyOf node) = Inr out" and "aoStatePatch out = Some patch"
  shows "applyWorkflowStatePatch patch (policyOf node) state = (Inr (), fold writeOperation patch state)"
    and "applyWorkflowStatePatch patch noPolicy state = (Inr (), fold writeOperation patch state)"
proof -
  have c: "distinct (map opPath patch)" "\<forall>operation \<in> set patch. checkOperation (policyOf node) operation = Inr ()"
    using validate_parts [OF assms(1)] assms(2) by (auto simp: assertNoConflictingWrites_iff eachE_Inr)
  then show "applyWorkflowStatePatch patch (policyOf node) state = (Inr (), fold writeOperation patch state)"
    by (intro statePatch_accepted) (auto simp: acceptable_def list_all_iff)
  have "checkOperation noPolicy operation = Inr ()" if "checkOperation (policyOf node) operation = Inr ()" for operation
    using that by (auto simp: checkOperation_def bindE_eq_Inr policyOf_def noPolicy_def assertPointerAllowed_def
        assertInlineValue_def maxInlineValueBytes_def split: option.splits if_splits)
  with c show "applyWorkflowStatePatch patch noPolicy state = (Inr (), fold writeOperation patch state)"
    by (intro statePatch_accepted) (auto simp: acceptable_def list_all_iff)
qed

section \<open>One activation\<close>

text \<open>A host whose functions act on a run only as \<open>hostActs\<close> allows.\<close>

definition hostRespects :: "'h runner_world node_host \<Rightarrow> bool" where
  "hostRespects host \<longleftrightarrow>
     (\<forall>run input w. nhAgent host = Some run \<longrightarrow> hostActs w (snd (run input w)))
     \<and> (\<forall>run input w. nhScript host = Some run \<longrightarrow> hostActs w (snd (run input w)))
     \<and> (\<forall>run input w. nhHuman host = Some run \<longrightarrow> hostActs w (snd (run input w)))
     \<and> (\<forall>run input w. nhReview host = Some run \<longrightarrow> hostActs w (snd (run input w)))"

lemma executeWorkflowNode_acts:
  assumes "hostRespects host"
  shows "hostActs w (snd (executeWorkflowNode node activation host override w))"
proof -
  have review: "hostActs w (snd (executeReviewNode node activation host override w))"
  proof (cases "nhReview host")
    case (Some run)
    then have acts: "hostActs w (snd (run input w))" for input using assms by (simp add: hostRespects_def)
    obtain r w' where "run \<lparr>riNode = node, riActivation = activation, riAgent = wnAgent node, riPrompt = wnPrompt node,
        riModel = wnModel node, riModelOverride = override, riGates = wnGates node\<rparr> w = (r, w')" (is "run ?input w = _")
      by fastforce
    with acts [of ?input] Some show ?thesis
      by (cases r) (simp_all add: executeReviewNode_def bindSE_def)
  qed (simp add: executeReviewNode_def acts_none)
  show ?thesis
    using assms review
    by (auto simp: executeWorkflowNode_def executeAgentNode_def executeScriptNode_def executeHumanNode_def hostRespects_def
        intro: acts_none split: node_type.split option.split)
qed

text \<open>The record of an activation that ended.\<close>

definition endedRecord ::
  "activation \<Rightarrow> jstring \<Rightarrow> jstring + activation_output \<Rightarrow> activation_record \<Rightarrow> bool" where
  "endedRecord activation nodeId r record' \<longleftrightarrow>
     arId record' = acId activation \<and> arNodeId record' = nodeId \<and> arRevision record' = acRevision activation
     \<and> arParents record' = acParents activation
     \<and> (case r of
          Inl message \<Rightarrow> arStatus record' = RecFailed \<and> arOutput record' = None \<and> arError record' = Some message
        | Inr out \<Rightarrow> arStatus record' = RecCompleted \<and> arOutput record' = Some out \<and> arError record' = None)"

definition stateAfter :: "jstring + activation_output \<Rightarrow> js_obj \<Rightarrow> js_obj" where
  "stateAfter r state =
     (case r of
        Inl message \<Rightarrow> state
      | Inr out \<Rightarrow> (case aoStatePatch out of None \<Rightarrow> state | Some patch \<Rightarrow> fold writeOperation patch state))"

definition validatedBy :: "workflow_node \<Rightarrow> jstring + activation_output \<Rightarrow> bool" where
  "validatedBy node r \<longleftrightarrow>
     (case r of Inl message \<Rightarrow> True | Inr out \<Rightarrow> \<exists>value. validateWorkflowActivationOutput value (policyOf node) = Inr out)"

lemma executeStarted_logged:
  assumes "hostRespects (roRuntimeHost options)" and "logged i w state (records @ [r0])"
    and r0: "r0 = startedRecord (acId activation) (wnId node) (acRevision activation) (acParents activation) input"
    and fresh: "acId activation \<notin> set (map arId records)"
    and run: "executeStarted options i activation node prompt w = (r, w')"
  shows "validatedBy node r
    \<and> (case r of
        Inl message \<Rightarrow> logged i w' state (records @ [r0])
      | Inr out \<Rightarrow> \<exists>record'. logged i w' (stateAfter r state) (records @ [record'])
          \<and> endedRecord activation (wnId node) r record')"
proof -
  let ?node = "case prompt of Some p \<Rightarrow> node\<lparr>wnPrompt := Some (rpValue p)\<rparr> | None \<Rightarrow> node"
  let ?audit = "if nodeRequiresModel node then resolveModelAudit options node else None"
  show ?thesis
  proof (cases "resolveScriptForExecution options (roEnv options w) ?node")
    case (Inl message)
    then have "r = Inl message" "w' = w" using run by (simp_all add: executeStarted_def bindSE_def)
    then show ?thesis using assms(2) by (simp add: validatedBy_def)
  next
    case script: (Inr execNode)
    show ?thesis
    proof (cases "presentString (Option.bind ?audit auError)")
      case True
      then have "(r, w') = (Inl (the (Option.bind ?audit auError)), w)"
        using run unfolding executeStarted_def Let_def bindSE_def script liftSE_def by (simp add: throwSE_def)
      then show ?thesis using assms(2) by (simp add: validatedBy_def)
    next
      case False
      obtain v w1 where v: "executeWorkflowNode execNode activation (roRuntimeHost options) (modelOverrideFromAudit ?audit) w = (v, w1)"
        by fastforce
      have l1: "logged i w1 state (records @ [r0])"
        using hostActs_logged [OF executeWorkflowNode_acts [OF assms(1)] assms(2)] v by (metis snd_conv)
      let ?rest = "\<lambda>value. bindSE (liftSE (withMessage stateErrorMessage (validateWorkflowActivationOutput value (policyOf node)))) (\<lambda>output.
        bindSE (case aoStatePatch output of
                  None \<Rightarrow> returnSE ()
                | Some patch \<Rightarrow>
                    updateLog (appendWorkflowStatePatch i patch (Some (js ''activation '' @ acId activation)))) (\<lambda>_.
        bindSE (updateLog (appendWorkflowActivationCompleted i (acId activation) (Some output) ?audit)) (\<lambda>_.
          returnSE output)))"
      have rest: "(r, w') = bindSE (\<lambda>w. executeWorkflowNode execNode activation (roRuntimeHost options) (modelOverrideFromAudit ?audit) w) ?rest w"
        using run False unfolding executeStarted_def Let_def bindSE_def [of "liftSE _"] script liftSE_def by simp
      show ?thesis
      proof (cases v)
        case (Inl message)
        then have "r = Inl message" "w' = w1" using rest v by (simp_all add: bindSE_def)
        then show ?thesis using l1 by (simp add: validatedBy_def)
      next
        case val: (Inr x)
        show ?thesis
        proof (cases "validateWorkflowActivationOutput x (policyOf node)")
          case (Inl e)
          then have "r = Inl (stateErrorMessage e)" "w' = w1" using rest v val by (simp_all add: bindSE_def withMessage_def)
          then show ?thesis using l1 by (simp add: validatedBy_def)
        next
          case out: (Inr out)
          let ?w2 = "case aoStatePatch out of None \<Rightarrow> w1
            | Some patch \<Rightarrow> w1\<lparr>rwLog := appendWorkflowStatePatch i patch (Some (js ''activation '' @ acId activation)) (rwLog w1)\<rparr>"
          let ?w3 = "?w2\<lparr>rwLog := appendWorkflowActivationCompleted i (acId activation) (Some out) ?audit (rwLog ?w2)\<rparr>"
          have "(r, w') = (Inr out, ?w3)"
            using rest v val out
            by (cases "aoStatePatch out") (simp_all add: bindSE_def withMessage_def updateLog_def returnSE_def)
          then have r: "r = Inr out" "w' = ?w3" by simp_all
          have "logged i ?w2 (stateAfter r state) (records @ [r0])"
          proof (cases "aoStatePatch out")
            case None
            then show ?thesis using l1 r by (simp add: stateAfter_def)
          next
            case (Some patch)
            have e: "stateAfter r state = fold writeOperation patch state" using Some r by (simp add: stateAfter_def)
            show ?thesis
              unfolding Some option.case e
              by (rule logged_state_patch [OF l1 validated_patch_applies(2) [OF out Some],
                    where reason = "Some (js ''activation '' @ acId activation)"]) simp_all
          qed
          then have "logged i ?w3 (stateAfter r state) (records @ [r0\<lparr>arStatus := RecCompleted, arOutput := Some out,
              arAudit := (if ?audit \<noteq> None then ?audit else arAudit r0), arError := None\<rparr>])"
            by (rule logged_completed) (use fresh r0 in \<open>simp_all add: startedRecord_def\<close>)
          then show ?thesis
            unfolding r validatedBy_def sum.case using out r0
            by (intro conjI exI) (auto simp: endedRecord_def startedRecord_def r)
        qed
      qed
    qed
  qed
qed

lemma executeAndPersist_logged:
  assumes host: "hostRespects (roRuntimeHost options)" and l: "logged i w state records"
    and fresh: "acId activation \<notin> set (map arId records)"
    and run: "executeAndPersistActivation options activation node state completed w = (r, w')"
  shows "validatedBy node r
    \<and> (\<exists>record'. logged i w' (stateAfter r state) (records @ [record']) \<and> endedRecord activation (wnId node) r record')"
proof -
  let ?start = "\<lambda>input. startedRecord (acId activation) (wnId node) (acRevision activation) (acParents activation) input"
  let ?w0 = "\<lambda>input. w\<lparr>rwLog := appendStarted i activation node input (rwLog w)\<rparr>"
  let ?fail = "\<lambda>message w'. w'\<lparr>rwLog := appendWorkflowActivationFailed i (acId activation) message (rwLog w')\<rparr>"
  have id: "rsId (rwRun w) = i" by (rule logged_id [OF l])
  have l0: "logged i (?w0 input) state (records @ [?start input])" for input
    by (rule logged_started [OF l]) (simp_all add: appendStarted_def)
  have failed: "\<exists>record'. logged i (?fail message w1) (stateAfter (Inl message) state) (records @ [record'])
      \<and> endedRecord activation (wnId node) (Inl message) record'"
    if "logged i w1 state (records @ [?start input])" for w1 message input
    unfolding stateAfter_def sum.case
    by (intro exI conjI, rule logged_failed [OF that]) (use fresh in \<open>simp_all add: startedRecord_def endedRecord_def\<close>)
  show ?thesis
  proof (cases "resolvePromptForActivation options (roEnv options w) activation node state completed")
    case (Inl e)
    then have "r = Inl (promptErrorMessage e)" "w' = ?fail (promptErrorMessage e) (?w0 None)"
      using run by (simp_all add: executeAndPersistActivation_def Let_def id)
    then show ?thesis using failed [OF l0] by (simp add: validatedBy_def)
  next
    case (Inr prompt)
    let ?input = "inputSnapshotFromPrompt prompt"
    obtain r1 w1 where e: "executeStarted options i activation node prompt (?w0 ?input) = (r1, w1)" by fastforce
    note started = executeStarted_logged [OF host l0 refl fresh e]
    show ?thesis
    proof (cases r1)
      case (Inl message)
      then have "r = Inl message" "w' = ?fail message w1"
        using run Inr e by (simp_all add: executeAndPersistActivation_def Let_def id)
      then show ?thesis using failed [of w1 ?input message] started Inl by (simp add: validatedBy_def)
    next
      case (Inr out)
      then have "r = r1" "w' = w1"
        using run \<open>resolvePromptForActivation _ _ _ _ _ _ = _\<close> e by (simp_all add: executeAndPersistActivation_def Let_def id)
      then show ?thesis using started Inr by simp
    qed
  qed
qed

section \<open>The scheduler with the runner's callbacks\<close>

lemma findNode_id: "findNode d n = Some node \<Longrightarrow> wnId node = n"
  by (auto simp: findNode_def dest!: map_of_SomeD)

lemma runNode_logged:
  assumes host: "hostRespects (roRuntimeHost options)" and l: "logged i (scWorld sc) (scState sc) records"
    and fresh: "acId activation \<notin> set (map arId records)"
    and run: "runNode (runnerHooks options) activation node sc = (res, sc1)"
  shows "\<exists>r record'. logged i (scWorld sc1) (scState sc1) (records @ [record']) \<and> endedRecord activation (wnId node) r record'
    \<and> res = (case r of Inl message \<Rightarrow> Inl (NodeThrew message, None) | Inr out \<Rightarrow> Inr out)"
proof -
  let ?done = "filter (\<lambda>a. acStatus a = Completed) (scActivations sc)"
  obtain r w' where e: "executeAndPersistActivation options activation node (scState sc) ?done (scWorld sc) = (r, w')"
    by fastforce
  from executeAndPersist_logged [OF host l fresh e] obtain record'
    where v: "validatedBy node r" and record': "logged i w' (stateAfter r (scState sc)) (records @ [record'])"
      "endedRecord activation (wnId node) r record'"
    by blast
  have "scWorld sc1 = w' \<and> scState sc1 = stateAfter r (scState sc)
      \<and> res = (case r of Inl message \<Rightarrow> Inl (NodeThrew message, None) | Inr out \<Rightarrow> Inr out)"
  proof (cases r)
    case (Inl message)
    then show ?thesis using run e by (auto simp: runNode_def runnerHooks_def Let_def stateAfter_def)
  next
    case (Inr out)
    then obtain value' where val: "validateWorkflowActivationOutput value' (policyOf node) = Inr out"
      using v by (auto simp: validatedBy_def)
    have hook: "hkExecute (runnerHooks options) activation node (scState sc) ?done (scWorld sc)
        = (Inr (JObj (outputObject out)), scState sc, w')"
      using e Inr by (simp add: runnerHooks_def)
    show ?thesis
    proof (cases "aoStatePatch out")
      case None
      then show ?thesis using run hook validate_again [OF val] Inr by (auto simp: runNode_def Let_def stateAfter_def)
    next
      case (Some patch)
      then show ?thesis
        using run hook validate_again [OF val] validated_patch_applies(1) [OF val Some, of "scState sc"] Inr
        by (auto simp: runNode_def Let_def stateAfter_def)
    qed
  qed
  with record' show ?thesis by auto
qed

text \<open>Following edges adds fresh activations to the queue and touches nothing else of interest.\<close>

definition queueGrows :: "'w scheduler \<Rightarrow> 'w scheduler \<Rightarrow> bool" where
  "queueGrows sc sc' \<longleftrightarrow>
     (\<exists>new. scQueue sc' = scQueue sc @ new \<and> map acId new = map activationId [scNextId sc ..< scNextId sc']
        \<and> scNextId sc \<le> scNextId sc' \<and> (\<forall>a \<in> set new. acError a = None))
     \<and> scActivations sc' = scActivations sc \<and> scState sc' = scState sc \<and> scWorld sc' = scWorld sc"

lemma queueGrows_refl [simp]: "queueGrows sc sc"
  by (simp add: queueGrows_def)

lemma queueGrows_trans:
  assumes "queueGrows sc sc1" and "queueGrows sc1 sc2"
  shows "queueGrows sc sc2"
proof -
  obtain new1 new2 where n: "scQueue sc1 = scQueue sc @ new1" "map acId new1 = map activationId [scNextId sc ..< scNextId sc1]"
    "scNextId sc \<le> scNextId sc1" "\<forall>a \<in> set new1. acError a = None"
    "scQueue sc2 = scQueue sc1 @ new2" "map acId new2 = map activationId [scNextId sc1 ..< scNextId sc2]"
    "scNextId sc1 \<le> scNextId sc2" "\<forall>a \<in> set new2. acError a = None"
    using assms by (auto simp: queueGrows_def)
  have "[scNextId sc ..< scNextId sc2] = [scNextId sc ..< scNextId sc1] @ [scNextId sc1 ..< scNextId sc2]"
    using upt_add_eq_append [of "scNextId sc" "scNextId sc1" "scNextId sc2 - scNextId sc1"] n by simp
  with n assms show ?thesis
    by (auto simp: queueGrows_def intro!: exI [of _ "new1 @ new2"])
qed

lemma createNextActivation_grows: "queueGrows sc (createNextActivation hooks n ps sc)"
  by (simp add: queueGrows_def createNextActivation_def activationId_def)

lemma followEdge_grows: "followEdge hooks d aid edge sc = Inr sc' \<Longrightarrow> queueGrows sc sc'"
proof -
  have keys: "queueGrows sc (createNextActivation hooks n ps (sc\<lparr>scJoinKeys := ks\<rparr>))" for n ps ks
    using createNextActivation_grows [of "sc\<lparr>scJoinKeys := ks\<rparr>" hooks n ps] by (simp add: queueGrows_def)
  assume "followEdge hooks d aid edge sc = Inr sc'"
  then show ?thesis
    unfolding followEdge_def bindE_eq_Inr
    by (elim exE conjE)
      (auto simp: Let_def createNextActivation_grows keys simp del: collectJoinParentIds.simps
        split: if_splits option.splits list.splits)
qed

lemma followEdges_grow: "foldE (followEdge hooks d aid) edges sc = Inr sc' \<Longrightarrow> queueGrows sc sc'"
  by (induction edges arbitrary: sc) (auto simp: bindE_eq_Inr intro: queueGrows_trans followEdge_grows)

section \<open>One iteration\<close>

text \<open>An activation that the scheduler ended without running it is not in the log.\<close>

definition executed :: "activation \<Rightarrow> bool" where
  "executed a \<longleftrightarrow> (case acError a of Some (Aborted reason) \<Rightarrow> False | Some (UnknownNode n) \<Rightarrow> False | _ \<Rightarrow> True)"

definition afterRun :: "activation \<Rightarrow> activation_error \<times> activation_output option + activation_output \<Rightarrow> activation" where
  "afterRun running res =
     (case res of
        Inl (e, out) \<Rightarrow> running\<lparr>acStatus := Failed, acOutput := out, acError := Some e\<rparr>
      | Inr out \<Rightarrow> running\<lparr>acStatus := Completed, acOutput := Some out\<rparr>)"

definition stepIdle :: "'w scheduler \<Rightarrow> 'w iteration \<Rightarrow> bool" where
  "stepIdle sc it \<longleftrightarrow> ended it \<and> scActivations (outcome it) = scActivations sc
     \<and> scState (outcome it) = scState sc \<and> scWorld (outcome it) = scWorld sc"

definition stepSkips :: "'w scheduler \<Rightarrow> 'w iteration \<Rightarrow> bool" where
  "stepSkips sc it \<longleftrightarrow> (\<exists>x q x'. scQueue sc = x # q \<and> scActivations (outcome it) = scActivations sc @ [x']
     \<and> \<not> executed x' \<and> acId x' = acId x \<and> scState (outcome it) = scState sc \<and> scWorld (outcome it) = scWorld sc
     \<and> scQueue (outcome it) = q \<and> scNextId (outcome it) = scNextId sc)"

definition stepExecutes :: "'w scheduler_hooks \<Rightarrow> 'w scheduler \<Rightarrow> 'w iteration \<Rightarrow> bool" where
  "stepExecutes hooks sc it \<longleftrightarrow> (\<exists>x q node res sc1 sc2.
     scQueue sc = x # q \<and> wnId node = acNodeId x
     \<and> runNode hooks (x\<lparr>acStatus := Running\<rparr>) node (pushActivation (x\<lparr>acStatus := Running\<rparr>) (sc\<lparr>scQueue := q\<rparr>)) = (res, sc1)
     \<and> scActivations sc2 = scActivations sc @ [afterRun (x\<lparr>acStatus := Running\<rparr>) res]
     \<and> scState sc2 = scState sc1 \<and> scWorld sc2 = scWorld sc1 \<and> scQueue sc2 = q \<and> scNextId sc2 = scNextId sc
     \<and> queueGrows sc2 (outcome it))"

lemma schedulerStep_cases:
  "stepIdle sc (schedulerStep hooks limits sc) \<or> stepSkips sc (schedulerStep hooks limits sc)
   \<or> stepExecutes hooks sc (schedulerStep hooks limits sc)"
proof (cases "scQueue sc")
  case Nil
  then show ?thesis by (simp add: schedulerStep_def stepIdle_def)
next
  case (Cons x q)
  let ?running = "x\<lparr>acStatus := Running\<rparr>" and ?sc0 = "sc\<lparr>scQueue := q\<rparr>"
  let ?reason = "workflowAbortReason (hkAbort hooks (scWorld sc))"
  consider (limit) "\<not> belowLimit (length (scActivations sc)) (slMaxActivations limits)"
    | (abort) "belowLimit (length (scActivations sc)) (slMaxActivations limits)" "?reason \<noteq> None \<and> ?reason \<noteq> Some []"
    | (nodeLimit) "belowLimit (length (scActivations sc)) (slMaxActivations limits)" "\<not> (?reason \<noteq> None \<and> ?reason \<noteq> Some [])"
        "\<not> belowLimit (countNodeActivations (scActivations sc) (acNodeId x)) (slMaxNodeActivations limits)"
    | (runs) "belowLimit (length (scActivations sc)) (slMaxActivations limits)" "\<not> (?reason \<noteq> None \<and> ?reason \<noteq> Some [])"
        "belowLimit (countNodeActivations (scActivations sc) (acNodeId x)) (slMaxNodeActivations limits)"
    by blast
  then show ?thesis
  proof cases
    case limit
    then show ?thesis using Cons by (simp add: schedulerStep_def stepIdle_def)
  next
    case abort
    then have "stepSkips sc (schedulerStep hooks limits sc)"
      using Cons by (simp add: schedulerStep_def stepSkips_def pushActivation_def executed_def)
    then show ?thesis by simp
  next
    case nodeLimit
    then show ?thesis using Cons by (auto simp: schedulerStep_def stepIdle_def Let_def)
  next
    case runs
    show ?thesis
    proof (cases "findNode (hkDefinition hooks (scWorld sc)) (acNodeId x)")
      case None
      then have "stepSkips sc (schedulerStep hooks limits sc)"
        using Cons runs by (simp add: schedulerStep_def stepSkips_def pushActivation_def executed_def Let_def)
      then show ?thesis by simp
    next
      case (Some node)
      obtain res sc1 where run: "runNode hooks ?running node (pushActivation ?running ?sc0) = (res, sc1)" by fastforce
      note frame = runNode_frame [OF run]
      show ?thesis
      proof (cases res)
        case (Inl eo)
        obtain e out where eo: "eo = (e, out)" by fastforce
        have step: "schedulerStep hooks limits sc = Next (finishActivation (afterRun ?running res) sc1)"
          using Cons runs Some run Inl by (simp add: schedulerStep_def Let_def eo afterRun_def)
        have "stepExecutes hooks sc (schedulerStep hooks limits sc)"
          unfolding stepExecutes_def step outcome.simps
          by (rule exI [of _ x], rule exI [of _ q], rule exI [of _ node], rule exI [of _ res], rule exI [of _ sc1],
              rule exI [of _ "finishActivation (afterRun ?running res) sc1"])
            (use Cons run frame findNode_id [OF Some] in \<open>simp add: finishActivation_def pushActivation_def\<close>)
        then show ?thesis by simp
      next
        case (Inr out)
        let ?sc2 = "recordCompletion ?running out sc1"
        let ?d = "hkDefinition hooks (scWorld ?sc2)"
        have step: "schedulerStep hooks limits sc =
            (case foldE (followEdge hooks ?d (acId x)) (filter (\<lambda>edge. weFrom edge = acNodeId x) (wdEdges ?d)) ?sc2 of
              Inl e \<Rightarrow> Threw e ?sc2
            | Inr sc3 \<Rightarrow> Next sc3)"
          using Cons runs Some run Inr by (auto simp: schedulerStep_def Let_def split: sum.split)
        have grows: "queueGrows ?sc2 (outcome (schedulerStep hooks limits sc))"
          unfolding step by (auto split: sum.split intro: followEdges_grow)
        have "stepExecutes hooks sc (schedulerStep hooks limits sc)"
          unfolding stepExecutes_def
          by (rule exI [of _ x], rule exI [of _ q], rule exI [of _ node], rule exI [of _ res], rule exI [of _ sc1], rule exI [of _ ?sc2])
            (use Cons run frame findNode_id [OF Some] grows Inr in
              \<open>simp add: recordCompletion_def finishActivation_def pushActivation_def afterRun_def\<close>)
        then show ?thesis by simp
      qed
    qed
  qed
qed

section \<open>The whole run\<close>

text \<open>An activation of the scheduler and its record in the log.\<close>

definition recorded :: "activation \<Rightarrow> activation_record \<Rightarrow> bool" where
  "recorded a record' \<longleftrightarrow>
     arId record' = acId a \<and> arNodeId record' = acNodeId a \<and> arRevision record' = acRevision a \<and> arParents record' = acParents a
     \<and> (acStatus a = Completed \<and> arStatus record' = RecCompleted \<and> arOutput record' = acOutput a \<and> arError record' = None
        \<or> acStatus a = Failed \<and> arStatus record' = RecFailed \<and> arOutput record' = acOutput a
          \<and> map_option NodeThrew (arError record') = acError a)"

definition replayed :: "jstring \<Rightarrow> 'h runner_world scheduler \<Rightarrow> bool" where
  "replayed i sc \<longleftrightarrow> (\<exists>records. logged i (scWorld sc) (scState sc) records
     \<and> list_all2 recorded (filter executed (scActivations sc)) records)"

definition runInv :: "jstring \<Rightarrow> 'h runner_world scheduler \<Rightarrow> bool" where
  "runInv i sc \<longleftrightarrow> replayed i sc \<and> map acId (scActivations sc @ scQueue sc) = map activationId [1 ..< scNextId sc]
     \<and> 1 \<le> scNextId sc \<and> (\<forall>a \<in> set (scQueue sc). acError a = None)"

lemma runInv_fresh:
  assumes "runInv i sc" and "scQueue sc = x # q" and "list_all2 recorded (filter executed (scActivations sc)) records"
  shows "acId x \<notin> set (map arId records)"
proof -
  have "distinct (map activationId [1 ..< scNextId sc])"
    by (simp add: distinct_map inj_on_def activationId_inj)
  then have "distinct (map acId (scActivations sc @ x # q))" using assms(1,2) by (simp add: runInv_def)
  then have x: "acId x \<notin> set (map acId (scActivations sc))" by simp
  have "map arId records = map acId (filter executed (scActivations sc))"
    using assms(3) by (induction rule: list_all2_induct) (auto simp: recorded_def)
  then show ?thesis using x by auto
qed

lemma runStep_inv:
  assumes host: "hostRespects (roRuntimeHost options)" and inv: "runInv i sc"
  shows "replayed i (outcome (schedulerStep (runnerHooks options) limits sc))"
    and "schedulerStep (runnerHooks options) limits sc = Next sc' \<Longrightarrow> runInv i sc'"
proof -
  let ?it = "schedulerStep (runnerHooks options) limits sc"
  obtain records where l: "logged i (scWorld sc) (scState sc) records"
    and m: "list_all2 recorded (filter executed (scActivations sc)) records"
    and ids: "map acId (scActivations sc @ scQueue sc) = map activationId [1 ..< scNextId sc]" "1 \<le> scNextId sc"
    and queue: "\<forall>a \<in> set (scQueue sc). acError a = None"
    using inv by (auto simp: runInv_def replayed_def)
  have "replayed i (outcome ?it) \<and> (\<not> ended ?it \<longrightarrow> runInv i (outcome ?it))"
    using schedulerStep_cases [of sc "runnerHooks options" limits]
  proof (elim disjE)
    assume "stepIdle sc ?it"
    then show ?thesis using inv by (simp add: stepIdle_def runInv_def replayed_def)
  next
    assume "stepSkips sc ?it"
    then obtain x q x' where s: "scQueue sc = x # q" "scActivations (outcome ?it) = scActivations sc @ [x']" "\<not> executed x'"
      "acId x' = acId x" "scState (outcome ?it) = scState sc" "scWorld (outcome ?it) = scWorld sc"
      "scQueue (outcome ?it) = q" "scNextId (outcome ?it) = scNextId sc"
      by (auto simp: stepSkips_def)
    have "replayed i (outcome ?it)" using l m s by (auto simp: replayed_def)
    then show ?thesis using s ids queue by (simp add: runInv_def)
  next
    assume "stepExecutes (runnerHooks options) sc ?it"
    then obtain x q node res sc1 sc2 where s: "scQueue sc = x # q" "wnId node = acNodeId x"
      and run: "runNode (runnerHooks options) (x\<lparr>acStatus := Running\<rparr>) node
        (pushActivation (x\<lparr>acStatus := Running\<rparr>) (sc\<lparr>scQueue := q\<rparr>)) = (res, sc1)"
      and sc2: "scActivations sc2 = scActivations sc @ [afterRun (x\<lparr>acStatus := Running\<rparr>) res]"
        "scState sc2 = scState sc1" "scWorld sc2 = scWorld sc1" "scQueue sc2 = q" "scNextId sc2 = scNextId sc"
      and grows: "queueGrows sc2 (outcome ?it)"
      unfolding stepExecutes_def by blast
    let ?running = "x\<lparr>acStatus := Running\<rparr>" and ?x' = "afterRun (x\<lparr>acStatus := Running\<rparr>) res"
    have fresh: "acId ?running \<notin> set (map arId records)" using runInv_fresh [OF inv s(1) m] by simp
    have l0: "logged i (scWorld (pushActivation ?running (sc\<lparr>scQueue := q\<rparr>)))
        (scState (pushActivation ?running (sc\<lparr>scQueue := q\<rparr>))) records"
      using l by (simp add: pushActivation_def)
    from runNode_logged [OF host l0 fresh run] obtain r record' where r: "logged i (scWorld sc1) (scState sc1) (records @ [record'])"
      "endedRecord ?running (wnId node) r record'"
      "res = (case r of Inl message \<Rightarrow> Inl (NodeThrew message, None) | Inr out \<Rightarrow> Inr out)"
      by blast
    have x': "executed ?x'" "recorded ?x' record'" "acId ?x' = acId x"
      using r(2,3) s queue
      by (auto simp: afterRun_def executed_def recorded_def endedRecord_def split: sum.splits)
    have "replayed i sc2"
      unfolding replayed_def sc2
      by (rule exI [of _ "records @ [record']"]) (use r(1) m x' in \<open>simp add: list_all2_appendI\<close>)
    then have rep: "replayed i (outcome ?it)" using grows by (simp add: replayed_def queueGrows_def)
    have "runInv i (outcome ?it)"
    proof -
      obtain new where new: "scQueue (outcome ?it) = q @ new" "map acId new = map activationId [scNextId sc ..< scNextId (outcome ?it)]"
        "scNextId sc \<le> scNextId (outcome ?it)" "\<forall>a \<in> set new. acError a = None" "scActivations (outcome ?it) = scActivations sc2"
        using grows sc2 by (auto simp: queueGrows_def)
      have "[1 ..< scNextId (outcome ?it)] = [1 ..< scNextId sc] @ [scNextId sc ..< scNextId (outcome ?it)]"
        using upt_add_eq_append [of 1 "scNextId sc" "scNextId (outcome ?it) - scNextId sc"] ids(2) new(3) by simp
      then show ?thesis using rep new ids queue s sc2 x'(3) by (auto simp: runInv_def)
    qed
    with rep show ?thesis by simp
  qed
  then show "replayed i (outcome ?it)" and "?it = Next sc' \<Longrightarrow> runInv i sc'" by auto
qed

lemma runWorkflow_replayed:
  assumes host: "hostRespects (roRuntimeHost options)" and readable: "reconstructRuns (rwLog w) = Inr runs"
  shows "replayed (roRunId options) (outcome (runWorkflow n options w))"
proof -
  obtain run entries where start: "startWorkflowRun (roDefinition options) (roRunId options) (roGraphRevision options) (rwLog w) = (run, entries)"
    by fastforce
  let ?w = "w\<lparr>rwLog := entries, rwRun := run\<rparr>" and ?i = "roRunId options"
  let ?limits = "\<lparr>slMaxActivations = roMaxActivations options, slMaxNodeActivations = roMaxNodeActivations options\<rparr>"
  obtain revisionId where run: "run = newRun ?i revisionId (roDefinition options)"
    "entries = rwLog w @ [RunEventEntry (RunStarted ?i revisionId (roDefinition options))]"
    using start by (auto simp: startWorkflowRun_def Let_def appendEvent_def)
  have "logged ?i ?w [] []"
    using readable by (simp add: logged_def run reconstructRuns_snoc replayEntry_def newRun_def)
  then have inv: "runInv ?i (startScheduler (runnerHooks options) (roStartNode options) [] ?w)"
    by (auto simp: runInv_def replayed_def startScheduler_def createNextActivation_def activationId_def)
  have "replayed ?i (outcome (schedulerLoop n (runnerHooks options) ?limits
      (startScheduler (runnerHooks options) (roStartNode options) [] ?w)))"
  proof (rule schedulerLoop_rule [where I = "runInv ?i", OF inv])
    show "runInv ?i sc \<Longrightarrow> schedulerStep (runnerHooks options) ?limits sc = Next sc' \<Longrightarrow> runInv ?i sc'" for sc sc'
      by (rule runStep_inv(2) [OF host])
    show "runInv ?i sc \<Longrightarrow> schedulerStep (runnerHooks options) ?limits sc = it \<Longrightarrow> replayed ?i (outcome it)" for sc it
      using runStep_inv(1) [OF host, of ?i sc ?limits] by simp
    show "runInv ?i sc \<Longrightarrow> replayed ?i sc" for sc by (simp add: runInv_def)
  qed
  then show ?thesis by (simp add: runWorkflow_def start runWorkflowScheduler_def)
qed

section \<open>Conditions of well-formed graphs\<close>

definition conditionsParse :: "workflow_definition \<Rightarrow> bool" where
  "conditionsParse d \<longleftrightarrow> (\<forall>edge \<in> set (wdEdges d).
     case weCondition edge of None \<Rightarrow> True | Some source \<Rightarrow> \<exists>expression. parseWorkflowCondition source = Inr expression)"

lemma parsed_conditions:
  assumes "parseWorkflowDefinition yaml source sourcePath = Inr d"
  shows "conditionsParse d"
proof -
  obtain rawEdges where "parseEdges rawEdges sourcePath = Inr (wdEdges d)"
    using assms by (auto simp: parseWorkflowDefinition_def bindE_eq_Inr simp del: js_simps_base)
  then have "\<exists>i raw. parseEdge sourcePath i raw = Inr edge" if "edge \<in> set (wdEdges d)" for edge
    using that by (auto simp: parseEdges_def split: js_val.splits dest: mapIndexD_Inr)
  then show ?thesis by (fastforce simp: conditionsParse_def split: option.split dest: parseEdge_Inr)
qed

lemma patched_conditions:
  assumes "applyWorkflowGraphPatch d patch actor = Inr (d', pv)"
  shows "conditionsParse d'"
proof -
  have "validateDefinitionGraph d' = Inr ()"
    using assms by (auto simp: applyWorkflowGraphPatch_def applyPatchOperations_def bindE_eq_Inr split: if_splits)
  then show ?thesis by (auto simp: validateDefinitionGraph_iff graphOk_def list_all_iff edgeOk_def conditionsParse_def)
qed

lemma followEdges_never_throw:
  assumes "\<forall>edge \<in> set edges. case weCondition edge of None \<Rightarrow> True | Some source \<Rightarrow> \<exists>expression. parseWorkflowCondition source = Inr expression"
  shows "foldE (followEdge hooks d aid) edges sc \<noteq> Inl e"
  using assms
proof (induction edges arbitrary: sc)
  case (Cons edge edges)
  have "followEdge hooks d aid edge sc \<noteq> Inl e'" for e'
    using Cons.prems
    by (auto simp: followEdge_def bindE_eq_Inl evaluateWorkflowCondition_def Let_def simp del: collectJoinParentIds.simps
        split: option.splits list.splits if_splits)
  with Cons show ?case by (cases "followEdge hooks d aid edge sc") auto
qed simp

text \<open>The graph of a run changes only through accepted patches.\<close>

definition graphKept :: "'z run_world_scheme \<Rightarrow> 'z run_world_scheme \<Rightarrow> bool" where
  "graphKept w w' \<longleftrightarrow> (conditionsParse (rsDefinition (rwRun w)) \<longrightarrow> conditionsParse (rsDefinition (rwRun w')))"

lemma graphKept_order: "reflp graphKept" "transp graphKept"
  by (auto simp: graphKept_def intro: reflpI transpI)

lemma hostActs_graphKept: "hostActs w w' \<Longrightarrow> graphKept w w'"
proof (induction rule: hostActs.induct)
  case (acts_apply w w1 patch context')
  have "graphKept w1 (snd (applyWorkflowGraphPatchToRun patch context' w1))"
    by (auto simp: graphKept_def applyWorkflowGraphPatchToRun_def Let_def appendWorkflowGraphRevision_def
        split: sum.split dest: patched_conditions)
  then show ?case using acts_apply.IH by (auto simp: graphKept_def)
next
  case (acts_propose w w1 patch ctx)
  then show ?case by (auto simp: graphKept_def proposeWorkflowGraphPatchToRun_def Let_def split: sum.split)
qed (simp_all add: graphKept_def)

lemma keeps_apply: "keeps R m \<Longrightarrow> R w (snd (m w))"
  by (simp add: keeps_def)

lemma executeStarted_graphKept:
  assumes "hostRespects (roRuntimeHost options)"
  shows "graphKept w (snd (executeStarted options runId activation node prompt w))"
proof -
  have host: "keeps graphKept (executeWorkflowNode n a (roRuntimeHost options) override)" for n a override
    by (simp add: keeps_def hostActs_graphKept executeWorkflowNode_acts [OF assms])
  have logs: "keeps graphKept (updateLog f)" for f
    by (simp add: keeps_def updateLog_def graphKept_def)
  note bind = keeps_bindSE [OF graphKept_order(2)] and pure = keeps_pure [OF graphKept_order(1)]
  have patch: "keeps graphKept (case p of None \<Rightarrow> returnSE () | Some patch \<Rightarrow> updateLog (f patch))" for p and f :: "'b \<Rightarrow> _"
    by (cases p) (simp_all only: option.case pure(1) logs)
  have branch: "keeps graphKept (if b then throwSE message else m)" if "keeps graphKept m" for b message and m :: "('c, 'h runner_world) node_call"
    using that pure(2) by (cases b) simp_all
  show ?thesis
    unfolding executeStarted_def Let_def
    by (rule keeps_apply) (rule bind pure(3) branch host patch logs pure(1))+
qed

lemma executeAndPersist_graphKept:
  assumes "hostRespects (roRuntimeHost options)"
    and "executeAndPersistActivation options activation node state completed w = (r, w')"
  shows "graphKept w w'"
proof (cases "resolvePromptForActivation options (roEnv options w) activation node state completed")
  case (Inl e)
  then show ?thesis using assms(2) by (auto simp: executeAndPersistActivation_def Let_def graphKept_def)
next
  case (Inr prompt)
  let ?w0 = "w\<lparr>rwLog := appendStarted (rsId (rwRun w)) activation node (inputSnapshotFromPrompt prompt) (rwLog w)\<rparr>"
  obtain r1 w1 where e: "executeStarted options (rsId (rwRun w)) activation node prompt ?w0 = (r1, w1)" by fastforce
  have "graphKept ?w0 w1" using executeStarted_graphKept [OF assms(1)] e by (metis snd_conv)
  moreover have "rwRun w' = rwRun w1"
    using assms(2) Inr e by (cases r1) (auto simp: executeAndPersistActivation_def Let_def)
  ultimately show ?thesis by (simp add: graphKept_def)
qed

lemma runNode_graphKept:
  assumes "hostRespects (roRuntimeHost options)" and "runNode (runnerHooks options) activation node sc = (res, sc1)"
  shows "graphKept (scWorld sc) (scWorld sc1)"
proof -
  let ?done = "filter (\<lambda>a. acStatus a = Completed) (scActivations sc)"
  obtain r w' where e: "executeAndPersistActivation options activation node (scState sc) ?done (scWorld sc) = (r, w')"
    by fastforce
  have "scWorld sc1 = w'"
    using assms(2) e
    by (auto simp: runNode_def runnerHooks_def Let_def split: sum.splits option.splits prod.splits)
  then show ?thesis using executeAndPersist_graphKept [OF assms(1) e] by simp
qed

text \<open>A step throws only at the end of an executed activation, where the edges are followed.\<close>

lemma schedulerStep_Threw:
  assumes "schedulerStep hooks limits sc = Threw e sc2"
  shows "\<exists>aid edges. set edges \<subseteq> set (wdEdges (hkDefinition hooks (scWorld sc2)))
    \<and> foldE (followEdge hooks (hkDefinition hooks (scWorld sc2)) aid) edges sc2 = Inl e"
  using assms
  by (auto simp: schedulerStep_def Let_def split: list.splits if_splits option.splits prod.splits sum.splits
      intro: exI [of _ "acId _"]) (metis filter_is_subset)+

lemma step_graphKept:
  assumes "hostRespects (roRuntimeHost options)"
  shows "graphKept (scWorld sc) (scWorld (outcome (schedulerStep (runnerHooks options) limits sc)))"
  using schedulerStep_cases [of sc "runnerHooks options" limits]
proof (elim disjE)
  assume "stepExecutes (runnerHooks options) sc (schedulerStep (runnerHooks options) limits sc)"
  then obtain x q node res sc1 sc2 where
    run: "runNode (runnerHooks options) (x\<lparr>acStatus := Running\<rparr>) node
        (pushActivation (x\<lparr>acStatus := Running\<rparr>) (sc\<lparr>scQueue := q\<rparr>)) = (res, sc1)"
    and "scWorld sc2 = scWorld sc1" "queueGrows sc2 (outcome (schedulerStep (runnerHooks options) limits sc))"
    unfolding stepExecutes_def by blast
  then show ?thesis
    using runNode_graphKept [OF assms run] by (simp add: queueGrows_def pushActivation_def)
qed (auto simp: stepIdle_def stepSkips_def graphKept_def)

lemma loop_never_throws:
  assumes "hostRespects (roRuntimeHost options)" and "conditionsParse (rsDefinition (rwRun (scWorld sc)))"
  shows "schedulerLoop n (runnerHooks options) limits sc \<noteq> Threw e sc'"
  using assms(2)
proof (induction n arbitrary: sc)
  case (Suc n)
  have kept: "conditionsParse (rsDefinition (rwRun (scWorld (outcome (schedulerStep (runnerHooks options) limits sc)))))"
    using step_graphKept [OF assms(1), of sc limits] Suc.prems by (simp add: graphKept_def)
  show ?case
  proof (cases "schedulerStep (runnerHooks options) limits sc")
    case (Next sc1)
    then show ?thesis using Suc.IH [of sc1] kept by simp
  next
    case (Threw e1 sc1)
    obtain aid edges where t: "set edges \<subseteq> set (wdEdges (hkDefinition (runnerHooks options) (scWorld sc1)))"
      "foldE (followEdge (runnerHooks options) (hkDefinition (runnerHooks options) (scWorld sc1)) aid) edges sc1 = Inl e1"
      using schedulerStep_Threw [OF Threw] by blast
    have "hkDefinition (runnerHooks options) (scWorld sc1) = rsDefinition (rwRun (scWorld sc1))"
      by (simp add: runnerHooks_def)
    then have "\<forall>edge \<in> set edges. case weCondition edge of None \<Rightarrow> True | Some source \<Rightarrow> \<exists>expression. parseWorkflowCondition source = Inr expression"
      using kept t(1) Threw unfolding conditionsParse_def by auto
    then show ?thesis using followEdges_never_throw t(2) by blast
  qed simp
qed simp


text \<open>C36 The log of a run is enough to restore it: if the host touches runs only through graph patches and the log was readable
  before, then however far the run has got the log is readable, and the snapshot read back for the run has the graph, revisions,
  proposals and patches of the snapshot in memory, the shared state of the scheduler, and one record for each activation
  that was executed, in order, with its node, revision, parents, outcome and output or error.\<close>

theorem replay_matches_run:
  assumes "hostRespects (roRuntimeHost options)" and "reconstructRuns (rwLog w) = Inr runs"
  shows "let sc = outcome (runWorkflow n options w) in
    \<exists>runs' r. reconstructRuns (rwLog (scWorld sc)) = Inr runs' \<and> mapGet runs' (roRunId options) = Some r
      \<and> r\<lparr>rsState := [], rsActivations := []\<rparr> = (rwRun (scWorld sc))\<lparr>rsState := [], rsActivations := []\<rparr>
      \<and> rsState r = scState sc \<and> list_all2 recorded (filter executed (scActivations sc)) (rsActivations r)"
proof -
  let ?sc = "outcome (runWorkflow n options w)"
  obtain records runs' where "reconstructRuns (rwLog (scWorld ?sc)) = Inr runs'"
    "mapGet runs' (roRunId options) = Some ((rwRun (scWorld ?sc))\<lparr>rsState := scState ?sc, rsActivations := records\<rparr>)"
    "list_all2 recorded (filter executed (scActivations ?sc)) records"
    using runWorkflow_replayed [OF assms, of n] by (auto simp: replayed_def logged_def)
  then show ?thesis by (simp add: Let_def)
qed

text \<open>A script host that writes the state.\<close>

definition scriptHost :: "'h runner_world node_host" where
  "scriptHost = \<lparr>nhAgent = None,
     nhScript = Some (\<lambda>input w. (Inr (JObj [(js ''statePatch'', JArr [JObj [(js ''op'', JStr (js ''set'')),
       (js ''path'', JStr (js ''/step'')), (js ''value'', JStr (wnId (siNode input)))]])]), w)),
     nhHuman = None, nhReview = None\<rparr>"

definition scriptRun :: "unit runner_options" where
  "scriptRun = \<lparr>roDefinition = exampleDefinition, roRunId = js ''r'', roGraphRevision = None, roStartNode = js ''a'',
     roRuntimeHost = scriptHost, roModelResolution = None, roMaxActivations = Some 3, roMaxNodeActivations = None,
     roSignal = (\<lambda>w. None), roPackageRoot = None, roMaxPromptBytes = None,
     roEnv = (\<lambda>w. \<lparr>peResolve = concat, peRelative = (\<lambda>a b. b), peIsAbsolute = (\<lambda>p. False), peReadFile = Inr, peSha256 = id\<rparr>)\<rparr>"

definition emptyWorld :: "unit runner_world" where
  "emptyWorld = \<lparr>rwLog = [OtherEntry], rwRun = newRun [] [] exampleDefinition, rnHost = ()\<rparr>"

lemma scriptHost_respects: "hostRespects scriptHost"
  by (simp add: hostRespects_def scriptHost_def acts_none)

lemma replay_matches_run_witness:
  "\<exists>runs' r. reconstructRuns (rwLog (scWorld (outcome (runWorkflow 4 scriptRun emptyWorld)))) = Inr runs'
     \<and> mapGet runs' (js ''r'') = Some r \<and> rsState r = scState (outcome (runWorkflow 4 scriptRun emptyWorld))"
proof -
  have "hostRespects (roRuntimeHost scriptRun)" by (simp add: scriptRun_def scriptHost_respects)
  moreover have "reconstructRuns (rwLog emptyWorld) = Inr []"
    by (simp add: emptyWorld_def reconstructRuns_def replayEntry_def)
  ultimately have "let sc = outcome (runWorkflow 4 scriptRun emptyWorld) in
    \<exists>runs' r. reconstructRuns (rwLog (scWorld sc)) = Inr runs' \<and> mapGet runs' (roRunId scriptRun) = Some r
      \<and> r\<lparr>rsState := [], rsActivations := []\<rparr> = (rwRun (scWorld sc))\<lparr>rsState := [], rsActivations := []\<rparr>
      \<and> rsState r = scState sc \<and> list_all2 recorded (filter executed (scActivations sc)) (rsActivations r)"
    by (rule replay_matches_run)
  then show ?thesis by (auto simp: Let_def scriptRun_def)
qed


end
