(* ===== verification/Wf_Runtime_Facts.thy ===== *)
theory Wf_Runtime_Facts
  imports Wf_Runtime Wf_State_Facts Wf_Definition_Facts
begin

text \<open>
  Prompts and node outputs: a resolved prompt is a string of bounded size that its source really holds, under the read scopes of
  the node and from a completed activation; and what becomes of the result of a subagent task.
\<close>

section \<open>Prompts\<close>

definition promptLimit :: "prompt_context \<Rightarrow> nat" where
  "promptLimit px = (case pxMaxBytes px of Some n \<Rightarrow> n | None \<Rightarrow> DEFAULT_WORKFLOW_MAX_PROMPT_BYTES)"

text \<open>The value is held at the path, which lies in a scope that the node may read.\<close>

definition readsAt :: "workflow_node \<Rightarrow> js_obj \<Rightarrow> jstring \<Rightarrow> jstring \<Rightarrow> bool" where
  "readsAt node state path value \<longleftrightarrow>
     startsWith path (js ''/'') \<and> resolveSegments (pointerSegments path) (JObj state) = JStr value
     \<and> (case wnReads node of
          None \<Rightarrow> True
        | Some scopes \<Rightarrow> \<exists>scope \<in> set scopes. scope = js ''/'' \<or> path = scope \<or> startsWith path (scope @ js ''/''))"

text \<open>The activation that an output prompt may read: the only one among the parents, or the latest to complete.\<close>

definition selectedBy :: "activation_selector \<Rightarrow> jstring \<Rightarrow> prompt_context \<Rightarrow> activation \<Rightarrow> bool" where
  "selectedBy selector sourceNode px a \<longleftrightarrow>
     (case selector of
        SelParent \<Rightarrow> filter (\<lambda>b. acId b \<in> set (pxParents px) \<and> acNodeId b = sourceNode) (pxCompleted px) = [a]
      | SelLatestCompleted \<Rightarrow>
          (\<exists>before later. pxCompleted px = before @ a # later \<and> acNodeId a = sourceNode \<and> acStatus a = Completed
             \<and> \<not> list_ex (\<lambda>b. acNodeId b = sourceNode \<and> acStatus b = Completed) later))"

definition promptFrom :: "prompt_env \<Rightarrow> workflow_node \<Rightarrow> prompt_context \<Rightarrow> prompt_source \<Rightarrow> resolved_prompt \<Rightarrow> bool" where
  "promptFrom E node px source p \<longleftrightarrow>
     (case source of
        PromptInline t \<Rightarrow> rpValue p = t \<and> rpSource p = ResolvedFrom source
      | PromptFile path \<Rightarrow>
          startsWith path (js ''./'') \<and> rpSource p = ResolvedFrom source
          \<and> (\<exists>root'. pxPackageRoot px = Some root'
               \<and> \<not> startsWith (peRelative E (peResolve E [root']) (peResolve E [peResolve E [root'], path])) (js ''..'')
               \<and> peReadFile E (peResolve E [peResolve E [root'], path]) = Inr (rpValue p))
      | PromptState path \<Rightarrow> readsAt node (pxState px) path (rpValue p) \<and> rpSource p = ResolvedFrom source
      | PromptHuman path \<Rightarrow> readsAt node (pxState px) path (rpValue p) \<and> rpSource p = ResolvedFrom source
      | PromptOutput sourceNode path selector \<Rightarrow>
          (\<exists>a out. selectedBy selector sourceNode px a \<and> acOutput a = Some out
             \<and> readsAt node (outputObject out) path (rpValue p)
             \<and> rpSource p = ResolvedOutput sourceNode path selector (acId a)))"

lemma resolvedPrompt_Inr:
  "resolvedPrompt E node source value label px = Inr p \<Longrightarrow>
     value = JStr (rpValue p) \<and> rpByteLength p = utf8Length (rpValue p) \<and> rpByteLength p \<le> promptLimit px
     \<and> rpContentHash p = contentHash E (rpValue p) \<and> rpSource p = source"
  by (auto simp: resolvedPrompt_def promptLimit_def Let_def split: js_val.splits if_splits)

lemma readStateE_Inr:
  assumes "readStateE state path node = Inr (JStr value)"
  shows "readsAt node state path value"
proof -
  have "readWorkflowState state path (noPolicy\<lparr>apReadPaths := wnReads node\<rparr>) = Inr (JStr value)"
    using assms by (auto simp: readStateE_def split: sum.splits)
  then have "assertPointerAllowed path (wnReads node) (js ''read from'') = Inr ()" and g: "getStatePath state path = Inr (JStr value)"
    by (auto simp: readWorkflowState_def bindE_eq_Inr simp del: js_simps_base)
  note a = assertPointerAllowed_Inr [OF this(1)]
  have "resolveSegments (pointerSegments path) (JObj state) = JStr value"
    using g by (auto simp: getStatePath_def bindE_eq_Inr parseJsonPointer_iff)
  moreover have "scope = js ''/'' \<or> path = scope \<or> startsWith path (scope @ js ''/'')" if "pointerWithinScope path scope = Inr True" for scope
    using that by (auto simp: pointerWithinScope_def bindE_eq_Inr split: if_splits)
  ultimately show ?thesis
    using a unfolding readsAt_def by (auto simp del: js_simps_base split: option.split) blast
qed

lemma selectOutput_Inr:
  assumes "selectOutputPromptActivation node sourceNode selector px = Inr a"
  shows "selectedBy selector sourceNode px a"
proof (cases selector)
  case SelParent
  then show ?thesis
    using assms by (auto simp: selectOutputPromptActivation_def selectParentActivation_def selectedBy_def split: list.splits)
next
  case SelLatestCompleted
  let ?P = "\<lambda>b. acNodeId b = sourceNode \<and> acStatus b = Completed"
  have ne: "filter ?P (pxCompleted px) \<noteq> []" and a: "a = last (filter ?P (pxCompleted px))"
    using assms SelLatestCompleted
    by (auto simp: selectOutputPromptActivation_def selectLatestCompletedActivation_def Let_def split: if_splits)
  have "\<exists>before later. xs = before @ last (filter ?P xs) # later \<and> ?P (last (filter ?P xs)) \<and> \<not> list_ex ?P later"
    if "filter ?P xs \<noteq> []" for xs
    using that
  proof (induction xs rule: rev_induct)
    case (snoc x xs)
    show ?case
    proof (cases "?P x")
      case True
      then show ?thesis by (intro exI [of _ xs] exI [of _ "[]"]) simp
    next
      case False
      with snoc obtain before later where "xs = before @ last (filter ?P xs) # later" "?P (last (filter ?P xs))" "\<not> list_ex ?P later"
        by auto
      then show ?thesis using False by (intro exI [of _ before] exI [of _ "later @ [x]"]) auto
    qed
  qed simp
  from this [OF ne] show ?thesis using SelLatestCompleted a by (simp add: selectedBy_def)
qed

lemma readPackagePromptFile_Inr:
  "readPackagePromptFile E node path px = Inr t \<Longrightarrow>
     startsWith path (js ''./'') \<and> (\<exists>root'. pxPackageRoot px = Some root'
       \<and> \<not> startsWith (peRelative E (peResolve E [root']) (peResolve E [peResolve E [root'], path])) (js ''..'')
       \<and> peReadFile E (peResolve E [peResolve E [root'], path]) = Inr t)"
  by (auto simp: readPackagePromptFile_def Let_def split: option.splits if_splits sum.splits)

lemma prompt_from_state:
  assumes "readStateE (pxState px) path node = Inr v" and "resolvedPrompt E node (ResolvedFrom source) v label px = Inr p"
    and "source = PromptState path \<or> source = PromptHuman path"
  shows "promptFrom E node px source p"
proof -
  have "v = JStr (rpValue p)" "rpSource p = ResolvedFrom source" using resolvedPrompt_Inr [OF assms(2)] by auto
  then show ?thesis using readStateE_Inr assms(1,3) by (auto simp: promptFrom_def)
qed

lemma prompt_from_output:
  assumes "selectOutputPromptActivation node sourceNode selector px = Inr a" and "readOutputPromptValue node path a = Inr v"
    and "resolvedPrompt E node (ResolvedOutput sourceNode path selector (acId a)) v label px = Inr p"
  shows "promptFrom E node px (PromptOutput sourceNode path selector) p"
proof -
  have v: "v = JStr (rpValue p)" "rpSource p = ResolvedOutput sourceNode path selector (acId a)"
    using resolvedPrompt_Inr [OF assms(3)] by auto
  obtain out where "acOutput a = Some out" "readStateE (outputObject out) path node = Inr v"
    using assms(2) by (auto simp: readOutputPromptValue_def split: option.splits)
  then show ?thesis using selectOutput_Inr [OF assms(1)] readStateE_Inr v by (auto simp: promptFrom_def)
qed

lemma resolved_from_source:
  assumes "wnPromptSource node = Some source" and "resolveWorkflowPrompt E node px = Inr (Some p)"
  shows "\<exists>src value label. resolvedPrompt E node src value label px = Inr p \<and> promptFrom E node px source p"
proof (cases source)
  case (PromptInline t)
  then have "resolvedPrompt E node (ResolvedFrom source) (JStr t) (js ''/inline'') px = Inr p"
    using assms by (auto simp: resolveWorkflowPrompt_def bindE_eq_Inr simp del: js_simps_base)
  then show ?thesis using resolvedPrompt_Inr PromptInline unfolding promptFrom_def by fastforce
next
  case (PromptFile path)
  then obtain t where t: "readPackagePromptFile E node path px = Inr t"
    "resolvedPrompt E node (ResolvedFrom source) (JStr t) path px = Inr p"
    using assms by (auto simp: resolveWorkflowPrompt_def bindE_eq_Inr)
  have "t = rpValue p" "rpSource p = ResolvedFrom source" using resolvedPrompt_Inr [OF t(2)] by auto
  then have "promptFrom E node px source p" using readPackagePromptFile_Inr [OF t(1)] by (simp add: promptFrom_def PromptFile)
  with t(2) show ?thesis by blast
next
  case (PromptState path)
  then obtain v where "readStateE (pxState px) path node = Inr v" "resolvedPrompt E node (ResolvedFrom source) v path px = Inr p"
    using assms by (auto simp: resolveWorkflowPrompt_def bindE_eq_Inr)
  then show ?thesis using prompt_from_state PromptState by blast
next
  case (PromptHuman path)
  then obtain v where "readStateE (pxState px) path node = Inr v" "resolvedPrompt E node (ResolvedFrom source) v path px = Inr p"
    using assms by (auto simp: resolveWorkflowPrompt_def bindE_eq_Inr)
  then show ?thesis using prompt_from_state PromptHuman by blast
next
  case (PromptOutput sourceNode path selector)
  then obtain a v where "selectOutputPromptActivation node sourceNode selector px = Inr a" "readOutputPromptValue node path a = Inr v"
    "resolvedPrompt E node (ResolvedOutput sourceNode path selector (acId a)) v path px = Inr p"
    using assms by (auto simp: resolveWorkflowPrompt_def bindE_eq_Inr)
  then show ?thesis using prompt_from_output PromptOutput by blast
qed

text \<open>C38 A resolved prompt is what its source says and no more: its text comes from the node itself, from a file inside the
  package, or from a path of the shared state or of an earlier output that lies in the read scopes of the node; an output is
  that of the one matching parent or of the latest completed activation of the node named; the length on record is that of
  the text in UTF-8 and within the limit, and the hash is that of the text.\<close>

theorem resolved_prompt_sound:
  assumes "resolveWorkflowPrompt E node px = Inr (Some p)"
  shows "(\<exists>source. wnPromptSource node = Some source \<and> promptFrom E node px source p)
    \<and> rpByteLength p = utf8Length (rpValue p) \<and> rpByteLength p \<le> promptLimit px
    \<and> rpContentHash p = contentHash E (rpValue p)"
proof -
  obtain source where s: "wnPromptSource node = Some source" using assms by (auto simp: resolveWorkflowPrompt_def split: option.splits)
  then obtain src v label where "resolvedPrompt E node src v label px = Inr p" "promptFrom E node px source p"
    using resolved_from_source [OF s assms] by blast
  then show ?thesis using s resolvedPrompt_Inr by blast
qed

lemma resolved_prompt_sound_witness:
  "promptFrom \<lparr>peResolve = concat, peRelative = (\<lambda>a b. b), peIsAbsolute = (\<lambda>p. False), peReadFile = Inr, peSha256 = id\<rparr>
     ((plainNode ''b'')\<lparr>wnPromptSource := Some (PromptState (js ''/plan/text'')), wnReads := Some [js ''/plan'']\<rparr>)
     \<lparr>pxState = [(js ''plan'', JObj [(js ''text'', JStr (js ''go''))])], pxCompleted = [], pxParents = [],
      pxPackageRoot = None, pxMaxBytes = Some 2\<rparr>
     (PromptState (js ''/plan/text''))
     \<lparr>rpValue = js ''go'', rpByteLength = 2, rpContentHash = js ''sha256:go'', rpSource = ResolvedFrom (PromptState (js ''/plan/text''))\<rparr>"
proof -
  let ?E = "\<lparr>peResolve = concat, peRelative = (\<lambda>a b. b), peIsAbsolute = (\<lambda>p. False), peReadFile = Inr, peSha256 = id\<rparr>"
  let ?node = "(plainNode ''b'')\<lparr>wnPromptSource := Some (PromptState (js ''/plan/text'')), wnReads := Some [js ''/plan'']\<rparr>"
  let ?px = "\<lparr>pxState = [(js ''plan'', JObj [(js ''text'', JStr (js ''go''))])], pxCompleted = [], pxParents = [],
      pxPackageRoot = None, pxMaxBytes = Some 2\<rparr>"
  have "resolveWorkflowPrompt ?E ?node ?px = Inr (Some \<lparr>rpValue = js ''go'', rpByteLength = 2,
      rpContentHash = js ''sha256:go'', rpSource = ResolvedFrom (PromptState (js ''/plan/text''))\<rparr>)"
    by (simp add: resolveWorkflowPrompt_def readStateE_def readWorkflowState_def assertPointerAllowed_def parseJsonPointer_def
        startsWith_def decodeSegment_def pointerWithinScope_def getStatePath_def objGet_def resolvedPrompt_def Let_def
        contentHash_def noPolicy_def)
  from resolved_prompt_sound [OF this] obtain source
    where "wnPromptSource ?node = Some source" and "promptFrom ?E ?node ?px source \<lparr>rpValue = js ''go'', rpByteLength = 2,
      rpContentHash = js ''sha256:go'', rpSource = ResolvedFrom (PromptState (js ''/plan/text''))\<rparr>" by blast
  moreover from this(1) have "source = PromptState (js ''/plan/text'')" by (simp del: js_simps_base)
  ultimately show ?thesis by (simp only:)
qed

section \<open>Results of tasks\<close>

definition presentText :: "jstring option \<Rightarrow> bool" where
  "presentText s \<longleftrightarrow> s \<noteq> None \<and> s \<noteq> Some []"

text \<open>A character that JSON leaves as it is.\<close>

definition plainUnit :: "nat \<Rightarrow> bool" where
  "plainUnit c \<longleftrightarrow> 32 \<le> c \<and> c < 128 \<and> c \<noteq> 34 \<and> c \<noteq> 92"

lemma jsonQuoteBody_plain: "list_all plainUnit s \<Longrightarrow> jsonQuoteBody s = s"
  by (induction s) (auto simp: plainUnit_def isHighSurrogate_def isLowSurrogate_def)

lemma exitCode_json: "jsonStringify (JObj [(js ''exitCode'', JNum (NumFin 0))]) = Some ([123] @ ([34] @ js ''exitCode'' @ [34]) @ [58] @ js ''0'' @ [125])"
proof -
  have "list_all plainUnit (js ''exitCode'')" by (simp add: plainUnit_def)
  moreover have "\<not> isArrayIndex (js ''exitCode'')" by (simp add: isArrayIndex_def isJsDigit_def)
  moreover have "numberToString (NumFin 0) = js ''0''" by (simp add: numberToString_def)
  ultimately show ?thesis by (simp add: jsonQuote_def jsonQuoteBody_plain del: js_simps_base)
qed

lemma exitData_small: "assertInlineActivationData [(js ''exitCode'', JNum (NumFin 0))] (policyOf node) = Inr ()"
proof -
  have "utf8Length ([123] @ ([34] @ js ''exitCode'' @ [34]) @ [58] @ js ''0'' @ [125]) = 14" by simp
  then show ?thesis
    unfolding assertInlineActivationData_def exitCode_json
    by (simp add: policyOf_def noPolicy_def maxInlineValueBytes_def DEFAULT_WORKFLOW_MAX_INLINE_VALUE_BYTES_def del: js_simps_base)
qed

text \<open>A subagent task that exits with 0 completes its agent node exactly when its trimmed output, or the default summary in
  its place, has at most 8192 bytes in UTF-8: the output becomes the summary, whose limit then rejects it. A task that exits
  with another code fails the node with its error, its standard error or the code, the first that is not empty.\<close>

theorem agent_task_outcome:
  "(case activationOutputFromTaskResult nodeId result of
      Inl message \<Rightarrow> tsExitCode result \<noteq> NumFin 0
        \<and> message = quoted ''workflow agent node '' nodeId '' failed: ''
            @ (if presentText (tsError result) then the (tsError result)
               else if presentText (tsStderr result) then the (tsStderr result) else exitReason (tsExitCode result))
    | Inr value \<Rightarrow> tsExitCode result = NumFin 0
        \<and> (let summary = (if trim (tsOutput result) = [] then quoted ''agent node '' nodeId '' completed'' else trim (tsOutput result)) in
           validateWorkflowActivationOutput value (policyOf node) =
             (if utf8Length summary \<le> 8192
              then Inr \<lparr>aoSummary = Some summary, aoData = Some [(js ''exitCode'', JNum (NumFin 0))], aoStatePatch = None,
                        aoArtifacts = (if presentText (tsOutputPath result) then Some [js ''local://'' @ the (tsOutputPath result)] else None)\<rparr>
              else Inl (TextExceedsLimit (js ''workflow activation output summary'')))))"
proof (cases "tsExitCode result = NumFin 0")
  case False
  then show ?thesis by (simp add: activationOutputFromTaskResult_def presentText_def)
next
  case True
  let ?summary = "if trim (tsOutput result) = [] then quoted ''agent node '' nodeId '' completed'' else trim (tsOutput result)"
  let ?artifacts = "if presentText (tsOutputPath result) then [(js ''artifacts'', JArr [JStr (js ''local://'' @ the (tsOutputPath result))])] else []"
  let ?raw = "[(js ''summary'', JStr ?summary), (js ''data'', JObj [(js ''exitCode'', JNum (NumFin 0))])] @ ?artifacts"
  have val': "activationOutputFromTaskResult nodeId result = Inr (JObj ?raw)"
    using True by (cases "tsOutputPath result") (auto simp: activationOutputFromTaskResult_def presentText_def)
  have get: "objGet ?raw (js ''summary'') = JStr ?summary" "objGet ?raw (js ''data'') = JObj [(js ''exitCode'', JNum (NumFin 0))]"
    "objGet ?raw (js ''artifacts'') = (if presentText (tsOutputPath result) then JArr [JStr (js ''local://'' @ the (tsOutputPath result))] else JUndef)"
    "objGet ?raw (js ''statePatch'') = JUndef" "assertNoRawTranscriptFields ?raw = Inr ()"
    by (simp_all add: objGet_def objectPrototypeNames_def assertNoRawTranscriptFields_def)
  have "validateArtifacts ?raw = Inr (if presentText (tsOutputPath result) then Some [js ''local://'' @ the (tsOutputPath result)] else None)"
    unfolding validateArtifacts_def get(3)
    by (simp add: expectStringList_def mapIndexE_def expectString_def eachE_def assertArtifactReference_def startsWith_def)
  moreover have "validateData ?raw (policyOf node) = Inr (Some [(js ''exitCode'', JNum (NumFin 0))])"
    unfolding validateData_def get(2) using exitData_small by (simp add: expectRecord_def)
  moreover have "validateStatePatch ?raw (policyOf node) = Inr None"
    unfolding validateStatePatch_def get(4) by simp
  moreover have "validateSummary ?raw (policyOf node) = (if utf8Length ?summary \<le> 8192 then Inr (Some ?summary)
      else Inl (TextExceedsLimit (js ''workflow activation output summary'')))"
    unfolding validateSummary_def get(1)
    by (simp add: expectString_def assertInlineText_def maxSummaryBytes_def policyOf_def noPolicy_def
        DEFAULT_WORKFLOW_MAX_SUMMARY_BYTES_def del: js_simps_base)
  ultimately show ?thesis
    unfolding val' sum.case Let_def using True get(5)
    by (simp add: validateWorkflowActivationOutput_def expectRecord_def del: js_simps_base)
qed

end
