(* ===== verification/Js_Number.thy ===== *)
theory Js_Number
  imports Js_Value
begin

text \<open>
  Arithmetic on the numbers of JavaScript: each operation is the exact one followed by the rounding to the nearest double. The
  two zeros are one value, so a quotient by zero takes the sign of a positive zero.
\<close>

definition roundRat :: "rat \<Rightarrow> jsnum" where
  "roundRat r = (case quotient_of r of (a, b) \<Rightarrow> nearestDouble (a < 0) (nat \<bar>a\<bar>) (nat b))"

fun numAdd :: "jsnum \<Rightarrow> jsnum \<Rightarrow> jsnum" where
  "numAdd NumNaN _ = NumNaN"
| "numAdd _ NumNaN = NumNaN"
| "numAdd (NumInf a) (NumInf b) = (if a = b then NumInf a else NumNaN)"
| "numAdd (NumInf a) (NumFin _) = NumInf a"
| "numAdd (NumFin _) (NumInf b) = NumInf b"
| "numAdd (NumFin x) (NumFin y) = roundRat (x + y)"

fun numMul :: "jsnum \<Rightarrow> jsnum \<Rightarrow> jsnum" where
  "numMul NumNaN _ = NumNaN"
| "numMul _ NumNaN = NumNaN"
| "numMul (NumInf a) (NumInf b) = NumInf (a \<noteq> b)"
| "numMul (NumInf a) (NumFin y) = (if y = 0 then NumNaN else NumInf (a \<noteq> (y < 0)))"
| "numMul (NumFin x) (NumInf b) = (if x = 0 then NumNaN else NumInf ((x < 0) \<noteq> b))"
| "numMul (NumFin x) (NumFin y) = roundRat (x * y)"

fun numDiv :: "jsnum \<Rightarrow> jsnum \<Rightarrow> jsnum" where
  "numDiv NumNaN _ = NumNaN"
| "numDiv _ NumNaN = NumNaN"
| "numDiv (NumInf a) (NumInf b) = NumNaN"
| "numDiv (NumInf a) (NumFin y) = NumInf (a \<noteq> (y < 0))"
| "numDiv (NumFin x) (NumInf b) = NumFin 0"
| "numDiv (NumFin x) (NumFin y) =
     (if y = 0 then if x = 0 then NumNaN else NumInf (x < 0) else roundRat (x / y))"

fun numFloor :: "jsnum \<Rightarrow> jsnum" where
  "numFloor (NumFin x) = NumFin (of_int \<lfloor>x\<rfloor>)"
| "numFloor n = n"

definition numMin :: "jsnum \<Rightarrow> jsnum \<Rightarrow> jsnum" where
  "numMin x y = (if x = NumNaN \<or> y = NumNaN then NumNaN else if numLess y x then y else x)"

definition numMax :: "jsnum \<Rightarrow> jsnum \<Rightarrow> jsnum" where
  "numMax x y = (if x = NumNaN \<or> y = NumNaN then NumNaN else if numLess x y then y else x)"

end
