(* ===== verification/Ses_Entries.thy ===== *)
theory Ses_Entries
  imports Js_Number
begin

text \<open>
  The messages of an agent and the entries of a session (packages/ai/src/types.ts, packages/agent/src/compaction/messages.ts
  and entries.ts, packages/coding-agent/src/session/session-manager.ts and messages.ts), with the members that the modelled
  code reads. A time is the instant in milliseconds that its string or number stands for. The details of a tool result are
  read for the usage of a task only.
\<close>

section \<open>Messages\<close>

record tool_call =
  tcId :: jstring
  tcName :: jstring
  tcArguments :: js_obj

text \<open>A text or a thought may carry a signature of the provider.\<close>

datatype content_block =
    TextBlock jstring "jstring option"
  | ThinkingBlock jstring "jstring option"
  | RedactedBlock jstring
  | ImageBlock jstring jstring
  | CallBlock tool_call

datatype msg_content = StringContent jstring | BlockContent "content_block list"

record token_usage =
  usInput :: nat
  usOutput :: nat
  usCacheRead :: nat
  usCacheWrite :: nat
  usTotalTokens :: nat
  usPremiumRequests :: "jsnum option"
  usCost :: jsnum

datatype stop_reason = StopDone | StopLength | StopToolUse | StopError | StopAborted

record assistant_message =
  amContent :: "content_block list"
  amProvider :: jstring
  amModel :: jstring
  amUsage :: token_usage
  amStopReason :: stop_reason
  amErrorMessage :: "jstring option"

record tool_result =
  tmCallId :: jstring
  tmToolName :: jstring
  tmContent :: "content_block list"
  tmUsage :: "token_usage option"
  tmIsError :: bool
  tmPrunedAt :: "int option"

record custom_message =
  cmType :: jstring
  cmContent :: msg_content
  cmDisplay :: bool
  cmDetails :: js_val
  cmAttribution :: "jstring option"

record provider_payload =
  ppProvider :: jstring
  ppItems :: "js_val list"

datatype agent_message =
    UserMessage msg_content
  | DeveloperMessage msg_content
  | AssistantMessage assistant_message
  | ToolResult tool_result
  | BashExecution jstring jstring
  | PythonExecution jstring jstring
  | CustomMessage custom_message int
  | HookMessage custom_message int
  | BranchSummaryMessage jstring jstring int
  | CompactionSummaryMessage jstring "jstring option" nat "provider_payload option" int
  | FileMention "jstring list"

section \<open>Entries\<close>

record compaction_data =
  cpSummary :: jstring
  cpShortSummary :: "jstring option"
  cpFirstKept :: jstring
  cpTokensBefore :: nat
  cpDetails :: js_val
  cpPreserveData :: "js_obj option"
  cpFromExtension :: bool

record branch_summary =
  bsFromId :: jstring
  bsSummary :: jstring
  bsDetails :: js_val
  bsFromExtension :: bool

datatype entry_body =
    MessageEntry agent_message
  | ThinkingLevelChange "jstring option"
  | ModelChange jstring "jstring option"
  | ServiceTierChange "jstring option"
  | Compaction compaction_data
  | BranchSummary branch_summary
  | CustomEntry jstring js_val
  | CustomMessageEntry custom_message
  | LabelEntry jstring "jstring option"
  | TtsrInjection "jstring list"
  | McpToolSelection "jstring list"
  | SessionInit jstring jstring "jstring list" js_val
  | ModeChange jstring "js_obj option"

record session_entry =
  enId :: jstring
  enParent :: "jstring option"
  enTime :: int
  enBody :: entry_body

record session_header =
  shVersion :: "nat option"
  shId :: jstring
  shTitle :: "jstring option"
  shTitleByUser :: "bool option"
  shTime :: int
  shCwd :: jstring
  shParentSession :: "jstring option"

datatype file_entry = HeaderEntry session_header | FileEntry session_entry

text \<open>The tests on the types of entries and messages.\<close>

fun isCompaction :: "entry_body \<Rightarrow> bool" where
  "isCompaction (Compaction _) = True"
| "isCompaction _ = False"

fun isMessageBody :: "entry_body \<Rightarrow> bool" where
  "isMessageBody (MessageEntry _) = True"
| "isMessageBody _ = False"

fun isLabelBody :: "entry_body \<Rightarrow> bool" where
  "isLabelBody (LabelEntry _ _) = True"
| "isLabelBody _ = False"

lemma isCompaction_iff: "isCompaction b \<longleftrightarrow> (\<exists>c. b = Compaction c)"
  by (cases b) simp_all

lemma isMessageBody_iff: "isMessageBody b \<longleftrightarrow> (\<exists>m. b = MessageEntry m)"
  by (cases b) simp_all

lemma isLabelBody_iff: "isLabelBody b \<longleftrightarrow> (\<exists>t l. b = LabelEntry t l)"
  by (cases b) simp_all

text \<open>A string that counts as true.\<close>

definition truthy :: "jstring option \<Rightarrow> bool" where
  "truthy s \<longleftrightarrow> s \<noteq> None \<and> s \<noteq> Some []"

lemma truthy_simps [simp]: "\<not> truthy None" "truthy (Some s) \<longleftrightarrow> s \<noteq> []"
  by (simp_all add: truthy_def)

end
