(* ===== verification/Ses_Context.thy ===== *)
theory Ses_Context
  imports Ses_Entries
begin

text \<open>
  \<open>buildSessionContext\<close> of packages/coding-agent/src/session/session-manager.ts: the messages and settings that an
  agent resumes with, read off the path from the root of the session tree to a leaf. The walk to the root is a loop
  over the parents, which need not end on entries read from a file; \<open>None\<close> stands for a walk that does not end.
\<close>

section \<open>The path to the root\<close>

definition parentOf :: "(jstring, session_entry) jsmap \<Rightarrow> session_entry \<Rightarrow> session_entry option" where
  "parentOf byId e = (if truthy (enParent e) then mapGet byId (the (enParent e)) else None)"

partial_function (option) walkToRoot ::
  "(jstring, session_entry) jsmap \<Rightarrow> session_entry option \<Rightarrow> session_entry list \<Rightarrow> session_entry list option" where
  "walkToRoot byId current path =
     (case current of
        None \<Rightarrow> Some path
      | Some e \<Rightarrow> walkToRoot byId (parentOf byId e) (e # path))"

declare walkToRoot.simps [code]

definition indexById :: "session_entry list \<Rightarrow> (jstring, session_entry) jsmap" where
  "indexById entries = foldl (\<lambda>m e. mapSet (enId e) e m) [] entries"

section \<open>Settings\<close>

record context_settings =
  csThinkingLevel :: jstring
  csServiceTier :: "jstring option"
  csModels :: "(jstring, jstring) jsmap"
  csCompaction :: "(session_entry \<times> compaction_data) option"
  csInjectedRules :: "jstring list"
  csMcpTools :: "jstring list"
  csHasMcpSelection :: bool
  csMode :: jstring
  csModeData :: "js_obj option"
  csExplicitDefault :: bool

definition initialSettings :: context_settings where
  "initialSettings =
     \<lparr>csThinkingLevel = js ''off'', csServiceTier = None, csModels = [], csCompaction = None, csInjectedRules = [],
      csMcpTools = [], csHasMcpSelection = False, csMode = js ''none'', csModeData = None, csExplicitDefault = False\<rparr>"

definition assistantModel :: "assistant_message \<Rightarrow> jstring" where
  "assistantModel m = amProvider m @ js ''/'' @ amModel m"

definition settingsStep :: "session_entry \<Rightarrow> context_settings \<Rightarrow> context_settings" where
  "settingsStep e s =
     (case enBody e of
        ThinkingLevelChange level \<Rightarrow>
          s\<lparr>csThinkingLevel := (case level of Some l \<Rightarrow> l | None \<Rightarrow> js ''off'')\<rparr>
      | ModelChange model role \<Rightarrow>
          if model = [] then s
          else
            let role' = (case role of Some r \<Rightarrow> r | None \<Rightarrow> js ''default'') in
            s\<lparr>csModels := mapSet role' model (csModels s),
              csExplicitDefault := csExplicitDefault s \<or> role' = js ''default''\<rparr>
      | ServiceTierChange tier \<Rightarrow> s\<lparr>csServiceTier := tier\<rparr>
      | MessageEntry (AssistantMessage m) \<Rightarrow>
          if csExplicitDefault s then s else s\<lparr>csModels := mapSet (js ''default'') (assistantModel m) (csModels s)\<rparr>
      | Compaction c \<Rightarrow> s\<lparr>csCompaction := Some (e, c)\<rparr>
      | TtsrInjection rules \<Rightarrow> s\<lparr>csInjectedRules := fold setAdd rules (csInjectedRules s)\<rparr>
      | McpToolSelection names \<Rightarrow> s\<lparr>csMcpTools := names, csHasMcpSelection := True\<rparr>
      | ModeChange mode data \<Rightarrow> s\<lparr>csMode := mode, csModeData := data\<rparr>
      | _ \<Rightarrow> s)"

section \<open>Messages\<close>

text \<open>\<open>appendMessage\<close>: what an entry adds to the messages.\<close>

definition entryMessages :: "session_entry \<Rightarrow> agent_message list" where
  "entryMessages e =
     (case enBody e of
        MessageEntry m \<Rightarrow> [m]
      | CustomMessageEntry m \<Rightarrow> [CustomMessage m (enTime e)]
      | BranchSummary b \<Rightarrow>
          if bsSummary b = [] then [] else [BranchSummaryMessage (bsSummary b) (bsFromId b) (enTime e)]
      | _ \<Rightarrow> [])"

definition remotePayload :: "compaction_data \<Rightarrow> provider_payload option" where
  "remotePayload c =
     (case cpPreserveData c of
        None \<Rightarrow> None
      | Some data \<Rightarrow>
          (case objGet data (js ''openaiRemoteCompaction'') of
             JObj remote \<Rightarrow>
               (case objGet remote (js ''provider'') of
                  JStr provider \<Rightarrow>
                    if provider = [] then None
                    else (case objGet remote (js ''replacementHistory'') of
                            JArr items \<Rightarrow> Some \<lparr>ppProvider = provider, ppItems = items\<rparr>
                          | _ \<Rightarrow> None)
                | _ \<Rightarrow> None)
           | _ \<Rightarrow> None))"

definition summaryMessage :: "session_entry \<Rightarrow> compaction_data \<Rightarrow> agent_message" where
  "summaryMessage e c =
     CompactionSummaryMessage (cpSummary c) (cpShortSummary c) (cpTokensBefore c) (remotePayload c) (enTime e)"

text \<open>\<open>findIndex\<close>: the first compaction with the id of the last one.\<close>

definition beforeCompaction :: "jstring \<Rightarrow> session_entry list \<Rightarrow> session_entry list" where
  "beforeCompaction i path = takeWhile (\<lambda>e. \<not> (isCompaction (enBody e) \<and> enId e = i)) path"

definition afterCompaction :: "jstring \<Rightarrow> session_entry list \<Rightarrow> session_entry list" where
  "afterCompaction i path = tl (dropWhile (\<lambda>e. \<not> (isCompaction (enBody e) \<and> enId e = i)) path)"

definition contextMessages :: "session_entry list \<Rightarrow> (session_entry \<times> compaction_data) option \<Rightarrow> agent_message list" where
  "contextMessages path compaction =
     (case compaction of
        None \<Rightarrow> concat (map entryMessages path)
      | Some (e, c) \<Rightarrow>
          summaryMessage e c
          # (if remotePayload c = None
             then concat (map entryMessages (dropWhile (\<lambda>k. enId k \<noteq> cpFirstKept c) (beforeCompaction (enId e) path)))
             else [])
          @ concat (map entryMessages (afterCompaction (enId e) path)))"

section \<open>Dangling tool calls\<close>

definition pairedIds :: "agent_message list \<Rightarrow> jstring list" where
  "pairedIds messages = concat (map (\<lambda>m. case m of ToolResult r \<Rightarrow> [tmCallId r] | _ \<Rightarrow> []) messages)"

fun isDangling :: "jstring list \<Rightarrow> content_block \<Rightarrow> bool" where
  "isDangling paired (CallBlock call) = (tcId call \<notin> set paired)"
| "isDangling paired _ = False"

fun isRedacted :: "content_block \<Rightarrow> bool" where
  "isRedacted (RedactedBlock _) = True"
| "isRedacted _ = False"

fun unsigned :: "content_block \<Rightarrow> content_block" where
  "unsigned (ThinkingBlock t signature) = (if truthy signature then ThinkingBlock t None else ThinkingBlock t signature)"
| "unsigned b = b"

definition normalizedContent :: "jstring list \<Rightarrow> content_block list \<Rightarrow> content_block list" where
  "normalizedContent paired blocks = map unsigned (filter (\<lambda>b. \<not> isDangling paired b \<and> \<not> isRedacted b) blocks)"

definition normalizeTurn :: "jstring list \<Rightarrow> agent_message \<Rightarrow> agent_message list" where
  "normalizeTurn paired message =
     (case message of
        AssistantMessage m \<Rightarrow>
          if \<not> list_ex (isDangling paired) (amContent m) then [message]
          else
            let normalized = normalizedContent paired (amContent m) in
            if normalized = [] then [] else [AssistantMessage (m\<lparr>amContent := normalized\<rparr>)]
      | _ \<Rightarrow> [message])"

definition stripDangling :: "agent_message list \<Rightarrow> agent_message list" where
  "stripDangling messages = concat (map (normalizeTurn (pairedIds messages)) messages)"

section \<open>The context\<close>

record session_context =
  sxMessages :: "agent_message list"
  sxThinkingLevel :: jstring
  sxServiceTier :: "jstring option"
  sxModels :: "(jstring, jstring) jsmap"
  sxInjectedRules :: "jstring list"
  sxMcpTools :: "jstring list"
  sxHasMcpSelection :: bool
  sxMode :: jstring
  sxModeData :: "js_obj option"

definition contextOf :: "agent_message list \<Rightarrow> context_settings \<Rightarrow> session_context" where
  "contextOf messages s =
     \<lparr>sxMessages = messages, sxThinkingLevel = csThinkingLevel s, sxServiceTier = csServiceTier s, sxModels = csModels s,
      sxInjectedRules = csInjectedRules s, sxMcpTools = csMcpTools s, sxHasMcpSelection = csHasMcpSelection s,
      sxMode = csMode s, sxModeData = csModeData s\<rparr>"

definition emptyContext :: session_context where
  "emptyContext = contextOf [] initialSettings"

definition pathContext :: "session_entry list \<Rightarrow> session_context" where
  "pathContext path =
     (let s = fold settingsStep path initialSettings in contextOf (stripDangling (contextMessages path (csCompaction s))) s)"

text \<open>The argument for the leaf: left out, \<open>null\<close> or an id.\<close>

datatype leaf_argument = LeafUnset | LeafNull | LeafId jstring

definition findLeaf :: "session_entry list \<Rightarrow> leaf_argument \<Rightarrow> (jstring, session_entry) jsmap \<Rightarrow> session_entry option" where
  "findLeaf entries leaf byId =
     (let fallback = (if entries = [] then None else Some (last entries)) in
      case leaf of
        LeafId i \<Rightarrow> if i = [] then fallback else (case mapGet byId i of Some e \<Rightarrow> Some e | None \<Rightarrow> fallback)
      | _ \<Rightarrow> fallback)"

definition buildSessionContext ::
  "session_entry list \<Rightarrow> leaf_argument \<Rightarrow> (jstring, session_entry) jsmap option \<Rightarrow> session_context option" where
  "buildSessionContext entries leaf index =
     (let byId = (case index of Some m \<Rightarrow> m | None \<Rightarrow> indexById entries) in
      if leaf = LeafNull then Some emptyContext
      else (case findLeaf entries leaf byId of
          None \<Rightarrow> Some emptyContext
        | Some e \<Rightarrow> map_option pathContext (walkToRoot byId (Some e) [])))"

section \<open>Helpers of the same file\<close>

definition getLatestCompactionEntry :: "session_entry list \<Rightarrow> session_entry option" where
  "getLatestCompactionEntry entries =
     (case filter (\<lambda>e. isCompaction (enBody e)) entries of [] \<Rightarrow> None | cs \<Rightarrow> Some (last cs))"

definition getRestorableSessionModels :: "(jstring, jstring) jsmap \<Rightarrow> jstring option \<Rightarrow> jstring list" where
  "getRestorableSessionModels models role =
     (let defaultModel = mapGet models (js ''default'');
          defaults = (if truthy defaultModel then [the defaultModel] else [])
      in if \<not> truthy role \<or> role = Some (js ''default'') \<or> role = Some (js ''temporary'') then defaults
         else
           let roleModel = mapGet models (the role) in
           if \<not> truthy roleModel then defaults
           else if \<not> truthy defaultModel \<or> roleModel = defaultModel then [the roleModel]
           else [the roleModel, the defaultModel])"

end
