(* ===== verification/Ses_Manager.thy ===== *)
theory Ses_Manager
  imports Ses_Context
begin

text \<open>
  \<open>SessionManager\<close> of packages/coding-agent/src/session/session-manager.ts, the tree of entries it keeps and the operations on
  it. The entries are appended only; the leaf says where the next one goes. Writing to the file is in
  Ses_Persist, and the model of these operations is that of a manager with a storage that does not persist. The calls for random
  identifiers, for the clock and for the snowflake are arguments.
\<close>

section \<open>State\<close>

record usage_stats =
  utInput :: nat
  utOutput :: nat
  utCacheRead :: nat
  utCacheWrite :: nat
  utPremiumRequests :: jsnum
  utCost :: jsnum

record session_manager =
  smSessionId :: jstring
  smSessionName :: "jstring option"
  smNamedByUser :: "bool option"
  smCwd :: jstring
  smFileEntries :: "file_entry list"
  smById :: "(jstring, session_entry) jsmap"
  smLabels :: "(jstring, jstring) jsmap"
  smLeaf :: "jstring option"
  smUsage :: usage_stats
  smTurnTotal :: "nat option"
  smTurnHard :: bool
  smTurnBaseline :: nat
  smTurnEval :: nat

record id_source =
  isDraws :: "jstring list"
  isSnowflake :: jstring

definition CURRENT_SESSION_VERSION :: nat where "CURRENT_SESSION_VERSION = 3"

text \<open>The first of a hundred draws that is not taken, else a snowflake.\<close>

definition generateId :: "id_source \<Rightarrow> jstring list \<Rightarrow> jstring" where
  "generateId src used =
     (case find (\<lambda>i. i \<notin> set used) (take 100 (isDraws src)) of Some i \<Rightarrow> i | None \<Rightarrow> isSnowflake src)"

definition noUsage :: usage_stats where
  "noUsage = \<lparr>utInput = 0, utOutput = 0, utCacheRead = 0, utCacheWrite = 0, utPremiumRequests = NumFin 0, utCost = NumFin 0\<rparr>"

definition addUsage :: "token_usage \<Rightarrow> usage_stats \<Rightarrow> usage_stats" where
  "addUsage u s =
     \<lparr>utInput = utInput s + usInput u, utOutput = utOutput s + usOutput u, utCacheRead = utCacheRead s + usCacheRead u,
      utCacheWrite = utCacheWrite s + usCacheWrite u,
      utPremiumRequests = numAdd (utPremiumRequests s) (case usPremiumRequests u of Some n \<Rightarrow> n | None \<Rightarrow> NumFin 0),
      utCost = numAdd (utCost s) (usCost u)\<rparr>"

text \<open>What an entry adds to the statistics: the usage of an assistant turn, or that of a task in its result.\<close>

definition entryUsage :: "session_entry \<Rightarrow> usage_stats \<Rightarrow> usage_stats" where
  "entryUsage e s =
     (case enBody e of
        MessageEntry (AssistantMessage m) \<Rightarrow> addUsage (amUsage m) s
      | MessageEntry (ToolResult r) \<Rightarrow>
          if tmToolName r = js ''task'' then (case tmUsage r of Some u \<Rightarrow> addUsage u s | None \<Rightarrow> s) else s
      | _ \<Rightarrow> s)"

definition setLabel :: "jstring \<Rightarrow> jstring option \<Rightarrow> (jstring, jstring) jsmap \<Rightarrow> (jstring, jstring) jsmap" where
  "setLabel target label labels = (if truthy label then mapSet target (the label) labels else mapDelete target labels)"

fun entriesOf :: "file_entry list \<Rightarrow> session_entry list" where
  "entriesOf [] = []"
| "entriesOf (HeaderEntry h # fs) = entriesOf fs"
| "entriesOf (FileEntry e # fs) = e # entriesOf fs"

definition getEntries :: "session_manager \<Rightarrow> session_entry list" where
  "getEntries sm = entriesOf (smFileEntries sm)"

fun getHeader :: "file_entry list \<Rightarrow> session_header option" where
  "getHeader [] = None"
| "getHeader (HeaderEntry h # fs) = Some h"
| "getHeader (FileEntry e # fs) = getHeader fs"

section \<open>A new session and an index rebuilt\<close>

definition newHeader :: "jstring \<Rightarrow> int \<Rightarrow> jstring \<Rightarrow> jstring option \<Rightarrow> session_header" where
  "newHeader i now cwd parent =
     \<lparr>shVersion = Some CURRENT_SESSION_VERSION, shId = i, shTitle = None, shTitleByUser = None, shTime = now, shCwd = cwd,
      shParentSession = parent\<rparr>"

definition newSessionSync :: "jstring \<Rightarrow> int \<Rightarrow> jstring option \<Rightarrow> session_manager \<Rightarrow> session_manager" where
  "newSessionSync sessionId now parent sm =
     sm\<lparr>smSessionId := sessionId, smSessionName := None, smNamedByUser := None,
        smFileEntries := [HeaderEntry (newHeader sessionId now (smCwd sm) parent)],
        smById := [], smLabels := [], smLeaf := None, smUsage := noUsage\<rparr>"

definition indexStep :: "session_entry \<Rightarrow> session_manager \<Rightarrow> session_manager" where
  "indexStep e sm =
     sm\<lparr>smById := mapSet (enId e) e (smById sm), smLeaf := Some (enId e),
        smLabels := (case enBody e of LabelEntry target label \<Rightarrow> setLabel target label (smLabels sm) | _ \<Rightarrow> smLabels sm),
        smUsage := entryUsage e (smUsage sm)\<rparr>"

definition buildIndex :: "session_manager \<Rightarrow> session_manager" where
  "buildIndex sm =
     fold indexStep (getEntries sm) (sm\<lparr>smById := [], smLabels := [], smLeaf := None, smUsage := noUsage\<rparr>)"

section \<open>Appending\<close>

definition appendEntry :: "session_entry \<Rightarrow> session_manager \<Rightarrow> session_manager" where
  "appendEntry e sm =
     sm\<lparr>smFileEntries := smFileEntries sm @ [FileEntry e], smById := mapSet (enId e) e (smById sm),
        smLeaf := Some (enId e), smUsage := entryUsage e (smUsage sm)\<rparr>"

definition usedIds :: "session_manager \<Rightarrow> jstring list" where
  "usedIds sm = map fst (smById sm)"

text \<open>The entry that the appending operations build: a child of the leaf.\<close>

definition childEntry :: "id_source \<Rightarrow> int \<Rightarrow> entry_body \<Rightarrow> session_manager \<Rightarrow> session_entry" where
  "childEntry src now body sm = \<lparr>enId = generateId src (usedIds sm), enParent = smLeaf sm, enTime = now, enBody = body\<rparr>"

definition appendBody :: "id_source \<Rightarrow> int \<Rightarrow> entry_body \<Rightarrow> session_manager \<Rightarrow> jstring \<times> session_manager" where
  "appendBody src now body sm = (let e = childEntry src now body sm in (enId e, appendEntry e sm))"

definition appendSessionMessage :: "id_source \<Rightarrow> int \<Rightarrow> agent_message \<Rightarrow> session_manager \<Rightarrow> jstring \<times> session_manager" where
  "appendSessionMessage src now message = appendBody src now (MessageEntry message)"

definition appendThinkingLevelChange ::
  "id_source \<Rightarrow> int \<Rightarrow> jstring option \<Rightarrow> session_manager \<Rightarrow> jstring \<times> session_manager" where
  "appendThinkingLevelChange src now level = appendBody src now (ThinkingLevelChange level)"

definition appendServiceTierChange ::
  "id_source \<Rightarrow> int \<Rightarrow> jstring option \<Rightarrow> session_manager \<Rightarrow> jstring \<times> session_manager" where
  "appendServiceTierChange src now tier = appendBody src now (ServiceTierChange tier)"

definition appendModeChange ::
  "id_source \<Rightarrow> int \<Rightarrow> jstring \<Rightarrow> js_obj option \<Rightarrow> session_manager \<Rightarrow> jstring \<times> session_manager" where
  "appendModeChange src now mode data = appendBody src now (ModeChange mode data)"

definition appendModelChange ::
  "id_source \<Rightarrow> int \<Rightarrow> jstring \<Rightarrow> jstring option \<Rightarrow> session_manager \<Rightarrow> jstring \<times> session_manager" where
  "appendModelChange src now model role = appendBody src now (ModelChange model role)"

definition appendSessionInit ::
  "id_source \<Rightarrow> int \<Rightarrow> jstring \<Rightarrow> jstring \<Rightarrow> jstring list \<Rightarrow> js_val \<Rightarrow> session_manager \<Rightarrow> jstring \<times> session_manager" where
  "appendSessionInit src now prompt task tools schema = appendBody src now (SessionInit prompt task tools schema)"

definition appendCompaction ::
  "id_source \<Rightarrow> int \<Rightarrow> compaction_data \<Rightarrow> session_manager \<Rightarrow> jstring \<times> session_manager" where
  "appendCompaction src now c = appendBody src now (Compaction c)"

definition appendCustomEntry ::
  "id_source \<Rightarrow> int \<Rightarrow> jstring \<Rightarrow> js_val \<Rightarrow> session_manager \<Rightarrow> jstring \<times> session_manager" where
  "appendCustomEntry src now customType data = appendBody src now (CustomEntry customType data)"

definition INTERNAL_DETAILS_FIELDS :: "jstring list" where
  "INTERNAL_DETAILS_FIELDS = [js ''__pendingDisplayTag'']"

definition stripInternalDetailsFields :: "js_val \<Rightarrow> js_val" where
  "stripInternalDetailsFields details =
     (case details of
        JObj members \<Rightarrow>
          if list_ex (\<lambda>k. mapHas members k) INTERNAL_DETAILS_FIELDS
          then JObj (fold mapDelete INTERNAL_DETAILS_FIELDS (objEntries members))
          else details
      | _ \<Rightarrow> details)"

definition appendCustomMessageEntry ::
  "id_source \<Rightarrow> int \<Rightarrow> custom_message \<Rightarrow> session_manager \<Rightarrow> jstring \<times> session_manager" where
  "appendCustomMessageEntry src now m =
     appendBody src now (CustomMessageEntry
       (m\<lparr>cmDetails := stripInternalDetailsFields (cmDetails m),
          cmAttribution := (case cmAttribution m of Some a \<Rightarrow> Some a | None \<Rightarrow> Some (js ''agent''))\<rparr>))"

definition appendMCPToolSelection ::
  "id_source \<Rightarrow> int \<Rightarrow> jstring list \<Rightarrow> session_manager \<Rightarrow> jstring \<times> session_manager" where
  "appendMCPToolSelection src now names = appendBody src now (McpToolSelection names)"

definition appendTtsrInjection ::
  "id_source \<Rightarrow> int \<Rightarrow> jstring list \<Rightarrow> session_manager \<Rightarrow> jstring \<times> session_manager" where
  "appendTtsrInjection src now rules = appendBody src now (TtsrInjection rules)"

text \<open>The operations that name an entry throw its id when there is none.\<close>

definition appendLabelChange ::
  "id_source \<Rightarrow> int \<Rightarrow> jstring \<Rightarrow> jstring option \<Rightarrow> session_manager \<Rightarrow> jstring + (jstring \<times> session_manager)" where
  "appendLabelChange src now target label sm =
     (if \<not> mapHas (smById sm) target then Inl target
      else
        let (i, sm1) = appendBody src now (LabelEntry target label) sm in
        Inr (i, sm1\<lparr>smLabels := setLabel target label (smLabels sm1)\<rparr>))"

section \<open>Reading the tree\<close>

definition getLeafEntry :: "session_manager \<Rightarrow> session_entry option" where
  "getLeafEntry sm = (if truthy (smLeaf sm) then mapGet (smById sm) (the (smLeaf sm)) else None)"

definition getBranch :: "jstring option \<Rightarrow> session_manager \<Rightarrow> session_entry list option" where
  "getBranch fromId sm =
     (let startId = (case fromId of Some i \<Rightarrow> Some i | None \<Rightarrow> smLeaf sm) in
      walkToRoot (smById sm) (if truthy startId then mapGet (smById sm) (the startId) else None) [])"

definition getInjectedTtsrRules :: "session_manager \<Rightarrow> jstring list option" where
  "getInjectedTtsrRules sm =
     map_option (\<lambda>path. fold (\<lambda>e names. case enBody e of TtsrInjection rules \<Rightarrow> fold setAdd rules names | _ \<Rightarrow> names) path [])
       (getBranch None sm)"

text \<open>The walk stops at the first model change it meets.\<close>

partial_function (option) lastModelRole ::
  "(jstring, session_entry) jsmap \<Rightarrow> session_entry option \<Rightarrow> jstring option option" where
  "lastModelRole byId current =
     (case current of
        None \<Rightarrow> Some None
      | Some e \<Rightarrow>
          (case enBody e of
             ModelChange model role \<Rightarrow> Some (Some (case role of Some r \<Rightarrow> r | None \<Rightarrow> js ''default''))
           | _ \<Rightarrow> lastModelRole byId (parentOf byId e)))"

definition getLastModelChangeRole :: "session_manager \<Rightarrow> jstring option option" where
  "getLastModelChangeRole sm = lastModelRole (smById sm) (getLeafEntry sm)"

definition getChildren :: "jstring \<Rightarrow> session_manager \<Rightarrow> session_entry list" where
  "getChildren parent sm = filter (\<lambda>e. enParent e = Some parent) (map snd (smById sm))"

definition managerContext :: "session_manager \<Rightarrow> session_context option" where
  "managerContext sm =
     buildSessionContext (getEntries sm) (case smLeaf sm of None \<Rightarrow> LeafNull | Some i \<Rightarrow> LeafId i) (Some (smById sm))"

section \<open>Branching\<close>

definition branch :: "jstring \<Rightarrow> session_manager \<Rightarrow> jstring + session_manager" where
  "branch fromId sm = (if \<not> mapHas (smById sm) fromId then Inl fromId else Inr (sm\<lparr>smLeaf := Some fromId\<rparr>))"

definition resetLeaf :: "session_manager \<Rightarrow> session_manager" where
  "resetLeaf sm = sm\<lparr>smLeaf := None\<rparr>"

definition branchWithSummary ::
  "id_source \<Rightarrow> int \<Rightarrow> jstring option \<Rightarrow> jstring \<Rightarrow> js_val \<Rightarrow> bool \<Rightarrow> session_manager \<Rightarrow> jstring + (jstring \<times> session_manager)" where
  "branchWithSummary src now fromId summary details fromExtension sm =
     (if fromId \<noteq> None \<and> \<not> mapHas (smById sm) (the fromId) then Inl (the fromId)
      else
        Inr (appendBody src now
          (BranchSummary \<lparr>bsFromId = (case fromId of Some i \<Rightarrow> i | None \<Rightarrow> js ''root''), bsSummary = summary,
             bsDetails = details, bsFromExtension = fromExtension\<rparr>)
          (sm\<lparr>smLeaf := fromId\<rparr>)))"

text \<open>The labels of the new session, each a child of the one before; \<open>srcs\<close> gives the identifiers.\<close>

fun labelChain :: "id_source list \<Rightarrow> int \<Rightarrow> jstring list \<Rightarrow> jstring option \<Rightarrow> (jstring \<times> jstring) list \<Rightarrow> session_entry list" where
  "labelChain srcs now used parent [] = []"
| "labelChain srcs now used parent ((target, label) # rest) =
     (let i = generateId (hd srcs) used in
      \<lparr>enId = i, enParent = parent, enTime = now, enBody = LabelEntry target (Some label)\<rparr>
      # labelChain (tl srcs) now (used @ [i]) (Some i) rest)"

definition createBranchedSession ::
  "id_source list \<Rightarrow> jstring \<Rightarrow> int \<Rightarrow> jstring \<Rightarrow> session_manager \<Rightarrow> (jstring + session_manager) option" where
  "createBranchedSession srcs sessionId now leafId sm =
     map_option (\<lambda>branchPath.
       if branchPath = [] then Inl leafId
       else
         let withoutLabels = filter (\<lambda>e. \<not> isLabelBody (enBody e)) branchPath;
             ids = map enId withoutLabels;
             labelsToWrite = filter (\<lambda>(target, label). target \<in> set ids) (smLabels sm);
             lastId = (if withoutLabels = [] \<or> enId (last withoutLabels) = [] then None else Some (enId (last withoutLabels)));
             labelEntries = labelChain srcs now ids lastId labelsToWrite
         in Inr (buildIndex (sm\<lparr>smSessionId := sessionId,
              smFileEntries := HeaderEntry (newHeader sessionId now (smCwd sm) None) # map FileEntry (withoutLabels @ labelEntries)\<rparr>)))
       (getBranch (Some leafId) sm)"

section \<open>Snapshots, names and budgets\<close>

record session_snapshot =
  ssCwd :: jstring
  ssSessionId :: jstring
  ssSessionName :: "jstring option"
  ssNamedByUser :: "bool option"
  ssFileEntries :: "file_entry list"

definition captureState :: "session_manager \<Rightarrow> session_snapshot" where
  "captureState sm =
     \<lparr>ssCwd = smCwd sm, ssSessionId = smSessionId sm, ssSessionName = smSessionName sm, ssNamedByUser = smNamedByUser sm,
      ssFileEntries = smFileEntries sm\<rparr>"

definition restoreState :: "session_snapshot \<Rightarrow> session_manager \<Rightarrow> session_manager" where
  "restoreState s sm =
     buildIndex (sm\<lparr>smCwd := ssCwd s, smSessionId := ssSessionId s, smSessionName := ssSessionName s,
       smNamedByUser := ssNamedByUser s, smFileEntries := ssFileEntries s\<rparr>)"

text \<open>Control characters become spaces, runs of spaces one.\<close>

fun collapseSpaces :: "jstring \<Rightarrow> jstring" where
  "collapseSpaces [] = []"
| "collapseSpaces (c # cs) = (if c = 32 \<and> cs \<noteq> [] \<and> hd cs = 32 then collapseSpaces cs else c # collapseSpaces cs)"

definition sanitizeName :: "jstring \<Rightarrow> jstring" where
  "sanitizeName name = trim (collapseSpaces (map (\<lambda>c. if c < 32 \<or> (127 \<le> c \<and> c \<le> 159) then 32 else c) name))"

fun setHeaderTitle :: "jstring \<Rightarrow> bool \<Rightarrow> file_entry list \<Rightarrow> file_entry list" where
  "setHeaderTitle name byUser [] = []"
| "setHeaderTitle name byUser (HeaderEntry h # fs) = HeaderEntry (h\<lparr>shTitle := Some name, shTitleByUser := Some byUser\<rparr>) # fs"
| "setHeaderTitle name byUser (FileEntry e # fs) = FileEntry e # setHeaderTitle name byUser fs"

definition setSessionName :: "jstring \<Rightarrow> bool \<Rightarrow> session_manager \<Rightarrow> bool \<times> session_manager" where
  "setSessionName name byUser sm =
     (if smNamedByUser sm = Some True \<and> \<not> byUser then (False, sm)
      else
        let sanitized = sanitizeName name in
        if sanitized = [] then (False, sm)
        else (True, sm\<lparr>smSessionName := Some sanitized, smNamedByUser := Some byUser,
                       smFileEntries := setHeaderTitle sanitized byUser (smFileEntries sm)\<rparr>))"

definition beginTurnBudget :: "nat option \<Rightarrow> bool \<Rightarrow> session_manager \<Rightarrow> session_manager" where
  "beginTurnBudget limit hard sm =
     sm\<lparr>smTurnTotal := limit, smTurnHard := hard, smTurnBaseline := utOutput (smUsage sm), smTurnEval := 0\<rparr>"

definition recordEvalSubagentOutput :: "nat \<Rightarrow> session_manager \<Rightarrow> session_manager" where
  "recordEvalSubagentOutput output sm = (if 0 < output then sm\<lparr>smTurnEval := smTurnEval sm + output\<rparr> else sm)"

text \<open>The difference of the statistics is cut off at zero, as truncated subtraction does.\<close>

definition getTurnBudget :: "session_manager \<Rightarrow> nat option \<times> nat \<times> bool" where
  "getTurnBudget sm =
     (smTurnTotal sm, (utOutput (smUsage sm) - smTurnBaseline sm) + smTurnEval sm, smTurnHard sm)"

end
