(* ===== verification/Ses_Tree_Facts.thy ===== *)
theory Ses_Tree_Facts
  imports Ses_Manager
begin

text \<open>
  The tree of a session under every sequence of operations: walks to the root end, an operation leaves the branches of other
  entries as they are, and an index rebuilt from the entries is the one that was kept.
\<close>

section \<open>Operations and reachable sessions\<close>

datatype session_op =
    OpMessage agent_message
  | OpThinkingLevel "jstring option"
  | OpServiceTier "jstring option"
  | OpMode jstring "js_obj option"
  | OpModel jstring "jstring option"
  | OpInit jstring jstring "jstring list" js_val
  | OpCompaction compaction_data
  | OpCustom jstring js_val
  | OpCustomMessage custom_message
  | OpMcpSelection "jstring list"
  | OpTtsr "jstring list"
  | OpLabel jstring "jstring option"
  | OpBranch jstring
  | OpReset
  | OpBranchSummary "jstring option" jstring js_val bool
  | OpName jstring bool
  | OpBeginBudget "nat option" bool
  | OpEvalOutput nat

fun runOp :: "id_source \<Rightarrow> int \<Rightarrow> session_op \<Rightarrow> session_manager \<Rightarrow> jstring + session_manager" where
  "runOp src now (OpMessage m) sm = Inr (snd (appendSessionMessage src now m sm))"
| "runOp src now (OpThinkingLevel l) sm = Inr (snd (appendThinkingLevelChange src now l sm))"
| "runOp src now (OpServiceTier t) sm = Inr (snd (appendServiceTierChange src now t sm))"
| "runOp src now (OpMode m d) sm = Inr (snd (appendModeChange src now m d sm))"
| "runOp src now (OpModel m r) sm = Inr (snd (appendModelChange src now m r sm))"
| "runOp src now (OpInit p t ts s) sm = Inr (snd (appendSessionInit src now p t ts s sm))"
| "runOp src now (OpCompaction c) sm = Inr (snd (appendCompaction src now c sm))"
| "runOp src now (OpCustom t d) sm = Inr (snd (appendCustomEntry src now t d sm))"
| "runOp src now (OpCustomMessage m) sm = Inr (snd (appendCustomMessageEntry src now m sm))"
| "runOp src now (OpMcpSelection ns) sm = Inr (snd (appendMCPToolSelection src now ns sm))"
| "runOp src now (OpTtsr rs) sm = Inr (snd (appendTtsrInjection src now rs sm))"
| "runOp src now (OpLabel t l) sm = map_sum id snd (appendLabelChange src now t l sm)"
| "runOp src now (OpBranch i) sm = branch i sm"
| "runOp src now OpReset sm = Inr (resetLeaf sm)"
| "runOp src now (OpBranchSummary i s d x) sm = map_sum id snd (branchWithSummary src now i s d x sm)"
| "runOp src now (OpName n u) sm = Inr (snd (setSessionName n u sm))"
| "runOp src now (OpBeginBudget t h) sm = Inr (beginTurnBudget t h sm)"
| "runOp src now (OpEvalOutput n) sm = Inr (recordEvalSubagentOutput n sm)"

text \<open>The identifiers are new: a random draw is, and so is the snowflake that stands in for a hundred taken draws.\<close>

definition freshSource :: "id_source \<Rightarrow> session_manager \<Rightarrow> bool" where
  "freshSource src sm \<longleftrightarrow> generateId src (usedIds sm) \<notin> set (usedIds sm) \<and> generateId src (usedIds sm) \<noteq> []"

inductive reachable :: "session_manager \<Rightarrow> bool" where
  start: "reachable (newSessionSync i now parent sm)"
| step: "reachable sm \<Longrightarrow> freshSource src sm \<Longrightarrow> runOp src now operation sm = Inr sm' \<Longrightarrow> reachable sm'"

text \<open>Every operation appends at most one entry, a child of the leaf or, for a summary, of the entry it returns to.\<close>

definition sameTree :: "session_manager \<Rightarrow> session_manager \<Rightarrow> bool" where
  "sameTree sm sm' \<longleftrightarrow> getEntries sm' = getEntries sm \<and> smById sm' = smById sm \<and> smLabels sm' = smLabels sm \<and> smUsage sm' = smUsage sm"

definition labelStep :: "session_entry \<Rightarrow> (jstring, jstring) jsmap \<Rightarrow> (jstring, jstring) jsmap" where
  "labelStep e labels = (case enBody e of LabelEntry t l \<Rightarrow> setLabel t l labels | _ \<Rightarrow> labels)"

definition appendsEntry :: "session_entry \<Rightarrow> session_manager \<Rightarrow> session_manager \<Rightarrow> bool" where
  "appendsEntry e sm sm' \<longleftrightarrow>
     getEntries sm' = getEntries sm @ [e] \<and> smById sm' = mapSet (enId e) e (smById sm) \<and> smLeaf sm' = Some (enId e)
     \<and> smLabels sm' = labelStep e (smLabels sm)
     \<and> smUsage sm' = entryUsage e (smUsage sm)"

lemma entriesOf_append [simp]: "entriesOf (fs @ gs) = entriesOf fs @ entriesOf gs"
  by (induction fs rule: entriesOf.induct) simp_all

lemma entriesOf_map_FileEntry [simp]: "entriesOf (map FileEntry es) = es"
  by (induction es) simp_all

lemma entriesOf_setHeaderTitle [simp]: "entriesOf (setHeaderTitle n u fs) = entriesOf fs"
  by (induction n u fs rule: setHeaderTitle.induct) simp_all

lemma appendsEntry_appendEntry:
  "\<not> isLabelBody (enBody e) \<Longrightarrow> appendsEntry e sm (appendEntry e sm)"
  by (cases "enBody e") (simp_all add: appendsEntry_def appendEntry_def getEntries_def labelStep_def)

definition opParent :: "session_op \<Rightarrow> session_manager \<Rightarrow> jstring option" where
  "opParent operation sm = (case operation of OpBranchSummary i s d x \<Rightarrow> i | _ \<Rightarrow> smLeaf sm)"

fun plainBody :: "session_op \<Rightarrow> entry_body option" where
  "plainBody (OpMessage m) = Some (MessageEntry m)"
| "plainBody (OpThinkingLevel l) = Some (ThinkingLevelChange l)"
| "plainBody (OpServiceTier t) = Some (ServiceTierChange t)"
| "plainBody (OpMode m d) = Some (ModeChange m d)"
| "plainBody (OpModel m r) = Some (ModelChange m r)"
| "plainBody (OpInit p t ts s) = Some (SessionInit p t ts s)"
| "plainBody (OpCompaction c) = Some (Compaction c)"
| "plainBody (OpCustom t d) = Some (CustomEntry t d)"
| "plainBody (OpCustomMessage m) = Some (CustomMessageEntry
       (m\<lparr>cmDetails := stripInternalDetailsFields (cmDetails m),
          cmAttribution := (case cmAttribution m of Some a \<Rightarrow> Some a | None \<Rightarrow> Some (js ''agent''))\<rparr>))"
| "plainBody (OpMcpSelection ns) = Some (McpToolSelection ns)"
| "plainBody (OpTtsr rs) = Some (TtsrInjection rs)"
| "plainBody _ = None"

lemmas append_defs = appendSessionMessage_def appendThinkingLevelChange_def appendServiceTierChange_def
  appendModeChange_def appendModelChange_def appendSessionInit_def appendCompaction_def appendCustomEntry_def
  appendCustomMessageEntry_def appendMCPToolSelection_def appendTtsrInjection_def

lemma runOp_plain:
  "plainBody operation = Some body \<Longrightarrow>
     runOp src now operation sm = Inr (snd (appendBody src now body sm)) \<and> \<not> isLabelBody body \<and> opParent operation sm = smLeaf sm"
  by (cases operation) (auto simp: append_defs opParent_def)

definition addsChild :: "jstring option \<Rightarrow> jstring \<Rightarrow> session_manager \<Rightarrow> session_manager \<Rightarrow> bool" where
  "addsChild parent i sm sm' \<longleftrightarrow>
     (\<exists>e. appendsEntry e sm sm' \<and> enId e = i \<and> enParent e = parent)
     \<and> (parent = smLeaf sm \<or> parent = None \<or> mapHas (smById sm) (the parent))"

lemma appendBody_adds:
  assumes "\<not> isLabelBody body"
  shows "addsChild (smLeaf sm) (generateId src (usedIds sm)) sm (snd (appendBody src now body sm))"
  using appendsEntry_appendEntry [of "childEntry src now body sm" sm] assms
  unfolding addsChild_def by (intro conjI exI [of _ "childEntry src now body sm"]) (simp_all add: appendBody_def childEntry_def Let_def)

lemma appendLabelChange_adds:
  assumes "appendLabelChange src now t l sm = Inr (i, sm')"
  shows "addsChild (smLeaf sm) (generateId src (usedIds sm)) sm sm'"
  unfolding addsChild_def
  using assms
  by (intro conjI exI [of _ "childEntry src now (LabelEntry t l) sm"])
    (auto simp: appendLabelChange_def appendBody_def Let_def appendsEntry_def appendEntry_def getEntries_def childEntry_def labelStep_def
      split: if_splits)

lemma branchWithSummary_adds:
  assumes "branchWithSummary src now fromId s d x sm = Inr (i, sm')"
  shows "addsChild fromId (generateId src (usedIds sm)) sm sm'"
proof -
  let ?sm = "sm\<lparr>smLeaf := fromId\<rparr>"
  have has: "fromId = None \<or> mapHas (smById sm) (the fromId)" and "\<exists>b. appendBody src now (BranchSummary b) ?sm = (i, sm')"
    using assms by (auto simp: branchWithSummary_def split: if_splits)
  then obtain b where "appendBody src now (BranchSummary b) ?sm = (i, sm')" by blast
  then have b: "sm' = snd (appendBody src now (BranchSummary b) ?sm)" by simp
  have "addsChild fromId (generateId src (usedIds sm)) ?sm sm'"
    using appendBody_adds [of "BranchSummary b" ?sm src now] b by (simp add: usedIds_def)
  then show ?thesis using has by (auto simp: addsChild_def appendsEntry_def getEntries_def)
qed

definition movesLeaf :: "session_manager \<Rightarrow> session_manager \<Rightarrow> bool" where
  "movesLeaf sm sm' \<longleftrightarrow> sameTree sm sm' \<and> (smLeaf sm' = smLeaf sm \<or> smLeaf sm' = None \<or> mapHas (smById sm) (the (smLeaf sm')))"

lemma runOp_cases:
  assumes "runOp src now operation sm = Inr sm'"
  shows "addsChild (opParent operation sm) (generateId src (usedIds sm)) sm sm' \<or> movesLeaf sm sm'"
proof (cases "plainBody operation")
  case (Some body)
  then show ?thesis using runOp_plain [OF Some] appendBody_adds assms by force
next
  case None
  note defs = movesLeaf_def sameTree_def getEntries_def branch_def resetLeaf_def setSessionName_def beginTurnBudget_def
    recordEvalSubagentOutput_def Let_def
  show ?thesis
  proof (cases operation)
    case (OpLabel t l)
    then obtain i where "appendLabelChange src now t l sm = Inr (i, sm')"
      using assms by (cases "appendLabelChange src now t l sm") auto
    then show ?thesis using appendLabelChange_adds OpLabel by (simp add: opParent_def)
  next
    case (OpBranchSummary i s d x)
    then obtain j where "branchWithSummary src now i s d x sm = Inr (j, sm')"
      using assms by (cases "branchWithSummary src now i s d x sm") auto
    then show ?thesis using branchWithSummary_adds OpBranchSummary by (simp add: opParent_def)
  next
    case (OpBranch i)
    then show ?thesis using assms by (auto simp: defs split: if_splits)
  next
    case OpReset
    then show ?thesis using assms by (auto simp: defs)
  next
    case (OpName n u)
    then show ?thesis using assms by (auto simp: defs split: if_splits)
  next
    case (OpBeginBudget t h)
    then show ?thesis using assms by (auto simp: defs)
  next
    case (OpEvalOutput n)
    then show ?thesis using assms by (auto simp: defs)
  qed (use None in simp_all)
qed

section \<open>The invariant\<close>

definition entryIds :: "session_entry list \<Rightarrow> jstring list" where
  "entryIds es = map enId es"

text \<open>Ids are distinct and not empty, and the parent of an entry comes before it.\<close>

inductive growsTree :: "session_entry list \<Rightarrow> bool" where
  empty: "growsTree []"
| entry: "growsTree es \<Longrightarrow> enId e \<notin> set (map enId es) \<Longrightarrow> enId e \<noteq> [] \<Longrightarrow>
    enParent e = None \<or> the (enParent e) \<in> set (map enId es) \<Longrightarrow> growsTree (es @ [e])"

definition managerOk :: "session_manager \<Rightarrow> bool" where
  "managerOk sm \<longleftrightarrow>
     growsTree (getEntries sm) \<and> smById sm = map (\<lambda>e. (enId e, e)) (getEntries sm)
     \<and> (smLeaf sm = None \<or> the (smLeaf sm) \<in> set (map enId (getEntries sm)))
     \<and> smLabels sm = fold labelStep (getEntries sm) []
     \<and> smUsage sm = fold entryUsage (getEntries sm) noUsage"

inductive_cases growsTree_snoc: "growsTree (es @ [e])"

lemma growsTree_snoc_iff:
  "growsTree (es @ [e]) \<longleftrightarrow> growsTree es \<and> enId e \<notin> set (map enId es) \<and> enId e \<noteq> []
     \<and> (enParent e = None \<or> the (enParent e) \<in> set (map enId es))"
  by (auto elim: growsTree_snoc intro: growsTree.entry)

lemma mapSet_new: "k \<notin> set (map fst m) \<Longrightarrow> mapSet k v m = m @ [(k, v)]"
  by (induction m) auto

lemma mapGet_index: "distinct (map enId es) \<Longrightarrow> e \<in> set es \<Longrightarrow> map_of (map (\<lambda>e. (enId e, e)) es) (enId e) = Some e"
  by (induction es) (auto simp: image_iff)

lemma mapGet_index_Some: "map_of (map (\<lambda>e. (enId e, e)) es) i = Some e \<Longrightarrow> e \<in> set es \<and> enId e = i"
  by (induction es) (auto split: if_splits)

lemma growsTree_distinct: "growsTree es \<Longrightarrow> distinct (map enId es)"
  by (induction rule: growsTree.induct) auto

lemma managerOk_new: "managerOk (newSessionSync i now parent sm)"
  by (simp add: managerOk_def newSessionSync_def getEntries_def growsTree.empty)

lemma managerOk_adds:
  assumes "managerOk sm" and "addsChild parent i sm sm'" and "i \<notin> set (usedIds sm)" and "i \<noteq> []"
  shows "managerOk sm'"
proof -
  obtain e where e: "appendsEntry e sm sm'" "enId e = i" "enParent e = parent"
    and p: "parent = smLeaf sm \<or> parent = None \<or> mapHas (smById sm) (the parent)"
    using assms(2) by (auto simp: addsChild_def)
  have ids: "map fst (smById sm) = map enId (getEntries sm)" using assms(1) by (simp add: managerOk_def o_def)
  then have "growsTree (getEntries sm @ [e])"
    using assms e p by (auto simp: growsTree_snoc_iff managerOk_def usedIds_def mapHas_def)
  moreover have "mapSet (enId e) e (smById sm) = smById sm @ [(enId e, e)]"
    using assms(3) e(2) by (intro mapSet_new) (simp add: usedIds_def)
  ultimately show ?thesis
    using assms(1) e(1) unfolding managerOk_def appendsEntry_def by auto
qed

lemma managerOk_moves: "managerOk sm \<Longrightarrow> movesLeaf sm sm' \<Longrightarrow> managerOk sm'"
  by (auto simp: managerOk_def movesLeaf_def sameTree_def mapHas_def o_def)

lemma reachable_ok: "reachable sm \<Longrightarrow> managerOk sm"
proof (induction rule: reachable.induct)
  case (start i now parent sm)
  show ?case by (rule managerOk_new)
next
  case (step sm src now operation sm')
  then show ?case
    using runOp_cases [OF step.hyps(3)] managerOk_adds [OF step.IH] managerOk_moves [OF step.IH]
    unfolding freshSource_def by blast
qed

section \<open>Walks\<close>

lemma walkToRoot_None [simp]: "walkToRoot byId None path = Some path"
  by (simp add: walkToRoot.simps)

lemma walkToRoot_Some: "walkToRoot byId (Some e) path = walkToRoot byId (parentOf byId e) (e # path)"
  by (simp add: walkToRoot.simps)

text \<open>A list of entries from a root down, each the parent of the next.\<close>

definition rootPath :: "(jstring, session_entry) jsmap \<Rightarrow> session_entry list \<Rightarrow> bool" where
  "rootPath byId p \<longleftrightarrow> p \<noteq> [] \<and> parentOf byId (hd p) = None \<and> successively (\<lambda>a b. parentOf byId b = Some a) p"

lemma rootPath_snoc_iff:
  "rootPath m (p @ [e]) \<longleftrightarrow> (if p = [] then parentOf m e = None else rootPath m p \<and> parentOf m e = Some (last p))"
  by (auto simp: rootPath_def successively_append_iff hd_append)

lemma walk_rootPath:
  assumes "rootPath byId (p @ [e])"
  shows "walkToRoot byId (Some e) acc = Some (p @ e # acc)"
  using assms
proof (induction p arbitrary: e acc rule: rev_induct)
  case Nil
  then show ?case by (simp add: rootPath_def walkToRoot_Some)
next
  case (snoc x p)
  have "parentOf byId e = Some x" "rootPath byId (p @ [x])"
    using snoc.prems rootPath_snoc_iff [of byId "p @ [x]" e] by auto
  then show ?case using snoc.IH [of x "e # acc"] by (simp add: walkToRoot_Some)
qed

lemma rootPath_cong:
  assumes "\<And>y. y \<in> set p \<Longrightarrow> parentOf m y = parentOf m' y"
  shows "rootPath m p \<longleftrightarrow> rootPath m' p"
proof -
  have "successively (\<lambda>a b. parentOf m b = Some a) p = successively (\<lambda>a b. parentOf m' b = Some a) p"
    using assms by (intro successively_cong) auto
  then show ?thesis using assms by (cases p) (auto simp: rootPath_def)
qed

lemma rootPath_snoc:
  "rootPath m (p @ [e]) \<Longrightarrow> parentOf m x = Some e \<Longrightarrow> rootPath m ((p @ [e]) @ [x])"
  by (simp only: rootPath_snoc_iff [of m "p @ [e]" x]) simp

lemma growsTree_parents: "growsTree es \<Longrightarrow> y \<in> set es \<Longrightarrow> enParent y = None \<or> the (enParent y) \<in> set (map enId es)"
  by (induction rule: growsTree.induct) auto

lemma growsTree_ids: "growsTree es \<Longrightarrow> y \<in> set es \<Longrightarrow> enId y \<noteq> []"
  by (induction rule: growsTree.induct) auto

abbreviation index :: "session_entry list \<Rightarrow> (jstring, session_entry) jsmap" where
  "index es \<equiv> map (\<lambda>e. (enId e, e)) es"

lemma parentOf_index_snoc:
  assumes "growsTree es" and "enId x \<notin> set (map enId es)" and "y \<in> set es"
  shows "parentOf (index (es @ [x])) y = parentOf (index es) y"
  using growsTree_parents [OF assms(1,3)] assms(2)
  by (cases "map_of (index es) (the (enParent y))") (auto simp: parentOf_def map_add_def truthy_def)

lemma growsTree_rootPath:
  assumes "growsTree es" and "e \<in> set es"
  shows "\<exists>p. rootPath (index es) (p @ [e]) \<and> subseq (p @ [e]) es"
  using assms
proof (induction arbitrary: e rule: growsTree.induct)
  case empty
  then show ?case by simp
next
  case (entry es x)
  let ?m = "index (es @ [x])"
  have dist: "distinct (map enId (es @ [x]))" using entry.hyps(1,2) growsTree_distinct by auto
  have old: "\<exists>p. rootPath ?m (p @ [y]) \<and> subseq (p @ [y]) es" if y: "y \<in> set es" for y
  proof -
    obtain p where p: "rootPath (index es) (p @ [y])" "subseq (p @ [y]) es" using entry.IH [OF y] by blast
    have "set (p @ [y]) \<subseteq> set es" using p(2) set_nths_subset by (metis subseq_conv_nths)
    then show ?thesis
      using p rootPath_cong [of "p @ [y]" ?m "index es"] parentOf_index_snoc [OF entry.hyps(1,2)] by blast
  qed
  show ?case
  proof (cases "e \<in> set es")
    case True
    then obtain p where "rootPath ?m (p @ [e])" "subseq (p @ [e]) es" using old by blast
    then show ?thesis using list_emb_append_mono [of "(=)" "p @ [e]" es "[]" "[x]"] by auto
  next
    case False
    then have e: "e = x" using entry.prems by simp
    show ?thesis
    proof (cases "enParent x")
      case None
      then have "rootPath ?m ([] @ [x])" by (simp add: rootPath_def parentOf_def)
      then show ?thesis using e list_emb_append_mono [of "(=)" "[]" es "[x]" "[x]"] by (intro exI [of _ "[]"]) simp
    next
      case (Some i)
      then obtain y where y: "y \<in> set es" "enId y = i" using entry.hyps(4) by auto
      have "parentOf ?m x = Some y"
        using Some y growsTree_ids [OF entry.hyps(1) y(1)] mapGet_index [OF dist, of y] by (simp add: parentOf_def del: map_append)
      moreover obtain p where p: "rootPath ?m (p @ [y])" "subseq (p @ [y]) es" using old [OF y(1)] by blast
      ultimately have "rootPath ?m ((p @ [y]) @ [x])" by (intro rootPath_snoc)
      moreover have "subseq ((p @ [y]) @ [x]) (es @ [x])" using list_emb_append_mono [OF p(2), of "[x]" "[x]"] by simp
      ultimately show ?thesis using e by blast
    qed
  qed
qed

lemma managerOkD:
  assumes "managerOk sm"
  shows "growsTree (getEntries sm)" and "smById sm = index (getEntries sm)" and "distinct (map enId (getEntries sm))"
    and "usedIds sm = map enId (getEntries sm)"
  using assms growsTree_distinct by (auto simp: managerOk_def usedIds_def)

lemma mapGet_byId:
  assumes "managerOk sm" and "e \<in> set (getEntries sm)"
  shows "map_of (smById sm) (enId e) = Some e" and "enId e \<noteq> []"
  using mapGet_index [OF managerOkD(3) [OF assms(1)] assms(2)] growsTree_ids [OF managerOkD(1) [OF assms(1)] assms(2)]
    managerOkD(2) [OF assms(1)] by simp_all

text \<open>The branch of an entry: the only path that the walk can take.\<close>

lemma getBranch_rootPath:
  assumes "managerOk sm" and "rootPath (smById sm) (p @ [e])" and "e \<in> set (getEntries sm)"
  shows "getBranch (Some (enId e)) sm = Some (p @ [e])"
  using walk_rootPath [OF assms(2), of "[]"] mapGet_byId [OF assms(1,3)] by (simp add: getBranch_def)

lemma branch_exists:
  assumes "managerOk sm" and "e \<in> set (getEntries sm)"
  obtains p where "rootPath (smById sm) (p @ [e])" and "subseq (p @ [e]) (getEntries sm)"
    and "getBranch (Some (enId e)) sm = Some (p @ [e])"
  using growsTree_rootPath [OF managerOkD(1) [OF assms(1)] assms(2)] getBranch_rootPath [OF assms(1) _ assms(2)]
    managerOkD(2) [OF assms(1)] by auto

lemma getBranch_leaf:
  "getBranch None sm = (case smLeaf sm of None \<Rightarrow> Some [] | Some i \<Rightarrow> getBranch (Some i) sm)"
  by (auto simp: getBranch_def split: option.splits)

lemma id_entry:
  assumes "managerOk sm" and "smLeaf sm = Some i \<or> mapHas (smById sm) i"
  obtains e where "e \<in> set (getEntries sm)" and "enId e = i"
  using assms by (auto simp: managerOk_def mapHas_def)

lemma subseq_set: "subseq p q \<Longrightarrow> set p \<subseteq> set q"
  by (metis set_nths_subset subseq_conv_nths)

lemma subseq_distinct_map: "subseq p q \<Longrightarrow> distinct (map f q) \<Longrightarrow> distinct (map f p)"
  by (metis distinct_nthsI nths_map subseq_conv_nths)

lemma growsTree_older:
  "growsTree es \<Longrightarrow> i < length es \<Longrightarrow> enParent (es ! i) = None \<or> (\<exists>j < i. enParent (es ! i) = Some (enId (es ! j)))"
proof (induction arbitrary: i rule: growsTree.induct)
  case (entry es e)
  have at: "(es @ [e]) ! j = es ! j" if "j < length es" for j using that by (simp add: nth_append)
  show ?case
  proof (cases "i < length es")
    case True
    then show ?thesis using entry.IH [OF True] at [OF True] at by (metis order.strict_trans)
  next
    case False
    then have i: "i = length es" using entry.prems by simp
    show ?thesis
    proof (cases "enParent e")
      case (Some p)
      then obtain y where "y \<in> set es" "enId y = p" using entry.hyps(4) by auto
      then obtain j where "j < length es" "enId (es ! j) = p" by (metis in_set_conv_nth)
      then show ?thesis using i Some at by auto
    qed (use i in simp)
  qed
qed simp

section \<open>Properties\<close>


lemma branch_of_child:
  assumes "managerOk sm" and "managerOk sm'" and "addsChild parent i sm sm'" and "i \<notin> set (usedIds sm)"
  shows "\<exists>e. getEntries sm' = getEntries sm @ [e] \<and> smLeaf sm' = Some (enId e) \<and> enId e = i \<and> enParent e = parent
    \<and> (\<forall>y \<in> set (getEntries sm). getBranch (Some (enId y)) sm' = getBranch (Some (enId y)) sm)
    \<and> (\<exists>p. (case parent of None \<Rightarrow> p = [] | Some j \<Rightarrow> getBranch (Some j) sm = Some p) \<and> getBranch None sm' = Some (p @ [e]))"
proof -
  obtain e where e: "appendsEntry e sm sm'" "enId e = i" "enParent e = parent"
    and has: "parent = smLeaf sm \<or> parent = None \<or> mapHas (smById sm) (the parent)"
    using assms(3) by (auto simp: addsChild_def)
  have es: "getEntries sm' = getEntries sm @ [e]" and leaf: "smLeaf sm' = Some (enId e)" using e(1) by (simp_all add: appendsEntry_def)
  have new: "enId e \<notin> set (map enId (getEntries sm))" using assms(4) e(2) managerOkD(4) [OF assms(1)] by simp
  have "parentOf (smById sm') y = parentOf (smById sm) y" if "y \<in> set (getEntries sm)" for y
    unfolding managerOkD(2) [OF assms(1)] managerOkD(2) [OF assms(2)] es
    by (rule parentOf_index_snoc [OF managerOkD(1) [OF assms(1)] new that])
  then have old: "rootPath (smById sm') p" if "rootPath (smById sm) p" "subseq p (getEntries sm)" for p
    using rootPath_cong [of p "smById sm'" "smById sm"] subseq_set [OF that(2)] that(1) by blast
  have "getBranch (Some (enId y)) sm' = getBranch (Some (enId y)) sm" if y: "y \<in> set (getEntries sm)" for y
  proof -
    obtain p where p: "rootPath (smById sm) (p @ [y])" "subseq (p @ [y]) (getEntries sm)" "getBranch (Some (enId y)) sm = Some (p @ [y])"
      by (rule branch_exists [OF assms(1) y])
    then show ?thesis using getBranch_rootPath [OF assms(2) old [OF p(1,2)]] es y by simp
  qed
  moreover have "\<exists>p. (case parent of None \<Rightarrow> p = [] | Some j \<Rightarrow> getBranch (Some j) sm = Some p) \<and> getBranch None sm' = Some (p @ [e])"
  proof (cases parent)
    case None
    then have "rootPath (smById sm') ([] @ [e])" using e(3) by (simp add: rootPath_def parentOf_def)
    then show ?thesis using getBranch_rootPath [OF assms(2), of "[]" e] es leaf None by (simp add: getBranch_leaf)
  next
    case (Some j)
    then obtain y where y: "y \<in> set (getEntries sm)" "enId y = j" using has id_entry [OF assms(1), of j] by (metis option.sel option.distinct(1))
    obtain p where p: "rootPath (smById sm) (p @ [y])" "subseq (p @ [y]) (getEntries sm)" "getBranch (Some (enId y)) sm = Some (p @ [y])"
      by (rule branch_exists [OF assms(1) y(1)])
    have "parentOf (smById sm') e = Some y"
      using e(3) Some y mapGet_byId(1) [OF assms(2), of y] mapGet_byId(2) [OF assms(1) y(1)] es by (simp add: parentOf_def)
    then have "rootPath (smById sm') ((p @ [y]) @ [e])" by (rule rootPath_snoc [OF old [OF p(1,2)]])
    then show ?thesis using getBranch_rootPath [OF assms(2), of "p @ [y]" e] es leaf Some y(2) p(3) by (simp add: getBranch_leaf)
  qed
  ultimately show ?thesis using es leaf e(2,3) by blast
qed

text \<open>C23 Branches are isolated. An operation adds at most one entry, and the branch of every entry that was there before is
  the same afterwards; the branch of a new entry is the branch it hangs on and the entry.\<close>

theorem operations_keep_branches:
  assumes "reachable sm" and "freshSource src sm" and "runOp src now operation sm = Inr sm'"
  shows "(\<forall>e \<in> set (getEntries sm). getBranch (Some (enId e)) sm' = getBranch (Some (enId e)) sm)
    \<and> (getEntries sm' = getEntries sm
       \<or> (\<exists>e p. getEntries sm' = getEntries sm @ [e] \<and> smLeaf sm' = Some (enId e)
            \<and> (case opParent operation sm of None \<Rightarrow> p = [] | Some i \<Rightarrow> getBranch (Some i) sm = Some p)
            \<and> getBranch None sm' = Some (p @ [e])))"
proof -
  note ok = reachable_ok [OF assms(1)] reachable_ok [OF reachable.step [OF assms]]
  from runOp_cases [OF assms(3)] show ?thesis
  proof
    assume "movesLeaf sm sm'"
    then show ?thesis by (simp add: movesLeaf_def sameTree_def getBranch_def)
  next
    assume "addsChild (opParent operation sm) (generateId src (usedIds sm)) sm sm'"
    from branch_of_child [OF ok this] assms(2) show ?thesis unfolding freshSource_def by blast
  qed
qed

section \<open>Rebuilding the index\<close>

lemma indexStep_fields:
  "smById (indexStep e sm) = mapSet (enId e) e (smById sm)" "smLeaf (indexStep e sm) = Some (enId e)"
  "smLabels (indexStep e sm) = labelStep e (smLabels sm)" "smUsage (indexStep e sm) = entryUsage e (smUsage sm)"
  "smFileEntries (indexStep e sm) = smFileEntries sm" "smSessionId (indexStep e sm) = smSessionId sm"
  "smSessionName (indexStep e sm) = smSessionName sm" "smNamedByUser (indexStep e sm) = smNamedByUser sm"
  "smCwd (indexStep e sm) = smCwd sm"
  by (simp_all add: indexStep_def labelStep_def)

lemma fold_indexStep:
  "smLabels (fold indexStep es sm) = fold labelStep es (smLabels sm)"
  "smUsage (fold indexStep es sm) = fold entryUsage es (smUsage sm)"
  "smLeaf (fold indexStep es sm) = (if es = [] then smLeaf sm else Some (enId (last es)))"
  "smFileEntries (fold indexStep es sm) = smFileEntries sm" "smSessionId (fold indexStep es sm) = smSessionId sm"
  "smSessionName (fold indexStep es sm) = smSessionName sm" "smNamedByUser (fold indexStep es sm) = smNamedByUser sm"
  "smCwd (fold indexStep es sm) = smCwd sm"
  by (induction es arbitrary: sm) (simp_all add: indexStep_fields)

lemma fold_indexStep_byId:
  "distinct (map fst (smById sm) @ map enId es) \<Longrightarrow> smById (fold indexStep es sm) = smById sm @ index es"
proof (induction es arbitrary: sm)
  case (Cons e es)
  have "smById (indexStep e sm) = smById sm @ [(enId e, e)]"
    using Cons.prems mapSet_new [of "enId e" "smById sm" e] by (simp add: indexStep_fields)
  then show ?case using Cons by auto
qed simp

lemma buildIndex_fields:
  assumes "distinct (map enId (getEntries sm))"
  shows "smById (buildIndex sm) = index (getEntries sm)" "smLabels (buildIndex sm) = fold labelStep (getEntries sm) []"
    "smUsage (buildIndex sm) = fold entryUsage (getEntries sm) noUsage"
    "smLeaf (buildIndex sm) = (if getEntries sm = [] then None else Some (enId (last (getEntries sm))))"
    "smFileEntries (buildIndex sm) = smFileEntries sm" "smSessionId (buildIndex sm) = smSessionId sm"
    "smSessionName (buildIndex sm) = smSessionName sm" "smNamedByUser (buildIndex sm) = smNamedByUser sm"
    "smCwd (buildIndex sm) = smCwd sm" "getEntries (buildIndex sm) = getEntries sm"
  using assms by (simp_all add: buildIndex_def fold_indexStep fold_indexStep_byId getEntries_def)

text \<open>C24 A snapshot of a session restores it, into any manager: the entries, the index, the labels, the usage statistics, the
  name and the directory are those at the time of the snapshot. The leaf is not: it is the last entry, wherever the user
  had navigated to.\<close>

theorem snapshot_roundtrip:
  assumes "reachable sm"
  shows "let sm' = restoreState (captureState sm) other in
    smFileEntries sm' = smFileEntries sm \<and> smById sm' = smById sm \<and> smLabels sm' = smLabels sm \<and> smUsage sm' = smUsage sm
    \<and> smSessionId sm' = smSessionId sm \<and> smSessionName sm' = smSessionName sm \<and> smNamedByUser sm' = smNamedByUser sm
    \<and> smCwd sm' = smCwd sm
    \<and> smLeaf sm' = (if getEntries sm = [] then None else Some (enId (last (getEntries sm))))"
proof -
  let ?sm = "other\<lparr>smCwd := smCwd sm, smSessionId := smSessionId sm, smSessionName := smSessionName sm,
    smNamedByUser := smNamedByUser sm, smFileEntries := smFileEntries sm\<rparr>"
  note ok = reachable_ok [OF assms]
  have es: "getEntries ?sm = getEntries sm" by (simp add: getEntries_def)
  show ?thesis
    using buildIndex_fields [of ?sm] managerOkD(3) [OF ok] ok unfolding es managerOk_def
    by (simp add: restoreState_def captureState_def Let_def)
qed

section \<open>A small session\<close>

text \<open>Two messages with a label on the first between them.\<close>

definition blankManager :: session_manager where
  "blankManager =
     \<lparr>smSessionId = [], smSessionName = None, smNamedByUser = None, smCwd = js ''/w'', smFileEntries = [], smById = [],
      smLabels = [], smLeaf = None, smUsage = noUsage, smTurnTotal = None, smTurnHard = False, smTurnBaseline = 0, smTurnEval = 0\<rparr>"

definition oneId :: "string \<Rightarrow> id_source" where
  "oneId i = \<lparr>isDraws = [js i], isSnowflake = js i\<rparr>"

definition userSays :: "string \<Rightarrow> agent_message" where
  "userSays t = UserMessage (StringContent (js t))"

fun runAll :: "(string \<times> session_op) list \<Rightarrow> session_manager \<Rightarrow> jstring + session_manager" where
  "runAll [] sm = Inr sm"
| "runAll ((i, operation) # rest) sm = bindE (runOp (oneId i) 0 operation sm) (runAll rest)"

fun allFresh :: "(string \<times> session_op) list \<Rightarrow> session_manager \<Rightarrow> bool" where
  "allFresh [] sm \<longleftrightarrow> True"
| "allFresh ((i, operation) # rest) sm \<longleftrightarrow>
     freshSource (oneId i) sm \<and> (case runOp (oneId i) 0 operation sm of Inl e \<Rightarrow> False | Inr sm' \<Rightarrow> allFresh rest sm')"

lemma runAll_reachable: "reachable sm \<Longrightarrow> allFresh ops sm \<Longrightarrow> runAll ops sm = Inr sm' \<Longrightarrow> reachable sm'"
  by (induction ops sm rule: runAll.induct) (auto split: sum.splits intro: reachable.step)

definition demoStart :: session_manager where
  "demoStart = newSessionSync (js ''s'') 0 None blankManager"

definition demoOps :: "(string \<times> session_op) list" where
  "demoOps = [(''a'', OpMessage (userSays ''hi'')), (''b'', OpLabel (js ''a'') (Some (js ''mark''))), (''c'', OpMessage (userSays ''more''))]"

definition demoSession :: session_manager where
  "demoSession = (case runAll demoOps demoStart of Inr sm \<Rightarrow> sm | Inl e \<Rightarrow> demoStart)"

definition demoEntry :: session_entry where
  "demoEntry = \<lparr>enId = js ''a'', enParent = None, enTime = 0, enBody = MessageEntry (userSays ''hi'')\<rparr>"

lemma demo_reachable: "reachable demoSession"
proof -
  have "(case runAll demoOps demoStart of Inr sm \<Rightarrow> True | Inl e \<Rightarrow> False) \<and> allFresh demoOps demoStart" by code_simp
  then obtain sm where "runAll demoOps demoStart = Inr sm" "allFresh demoOps demoStart" by (auto split: sum.splits)
  then show ?thesis
    using runAll_reachable [of demoStart demoOps sm] reachable.start unfolding demoSession_def demoStart_def by simp
qed


lemma operations_keep_branches_witness:
  "getBranch (Some (js ''a'')) (resetLeaf demoSession) = getBranch (Some (js ''a'')) demoSession"
proof -
  have "demoEntry \<in> set (getEntries demoSession)" "freshSource (oneId ''z'') demoSession" by code_simp+
  then show ?thesis
    using operations_keep_branches [OF demo_reachable, of "oneId ''z''" 0 OpReset "resetLeaf demoSession"] unfolding demoEntry_def by fastforce
qed

lemma snapshot_roundtrip_witness:
  "smById (restoreState (captureState demoSession) blankManager) = smById demoSession
     \<and> smLeaf (restoreState (captureState demoSession) blankManager) = Some (js ''c'')"
proof -
  have "getEntries demoSession \<noteq> []" "enId (last (getEntries demoSession)) = js ''c''" by code_simp+
  then show ?thesis using snapshot_roundtrip [OF demo_reachable, of blankManager] unfolding Let_def by presburger
qed

end
