(* ===== verification/Ses_Branch_Facts.thy ===== *)
theory Ses_Branch_Facts
  imports Ses_Tree_Facts
begin

text \<open>
  \<open>createBranchedSession\<close>: the session made of one branch of another. Without labels on the branch it has the same context;
  an entry after a label loses the history before the label.
\<close>

section \<open>Linear sessions\<close>

definition linearChain :: "session_entry list \<Rightarrow> bool" where
  "linearChain es \<longleftrightarrow> (es = [] \<or> enParent (hd es) = None) \<and> successively (\<lambda>a b. enParent b = Some (enId a)) es"

lemma linearChain_snoc_iff:
  "linearChain (es @ [e]) \<longleftrightarrow> linearChain es \<and> enParent e = (if es = [] then None else Some (enId (last es)))"
  by (auto simp: linearChain_def successively_append_iff hd_append)

lemma linearChain_grows:
  "linearChain es \<Longrightarrow> distinct (map enId es) \<Longrightarrow> [] \<notin> set (map enId es) \<Longrightarrow> growsTree es"
proof (induction es rule: rev_induct)
  case (snoc e es)
  then have "growsTree es" by (simp add: linearChain_snoc_iff)
  moreover have "enParent e = None \<or> the (enParent e) \<in> set (map enId es)"
    using snoc.prems(1) [unfolded linearChain_snoc_iff] by (cases "es = []") auto
  ultimately show ?case using snoc.prems by (auto simp: growsTree_snoc_iff)
qed (simp add: growsTree.empty)

lemma linearChain_rootPath:
  assumes "linearChain es" and "es \<noteq> []" and "distinct (map enId es)" and "[] \<notin> set (map enId es)"
  shows "rootPath (index es) es"
proof -
  have "successively (\<lambda>a b. parentOf (index es) b = Some a) es = successively (\<lambda>a b. enParent b = Some (enId a)) es"
  proof (rule successively_cong)
    fix a b
    assume in_es: "a \<in> set es" "b \<in> set es"
    then have "enId a \<noteq> []" using assms(4) by (metis image_eqI list.set_map)
    then show "parentOf (index es) b = Some a \<longleftrightarrow> enParent b = Some (enId a)"
      using mapGet_index [OF assms(3) in_es(1)] mapGet_index_Some [of es "the (enParent b)" a]
      by (auto simp: parentOf_def truthy_def)
  qed simp
  then show ?thesis using assms(1,2) by (cases es) (auto simp: rootPath_def linearChain_def parentOf_def)
qed

lemma linearChain_walk:
  assumes "linearChain es" and "es \<noteq> []" and "distinct (map enId es)" and "[] \<notin> set (map enId es)"
  shows "enId (last es) \<noteq> []" and "map_of (index es) (enId (last es)) = Some (last es)"
    and "walkToRoot (index es) (Some (last es)) [] = Some es"
proof -
  show "enId (last es) \<noteq> []" using assms(2,4) by (metis image_eqI last_in_set list.set_map)
  show "map_of (index es) (enId (last es)) = Some (last es)" using mapGet_index [OF assms(3)] assms(2) by simp
  show "walkToRoot (index es) (Some (last es)) [] = Some es"
    using walk_rootPath [of "index es" "butlast es" "last es" "[]"] linearChain_rootPath [OF assms] assms(2) by simp
qed

lemma rootPath_linear:
  assumes "managerOk sm" and "rootPath (smById sm) p" and "set p \<subseteq> set (getEntries sm)"
  shows "linearChain p"
  using assms(2,3)
proof (induction p rule: rev_induct)
  case (snoc e p)
  show ?case
  proof (cases p rule: rev_cases)
    case Nil
    then have "parentOf (smById sm) e = None" using snoc.prems(1) by (simp add: rootPath_def)
    moreover have "enParent e = None \<or> mapHas (smById sm) (the (enParent e))"
      using growsTree_parents [OF managerOkD(1) [OF assms(1)], of e] snoc.prems(2) managerOkD(2) [OF assms(1)] by (auto simp: mapHas_def o_def)
    moreover have "the (enParent e) \<noteq> []" if "mapHas (smById sm) (the (enParent e))"
      using id_entry [OF assms(1), of "the (enParent e)"] mapGet_byId(2) [OF assms(1)] that by metis
    moreover have "map_of (smById sm) i \<noteq> None" if "mapHas (smById sm) i" for i
      using that by (simp add: mapHas_def map_of_eq_None_iff)
    ultimately have "enParent e = None" by (metis option.collapse parentOf_def truthy_simps(2))
    then show ?thesis using Nil by (simp add: linearChain_def)
  next
    case (snoc q x)
    then have "parentOf (smById sm) e = Some x" "rootPath (smById sm) p" using snoc.prems(1) rootPath_snoc_iff [of "smById sm" p e] by auto
    moreover from this(1) have "enParent e = Some (enId x)"
      using managerOkD(2) [OF assms(1)] mapGet_index_Some [of "getEntries sm" "the (enParent e)" x]
      by (auto simp: parentOf_def truthy_def split: if_splits)
    ultimately show ?thesis using snoc.IH snoc.prems(2) snoc linearChain_snoc_iff [of p e] by auto
  qed
qed (simp add: rootPath_def)

section \<open>Labels\<close>

fun freshLabels :: "id_source list \<Rightarrow> jstring list \<Rightarrow> nat \<Rightarrow> bool" where
  "freshLabels srcs used 0 \<longleftrightarrow> True"
| "freshLabels srcs used (Suc n) \<longleftrightarrow>
     (let i = generateId (hd srcs) used in i \<notin> set used \<and> i \<noteq> [] \<and> freshLabels (tl srcs) (used @ [i]) n)"

lemma labelChain_linear:
  assumes "linearChain p" and "distinct (map enId p)" and "[] \<notin> set (map enId p)"
    and "freshLabels srcs (map enId p) (length ls)" and "parent = (if p = [] then None else Some (enId (last p)))"
  shows "linearChain (p @ labelChain srcs now (map enId p) parent ls)
    \<and> distinct (map enId (p @ labelChain srcs now (map enId p) parent ls))
    \<and> [] \<notin> set (map enId (p @ labelChain srcs now (map enId p) parent ls))"
  using assms
proof (induction ls arbitrary: p srcs parent)
  case (Cons l ls)
  obtain t x where l: "l = (t, x)" by (cases l)
  let ?i = "generateId (hd srcs) (map enId p)"
  let ?e = "\<lparr>enId = ?i, enParent = parent, enTime = now, enBody = LabelEntry t (Some x)\<rparr>"
  have eq: "p @ labelChain srcs now (map enId p) parent (l # ls) =
      (p @ [?e]) @ labelChain (tl srcs) now (map enId (p @ [?e])) (Some ?i) ls"
    by (simp add: l Let_def)
  have "linearChain (p @ [?e])" using Cons.prems(1,5) by (simp add: linearChain_snoc_iff)
  then show ?case
    unfolding eq using Cons.prems by (intro Cons.IH) (auto simp: Let_def)
qed simp

lemma labelChain_bodies: "e \<in> set (labelChain srcs now used parent ls) \<Longrightarrow> isLabelBody (enBody e)"
  by (induction srcs now used parent ls rule: labelChain.induct) (auto simp: Let_def)

lemma labelStep_labelChain:
  "list_all (\<lambda>(t, x). x \<noteq> []) ls \<Longrightarrow>
     fold labelStep (labelChain srcs now used parent ls) labels = fold (\<lambda>(t, x). mapSet t x) ls labels"
  by (induction srcs now used parent ls arbitrary: labels rule: labelChain.induct)
    (auto simp: Let_def labelStep_def setLabel_def)

lemma labelStep_other: "list_all (\<lambda>e. \<not> isLabelBody (enBody e)) es \<Longrightarrow> fold labelStep es labels = labels"
proof (induction es arbitrary: labels)
  case (Cons e es)
  then have "labelStep e labels = labels" by (cases "enBody e") (auto simp: labelStep_def)
  with Cons show ?case by simp
qed simp

lemma fold_mapSet_same:
  "distinct (map fst (m @ ls)) \<Longrightarrow> fold (\<lambda>(t, x). mapSet t x) ls m = m @ ls"
proof (induction ls arbitrary: m)
  case (Cons l ls)
  then show ?case using mapSet_new [of "fst l" m "snd l"] by (auto simp: case_prod_beta)
qed simp

text \<open>The labels kept are not empty and one per entry.\<close>

definition labelsOk :: "(jstring, jstring) jsmap \<Rightarrow> bool" where
  "labelsOk labels \<longleftrightarrow> distinct (map fst labels) \<and> list_all (\<lambda>(t, x). x \<noteq> []) labels"

lemma list_all_mapSet: "list_all P m \<Longrightarrow> P (k, v) \<Longrightarrow> list_all P (mapSet k v m)"
  by (induction m) auto

lemma labelsOk_step:
  assumes "labelsOk labels"
  shows "labelsOk (labelStep e labels)"
proof (cases "enBody e")
  case (LabelEntry t l)
  have "list_all (\<lambda>(t, x). x \<noteq> []) (mapSet t (the l) labels)" if "truthy l"
    using assms that by (intro list_all_mapSet) (auto simp: labelsOk_def truthy_def)
  then show ?thesis
    using assms LabelEntry by (auto simp: labelsOk_def labelStep_def setLabel_def distinct_mapSet mapDelete_def list_all_iff
        intro: distinct_map_filter [of fst])
qed (use assms in \<open>auto simp: labelStep_def\<close>)

lemma labelsOk_manager: "managerOk sm \<Longrightarrow> labelsOk (smLabels sm)"
proof -
  have "labelsOk labels \<Longrightarrow> labelsOk (fold labelStep es labels)" for es labels
    by (induction es arbitrary: labels) (auto intro: labelsOk_step)
  then show "managerOk sm \<Longrightarrow> labelsOk (smLabels sm)" by (simp add: managerOk_def) (simp add: labelsOk_def)
qed

section \<open>The new session\<close>

lemma settings_compaction:
  "csCompaction (fold settingsStep p s) = Some (e, c) \<Longrightarrow> csCompaction s = Some (e, c) \<or> (e \<in> set p \<and> enBody e = Compaction c)"
proof (induction p arbitrary: s)
  case (Cons x p)
  have "csCompaction (settingsStep x s) = Some (e, c) \<Longrightarrow> csCompaction s = Some (e, c) \<or> (x = e \<and> enBody e = Compaction c)"
    by (auto simp: settingsStep_def Let_def split: entry_body.splits agent_message.splits if_splits)
  with Cons show ?case by fastforce
qed simp

lemma label_neutral:
  assumes "isLabelBody (enBody e)"
  shows "settingsStep e s = s" and "entryMessages e = []" and "\<not> isCompaction (enBody e)"
  using assms by (cases "enBody e"; simp add: settingsStep_def entryMessages_def)+

lemma pathContext_labels:
  assumes "list_all (\<lambda>e. isLabelBody (enBody e)) ls"
  shows "pathContext (p @ ls) = pathContext p"
proof -
  have settings: "fold settingsStep ls s = s" for s using assms label_neutral(1) by (induction ls arbitrary: s) auto
  have messages: "concat (map entryMessages ls) = []" using assms label_neutral(2) by (induction ls) auto
  have "contextMessages (p @ ls) (csCompaction (fold settingsStep p initialSettings))
      = contextMessages p (csCompaction (fold settingsStep p initialSettings))"
  proof (cases "csCompaction (fold settingsStep p initialSettings)")
    case None
    then show ?thesis using messages by (simp add: contextMessages_def)
  next
    case (Some x)
    obtain e c where x: "x = (e, c)" by (cases x)
    then have e: "e \<in> set p" "isCompaction (enBody e)"
      using settings_compaction [of p initialSettings e c] Some by (auto simp: initialSettings_def)
    have "beforeCompaction (enId e) (p @ ls) = beforeCompaction (enId e) p"
      unfolding beforeCompaction_def by (rule takeWhile_append1 [OF e(1)]) (simp add: e(2))
    moreover have "dropWhile (\<lambda>k. \<not> (isCompaction (enBody k) \<and> enId k = enId e)) (p @ ls)
        = dropWhile (\<lambda>k. \<not> (isCompaction (enBody k) \<and> enId k = enId e)) p @ ls"
      by (rule dropWhile_append1 [OF e(1)]) (simp add: e(2))
    moreover have "dropWhile (\<lambda>k. \<not> (isCompaction (enBody k) \<and> enId k = enId e)) p \<noteq> []" using e by (auto simp: dropWhile_eq_Nil_conv)
    ultimately show ?thesis using x Some messages by (simp add: contextMessages_def afterCompaction_def)
  qed
  then show ?thesis by (simp add: pathContext_def Let_def settings)
qed

text \<open>C26 A session made from a branch without labels resumes as that branch: its context is that of the branch, and it has
  the labels of the entries of the branch.\<close>

theorem branched_session_keeps_context:
  assumes "reachable sm" and "getBranch (Some leafId) sm = Some p" and "p \<noteq> []"
    and "list_all (\<lambda>e. \<not> isLabelBody (enBody e)) p"
    and "freshLabels srcs (map enId p) (length (filter (\<lambda>(t, l). t \<in> set (map enId p)) (smLabels sm)))"
  shows "\<exists>sm'. createBranchedSession srcs sessionId now leafId sm = Some (Inr sm')
    \<and> managerContext sm' = Some (pathContext p)
    \<and> smLabels sm' = filter (\<lambda>(t, l). t \<in> set (map enId p)) (smLabels sm)"
proof -
  note ok = reachable_ok [OF assms(1)]
  let ?ls = "filter (\<lambda>(t, l). t \<in> set (map enId p)) (smLabels sm)"
  let ?chain = "labelChain srcs now (map enId p) (Some (enId (last p))) ?ls"
  obtain e where e: "mapGet (smById sm) leafId = Some e" "leafId \<noteq> []"
    using assms(2,3) by (cases "mapGet (smById sm) leafId") (auto simp: getBranch_def split: if_splits)
  then have mem: "e \<in> set (getEntries sm)" "enId e = leafId" using managerOkD(2) [OF ok] mapGet_index_Some by auto
  obtain q where q: "rootPath (smById sm) (q @ [e])" "subseq (q @ [e]) (getEntries sm)" "getBranch (Some (enId e)) sm = Some (q @ [e])"
    by (rule branch_exists [OF ok mem(1)])
  then have p: "p = q @ [e]" using assms(2) mem(2) by simp
  have set_p: "set p \<subseteq> set (getEntries sm)" using subseq_set [OF q(2)] p by simp
  have dist: "distinct (map enId p)" using subseq_distinct_map [OF q(2)] managerOkD(3) [OF ok] p by simp
  have ne: "[] \<notin> set (map enId p)" using set_p growsTree_ids [OF managerOkD(1) [OF ok]] by (metis (no_types, opaque_lifting) imageE list.set_map subsetD)
  have lin: "linearChain p" using rootPath_linear [OF ok q(1)] set_p p by simp
  have chain: "linearChain (p @ ?chain)" "distinct (map enId (p @ ?chain))" "[] \<notin> set (map enId (p @ ?chain))"
    using labelChain_linear [OF lin dist ne assms(5), of "Some (enId (last p))" now] assms(3) by auto
  let ?sm = "sm\<lparr>smSessionId := sessionId, smFileEntries := HeaderEntry (newHeader sessionId now (smCwd sm) None) # map FileEntry (p @ ?chain)\<rparr>"
  have es: "getEntries ?sm = p @ ?chain" by (simp add: getEntries_def)
  have keep: "filter (\<lambda>e. \<not> isLabelBody (enBody e)) p = p" using assms(4) by (simp add: filter_id_conv list_all_iff)
  have "last p \<in> set p" using assms(3) by simp
  then have lastne: "enId (last p) \<noteq> []" using ne by force
  have created: "createBranchedSession srcs sessionId now leafId sm = Some (Inr (buildIndex ?sm))"
    unfolding createBranchedSession_def assms(2) option.map keep Let_def using assms(3) lastne by simp
  note fields = buildIndex_fields [of ?sm, unfolded es, OF chain(2)]
  have path: "rootPath (index (p @ ?chain)) (p @ ?chain)"
    using linearChain_rootPath [OF chain(1) _ chain(2,3)] assms(3) by blast
  let ?es = "p @ ?chain"
  have "managerContext (buildIndex ?sm) = Some (pathContext ?es)"
    using linearChain_walk [OF chain(1) _ chain(2,3)] assms(3) fields by (simp add: managerContext_def buildSessionContext_def findLeaf_def)
  moreover have "pathContext ?es = pathContext p" by (rule pathContext_labels) (simp add: list_all_iff labelChain_bodies)
  ultimately have "managerContext (buildIndex ?sm) = Some (pathContext p)" by simp
  moreover have "labelsOk ?ls" using labelsOk_manager [OF ok] by (auto simp: labelsOk_def list_all_iff intro: distinct_map_filter)
  then have "smLabels (buildIndex ?sm) = ?ls"
    using fields(2) labelStep_other [OF assms(4)] labelStep_labelChain [of ?ls srcs now "map enId p" "Some (enId (last p))"]
      fold_mapSet_same [of "[]" ?ls] by (simp add: labelsOk_def)
  ultimately show ?thesis using created by blast
qed

section \<open>A session with a label\<close>

definition messagesIn :: "session_manager \<Rightarrow> agent_message list option" where
  "messagesIn sm = map_option sxMessages (managerContext sm)"

definition branchedMessages :: "session_manager \<Rightarrow> agent_message list option" where
  "branchedMessages sm =
     (case createBranchedSession [oneId ''d''] (js ''t'') 9 (js ''c'') sm of Some (Inr sm') \<Rightarrow> messagesIn sm' | _ \<Rightarrow> None)"

text \<open>With a label on the branch the history before the label is lost. A user message, a label on it and a second message,
  which hangs on the entry of the label: the context has both messages, but that of the session made from this branch has only the
  second, since the label that the second message names as its parent is left out of the new session.\<close>

theorem branched_session_loses_history:
  "reachable demoSession \<and> smLeaf demoSession = Some (js ''c'') \<and> messagesIn demoSession = Some [userSays ''hi'', userSays ''more'']
     \<and> branchedMessages demoSession = Some [userSays ''more'']"
proof -
  have "smLeaf demoSession = Some (js ''c'') \<and> messagesIn demoSession = Some [userSays ''hi'', userSays ''more'']
     \<and> branchedMessages demoSession = Some [userSays ''more'']" by code_simp
  then show ?thesis using demo_reachable by blast
qed

lemma branched_session_keeps_context_witness:
  "\<exists>sm'. createBranchedSession [oneId ''d''] (js ''t'') 9 (js ''a'') demoSession = Some (Inr sm')
    \<and> managerContext sm' = Some (pathContext [demoEntry]) \<and> smLabels sm' = [(js ''a'', js ''mark'')]"
proof -
  have "getBranch (Some (js ''a'')) demoSession = Some [demoEntry]" by code_simp
  moreover have "filter (\<lambda>(t, l). t \<in> set (map enId [demoEntry])) (smLabels demoSession) = [(js ''a'', js ''mark'')]" by code_simp
  moreover have "freshLabels [oneId ''d''] (map enId [demoEntry]) (length [(js ''a'', js ''mark'')])" by code_simp
  ultimately show ?thesis
    using branched_session_keeps_context [OF demo_reachable, of "js ''a''" "[demoEntry]" "[oneId ''d'']" "js ''t''" 9]
    by (simp add: demoEntry_def del: js_simps_base)
qed

end
