(* ===== verification/Ses_Compaction.thy ===== *)
theory Ses_Compaction
  imports Ses_Manager "HOL-Library.List_Lexorder"
begin

text \<open>
  packages/agent/src/compaction: when a session is compacted, where its path is cut, what is summarised and what is kept
  (compaction.ts), the pruning of old tool outputs (pruning.ts, tool-protection.ts), the files named by tool calls (utils.ts) and
  the part of an abandoned branch that its summary covers (branch-summarization.ts). The tokenizer \<open>countTokens\<close> is native code
  and an argument \<open>K\<close>. Indices are natural numbers and \<open>-1\<close> is \<open>None\<close>.
\<close>

section \<open>Tokens\<close>

definition calculateContextTokens :: "token_usage \<Rightarrow> nat" where
  "calculateContextTokens u =
     (if usTotalTokens u \<noteq> 0 then usTotalTokens u else usInput u + usOutput u + usCacheRead u + usCacheWrite u)"

definition calculatePromptTokens :: "token_usage \<Rightarrow> nat" where
  "calculatePromptTokens u =
     (let promptTokens = usInput u + usCacheRead u + usCacheWrite u in
      if 0 < promptTokens then promptTokens else calculateContextTokens u)"

definition getAssistantUsage :: "agent_message \<Rightarrow> token_usage option" where
  "getAssistantUsage message =
     (case message of
        AssistantMessage m \<Rightarrow>
          if amStopReason m \<noteq> StopAborted \<and> amStopReason m \<noteq> StopError then Some (amUsage m) else None
      | _ \<Rightarrow> None)"

fun firstUsage :: "session_entry list \<Rightarrow> token_usage option" where
  "firstUsage [] = None"
| "firstUsage (e # es) =
     (case (case enBody e of MessageEntry m \<Rightarrow> getAssistantUsage m | _ \<Rightarrow> None) of
        Some u \<Rightarrow> Some u
      | None \<Rightarrow> firstUsage es)"

definition getLastAssistantUsage :: "session_entry list \<Rightarrow> token_usage option" where
  "getLastAssistantUsage entries = firstUsage (rev entries)"

section \<open>Thresholds\<close>

datatype compaction_strategy = ContextFull | Handoff | Shake | StrategyOff

record compaction_settings =
  ksEnabled :: bool
  ksStrategy :: "compaction_strategy option"
  ksThresholdPercent :: "jsnum option"
  ksThresholdTokens :: "jsnum option"
  ksReserveTokens :: nat
  ksKeepRecentTokens :: nat

definition DEFAULT_COMPACTION_SETTINGS :: compaction_settings where
  "DEFAULT_COMPACTION_SETTINGS =
     \<lparr>ksEnabled = True, ksStrategy = Some ContextFull, ksThresholdPercent = Some (NumFin (- 1)),
      ksThresholdTokens = Some (NumFin (- 1)), ksReserveTokens = 16384, ksKeepRecentTokens = 20000\<rparr>"

abbreviation numNat :: "nat \<Rightarrow> jsnum" where
  "numNat n \<equiv> NumFin (of_nat n)"

text \<open>A number that is finite and above zero.\<close>

definition positiveNumber :: "jsnum option \<Rightarrow> rat option" where
  "positiveNumber n = (case n of Some (NumFin r) \<Rightarrow> if 0 < r then Some r else None | _ \<Rightarrow> None)"

definition effectiveReserveTokens :: "nat \<Rightarrow> compaction_settings \<Rightarrow> jsnum" where
  "effectiveReserveTokens contextWindow settings =
     numMax (numFloor (numMul (numNat contextWindow) (decimalNumber False (js ''0'') (js ''15''))))
       (numNat (ksReserveTokens settings))"

fun numMinus :: "nat \<Rightarrow> jsnum \<Rightarrow> jsnum" where
  "numMinus n (NumFin r) = roundRat (of_nat n - r)"
| "numMinus n (NumInf s) = NumInf (\<not> s)"
| "numMinus n NumNaN = NumNaN"

definition resolveThresholdTokens :: "nat \<Rightarrow> compaction_settings \<Rightarrow> jsnum" where
  "resolveThresholdTokens contextWindow settings =
     (case positiveNumber (ksThresholdTokens settings) of
        Some thresholdTokens \<Rightarrow>
          numMin (NumFin (of_nat contextWindow - 1)) (numMax (NumFin 1) (NumFin thresholdTokens))
      | None \<Rightarrow>
          (case positiveNumber (ksThresholdPercent settings) of
             None \<Rightarrow> numMinus contextWindow (effectiveReserveTokens contextWindow settings)
           | Some percent \<Rightarrow>
               let clamped = numMin (NumFin 99) (numMax (NumFin 1) (NumFin percent)) in
               numFloor (numMul (numNat contextWindow) (numDiv clamped (NumFin 100)))))"

definition shouldCompact :: "nat \<Rightarrow> nat \<Rightarrow> compaction_settings \<Rightarrow> bool" where
  "shouldCompact contextTokens contextWindow settings \<longleftrightarrow>
     ksEnabled settings \<and> ksStrategy settings \<noteq> Some StrategyOff \<and> 0 < contextWindow
     \<and> numLess (resolveThresholdTokens contextWindow settings) (numNat contextTokens)"

section \<open>Estimates\<close>

definition IMAGE_TOKEN_ESTIMATE :: nat where "IMAGE_TOKEN_ESTIMATE = 1200"

fun blockText :: "content_block \<Rightarrow> jstring list" where
  "blockText (TextBlock t s) = (if t = [] then [] else [t])"
| "blockText _ = []"

fun isImage :: "content_block \<Rightarrow> bool" where
  "isImage (ImageBlock d m) = True"
| "isImage _ = False"

definition contentFragments :: "msg_content \<Rightarrow> jstring list" where
  "contentFragments content = (case content of StringContent s \<Rightarrow> [s] | BlockContent blocks \<Rightarrow> concat (map blockText blocks))"

fun assistantFragments :: "content_block \<Rightarrow> jstring list" where
  "assistantFragments (TextBlock t s) = [t]"
| "assistantFragments (ThinkingBlock t s) = [t]"
| "assistantFragments (CallBlock c) = [tcName c, the (jsonStringify (JObj (tcArguments c)))]"
| "assistantFragments _ = []"

definition contentImages :: "msg_content \<Rightarrow> nat" where
  "contentImages content =
     (case content of StringContent s \<Rightarrow> 0 | BlockContent blocks \<Rightarrow> length (filter isImage blocks) * IMAGE_TOKEN_ESTIMATE)"

text \<open>The fragments of a message and the fixed charge for its images; other roles count nothing.\<close>

fun messageFragments :: "agent_message \<Rightarrow> jstring list \<times> nat" where
  "messageFragments (BashExecution command output) = ([command, output], 0)"
| "messageFragments (UserMessage content) = (contentFragments content, 0)"
| "messageFragments (AssistantMessage m) = (concat (map assistantFragments (amContent m)), 0)"
| "messageFragments (HookMessage m t) = (contentFragments (cmContent m), contentImages (cmContent m))"
| "messageFragments (ToolResult r) =
     (contentFragments (BlockContent (tmContent r)), contentImages (BlockContent (tmContent r)))"
| "messageFragments (BranchSummaryMessage summary i t) = ([summary], 0)"
| "messageFragments (CompactionSummaryMessage summary sh n p t) = ([summary], 0)"
| "messageFragments _ = ([], 0)"

definition estimateTokens :: "(jstring list \<Rightarrow> nat) \<Rightarrow> agent_message \<Rightarrow> nat" where
  "estimateTokens K message =
     (case messageFragments message of (fragments, extra) \<Rightarrow> if fragments = [] then extra else extra + K fragments)"

text \<open>\<open>getMessageFromEntry\<close> of compaction.ts.\<close>

definition messageOfEntry :: "session_entry \<Rightarrow> agent_message option" where
  "messageOfEntry e =
     (case enBody e of
        MessageEntry m \<Rightarrow> Some m
      | CustomMessageEntry m \<Rightarrow> Some (CustomMessage m (enTime e))
      | BranchSummary b \<Rightarrow> Some (BranchSummaryMessage (bsSummary b) (bsFromId b) (enTime e))
      | _ \<Rightarrow> None)"

definition messagesOf :: "session_entry list \<Rightarrow> agent_message list" where
  "messagesOf entries = List.map_filter messageOfEntry entries"

text \<open>The entries with an index from \<open>a\<close> up to and without \<open>b\<close>.\<close>

definition entriesBetween :: "nat \<Rightarrow> nat \<Rightarrow> session_entry list \<Rightarrow> session_entry list" where
  "entriesBetween a b entries = drop a (take b entries)"

definition estimateEntriesTokens :: "(jstring list \<Rightarrow> nat) \<Rightarrow> session_entry list \<Rightarrow> nat \<Rightarrow> nat \<Rightarrow> nat" where
  "estimateEntriesTokens K entries a b = sum_list (map (estimateTokens K) (messagesOf (entriesBetween a b entries)))"

section \<open>Cut points\<close>

definition isCutPoint :: "session_entry \<Rightarrow> bool" where
  "isCutPoint e =
     (case enBody e of
        MessageEntry m \<Rightarrow>
          (case m of
             BashExecution _ _ \<Rightarrow> True
           | HookMessage _ _ \<Rightarrow> True
           | BranchSummaryMessage _ _ _ \<Rightarrow> True
           | CompactionSummaryMessage _ _ _ _ _ \<Rightarrow> True
           | UserMessage _ \<Rightarrow> True
           | AssistantMessage _ \<Rightarrow> True
           | _ \<Rightarrow> False)
      | BranchSummary _ \<Rightarrow> True
      | CustomMessageEntry _ \<Rightarrow> True
      | _ \<Rightarrow> False)"

definition findValidCutPoints :: "session_entry list \<Rightarrow> nat \<Rightarrow> nat \<Rightarrow> nat list" where
  "findValidCutPoints entries startIndex endIndex = filter (\<lambda>i. isCutPoint (entries ! i)) [startIndex..<endIndex]"

definition startsTurn :: "session_entry \<Rightarrow> bool" where
  "startsTurn e =
     (case enBody e of
        BranchSummary _ \<Rightarrow> True
      | CustomMessageEntry _ \<Rightarrow> True
      | MessageEntry (UserMessage _) \<Rightarrow> True
      | MessageEntry (BashExecution _ _) \<Rightarrow> True
      | _ \<Rightarrow> False)"

definition findTurnStartIndex :: "session_entry list \<Rightarrow> nat \<Rightarrow> nat \<Rightarrow> nat option" where
  "findTurnStartIndex entries entryIndex startIndex =
     find (\<lambda>i. startsTurn (entries ! i)) (rev [startIndex..<Suc entryIndex])"

record cut_point =
  ctFirstKept :: nat
  ctTurnStart :: "nat option"
  ctSplitTurn :: bool

text \<open>The walk back from the newest entry until the budget is spent; the indices come newest first.\<close>

fun budgetIndex :: "(jstring list \<Rightarrow> nat) \<Rightarrow> session_entry list \<Rightarrow> nat \<Rightarrow> nat \<Rightarrow> nat list \<Rightarrow> nat option" where
  "budgetIndex K entries keep acc [] = None"
| "budgetIndex K entries keep acc (i # is) =
     (case enBody (entries ! i) of
        MessageEntry m \<Rightarrow>
          if keep \<le> acc + estimateTokens K m then Some i else budgetIndex K entries keep (acc + estimateTokens K m) is
      | _ \<Rightarrow> budgetIndex K entries keep acc is)"

text \<open>The entries before the cut that are no messages are kept as well.\<close>

fun extendBack :: "session_entry list \<Rightarrow> nat \<Rightarrow> nat \<Rightarrow> nat" where
  "extendBack entries startIndex 0 = 0"
| "extendBack entries startIndex (Suc c) =
     (if startIndex < Suc c \<and> \<not> isCompaction (enBody (entries ! c)) \<and> \<not> isMessageBody (enBody (entries ! c))
      then extendBack entries startIndex c else Suc c)"

definition chooseCut :: "(jstring list \<Rightarrow> nat) \<Rightarrow> session_entry list \<Rightarrow> nat \<Rightarrow> nat \<Rightarrow> nat \<Rightarrow> nat list \<Rightarrow> nat" where
  "chooseCut K entries startIndex endIndex keep cutPoints =
     (case budgetIndex K entries keep 0 (rev [startIndex..<endIndex]) of
        None \<Rightarrow> hd cutPoints
      | Some i \<Rightarrow> (case find (\<lambda>c. i \<le> c) cutPoints of Some c \<Rightarrow> c | None \<Rightarrow> hd cutPoints))"

definition isUserEntry :: "session_entry \<Rightarrow> bool" where
  "isUserEntry e = (case enBody e of MessageEntry (UserMessage _) \<Rightarrow> True | _ \<Rightarrow> False)"

definition findCutPoint :: "(jstring list \<Rightarrow> nat) \<Rightarrow> session_entry list \<Rightarrow> nat \<Rightarrow> nat \<Rightarrow> nat \<Rightarrow> cut_point" where
  "findCutPoint K entries startIndex endIndex keep =
     (let cutPoints = findValidCutPoints entries startIndex endIndex in
      if cutPoints = [] then \<lparr>ctFirstKept = startIndex, ctTurnStart = None, ctSplitTurn = False\<rparr>
      else
        let cutIndex = extendBack entries startIndex (chooseCut K entries startIndex endIndex keep cutPoints);
            isUser = isUserEntry (entries ! cutIndex);
            turnStart = (if isUser then None else findTurnStartIndex entries cutIndex startIndex)
        in \<lparr>ctFirstKept = cutIndex, ctTurnStart = turnStart, ctSplitTurn = \<not> isUser \<and> turnStart \<noteq> None\<rparr>)"

section \<open>Files\<close>

record file_ops =
  foRead :: "jstring list"
  foWritten :: "jstring list"
  foEdited :: "jstring list"

definition createFileOps :: file_ops where
  "createFileOps = \<lparr>foRead = [], foWritten = [], foEdited = []\<rparr>"

fun fileOpOfBlock :: "content_block \<Rightarrow> file_ops \<Rightarrow> file_ops" where
  "fileOpOfBlock (CallBlock c) ops =
     (case objGet (tcArguments c) (js ''path'') of
        JStr path \<Rightarrow>
          if path = [] then ops
          else if tcName c = js ''read'' then ops\<lparr>foRead := setAdd path (foRead ops)\<rparr>
          else if tcName c = js ''write'' then ops\<lparr>foWritten := setAdd path (foWritten ops)\<rparr>
          else if tcName c = js ''edit'' then ops\<lparr>foEdited := setAdd path (foEdited ops)\<rparr>
          else ops
      | _ \<Rightarrow> ops)"
| "fileOpOfBlock _ ops = ops"

definition extractFileOpsFromMessage :: "agent_message \<Rightarrow> file_ops \<Rightarrow> file_ops" where
  "extractFileOpsFromMessage message ops =
     (case message of AssistantMessage m \<Rightarrow> fold fileOpOfBlock (amContent m) ops | _ \<Rightarrow> ops)"

definition computeFileLists :: "file_ops \<Rightarrow> jstring list \<times> jstring list" where
  "computeFileLists ops =
     (let modified = fold setAdd (foEdited ops @ foWritten ops) [] in
      (sort (filter (\<lambda>f. f \<notin> set modified) (foRead ops)), sort modified))"

text \<open>The strings of a member of the details; a value that is no array adds nothing.\<close>

definition detailStrings :: "js_val \<Rightarrow> jstring \<Rightarrow> jstring list" where
  "detailStrings details key =
     (case details of
        JObj d \<Rightarrow> (case objGet d key of JArr vs \<Rightarrow> concat (map (\<lambda>v. case v of JStr s \<Rightarrow> [s] | _ \<Rightarrow> []) vs) | _ \<Rightarrow> [])
      | _ \<Rightarrow> [])"

definition addDetailFiles :: "js_val \<Rightarrow> file_ops \<Rightarrow> file_ops" where
  "addDetailFiles details ops =
     ops\<lparr>foRead := fold setAdd (detailStrings details (js ''readFiles'')) (foRead ops),
         foEdited := fold setAdd (detailStrings details (js ''modifiedFiles'')) (foEdited ops)\<rparr>"

definition extractFileOperations :: "agent_message list \<Rightarrow> compaction_data option \<Rightarrow> file_ops" where
  "extractFileOperations messages previous =
     fold extractFileOpsFromMessage messages
       (case previous of
          Some c \<Rightarrow> if cpFromExtension c then createFileOps else addDetailFiles (cpDetails c) createFileOps
        | None \<Rightarrow> createFileOps)"

section \<open>Preparing a compaction\<close>

record compaction_preparation =
  kpFirstKeptEntryId :: jstring
  kpMessagesToSummarize :: "agent_message list"
  kpTurnPrefixMessages :: "agent_message list"
  kpRecentMessages :: "agent_message list"
  kpSplitTurn :: bool
  kpTokensBefore :: nat
  kpPreviousSummary :: "jstring option"
  kpPreviousPreserveData :: "js_obj option"
  kpFileOps :: file_ops

definition lastCompactionIndex :: "session_entry list \<Rightarrow> nat option" where
  "lastCompactionIndex entries = find (\<lambda>i. isCompaction (enBody (entries ! i))) (rev [0..<length entries])"

fun compactionOf :: "entry_body \<Rightarrow> compaction_data option" where
  "compactionOf (Compaction c) = Some c"
| "compactionOf _ = None"

text \<open>The budget for the kept messages, scaled down when the estimates are below what the provider counted.\<close>

definition scaledKeepTokens :: "nat \<Rightarrow> nat \<Rightarrow> nat \<Rightarrow> nat" where
  "scaledKeepTokens keep promptTokens estimatedTokens =
     (let ratio = (if 0 < estimatedTokens then numDiv (numNat promptTokens) (numNat estimatedTokens) else NumFin 0) in
      if isFiniteNumber ratio \<and> numLess (NumFin 1) ratio
      then (case numFloor (numDiv (numNat keep) ratio) of NumFin r \<Rightarrow> max 1 (nat \<lfloor>r\<rfloor>) | _ \<Rightarrow> keep)
      else keep)"

definition keepBudget :: "(jstring list \<Rightarrow> nat) \<Rightarrow> session_entry list \<Rightarrow> compaction_settings \<Rightarrow> nat \<Rightarrow> nat" where
  "keepBudget K path settings boundaryStart =
     (case getLastAssistantUsage path of
        None \<Rightarrow> ksKeepRecentTokens settings
      | Some u \<Rightarrow> scaledKeepTokens (ksKeepRecentTokens settings) (calculatePromptTokens u)
          (estimateEntriesTokens K path boundaryStart (length path)))"

text \<open>\<open>prepareCompaction\<close>: where the entries to compact start, and the preparation once the cut is chosen.\<close>

definition compactionStart :: "session_entry list \<Rightarrow> nat" where
  "compactionStart path = (case lastCompactionIndex path of None \<Rightarrow> 0 | Some i \<Rightarrow> i + 1)"

definition cutOf :: "(jstring list \<Rightarrow> nat) \<Rightarrow> session_entry list \<Rightarrow> compaction_settings \<Rightarrow> cut_point" where
  "cutOf K path settings =
     findCutPoint K path (compactionStart path) (length path) (keepBudget K path settings (compactionStart path))"

definition preparationAt ::
  "session_entry list \<Rightarrow> compaction_data option \<Rightarrow> nat \<Rightarrow> cut_point \<Rightarrow> compaction_preparation option" where
  "preparationAt path previous boundaryStart cutPoint =
     (let firstKept = ctFirstKept cutPoint in
      if length path \<le> firstKept \<or> enId (path ! firstKept) = [] then None
      else
        let historyEnd = (if ctSplitTurn cutPoint then the (ctTurnStart cutPoint) else firstKept);
            toSummarize = messagesOf (entriesBetween boundaryStart historyEnd path);
            turnPrefix = (if ctSplitTurn cutPoint then messagesOf (entriesBetween historyEnd firstKept path) else []);
            ops = extractFileOperations toSummarize previous
        in if toSummarize = [] \<and> turnPrefix = [] then None
           else Some
             \<lparr>kpFirstKeptEntryId = enId (path ! firstKept), kpMessagesToSummarize = toSummarize,
              kpTurnPrefixMessages = turnPrefix, kpRecentMessages = messagesOf (entriesBetween firstKept (length path) path),
              kpSplitTurn = ctSplitTurn cutPoint,
              kpTokensBefore = (case getLastAssistantUsage path of Some u \<Rightarrow> calculateContextTokens u | None \<Rightarrow> 0),
              kpPreviousSummary = map_option cpSummary previous,
              kpPreviousPreserveData = Option.bind previous cpPreserveData,
              kpFileOps = (if ctSplitTurn cutPoint then fold extractFileOpsFromMessage turnPrefix ops else ops)\<rparr>)"

definition prepareCompaction ::
  "(jstring list \<Rightarrow> nat) \<Rightarrow> session_entry list \<Rightarrow> compaction_settings \<Rightarrow> compaction_preparation option" where
  "prepareCompaction K path settings =
     (if path \<noteq> [] \<and> isCompaction (enBody (last path)) then None
      else
        let previous = Option.bind (lastCompactionIndex path) (\<lambda>i. compactionOf (enBody (path ! i)))
        in preparationAt path previous (compactionStart path) (cutOf K path settings))"

end
