(* ===== verification/Ses_Prune.thy ===== *)
theory Ses_Prune
  imports Ses_Compaction
begin

text \<open>
  packages/agent/src/compaction/pruning.ts and tool-protection.ts: old tool results give way to a notice. The code changes the
  messages in place; the model returns the entries after it. branch-summarization.ts: the entries that the summary of an
  abandoned branch covers and the messages that fit its budget.
\<close>

section \<open>Protected tools\<close>

datatype tool_matcher = ProtectName jstring | ProtectWhen "tool_result \<Rightarrow> tool_call option \<Rightarrow> bool"

definition collectToolCallsById :: "session_entry list \<Rightarrow> (jstring, tool_call) jsmap" where
  "collectToolCallsById entries =
     fold (\<lambda>e calls. case enBody e of
         MessageEntry (AssistantMessage m) \<Rightarrow>
           fold (\<lambda>b calls'. case b of CallBlock c \<Rightarrow> mapSet (tcId c) c calls' | _ \<Rightarrow> calls') (amContent m) calls
       | _ \<Rightarrow> calls) entries []"

definition getReadToolPath :: "tool_result \<Rightarrow> tool_call option \<Rightarrow> jstring option" where
  "getReadToolPath result call =
     (if tmToolName result \<noteq> js ''read'' then None
      else (case call of
          None \<Rightarrow> None
        | Some c \<Rightarrow>
            if tcName c \<noteq> js ''read'' then None
            else (case objGet (tcArguments c) (js ''path'') of JStr p \<Rightarrow> Some p | _ \<Rightarrow> None)))"

definition isSkillReadToolResult :: "tool_result \<Rightarrow> tool_call option \<Rightarrow> bool" where
  "isSkillReadToolResult result call =
     (case getReadToolPath result call of None \<Rightarrow> False | Some p \<Rightarrow> startsWith p (js ''skill://''))"

fun matcherApplies :: "tool_result \<Rightarrow> tool_call option \<Rightarrow> tool_matcher \<Rightarrow> bool" where
  "matcherApplies result call (ProtectName name) = (tmToolName result = name)"
| "matcherApplies result call (ProtectWhen p) = p result call"

definition isProtectedToolResult :: "tool_result \<Rightarrow> tool_call option \<Rightarrow> tool_matcher list \<Rightarrow> bool" where
  "isProtectedToolResult result call matchers = list_ex (matcherApplies result call) matchers"

section \<open>Pruning\<close>

record prune_config =
  pnProtectTokens :: nat
  pnMinimumSavings :: nat
  pnProtectedTools :: "tool_matcher list"

definition DEFAULT_PRUNE_CONFIG :: prune_config where
  "DEFAULT_PRUNE_CONFIG =
     \<lparr>pnProtectTokens = 40000, pnMinimumSavings = 20000,
      pnProtectedTools = [ProtectName (js ''skill''), ProtectWhen isSkillReadToolResult]\<rparr>"

record prune_result =
  pnCount :: nat
  pnSaved :: nat

definition createPrunedNotice :: "nat \<Rightarrow> jstring" where
  "createPrunedNotice tokens = js ''[Output truncated - '' @ natToString tokens @ js '' tokens]''"

definition getToolResultMessage :: "session_entry \<Rightarrow> tool_result option" where
  "getToolResultMessage e = (case enBody e of MessageEntry (ToolResult r) \<Rightarrow> Some r | _ \<Rightarrow> None)"

definition estimatePrunedSavings :: "nat \<Rightarrow> nat" where
  "estimatePrunedSavings tokens = tokens - (length (createPrunedNotice tokens) + 3) div 4"

text \<open>The walk from the newest entry, whose indices come first: the candidates with their tokens.\<close>

fun pruneCandidates ::
  "(jstring list \<Rightarrow> nat) \<Rightarrow> (jstring, tool_call) jsmap \<Rightarrow> prune_config \<Rightarrow> session_entry list \<Rightarrow> nat \<Rightarrow> nat list \<Rightarrow>
     (nat \<times> nat) list" where
  "pruneCandidates K calls config entries acc [] = []"
| "pruneCandidates K calls config entries acc (i # is) =
     (case getToolResultMessage (entries ! i) of
        None \<Rightarrow> pruneCandidates K calls config entries acc is
      | Some message \<Rightarrow>
          let tokens = estimateTokens K (ToolResult message);
              rest = pruneCandidates K calls config entries (acc + tokens) is
          in if tmPrunedAt message \<noteq> None then rest
             else if acc < pnProtectTokens config
                     \<or> isProtectedToolResult message (mapGet calls (tmCallId message)) (pnProtectedTools config)
             then rest
             else (i, tokens) # rest)"

definition pruneMessage :: "int \<Rightarrow> nat \<Rightarrow> session_entry \<Rightarrow> session_entry" where
  "pruneMessage now tokens e =
     (case enBody e of
        MessageEntry (ToolResult r) \<Rightarrow>
          e\<lparr>enBody := MessageEntry (ToolResult
            (r\<lparr>tmContent := [TextBlock (createPrunedNotice tokens) None], tmPrunedAt := Some now\<rparr>))\<rparr>
      | _ \<Rightarrow> e)"

definition pruneToolOutputs ::
  "(jstring list \<Rightarrow> nat) \<Rightarrow> int \<Rightarrow> prune_config \<Rightarrow> session_entry list \<Rightarrow> prune_result \<times> session_entry list" where
  "pruneToolOutputs K now config entries =
     (let candidates = pruneCandidates K (collectToolCallsById entries) config entries 0 (rev [0..<length entries]);
          saved = sum_list (map (\<lambda>(i, tokens). estimatePrunedSavings tokens) candidates)
      in if saved < pnMinimumSavings config \<or> candidates = [] then (\<lparr>pnCount = 0, pnSaved = 0\<rparr>, entries)
         else
           (\<lparr>pnCount = length candidates, pnSaved = saved\<rparr>,
            fold (\<lambda>(i, tokens) es. es[i := pruneMessage now tokens (es ! i)]) candidates entries))"

section \<open>Summaries of abandoned branches\<close>

record branch_collection =
  bcEntries :: "session_entry list"
  bcCommonAncestor :: "jstring option"

text \<open>From the old leaf up to the common ancestor, oldest first; the walk ends at an entry that is not there.\<close>

partial_function (option) collectUp ::
  "(jstring, session_entry) jsmap \<Rightarrow> jstring option \<Rightarrow> jstring option \<Rightarrow> session_entry list \<Rightarrow> session_entry list option" where
  "collectUp byId ancestor current entries =
     (if \<not> truthy current \<or> current = ancestor then Some entries
      else (case mapGet byId (the current) of
          None \<Rightarrow> Some entries
        | Some e \<Rightarrow> collectUp byId ancestor (enParent e) (e # entries)))"

declare collectUp.simps [code]

definition collectEntriesForBranchSummary ::
  "session_manager \<Rightarrow> jstring option \<Rightarrow> jstring \<Rightarrow> branch_collection option" where
  "collectEntriesForBranchSummary sm oldLeafId targetId =
     (if \<not> truthy oldLeafId then Some \<lparr>bcEntries = [], bcCommonAncestor = None\<rparr>
      else
        Option.bind (getBranch oldLeafId sm) (\<lambda>oldBranch.
        Option.bind (getBranch (Some targetId) sm) (\<lambda>targetPath.
          let oldPath = map enId oldBranch;
              ancestor = find (\<lambda>i. i \<in> set oldPath) (rev (map enId targetPath))
          in map_option (\<lambda>es. \<lparr>bcEntries = es, bcCommonAncestor = ancestor\<rparr>)
               (collectUp (smById sm) ancestor oldLeafId []))))"

text \<open>\<open>getMessageFromEntry\<close> of branch-summarization.ts: no tool results, but the summaries of compactions.\<close>

definition branchMessageOf :: "session_entry \<Rightarrow> agent_message option" where
  "branchMessageOf e =
     (case enBody e of
        MessageEntry (ToolResult r) \<Rightarrow> None
      | Compaction c \<Rightarrow>
          Some (CompactionSummaryMessage (cpSummary c) (cpShortSummary c) (cpTokensBefore c) None (enTime e))
      | _ \<Rightarrow> messageOfEntry e)"

record branch_preparation =
  bpMessages :: "agent_message list"
  bpFileOps :: file_ops
  bpTotalTokens :: nat

definition isSummaryEntry :: "session_entry \<Rightarrow> bool" where
  "isSummaryEntry e = (case enBody e of Compaction _ \<Rightarrow> True | BranchSummary _ \<Rightarrow> True | _ \<Rightarrow> False)"

text \<open>The second pass, over the entries from the newest.\<close>

fun fillBudget ::
  "(jstring list \<Rightarrow> nat) \<Rightarrow> int \<Rightarrow> session_entry list \<Rightarrow> branch_preparation \<Rightarrow> branch_preparation" where
  "fillBudget K budget [] p = p"
| "fillBudget K budget (e # es) p =
     (case branchMessageOf e of
        None \<Rightarrow> fillBudget K budget es p
      | Some message \<Rightarrow>
          let p1 = p\<lparr>bpFileOps := extractFileOpsFromMessage message (bpFileOps p)\<rparr>;
              tokens = estimateTokens K message;
              taken = p1\<lparr>bpMessages := message # bpMessages p1, bpTotalTokens := bpTotalTokens p1 + tokens\<rparr>
          in if 0 < budget \<and> budget < int (bpTotalTokens p1 + tokens)
             then (if isSummaryEntry e
                      \<and> numLess (numNat (bpTotalTokens p1)) (numMul (NumFin (of_int budget)) (decimalNumber False (js ''0'') (js ''9'')))
                   then taken else p1)
             else fillBudget K budget es taken)"

definition prepareBranchEntries :: "(jstring list \<Rightarrow> nat) \<Rightarrow> session_entry list \<Rightarrow> int \<Rightarrow> branch_preparation" where
  "prepareBranchEntries K entries budget =
     fillBudget K budget (rev entries)
       \<lparr>bpMessages = [],
        bpFileOps = fold (\<lambda>e ops. case enBody e of
            BranchSummary b \<Rightarrow> if bsFromExtension b then ops else addDetailFiles (bsDetails b) ops
          | _ \<Rightarrow> ops) entries createFileOps,
        bpTotalTokens = 0\<rparr>"

end
