(* ===== verification/Ses_Context_Facts.thy ===== *)
theory Ses_Context_Facts
  imports Ses_Branch_Facts Ses_Compaction
begin

text \<open>
  What an agent resumes with: no tool call without its result, nothing visible lost; and what a compaction does to it: the
  messages it drops are those it summarises, and no tool result is kept without its call.
\<close>

section \<open>Dangling calls\<close>

fun isAssistant :: "agent_message \<Rightarrow> bool" where
  "isAssistant (AssistantMessage m) = True"
| "isAssistant _ = False"

text \<open>The visible texts of a turn: what it says and what it thinks.\<close>

fun blockTexts :: "content_block \<Rightarrow> jstring list" where
  "blockTexts (TextBlock t s) = [t]"
| "blockTexts (ThinkingBlock t s) = [t]"
| "blockTexts _ = []"

fun turnTexts :: "agent_message \<Rightarrow> jstring list" where
  "turnTexts (AssistantMessage m) = concat (map blockTexts (amContent m))"
| "turnTexts _ = []"

lemma normalized_texts: "concat (map blockTexts (normalizedContent paired blocks)) = concat (map blockTexts blocks)"
proof (induction blocks)
  case (Cons b bs)
  then show ?case by (cases b) (auto simp: normalizedContent_def)
qed (simp add: normalizedContent_def)

lemma unsigned_call: "unsigned b = CallBlock c \<longleftrightarrow> b = CallBlock c"
  by (cases b) auto

lemma normalizedContent_calls: "CallBlock c \<in> set (normalizedContent paired blocks) \<Longrightarrow> tcId c \<in> set paired"
  by (auto simp: normalizedContent_def unsigned_call eq_commute [of "CallBlock c"])

lemma normalizeTurn_texts: "concat (map turnTexts (normalizeTurn paired m)) = turnTexts m"
proof (cases m)
  case (AssistantMessage a)
  have "normalizedContent paired (amContent a) = [] \<Longrightarrow> concat (map blockTexts (amContent a)) = []"
    using normalized_texts [of paired "amContent a"] by simp
  then show ?thesis using AssistantMessage normalized_texts [of paired "amContent a"] by (simp add: normalizeTurn_def Let_def)
qed (simp_all add: normalizeTurn_def)

lemma normalizeTurn_other: "filter (\<lambda>m. \<not> isAssistant m) (normalizeTurn paired m) = filter (\<lambda>m. \<not> isAssistant m) [m]"
  by (cases m) (auto simp: normalizeTurn_def Let_def)

lemma normalizeTurn_results: "ToolResult r \<in> set (normalizeTurn paired m) \<longleftrightarrow> m = ToolResult r"
  by (cases m) (auto simp: normalizeTurn_def Let_def)

lemma normalizeTurn_calls:
  "AssistantMessage m' \<in> set (normalizeTurn paired m) \<Longrightarrow> CallBlock c \<in> set (amContent m') \<Longrightarrow> tcId c \<in> set paired"
proof (cases m)
  case (AssistantMessage a)
  assume m': "AssistantMessage m' \<in> set (normalizeTurn paired m)" "CallBlock c \<in> set (amContent m')"
  show ?thesis
  proof (cases "list_ex (isDangling paired) (amContent a)")
    case True
    then have "amContent m' = normalizedContent paired (amContent a)"
      using m'(1) AssistantMessage by (auto simp: normalizeTurn_def Let_def split: if_splits)
    then show ?thesis using m'(2) normalizedContent_calls by metis
  next
    case False
    then have "m' = a" using m'(1) AssistantMessage by (auto simp: normalizeTurn_def)
    then show ?thesis using False m'(2) by (force simp: list_ex_iff)
  qed
qed (auto simp: normalizeTurn_def)

lemma set_pairedIds: "i \<in> set (pairedIds messages) \<longleftrightarrow> (\<exists>r. ToolResult r \<in> set messages \<and> tmCallId r = i)"
  by (induction messages) (auto simp: pairedIds_def split: agent_message.splits)

lemma stripDangling_texts: "concat (map turnTexts (stripDangling messages)) = concat (map turnTexts messages)"
proof -
  have "concat (map turnTexts (concat (map (normalizeTurn paired) ms))) = concat (map turnTexts ms)" for paired ms
    by (induction ms) (simp_all add: normalizeTurn_texts)
  then show ?thesis by (simp add: stripDangling_def)
qed

lemma stripDangling_other:
  "filter (\<lambda>m. \<not> isAssistant m) (stripDangling messages) = filter (\<lambda>m. \<not> isAssistant m) messages"
proof -
  have "filter (\<lambda>m. \<not> isAssistant m) (concat (map (normalizeTurn paired) ms)) = filter (\<lambda>m. \<not> isAssistant m) ms" for paired ms
    by (induction ms) (simp_all add: normalizeTurn_other)
  then show ?thesis by (simp add: stripDangling_def)
qed

lemma stripDangling_results: "ToolResult r \<in> set (stripDangling messages) \<longleftrightarrow> ToolResult r \<in> set messages"
  by (auto simp: stripDangling_def normalizeTurn_results)

text \<open>C25 The context that a session resumes with has a result for every tool call in it. The messages of other roles are
  those of the path as they were, and every text and thought of an assistant turn is still there.\<close>

theorem context_has_no_dangling_calls:
  assumes "leaf \<noteq> LeafNull" and "findLeaf entries leaf byId = Some e" and "walkToRoot byId (Some e) [] = Some path"
  shows "\<exists>ctx. buildSessionContext entries leaf (Some byId) = Some ctx
    \<and> (\<forall>m c. AssistantMessage m \<in> set (sxMessages ctx) \<and> CallBlock c \<in> set (amContent m) \<longrightarrow>
         (\<exists>r. ToolResult r \<in> set (sxMessages ctx) \<and> tmCallId r = tcId c))
    \<and> (let raw = contextMessages path (csCompaction (fold settingsStep path initialSettings)) in
         filter (\<lambda>m. \<not> isAssistant m) (sxMessages ctx) = filter (\<lambda>m. \<not> isAssistant m) raw
         \<and> concat (map turnTexts (sxMessages ctx)) = concat (map turnTexts raw))"
proof -
  let ?raw = "contextMessages path (csCompaction (fold settingsStep path initialSettings))"
  have ms: "sxMessages (pathContext path) = stripDangling ?raw" by (simp add: pathContext_def Let_def contextOf_def)
  have "\<exists>r. ToolResult r \<in> set (sxMessages (pathContext path)) \<and> tmCallId r = tcId c"
    if m: "AssistantMessage m \<in> set (sxMessages (pathContext path))" "CallBlock c \<in> set (amContent m)" for m c
  proof -
    obtain x where "AssistantMessage m \<in> set (normalizeTurn (pairedIds ?raw) x)" using m(1) unfolding ms stripDangling_def by auto
    then have "tcId c \<in> set (pairedIds ?raw)" using m(2) by (rule normalizeTurn_calls)
    then show ?thesis unfolding ms stripDangling_results set_pairedIds .
  qed
  moreover have "buildSessionContext entries leaf (Some byId) = Some (pathContext path)"
    using assms by (simp add: buildSessionContext_def)
  ultimately show ?thesis
    using stripDangling_other [of ?raw] stripDangling_texts [of ?raw]
    unfolding Let_def ms [symmetric] by blast
qed

text \<open>An abandoned tool call: the entry is the leaf and its result is not on the path.\<close>

definition abandonedCall :: session_entry where
  "abandonedCall = \<lparr>enId = js ''x'', enParent = None, enTime = 0, enBody = MessageEntry (AssistantMessage
     \<lparr>amContent = [TextBlock (js ''look'') None, CallBlock \<lparr>tcId = js ''t1'', tcName = js ''read'', tcArguments = []\<rparr>],
      amProvider = js ''p'', amModel = js ''m'', amUsage = \<lparr>usInput = 0, usOutput = 0, usCacheRead = 0, usCacheWrite = 0,
      usTotalTokens = 0, usPremiumRequests = None, usCost = NumFin 0\<rparr>, amStopReason = StopToolUse,
      amErrorMessage = None\<rparr>)\<rparr>"

lemma context_has_no_dangling_calls_witness:
  "\<exists>ctx. buildSessionContext [abandonedCall] LeafUnset (Some [(js ''x'', abandonedCall)]) = Some ctx
     \<and> concat (map turnTexts (sxMessages ctx)) = [js ''look'']"
proof -
  have "findLeaf [abandonedCall] LeafUnset [(js ''x'', abandonedCall)] = Some abandonedCall" by (simp add: findLeaf_def)
  moreover have "walkToRoot [(js ''x'', abandonedCall)] (Some abandonedCall) [] = Some [abandonedCall]"
    by (simp add: walkToRoot_Some parentOf_def abandonedCall_def)
  moreover have "concat (map turnTexts (contextMessages [abandonedCall]
      (csCompaction (fold settingsStep [abandonedCall] initialSettings)))) = [js ''look'']" by code_simp
  ultimately show ?thesis
    using context_has_no_dangling_calls [of LeafUnset "[abandonedCall]" "[(js ''x'', abandonedCall)]" abandonedCall "[abandonedCall]"]
    unfolding Let_def by fastforce
qed

end
