(* ===== verification/Ses_Compaction_Facts.thy ===== *)
theory Ses_Compaction_Facts
  imports Ses_Context_Facts
begin

text \<open>
  Compaction: the messages since the last compaction are those summarised followed by those kept, the context afterwards is the
  summary and the kept messages, and no tool result is kept without its call; but tool results that outweigh the budget
  at the end of a path keep it from being compacted at all.
\<close>

section \<open>Cut points\<close>

lemma extendBack_bounds: "startIndex \<le> c \<Longrightarrow> startIndex \<le> extendBack es startIndex c \<and> extendBack es startIndex c \<le> c"
  by (induction es startIndex c rule: extendBack.induct) auto

lemma extendBack_skips:
  "extendBack es startIndex c \<le> k \<Longrightarrow> k < c \<Longrightarrow> \<not> isMessageBody (enBody (es ! k)) \<and> \<not> isCompaction (enBody (es ! k))"
proof (induction es startIndex c rule: extendBack.induct)
  case (2 es startIndex c)
  then show ?case by (cases "k = c") (auto split: if_splits)
qed simp

lemma find_Some_set: "find P xs = Some x \<Longrightarrow> x \<in> set xs \<and> P x"
  by (induction xs) (auto split: if_splits)

lemma chooseCut_set: "cutPoints \<noteq> [] \<Longrightarrow> chooseCut K es a b keep cutPoints \<in> set cutPoints"
  by (auto simp: chooseCut_def dest: find_Some_set split: option.splits)

lemma set_findValidCutPoints: "i \<in> set (findValidCutPoints es a b) \<longleftrightarrow> a \<le> i \<and> i < b \<and> isCutPoint (es ! i)"
  by (auto simp: findValidCutPoints_def)

text \<open>The cut is in the range, and between it and the valid cut point it was extended from there are no messages.\<close>

lemma findCutPoint_kept:
  assumes "a \<le> b" and "ctFirstKept (findCutPoint K es a b keep) = kept"
  shows "a \<le> kept" and "kept \<le> b"
    and "findValidCutPoints es a b \<noteq> [] \<Longrightarrow>
      \<exists>c. kept \<le> c \<and> c < b \<and> a \<le> c \<and> isCutPoint (es ! c) \<and> (\<forall>k. kept \<le> k \<and> k < c \<longrightarrow> \<not> isMessageBody (enBody (es ! k)))"
proof -
  let ?points = "findValidCutPoints es a b"
  let ?c = "chooseCut K es a b keep ?points"
  have kept: "kept = (if ?points = [] then a else extendBack es a ?c)"
    using assms(2) by (auto simp: findCutPoint_def Let_def)
  have c: "a \<le> ?c" "?c < b" "isCutPoint (es ! ?c)" if "?points \<noteq> []"
    using chooseCut_set [OF that] set_findValidCutPoints by blast+
  show "a \<le> kept" "kept \<le> b"
    using kept c extendBack_bounds [of a ?c es] assms(1) by (cases "?points = []"; simp)+
  show "\<exists>c. kept \<le> c \<and> c < b \<and> a \<le> c \<and> isCutPoint (es ! c)
      \<and> (\<forall>k. kept \<le> k \<and> k < c \<longrightarrow> \<not> isMessageBody (enBody (es ! k)))" if "?points \<noteq> []"
    using kept c [OF that] extendBack_bounds [of a ?c es] extendBack_skips [of es a ?c] that by (intro exI [of _ ?c]) auto
qed

lemma findCutPoint_turn:
  assumes "ctSplitTurn (findCutPoint K es a b keep)"
  obtains t where "ctTurnStart (findCutPoint K es a b keep) = Some t" and "a \<le> t" and "t \<le> ctFirstKept (findCutPoint K es a b keep)"
proof -
  obtain t where t: "ctTurnStart (findCutPoint K es a b keep) = Some t"
    using assms by (auto simp: findCutPoint_def Let_def split: if_splits)
  then have "t \<in> set (rev [a..<Suc (ctFirstKept (findCutPoint K es a b keep))])"
    by (auto simp: findCutPoint_def Let_def findTurnStartIndex_def split: if_splits dest!: find_Some_set simp del: upt_Suc set_rev)
  then show ?thesis using t that by (simp del: upt_Suc)
qed

section \<open>Ranges of entries\<close>

lemma messagesOf_append [simp]: "messagesOf (es @ fs) = messagesOf es @ messagesOf fs"
  by (simp add: messagesOf_def map_filter_def)

lemma entriesBetween_join: "a \<le> b \<Longrightarrow> b \<le> c \<Longrightarrow> entriesBetween a b es @ entriesBetween b c es = entriesBetween a c es"
proof -
  assume ab: "a \<le> b" "b \<le> c"
  have "take c es = take b es @ drop b (take c es)" using ab append_take_drop_id [of b "take c es"] by (simp add: min_def)
  then have "entriesBetween a c es = drop a (take b es) @ drop (a - length (take b es)) (drop b (take c es))"
    unfolding entriesBetween_def by (metis drop_append)
  also have "drop (a - length (take b es)) (drop b (take c es)) = entriesBetween b c es"
    using ab by (cases "b \<le> length es") (simp_all add: entriesBetween_def min_def)
  finally show ?thesis by (simp add: entriesBetween_def)
qed

lemma entriesBetween_full [simp]: "entriesBetween a (length es) es = drop a es"
  by (simp add: entriesBetween_def)

section \<open>What a compaction keeps\<close>

lemma compactionStart_le: "compactionStart path \<le> length path"
  by (auto simp: compactionStart_def lastCompactionIndex_def split: option.splits dest!: find_Some_set)

lemma if_None_Some: "(if c then None else y) = Some x \<longleftrightarrow> \<not> c \<and> y = Some x"
  by simp

lemma preparationAt_Some:
  assumes "preparationAt path previous start cp = Some prep"
  defines "first \<equiv> ctFirstKept cp" and "middle \<equiv> if ctSplitTurn cp then the (ctTurnStart cp) else ctFirstKept cp"
  shows "first < length path" and "kpFirstKeptEntryId prep = enId (path ! first)"
    and "kpRecentMessages prep = messagesOf (drop first path)"
    and "kpMessagesToSummarize prep = messagesOf (entriesBetween start middle path)"
    and "kpTurnPrefixMessages prep = (if ctSplitTurn cp then messagesOf (entriesBetween middle first path) else [])"
    and "kpMessagesToSummarize prep @ kpTurnPrefixMessages prep \<noteq> []"
  using assms(1) unfolding preparationAt_def Let_def if_None_Some option.inject entriesBetween_full
  by (auto simp: first_def middle_def)

lemma prepareCompaction_Some:
  assumes "prepareCompaction K path settings = Some prep"
  defines "first \<equiv> ctFirstKept (cutOf K path settings)"
  shows "compactionStart path \<le> first" and "first < length path" and "kpFirstKeptEntryId prep = enId (path ! first)"
    and "kpRecentMessages prep = messagesOf (drop first path)"
    and "kpMessagesToSummarize prep @ kpTurnPrefixMessages prep = messagesOf (entriesBetween (compactionStart path) first path)"
    and "kpMessagesToSummarize prep @ kpTurnPrefixMessages prep \<noteq> []"
proof -
  let ?cp = "cutOf K path settings"
  obtain previous where "preparationAt path previous (compactionStart path) ?cp = Some prep"
    using assms(1) unfolding prepareCompaction_def Let_def if_None_Some by blast
  note p = preparationAt_Some [OF this, folded first_def]
  show start: "compactionStart path \<le> first"
    using findCutPoint_kept(1) [OF compactionStart_le refl] unfolding first_def cutOf_def .
  show "first < length path" "kpFirstKeptEntryId prep = enId (path ! first)" "kpRecentMessages prep = messagesOf (drop first path)"
    "kpMessagesToSummarize prep @ kpTurnPrefixMessages prep \<noteq> []" by (fact p)+
  show "kpMessagesToSummarize prep @ kpTurnPrefixMessages prep = messagesOf (entriesBetween (compactionStart path) first path)"
  proof (cases "ctSplitTurn ?cp")
    case True
    then obtain t where t: "ctTurnStart ?cp = Some t" "compactionStart path \<le> t" "t \<le> first"
      unfolding first_def cutOf_def by (rule findCutPoint_turn)
    have "kpMessagesToSummarize prep @ kpTurnPrefixMessages prep
        = messagesOf (entriesBetween (compactionStart path) t path @ entriesBetween t first path)"
      using p(4,5) True t(1) by simp
    then show ?thesis by (simp only: entriesBetween_join [OF t(2,3)])
  qed (use p(4,5) in simp)
qed

lemma dropWhile_id:
  assumes "distinct (map enId path)" and "k < length path"
  shows "dropWhile (\<lambda>e. enId e \<noteq> enId (path ! k)) path = drop k path"
  using assms
proof (induction path arbitrary: k)
  case (Cons e path)
  show ?case
  proof (cases k)
    case (Suc n)
    then have "enId e \<noteq> enId (path ! n)" using Cons.prems by auto
    then show ?thesis using Cons.IH [of n] Cons.prems Suc by simp
  qed simp
qed simp

lemma getBranch_subseq:
  assumes "managerOk sm" and "getBranch None sm = Some path"
  shows "subseq path (getEntries sm)"
proof (cases "smLeaf sm")
  case None
  then show ?thesis using assms(2) by (simp add: getBranch_leaf)
next
  case (Some i)
  then obtain e where e: "e \<in> set (getEntries sm)" "enId e = i" using id_entry [OF assms(1)] by blast
  then show ?thesis using branch_exists [OF assms(1) e(1)] assms(2) Some by (metis getBranch_leaf option.inject option.simps(5))
qed

text \<open>A compaction at the end of a path is the one that the context starts from.\<close>

lemma pathContext_compaction:
  assumes "enBody e = Compaction c" and "enId e \<notin> set (map enId path)"
  shows "sxMessages (pathContext (path @ [e])) = stripDangling (summaryMessage e c
    # (if remotePayload c = None then concat (map entryMessages (dropWhile (\<lambda>k. enId k \<noteq> cpFirstKept c) path)) else []))"
proof -
  have compaction: "csCompaction (fold settingsStep (path @ [e]) initialSettings) = Some (e, c)"
    using assms(1) by (simp add: settingsStep_def)
  have other: "\<And>x. x \<in> set path \<Longrightarrow> enId x \<noteq> enId e" using assms(2) by (metis image_eqI image_set)
  have "beforeCompaction (enId e) (path @ [e]) = path" "afterCompaction (enId e) (path @ [e]) = []"
    using other assms(1) by (simp_all add: beforeCompaction_def afterCompaction_def takeWhile_append dropWhile_append)
  then show ?thesis
    unfolding pathContext_def Let_def compaction contextOf_def by (simp add: contextMessages_def)
qed

text \<open>The context of a session is that of the branch of its leaf.\<close>

lemma managerContext_branch:
  assumes "managerOk sm" and "getBranch None sm = Some path"
  shows "managerContext sm = Some (pathContext path) \<or> (path = [] \<and> managerContext sm = Some emptyContext)"
proof (cases "smLeaf sm")
  case None
  then show ?thesis using assms(2) by (simp add: getBranch_leaf managerContext_def buildSessionContext_def)
next
  case (Some i)
  then obtain e where e: "e \<in> set (getEntries sm)" "enId e = i" using id_entry [OF assms(1)] by blast
  then show ?thesis using mapGet_byId [OF assms(1) e(1)] assms(2) Some
    by (simp add: managerContext_def buildSessionContext_def findLeaf_def getBranch_def)
qed

lemma messagesOf_entryMessages:
  "\<forall>e \<in> set es. \<forall>b. enBody e = BranchSummary b \<longrightarrow> bsSummary b \<noteq> [] \<Longrightarrow> concat (map entryMessages es) = messagesOf es"
proof (induction es)
  case (Cons e es)
  then have "entryMessages e = (case messageOfEntry e of None \<Rightarrow> [] | Some m \<Rightarrow> [m])"
    by (cases "enBody e") (auto simp: entryMessages_def messageOfEntry_def)
  then show ?case using Cons by (cases "messageOfEntry e") (auto simp: messagesOf_def map_filter_simps)
qed (simp add: messagesOf_def map_filter_simps)


section \<open>Calls and their results\<close>

definition callIds :: "content_block list \<Rightarrow> jstring list" where
  "callIds blocks = concat (map (\<lambda>b. case b of CallBlock c \<Rightarrow> [tcId c] | _ \<Rightarrow> []) blocks)"

definition messageCalls :: "agent_message \<Rightarrow> jstring list" where
  "messageCalls m = (case m of AssistantMessage a \<Rightarrow> callIds (amContent a) | _ \<Rightarrow> [])"

text \<open>Every tool result follows the turn with its call, with no other turn between: the path that an agent writes.\<close>

fun turnsOk :: "jstring list \<Rightarrow> session_entry list \<Rightarrow> bool" where
  "turnsOk calls [] \<longleftrightarrow> True"
| "turnsOk calls (e # es) \<longleftrightarrow>
     (case enBody e of
        MessageEntry (ToolResult r) \<Rightarrow> tmCallId r \<in> set calls \<and> turnsOk calls es
      | MessageEntry (AssistantMessage m) \<Rightarrow> turnsOk (callIds (amContent m)) es
      | _ \<Rightarrow> turnsOk (if isCutPoint e then [] else calls) es)"

text \<open>Every result in the list has its call earlier in it.\<close>

fun resultsAnswered :: "jstring list \<Rightarrow> agent_message list \<Rightarrow> bool" where
  "resultsAnswered before [] \<longleftrightarrow> True"
| "resultsAnswered before (m # ms) \<longleftrightarrow>
     (case m of ToolResult r \<Rightarrow> tmCallId r \<in> set before | _ \<Rightarrow> True) \<and> resultsAnswered (before @ messageCalls m) ms"

lemma turnsOk_Cons:
  assumes "turnsOk calls (e # es)"
  shows "\<exists>calls'. turnsOk calls' es \<and> (isCutPoint e \<longrightarrow> turnsOk calls'' (e # es))"
  using assms by (cases "enBody e") (auto simp: isCutPoint_def split: agent_message.splits)

lemma turnsOk_drop: "turnsOk calls es \<Longrightarrow> \<exists>calls'. turnsOk calls' (drop n es)"
proof (induction n arbitrary: calls es)
  case (Suc n)
  then show ?case using turnsOk_Cons by (cases es) (auto, blast)
qed auto

text \<open>Before a cut point and without messages the open calls do not matter.\<close>

lemma turnsOk_reset:
  assumes "turnsOk calls (zs @ e # es)" and "isCutPoint e" and "\<forall>z \<in> set zs. \<not> isMessageBody (enBody z)"
  shows "turnsOk calls' (zs @ e # es)"
  using assms
proof (induction zs arbitrary: calls calls')
  case Nil
  then show ?case using turnsOk_Cons by fastforce
next
  case (Cons z zs)
  have "turnsOk c ((z # zs) @ e # es) = turnsOk (if isCutPoint z then [] else c) (zs @ e # es)" for c
    using Cons.prems(3) by (cases "enBody z") auto
  then show ?case using Cons by (metis list.set_intros(2))
qed

lemma turnsOk_answered: "turnsOk calls es \<Longrightarrow> set calls \<subseteq> set before \<Longrightarrow> resultsAnswered before (messagesOf es)"
proof (induction es arbitrary: calls before)
  case (Cons e es)
  then show ?case
    by (cases "messageOfEntry e")
      (auto simp: messagesOf_def map_filter_simps messageOfEntry_def messageCalls_def
        split: entry_body.splits agent_message.splits if_splits)
qed (simp add: messagesOf_def map_filter_simps)

text \<open>C28 No tool result is kept without its call. On a path that the agent wrote, where a result comes after the turn that
  called it, every tool result that a compaction keeps has its call, earlier, among the kept messages.\<close>

theorem compaction_keeps_calls:
  assumes "prepareCompaction K path settings = Some prep" and "turnsOk [] path"
  shows "resultsAnswered [] (kpRecentMessages prep)"
proof -
  let ?start = "compactionStart path" and ?first = "ctFirstKept (cutOf K path settings)"
  note prep = prepareCompaction_Some [OF assms(1)]
  have "?first \<noteq> ?start" using prep(5,6) by (auto simp: entriesBetween_def messagesOf_def map_filter_simps)
  then have points: "findValidCutPoints path ?start (length path) \<noteq> []" by (auto simp: cutOf_def findCutPoint_def Let_def)
  obtain c where c: "?first \<le> c" "c < length path" "isCutPoint (path ! c)" "\<forall>k. ?first \<le> k \<and> k < c \<longrightarrow> \<not> isMessageBody (enBody (path ! k))"
    using findCutPoint_kept(3) [OF compactionStart_le refl points] unfolding cutOf_def by blast
  have split: "drop ?first path = take (c - ?first) (drop ?first path) @ path ! c # drop (Suc c) path"
    using c(1,2) by (metis append_take_drop_id Cons_nth_drop_Suc drop_drop le_add_diff_inverse2)
  have quiet: "\<forall>z \<in> set (take (c - ?first) (drop ?first path)). \<not> isMessageBody (enBody z)"
    using c(2,4) by (auto simp: in_set_conv_nth)
  obtain calls where "turnsOk calls (drop ?first path)" using turnsOk_drop [OF assms(2)] by blast
  then have "turnsOk [] (drop ?first path)" using turnsOk_reset [OF _ c(3) quiet] split by metis
  then show ?thesis unfolding prep(4) by (rule turnsOk_answered) simp
qed

text \<open>A large result at the end keeps a session from being compacted. When the entries since the last compaction start
  with a user message and the last entry is a tool result that takes the whole budget by itself, nothing is ever summarised.\<close>

theorem large_result_blocks_compaction:
  assumes "path \<noteq> []" and "enBody (last path) = MessageEntry (ToolResult r)"
    and "keepBudget K path settings (compactionStart path) \<le> estimateTokens K (ToolResult r)"
    and "isUserEntry (path ! compactionStart path)"
  shows "prepareCompaction K path settings = None"
proof -
  let ?start = "compactionStart path" and ?n = "length path"
  let ?points = "findValidCutPoints path ?start ?n"
  have start: "?start < ?n"
  proof (rule ccontr)
    assume "\<not> ?start < ?n"
    then have "?start = ?n" using compactionStart_le by (metis le_neq_implies_less)
    then obtain i where i: "lastCompactionIndex path = Some i" "i = ?n - 1"
      using assms(1) by (auto simp: compactionStart_def split: option.splits)
    then have "isCompaction (enBody (path ! (?n - 1)))" by (auto simp: lastCompactionIndex_def dest!: find_Some_set)
    then show False using assms(1,2) by (simp add: last_conv_nth)
  qed
  have last: "\<not> isCutPoint (path ! (?n - 1))" using assms(1,2) by (simp add: isCutPoint_def last_conv_nth)
  have range: "[?start..<?n] = [?start..<?n - 1] @ [?n - 1]"
    using start upt_Suc_append [of ?start "?n - 1"] by (cases ?n) auto
  have "isCutPoint (path ! ?start)" using assms(4) by (auto simp: isUserEntry_def isCutPoint_def split: entry_body.splits agent_message.splits)
  then have hd: "?points \<noteq> []" "hd ?points = ?start" using start upt_conv_Cons [OF start] by (simp_all add: findValidCutPoints_def)
  have "budgetIndex K path (keepBudget K path settings ?start) 0 (rev [?start..<?n]) = Some (?n - 1)"
    unfolding range using assms(1,2,3) by (simp add: last_conv_nth)
  moreover have "\<not> ?n - 1 \<le> c" if "c \<in> set ?points" for c
  proof
    assume "?n - 1 \<le> c"
    moreover have "c < ?n" "isCutPoint (path ! c)" using that unfolding set_findValidCutPoints by simp_all
    ultimately have "c = ?n - 1" by simp
    then show False using last \<open>isCutPoint (path ! c)\<close> by simp
  qed
  then have "find (\<lambda>c. ?n - 1 \<le> c) ?points = None" unfolding find_None_iff by blast
  ultimately have chosen: "chooseCut K path ?start ?n (keepBudget K path settings ?start) ?points = ?start"
    using hd by (simp add: chooseCut_def)
  have "extendBack path ?start ?start = ?start" using extendBack_bounds [of ?start ?start path] by simp
  then have cp: "ctFirstKept (cutOf K path settings) = ?start" "\<not> ctSplitTurn (cutOf K path settings)"
    unfolding cutOf_def findCutPoint_def Let_def chosen using hd(1) assms(4) by simp_all
  have "preparationAt path previous ?start (cutOf K path settings) = None" for previous
    using cp by (simp add: preparationAt_def Let_def entriesBetween_def messagesOf_def map_filter_simps)
  then show ?thesis by (simp add: prepareCompaction_def Let_def)
qed

section \<open>A small path\<close>

text \<open>Two questions, a call with its result and a third message. With the budget of 24 the call and what follows are kept.\<close>

definition countLengths :: "jstring list \<Rightarrow> nat" where
  "countLengths fragments = sum_list (map length fragments)"

definition smallSettings :: "nat \<Rightarrow> compaction_settings" where
  "smallSettings keep = DEFAULT_COMPACTION_SETTINGS\<lparr>ksKeepRecentTokens := keep\<rparr>"

definition readResult :: tool_result where
  "readResult = \<lparr>tmCallId = js ''t1'', tmToolName = js ''read'', tmContent = [TextBlock (js ''a long result'') None], tmUsage = None,
     tmIsError = False, tmPrunedAt = None\<rparr>"

definition callTurn :: agent_message where
  "callTurn = AssistantMessage
     \<lparr>amContent = [CallBlock \<lparr>tcId = js ''t1'', tcName = js ''read'', tcArguments = []\<rparr>], amProvider = js ''p'', amModel = js ''m'',
      amUsage = \<lparr>usInput = 0, usOutput = 0, usCacheRead = 0, usCacheWrite = 0, usTotalTokens = 0, usPremiumRequests = None,
      usCost = NumFin 0\<rparr>, amStopReason = StopToolUse, amErrorMessage = None\<rparr>"

definition talkOps :: "(string \<times> session_op) list" where
  "talkOps = [(''a'', OpMessage (userSays ''hi'')), (''b'', OpMessage (userSays ''read it'')), (''c'', OpMessage callTurn),
     (''d'', OpMessage (ToolResult readResult))]"

definition thanksOps :: "(string \<times> session_op) list" where
  "thanksOps = talkOps @ [(''e'', OpMessage (userSays ''thanks''))]"

definition sessionOf :: "(string \<times> session_op) list \<Rightarrow> session_manager" where
  "sessionOf ops = (case runAll ops demoStart of Inr sm \<Rightarrow> sm | Inl e \<Rightarrow> demoStart)"

definition pathIn :: "session_manager \<Rightarrow> session_entry list" where
  "pathIn sm = (case getBranch None sm of Some p \<Rightarrow> p | None \<Rightarrow> [])"

lemma sessionOf_reachable: "allFresh ops demoStart \<Longrightarrow> reachable (sessionOf ops)"
  using runAll_reachable [of demoStart ops] reachable.start unfolding sessionOf_def demoStart_def by (auto split: sum.splits)

definition shortCompaction :: compaction_data where
  "shortCompaction = \<lparr>cpSummary = js ''sum'', cpShortSummary = None, cpFirstKept = js ''c'', cpTokensBefore = 0, cpDetails = JNull,
     cpPreserveData = None, cpFromExtension = False\<rparr>"

abbreviation thanksSession :: session_manager where "thanksSession \<equiv> sessionOf thanksOps"

lemma thanks_preparation:
  obtains prep where "prepareCompaction countLengths (pathIn thanksSession) (smallSettings 24) = Some prep"
    and "kpFirstKeptEntryId prep = js ''c''" and "kpRecentMessages prep = [callTurn, ToolResult readResult, userSays ''thanks'']"
proof -
  have "(case prepareCompaction countLengths (pathIn thanksSession) (smallSettings 24) of None \<Rightarrow> False
    | Some prep \<Rightarrow> kpFirstKeptEntryId prep = js ''c'' \<and> kpRecentMessages prep = [callTurn, ToolResult readResult, userSays ''thanks''])"
    by code_simp
  then show ?thesis using that by (auto split: option.splits)
qed


lemma compaction_keeps_calls_witness: "resultsAnswered [] [callTurn, ToolResult readResult, userSays ''thanks'']"
proof -
  obtain prep where prep: "prepareCompaction countLengths (pathIn thanksSession) (smallSettings 24) = Some prep"
    "kpRecentMessages prep = [callTurn, ToolResult readResult, userSays ''thanks'']"
    by (rule thanks_preparation)
  have "turnsOk [] (pathIn thanksSession)" by code_simp
  then show ?thesis using compaction_keeps_calls [OF prep(1)] prep(2) by simp
qed

lemma large_result_blocks_compaction_witness:
  "prepareCompaction countLengths (pathIn (sessionOf talkOps)) (smallSettings 12) = None"
proof -
  let ?path = "pathIn (sessionOf talkOps)"
  have "?path \<noteq> []" "enBody (last ?path) = MessageEntry (ToolResult readResult)"
    "keepBudget countLengths ?path (smallSettings 12) (compactionStart ?path) \<le> estimateTokens countLengths (ToolResult readResult)"
    "isUserEntry (?path ! compactionStart ?path)" by code_simp+
  then show ?thesis by (rule large_result_blocks_compaction)
qed

end
