(* ===== verification/Ses_Prune_Facts.thy ===== *)
theory Ses_Prune_Facts
  imports Ses_Prune Ses_Compaction_Facts
begin

text \<open>
  Pruning replaces exactly the tool results that the configuration allows it to; the summary of an abandoned branch covers what the
  branch has beyond the deepest common ancestor, and the newest of its messages that fit the budget.
\<close>

section \<open>Pruned results\<close>

definition resultTokens :: "(jstring list \<Rightarrow> nat) \<Rightarrow> session_entry \<Rightarrow> nat" where
  "resultTokens K e = (case getToolResultMessage e of None \<Rightarrow> 0 | Some r \<Rightarrow> estimateTokens K (ToolResult r))"

text \<open>A result may go when it is not pruned or protected yet and the newer results fill the protected window.\<close>

definition prunable ::
  "(jstring list \<Rightarrow> nat) \<Rightarrow> (jstring, tool_call) jsmap \<Rightarrow> prune_config \<Rightarrow> session_entry list \<Rightarrow> nat \<Rightarrow> bool" where
  "prunable K calls config es i \<longleftrightarrow>
     (case getToolResultMessage (es ! i) of
        None \<Rightarrow> False
      | Some r \<Rightarrow>
          tmPrunedAt r = None \<and> \<not> isProtectedToolResult r (mapGet calls (tmCallId r)) (pnProtectedTools config)
          \<and> pnProtectTokens config \<le> sum_list (map (resultTokens K) (drop (Suc i) es)))"

lemma pruneCandidates_spec:
  "m \<le> length es \<Longrightarrow>
     pruneCandidates K calls config es (sum_list (map (resultTokens K) (drop m es))) (rev [0..<m])
       = map (\<lambda>i. (i, resultTokens K (es ! i))) (filter (prunable K calls config es) (rev [0..<m]))"
proof (induction m)
  case (Suc m)
  have sum: "sum_list (map (resultTokens K) (drop m es)) = sum_list (map (resultTokens K) (drop (Suc m) es)) + resultTokens K (es ! m)"
    using Suc.prems by (simp add: Cons_nth_drop_Suc [symmetric])
  note IH = Suc.IH [unfolded sum]
  show ?case
  proof (cases "getToolResultMessage (es ! m)")
    case None
    then have "resultTokens K (es ! m) = 0" "\<not> prunable K calls config es m" by (simp_all add: resultTokens_def prunable_def)
    then show ?thesis using IH Suc.prems None by simp
  next
    case (Some r)
    then have "resultTokens K (es ! m) = estimateTokens K (ToolResult r)"
      and "prunable K calls config es m \<longleftrightarrow> tmPrunedAt r = None
        \<and> \<not> isProtectedToolResult r (mapGet calls (tmCallId r)) (pnProtectedTools config)
        \<and> \<not> sum_list (map (resultTokens K) (drop (Suc m) es)) < pnProtectTokens config"
      by (auto simp: resultTokens_def prunable_def)
    then show ?thesis using IH Suc.prems Some by (simp add: Let_def)
  qed
qed simp

lemma fold_update_nth:
  "distinct is \<Longrightarrow> j < length es \<Longrightarrow>
     fold (\<lambda>(i, t) es. es[i := f t (es ! i)]) (map (\<lambda>i. (i, g i)) is) es ! j = (if j \<in> set is then f (g j) (es ! j) else es ! j)"
  by (induction "is" arbitrary: es) (auto simp: nth_list_update intro!: arg_cong [where f = "f (g j)"] nth_list_update_neq)

lemma length_fold_update: "length (fold (\<lambda>(i, t) es. es[i := f t (es ! i)]) xs es) = length es"
  by (induction xs arbitrary: es) (auto split: prod.splits)

definition pruneAll :: prune_config where
  "pruneAll = \<lparr>pnProtectTokens = 0, pnMinimumSavings = 0, pnProtectedTools = [ProtectName (js ''skill'')]\<rparr>"

text \<open>Pruning does what it promises and no more. When enough tokens are saved it replaces every tool result outside
  the protected window that is neither protected nor pruned already, with a notice of its size, and otherwise it changes nothing; the
  count and the savings it reports are those of the results it replaced.\<close>

theorem pruneToolOutputs_spec:
  assumes "pruneToolOutputs K now config es = (result, es')"
  defines "chosen \<equiv> filter (prunable K (collectToolCallsById es) config es) [0..<length es]"
    and "saved \<equiv> \<lambda>i. estimatePrunedSavings (resultTokens K (es ! i))"
  shows "length es' = length es
    \<and> (let happens = chosen \<noteq> [] \<and> pnMinimumSavings config \<le> sum_list (map saved chosen) in
         result = (if happens then \<lparr>pnCount = length chosen, pnSaved = sum_list (map saved chosen)\<rparr> else \<lparr>pnCount = 0, pnSaved = 0\<rparr>)
         \<and> (\<forall>i < length es. es' ! i =
              (if happens \<and> i \<in> set chosen then pruneMessage now (resultTokens K (es ! i)) (es ! i) else es ! i)))"
proof -
  let ?calls = "collectToolCallsById es"
  let ?candidates = "map (\<lambda>i. (i, resultTokens K (es ! i))) (rev chosen)"
  have candidates: "pruneCandidates K ?calls config es 0 (rev [0..<length es]) = ?candidates"
    using pruneCandidates_spec [of "length es" es K ?calls config] by (simp add: chosen_def rev_filter)
  have sum: "sum_list (map (\<lambda>(i, tokens). estimatePrunedSavings tokens) ?candidates) = sum_list (map saved chosen)"
    by (simp add: saved_def o_def rev_map [symmetric] sum_list_rev)
  have "pruneToolOutputs K now config es =
      (if sum_list (map saved chosen) < pnMinimumSavings config \<or> chosen = [] then (\<lparr>pnCount = 0, pnSaved = 0\<rparr>, es)
       else (\<lparr>pnCount = length chosen, pnSaved = sum_list (map saved chosen)\<rparr>,
             fold (\<lambda>(i, tokens) es. es[i := pruneMessage now tokens (es ! i)]) ?candidates es))"
    unfolding pruneToolOutputs_def candidates sum Let_def by simp
  moreover have "distinct (rev chosen)" by (simp add: chosen_def)
  ultimately show ?thesis
    using assms(1) fold_update_nth [of "rev chosen" _ es "\<lambda>t. pruneMessage now t"]
      length_fold_update [of "\<lambda>t. pruneMessage now t" ?candidates es]
    by (auto simp: Let_def)
qed

lemma pruneToolOutputs_spec_witness:
  "\<exists>result es'. pruneToolOutputs countLengths 5 pruneAll (pathIn (sessionOf talkOps)) = (result, es') \<and> pnCount result = 1
     \<and> es' ! 3 = pruneMessage 5 13 (pathIn (sessionOf talkOps) ! 3)"
proof -
  let ?path = "pathIn (sessionOf talkOps)"
  obtain result es' where run: "pruneToolOutputs countLengths 5 pruneAll ?path = (result, es')" by fastforce
  have facts: "filter (prunable countLengths (collectToolCallsById ?path) pruneAll ?path) [0..<length ?path] = [3]"
    "resultTokens countLengths (?path ! 3) = 13" "pnMinimumSavings pruneAll = 0" "length ?path = 4" by code_simp+
  show ?thesis
    using pruneToolOutputs_spec [OF run] run unfolding facts(1,3) Let_def by (simp add: facts(2,4))
qed

section \<open>The branch that a summary covers\<close>

lemma collectUp_stop [simp]: "collectUp m ancestor None acc = Some acc" "collectUp m (Some i) (Some i) acc = Some acc"
  by (simp_all add: collectUp.simps)

lemma collectUp_step:
  "mapGet m i = Some e \<Longrightarrow> i \<noteq> [] \<Longrightarrow> Some i \<noteq> ancestor \<Longrightarrow> collectUp m ancestor (Some i) acc = collectUp m ancestor (enParent e) (e # acc)"
  by (subst collectUp.simps) simp

text \<open>Up a path from its end to the ancestor, which is the entry before the rest.\<close>

lemma collectUp_path:
  assumes "managerOk sm" and "rootPath (smById sm) (p @ q)" and "set (p @ q) \<subseteq> set (getEntries sm)"
    and "distinct (map enId (p @ q))" and "q \<noteq> []"
  defines "ancestor \<equiv> if p = [] then None else Some (enId (last p))"
  shows "collectUp (smById sm) ancestor (Some (enId (last q))) acc = Some (q @ acc)"
  using assms(2-5)
proof (induction q arbitrary: acc rule: rev_induct)
  case (snoc e q)
  have e: "mapGet (smById sm) (enId e) = Some e" "enId e \<noteq> []" using mapGet_byId [OF assms(1), of e] snoc.prems(2) by auto
  have "Some (enId e) \<noteq> ancestor" using snoc.prems(3) by (auto simp: ancestor_def)
  note step = collectUp_step [OF e this]
  have tree: "enParent e = None \<or> the (enParent e) \<in> set (map enId (getEntries sm))"
    using growsTree_parents [OF managerOkD(1) [OF assms(1)], of e] snoc.prems(2) by auto
  have path: "if p @ q = [] then parentOf (smById sm) e = None else rootPath (smById sm) (p @ q) \<and> parentOf (smById sm) e = Some (last (p @ q))"
    using snoc.prems(1) rootPath_snoc_iff [of "smById sm" "p @ q" e] by simp
  have parent: "enParent e = (if p @ q = [] then None else Some (enId (last (p @ q))))"
  proof (cases "enParent e")
    case None
    then show ?thesis using path by (auto simp: parentOf_def split: if_splits)
  next
    case (Some i)
    then obtain x where x: "x \<in> set (getEntries sm)" "enId x = i" using tree by auto
    then have "parentOf (smById sm) e = Some x" using mapGet_byId [OF assms(1) x(1)] Some by (simp add: parentOf_def)
    then show ?thesis using path x(2) Some by (auto split: if_splits)
  qed
  show ?case
  proof (cases "q = []")
    case True
    then show ?thesis using step parent by (auto simp: ancestor_def)
  next
    case False
    then have "collectUp (smById sm) ancestor (Some (enId (last q))) (e # acc) = Some (q @ e # acc)"
      using snoc path by simp
    then show ?thesis using step parent False by simp
  qed
qed simp

lemma rootPath_prefix: "rootPath m (a @ x # b) \<Longrightarrow> rootPath m (a @ [x])"
  by (auto simp: rootPath_def successively_append_iff hd_append)

lemma rootPath_unique: "rootPath m (a @ [x]) \<Longrightarrow> rootPath m (c @ [x]) \<Longrightarrow> a = c"
  using walk_rootPath [of m a x "[]"] walk_rootPath [of m c x "[]"] by simp

text \<open>Two paths from the root meet in a prefix: up to the last entry of the second that is on the first.\<close>

lemma find_rev_split: "find P (rev (map f xs)) = Some i \<Longrightarrow> \<exists>ys x zs. xs = ys @ x # zs \<and> f x = i \<and> P i \<and> (\<forall>z \<in> set zs. \<not> P (f z))"
proof (induction xs rule: rev_induct)
  case (snoc x xs)
  show ?case
  proof (cases "P (f x)")
    case True
    then show ?thesis using snoc.prems by (intro exI [of _ xs] exI [of _ x] exI [of _ "[]"]) auto
  next
    case False
    then obtain ys y zs where "xs = ys @ y # zs" "f y = i" "P i" "\<forall>z \<in> set zs. \<not> P (f z)" using snoc by auto
    then show ?thesis using False by (intro exI [of _ ys] exI [of _ y] exI [of _ "zs @ [x]"]) auto
  qed
qed simp

lemma paths_meet:
  assumes "managerOk sm" and "rootPath (smById sm) old" and "rootPath (smById sm) target"
    and "set old \<subseteq> set (getEntries sm)" and "set target \<subseteq> set (getEntries sm)"
  obtains p q r where "old = p @ q" and "target = p @ r" and "set (map enId r) \<inter> set (map enId old) = {}"
    and "find (\<lambda>i. i \<in> set (map enId old)) (rev (map enId target)) = (if p = [] then None else Some (enId (last p)))"
proof (cases "find (\<lambda>i. i \<in> set (map enId old)) (rev (map enId target))")
  case None
  then have "set (map enId target) \<inter> set (map enId old) = {}" by (auto simp: find_None_iff)
  then show ?thesis using that [of "[]" old target] None by simp
next
  case (Some i)
  then obtain a y b where y: "target = a @ y # b" "enId y = i" "i \<in> set (map enId old)" "\<forall>z \<in> set b. enId z \<notin> set (map enId old)"
    using find_rev_split [OF Some] by blast
  obtain x where x: "x \<in> set old" "enId x = i" using y(3) by auto
  have "y \<in> set target" using y(1) by simp
  then have "mapGet (smById sm) i = Some y" using mapGet_byId(1) [OF assms(1)] assms(5) y(2) by blast
  moreover have "mapGet (smById sm) i = Some x" using mapGet_byId(1) [OF assms(1)] assms(4) x by blast
  ultimately have "x = y" by simp
  then obtain c d where old: "old = c @ y # d" using x(1) by (auto dest: split_list)
  have "c = a"
    using rootPath_unique [OF rootPath_prefix [OF assms(2) [unfolded old]] rootPath_prefix [OF assms(3) [unfolded y(1)]]] .
  then have "old = (a @ [y]) @ d" "target = (a @ [y]) @ b" using old y(1) by simp_all
  moreover have "set (map enId b) \<inter> set (map enId old) = {}" using y(4) by auto
  moreover have "find (\<lambda>i. i \<in> set (map enId old)) (rev (map enId target))
      = (if a @ [y] = [] then None else Some (enId (last (a @ [y]))))"
    unfolding Some using y(2) by simp
  ultimately show ?thesis by (rule that)
qed

text \<open>A branch summary covers exactly what is abandoned. Going from one entry of a session to another, the paths from the root
  have a common part; the collected entries are the rest of the old path, none of them is on the new path, and the ancestor is the
  last entry of the common part.\<close>

theorem collects_the_abandoned_branch:
  assumes "reachable sm" and "mapHas (smById sm) old" and "mapHas (smById sm) target"
  shows "\<exists>bc p r. collectEntriesForBranchSummary sm (Some old) target = Some bc
    \<and> getBranch (Some old) sm = Some (p @ bcEntries bc) \<and> getBranch (Some target) sm = Some (p @ r)
    \<and> set (map enId r) \<inter> set (map enId (bcEntries bc)) = {}
    \<and> bcCommonAncestor bc = (if p = [] then None else Some (enId (last p)))"
proof -
  note ok = reachable_ok [OF assms(1)]
  obtain a b where a: "a \<in> set (getEntries sm)" "enId a = old" and b: "b \<in> set (getEntries sm)" "enId b = target"
    using id_entry [OF ok] assms(2,3) by metis
  obtain oldp where oldp: "rootPath (smById sm) (oldp @ [a])" "subseq (oldp @ [a]) (getEntries sm)"
    "getBranch (Some old) sm = Some (oldp @ [a])" using branch_exists [OF ok a(1)] a(2) by metis
  obtain tp where tp: "rootPath (smById sm) (tp @ [b])" "subseq (tp @ [b]) (getEntries sm)"
    "getBranch (Some target) sm = Some (tp @ [b])" using branch_exists [OF ok b(1)] b(2) by metis
  obtain p q r where meet: "oldp @ [a] = p @ q" "tp @ [b] = p @ r" "set (map enId r) \<inter> set (map enId (oldp @ [a])) = {}"
    "find (\<lambda>i. i \<in> set (map enId (oldp @ [a]))) (rev (map enId (tp @ [b]))) = (if p = [] then None else Some (enId (last p)))"
    by (rule paths_meet [OF ok oldp(1) tp(1) subseq_set [OF oldp(2)] subseq_set [OF tp(2)]])
  let ?ancestor = "if p = [] then None else Some (enId (last p))"
  have up: "collectUp (smById sm) ?ancestor (Some old) [] = Some q"
  proof (cases "q = []")
    case True
    then show ?thesis using meet(1) a(2) by (metis append_Nil2 collectUp_stop(2) last_snoc snoc_eq_iff_butlast)
  next
    case False
    then have "last q = a" using meet(1) by (metis last_appendR last_snoc)
    moreover have "rootPath (smById sm) (p @ q)" "set (p @ q) \<subseteq> set (getEntries sm)" "distinct (map enId (p @ q))"
      using oldp(1,2) subseq_set subseq_distinct_map [OF oldp(2) managerOkD(3) [OF ok]] unfolding meet(1) [symmetric] by blast+
    ultimately show ?thesis using collectUp_path [OF ok _ _ _ False, of p "[]"] a(2) by simp
  qed
  have "old \<noteq> []" using mapGet_byId(2) [OF ok a(1)] a(2) by simp
  then have "collectEntriesForBranchSummary sm (Some old) target = Some \<lparr>bcEntries = q, bcCommonAncestor = ?ancestor\<rparr>"
    unfolding collectEntriesForBranchSummary_def oldp(3) tp(3) Let_def Option.bind.simps meet(4) up by simp
  moreover have "set (map enId r) \<inter> set (map enId q) = {}" using meet(1,3) by auto
  ultimately show ?thesis using oldp(3) tp(3) meet(1,2) by (intro exI [of _ "\<lparr>bcEntries = q, bcCommonAncestor = ?ancestor\<rparr>"] exI) auto
qed

section \<open>The messages that fit\<close>

definition branchMessages :: "session_entry list \<Rightarrow> agent_message list" where
  "branchMessages es = List.map_filter branchMessageOf es"

definition messagesTokens :: "(jstring list \<Rightarrow> nat) \<Rightarrow> agent_message list \<Rightarrow> nat" where
  "messagesTokens K ms = sum_list (map (estimateTokens K) ms)"

lemma branchMessages_append [simp]: "branchMessages (es @ fs) = branchMessages es @ branchMessages fs" "branchMessages [] = []"
  by (simp_all add: branchMessages_def map_filter_def)

lemma branchMessages_one: "branchMessages [e] = (case branchMessageOf e of None \<Rightarrow> [] | Some m \<Rightarrow> [m])"
  by (simp add: branchMessages_def map_filter_simps split: option.splits)

lemma messagesTokens_simps [simp]:
  "messagesTokens K [] = 0" "messagesTokens K (ms @ ns) = messagesTokens K ms + messagesTokens K ns"
  "messagesTokens K [m] = estimateTokens K m"
  by (simp_all add: messagesTokens_def)

text \<open>The result \<open>q\<close> of filling \<open>p\<close> with the messages of \<open>n\<close> entries of \<open>ws\<close>, the newest first.\<close>

definition filledWith ::
  "(jstring list \<Rightarrow> nat) \<Rightarrow> int \<Rightarrow> session_entry list \<Rightarrow> branch_preparation \<Rightarrow> branch_preparation \<Rightarrow> nat \<Rightarrow> bool" where
  "filledWith K budget ws p q n \<longleftrightarrow>
     n \<le> length ws \<and> bpMessages q = branchMessages (rev (take n ws)) @ bpMessages p
     \<and> bpTotalTokens q = messagesTokens K (branchMessages (rev (take n ws))) + bpTotalTokens p
     \<and> (budget \<le> 0 \<longrightarrow> n = length ws)
     \<and> (0 < budget \<and> int (bpTotalTokens p) \<le> budget \<longrightarrow> int (bpTotalTokens q) \<le> budget
         \<or> (0 < n \<and> isSummaryEntry (ws ! (n - 1))
            \<and> int (messagesTokens K (branchMessages (rev (take (n - 1) ws))) + bpTotalTokens p) \<le> budget))"

lemma filledWith_Suc:
  assumes "filledWith K budget ws p' q n" and "bpMessages p' = branchMessages [e] @ bpMessages p"
    and "bpTotalTokens p' = messagesTokens K (branchMessages [e]) + bpTotalTokens p"
    and "0 < budget \<Longrightarrow> int (bpTotalTokens p) \<le> budget \<Longrightarrow> int (bpTotalTokens p') \<le> budget"
  shows "filledWith K budget (e # ws) p q (Suc n)"
  using assms unfolding filledWith_def by (cases n) auto

lemma fillBudget_filled: "\<exists>n. filledWith K budget ws p (fillBudget K budget ws p) n"
proof (induction K budget ws p rule: fillBudget.induct)
  case (1 K budget p)
  show ?case by (simp add: filledWith_def)
next
  case (2 K budget e es p)
  show ?case
  proof (cases "branchMessageOf e")
    case None
    obtain n where "filledWith K budget es p (fillBudget K budget es p) n" using 2(1) [OF None] by blast
    then have "filledWith K budget (e # es) p (fillBudget K budget es p) (Suc n)"
      using None by (intro filledWith_Suc) (simp_all add: branchMessages_one)
    then show ?thesis using None by auto
  next
    case (Some m)
    let ?p1 = "p\<lparr>bpFileOps := extractFileOpsFromMessage m (bpFileOps p)\<rparr>"
    let ?taken = "?p1\<lparr>bpMessages := m # bpMessages ?p1, bpTotalTokens := bpTotalTokens ?p1 + estimateTokens K m\<rparr>"
    let ?over = "0 < budget \<and> budget < int (bpTotalTokens p + estimateTokens K m)"
    have one: "filledWith K budget (e # es) p ?taken (Suc 0)" if ?over "isSummaryEntry e"
      using Some that by (simp add: filledWith_def branchMessages_one)
    have zero: "filledWith K budget (e # es) p ?p1 0" if ?over
      using that by (simp add: filledWith_def)
    show ?thesis
    proof (cases ?over)
      case True
      then have "fillBudget K budget (e # es) p = ?p1 \<or> (isSummaryEntry e \<and> fillBudget K budget (e # es) p = ?taken)"
        using Some by (simp add: Let_def)
      then show ?thesis using one [OF True] zero [OF True] by metis
    next
      case False
      then obtain n where n: "filledWith K budget es ?taken (fillBudget K budget es ?taken) n"
        using 2(2) [OF Some refl refl refl] by auto
      have "filledWith K budget (e # es) p (fillBudget K budget es ?taken) (Suc n)"
        using n Some False by (intro filledWith_Suc [OF n]) (auto simp: branchMessages_one)
      moreover have "fillBudget K budget (e # es) p = fillBudget K budget es ?taken" using Some False by (auto simp: Let_def)
      ultimately show ?thesis by metis
    qed
  qed
qed

text \<open>The summary is made from the newest messages that fit. The prepared messages are those of the newest entries, with their
  tokens added up; without a budget they are all messages, and with one they stay within it unless the oldest entry among them is
  itself a summary, without which they fit.\<close>

theorem branch_messages_fit:
  "\<exists>k \<le> length es. bpMessages (prepareBranchEntries K es budget) = branchMessages (drop k es)
    \<and> bpTotalTokens (prepareBranchEntries K es budget) = messagesTokens K (branchMessages (drop k es))
    \<and> (budget \<le> 0 \<longrightarrow> k = 0)
    \<and> (0 < budget \<longrightarrow> int (messagesTokens K (branchMessages (drop k es))) \<le> budget
        \<or> (k < length es \<and> isSummaryEntry (es ! k) \<and> int (messagesTokens K (branchMessages (drop (Suc k) es))) \<le> budget))"
proof -
  obtain p where p: "prepareBranchEntries K es budget = fillBudget K budget (rev es) p" "bpMessages p = []" "bpTotalTokens p = 0"
    by (simp add: prepareBranchEntries_def)
  obtain n where n: "filledWith K budget (rev es) p (prepareBranchEntries K es budget) n" using fillBudget_filled p(1) by metis
  have le: "n \<le> length es" using n by (simp add: filledWith_def)
  have all: "rev (take n (rev es)) = drop (length es - n) es" by (simp add: rev_take)
  have fewer: "rev (take (n - 1) (rev es)) = drop (Suc (length es - n)) es" "rev es ! (n - 1) = es ! (length es - n)" if "0 < n"
    using that le by (simp_all add: rev_take rev_nth Suc_diff_le)
  show ?thesis
    using n le p(2,3) fewer unfolding filledWith_def all by (intro exI [of _ "length es - n"]) (cases "n = 0"; auto)
qed

section \<open>Small cases\<close>

lemma collects_the_abandoned_branch_witness:
  "\<exists>bc. collectEntriesForBranchSummary thanksSession (Some (js ''e'')) (js ''b'') = Some bc \<and> bcCommonAncestor bc = Some (js ''b'')"
proof -
  have fresh: "allFresh thanksOps demoStart" by code_simp
  have has: "mapHas (smById thanksSession) (js ''e'')" "mapHas (smById thanksSession) (js ''b'')" by code_simp+
  obtain bc where bc: "collectEntriesForBranchSummary thanksSession (Some (js ''e'')) (js ''b'') = Some bc"
    using collects_the_abandoned_branch [OF sessionOf_reachable [OF fresh] has] by (elim exE conjE)
  have "(case collectEntriesForBranchSummary thanksSession (Some (js ''e'')) (js ''b'') of Some bc \<Rightarrow> bcCommonAncestor bc | None \<Rightarrow> None)
      = Some (js ''b'')" by code_simp
  then show ?thesis using bc(1) by simp
qed

lemma branch_messages_fit_witness:
  "\<exists>k \<le> 5. bpMessages (prepareBranchEntries countLengths (pathIn thanksSession) 9) = branchMessages (drop k (pathIn thanksSession))
     \<and> messagesTokens countLengths (branchMessages (drop k (pathIn thanksSession))) \<le> 9"
proof -
  let ?path = "pathIn thanksSession"
  have path: "length ?path = 5" "list_ex isSummaryEntry ?path = False" by code_simp+
  obtain k where k: "k \<le> length ?path" "bpMessages (prepareBranchEntries countLengths ?path 9) = branchMessages (drop k ?path)"
    "int (messagesTokens countLengths (branchMessages (drop k ?path))) \<le> 9 \<or> (k < length ?path \<and> isSummaryEntry (?path ! k))"
    using branch_messages_fit [of ?path countLengths 9] by auto
  then have "int (messagesTokens countLengths (branchMessages (drop k ?path))) \<le> 9" using path(2) by (auto simp: list_ex_iff)
  then show ?thesis using k(1,2) path(1) by (intro exI [of _ k]) simp
qed

end
