(* ===== verification/Ses_Persist.thy ===== *)
theory Ses_Persist
  imports Ses_Manager
begin

text \<open>
  How \<open>SessionManager\<close> (packages/coding-agent/src/session/session-manager.ts) writes one session file through
  \<open>FileSessionStorage\<close> (session-storage.ts). Appending an entry writes it at once through an open file (the hot path), or queues a
  rewrite of the whole file, which goes to a new file that replaces the old one by a rename. The queue is the chain of promises
  \<open>#persistChain\<close>: its tasks run one after the other, each in steps with an \<open>await\<close> between them, and between two steps other
  code may run. A file under its name and a file held open by a writer are numbers of inodes, as on a POSIX system, where a rename
  leaves a writer on the inode it opened. A line stands for its entry: the shortening of long strings and the images kept in
  the blob store are left out, as are a line written in part, the fallback for a rename that Windows refuses, and
  switching to another session file.
\<close>

section \<open>State\<close>

record persist_writer =
  pwInode :: nat
  pwClosing :: bool

text \<open>How far a rewrite has come: it closes the writer, takes the entries, writes them to a new file, renames that.\<close>

datatype rewrite_phase =
    RwQueued
  | RwClosing
  | RwReady
  | RwSnapshot "file_entry list"
  | RwWritten nat
  | RwRenamed

text \<open>A rewrite tells whether \<open>ensureOnDisk\<close> waits for it; a close whether it has begun.\<close>

datatype persist_task = RewriteTask bool rewrite_phase | CloseTask bool | FlushTask

record persist_state =
  psEntries :: "file_entry list"
  psFlushed :: bool
  psNeedsRewrite :: bool
  psEnsured :: bool
  psWriter :: "persist_writer option"
  psQueue :: "persist_task list"
  psError :: bool
  psEnsuring :: bool
  psFile :: "nat option"
  psInodes :: "file_entry list list"

definition isAssistantEntry :: "file_entry \<Rightarrow> bool" where
  "isAssistantEntry f =
     (case f of FileEntry e \<Rightarrow> (case enBody e of MessageEntry (AssistantMessage m) \<Rightarrow> True | _ \<Rightarrow> False) | _ \<Rightarrow> False)"

definition hasAssistant :: "persist_state \<Rightarrow> bool" where
  "hasAssistant s = list_ex isAssistantEntry (psEntries s)"

definition fileContent :: "persist_state \<Rightarrow> file_entry list option" where
  "fileContent s = map_option (\<lambda>i. psInodes s ! i) (psFile s)"

section \<open>Storage\<close>

definition createInode :: "file_entry list \<Rightarrow> persist_state \<Rightarrow> nat \<times> persist_state" where
  "createInode lines s = (length (psInodes s), s\<lparr>psInodes := psInodes s @ [lines]\<rparr>)"

text \<open>Opening the session file for appending makes it when it is not there.\<close>

definition openForAppend :: "persist_state \<Rightarrow> nat \<times> persist_state" where
  "openForAppend s =
     (case psFile s of
        Some i \<Rightarrow> (i, s)
      | None \<Rightarrow> (let (i, s1) = createInode [] s in (i, s1\<lparr>psFile := Some i\<rparr>)))"

definition writeLine :: "nat \<Rightarrow> file_entry \<Rightarrow> persist_state \<Rightarrow> persist_state" where
  "writeLine i e s = s\<lparr>psInodes := (psInodes s)[i := psInodes s ! i @ [e]]\<rparr>"

section \<open>Queueing\<close>

definition queueTask :: "persist_task \<Rightarrow> persist_state \<Rightarrow> persist_state" where
  "queueTask t s = s\<lparr>psQueue := psQueue s @ [t]\<rparr>"

definition rewriteFile :: "bool \<Rightarrow> persist_state \<Rightarrow> persist_state" where
  "rewriteFile ensure = queueTask (RewriteTask ensure RwQueued)"

text \<open>No writer while the one for this file is being closed.\<close>

definition ensurePersistWriter :: "persist_state \<Rightarrow> persist_writer option \<times> persist_state" where
  "ensurePersistWriter s =
     (case psWriter s of
        Some w \<Rightarrow> (if pwClosing w then None else Some w, s)
      | None \<Rightarrow>
          let (i, s1) = openForAppend s; w = \<lparr>pwInode = i, pwClosing = False\<rparr> in (Some w, s1\<lparr>psWriter := Some w\<rparr>))"

text \<open>\<open>_persist\<close>, which throws an error of the past, and a write that may fail.\<close>

definition persistEntry :: "bool \<Rightarrow> file_entry \<Rightarrow> persist_state \<Rightarrow> bool \<times> persist_state" where
  "persistEntry fails e s =
     (if psError s then (True, s)
      else (False,
        if \<not> psEnsured s \<and> \<not> hasAssistant s then s\<lparr>psFlushed := False\<rparr>
        else if psNeedsRewrite s \<or> \<not> psFlushed s then rewriteFile False s
        else
          case ensurePersistWriter s of
            (None, s1) \<Rightarrow> rewriteFile False s1
          | (Some w, s1) \<Rightarrow> if fails then s1\<lparr>psError := True\<rparr> else writeLine (pwInode w) e s1))"

section \<open>Operations\<close>

datatype persist_op =
    AppendOp bool session_entry
  | TitleOp jstring bool
  | RewriteOp
  | EnsureOp
  | CloseOp
  | FlushOp

text \<open>The effect of a call up to its first \<open>await\<close>. A new title is written when the file exists.\<close>

fun persistOp :: "persist_op \<Rightarrow> persist_state \<Rightarrow> persist_state" where
  "persistOp (AppendOp fails e) s =
     snd (persistEntry fails (FileEntry e) (s\<lparr>psEntries := psEntries s @ [FileEntry e]\<rparr>))"
| "persistOp (TitleOp name byUser) s =
     (let s1 = s\<lparr>psEntries := setHeaderTitle name byUser (psEntries s)\<rparr> in
      if psFile s1 \<noteq> None then rewriteFile False s1 else s1)"
| "persistOp RewriteOp s = rewriteFile False s"
| "persistOp EnsureOp s = (if psFlushed s \<and> \<not> psNeedsRewrite s then s else rewriteFile True s)"
| "persistOp CloseOp s = (if psWriter s = None then s else queueTask (CloseTask False) s)"
| "persistOp FlushOp s = queueTask FlushTask s"

section \<open>Tasks\<close>

text \<open>\<open>#closePersistWriterInternal\<close> begins: from now on the writer takes no more lines.\<close>

definition beginClose :: "persist_state \<Rightarrow> persist_state" where
  "beginClose s = s\<lparr>psWriter := map_option (\<lambda>w. w\<lparr>pwClosing := True\<rparr>) (psWriter s)\<rparr>"

definition endClose :: "persist_state \<Rightarrow> persist_state" where
  "endClose s = s\<lparr>psWriter := (case psWriter s of Some w \<Rightarrow> if pwClosing w then None else Some w | None \<Rightarrow> None)\<rparr>"

definition finishRewrite :: "bool \<Rightarrow> persist_state \<Rightarrow> persist_state" where
  "finishRewrite ensure s = s\<lparr>psNeedsRewrite := False, psFlushed := True, psEnsuring := psEnsuring s \<or> ensure\<rparr>"

text \<open>A step of the task at the head of the queue; a task begins with the error of the past, if there is one.\<close>

fun rewriteStep :: "bool \<Rightarrow> rewrite_phase \<Rightarrow> persist_task list \<Rightarrow> persist_state \<Rightarrow> persist_state" where
  "rewriteStep ensure RwQueued ts s =
     (if psError s then s\<lparr>psQueue := ts\<rparr>
      else if psWriter s = None then s\<lparr>psQueue := RewriteTask ensure RwReady # ts\<rparr>
      else (beginClose s)\<lparr>psQueue := RewriteTask ensure RwClosing # ts\<rparr>)"
| "rewriteStep ensure RwClosing ts s = (endClose s)\<lparr>psQueue := RewriteTask ensure RwReady # ts\<rparr>"
| "rewriteStep ensure RwReady ts s = s\<lparr>psQueue := RewriteTask ensure (RwSnapshot (psEntries s)) # ts\<rparr>"
| "rewriteStep ensure (RwSnapshot entries) ts s =
     (let (i, s1) = createInode entries s in s1\<lparr>psQueue := RewriteTask ensure (RwWritten i) # ts\<rparr>)"
| "rewriteStep ensure (RwWritten i) ts s = s\<lparr>psFile := Some i, psQueue := RewriteTask ensure RwRenamed # ts\<rparr>"
| "rewriteStep ensure RwRenamed ts s = finishRewrite ensure (s\<lparr>psQueue := ts\<rparr>)"

definition taskStep :: "persist_state \<Rightarrow> persist_state option" where
  "taskStep s =
     (case psQueue s of
        [] \<Rightarrow> None
      | t # ts \<Rightarrow> Some (case t of
            RewriteTask ensure phase \<Rightarrow> rewriteStep ensure phase ts s
          | CloseTask False \<Rightarrow> (if psError s then s\<lparr>psQueue := ts\<rparr> else (beginClose s)\<lparr>psQueue := CloseTask True # ts\<rparr>)
          | CloseTask True \<Rightarrow> (endClose s)\<lparr>psFlushed := True, psQueue := ts\<rparr>
          | FlushTask \<Rightarrow> s\<lparr>psQueue := ts\<rparr>))"

text \<open>The running task fails: the error is kept and the task ends.\<close>

definition failStep :: "persist_state \<Rightarrow> persist_state option" where
  "failStep s = (case psQueue s of [] \<Rightarrow> None | t # ts \<Rightarrow> Some (s\<lparr>psError := True, psQueue := ts\<rparr>))"

text \<open>\<open>ensureOnDisk\<close> goes on after its rewrite.\<close>

definition ensureReturn :: "persist_state \<Rightarrow> persist_state" where
  "ensureReturn s = (if psEnsuring s then s\<lparr>psEnsured := True, psEnsuring := False\<rparr> else s)"

section \<open>Starts and steps\<close>

definition freshFile :: "session_header \<Rightarrow> persist_state" where
  "freshFile h =
     \<lparr>psEntries = [HeaderEntry h], psFlushed = False, psNeedsRewrite = False, psEnsured = False, psWriter = None, psQueue = [],
      psError = False, psEnsuring = False, psFile = None, psInodes = []\<rparr>"

text \<open>A session read from a file with the entries \<open>old\<close>, which differ from those in memory after a migration.\<close>

definition loadedFile :: "file_entry list \<Rightarrow> file_entry list \<Rightarrow> bool \<Rightarrow> persist_state" where
  "loadedFile old entries migrated =
     \<lparr>psEntries = entries, psFlushed = True, psNeedsRewrite = migrated, psEnsured = True, psWriter = None, psQueue = [],
      psError = False, psEnsuring = False, psFile = Some 0, psInodes = [old]\<rparr>"

inductive persist_step :: "persist_state \<Rightarrow> persist_state \<Rightarrow> bool" where
  operation: "persist_step s (persistOp p s)"
| task: "taskStep s = Some s' \<Longrightarrow> persist_step s s'"
| failure: "failStep s = Some s' \<Longrightarrow> persist_step s s'"
| ensured: "persist_step s (ensureReturn s)"

inductive_cases persist_stepE: "persist_step s s'"

end
