(* ===== verification/Ses_Persist_Facts.thy ===== *)
theory Ses_Persist_Facts
  imports Ses_Persist
begin

text \<open>
  What the session file holds: in every interleaving, also with failures, it begins with the header and its entries are some of those
  of the session, in order; when no line is appended while the queue is at work, the drained queue leaves every entry in the
  file; otherwise entries are lost for good.
\<close>

section \<open>Field access\<close>

lemma createInode_simps [simp]:
  "fst (createInode c s) = length (psInodes s)" "snd (createInode c s) = s\<lparr>psInodes := psInodes s @ [c]\<rparr>"
  by (simp_all add: createInode_def)

definition fileId :: "file_entry \<Rightarrow> jstring" where
  "fileId f = (case f of HeaderEntry h \<Rightarrow> shId h | FileEntry e \<Rightarrow> enId e)"

definition idsOf :: "file_entry list \<Rightarrow> jstring list" where
  "idsOf fs = map fileId fs"

lemma idsOf_simps [simp]: "idsOf [] = []" "idsOf (f # fs) = fileId f # idsOf fs" "idsOf (fs @ gs) = idsOf fs @ idsOf gs"
  by (simp_all add: idsOf_def)

lemma idsOf_setHeaderTitle [simp]: "idsOf (setHeaderTitle n u fs) = idsOf fs"
  by (induction n u fs rule: setHeaderTitle.induct) (simp_all add: fileId_def)

definition startsWithHeader :: "file_entry list \<Rightarrow> bool" where
  "startsWithHeader fs \<longleftrightarrow> (case fs of HeaderEntry h # _ \<Rightarrow> True | _ \<Rightarrow> False)"

lemma startsWithHeader_append [simp]: "startsWithHeader fs \<Longrightarrow> startsWithHeader (fs @ gs)"
  by (auto simp: startsWithHeader_def split: list.splits)

lemma startsWithHeader_setHeaderTitle [simp]: "startsWithHeader fs \<Longrightarrow> startsWithHeader (setHeaderTitle n u fs)"
  by (auto simp: startsWithHeader_def split: list.splits file_entry.splits)

section \<open>Every interleaving\<close>

text \<open>What a file may hold at any time.\<close>

definition partOf :: "file_entry list \<Rightarrow> file_entry list \<Rightarrow> bool" where
  "partOf entries fs \<longleftrightarrow> startsWithHeader fs \<and> subseq (idsOf fs) (idsOf entries)"

fun taskOk :: "persist_state \<Rightarrow> persist_task \<Rightarrow> bool" where
  "taskOk s (RewriteTask en (RwSnapshot fs)) = partOf (psEntries s) fs"
| "taskOk s (RewriteTask en (RwWritten i)) = (i < length (psInodes s))"
| "taskOk s (RewriteTask en RwRenamed) = (psFile s \<noteq> None)"
| "taskOk s (CloseTask b) = (psFile s \<noteq> None)"
| "taskOk s _ = True"

definition filesOk :: "persist_state \<Rightarrow> bool" where
  "filesOk s \<longleftrightarrow>
     startsWithHeader (psEntries s) \<and> (\<forall>fs \<in> set (psInodes s). partOf (psEntries s) fs)
     \<and> (\<forall>i. psFile s = Some i \<longrightarrow> i < length (psInodes s))
     \<and> (\<forall>w. psWriter s = Some w \<longrightarrow> pwInode w < length (psInodes s))
     \<and> (psFlushed s \<or> psWriter s \<noteq> None \<longrightarrow> psFile s \<noteq> None)
     \<and> (\<forall>t \<in> set (psQueue s). taskOk s t)"

inductive persist_reachable :: "persist_state \<Rightarrow> bool" where
  fresh: "persist_reachable (freshFile h)"
| loaded: "startsWithHeader entries \<Longrightarrow> partOf entries old \<Longrightarrow> persist_reachable (loadedFile old entries migrated)"
| step: "persist_reachable s \<Longrightarrow> persist_step s s' \<Longrightarrow> persist_reachable s'"

lemma partOf_more [simp]: "partOf es fs \<Longrightarrow> partOf (es @ gs) fs"
  by (auto simp: partOf_def)

lemma partOf_refl: "startsWithHeader es \<Longrightarrow> partOf es es"
  by (simp add: partOf_def)

lemma partOf_both: "partOf es fs \<Longrightarrow> partOf (es @ [e]) (fs @ [e])"
  by (simp add: partOf_def)

lemma partOf_title: "partOf es fs \<Longrightarrow> partOf (setHeaderTitle n u es) fs"
  by (simp add: partOf_def)

text \<open>States whose files and writer are the same, with other entries and flags.\<close>

lemma taskOk_mono:
  assumes "taskOk s t" and "\<And>fs. partOf (psEntries s) fs \<Longrightarrow> partOf (psEntries s') fs"
    and "length (psInodes s) \<le> length (psInodes s')" and "psFile s \<noteq> None \<Longrightarrow> psFile s' \<noteq> None"
  shows "taskOk s' t"
  using assms by (cases "(s, t)" rule: taskOk.cases) auto

lemma filesOk_queueTask: "filesOk s \<Longrightarrow> taskOk s t \<Longrightarrow> filesOk (queueTask t s)"
  unfolding filesOk_def queueTask_def by (auto intro: taskOk_mono [of s])

lemma filesOk_rewriteFile: "filesOk s \<Longrightarrow> filesOk (rewriteFile ensure s)"
  unfolding rewriteFile_def by (rule filesOk_queueTask) auto

lemma filesOk_entries:
  assumes "filesOk s" and "startsWithHeader es" and "\<And>fs. partOf (psEntries s) fs \<Longrightarrow> partOf es fs"
  shows "filesOk (s\<lparr>psEntries := es\<rparr>)"
  using assms unfolding filesOk_def by (auto intro: taskOk_mono [of s])

lemma filesOk_error: "filesOk s \<Longrightarrow> filesOk (s\<lparr>psError := True\<rparr>)"
  unfolding filesOk_def by (auto intro: taskOk_mono [of s])

lemma filesOk_unflushed: "filesOk s \<Longrightarrow> filesOk (s\<lparr>psFlushed := False\<rparr>)"
  unfolding filesOk_def by (auto intro: taskOk_mono [of s])

lemma filesOk_pop: "filesOk s \<Longrightarrow> psQueue s = t # ts \<Longrightarrow> filesOk (s\<lparr>psQueue := ts\<rparr>)"
  unfolding filesOk_def by (auto intro: taskOk_mono [of s])

lemma filesOk_head: "filesOk s \<Longrightarrow> psQueue s = t # ts \<Longrightarrow> taskOk s t' \<Longrightarrow> filesOk (s\<lparr>psQueue := t' # ts\<rparr>)"
  unfolding filesOk_def by (auto intro: taskOk_mono [of s])

lemma filesOk_closing:
  assumes "filesOk s"
  shows "filesOk (beginClose s)" and "filesOk (endClose s)"
  using assms unfolding filesOk_def beginClose_def endClose_def by (auto intro: taskOk_mono [of s] split: option.splits)

text \<open>On the hot path the file is there: the writer is the open one or a new one on the file.\<close>

lemma ensurePersistWriter_cases:
  assumes "psFile s \<noteq> None" and "ensurePersistWriter s = (w, s')"
  shows "(w = None \<and> s' = s \<and> (\<exists>v. psWriter s = Some v \<and> pwClosing v))
    \<or> (\<exists>v. w = Some v \<and> psWriter s = Some v \<and> \<not> pwClosing v \<and> s' = s)
    \<or> (\<exists>i. psFile s = Some i \<and> psWriter s = None \<and> w = Some \<lparr>pwInode = i, pwClosing = False\<rparr>
        \<and> s' = s\<lparr>psWriter := Some \<lparr>pwInode = i, pwClosing = False\<rparr>\<rparr>)"
  using assms by (cases "psWriter s") (auto simp: ensurePersistWriter_def openForAppend_def Let_def split: if_splits)

text \<open>The outcomes of an append.\<close>

definition hotWriter :: "persist_state \<Rightarrow> persist_writer \<Rightarrow> bool" where
  "hotWriter s w \<longleftrightarrow>
     psFlushed s \<and> \<not> psNeedsRewrite s \<and> \<not> psError s \<and> (psEnsured s \<or> hasAssistant s) \<and> \<not> pwClosing w
     \<and> (psWriter s = Some w \<or> (psWriter s = None \<and> psFile s = Some (pwInode w)))"

lemma persistEntry_cases:
  assumes "psFlushed s \<Longrightarrow> psFile s \<noteq> None"
  obtains
    (same) "psError s" "snd (persistEntry fails e s) = s"
  | (waits) "\<not> psError s" "\<not> psEnsured s" "\<not> hasAssistant s" "snd (persistEntry fails e s) = s\<lparr>psFlushed := False\<rparr>"
  | (queued) "\<not> psError s" "psEnsured s \<or> hasAssistant s" "snd (persistEntry fails e s) = rewriteFile False s"
  | (broken) w where "hotWriter s w" "snd (persistEntry fails e s) = s\<lparr>psWriter := Some w, psError := True\<rparr>"
  | (hot) w where "hotWriter s w" "snd (persistEntry fails e s) = writeLine (pwInode w) e (s\<lparr>psWriter := Some w\<rparr>)"
proof (cases "psError s \<or> \<not> psEnsured s \<and> \<not> hasAssistant s \<or> psNeedsRewrite s \<or> \<not> psFlushed s")
  case True
  then show ?thesis
    using same waits queued by (cases "psError s"; cases "\<not> psEnsured s \<and> \<not> hasAssistant s") (simp_all add: persistEntry_def)
next
  case False
  obtain w s' where w: "ensurePersistWriter s = (w, s')" by fastforce
  have there: "psFile s \<noteq> None" using False assms by blast
  have out: ?thesis if "hotWriter s v" "w = Some v" "s' = s\<lparr>psWriter := Some v\<rparr>" for v
  proof -
    have "snd (persistEntry fails e s)
        = (if fails then s\<lparr>psWriter := Some v, psError := True\<rparr> else writeLine (pwInode v) e (s\<lparr>psWriter := Some v\<rparr>))"
      using that(2,3) False w unfolding persistEntry_def by auto
    then show ?thesis using that(1) broken [of v] hot [of v] by (cases fails) simp_all
  qed
  from ensurePersistWriter_cases [OF there w] show ?thesis
  proof (elim disjE exE conjE)
    assume "w = None" "s' = s"
    then have "snd (persistEntry fails e s) = rewriteFile False s" using False w unfolding persistEntry_def by auto
    then show ?thesis using False queued by blast
  next
    fix v assume "w = Some v" "psWriter s = Some v" "\<not> pwClosing v" "s' = s"
    then show ?thesis using False by (intro out [of v]) (auto simp: hotWriter_def)
  next
    fix i assume "psFile s = Some i" "psWriter s = None" "w = Some \<lparr>pwInode = i, pwClosing = False\<rparr>"
      "s' = s\<lparr>psWriter := Some \<lparr>pwInode = i, pwClosing = False\<rparr>\<rparr>"
    then show ?thesis using False by (intro out [of "\<lparr>pwInode = i, pwClosing = False\<rparr>"]) (auto simp: hotWriter_def)
  qed
qed

lemma filesOk_writer:
  assumes "filesOk s" and "pwInode w < length (psInodes s)" and "psFile s \<noteq> None"
  shows "filesOk (s\<lparr>psWriter := Some w\<rparr>)"
  using assms unfolding filesOk_def by (auto intro: taskOk_mono [of s])

lemma filesOk_append:
  assumes "filesOk s" and "i < length (psInodes s)"
  shows "filesOk (writeLine i e (s\<lparr>psEntries := psEntries s @ [e]\<rparr>))"
proof -
  have parts: "\<forall>fs \<in> set (psInodes s). partOf (psEntries s) fs" using assms(1) by (simp add: filesOk_def)
  then have "partOf (psEntries s @ [e]) (psInodes s ! i @ [e])" using assms(2) by (intro partOf_both) simp
  then have "\<forall>fs \<in> set ((psInodes s)[i := psInodes s ! i @ [e]]). partOf (psEntries s @ [e]) fs"
    using parts set_update_subset_insert [of "psInodes s" i] partOf_more by fast
  then show ?thesis
    using assms unfolding filesOk_def writeLine_def by (auto intro: taskOk_mono [of s])
qed

lemma filesOk_operation:
  assumes "filesOk s"
  shows "filesOk (persistOp p s)"
proof (cases p)
  case (AppendOp fails e)
  let ?s = "s\<lparr>psEntries := psEntries s @ [FileEntry e]\<rparr>"
  have ok: "filesOk ?s" using assms by (intro filesOk_entries) (simp_all add: filesOk_def)
  have there: "psFlushed ?s \<Longrightarrow> psFile ?s \<noteq> None" using ok by (simp add: filesOk_def)
  have inode: "pwInode w < length (psInodes s) \<and> psFile s \<noteq> None" if "hotWriter ?s w" for w
    using assms that by (auto simp: filesOk_def hotWriter_def)
  show ?thesis unfolding AppendOp persistOp.simps
  proof (rule persistEntry_cases [OF there, of fails "FileEntry e"])
    fix w assume "hotWriter ?s w" and new: "snd (persistEntry fails (FileEntry e) ?s) = ?s\<lparr>psWriter := Some w, psError := True\<rparr>"
    then show "filesOk (snd (persistEntry fails (FileEntry e) ?s))"
      unfolding new using ok inode by (intro filesOk_error filesOk_writer) auto
  next
    fix w assume hot: "hotWriter ?s w"
      and new: "snd (persistEntry fails (FileEntry e) ?s) = writeLine (pwInode w) (FileEntry e) (?s\<lparr>psWriter := Some w\<rparr>)"
    have swap: "?s\<lparr>psWriter := Some w\<rparr> = (s\<lparr>psWriter := Some w\<rparr>)\<lparr>psEntries := psEntries s @ [FileEntry e]\<rparr>" by (cases s) simp
    have "filesOk (writeLine (pwInode w) (FileEntry e) ((s\<lparr>psWriter := Some w\<rparr>)\<lparr>psEntries := psEntries s @ [FileEntry e]\<rparr>))"
      using filesOk_append [OF filesOk_writer [OF assms], of w "pwInode w"] inode [OF hot] by simp
    then show "filesOk (snd (persistEntry fails (FileEntry e) ?s))" unfolding new swap .
  qed (use ok in \<open>auto simp: filesOk_rewriteFile filesOk_unflushed\<close>)
next
  case (TitleOp name byUser)
  have "filesOk (s\<lparr>psEntries := setHeaderTitle name byUser (psEntries s)\<rparr>)"
    using assms by (intro filesOk_entries) (simp_all add: filesOk_def partOf_title)
  then show ?thesis by (simp add: TitleOp Let_def filesOk_rewriteFile)
next
  case CloseOp
  have "filesOk (queueTask (CloseTask False) s)" if "psWriter s \<noteq> None"
    using assms that by (intro filesOk_queueTask) (auto simp: filesOk_def)
  then show ?thesis using assms CloseOp by simp
qed (auto simp: assms filesOk_rewriteFile filesOk_queueTask)

lemma filesOk_flags:
  assumes "filesOk s" and "psFile s \<noteq> None"
  shows "filesOk (s\<lparr>psNeedsRewrite := a, psFlushed := b, psEnsuring := c\<rparr>)" and "filesOk (s\<lparr>psFlushed := b\<rparr>)"
  using assms unfolding filesOk_def by (auto intro: taskOk_mono [of s])

lemma filesOk_rewriteStep:
  assumes "filesOk s" and "psQueue s = RewriteTask ensure phase # ts"
  shows "filesOk (rewriteStep ensure phase ts s)"
proof (cases phase)
  case RwQueued
  then show ?thesis
    using filesOk_pop [OF assms] filesOk_head [OF assms] filesOk_head [OF filesOk_closing(1) [OF assms(1)]] assms(2)
    by (simp add: beginClose_def)
next
  case RwClosing
  then show ?thesis using filesOk_head [OF filesOk_closing(2) [OF assms(1)]] assms(2) by (simp add: endClose_def)
next
  case RwReady
  have "partOf (psEntries s) (psEntries s)" using assms(1) by (intro partOf_refl) (simp add: filesOk_def)
  then show ?thesis using RwReady filesOk_head [OF assms] by simp
next
  case (RwSnapshot fs)
  then have "partOf (psEntries s) fs" using assms by (simp add: filesOk_def)
  then have "filesOk (s\<lparr>psInodes := psInodes s @ [fs]\<rparr>)"
    using assms unfolding filesOk_def by (auto intro: taskOk_mono [of s] simp: less_Suc_eq)
  from filesOk_head [OF this] show ?thesis using assms(2) by (simp add: RwSnapshot split_def Let_def)
next
  case (RwWritten i)
  then have "i < length (psInodes s)" using assms by (simp add: filesOk_def)
  then have "filesOk (s\<lparr>psFile := Some i\<rparr>)" using assms(1) unfolding filesOk_def by (auto intro: taskOk_mono [of s])
  from filesOk_head [OF this] show ?thesis using assms(2) by (simp add: RwWritten)
next
  case RwRenamed
  then have "psFile s \<noteq> None" using assms by (simp add: filesOk_def)
  then show ?thesis
    unfolding RwRenamed rewriteStep.simps finishRewrite_def by (intro filesOk_flags filesOk_pop [OF assms]) simp
qed

lemma filesOk_taskStep:
  assumes "filesOk s" and "taskStep s = Some s'"
  shows "filesOk s'"
proof -
  obtain t ts where q: "psQueue s = t # ts" using assms(2) by (auto simp: taskStep_def split: list.splits)
  show ?thesis
  proof (cases t)
    case (RewriteTask ensure phase)
    then show ?thesis using filesOk_rewriteStep [OF assms(1), of ensure phase ts] assms(2) q by (simp add: taskStep_def)
  next
    case (CloseTask begun)
    then have there: "psFile s \<noteq> None" using assms(1) q by (auto simp: filesOk_def)
    note head = filesOk_head [OF filesOk_closing(1) [OF assms(1)], of t ts "CloseTask True"]
    note pop = filesOk_pop [OF filesOk_closing(2) [OF assms(1)], of t ts]
    have swap: "(endClose s)\<lparr>psFlushed := True, psQueue := ts\<rparr> = ((endClose s)\<lparr>psQueue := ts\<rparr>)\<lparr>psFlushed := True\<rparr>"
      by (cases "endClose s") simp
    have "filesOk ((endClose s)\<lparr>psFlushed := True, psQueue := ts\<rparr>)"
      unfolding swap using pop q there by (intro filesOk_flags) (simp_all add: endClose_def)
    then show ?thesis
      using filesOk_pop [OF assms(1) q] head assms(2) q CloseTask there
      by (cases begun) (auto simp: taskStep_def beginClose_def split: if_splits)
  next
    case FlushTask
    then show ?thesis using filesOk_pop [OF assms(1) q] assms(2) q by (simp add: taskStep_def)
  qed
qed

lemma filesOk_failStep: "filesOk s \<Longrightarrow> failStep s = Some s' \<Longrightarrow> filesOk s'"
  using filesOk_pop filesOk_error by (auto simp: failStep_def split: list.splits)

lemma filesOk_ensureReturn: "filesOk s \<Longrightarrow> filesOk (ensureReturn s)"
  unfolding filesOk_def ensureReturn_def by (auto intro: taskOk_mono [of s])

lemma persist_reachable_files: "persist_reachable s \<Longrightarrow> filesOk s"
proof (induction rule: persist_reachable.induct)
  case (fresh h)
  show ?case by (simp add: filesOk_def freshFile_def startsWithHeader_def)
next
  case (loaded entries old migrated)
  then show ?case by (simp add: filesOk_def loadedFile_def)
next
  case (step s s')
  from step.hyps(2) step.IH show ?case
    by (cases rule: persist_step.cases) (auto intro: filesOk_operation filesOk_taskStep filesOk_failStep filesOk_ensureReturn)
qed

text \<open>C29 The session file is always readable. However appends, renamings, rewrites and failures interleave, the file, once it
  exists, begins with the header of the session and its entries are entries of the session in the order of the session.\<close>

theorem session_file_readable:
  assumes "persist_reachable s" and "fileContent s = Some fs"
  shows "startsWithHeader fs \<and> subseq (idsOf fs) (idsOf (psEntries s))"
proof -
  obtain i where "psFile s = Some i" "fs = psInodes s ! i" using assms(2) by (auto simp: fileContent_def)
  then have "fs \<in> set (psInodes s)" using persist_reachable_files [OF assms(1)] by (simp add: filesOk_def)
  then show ?thesis using persist_reachable_files [OF assms(1)] by (simp add: filesOk_def partOf_def)
qed

end
