(* ===== verification/Ses_Persist_Drain.thy ===== *)
theory Ses_Persist_Drain
  imports Ses_Persist_Facts
begin

text \<open>
  The runs in which no entry is added while the queue is at work, unless it queues a task of its own: in these the drained queue
  leaves every entry in the file. A run with an append in between shows how entries are lost.
\<close>

section \<open>Draining\<close>

fun taskWork :: "persist_task \<Rightarrow> nat" where
  "taskWork (RewriteTask en RwQueued) = 6"
| "taskWork (RewriteTask en RwClosing) = 5"
| "taskWork (RewriteTask en RwReady) = 4"
| "taskWork (RewriteTask en (RwSnapshot fs)) = 3"
| "taskWork (RewriteTask en (RwWritten i)) = 2"
| "taskWork (RewriteTask en RwRenamed) = 1"
| "taskWork (CloseTask begun) = (if begun then 1 else 2)"
| "taskWork FlushTask = 1"

definition workLeft :: "persist_state \<Rightarrow> nat" where
  "workLeft s = sum_list (map taskWork (psQueue s))"

fun drain :: "nat \<Rightarrow> persist_state \<Rightarrow> persist_state" where
  "drain 0 s = s"
| "drain (Suc n) s = (case taskStep s of None \<Rightarrow> s | Some s' \<Rightarrow> drain n s')"

lemma taskWork_pos [simp]: "0 < taskWork t" "taskWork t \<noteq> 0"
  by (cases t rule: taskWork.cases; simp)+

text \<open>A step of a task works on the files, the writer and the flags; the entries stay, and there is less to do.\<close>

lemma taskStep_progress:
  assumes "taskStep s = Some s'"
  shows "workLeft s' < workLeft s" and "psEntries s' = psEntries s" and "psError s' = psError s"
    and "psEnsured s' = psEnsured s" and "psNeedsRewrite s' \<Longrightarrow> psNeedsRewrite s"
proof -
  obtain t ts where q: "psQueue s = t # ts" using assms by (auto simp: taskStep_def split: list.splits)
  note defs = taskStep_def workLeft_def beginClose_def endClose_def finishRewrite_def Let_def split_def
  have "workLeft s' < workLeft s \<and> psEntries s' = psEntries s \<and> psError s' = psError s \<and> psEnsured s' = psEnsured s
    \<and> (psNeedsRewrite s' \<longrightarrow> psNeedsRewrite s)"
    using assms q by (cases t rule: taskWork.cases) (auto simp: defs split: if_splits)
  then show "workLeft s' < workLeft s" "psEntries s' = psEntries s" "psError s' = psError s"
    "psEnsured s' = psEnsured s" "psNeedsRewrite s' \<Longrightarrow> psNeedsRewrite s" by blast+
qed

lemma drain_ends: "workLeft s \<le> n \<Longrightarrow> psQueue (drain n s) = []"
proof (induction n arbitrary: s)
  case 0
  then show ?case by (cases "psQueue s") (auto simp: workLeft_def)
next
  case (Suc n)
  then show ?case using taskStep_progress(1)
    by (cases "taskStep s") (fastforce simp: taskStep_def split: list.splits)+
qed

section \<open>Quiet runs\<close>

definition quiet :: "persist_state \<Rightarrow> persist_state \<Rightarrow> bool" where
  "quiet s s' \<longleftrightarrow> psQueue s = [] \<or> psEntries s' = psEntries s \<or> length (psQueue s) < length (psQueue s')"

inductive quiet_reachable :: "persist_state \<Rightarrow> bool" where
  fresh: "quiet_reachable (freshFile h)"
| loaded: "startsWithHeader entries \<Longrightarrow> partOf entries old \<Longrightarrow> (\<not> migrated \<Longrightarrow> old = entries) \<Longrightarrow> quiet_reachable (loadedFile old entries migrated)"
| step: "quiet_reachable s \<Longrightarrow> persist_step s s' \<Longrightarrow> quiet s s' \<Longrightarrow> quiet_reachable s'"

lemma quiet_files: "quiet_reachable s \<Longrightarrow> filesOk s"
proof (induction rule: quiet_reachable.induct)
  case (step s s')
  from step.hyps(2) step.IH show ?case
    by (cases rule: persist_step.cases) (auto intro: filesOk_operation filesOk_taskStep filesOk_failStep filesOk_ensureReturn)
qed (auto intro: persist_reachable_files persist_reachable.intros)

text \<open>The entries are in the file, or the running rewrite has them, or a later one will take them.\<close>

fun phaseCovers :: "persist_state \<Rightarrow> rewrite_phase \<Rightarrow> bool" where
  "phaseCovers s (RwSnapshot fs) = (fs = psEntries s)"
| "phaseCovers s (RwWritten i) = (psInodes s ! i = psEntries s)"
| "phaseCovers s RwRenamed = (fileContent s = Some (psEntries s))"
| "phaseCovers s _ = True"

definition rewriteWaits :: "persist_task list \<Rightarrow> bool" where
  "rewriteWaits ts \<longleftrightarrow> (\<exists>en. RewriteTask en RwQueued \<in> set ts)"

definition headCovers :: "persist_state \<Rightarrow> persist_task list \<Rightarrow> bool" where
  "headCovers s ts \<longleftrightarrow>
     (case ts of RewriteTask en ph # _ \<Rightarrow> phaseCovers s ph | _ \<Rightarrow> fileContent s = Some (psEntries s))"

definition covered :: "persist_state \<Rightarrow> bool" where
  "covered s \<longleftrightarrow> rewriteWaits (tl (psQueue s)) \<or> headCovers s (psQueue s)"

fun waiting :: "persist_task \<Rightarrow> bool" where
  "waiting (RewriteTask en ph) \<longleftrightarrow> ph = RwQueued"
| "waiting (CloseTask begun) \<longleftrightarrow> \<not> begun"
| "waiting FlushTask \<longleftrightarrow> True"

fun pastClose :: "persist_task \<Rightarrow> bool" where
  "pastClose (RewriteTask en ph) \<longleftrightarrow> ph \<noteq> RwQueued \<and> ph \<noteq> RwClosing"
| "pastClose _ \<longleftrightarrow> False"

definition writerOk :: "persist_state \<Rightarrow> bool" where
  "writerOk s \<longleftrightarrow>
     list_all waiting (tl (psQueue s))
     \<and> (\<forall>w. psWriter s = Some w \<longrightarrow> psFile s = Some (pwInode w) \<and> (psEnsured s \<or> hasAssistant s))
     \<and> (\<forall>t ts. psQueue s = t # ts \<and> pastClose t \<longrightarrow> psWriter s = None)
     \<and> (\<forall>en ts. psQueue s = RewriteTask en RwClosing # ts \<longrightarrow> (\<exists>w. psWriter s = Some w \<and> pwClosing w))"

definition active :: "persist_state \<Rightarrow> bool" where
  "active s \<longleftrightarrow> (psFlushed s \<and> \<not> psNeedsRewrite s) \<or> psWriter s \<noteq> None \<or> (\<exists>t \<in> set (psQueue s). t \<noteq> FlushTask)"

definition rewriteQueued :: "persist_state \<Rightarrow> bool" where
  "rewriteQueued s \<longleftrightarrow> (\<exists>en ph. RewriteTask en ph \<in> set (psQueue s))"

definition quietOk :: "persist_state \<Rightarrow> bool" where
  "quietOk s \<longleftrightarrow> psError s \<or> (writerOk s \<and> (active s \<longrightarrow> covered s) \<and> (hasAssistant s \<longrightarrow> psFlushed s \<or> rewriteQueued s))"

section \<open>Operations in a quiet run\<close>

lemma isAssistantEntry_simps [simp]: "isAssistantEntry (HeaderEntry h) \<longleftrightarrow> False"
  by (simp add: isAssistantEntry_def)

lemma hasAssistant_title [simp]: "list_ex isAssistantEntry (setHeaderTitle n u es) = list_ex isAssistantEntry es"
  by (induction n u es rule: setHeaderTitle.induct) simp_all

lemma covered_rewriteFile: "covered (rewriteFile en s)"
  by (cases "psQueue s") (auto simp: covered_def rewriteFile_def queueTask_def rewriteWaits_def headCovers_def)

lemma phaseCovers_other:
  "psEntries s' = psEntries s \<Longrightarrow> psInodes s' = psInodes s \<Longrightarrow> psFile s' = psFile s \<Longrightarrow> phaseCovers s' ph = phaseCovers s ph"
  by (cases ph) (simp_all add: fileContent_def)

lemma headCovers_other:
  "psEntries s' = psEntries s \<Longrightarrow> psInodes s' = psInodes s \<Longrightarrow> psFile s' = psFile s \<Longrightarrow> headCovers s' ts = headCovers s ts"
  using phaseCovers_other [of s' s]
  by (cases ts) (simp_all add: headCovers_def fileContent_def split: persist_task.splits)

lemma headCovers_snoc: "waiting t \<Longrightarrow> headCovers s ts \<Longrightarrow> headCovers s (ts @ [t])"
  by (cases ts; cases t) (simp_all add: headCovers_def)

lemma covered_queueTask:
  assumes "covered s" and "waiting t"
  shows "covered (queueTask t s)"
proof -
  have "headCovers (queueTask t s) ts = headCovers s ts" for ts by (intro headCovers_other) (simp_all add: queueTask_def)
  moreover have "rewriteWaits (tl (psQueue s)) \<Longrightarrow> rewriteWaits (tl (psQueue s @ [t]))"
    by (cases "psQueue s") (auto simp: rewriteWaits_def)
  ultimately show ?thesis using assms headCovers_snoc [of t s "psQueue s"] by (auto simp: covered_def queueTask_def)
qed

lemma writerOk_queueTask: "writerOk s \<Longrightarrow> waiting t \<Longrightarrow> writerOk (queueTask t s)"
  by (cases "psQueue s"; cases t) (auto simp: writerOk_def queueTask_def hasAssistant_def)

lemma writerOk_entries:
  assumes "writerOk s" and "list_ex isAssistantEntry (psEntries s) \<Longrightarrow> list_ex isAssistantEntry es"
  shows "writerOk (s\<lparr>psEntries := es\<rparr>)"
  using assms unfolding writerOk_def hasAssistant_def by auto

lemma quietOk_rewriteFile:
  assumes "writerOk s \<or> psError s"
  shows "quietOk (rewriteFile en s)"
  using assms writerOk_queueTask [of s "RewriteTask en RwQueued"] covered_rewriteFile [of en s]
  by (auto simp: quietOk_def rewriteFile_def queueTask_def rewriteQueued_def)

lemma quietOk_queueTask:
  assumes "quietOk s" and "waiting t" and "t = FlushTask \<or> active s"
  shows "quietOk (queueTask t s)"
proof -
  have "active (queueTask t s) \<Longrightarrow> active s" using assms(3) by (auto simp: active_def queueTask_def)
  then show ?thesis
    using assms covered_queueTask [of s t] writerOk_queueTask [of s t]
    by (auto simp: quietOk_def queueTask_def rewriteQueued_def hasAssistant_def)
qed

text \<open>A line goes to the file and to the entries.\<close>

lemma quietOk_append:
  assumes "quietOk s" and "filesOk s" and "quiet s s'" and "s' = persistOp (AppendOp fails e) s"
  shows "quietOk s'"
proof (cases "psError s")
  case True
  then show ?thesis using assms(4) by (simp add: persistEntry_def quietOk_def)
next
  case False
  let ?s = "s\<lparr>psEntries := psEntries s @ [FileEntry e]\<rparr>"
  have ok: "writerOk ?s" using assms(1) False by (intro writerOk_entries) (auto simp: quietOk_def)
  have there: "psFlushed ?s \<Longrightarrow> psFile ?s \<noteq> None" using assms(2) by (simp add: filesOk_def)
  have s': "s' = snd (persistEntry fails (FileEntry e) ?s)" using assms(4) by simp
  show ?thesis
  proof (rule persistEntry_cases [OF there, of fails "FileEntry e"])
    assume "snd (persistEntry fails (FileEntry e) ?s) = rewriteFile False ?s"
    then show ?thesis using ok s' quietOk_rewriteFile by simp
  next
    assume waits: "\<not> psEnsured ?s" "\<not> hasAssistant ?s" "snd (persistEntry fails (FileEntry e) ?s) = ?s\<lparr>psFlushed := False\<rparr>"
    then have "psQueue s = []" "s' = ?s\<lparr>psFlushed := False\<rparr>" using assms(3) s' by (auto simp: quiet_def)
    moreover have "psWriter s = None" using ok waits(1,2) by (auto simp: writerOk_def)
    ultimately show ?thesis using ok waits(2) by (auto simp: quietOk_def active_def writerOk_def hasAssistant_def)
  next
    fix w assume hot: "hotWriter ?s w" "snd (persistEntry fails (FileEntry e) ?s) = writeLine (pwInode w) (FileEntry e) (?s\<lparr>psWriter := Some w\<rparr>)"
    then have new: "s' = writeLine (pwInode w) (FileEntry e) (?s\<lparr>psWriter := Some w\<rparr>)" using s' by simp
    then have queue: "psQueue s = []" using assms(3) by (auto simp: quiet_def writeLine_def)
    then have "covered s" using assms(1) False hot(1) by (auto simp: quietOk_def active_def hotWriter_def)
    then have content: "fileContent s = Some (psEntries s)" using queue by (simp add: covered_def headCovers_def rewriteWaits_def)
    have inode: "psFile s = Some (pwInode w)" using hot(1) ok by (auto simp: hotWriter_def writerOk_def)
    then have "psInodes s ! pwInode w = psEntries s" "pwInode w < length (psInodes s)"
      using content assms(2) by (auto simp: fileContent_def filesOk_def)
    then have "fileContent s' = Some (psEntries s')" using new inode by (simp add: fileContent_def writeLine_def)
    then show ?thesis
      using queue new inode hot(1) by (auto simp: quietOk_def covered_def headCovers_def rewriteWaits_def writerOk_def writeLine_def hotWriter_def hasAssistant_def)
  qed (use s' in \<open>simp_all add: quietOk_def\<close>)
qed

lemma quietOk_operation:
  assumes "quietOk s" and "filesOk s" and "quiet s (persistOp p s)"
  shows "quietOk (persistOp p s)"
proof (cases p)
  case (AppendOp fails e)
  then show ?thesis using quietOk_append [OF assms] by simp
next
  case (TitleOp name byUser)
  let ?s = "s\<lparr>psEntries := setHeaderTitle name byUser (psEntries s)\<rparr>"
  have ok: "writerOk ?s \<or> psError ?s" using assms(1) by (auto simp: quietOk_def intro: writerOk_entries)
  show ?thesis
  proof (cases "psFile s = None")
    case True
    then have idle: "\<not> psFlushed s" "psWriter s = None" using assms(2) by (auto simp: filesOk_def)
    have same: "persistOp p s = ?s" using TitleOp True by (simp add: Let_def)
    show ?thesis
    proof (cases "psEntries ?s = psEntries s")
      case True
      then show ?thesis using assms(1) same by simp
    next
      case False
      then have "psQueue s = []" using assms(3) same by (auto simp: quiet_def)
      then show ?thesis using ok assms(1) idle unfolding same by (auto simp: quietOk_def active_def rewriteQueued_def hasAssistant_def)
    qed
  next
    case False
    then show ?thesis using ok quietOk_rewriteFile [of ?s False] by (simp add: TitleOp Let_def)
  qed
next
  case CloseOp
  then show ?thesis using assms(1) quietOk_queueTask [OF assms(1), of "CloseTask False"] by (auto simp: active_def)
next
  case FlushOp
  then show ?thesis using quietOk_queueTask [OF assms(1), of FlushTask] by simp
qed (use assms(1) in \<open>auto simp: quietOk_def intro!: quietOk_rewriteFile [unfolded quietOk_def]\<close>)

section \<open>Tasks in a quiet run\<close>

text \<open>The queue after its head is done.\<close>

lemma covered_pop:
  assumes "list_all waiting ts" and "rewriteWaits ts \<or> fileContent s = Some (psEntries s)" and "psQueue s = ts"
  shows "covered s"
proof (cases ts)
  case Nil
  then show ?thesis using assms by (simp add: covered_def headCovers_def rewriteWaits_def)
next
  case (Cons t us)
  then show ?thesis using assms by (cases t) (auto simp: covered_def headCovers_def rewriteWaits_def)
qed

lemma writerOk_pop:
  assumes "list_all waiting (psQueue s)"
    and "\<forall>w. psWriter s = Some w \<longrightarrow> psFile s = Some (pwInode w) \<and> (psEnsured s \<or> hasAssistant s)"
  shows "writerOk s"
proof (cases "psQueue s")
  case (Cons t ts)
  then show ?thesis using assms by (cases t) (auto simp: writerOk_def)
qed (use assms in \<open>simp add: writerOk_def\<close>)

text \<open>The queue after a step of its head.\<close>

lemma covered_head:
  assumes "psQueue s = RewriteTask en ph # ts" and "rewriteWaits ts \<or> phaseCovers s ph"
  shows "covered s"
  using assms by (simp add: covered_def headCovers_def)

lemma quietOk_rewriteStep:
  assumes "writerOk s" and "covered s" and "filesOk s" and "psQueue s = RewriteTask en ph # ts" and "\<not> psError s"
  shows "writerOk (rewriteStep en ph ts s) \<and> covered (rewriteStep en ph ts s)
    \<and> (psFlushed (rewriteStep en ph ts s) \<or> rewriteQueued (rewriteStep en ph ts s))"
proof -
  have ts: "list_all waiting ts" using assms(1,4) by (simp add: writerOk_def)
  have cov: "rewriteWaits ts \<or> phaseCovers s ph" using assms(2,4) by (simp add: covered_def headCovers_def)
  have durable: "\<forall>w. psWriter s = Some w \<longrightarrow> psFile s = Some (pwInode w) \<and> (psEnsured s \<or> hasAssistant s)"
    using assms(1) by (simp add: writerOk_def)
  have none: "psWriter s = None" if "pastClose (RewriteTask en ph)" using assms(1,4) that by (simp add: writerOk_def)
  show ?thesis
  proof (cases ph)
    case RwQueued
    then show ?thesis
      using ts durable assms(5)
      by (auto simp: writerOk_def beginClose_def rewriteQueued_def hasAssistant_def intro!: covered_head)
  next
    case RwClosing
    obtain w where "psWriter s = Some w" "pwClosing w" using assms(1,4) RwClosing by (auto simp: writerOk_def)
    then show ?thesis
      using ts RwClosing by (auto simp: writerOk_def endClose_def rewriteQueued_def intro!: covered_head)
  next
    case RwReady
    then show ?thesis using ts none by (auto simp: writerOk_def rewriteQueued_def intro!: covered_head)
  next
    case (RwSnapshot fs)
    then show ?thesis
      using ts none cov by (auto simp: writerOk_def rewriteQueued_def Let_def split_def intro!: covered_head)
  next
    case (RwWritten i)
    then show ?thesis
      using ts none cov by (auto simp: writerOk_def rewriteQueued_def fileContent_def intro!: covered_head)
  next
    case RwRenamed
    let ?s = "finishRewrite en (s\<lparr>psQueue := ts\<rparr>)"
    have "covered ?s" using ts cov RwRenamed by (intro covered_pop [of ts]) (auto simp: finishRewrite_def fileContent_def)
    moreover have "writerOk ?s" using ts none RwRenamed by (intro writerOk_pop) (simp_all add: finishRewrite_def)
    ultimately show ?thesis using RwRenamed by (simp add: finishRewrite_def)
  qed
qed

lemma quietOk_taskStep:
  assumes "quietOk s" and "filesOk s" and "taskStep s = Some s'"
  shows "quietOk s'"
proof (cases "psError s")
  case True
  then show ?thesis using taskStep_progress(3) [OF assms(3)] by (simp add: quietOk_def)
next
  case False
  then have ok: "writerOk s" "active s \<longrightarrow> covered s" "hasAssistant s \<longrightarrow> psFlushed s \<or> rewriteQueued s"
    using assms(1) by (auto simp: quietOk_def)
  obtain t ts where q: "psQueue s = t # ts" using assms(3) by (auto simp: taskStep_def split: list.splits)
  have ts: "list_all waiting ts" using ok(1) q by (simp add: writerOk_def)
  have durable: "\<forall>w. psWriter s = Some w \<longrightarrow> psFile s = Some (pwInode w) \<and> (psEnsured s \<or> hasAssistant s)"
    using ok(1) by (simp add: writerOk_def)
  show ?thesis
  proof (cases t)
    case (RewriteTask en ph)
    then have "covered s" using ok(2) q by (auto simp: active_def)
    then show ?thesis
      using quietOk_rewriteStep [OF ok(1) _ assms(2), of en ph ts] q RewriteTask False assms(3) by (simp add: taskStep_def quietOk_def)
  next
    case (CloseTask begun)
    then have "covered s" using ok(2) q by (auto simp: active_def)
    then have cov: "rewriteWaits ts \<or> fileContent s = Some (psEntries s)" using q CloseTask by (simp add: covered_def headCovers_def)
    show ?thesis
    proof (cases begun)
      case True
      let ?s = "(endClose s)\<lparr>psFlushed := True, psQueue := ts\<rparr>"
      have "covered ?s" using ts cov by (intro covered_pop [of ts]) (auto simp: endClose_def fileContent_def)
      moreover have "writerOk ?s"
        using ts durable by (intro writerOk_pop) (auto simp: endClose_def hasAssistant_def split: option.splits)
      ultimately have "quietOk ?s" by (simp add: quietOk_def)
      then show ?thesis using assms(3) q CloseTask True by (simp add: taskStep_def)
    next
      case begun: False
      let ?s = "(beginClose s)\<lparr>psQueue := CloseTask True # ts\<rparr>"
      have "covered ?s" using cov by (auto simp: covered_def headCovers_def beginClose_def fileContent_def)
      moreover have "writerOk ?s" using ts durable by (auto simp: writerOk_def beginClose_def hasAssistant_def)
      moreover have "rewriteQueued ?s = rewriteQueued s" using q CloseTask by (auto simp: rewriteQueued_def)
      ultimately have "quietOk ?s" using ok(3) by (auto simp: quietOk_def beginClose_def hasAssistant_def)
      then show ?thesis using assms(3) q CloseTask begun False by (simp add: taskStep_def)
    qed
  next
    case FlushTask
    let ?s = "s\<lparr>psQueue := ts\<rparr>"
    have "covered ?s" if "active s"
      using ts ok(2) that q FlushTask by (intro covered_pop [of ts]) (auto simp: covered_def headCovers_def fileContent_def)
    moreover have "active ?s \<Longrightarrow> active s" using q by (auto simp: active_def)
    moreover have "writerOk ?s" using ts durable by (intro writerOk_pop) (auto simp: hasAssistant_def)
    moreover have "rewriteQueued ?s = rewriteQueued s" using q FlushTask by (auto simp: rewriteQueued_def)
    ultimately show ?thesis using assms(3) q FlushTask ok(3) by (auto simp: taskStep_def quietOk_def hasAssistant_def)
  qed
qed

lemma quietOk_ensureReturn:
  assumes "quietOk s"
  shows "quietOk (ensureReturn s)"
proof -
  have "covered (ensureReturn s) = covered s"
    using headCovers_other [of "ensureReturn s" s] by (simp add: covered_def ensureReturn_def)
  moreover have "active (ensureReturn s) = active s" by (simp add: active_def ensureReturn_def)
  moreover have "writerOk s \<Longrightarrow> writerOk (ensureReturn s)" by (auto simp: writerOk_def ensureReturn_def hasAssistant_def)
  moreover have "rewriteQueued (ensureReturn s) = rewriteQueued s" "psError (ensureReturn s) = psError s"
    "psFlushed (ensureReturn s) = psFlushed s" "hasAssistant (ensureReturn s) = hasAssistant s"
    by (simp_all add: rewriteQueued_def ensureReturn_def hasAssistant_def)
  ultimately show ?thesis using assms unfolding quietOk_def by blast
qed

lemma quiet_reachable_ok: "quiet_reachable s \<Longrightarrow> quietOk s"
proof (induction rule: quiet_reachable.induct)
  case (fresh h)
  show ?case by (simp add: quietOk_def freshFile_def writerOk_def active_def hasAssistant_def)
next
  case (loaded entries old migrated)
  then show ?case
    by (auto simp: quietOk_def loadedFile_def writerOk_def active_def covered_def headCovers_def rewriteWaits_def fileContent_def)
next
  case (step s s')
  note ok = step.IH quiet_files [OF step.hyps(1)]
  from step.hyps(2) show ?case
  proof (cases rule: persist_step.cases)
    case (operation p)
    then show ?thesis using quietOk_operation [OF ok] step.hyps(3) by blast
  next
    case task
    then show ?thesis by (rule quietOk_taskStep [OF ok])
  next
    case failure
    then show ?thesis by (auto simp: failStep_def quietOk_def split: list.splits)
  next
    case ensured
    then show ?thesis using quietOk_ensureReturn [OF ok(1)] by simp
  qed
qed

section \<open>What is on disk\<close>

lemma drain_invariants:
  assumes "quiet_reachable s"
  shows "quiet_reachable (drain n s) \<and> psEntries (drain n s) = psEntries s \<and> psError (drain n s) = psError s
    \<and> (psNeedsRewrite (drain n s) \<longrightarrow> psNeedsRewrite s)"
  using assms
proof (induction n arbitrary: s)
  case (Suc n)
  show ?case
  proof (cases "taskStep s")
    case (Some s')
    note progress = taskStep_progress [OF Some]
    have "quiet_reachable s'"
      by (rule quiet_reachable.step [OF Suc.prems persist_step.task [OF Some]]) (simp add: quiet_def progress(2))
    from Suc.IH [OF this] show ?thesis using progress(2,3,5) by (simp add: Some)
  qed (use Suc.prems in simp)
qed simp

text \<open>C30 What was appended reaches the file. In a session with an assistant message and without an error, as long as entries are added
  only while no task is pending or with a rewrite of their own, the pending tasks end and leave every entry of the session, in
  order, in the file.\<close>

theorem quiet_session_reaches_disk:
  assumes "quiet_reachable s" and "hasAssistant s" and "\<not> psError s" and "\<not> psNeedsRewrite s"
  defines "s' \<equiv> drain (workLeft s) s"
  shows "psQueue s' = [] \<and> \<not> psError s' \<and> psEntries s' = psEntries s \<and> fileContent s' = Some (psEntries s)"
proof -
  note drained = drain_invariants [OF assms(1), of "workLeft s", folded s'_def]
  have queue: "psQueue s' = []" unfolding s'_def by (rule drain_ends) simp
  have "quietOk s'" using quiet_reachable_ok drained by blast
  then have ok: "active s' \<longrightarrow> covered s'" "hasAssistant s' \<longrightarrow> psFlushed s'"
    using drained assms(3) queue by (auto simp: quietOk_def rewriteQueued_def)
  then have "active s'" using drained assms(2,4) by (auto simp: active_def hasAssistant_def)
  then have "fileContent s' = Some (psEntries s')" using ok(1) queue by (simp add: covered_def headCovers_def rewriteWaits_def)
  then show ?thesis using queue drained assms(3) by simp
qed

section \<open>An append during a rewrite\<close>

text \<open>A run as a list of operations, \<open>None\<close> being a step of the running task.\<close>

fun runPersist :: "persist_op option list \<Rightarrow> persist_state \<Rightarrow> persist_state" where
  "runPersist [] s = s"
| "runPersist (Some p # ps) s = runPersist ps (persistOp p s)"
| "runPersist (None # ps) s = runPersist ps (case taskStep s of Some s' \<Rightarrow> s' | None \<Rightarrow> s)"

lemma runPersist_reachable: "persist_reachable s \<Longrightarrow> persist_reachable (runPersist ps s)"
proof (induction ps s rule: runPersist.induct)
  case (2 p ps s)
  then show ?case using persist_reachable.step [OF 2(2) persist_step.operation] by simp
next
  case (3 ps s)
  then show ?case using persist_reachable.step [OF 3(2) persist_step.task] by (cases "taskStep s") simp_all
qed simp

text \<open>When the writer is left on a file without a name, no line that follows reaches the session file.\<close>

definition staleWriter :: "persist_state \<Rightarrow> bool" where
  "staleWriter s \<longleftrightarrow>
     psFlushed s \<and> \<not> psNeedsRewrite s \<and> \<not> psError s \<and> psQueue s = [] \<and> (psEnsured s \<or> hasAssistant s)
     \<and> (case psWriter s of Some w \<Rightarrow> \<not> pwClosing w \<and> psFile s \<noteq> Some (pwInode w) | None \<Rightarrow> False)"

lemma staleWriter_append:
  assumes "staleWriter s"
  shows "staleWriter (persistOp (AppendOp False e) s) \<and> fileContent (persistOp (AppendOp False e) s) = fileContent s"
proof -
  obtain w where w: "psWriter s = Some w" "\<not> pwClosing w" "psFile s \<noteq> Some (pwInode w)"
    using assms by (auto simp: staleWriter_def split: option.splits)
  let ?s = "s\<lparr>psEntries := psEntries s @ [FileEntry e]\<rparr>"
  have durable: "psEnsured ?s \<or> hasAssistant ?s" using assms by (auto simp: staleWriter_def hasAssistant_def)
  then have "persistOp (AppendOp False e) s = writeLine (pwInode w) (FileEntry e) ?s"
    using assms w(1,2) by (auto simp: staleWriter_def persistEntry_def ensurePersistWriter_def)
  moreover have "fileContent (writeLine (pwInode w) (FileEntry e) ?s) = fileContent s"
    using w(3) by (cases "psFile s") (simp_all add: fileContent_def writeLine_def nth_list_update_neq)
  moreover have "staleWriter (writeLine (pwInode w) (FileEntry e) ?s)"
    using assms w durable by (simp add: staleWriter_def writeLine_def hasAssistant_def)
  ultimately show ?thesis by simp
qed

lemma staleWriter_appends:
  "staleWriter s \<Longrightarrow> staleWriter (runPersist (map (\<lambda>e. Some (AppendOp False e)) es) s)
     \<and> fileContent (runPersist (map (\<lambda>e. Some (AppendOp False e)) es) s) = fileContent s"
proof (induction es arbitrary: s)
  case (Cons e es)
  then show ?case using staleWriter_append [OF Cons.prems, of e] by (simp del: persistOp.simps)
qed simp

definition lineEntry :: "string \<Rightarrow> string \<Rightarrow> agent_message \<Rightarrow> session_entry" where
  "lineEntry i p m = \<lparr>enId = js i, enParent = (if p = [] then None else Some (js p)), enTime = 0, enBody = MessageEntry m\<rparr>"

definition turnOf :: agent_message where
  "turnOf = AssistantMessage
     \<lparr>amContent = [], amProvider = [], amModel = [], amUsage = \<lparr>usInput = 0, usOutput = 0, usCacheRead = 0, usCacheWrite = 0,
      usTotalTokens = 0, usPremiumRequests = None, usCost = NumFin 0\<rparr>, amStopReason = StopDone,
      amErrorMessage = None\<rparr>"

definition demoHeader :: session_header where
  "demoHeader = \<lparr>shVersion = Some 3, shId = js ''s'', shTitle = None, shTitleByUser = None, shTime = 0, shCwd = [], shParentSession = None\<rparr>"

text \<open>An assistant message is appended and, before its rewrite ends, another entry, which queues a second rewrite. While that one has
  written its new file but not renamed it, the third entry comes.\<close>

definition losingRun :: "persist_op option list" where
  "losingRun =
     [Some (AppendOp False (lineEntry ''a'' [] turnOf)), None, None,
      Some (AppendOp False (lineEntry ''b'' ''a'' (UserMessage (StringContent [])))), None, None, None, None, None, None,
      Some (AppendOp False (lineEntry ''c'' ''b'' turnOf)), None, None]"

text \<open>C31 Entries can be lost for good. Appends alone, in a run without an error, lead to a state in which nothing is pending, the file
  counts as written and yet lacks an entry; whatever is appended from then on is not written to the session file either.\<close>

theorem entries_lost_for_good:
  "\<exists>s. persist_reachable s \<and> \<not> psError s \<and> psFlushed s \<and> psQueue s = []
     \<and> map_option idsOf (fileContent s) = Some [js ''s'', js ''a'', js ''b'']
     \<and> idsOf (psEntries s) = [js ''s'', js ''a'', js ''b'', js ''c'']
     \<and> (\<forall>es. let s' = runPersist (map (\<lambda>e. Some (AppendOp False e)) es) s in
          fileContent s' = fileContent s \<and> \<not> psError s' \<and> psFlushed s' \<and> psQueue s' = [])"
proof -
  let ?s = "runPersist losingRun (freshFile demoHeader)"
  have "persist_reachable ?s" by (intro runPersist_reachable persist_reachable.fresh)
  moreover have stale: "staleWriter ?s" by code_simp
  moreover have "map_option idsOf (fileContent ?s) = Some [js ''s'', js ''a'', js ''b'']"
    "idsOf (psEntries ?s) = [js ''s'', js ''a'', js ''b'', js ''c'']" by code_simp+
  moreover have "\<not> psError t \<and> psFlushed t \<and> psQueue t = []" if "staleWriter t" for t
    using that by (simp add: staleWriter_def)
  ultimately show ?thesis using staleWriter_appends [OF stale] unfolding Let_def by blast
qed

text \<open>The same entries one after the other, the queue drained in between.\<close>

definition patientRun :: "persist_op option list" where
  "patientRun =
     [Some (AppendOp False (lineEntry ''a'' [] turnOf)), None, None, None, None, None,
      Some (AppendOp False (lineEntry ''b'' ''a'' (UserMessage (StringContent [])))),
      Some (TitleOp (js ''name'') False), None, None]"

fun allQuiet :: "persist_op option list \<Rightarrow> persist_state \<Rightarrow> bool" where
  "allQuiet [] s \<longleftrightarrow> True"
| "allQuiet (Some p # ps) s \<longleftrightarrow> quiet s (persistOp p s) \<and> allQuiet ps (persistOp p s)"
| "allQuiet (None # ps) s \<longleftrightarrow> (case taskStep s of Some s' \<Rightarrow> quiet s s' \<and> allQuiet ps s' | None \<Rightarrow> allQuiet ps s)"

lemma runPersist_quiet: "quiet_reachable s \<Longrightarrow> allQuiet ps s \<Longrightarrow> quiet_reachable (runPersist ps s)"
proof (induction ps s rule: runPersist.induct)
  case (2 p ps s)
  then show ?case using quiet_reachable.step [OF 2(2) persist_step.operation] by simp
next
  case (3 ps s)
  then show ?case using quiet_reachable.step [OF 3(2) persist_step.task] by (cases "taskStep s") simp_all
qed simp

lemma quiet_session_reaches_disk_witness:
  "let s = runPersist patientRun (freshFile demoHeader) in
     psQueue s \<noteq> [] \<and> fileContent (drain (workLeft s) s) = Some (psEntries s)"
proof -
  let ?s = "runPersist patientRun (freshFile demoHeader)"
  have quiet: "allQuiet patientRun (freshFile demoHeader)" by code_simp
  have facts: "hasAssistant ?s" "\<not> psError ?s" "\<not> psNeedsRewrite ?s" "psQueue ?s \<noteq> []" by code_simp+
  show ?thesis
    using quiet_session_reaches_disk [OF runPersist_quiet [OF quiet_reachable.fresh quiet] facts(1-3)] facts(4) by (simp add: Let_def)
qed

lemma session_file_readable_witness:
  "let s = runPersist losingRun (freshFile demoHeader) in \<exists>fs. fileContent s = Some fs \<and> startsWithHeader fs \<and> subseq (idsOf fs) (idsOf (psEntries s))"
proof -
  let ?s = "runPersist losingRun (freshFile demoHeader)"
  have "fileContent ?s \<noteq> None" by code_simp
  then obtain fs where "fileContent ?s = Some fs" by blast
  then show ?thesis
    using session_file_readable [OF runPersist_reachable [OF persist_reachable.fresh]] unfolding Let_def by blast
qed

end
