(* ===== verification/Ag_Types.thy ===== *)
theory Ag_Types
  imports Ses_Entries
begin

text \<open>
  What the agent loop (packages/agent/src/agent-loop.ts and types.ts) works with: tools, their results, the events it sends, and
  the functions that prepare messages and tool schemas for the provider. A tool is known by its names and flags; what it does
  when it is called is an answer of the world (\<open>tool_hooks\<close>), as are the hooks around it, the validation of arguments and the
  removal of terminal sequences from a text, which the runtime does. An error is its message.
\<close>

section \<open>Tools and results\<close>

record agent_tool =
  atName :: jstring
  atWireName :: "jstring option"
  atExclusive :: bool
  atLenient :: bool

record tool_outcome =
  trContent :: "content_block list"
  trDetails :: js_val
  trIsError :: "bool option"

datatype agent_event =
    AgentStart
  | AgentEnd "agent_message list"
  | TurnStart
  | TurnEnd assistant_message "tool_result list"
  | MessageStart agent_message
  | MessageUpdate agent_message
  | MessageEnd agent_message
  | ToolStart jstring jstring js_obj "jstring option"
  | ToolUpdate jstring jstring js_obj tool_outcome
  | ToolEnd jstring jstring tool_outcome bool

text \<open>The messages that events report as complete.\<close>

definition endedMessages :: "agent_event list \<Rightarrow> agent_message list" where
  "endedMessages evs = List.map_filter (\<lambda>e. case e of MessageEnd m \<Rightarrow> Some m | _ \<Rightarrow> None) evs"

lemma endedMessages_simps [simp]:
  "endedMessages [] = []" "endedMessages (xs @ ys) = endedMessages xs @ endedMessages ys"
  "endedMessages (AgentStart # evs) = endedMessages evs" "endedMessages (AgentEnd ms # evs) = endedMessages evs"
  "endedMessages (TurnStart # evs) = endedMessages evs" "endedMessages (TurnEnd a rs # evs) = endedMessages evs"
  "endedMessages (MessageStart m # evs) = endedMessages evs" "endedMessages (MessageUpdate m # evs) = endedMessages evs"
  "endedMessages (MessageEnd m # evs) = m # endedMessages evs"
  "endedMessages (ToolStart i n args t # evs) = endedMessages evs"
  "endedMessages (ToolUpdate i n args r # evs) = endedMessages evs" "endedMessages (ToolEnd i n r b # evs) = endedMessages evs"
  by (simp_all add: endedMessages_def map_filter_def)

definition toolCallsOf :: "assistant_message \<Rightarrow> tool_call list" where
  "toolCallsOf m = List.map_filter (\<lambda>b. case b of CallBlock c \<Rightarrow> Some c | _ \<Rightarrow> None) (amContent m)"

definition plainText :: "jstring \<Rightarrow> content_block list" where
  "plainText t = [TextBlock t None]"

text \<open>\<open>getTaskToolUsage\<close> takes whatever object it finds for the usage; \<open>asUsage\<close> reads it.\<close>

fun isObjectValue :: "js_val \<Rightarrow> bool" where
  "isObjectValue (JObj p) = True"
| "isObjectValue (JArr vs) = True"
| "isObjectValue v = False"

definition getTaskToolUsage :: "(js_val \<Rightarrow> token_usage) \<Rightarrow> js_val \<Rightarrow> token_usage option" where
  "getTaskToolUsage asUsage details =
     (case details of
        JObj p \<Rightarrow> (let usage = objGet p (js ''usage'') in if isObjectValue usage then Some (asUsage usage) else None)
      | _ \<Rightarrow> None)"

section \<open>Raw results\<close>

fun toBoolean :: "js_val \<Rightarrow> bool" where
  "toBoolean JUndef = False"
| "toBoolean JNull = False"
| "toBoolean (JBool b) = b"
| "toBoolean (JNum n) = (n \<noteq> NumNaN \<and> n \<noteq> NumFin 0)"
| "toBoolean (JStr t) = (t \<noteq> [])"
| "toBoolean v = True"

definition coerceBlock :: "(jstring \<Rightarrow> jstring) \<Rightarrow> js_val \<Rightarrow> content_block option" where
  "coerceBlock sanitize block =
     (case block of
        JObj p \<Rightarrow>
          (case (objGet p (js ''type''), objGet p (js ''text''), objGet p (js ''data''), objGet p (js ''mimeType'')) of
             (JStr ty, t, d, mime) \<Rightarrow>
               if ty = js ''text'' then (case t of JStr x \<Rightarrow> Some (TextBlock (sanitize x) None) | _ \<Rightarrow> None)
               else if ty = js ''image'' then (case (d, mime) of (JStr x, JStr y) \<Rightarrow> Some (ImageBlock x y) | _ \<Rightarrow> None)
               else None
           | _ \<Rightarrow> None)
      | _ \<Rightarrow> None)"

text \<open>The result and whether the tool broke its contract.\<close>

definition coerceToolResult :: "(jstring \<Rightarrow> jstring) \<Rightarrow> js_val \<Rightarrow> tool_outcome \<times> bool" where
  "coerceToolResult sanitize raw =
     (let p = (case raw of JObj p \<Rightarrow> p | _ \<Rightarrow> []);
          details = (if mapHas p (js ''details'') then objGet p (js ''details'') else JObj []);
          explicitError = mapHas p (js ''isError'') \<and> toBoolean (objGet p (js ''isError'')) in
      case objGet p (js ''content'') of
        JArr blocks \<Rightarrow>
          (\<lparr>trContent = List.map_filter (coerceBlock sanitize) blocks, trDetails = details,
            trIsError = (if explicitError then Some True else None)\<rparr>, False)
      | _ \<Rightarrow>
          (\<lparr>trContent = plainText (js ''Tool returned an invalid result: missing content array.''), trDetails = details,
            trIsError = Some True\<rparr>, True))"

definition errorOutcome :: "jstring \<Rightarrow> tool_outcome" where
  "errorOutcome t = \<lparr>trContent = plainText t, trDetails = JObj [], trIsError = None\<rparr>"

definition createSkippedToolResult :: tool_outcome where
  "createSkippedToolResult = errorOutcome (js ''Skipped due to queued user message.'')"

section \<open>The intent of a call\<close>

definition INTENT_FIELD :: jstring where "INTENT_FIELD = js ''_i''"

definition extractIntent :: "js_obj \<Rightarrow> jstring option \<times> js_obj" where
  "extractIntent args =
     (let stripped = mapDelete INTENT_FIELD args in
      case objGet args INTENT_FIELD of
        JStr intent \<Rightarrow> (if trim intent = [] then None else Some (trim intent), stripped)
      | _ \<Rightarrow> (None, stripped))"

datatype intent_mode = IntentRequire | IntentOptional | IntentOmit

text \<open>The schema of a tool gets the field first, and among the required ones if it is.\<close>

definition requiredOf :: "js_obj \<Rightarrow> js_val list" where
  "requiredOf schema =
     (case objGet schema (js ''required'') of
        JArr vs \<Rightarrow> filter (\<lambda>v. case v of JStr t \<Rightarrow> True | _ \<Rightarrow> False) vs
      | _ \<Rightarrow> [])"

definition propertiesOf :: "js_obj \<Rightarrow> js_obj" where
  "propertiesOf schema = (case objGet schema (js ''properties'') of JObj p \<Rightarrow> p | _ \<Rightarrow> [])"

definition injectIntentIntoSchema :: "js_val \<Rightarrow> intent_mode \<Rightarrow> js_val" where
  "injectIntentIntoSchema schema mode =
     (case schema of
        JObj record \<Rightarrow>
          (let properties = propertiesOf record; required = requiredOf record; withIntent = required @ [JStr INTENT_FIELD] in
           if mapHas properties INTENT_FIELD then
             let needsReorder = map fst (take 1 (objEntries properties)) \<noteq> [INTENT_FIELD];
                 needsRequired = mode = IntentRequire \<and> JStr INTENT_FIELD \<notin> set required;
                 reordered = (if needsReorder
                   then mapSet (js ''properties'')
                     (JObj ((INTENT_FIELD, objGet properties INTENT_FIELD) # mapDelete INTENT_FIELD properties)) record
                   else record) in
             JObj (if needsRequired then mapSet (js ''required'') (JArr withIntent) reordered else reordered)
           else
             let injected = mapSet (js ''properties'')
                   (JObj ((INTENT_FIELD, JObj [(js ''type'', JStr (js ''string''))]) # properties)) record in
             JObj (if mode = IntentRequire then mapSet (js ''required'') (JArr withIntent) injected else injected))
      | v \<Rightarrow> v)"

text \<open>The parameters of a tool as \<open>normalizeTools\<close> hands them on; a tool that derives its intent leaves the field out.\<close>

definition normalizeToolParameters :: "bool \<Rightarrow> intent_mode \<Rightarrow> js_val \<Rightarrow> js_val" where
  "normalizeToolParameters injectIntent mode schema =
     (if injectIntent \<and> mode \<noteq> IntentOmit then injectIntentIntoSchema schema mode else schema)"

section \<open>Messages for the provider\<close>

fun isThinking :: "content_block \<Rightarrow> bool" where
  "isThinking (ThinkingBlock t s) = True"
| "isThinking b = False"

definition normalizeMessagesForProvider :: "agent_message list \<Rightarrow> jstring \<Rightarrow> agent_message list" where
  "normalizeMessagesForProvider messages provider =
     (if provider \<noteq> js ''cerebras'' then messages
      else map (\<lambda>m. case m of
          AssistantMessage a \<Rightarrow> AssistantMessage (a\<lparr>amContent := filter (\<lambda>b. \<not> isThinking b) (amContent a)\<rparr>)
        | _ \<Rightarrow> m) messages)"

end
