(* ===== verification/Ag_Stream.thy ===== *)
theory Ag_Stream
  imports Ag_Types
begin

text \<open>
  \<open>streamAssistantResponse\<close> (packages/agent/src/agent-loop.ts) from the moment it reads the stream of the provider: what it makes of the
  events, the abort signal, a limit on the tool calls of a turn, and a leak of protocol text into the message. The stream is a
  list of inputs; where it ends before the function returns, the function still waits. Whether a message leaks, and the label of
  the signals, is a parameter (harmony-leak.ts), none for a provider without the mitigation. The request itself is left out.
\<close>

record loop_config =
  lcProvider :: jstring
  lcModel :: jstring
  lcLeak :: "assistant_message \<Rightarrow> jstring option"
  lcMaxToolCalls :: "jsnum option"
  lcInterrupts :: bool
  lcIntentTracing :: bool
  lcUsage :: "js_val \<Rightarrow> token_usage"

text \<open>
  An update tells whether it ends a tool call and whether the signal of the run is set when it is handled. \<open>StreamAbort\<close> is the
  signal seen before the next event, \<open>StreamOver\<close> an iterator that ends with neither done nor error.
\<close>

datatype stream_input =
    StreamStart assistant_message
  | StreamUpdate bool assistant_message bool
  | StreamFinal assistant_message
  | StreamAbort
  | StreamOver assistant_message
  | StreamThrows jstring

datatype stream_result = Streamed assistant_message | StreamLeaked jstring | StreamFailed jstring

record stream_state =
  ssMessages :: "agent_message list"
  ssEvents :: "agent_event list"
  ssPartial :: "assistant_message option"
  ssCalls :: nat
  ssAborted :: bool

fun normalizeMaxToolCallsPerTurn :: "jsnum option \<Rightarrow> nat option" where
  "normalizeMaxToolCallsPerTurn (Some (NumFin q)) = (if 1 \<le> q then Some (nat \<lfloor>q\<rfloor>) else None)"
| "normalizeMaxToolCallsPerTurn n = None"

definition cloneAssistantMessageForToolCallCap :: "assistant_message \<Rightarrow> assistant_message" where
  "cloneAssistantMessageForToolCallCap m = m\<lparr>amStopReason := StopToolUse, amErrorMessage := None\<rparr>"

text \<open>The message takes the place of the partial one, or is added with a start event of its own.\<close>

definition setMessage :: "assistant_message \<Rightarrow> stream_state \<Rightarrow> stream_state" where
  "setMessage m s = s\<lparr>ssMessages := butlast (ssMessages s) @ [AssistantMessage m]\<rparr>"

definition finishMessage :: "assistant_message \<Rightarrow> stream_state \<Rightarrow> stream_state" where
  "finishMessage m s =
     (if ssPartial s \<noteq> None then (setMessage m s)\<lparr>ssEvents := ssEvents s @ [MessageEnd (AssistantMessage m)]\<rparr>
      else s\<lparr>ssMessages := ssMessages s @ [AssistantMessage m],
        ssEvents := ssEvents s @ [MessageStart (AssistantMessage m), MessageEnd (AssistantMessage m)]\<rparr>)"

definition noTokens :: token_usage where
  "noTokens = \<lparr>usInput = 0, usOutput = 0, usCacheRead = 0, usCacheWrite = 0, usTotalTokens = 0, usPremiumRequests = None,
     usCost = NumFin 0\<rparr>"

definition abortedMessage :: "loop_config \<Rightarrow> assistant_message option \<Rightarrow> assistant_message" where
  "abortedMessage conf partial =
     (case partial of
        Some p \<Rightarrow> p\<lparr>amStopReason := StopAborted, amErrorMessage := Some (js ''Request was aborted'')\<rparr>
      | None \<Rightarrow> \<lparr>amContent = [], amProvider = lcProvider conf, amModel = lcModel conf, amUsage = noTokens,
          amStopReason = StopAborted, amErrorMessage = Some (js ''Request was aborted'')\<rparr>)"

definition emitAbortedAssistantMessage :: "loop_config \<Rightarrow> stream_state \<Rightarrow> stream_state \<times> stream_result" where
  "emitAbortedAssistantMessage conf s =
     (let m = abortedMessage conf (ssPartial s) in (finishMessage m s, Streamed m))"

text \<open>A leak drops the partial message from the context.\<close>

definition dropPartial :: "stream_state \<Rightarrow> stream_state" where
  "dropPartial s = (if ssPartial s \<noteq> None then s\<lparr>ssMessages := butlast (ssMessages s)\<rparr> else s)"

text \<open>An event that updates the partial message; a message without a start is not there to be updated.\<close>

definition streamUpdate ::
  "loop_config \<Rightarrow> bool \<Rightarrow> assistant_message \<Rightarrow> bool \<Rightarrow> stream_state \<Rightarrow> stream_state + stream_state \<times> stream_result" where
  "streamUpdate conf endsCall m aborted s =
     (if ssPartial s = None then Inl s
      else
        let s1 = (setMessage m s)\<lparr>ssPartial := Some m\<rparr> in
        if aborted then Inl (s1\<lparr>ssAborted := True\<rparr>)
        else
          let s2 = s1\<lparr>ssEvents := ssEvents s1 @ [MessageUpdate (AssistantMessage m)]\<rparr> in
          case normalizeMaxToolCallsPerTurn (lcMaxToolCalls conf) of
            Some limit \<Rightarrow>
              if endsCall then
                let s3 = s2\<lparr>ssCalls := Suc (ssCalls s2)\<rparr>; capped = cloneAssistantMessageForToolCallCap m in
                if limit \<le> ssCalls s3 then Inr (finishMessage capped s3, Streamed capped) else Inl s3
              else Inl s2
          | None \<Rightarrow> Inl s2)"

definition streamStart :: "assistant_message \<Rightarrow> stream_state \<Rightarrow> stream_state" where
  "streamStart m s = s\<lparr>ssPartial := Some m, ssMessages := ssMessages s @ [AssistantMessage m],
     ssEvents := ssEvents s @ [MessageStart (AssistantMessage m)]\<rparr>"

definition streamInput :: "loop_config \<Rightarrow> stream_input \<Rightarrow> stream_state \<Rightarrow> stream_state + stream_state \<times> stream_result" where
  "streamInput conf x s =
     (case x of
        StreamThrows err \<Rightarrow> Inr (s, StreamFailed err)
      | _ \<Rightarrow>
          if ssAborted s then Inr (emitAbortedAssistantMessage conf s)
          else
            (case x of
               StreamStart m \<Rightarrow> Inl (streamStart m s)
             | StreamUpdate endsCall m aborted \<Rightarrow> streamUpdate conf endsCall m aborted s
             | StreamFinal m \<Rightarrow>
                 (case lcLeak conf m of
                    Some label \<Rightarrow> Inr (dropPartial s, StreamLeaked label)
                  | None \<Rightarrow> Inr (finishMessage m s, Streamed m))
             | StreamOver m \<Rightarrow>
                 (case lcLeak conf m of
                    Some label \<Rightarrow> Inr (dropPartial s, StreamLeaked label)
                  | None \<Rightarrow> Inr (s, Streamed m))
             | _ \<Rightarrow> Inr (emitAbortedAssistantMessage conf s)))"

fun streamLoop :: "loop_config \<Rightarrow> stream_input list \<Rightarrow> stream_state \<Rightarrow> (stream_state \<times> stream_result) option" where
  "streamLoop conf [] s = None"
| "streamLoop conf (x # xs) s =
     (case streamInput conf x s of Inl s' \<Rightarrow> streamLoop conf xs s' | Inr r \<Rightarrow> Some r)"

definition streamAssistantResponse ::
  "loop_config \<Rightarrow> stream_input list \<Rightarrow> agent_message list \<Rightarrow> agent_event list \<Rightarrow>
    (agent_message list \<times> agent_event list \<times> stream_result) option" where
  "streamAssistantResponse conf xs messages evs =
     map_option (\<lambda>(s, r). (ssMessages s, ssEvents s, r))
       (streamLoop conf xs \<lparr>ssMessages = messages, ssEvents = evs, ssPartial = None, ssCalls = 0, ssAborted = False\<rparr>)"

end
