(* ===== verification/Ag_Tools.thy ===== *)
theory Ag_Tools
  imports Ag_Types
begin

text \<open>
  \<open>executeToolCalls\<close> (packages/agent/src/agent-loop.ts): the calls of one turn run at the same time, but for a tool that is
  exclusive, which waits for those before it and holds up those after it. When a call has given its result the queue of steering
  messages is polled, by one call at a time; the first messages found interrupt the batch. The calls are records of a state and
  what the runtime schedules is a sequence of choices, each of them the stretch of code that one call runs from one \<open>await\<close> to
  the next. What the world answers comes with the choice. Telemetry is left out.
\<close>

section \<open>One call\<close>

datatype before_answer = BeforeThrows jstring | BeforeBlocks "jstring option" | BeforePasses js_obj

record after_result =
  arContent :: "content_block list option"
  arDetails :: js_val
  arIsError :: "bool option"

text \<open>The answers of the hooks and of the tool. \<open>thAfter\<close> is silent when there is no such hook.\<close>

record tool_hooks =
  thSanitize :: "jstring \<Rightarrow> jstring"
  thValidate :: "agent_tool \<Rightarrow> tool_call \<Rightarrow> js_obj \<Rightarrow> jstring + js_obj"
  thBefore :: "tool_call \<Rightarrow> js_obj \<Rightarrow> before_answer"
  thTransform :: "js_obj \<Rightarrow> jstring \<Rightarrow> js_obj"
  thExecute :: "agent_tool \<Rightarrow> jstring \<Rightarrow> js_obj \<Rightarrow> jstring + js_val"
  thAfter :: "tool_call \<Rightarrow> js_obj \<Rightarrow> tool_outcome \<Rightarrow> bool \<Rightarrow> jstring + after_result option"

text \<open>Find the tool by its name, then by the name it has on the wire.\<close>

definition findTool :: "agent_tool list \<Rightarrow> jstring \<Rightarrow> agent_tool option" where
  "findTool tools name =
     (case find (\<lambda>t. atName t = name) tools of
        Some t \<Rightarrow> Some t
      | None \<Rightarrow> find (\<lambda>t. atWireName t = Some name) tools)"

definition effectiveArguments :: "tool_hooks \<Rightarrow> agent_tool \<Rightarrow> tool_call \<Rightarrow> js_obj \<Rightarrow> jstring + js_obj" where
  "effectiveArguments hooks tool call args =
     (case thValidate hooks tool call args of
        Inl err \<Rightarrow> if atLenient tool then Inr args else Inl err
      | Inr args' \<Rightarrow> Inr args')"

text \<open>The \<open>try\<close> block: an error, or the result, both with the arguments that the record then holds.\<close>

definition executeCall ::
  "tool_hooks \<Rightarrow> agent_tool option \<Rightarrow> tool_call \<Rightarrow> js_obj \<Rightarrow> js_obj \<times> (jstring + tool_outcome \<times> bool)" where
  "executeCall hooks tool call args =
     (case tool of
        None \<Rightarrow> (args, Inl (js ''Tool '' @ tcName call @ js '' not found''))
      | Some t \<Rightarrow>
          (case effectiveArguments hooks t call args of
             Inl err \<Rightarrow> (args, Inl err)
           | Inr eff \<Rightarrow>
               (case thBefore hooks call eff of
                  BeforeThrows err \<Rightarrow> (args, Inl err)
                | BeforeBlocks reason \<Rightarrow>
                    (args, Inl (case reason of None \<Rightarrow> js ''Tool execution was blocked'' | Some r \<Rightarrow> r))
                | BeforePasses eff' \<Rightarrow>
                    (eff', case thExecute hooks t (tcId call) (thTransform hooks eff' (tcName call)) of
                        Inl err \<Rightarrow> Inl err
                      | Inr raw \<Rightarrow>
                          let (result, malformed) = coerceToolResult (thSanitize hooks) raw
                          in Inr (result, malformed \<or> trIsError result = Some True)))))"

definition isNullish :: "js_val \<Rightarrow> bool" where
  "isNullish v \<longleftrightarrow> v = JUndef \<or> v = JNull"

definition mergeAfter :: "after_result \<Rightarrow> tool_outcome \<Rightarrow> bool \<Rightarrow> tool_outcome \<times> bool" where
  "mergeAfter after result isError =
     (\<lparr>trContent = (case arContent after of Some c \<Rightarrow> c | None \<Rightarrow> trContent result),
       trDetails = (if isNullish (arDetails after) then trDetails result else arDetails after),
       trIsError = (case arIsError after of Some b \<Rightarrow> Some b | None \<Rightarrow> trIsError result)\<rparr>,
      case arIsError after of Some b \<Rightarrow> b | None \<Rightarrow> isError)"

definition callOutcome :: "tool_hooks \<Rightarrow> agent_tool option \<Rightarrow> tool_call \<Rightarrow> js_obj \<Rightarrow> tool_outcome \<times> bool" where
  "callOutcome hooks tool call args =
     (let (args', run) = executeCall hooks tool call args;
          (result, isError) = (case run of Inl err \<Rightarrow> (errorOutcome err, True) | Inr r \<Rightarrow> r)
      in case thAfter hooks call args' result isError of
           Inl err \<Rightarrow> (errorOutcome err, True)
         | Inr None \<Rightarrow> (result, isError)
         | Inr (Some after) \<Rightarrow> mergeAfter after result isError)"

section \<open>The batch\<close>

text \<open>A call waits for others, runs, polls the steering queue or waits for a poll on its way; then it is done or rejected.\<close>

datatype call_status = CallWaiting | CallRunning | CallPolling | CallAwaiting | CallDone | CallRejected

record call_record =
  crCall :: tool_call
  crTool :: "agent_tool option"
  crDeps :: "nat list"
  crArgs :: js_obj
  crStatus :: call_status
  crMessage :: "tool_result option"

record tool_batch =
  tbRecords :: "call_record list"
  tbInterrupts :: bool
  tbTriggered :: bool
  tbSteering :: "agent_message list option"
  tbResults :: "tool_result list"
  tbEvents :: "agent_event list"

definition isExclusive :: "agent_tool option \<Rightarrow> bool" where
  "isExclusive tool \<longleftrightarrow> (case tool of Some t \<Rightarrow> atExclusive t | None \<Rightarrow> False)"

text \<open>Which tasks each call waits for: \<open>lastExclusive\<close>, if there is one, and for an exclusive tool \<open>sharedTasks\<close> too.\<close>

fun dependencies :: "nat \<Rightarrow> nat list \<Rightarrow> nat list \<Rightarrow> bool list \<Rightarrow> nat list list" where
  "dependencies i lastExclusive shared [] = []"
| "dependencies i lastExclusive shared (exclusive # es) =
     (if exclusive then (lastExclusive @ shared) # dependencies (Suc i) [i] [] es
      else lastExclusive # dependencies (Suc i) lastExclusive (shared @ [i]) es)"

definition startBatch :: "agent_tool list \<Rightarrow> bool \<Rightarrow> tool_call list \<Rightarrow> tool_batch" where
  "startBatch tools interrupts calls =
     (let found = map (\<lambda>c. findTool tools (tcName c)) calls;
          deps = dependencies 0 [] [] (map isExclusive found) in
      \<lparr>tbRecords = map2 (\<lambda>(c, t) ds. \<lparr>crCall = c, crTool = t, crDeps = ds, crArgs = tcArguments c, crStatus = CallWaiting,
          crMessage = None\<rparr>) (zip calls found) deps,
       tbInterrupts = interrupts, tbTriggered = False, tbSteering = None, tbResults = [], tbEvents = []\<rparr>)"

definition statusOf :: "tool_batch \<Rightarrow> nat \<Rightarrow> call_status" where
  "statusOf b i = crStatus (tbRecords b ! i)"

definition setRecord :: "nat \<Rightarrow> (call_record \<Rightarrow> call_record) \<Rightarrow> tool_batch \<Rightarrow> tool_batch" where
  "setRecord i f b = b\<lparr>tbRecords := (tbRecords b)[i := f (tbRecords b ! i)]\<rparr>"

definition setStatus :: "call_status \<Rightarrow> call_record \<Rightarrow> call_record" where
  "setStatus st r = r\<lparr>crStatus := st\<rparr>"

definition sendEvents :: "agent_event list \<Rightarrow> tool_batch \<Rightarrow> tool_batch" where
  "sendEvents evs b = b\<lparr>tbEvents := tbEvents b @ evs\<rparr>"

definition resultMessage :: "(js_val \<Rightarrow> token_usage) \<Rightarrow> tool_call \<Rightarrow> tool_outcome \<Rightarrow> bool \<Rightarrow> tool_result" where
  "resultMessage asUsage call result isError =
     \<lparr>tmCallId = tcId call, tmToolName = tcName call, tmContent = trContent result,
      tmUsage = getTaskToolUsage asUsage (trDetails result), tmIsError = isError, tmPrunedAt = None\<rparr>"

text \<open>\<open>emitToolResult\<close>, with a start event for a call that never ran.\<close>

definition emitToolResult ::
  "(js_val \<Rightarrow> token_usage) \<Rightarrow> nat \<Rightarrow> bool \<Rightarrow> tool_outcome \<Rightarrow> bool \<Rightarrow> tool_batch \<Rightarrow> tool_batch" where
  "emitToolResult asUsage i started result isError b =
     (let r = tbRecords b ! i; call = crCall r; msg = resultMessage asUsage call result isError in
      if crMessage r \<noteq> None then b
      else (sendEvents
          ((if started then [] else [ToolStart (tcId call) (tcName call) (crArgs r) None])
           @ [ToolEnd (tcId call) (tcName call) result isError, MessageStart (ToolResult msg), MessageEnd (ToolResult msg)])
          (setRecord i (\<lambda>r. r\<lparr>crMessage := Some msg\<rparr>) b))
        \<lparr>tbResults := tbResults b @ [msg]\<rparr>)"

text \<open>\<open>checkSteering\<close> up to its \<open>await\<close>: nothing to do, the poll of another call to wait for, or a poll of its own.\<close>

definition beginCheck :: "nat \<Rightarrow> tool_batch \<Rightarrow> tool_batch" where
  "beginCheck i b =
     setRecord i (setStatus
       (if \<not> tbInterrupts b \<or> tbTriggered b then CallDone
        else if list_ex (\<lambda>r. crStatus r = CallPolling) (tbRecords b) then CallAwaiting
        else CallPolling)) b"

text \<open>The poll ends for the call that made it and for those that wait for it.\<close>

definition endCheck :: "call_status \<Rightarrow> tool_batch \<Rightarrow> tool_batch" where
  "endCheck st b = b\<lparr>tbRecords :=
     map (\<lambda>r. if crStatus r = CallPolling \<or> crStatus r = CallAwaiting then setStatus st r else r) (tbRecords b)\<rparr>"

datatype batch_choice =
    StartCall nat "js_obj \<Rightarrow> jstring option"
  | RejectCall nat
  | UpdateCall nat js_obj "jstring \<Rightarrow> jstring" js_val
  | FinishCall nat tool_hooks
  | SteeringAnswer "agent_message list"
  | SteeringFails

text \<open>The arguments and the intent of a call that starts; the tool itself may know the intent.\<close>

definition startArguments :: "bool \<Rightarrow> (js_obj \<Rightarrow> jstring option) \<Rightarrow> tool_call \<Rightarrow> js_obj \<times> jstring option" where
  "startArguments intentTracing derive call =
     (if intentTracing then
        let (intent, stripped) = extractIntent (tcArguments call) in
        (stripped,
          case intent of
            Some t \<Rightarrow> Some t
          | None \<Rightarrow> (case derive stripped of Some t \<Rightarrow> if trim t = [] then None else Some (trim t) | None \<Rightarrow> None))
      else (tcArguments call, None))"

definition startCall :: "bool \<Rightarrow> nat \<Rightarrow> (js_obj \<Rightarrow> jstring option) \<Rightarrow> tool_batch \<Rightarrow> tool_batch" where
  "startCall intentTracing i derive b =
     (if tbTriggered b then setRecord i (setStatus CallDone) b
      else
        let call = crCall (tbRecords b ! i); (args, intent) = startArguments intentTracing derive call in
        sendEvents [ToolStart (tcId call) (tcName call) args intent]
          (setRecord i (\<lambda>r. r\<lparr>crArgs := args, crStatus := CallRunning\<rparr>) b))"

text \<open>An interruption takes the place of whatever the tool returned.\<close>

definition finishCall :: "(js_val \<Rightarrow> token_usage) \<Rightarrow> nat \<Rightarrow> tool_hooks \<Rightarrow> tool_batch \<Rightarrow> tool_batch" where
  "finishCall asUsage i hooks b =
     (let r = tbRecords b ! i;
          (result, isError) = callOutcome hooks (crTool r) (crCall r) (crArgs r);
          (sent, failed) = (if tbTriggered b then (createSkippedToolResult, True) else (result, isError))
      in beginCheck i (emitToolResult asUsage i True sent failed b))"

definition batchStep :: "(js_val \<Rightarrow> token_usage) \<Rightarrow> bool \<Rightarrow> batch_choice \<Rightarrow> tool_batch \<Rightarrow> tool_batch option" where
  "batchStep asUsage intentTracing choice b =
     (case choice of
        StartCall i derive \<Rightarrow>
          if i < length (tbRecords b) \<and> statusOf b i = CallWaiting \<and> (\<forall>d \<in> set (crDeps (tbRecords b ! i)). statusOf b d = CallDone)
          then Some (startCall intentTracing i derive b) else None
      | RejectCall i \<Rightarrow>
          if i < length (tbRecords b) \<and> statusOf b i = CallWaiting \<and> (\<exists>d \<in> set (crDeps (tbRecords b ! i)). statusOf b d = CallRejected)
          then Some (setRecord i (setStatus CallRejected) b) else None
      | UpdateCall i args sanitize raw \<Rightarrow>
          if i < length (tbRecords b) \<and> statusOf b i = CallRunning
          then (let call = crCall (tbRecords b ! i) in
            Some (sendEvents [ToolUpdate (tcId call) (tcName call) args (fst (coerceToolResult sanitize raw))] b))
          else None
      | FinishCall i hooks \<Rightarrow>
          if i < length (tbRecords b) \<and> statusOf b i = CallRunning then Some (finishCall asUsage i hooks b) else None
      | SteeringAnswer messages \<Rightarrow>
          if list_ex (\<lambda>r. crStatus r = CallPolling) (tbRecords b)
          then Some (endCheck CallDone (if messages = [] then b else b\<lparr>tbSteering := Some messages, tbTriggered := True\<rparr>))
          else None
      | SteeringFails \<Rightarrow>
          if list_ex (\<lambda>r. crStatus r = CallPolling) (tbRecords b) then Some (endCheck CallRejected b) else None)"

definition settled :: "tool_batch \<Rightarrow> bool" where
  "settled b = list_all (\<lambda>r. crStatus r = CallDone \<or> crStatus r = CallRejected) (tbRecords b)"

text \<open>The sweep at the end gives a result to every call that has none.\<close>

definition sweep :: "(js_val \<Rightarrow> token_usage) \<Rightarrow> tool_batch \<Rightarrow> tool_batch" where
  "sweep asUsage b = fold (\<lambda>i. emitToolResult asUsage i False createSkippedToolResult True) [0..<length (tbRecords b)] b"

fun runChoices :: "(js_val \<Rightarrow> token_usage) \<Rightarrow> bool \<Rightarrow> batch_choice list \<Rightarrow> tool_batch \<Rightarrow> tool_batch option" where
  "runChoices asUsage intentTracing [] b = Some b"
| "runChoices asUsage intentTracing (c # cs) b =
     (case batchStep asUsage intentTracing c b of None \<Rightarrow> None | Some b' \<Rightarrow> runChoices asUsage intentTracing cs b')"

text \<open>The batch that the choices lead to, none when they do not fit or do not go to the end.\<close>

definition executeToolCalls ::
  "(js_val \<Rightarrow> token_usage) \<Rightarrow> bool \<Rightarrow> agent_tool list \<Rightarrow> bool \<Rightarrow> tool_call list \<Rightarrow> batch_choice list \<Rightarrow> tool_batch option" where
  "executeToolCalls asUsage intentTracing tools interrupts calls choices =
     (case runChoices asUsage intentTracing choices (startBatch tools interrupts calls) of
        Some b \<Rightarrow> if settled b then Some (sweep asUsage b) else None
      | None \<Rightarrow> None)"

end
