(* ===== verification/Ag_Loop.thy ===== *)
theory Ag_Loop
  imports Ag_Stream Ag_Tools
begin

text \<open>
  The loop of the agent (\<open>agentLoop\<close>, \<open>agentLoopContinue\<close> and \<open>runLoopBody\<close> in packages/agent/src/agent-loop.ts). An iteration of the inner
  loop is one step on a state, with all that the world answers in it as its input: the tools of the turn, the stream of the
  provider, what the runtime schedules for the tool calls, and the messages that the queue of steering messages holds at the end
  of the turn. Where the inner loop ends the input is what the queue of follow-up messages holds. A hook that throws ends the
  loop with its error. Telemetry and the audit of leaks are left out.
\<close>

section \<open>State\<close>

datatype loop_status = LoopRunning | LoopEnded | LoopFailed jstring

record loop_state =
  lsMessages :: "agent_message list"
  lsNew :: "agent_message list"
  lsEvents :: "agent_event list"
  lsPending :: "agent_message list"
  lsMore :: bool
  lsFirst :: bool
  lsRetries :: nat
  lsStatus :: loop_status

datatype loop_input =
    TurnInput "agent_tool list" "stream_input list" "batch_choice list" "jstring + agent_message list"
  | YieldInput "jstring + agent_message list"

definition sendAll :: "agent_event list \<Rightarrow> loop_state \<Rightarrow> loop_state" where
  "sendAll evs s = s\<lparr>lsEvents := lsEvents s @ evs\<rparr>"

definition messageEvents :: "agent_message list \<Rightarrow> agent_event list" where
  "messageEvents ms = concat (map (\<lambda>m. [MessageStart m, MessageEnd m]) ms)"

definition addMessages :: "agent_message list \<Rightarrow> loop_state \<Rightarrow> loop_state" where
  "addMessages ms s = s\<lparr>lsMessages := lsMessages s @ ms, lsNew := lsNew s @ ms\<rparr>"

definition endRun :: "loop_state \<Rightarrow> loop_state" where
  "endRun s = (sendAll [AgentEnd (lsNew s)] s)\<lparr>lsStatus := LoopEnded\<rparr>"

definition failRun :: "jstring \<Rightarrow> loop_state \<Rightarrow> loop_state" where
  "failRun err s = s\<lparr>lsStatus := LoopFailed err\<rparr>"

section \<open>Placeholder results\<close>

datatype abort_cause = CauseAborted | CauseError | CauseSkipped | CauseLength

definition lengthNotice :: jstring where
  "lengthNotice = js ''Tool call was not executed because the assistant hit its output token limit (stop_reason: length) before the arguments could complete; the recorded arguments are truncated and unsafe to run. Do NOT retry by re-emitting the same large payload ''
     @ 8212 # js '' split the work into several smaller tool calls (e.g. for `write`/`edit`, write the first chunk then append the rest with subsequent `edit` insert ops, or break the file into multiple `write` targets)''"

fun abortText :: "abort_cause \<Rightarrow> jstring" where
  "abortText CauseAborted = js ''Tool execution was aborted''"
| "abortText CauseLength = lengthNotice"
| "abortText CauseSkipped = js ''Tool call was not executed because the assistant ended its turn''"
| "abortText CauseError = js ''Tool execution failed due to an error''"

definition abortedOutcome :: "abort_cause \<Rightarrow> jstring option \<Rightarrow> tool_outcome" where
  "abortedOutcome cause err =
     errorOutcome (abortText cause @ (if truthy err then js '': '' @ the err else js ''.''))"

definition createAbortedToolResult ::
  "abort_cause \<Rightarrow> jstring option \<Rightarrow> tool_call \<Rightarrow> agent_event list \<times> tool_result" where
  "createAbortedToolResult cause err call =
     (let result = abortedOutcome cause err;
          msg = \<lparr>tmCallId = tcId call, tmToolName = tcName call, tmContent = trContent result, tmUsage = None,
            tmIsError = True, tmPrunedAt = None\<rparr>
      in ([ToolStart (tcId call) (tcName call) (tcArguments call) None, ToolEnd (tcId call) (tcName call) result True,
           MessageStart (ToolResult msg), MessageEnd (ToolResult msg)], msg))"

definition placeholders ::
  "abort_cause \<Rightarrow> jstring option \<Rightarrow> assistant_message \<Rightarrow> loop_state \<Rightarrow> tool_result list \<times> loop_state" where
  "placeholders cause err m s =
     (let made = map (createAbortedToolResult cause err) (toolCallsOf m) in
      (map snd made, addMessages (map (ToolResult \<circ> snd) made) (sendAll (concat (map fst made)) s)))"

section \<open>A turn\<close>

definition beginTurn :: "loop_state \<Rightarrow> loop_state" where
  "beginTurn s =
     (addMessages (lsPending s) (sendAll ((if lsFirst s then [] else [TurnStart]) @ messageEvents (lsPending s)) s))
       \<lparr>lsFirst := False, lsPending := []\<rparr>"

definition leakError :: "nat \<Rightarrow> jstring \<Rightarrow> jstring" where
  "leakError n label = js ''GPT-5 Harmony leak persisted after '' @ natToString n @ js '' retries ('' @ label @ js '').''"

text \<open>After a leak the turn is tried again, at most twice in a row.\<close>

definition retryLeak :: "jstring \<Rightarrow> loop_state \<Rightarrow> loop_state" where
  "retryLeak label s =
     (if 2 \<le> lsRetries s then failRun (leakError (lsRetries s) label) s else s\<lparr>lsRetries := Suc (lsRetries s)\<rparr>)"

text \<open>A turn that failed or was aborted ends the run, with a result for each of its calls.\<close>

definition stopTurn :: "assistant_message \<Rightarrow> loop_state \<Rightarrow> loop_state" where
  "stopTurn m s =
     (let (results, s1) = placeholders (if amStopReason m = StopAborted then CauseAborted else CauseError) (amErrorMessage m) m s
      in endRun (sendAll [TurnEnd m results] s1))"

definition isRunnableStop :: "stop_reason \<Rightarrow> bool" where
  "isRunnableStop r \<longleftrightarrow> r = StopToolUse \<or> r = StopDone"

text \<open>The calls of a turn are executed, or get a result that says why not; with it come the steering messages found on the way.\<close>

definition answerCalls ::
  "loop_config \<Rightarrow> agent_tool list \<Rightarrow> batch_choice list \<Rightarrow> assistant_message \<Rightarrow> loop_state \<Rightarrow>
    (tool_result list \<times> agent_message list option \<times> loop_state) option" where
  "answerCalls conf tools choices m s =
     (let calls = toolCallsOf m in
      if isRunnableStop (amStopReason m) \<and> calls \<noteq> [] then
        (case executeToolCalls (lcUsage conf) (lcIntentTracing conf) tools (lcInterrupts conf) calls choices of
           None \<Rightarrow> None
         | Some b \<Rightarrow> Some (tbResults b, tbSteering b, addMessages (map ToolResult (tbResults b)) (sendAll (tbEvents b) s)))
      else
        let (results, s1) = placeholders (if amStopReason m = StopLength then CauseLength else CauseSkipped) None m s
        in Some (results, None, s1))"

definition takePoll :: "agent_message list option \<Rightarrow> jstring + agent_message list \<Rightarrow> loop_state \<Rightarrow> loop_state" where
  "takePoll steering poll s =
     (case steering of
        Some ms \<Rightarrow> s\<lparr>lsPending := ms\<rparr>
      | None \<Rightarrow> (case poll of Inl err \<Rightarrow> failRun err s | Inr ms \<Rightarrow> s\<lparr>lsPending := ms\<rparr>))"

definition finishTurn ::
  "loop_config \<Rightarrow> agent_tool list \<Rightarrow> batch_choice list \<Rightarrow> jstring + agent_message list \<Rightarrow> assistant_message \<Rightarrow> loop_state \<Rightarrow>
    loop_state option" where
  "finishTurn conf tools choices poll m s =
     (if amStopReason m = StopError \<or> amStopReason m = StopAborted then Some (stopTurn m s)
      else
        case answerCalls conf tools choices m s of
          None \<Rightarrow> None
        | Some (results, steering, s1) \<Rightarrow>
            Some (takePoll steering poll
              ((sendAll [TurnEnd m results] s1)\<lparr>lsMore := isRunnableStop (amStopReason m) \<and> toolCallsOf m \<noteq> []\<rparr>)))"

definition turnStep ::
  "loop_config \<Rightarrow> agent_tool list \<Rightarrow> stream_input list \<Rightarrow> batch_choice list \<Rightarrow> jstring + agent_message list \<Rightarrow> loop_state \<Rightarrow>
    loop_state option" where
  "turnStep conf tools xs choices poll s =
     (let s1 = beginTurn s in
      case streamAssistantResponse conf xs (lsMessages s1) (lsEvents s1) of
        None \<Rightarrow> None
      | Some (ms, evs, result) \<Rightarrow>
          let s2 = s1\<lparr>lsMessages := ms, lsEvents := evs\<rparr> in
          case result of
            StreamFailed err \<Rightarrow> Some (failRun err s2)
          | StreamLeaked label \<Rightarrow> Some (retryLeak label s2)
          | Streamed m \<Rightarrow>
              finishTurn conf tools choices poll m (s2\<lparr>lsRetries := 0, lsNew := lsNew s2 @ [AssistantMessage m]\<rparr>))"

section \<open>The loop\<close>

text \<open>Where the agent would stop it takes the follow-up messages, and ends when there are none.\<close>

definition yieldStep :: "jstring + agent_message list \<Rightarrow> loop_state \<Rightarrow> loop_state" where
  "yieldStep poll s =
     (case poll of
        Inl err \<Rightarrow> failRun err s
      | Inr ms \<Rightarrow> if ms = [] then endRun s else s\<lparr>lsPending := ms, lsMore := True\<rparr>)"

definition inTurns :: "loop_state \<Rightarrow> bool" where
  "inTurns s \<longleftrightarrow> lsMore s \<or> lsPending s \<noteq> []"

definition loopStep :: "loop_config \<Rightarrow> loop_input \<Rightarrow> loop_state \<Rightarrow> loop_state option" where
  "loopStep conf input s =
     (if lsStatus s \<noteq> LoopRunning then None
      else
        case input of
          TurnInput tools xs choices poll \<Rightarrow> if inTurns s then turnStep conf tools xs choices poll s else None
        | YieldInput poll \<Rightarrow> if inTurns s then None else Some (yieldStep poll s))"

fun runLoop :: "loop_config \<Rightarrow> loop_input list \<Rightarrow> loop_state \<Rightarrow> loop_state option" where
  "runLoop conf [] s = Some s"
| "runLoop conf (x # xs) s = (case loopStep conf x s of None \<Rightarrow> None | Some s' \<Rightarrow> runLoop conf xs s')"

text \<open>The start with new messages, and the first poll of the steering queue.\<close>

definition startLoop :: "agent_message list \<Rightarrow> agent_message list \<Rightarrow> jstring + agent_message list \<Rightarrow> loop_state" where
  "startLoop messages prompts poll =
     (let s = \<lparr>lsMessages = messages @ prompts, lsNew = prompts, lsEvents = [AgentStart, TurnStart] @ messageEvents prompts,
        lsPending = [], lsMore = True, lsFirst = True, lsRetries = 0, lsStatus = LoopRunning\<rparr>
      in takePoll None poll s)"

definition agentLoop ::
  "loop_config \<Rightarrow> agent_message list \<Rightarrow> agent_message list \<Rightarrow> jstring + agent_message list \<Rightarrow> loop_input list \<Rightarrow>
    loop_state option" where
  "agentLoop conf prompts messages poll inputs = runLoop conf inputs (startLoop messages prompts poll)"

text \<open>The loop goes on from a context that ends with a message for the model.\<close>

definition agentLoopContinue ::
  "loop_config \<Rightarrow> agent_message list \<Rightarrow> jstring + agent_message list \<Rightarrow> loop_input list \<Rightarrow> jstring + loop_state option" where
  "agentLoopContinue conf messages poll inputs =
     (if messages = [] then Inl (js ''Cannot continue: no messages in context'')
      else
        case last messages of
          AssistantMessage m \<Rightarrow> Inl (js ''Cannot continue from message role: assistant'')
        | _ \<Rightarrow> Inr (runLoop conf inputs (startLoop messages [] poll)))"

end
