(* ===== verification/Ag_Agent.thy ===== *)
theory Ag_Agent
  imports Ag_Loop
begin

text \<open>
  The agent (packages/agent/src/agent.ts) around the loop: its state and queues, what it makes of the events of a run, how it ends a
  run, and the reordering of the results of tools that the Cursor provider runs on its side. The settings that the agent only
  passes on, its listeners, the abort controller and \<open>popMessage\<close>, which compares messages by identity, are left out.
\<close>

section \<open>State and queues\<close>

record agent_state =
  agMessages :: "agent_message list"
  agStreaming :: bool
  agStream :: "agent_message option"
  agPendingCalls :: "jstring list"
  agError :: "jstring option"
  agSteering :: "agent_message list"
  agFollowUps :: "agent_message list"
  agSteerAll :: bool
  agFollowAll :: bool
  agCursor :: "(tool_result \<times> nat) list"

definition appendAgentMessage :: "agent_message \<Rightarrow> agent_state \<Rightarrow> agent_state" where
  "appendAgentMessage m s = s\<lparr>agMessages := agMessages s @ [m]\<rparr>"

definition replaceMessages :: "agent_message list \<Rightarrow> agent_state \<Rightarrow> agent_state" where
  "replaceMessages ms s = s\<lparr>agMessages := ms\<rparr>"

definition clearMessages :: "agent_state \<Rightarrow> agent_state" where
  "clearMessages s = s\<lparr>agMessages := []\<rparr>"

definition steer :: "agent_message \<Rightarrow> agent_state \<Rightarrow> agent_state" where
  "steer m s = s\<lparr>agSteering := agSteering s @ [m]\<rparr>"

definition followUp :: "agent_message \<Rightarrow> agent_state \<Rightarrow> agent_state" where
  "followUp m s = s\<lparr>agFollowUps := agFollowUps s @ [m]\<rparr>"

definition clearSteeringQueue :: "agent_state \<Rightarrow> agent_state" where
  "clearSteeringQueue s = s\<lparr>agSteering := []\<rparr>"

definition clearFollowUpQueue :: "agent_state \<Rightarrow> agent_state" where
  "clearFollowUpQueue s = s\<lparr>agFollowUps := []\<rparr>"

definition clearAllQueues :: "agent_state \<Rightarrow> agent_state" where
  "clearAllQueues s = s\<lparr>agSteering := [], agFollowUps := []\<rparr>"

definition hasQueuedMessages :: "agent_state \<Rightarrow> bool" where
  "hasQueuedMessages s \<longleftrightarrow> agSteering s \<noteq> [] \<or> agFollowUps s \<noteq> []"

text \<open>One message or all of them, by the mode of the queue.\<close>

definition dequeue :: "bool \<Rightarrow> agent_message list \<Rightarrow> agent_message list \<times> agent_message list" where
  "dequeue all queue = (if all then (queue, []) else (take 1 queue, drop 1 queue))"

definition dequeueSteeringMessages :: "agent_state \<Rightarrow> agent_message list \<times> agent_state" where
  "dequeueSteeringMessages s = (let (ms, rest) = dequeue (agSteerAll s) (agSteering s) in (ms, s\<lparr>agSteering := rest\<rparr>))"

definition dequeueFollowUpMessages :: "agent_state \<Rightarrow> agent_message list \<times> agent_state" where
  "dequeueFollowUpMessages s = (let (ms, rest) = dequeue (agFollowAll s) (agFollowUps s) in (ms, s\<lparr>agFollowUps := rest\<rparr>))"

definition lastOf :: "'a list \<Rightarrow> 'a option" where
  "lastOf xs = (if xs = [] then None else Some (last xs))"

definition popLastSteer :: "agent_state \<Rightarrow> agent_message option \<times> agent_state" where
  "popLastSteer s = (lastOf (agSteering s), s\<lparr>agSteering := butlast (agSteering s)\<rparr>)"

definition popLastFollowUp :: "agent_state \<Rightarrow> agent_message option \<times> agent_state" where
  "popLastFollowUp s = (lastOf (agFollowUps s), s\<lparr>agFollowUps := butlast (agFollowUps s)\<rparr>)"

definition resetAgent :: "agent_state \<Rightarrow> agent_state" where
  "resetAgent s = s\<lparr>agMessages := [], agStreaming := False, agStream := None, agPendingCalls := [], agError := None,
     agSteering := [], agFollowUps := []\<rparr>"

section \<open>Starting a run\<close>

datatype start_error = AgentBusy | NothingToContinue | ContinuesAssistant

text \<open>What a run starts with: messages of its own or none, and whether the first poll of the steering queue is left out.\<close>

datatype run_start = RunWith "agent_message list" bool | RunOn

definition promptAgent :: "agent_message list \<Rightarrow> agent_state \<Rightarrow> start_error + run_start" where
  "promptAgent ms s = (if agStreaming s then Inl AgentBusy else Inr (RunWith ms False))"

definition continueAgent :: "agent_state \<Rightarrow> (start_error + run_start) \<times> agent_state" where
  "continueAgent s =
     (if agStreaming s then (Inl AgentBusy, s)
      else if agMessages s = [] then (Inl NothingToContinue, s)
      else
        case last (agMessages s) of
          AssistantMessage m \<Rightarrow>
            let (steering, s1) = dequeueSteeringMessages s in
            if steering \<noteq> [] then (Inr (RunWith steering True), s1)
            else
              let (followUps, s2) = dequeueFollowUpMessages s1 in
              if followUps \<noteq> [] then (Inr (RunWith followUps False), s2) else (Inl ContinuesAssistant, s2)
        | _ \<Rightarrow> (Inr RunOn, s))"

definition beginAgentRun :: "agent_state \<Rightarrow> agent_state" where
  "beginAgentRun s = s\<lparr>agStreaming := True, agStream := None, agError := None, agCursor := []\<rparr>"

section \<open>Results of the Cursor provider\<close>

definition textOfBlock :: "content_block \<Rightarrow> jstring" where
  "textOfBlock b = (case b of TextBlock t s \<Rightarrow> t | _ \<Rightarrow> [])"

definition textOf :: "assistant_message \<Rightarrow> jstring" where
  "textOf m = concat (map textOfBlock (amContent m))"

definition getAssistantTextLength :: "agent_message option \<Rightarrow> nat" where
  "getAssistantTextLength m = (case m of Some (AssistantMessage a) \<Rightarrow> length (textOf a) | _ \<Rightarrow> 0)"

definition bufferCursorResult :: "tool_result \<Rightarrow> agent_state \<Rightarrow> agent_state" where
  "bufferCursorResult r s = s\<lparr>agCursor := agCursor s @ [(r, getAssistantTextLength (agStream s))]\<rparr>"

definition resultEvents :: "tool_result list \<Rightarrow> agent_event list" where
  "resultEvents rs = concat (map (\<lambda>r. [MessageStart (ToolResult r), MessageEnd (ToolResult r)]) rs)"

text \<open>Every text block of the preamble gets all the text before the split.\<close>

definition preambleOf :: "nat \<Rightarrow> assistant_message \<Rightarrow> assistant_message" where
  "preambleOf split m =
     m\<lparr>amContent := map (\<lambda>b. case b of TextBlock t s \<Rightarrow> TextBlock (take split (textOf m)) s | b \<Rightarrow> b) (amContent m)\<rparr>"

definition continuationOf :: "nat \<Rightarrow> assistant_message \<Rightarrow> assistant_message option" where
  "continuationOf split m =
     (let rest = drop split (textOf m) in
      if trim rest = [] then None else Some (m\<lparr>amContent := [TextBlock rest None], amUsage := noTokens\<rparr>))"

definition splitAssistantMessage :: "(tool_result \<times> nat) list \<Rightarrow> assistant_message \<Rightarrow> agent_message list" where
  "splitAssistantMessage buffer m =
     (let split = Min (set (map snd buffer)); results = map (\<lambda>(r, n). ToolResult r) buffer in
      if textOf m = [] \<or> split = 0 \<or> length (textOf m) \<le> split then AssistantMessage m # results
      else AssistantMessage (preambleOf split m) # results
        @ (case continuationOf split m of None \<Rightarrow> [] | Some c \<Rightarrow> [AssistantMessage c]))"

text \<open>The messages go to the state, each with its events; the first one has had its start event.\<close>

definition emitCursorSplitAssistantMessage :: "assistant_message \<Rightarrow> agent_state \<Rightarrow> agent_state \<times> agent_event list" where
  "emitCursorSplitAssistantMessage m s =
     (let ms = (if agCursor s = [] then [AssistantMessage m] else splitAssistantMessage (agCursor s) m) in
      (s\<lparr>agCursor := [], agStream := None, agMessages := agMessages s @ ms\<rparr>, MessageEnd (hd ms) # messageEvents (tl ms)))"

section \<open>The events of a run\<close>

definition addCall :: "jstring \<Rightarrow> jstring list \<Rightarrow> jstring list" where
  "addCall i calls = (if i \<in> set calls then calls else calls @ [i])"

text \<open>The message that is not complete yet, the agent, and the events sent on to the listeners.\<close>

record agent_run =
  arPartial :: "agent_message option"
  arAgent :: agent_state
  arSent :: "agent_event list"

definition messageProgress :: "agent_message \<Rightarrow> agent_run \<Rightarrow> agent_run" where
  "messageProgress m r = r\<lparr>arPartial := Some m, arAgent := (arAgent r)\<lparr>agStream := Some m\<rparr>\<rparr>"

definition messageDone :: "agent_message \<Rightarrow> agent_run \<Rightarrow> agent_run" where
  "messageDone m r =
     r\<lparr>arPartial := None, arAgent := (appendAgentMessage m (arAgent r))\<lparr>agStream := None\<rparr>, arSent := arSent r @ [MessageEnd m]\<rparr>"

definition splitDone :: "assistant_message \<Rightarrow> agent_run \<Rightarrow> agent_run" where
  "splitDone m r =
     (let (s, evs) = emitCursorSplitAssistantMessage m (arAgent r) in r\<lparr>arPartial := None, arAgent := s, arSent := arSent r @ evs\<rparr>)"

definition sendOn :: "agent_event \<Rightarrow> agent_run \<Rightarrow> agent_run" where
  "sendOn e r = r\<lparr>arSent := arSent r @ [e]\<rparr>"

definition onAgent :: "(agent_state \<Rightarrow> agent_state) \<Rightarrow> agent_run \<Rightarrow> agent_run" where
  "onAgent f r = r\<lparr>arAgent := f (arAgent r)\<rparr>"

fun agentEvent :: "agent_event \<Rightarrow> agent_run \<Rightarrow> agent_run" where
  "agentEvent (MessageStart m) r = sendOn (MessageStart m) (messageProgress m r)"
| "agentEvent (MessageUpdate m) r = sendOn (MessageUpdate m) (messageProgress m r)"
| "agentEvent (MessageEnd (AssistantMessage m)) r =
     (if agCursor (arAgent r) \<noteq> [] then splitDone m r else messageDone (AssistantMessage m) r)"
| "agentEvent (MessageEnd m) r = messageDone m r"
| "agentEvent (ToolStart i n args t) r =
     sendOn (ToolStart i n args t) (onAgent (\<lambda>s. s\<lparr>agPendingCalls := addCall i (agPendingCalls s)\<rparr>) r)"
| "agentEvent (ToolEnd i n res b) r =
     sendOn (ToolEnd i n res b) (onAgent (\<lambda>s. s\<lparr>agPendingCalls := filter (\<lambda>j. j \<noteq> i) (agPendingCalls s)\<rparr>) r)"
| "agentEvent (TurnEnd m rs) r =
     sendOn (TurnEnd m rs) (onAgent (\<lambda>s. if truthy (amErrorMessage m) then s\<lparr>agError := amErrorMessage m\<rparr> else s) r)"
| "agentEvent (AgentEnd ms) r = sendOn (AgentEnd ms) (onAgent (\<lambda>s. s\<lparr>agStreaming := False, agStream := None\<rparr>) r)"
| "agentEvent e r = sendOn e r"

text \<open>An event from outside a run; it is sent on to the listeners.\<close>

fun emitExternalEvent :: "agent_event \<Rightarrow> agent_state \<Rightarrow> agent_state" where
  "emitExternalEvent (MessageStart m) s = s\<lparr>agStream := Some m\<rparr>"
| "emitExternalEvent (MessageUpdate m) s = s\<lparr>agStream := Some m\<rparr>"
| "emitExternalEvent (MessageEnd m) s = (appendAgentMessage m s)\<lparr>agStream := None\<rparr>"
| "emitExternalEvent (ToolStart i n args t) s = s\<lparr>agPendingCalls := addCall i (agPendingCalls s)\<rparr>"
| "emitExternalEvent (ToolEnd i n res b) s = s\<lparr>agPendingCalls := filter (\<lambda>j. j \<noteq> i) (agPendingCalls s)\<rparr>"
| "emitExternalEvent e s = s"

section \<open>The end of a run\<close>

definition settleAgent :: "agent_state \<Rightarrow> agent_state" where
  "settleAgent s = s\<lparr>agStreaming := False, agStream := None, agPendingCalls := []\<rparr>"

text \<open>A run that throws leaves a message that says so.\<close>

definition failAgent :: "loop_config \<Rightarrow> jstring \<Rightarrow> bool \<Rightarrow> agent_run \<Rightarrow> agent_run" where
  "failAgent conf err aborted r =
     (let m = AssistantMessage \<lparr>amContent = [TextBlock [] None], amProvider = lcProvider conf, amModel = lcModel conf,
          amUsage = noTokens, amStopReason = (if aborted then StopAborted else StopError), amErrorMessage = Some err\<rparr>
      in sendOn (AgentEnd [m]) (onAgent (\<lambda>s. settleAgent ((appendAgentMessage m s)\<lparr>agError := Some err\<rparr>)) r))"

fun hasSubstance :: "content_block \<Rightarrow> bool" where
  "hasSubstance (ThinkingBlock t s) = (trim t \<noteq> [])"
| "hasSubstance (TextBlock t s) = (trim t \<noteq> [])"
| "hasSubstance (CallBlock c) = (trim (tcName c) \<noteq> [])"
| "hasSubstance b = False"

text \<open>A message that was begun and never completed is kept when there is something in it.\<close>

definition finishAgent :: "loop_config \<Rightarrow> bool \<Rightarrow> agent_run \<Rightarrow> agent_run" where
  "finishAgent conf aborted r =
     (case arPartial r of
        Some (AssistantMessage m) \<Rightarrow>
          if amContent m = [] then onAgent settleAgent r
          else if list_ex hasSubstance (amContent m) then
            onAgent (\<lambda>s. settleAgent (appendAgentMessage (AssistantMessage m) s)) r
          else if aborted then failAgent conf (js ''Request was aborted'') True r
          else onAgent settleAgent r
      | _ \<Rightarrow> onAgent settleAgent r)"

definition consumeEvents :: "agent_event list \<Rightarrow> agent_state \<Rightarrow> agent_run" where
  "consumeEvents evs s = fold agentEvent evs \<lparr>arPartial = None, arAgent = s, arSent = []\<rparr>"

text \<open>\<open>#runLoop\<close>: the agent consumes what the loop has sent and, when the loop is over, ends the run.\<close>

definition agentRun :: "loop_config \<Rightarrow> bool \<Rightarrow> loop_state \<Rightarrow> agent_state \<Rightarrow> agent_run" where
  "agentRun conf aborted ls s =
     (let r = consumeEvents (lsEvents ls) (beginAgentRun s) in
      case lsStatus ls of
        LoopRunning \<Rightarrow> r
      | LoopEnded \<Rightarrow> finishAgent conf aborted r
      | LoopFailed err \<Rightarrow> failAgent conf err aborted r)"

end
