(* ===== verification/Ag_Session.thy ===== *)
theory Ag_Session
  imports Ag_Agent Ses_Tree_Facts
begin

text \<open>
  The part of \<open>AgentSession\<close> (packages/coding-agent/src/session/agent-session.ts) between the agent and the session manager: the queues of
  messages that the user interface shows beside the queues of the agent, custom messages, and the handler of the events of the
  agent, which takes a message off the shown queue when it starts and records it in the session when it is complete. The agent
  does not wait for the handler, and the handler waits for the extensions before it records: the messages whose handlers wait are
  part of the state, and any of them may be the next to go on. Left out are the other duties of the handler (notices, retries, rules,
  goals, the mark of a silent abort) and prompts.
\<close>

section \<open>State\<close>

record queue_entry =
  qeText :: jstring
  qeTag :: "jstring option"

record agent_session =
  asSteering :: "queue_entry list"
  asFollowUp :: "queue_entry list"
  asNextTurn :: "agent_message list"
  asInFlight :: nat
  asAgent :: agent_state
  asUnrecorded :: "agent_message list"
  asManager :: session_manager

definition sessionStreaming :: "agent_session \<Rightarrow> bool" where
  "sessionStreaming s \<longleftrightarrow> agStreaming (asAgent s) \<or> 0 < asInFlight s"

section \<open>Queues\<close>

definition imageText :: jstring where
  "imageText = js ''[Image]''"

definition displayText :: "jstring \<Rightarrow> content_block list \<Rightarrow> jstring" where
  "displayText t images = (if t \<noteq> [] then t else if images \<noteq> [] then imageText else [])"

definition queuedPrompt :: "jstring \<Rightarrow> content_block list \<Rightarrow> agent_message" where
  "queuedPrompt t images = UserMessage (BlockContent (TextBlock t None # images))"

definition queueSteer :: "jstring \<Rightarrow> content_block list \<Rightarrow> agent_session \<Rightarrow> agent_session" where
  "queueSteer t images s =
     s\<lparr>asSteering := asSteering s @ [\<lparr>qeText = displayText t images, qeTag = None\<rparr>],
       asAgent := steer (queuedPrompt t images) (asAgent s)\<rparr>"

definition canAutoContinueForFollowUp :: "bool \<Rightarrow> agent_session \<Rightarrow> bool" where
  "canAutoContinueForFollowUp retrying s \<longleftrightarrow>
     \<not> sessionStreaming s \<and> \<not> retrying \<and> agMessages (asAgent s) \<noteq> []
     \<and> (case last (agMessages (asAgent s)) of AssistantMessage m \<Rightarrow> True | _ \<Rightarrow> False)"

text \<open>Besides the state it tells whether the session schedules that the agent continues.\<close>

definition queueFollowUp :: "bool \<Rightarrow> jstring \<Rightarrow> content_block list \<Rightarrow> agent_session \<Rightarrow> bool \<times> agent_session" where
  "queueFollowUp retrying t images s =
     (let s' = s\<lparr>asFollowUp := asFollowUp s @ [\<lparr>qeText = displayText t images, qeTag = None\<rparr>],
        asAgent := followUp (queuedPrompt t images) (asAgent s)\<rparr>
      in (canAutoContinueForFollowUp retrying s', s'))"

text \<open>The text of a custom message that the caller is about to send, with the new tag that the message carries in its details.\<close>

definition enqueueCustomMessageDisplay :: "jstring \<Rightarrow> jstring \<Rightarrow> bool \<Rightarrow> agent_session \<Rightarrow> agent_session" where
  "enqueueCustomMessageDisplay tag t steers s =
     (let entry = \<lparr>qeText = trim t, qeTag = Some tag\<rparr> in
      if trim t = [] then s
      else if steers then s\<lparr>asSteering := asSteering s @ [entry]\<rparr>
      else s\<lparr>asFollowUp := asFollowUp s @ [entry]\<rparr>)"

definition queuedMessageCount :: "agent_session \<Rightarrow> nat" where
  "queuedMessageCount s = length (asSteering s) + length (asFollowUp s) + length (asNextTurn s)"

definition getQueuedMessages :: "agent_session \<Rightarrow> jstring list \<times> jstring list" where
  "getQueuedMessages s = (map qeText (asSteering s), map qeText (asFollowUp s))"

definition clearQueue :: "agent_session \<Rightarrow> (jstring list \<times> jstring list) \<times> agent_session" where
  "clearQueue s = (getQueuedMessages s, s\<lparr>asSteering := [], asFollowUp := [], asAgent := clearAllQueues (asAgent s)\<rparr>)"

definition popLastQueuedMessage :: "agent_session \<Rightarrow> jstring option \<times> agent_session" where
  "popLastQueuedMessage s =
     (if asSteering s \<noteq> [] then
        (Some (qeText (last (asSteering s))),
         s\<lparr>asSteering := butlast (asSteering s), asAgent := snd (popLastSteer (asAgent s))\<rparr>)
      else if asFollowUp s \<noteq> [] then
        (Some (qeText (last (asFollowUp s))),
         s\<lparr>asFollowUp := butlast (asFollowUp s), asAgent := snd (popLastFollowUp (asAgent s))\<rparr>)
      else (None, s))"

section \<open>Recording\<close>

definition persistMessage :: "id_source \<Rightarrow> int \<Rightarrow> agent_message \<Rightarrow> session_manager \<Rightarrow> session_manager" where
  "persistMessage src now m sm =
     (case m of
        HookMessage c t \<Rightarrow> snd (appendCustomMessageEntry src now c sm)
      | CustomMessage c t \<Rightarrow> snd (appendCustomMessageEntry src now c sm)
      | UserMessage c \<Rightarrow> snd (appendSessionMessage src now m sm)
      | DeveloperMessage c \<Rightarrow> snd (appendSessionMessage src now m sm)
      | AssistantMessage a \<Rightarrow> snd (appendSessionMessage src now m sm)
      | ToolResult r \<Rightarrow> snd (appendSessionMessage src now m sm)
      | FileMention fs \<Rightarrow> snd (appendSessionMessage src now m sm)
      | _ \<Rightarrow> sm)"

section \<open>Custom messages\<close>

datatype delivery = DeliverSteer | DeliverFollowUp | DeliverNextTurn

definition queueHiddenNextTurnMessage :: "agent_message \<Rightarrow> agent_session \<Rightarrow> agent_session" where
  "queueHiddenNextTurnMessage m s = s\<lparr>asNextTurn := asNextTurn s @ [m]\<rparr>"

text \<open>
  The message that a prompt of the agent starts with, if any, and the state. A client may take over the turns that an agent starts.
  That a hidden message may also schedule a prompt is left out.
\<close>

definition sendCustomMessage ::
  "id_source \<Rightarrow> int \<Rightarrow> bool \<Rightarrow> delivery option \<Rightarrow> bool \<Rightarrow> custom_message \<Rightarrow> agent_session \<Rightarrow> agent_message option \<times> agent_session" where
  "sendCustomMessage src now defers deliverAs triggerTurn c s =
     (let m = CustomMessage (c\<lparr>cmAttribution := (case cmAttribution c of Some a \<Rightarrow> Some a | None \<Rightarrow> Some (js ''agent''))\<rparr>) now in
      if sessionStreaming s then
        (None,
          case deliverAs of
            Some DeliverNextTurn \<Rightarrow> queueHiddenNextTurnMessage m s
          | Some DeliverFollowUp \<Rightarrow> s\<lparr>asAgent := followUp m (asAgent s)\<rparr>
          | _ \<Rightarrow> s\<lparr>asAgent := steer m (asAgent s)\<rparr>)
      else if triggerTurn then
        if defers then (None, queueHiddenNextTurnMessage m s) else (Some m, s)
      else
        (None, s\<lparr>asAgent := appendAgentMessage m (asAgent s), asManager := snd (appendCustomMessageEntry src now c (asManager s))\<rparr>))"

section \<open>Events of the agent\<close>

definition isImageBlock :: "content_block \<Rightarrow> bool" where
  "isImageBlock b \<longleftrightarrow> (case b of ImageBlock d t \<Rightarrow> True | _ \<Rightarrow> False)"

definition getUserMessageText :: "agent_message \<Rightarrow> jstring" where
  "getUserMessageText m =
     (case m of
        UserMessage (StringContent t) \<Rightarrow> t
      | UserMessage (BlockContent bs) \<Rightarrow>
          let t = concat (map (\<lambda>b. case b of TextBlock t g \<Rightarrow> t | _ \<Rightarrow> []) bs) in
          if t \<noteq> [] then t else if list_ex isImageBlock bs then imageText else []
      | _ \<Rightarrow> [])"

definition readPendingDisplayTag :: "js_val \<Rightarrow> jstring option" where
  "readPendingDisplayTag details =
     (case details of
        JObj members \<Rightarrow> (case objGet members (js ''__pendingDisplayTag'') of JStr t \<Rightarrow> Some t | _ \<Rightarrow> None)
      | _ \<Rightarrow> None)"

text \<open>The first entry that fits is taken off, from the steering messages before the follow-up messages.\<close>

definition spliceFirst :: "(queue_entry \<Rightarrow> bool) \<Rightarrow> queue_entry list \<Rightarrow> queue_entry list" where
  "spliceFirst P es = takeWhile (\<lambda>e. \<not> P e) es @ tl (dropWhile (\<lambda>e. \<not> P e) es)"

definition takeOff :: "(queue_entry \<Rightarrow> bool) \<Rightarrow> agent_session \<Rightarrow> agent_session" where
  "takeOff P s =
     (if list_ex P (asSteering s) then s\<lparr>asSteering := spliceFirst P (asSteering s)\<rparr>
      else s\<lparr>asFollowUp := spliceFirst P (asFollowUp s)\<rparr>)"

definition showDelivered :: "agent_message \<Rightarrow> agent_session \<Rightarrow> agent_session" where
  "showDelivered m s =
     (case m of
        UserMessage c \<Rightarrow>
          let t = getUserMessageText m in if t = [] then s else takeOff (\<lambda>e. qeText e = t) s
      | CustomMessage c t \<Rightarrow>
          let tag = readPendingDisplayTag (cmDetails c) in if truthy tag then takeOff (\<lambda>e. qeTag e = tag) s else s
      | _ \<Rightarrow> s)"

text \<open>What the handler does at once, and what it does after the extensions.\<close>

definition receiveEvent :: "agent_event \<Rightarrow> agent_session \<Rightarrow> agent_session" where
  "receiveEvent ev s =
     (case ev of
        MessageStart m \<Rightarrow> showDelivered m s
      | MessageEnd m \<Rightarrow> s\<lparr>asUnrecorded := asUnrecorded s @ [m]\<rparr>
      | _ \<Rightarrow> s)"

definition recordNext :: "nat \<Rightarrow> id_source \<Rightarrow> int \<Rightarrow> agent_session \<Rightarrow> agent_session" where
  "recordNext i src now s =
     s\<lparr>asUnrecorded := take i (asUnrecorded s) @ drop (Suc i) (asUnrecorded s),
       asManager := persistMessage src now (asUnrecorded s ! i) (asManager s)\<rparr>"

datatype session_step = Receive agent_event | Proceed nat id_source int

fun sessionStep :: "session_step \<Rightarrow> agent_session \<Rightarrow> agent_session option" where
  "sessionStep (Receive ev) s = Some (receiveEvent ev s)"
| "sessionStep (Proceed i src now) s = (if i < length (asUnrecorded s) then Some (recordNext i src now s) else None)"

fun runSession :: "session_step list \<Rightarrow> agent_session \<Rightarrow> agent_session option" where
  "runSession [] s = Some s"
| "runSession (x # xs) s = (case sessionStep x s of None \<Rightarrow> None | Some s' \<Rightarrow> runSession xs s')"

end
