(* ===== verification/Ag_Tools_Facts.thy ===== *)
theory Ag_Tools_Facts
  imports Ag_Tools "HOL-Library.Multiset"
begin

text \<open>
  What a batch of tool calls guarantees, however the runtime schedules it: one result for each call, exclusive tools alone, an end
  of every schedule, and nothing that starts after an interruption.
\<close>

section \<open>The parts of a batch\<close>

lemma setRecord_simps [simp]:
  "tbInterrupts (setRecord i f b) = tbInterrupts b" "tbTriggered (setRecord i f b) = tbTriggered b"
  "tbSteering (setRecord i f b) = tbSteering b" "tbResults (setRecord i f b) = tbResults b"
  "tbEvents (setRecord i f b) = tbEvents b" "length (tbRecords (setRecord i f b)) = length (tbRecords b)"
  "tbRecords (setRecord i f b) = (tbRecords b)[i := f (tbRecords b ! i)]"
  by (simp_all add: setRecord_def)

lemma sendEvents_simps [simp]:
  "tbInterrupts (sendEvents evs b) = tbInterrupts b" "tbTriggered (sendEvents evs b) = tbTriggered b"
  "tbSteering (sendEvents evs b) = tbSteering b" "tbResults (sendEvents evs b) = tbResults b"
  "tbEvents (sendEvents evs b) = tbEvents b @ evs" "tbRecords (sendEvents evs b) = tbRecords b"
  by (simp_all add: sendEvents_def)

lemma setStatus_simps [simp]:
  "crCall (setStatus st r) = crCall r" "crMessage (setStatus st r) = crMessage r" "crStatus (setStatus st r) = st"
  "crDeps (setStatus st r) = crDeps r" "crTool (setStatus st r) = crTool r"
  by (simp_all add: setStatus_def)

text \<open>The statuses as a list, and what each operation does to it.\<close>

definition statuses :: "tool_batch \<Rightarrow> call_status list" where
  "statuses b = map crStatus (tbRecords b)"

lemma statusOf_statuses: "i < length (tbRecords b) \<Longrightarrow> statusOf b i = statuses b ! i"
  by (simp add: statusOf_def statuses_def)

lemma length_statuses [simp]: "length (statuses b) = length (tbRecords b)"
  by (simp add: statuses_def)

definition isBusy :: "call_status \<Rightarrow> bool" where
  "isBusy st \<longleftrightarrow> st = CallRunning \<or> st = CallPolling \<or> st = CallAwaiting"

definition afterCheck :: "call_status \<Rightarrow> call_status list \<Rightarrow> call_status list" where
  "afterCheck st = map (\<lambda>x. if x = CallPolling \<or> x = CallAwaiting then st else x)"

definition emitted :: "(js_val \<Rightarrow> token_usage) \<Rightarrow> nat \<Rightarrow> bool \<Rightarrow> tool_outcome \<Rightarrow> bool \<Rightarrow> tool_batch \<Rightarrow> tool_batch" where
  "emitted asUsage i started result isError b =
     (let r = tbRecords b ! i; msg = resultMessage asUsage (crCall r) result isError in
      b\<lparr>tbRecords := (tbRecords b)[i := r\<lparr>crMessage := Some msg\<rparr>], tbResults := tbResults b @ [msg],
        tbEvents := tbEvents b @ (if started then [] else [ToolStart (tcId (crCall r)) (tcName (crCall r)) (crArgs r) None])
          @ [ToolEnd (tcId (crCall r)) (tcName (crCall r)) result isError, MessageStart (ToolResult msg), MessageEnd (ToolResult msg)]\<rparr>)"

lemma emitToolResult_eq:
  "emitToolResult asUsage i started result isError b =
     (if crMessage (tbRecords b ! i) \<noteq> None then b else emitted asUsage i started result isError b)"
  by (cases b) (simp add: emitToolResult_def emitted_def Let_def setRecord_def sendEvents_def)

lemma emitted_simps [simp]:
  "tbInterrupts (emitted asUsage i started result isError b) = tbInterrupts b"
  "tbTriggered (emitted asUsage i started result isError b) = tbTriggered b"
  "tbSteering (emitted asUsage i started result isError b) = tbSteering b"
  "tbResults (emitted asUsage i started result isError b) =
     tbResults b @ [resultMessage asUsage (crCall (tbRecords b ! i)) result isError]"
  "tbRecords (emitted asUsage i started result isError b) =
     (tbRecords b)[i := (tbRecords b ! i)\<lparr>crMessage := Some (resultMessage asUsage (crCall (tbRecords b ! i)) result isError)\<rparr>]"
  "endedMessages (tbEvents (emitted asUsage i started result isError b)) =
     endedMessages (tbEvents b) @ [ToolResult (resultMessage asUsage (crCall (tbRecords b ! i)) result isError)]"
  by (simp_all add: emitted_def Let_def)

lemma finishCall_emits:
  obtains sent failed where "tbTriggered b \<Longrightarrow> sent = createSkippedToolResult \<and> failed"
    "finishCall asUsage i hooks b = beginCheck i (emitToolResult asUsage i True sent failed b)"
proof (cases "tbTriggered b")
  case True
  then show thesis using that [of createSkippedToolResult True] by (simp add: finishCall_def Let_def split: prod.split)
next
  case False
  obtain result isError where "callOutcome hooks (crTool (tbRecords b ! i)) (crCall (tbRecords b ! i))
      (crArgs (tbRecords b ! i)) = (result, isError)" by fastforce
  then show thesis using that [of result isError] False by (simp add: finishCall_def Let_def)
qed

lemma polling_iff: "list_ex (\<lambda>r. crStatus r = CallPolling) (tbRecords b) \<longleftrightarrow> CallPolling \<in> set (statuses b)"
  unfolding list_ex_iff statuses_def set_map image_iff by metis

text \<open>The steps by what they do to the batch.\<close>

lemma batchStep_cases [consumes 1, case_names skip start reject update finish answer fails]:
  assumes "batchStep asUsage intentTracing c b = Some b'"
  obtains
    i derive where "c = StartCall i derive" "i < length (tbRecords b)" "statusOf b i = CallWaiting"
      "\<forall>d \<in> set (crDeps (tbRecords b ! i)). statusOf b d = CallDone" "tbTriggered b" "b' = setRecord i (setStatus CallDone) b"
  | i derive args intent where "c = StartCall i derive" "i < length (tbRecords b)" "statusOf b i = CallWaiting"
      "\<forall>d \<in> set (crDeps (tbRecords b ! i)). statusOf b d = CallDone" "\<not> tbTriggered b"
      "b' = sendEvents [ToolStart (tcId (crCall (tbRecords b ! i))) (tcName (crCall (tbRecords b ! i))) args intent]
         (setRecord i (\<lambda>r. r\<lparr>crArgs := args, crStatus := CallRunning\<rparr>) b)"
  | i where "c = RejectCall i" "i < length (tbRecords b)" "statusOf b i = CallWaiting"
      "\<exists>d \<in> set (crDeps (tbRecords b ! i)). statusOf b d = CallRejected" "b' = setRecord i (setStatus CallRejected) b"
  | i args sanitize raw where "c = UpdateCall i args sanitize raw" "i < length (tbRecords b)" "statusOf b i = CallRunning"
      "b' = sendEvents [ToolUpdate (tcId (crCall (tbRecords b ! i))) (tcName (crCall (tbRecords b ! i))) args
         (fst (coerceToolResult sanitize raw))] b"
  | i hooks result isError where "c = FinishCall i hooks" "i < length (tbRecords b)" "statusOf b i = CallRunning"
      "tbTriggered b \<Longrightarrow> result = createSkippedToolResult \<and> isError"
      "b' = beginCheck i (emitToolResult asUsage i True result isError b)"
  | messages where "c = SteeringAnswer messages" "CallPolling \<in> set (statuses b)"
      "b' = endCheck CallDone (if messages = [] then b else b\<lparr>tbSteering := Some messages, tbTriggered := True\<rparr>)"
  | "c = SteeringFails" "CallPolling \<in> set (statuses b)" "b' = endCheck CallRejected b"
proof (cases c)
  case (StartCall i derive)
  then show thesis
    using assms that(1) [OF StartCall] that(2) [OF StartCall]
    by (auto simp: batchStep_def startCall_def Let_def split: if_splits prod.splits)
next
  case (RejectCall i)
  then show thesis using assms that(3) [OF RejectCall] by (auto simp: batchStep_def split: if_splits)
next
  case (UpdateCall i args sanitize raw)
  then show thesis using assms that(4) [OF UpdateCall] by (auto simp: batchStep_def Let_def split: if_splits)
next
  case (FinishCall i hooks)
  then have b': "i < length (tbRecords b)" "statusOf b i = CallRunning" "b' = finishCall asUsage i hooks b"
    using assms by (auto simp: batchStep_def split: if_splits)
  obtain sent failed where "tbTriggered b \<Longrightarrow> sent = createSkippedToolResult \<and> failed"
    "finishCall asUsage i hooks b = beginCheck i (emitToolResult asUsage i True sent failed b)"
    using finishCall_emits [of b asUsage i hooks] by blast
  then show thesis using that(5) [OF FinishCall b'(1,2), of sent failed] b'(3) by simp
next
  case (SteeringAnswer messages)
  then show thesis
    using assms that(6) [OF SteeringAnswer] by (auto simp: batchStep_def polling_iff split: if_splits)
next
  case SteeringFails
  then show thesis using assms that(7) by (auto simp: batchStep_def polling_iff split: if_splits)
qed

text \<open>What never changes, and the statuses after each kind of step.\<close>

definition shapeOf :: "call_record \<Rightarrow> tool_call \<times> agent_tool option \<times> nat list" where
  "shapeOf r = (crCall r, crTool r, crDeps r)"

definition batchShape :: "tool_batch \<Rightarrow> (tool_call \<times> agent_tool option \<times> nat list) list" where
  "batchShape b = map shapeOf (tbRecords b)"

lemma map_update_id: "(map g xs)[i := g (xs ! i)] = map g xs"
  by (metis list_update_id map_update)

lemma shapeOf_simps [simp]:
  "shapeOf (setStatus st r) = shapeOf r" "shapeOf (r\<lparr>crArgs := args, crStatus := st\<rparr>) = shapeOf r"
  "shapeOf (r\<lparr>crMessage := msg\<rparr>) = shapeOf r"
  by (simp_all add: shapeOf_def)

lemma batchShape_simps [simp]:
  "batchShape (sendEvents evs b) = batchShape b"
  "batchShape (setRecord i (setStatus st) b) = batchShape b"
  "batchShape (setRecord i (\<lambda>r. r\<lparr>crArgs := args, crStatus := st\<rparr>) b) = batchShape b"
  "batchShape (emitted asUsage i started result isError b) = batchShape b"
  "batchShape (beginCheck i b) = batchShape b"
  "batchShape (endCheck st b) = batchShape b"
  "batchShape (b\<lparr>tbSteering := ms, tbTriggered := t\<rparr>) = batchShape b"
  by (simp_all add: batchShape_def beginCheck_def endCheck_def map_update map_update_id)

lemma statuses_simps [simp]:
  "statuses (sendEvents evs b) = statuses b"
  "statuses (setRecord i (setStatus st) b) = (statuses b)[i := st]"
  "statuses (setRecord i (\<lambda>r. r\<lparr>crArgs := args, crStatus := st\<rparr>) b) = (statuses b)[i := st]"
  "statuses (emitted asUsage i started result isError b) = statuses b"
  "statuses (endCheck st b) = afterCheck st (statuses b)"
  "statuses (b\<lparr>tbSteering := ms, tbTriggered := t\<rparr>) = statuses b"
  by (simp_all add: statuses_def map_update map_update_id endCheck_def afterCheck_def)

lemma batchStep_shape: "batchStep asUsage intentTracing c b = Some b' \<Longrightarrow> batchShape b' = batchShape b"
  by (erule batchStep_cases) (simp_all add: emitToolResult_eq)

section \<open>One result for each call\<close>

definition callTag :: "tool_call \<Rightarrow> jstring \<times> jstring" where
  "callTag c = (tcId c, tcName c)"

definition resultTag :: "tool_result \<Rightarrow> jstring \<times> jstring" where
  "resultTag r = (tmCallId r, tmToolName r)"

lemma resultTag_resultMessage [simp]: "resultTag (resultMessage asUsage c result isError) = callTag c"
  by (simp add: resultTag_def callTag_def resultMessage_def)

definition hasResult :: "call_record \<Rightarrow> bool" where
  "hasResult r \<longleftrightarrow> crMessage r \<noteq> None"

lemma hasResult_simps [simp]:
  "hasResult (setStatus st r) = hasResult r" "hasResult (r\<lparr>crMessage := Some msg\<rparr>)"
  "hasResult (r\<lparr>crArgs := args, crStatus := st\<rparr>) = hasResult r"
  by (simp_all add: hasResult_def)

text \<open>The results sent are those of the calls that have one, each reported as a message; a call that waits or runs has none.\<close>

definition answeredTags :: "call_record list \<Rightarrow> (jstring \<times> jstring) multiset" where
  "answeredTags rs = image_mset (\<lambda>r. callTag (crCall r)) (filter_mset hasResult (mset rs))"

definition resultsOk :: "tool_batch \<Rightarrow> bool" where
  "resultsOk b \<longleftrightarrow> image_mset resultTag (mset (tbResults b)) = answeredTags (tbRecords b)
     \<and> endedMessages (tbEvents b) = map ToolResult (tbResults b)
     \<and> (\<forall>r \<in> set (tbRecords b). crStatus r = CallWaiting \<or> crStatus r = CallRunning \<longrightarrow> \<not> hasResult r)"

lemma answeredTags_list: "answeredTags rs = mset (map (\<lambda>r. callTag (crCall r)) (filter hasResult rs))"
  by (simp add: answeredTags_def)

lemma answeredTags_update:
  assumes "i < length rs" and "crCall y = crCall (rs ! i)" and "hasResult y = hasResult (rs ! i)"
  shows "answeredTags (rs[i := y]) = answeredTags rs"
proof -
  have "rs ! i \<in># mset rs" using assms(1) by simp
  then obtain M where "mset rs = add_mset (rs ! i) M" by (metis multi_member_split)
  then show ?thesis using assms by (simp add: answeredTags_def mset_update)
qed

lemma answeredTags_message:
  assumes "i < length rs" and "\<not> hasResult (rs ! i)"
  shows "answeredTags (rs[i := (rs ! i)\<lparr>crMessage := Some msg\<rparr>]) = add_mset (callTag (crCall (rs ! i))) (answeredTags rs)"
proof -
  have "rs ! i \<in># mset rs" using assms(1) by simp
  then obtain M where "mset rs = add_mset (rs ! i) M" by (metis multi_member_split)
  then show ?thesis using assms by (simp add: answeredTags_def mset_update)
qed

lemma answeredTags_map:
  "(\<And>r. crCall (f r) = crCall r \<and> hasResult (f r) = hasResult r) \<Longrightarrow> answeredTags (map f rs) = answeredTags rs"
  by (induction rs) (simp_all add: answeredTags_def)

lemma set_update_cases: "x \<in> set (xs[i := y]) \<Longrightarrow> x = y \<or> x \<in> set xs"
  by (meson insert_iff set_update_subset_insert subsetD)

lemma resultsOk_emitted:
  assumes "resultsOk b" and "i < length (tbRecords b)" and "\<not> hasResult (tbRecords b ! i)"
    and "st \<noteq> CallWaiting" and "st \<noteq> CallRunning"
  shows "resultsOk (setRecord i (setStatus st) (emitted asUsage i started result isError b))"
proof -
  let ?msg = "resultMessage asUsage (crCall (tbRecords b ! i)) result isError"
  have "answeredTags ((tbRecords b)[i := setStatus st ((tbRecords b ! i)\<lparr>crMessage := Some ?msg\<rparr>)])
      = answeredTags ((tbRecords b)[i := (tbRecords b ! i)\<lparr>crMessage := Some ?msg\<rparr>])"
    using answeredTags_update [of i "(tbRecords b)[i := (tbRecords b ! i)\<lparr>crMessage := Some ?msg\<rparr>]"
        "setStatus st ((tbRecords b ! i)\<lparr>crMessage := Some ?msg\<rparr>)"] assms(2) by simp
  then have "answeredTags (tbRecords (setRecord i (setStatus st) (emitted asUsage i started result isError b)))
      = add_mset (callTag (crCall (tbRecords b ! i))) (answeredTags (tbRecords b))"
    using answeredTags_message [OF assms(2,3)] assms(2) by simp
  then show ?thesis
    using assms(1,2,4,5) by (auto simp: resultsOk_def dest!: set_update_cases)
qed

lemma resultsOk_setRecord:
  assumes "resultsOk b" and "i < length (tbRecords b)" and "crCall (f (tbRecords b ! i)) = crCall (tbRecords b ! i)"
    and "hasResult (f (tbRecords b ! i)) = hasResult (tbRecords b ! i)"
    and "crStatus (f (tbRecords b ! i)) = CallRunning \<longrightarrow> \<not> hasResult (tbRecords b ! i)"
    and "crStatus (f (tbRecords b ! i)) \<noteq> CallWaiting"
  shows "resultsOk (setRecord i f b)"
  using assms answeredTags_update [OF assms(2-4)] by (auto simp: resultsOk_def dest!: set_update_cases)

lemma resultsOk_events: "resultsOk b \<Longrightarrow> endedMessages evs = [] \<Longrightarrow> resultsOk (sendEvents evs b)"
  by (simp add: resultsOk_def)

lemma resultsOk_endCheck: "resultsOk b \<Longrightarrow> st \<noteq> CallWaiting \<Longrightarrow> st \<noteq> CallRunning \<Longrightarrow> resultsOk (endCheck st b)"
  by (auto simp: resultsOk_def endCheck_def answeredTags_map)

lemma resultsOk_flags: "resultsOk b \<Longrightarrow> resultsOk (b\<lparr>tbSteering := ms, tbTriggered := t\<rparr>)"
  by (simp add: resultsOk_def)

lemma resultsOk_open: "resultsOk b \<Longrightarrow> i < length (tbRecords b) \<Longrightarrow>
    statusOf b i = CallWaiting \<or> statusOf b i = CallRunning \<Longrightarrow> \<not> hasResult (tbRecords b ! i)"
  by (auto simp: resultsOk_def statusOf_def)

lemma beginCheck_status: "\<exists>st. st \<noteq> CallWaiting \<and> st \<noteq> CallRunning \<and> beginCheck i b = setRecord i (setStatus st) b"
  unfolding beginCheck_def by (rule exI, intro conjI, rule_tac [3] refl) auto

lemma batchStep_results:
  assumes "batchStep asUsage intentTracing c b = Some b'" and "resultsOk b"
  shows "resultsOk b'"
  using assms(1)
proof (cases rule: batchStep_cases)
  case (start i derive args intent)
  then show ?thesis using assms(2) resultsOk_open [of b i] by (auto intro!: resultsOk_events resultsOk_setRecord)
next
  case (finish i hooks result isError)
  then have "\<not> hasResult (tbRecords b ! i)" using assms(2) resultsOk_open by blast
  moreover obtain st where "st \<noteq> CallWaiting" "st \<noteq> CallRunning"
    "beginCheck i (emitted asUsage i True result isError b) = setRecord i (setStatus st) (emitted asUsage i True result isError b)"
    using beginCheck_status by blast
  ultimately show ?thesis using resultsOk_emitted [OF assms(2) finish(2)] finish(5) by (simp add: emitToolResult_eq hasResult_def)
qed (auto intro!: resultsOk_events resultsOk_setRecord resultsOk_endCheck resultsOk_flags assms(2))

lemma runChoices_invariant:
  assumes "runChoices asUsage intentTracing cs b = Some b'" and "I b"
    and "\<And>c b b'. batchStep asUsage intentTracing c b = Some b' \<Longrightarrow> I b \<Longrightarrow> I b'"
  shows "I b'"
  using assms(1,2)
proof (induction cs arbitrary: b)
  case (Cons c cs)
  then show ?case using assms(3) by (auto split: option.splits)
qed simp

lemma length_dependencies [simp]: "length (dependencies i ls ss es) = length es"
  by (induction i ls ss es rule: dependencies.induct) simp_all

lemma batchShape_start:
  "batchShape (startBatch tools interrupts calls) =
     map2 (\<lambda>c ds. (c, findTool tools (tcName c), ds)) calls
       (dependencies 0 [] [] (map (\<lambda>c. isExclusive (findTool tools (tcName c))) calls))"
  by (rule nth_equalityI) (simp_all add: batchShape_def startBatch_def shapeOf_def Let_def o_def)

lemma crCalls_shape: "map crCall (tbRecords b) = map fst (batchShape b)"
  by (simp add: batchShape_def shapeOf_def o_def)

lemma resultsOk_start: "resultsOk (startBatch tools interrupts calls)"
proof -
  let ?b = "startBatch tools interrupts calls"
  have fresh: "\<forall>r \<in> set (tbRecords ?b). \<not> hasResult r"
    by (auto simp: startBatch_def Let_def hasResult_def set_zip)
  then have "answeredTags (tbRecords ?b) = {#}" by (simp add: answeredTags_list)
  then show ?thesis using fresh by (auto simp: resultsOk_def startBatch_def Let_def)
qed

text \<open>The sweep leaves no call without a result.\<close>

lemma sweep_step:
  fixes asUsage :: "js_val \<Rightarrow> token_usage"
  assumes "resultsOk b" and "settled b" and "i < length (tbRecords b)"
  defines "b' \<equiv> emitToolResult asUsage i False createSkippedToolResult True b"
  shows "resultsOk b' \<and> settled b' \<and> batchShape b' = batchShape b \<and> hasResult (tbRecords b' ! i)
    \<and> (\<forall>j < length (tbRecords b). hasResult (tbRecords b ! j) \<longrightarrow> hasResult (tbRecords b' ! j)) \<and> tbSteering b' = tbSteering b"
proof (cases "hasResult (tbRecords b ! i)")
  case False
  let ?b = "emitted asUsage i False createSkippedToolResult True b" and ?st = "crStatus (tbRecords b ! i)"
  have st: "?st \<noteq> CallWaiting" "?st \<noteq> CallRunning" using assms(2,3) by (auto simp: settled_def list_all_length)
  have "setRecord i (setStatus ?st) ?b = ?b"
    using assms(3) by (cases "tbRecords b ! i") (simp add: setRecord_def setStatus_def emitted_def Let_def)
  then have "resultsOk ?b" using resultsOk_emitted [OF assms(1,3) False st, of asUsage False createSkippedToolResult True] by simp
  moreover have "settled ?b"
    using assms(2,3) by (auto simp: settled_def list_all_length nth_list_update)
  ultimately show ?thesis
    using assms(3) False by (auto simp: b'_def emitToolResult_eq hasResult_def nth_list_update)
qed (use assms in \<open>auto simp: emitToolResult_eq hasResult_def\<close>)

lemma sweep_all:
  fixes asUsage :: "js_val \<Rightarrow> token_usage"
  assumes "resultsOk b" and "settled b" and "k \<le> length (tbRecords b)"
  defines "b' \<equiv> fold (\<lambda>i. emitToolResult asUsage i False createSkippedToolResult True) [0..<k] b"
  shows "resultsOk b' \<and> settled b' \<and> batchShape b' = batchShape b \<and> (\<forall>j < k. hasResult (tbRecords b' ! j))
    \<and> tbSteering b' = tbSteering b"
  using assms(3) unfolding b'_def
proof (induction k)
  case (Suc k)
  let ?b = "fold (\<lambda>i. emitToolResult asUsage i False createSkippedToolResult True) [0..<k] b"
  have IH: "resultsOk ?b" "settled ?b" "batchShape ?b = batchShape b" "\<forall>j < k. hasResult (tbRecords ?b ! j)"
    "tbSteering ?b = tbSteering b" using Suc by auto
  have len: "length (tbRecords ?b) = length (tbRecords b)" using IH(3) by (metis batchShape_def length_map)
  show ?case using sweep_step [OF IH(1,2), of k asUsage] IH len Suc.prems by (auto simp: less_Suc_eq)
qed (use assms in simp)

lemma sweep_answers:
  assumes "resultsOk b" and "settled b"
  shows "mset (map resultTag (tbResults (sweep asUsage b))) = mset (map callTag (map crCall (tbRecords b)))
    \<and> endedMessages (tbEvents (sweep asUsage b)) = map ToolResult (tbResults (sweep asUsage b))
    \<and> tbSteering (sweep asUsage b) = tbSteering b"
proof -
  let ?b = "sweep asUsage b"
  have b: "resultsOk ?b" "batchShape ?b = batchShape b" "\<forall>j < length (tbRecords b). hasResult (tbRecords ?b ! j)"
    "tbSteering ?b = tbSteering b"
    using sweep_all [OF assms order_refl, of asUsage] by (simp_all add: sweep_def)
  have "length (tbRecords ?b) = length (tbRecords b)" using b(2) by (metis batchShape_def length_map)
  then have "filter hasResult (tbRecords ?b) = tbRecords ?b" using b(3) by (simp add: filter_id_conv all_set_conv_all_nth)
  then have "answeredTags (tbRecords ?b) = mset (map callTag (map crCall (tbRecords ?b)))"
    by (simp add: answeredTags_list o_def)
  then show ?thesis using b by (simp add: resultsOk_def crCalls_shape)
qed

text \<open>C11 Every tool call gets exactly one result. However the runtime schedules the calls of a turn, whatever tools, hooks and
  polls answer or throw, a batch that ends has sent for each call one result with its id and name, in the order in which it
  returns them, each reported as a complete message.\<close>

theorem batch_answers_every_call:
  assumes "executeToolCalls asUsage intentTracing tools interrupts calls choices = Some b"
  shows "mset (map (\<lambda>r. (tmCallId r, tmToolName r)) (tbResults b)) = mset (map (\<lambda>c. (tcId c, tcName c)) calls)
    \<and> endedMessages (tbEvents b) = map ToolResult (tbResults b)"
proof -
  let ?b0 = "startBatch tools interrupts calls"
  obtain b1 where b1: "runChoices asUsage intentTracing choices ?b0 = Some b1" "settled b1" "b = sweep asUsage b1"
    using assms by (auto simp: executeToolCalls_def split: option.splits if_splits)
  have "resultsOk b1" using runChoices_invariant [OF b1(1), of resultsOk] resultsOk_start batchStep_results by blast
  moreover have "batchShape b1 = batchShape ?b0"
    using runChoices_invariant [OF b1(1), of "\<lambda>b. batchShape b = batchShape ?b0"] batchStep_shape by simp
  then have "map crCall (tbRecords b1) = calls" by (simp add: crCalls_shape batchShape_start o_def case_prod_beta)
  ultimately show ?thesis
    using sweep_answers [OF _ b1(2), of asUsage] b1(3) by (simp add: resultTag_def [abs_def] callTag_def [abs_def])
qed

end
