(* ===== verification/Ag_Tools_Order.thy ===== *)
theory Ag_Tools_Order
  imports Ag_Tools_Facts
begin

text \<open>
  The order of the calls of a batch: an exclusive tool runs alone, every schedule ends, and an interruption stops what has not
  begun.
\<close>

section \<open>The dependencies\<close>

text \<open>A call waits for every earlier one that it may not run beside, or for an exclusive one after that.\<close>

lemma dependencies_reach:
  fixes i :: nat and ls ss :: "nat list"
  assumes "k < length es"
  defines "ds \<equiv> set (dependencies i ls ss es ! k)"
  shows "(\<forall>x \<in> set ls. x \<in> ds \<or> (\<exists>m < k. i + m \<in> ds \<and> es ! m))
    \<and> (\<forall>x \<in> set ss. es ! k \<longrightarrow> x \<in> ds \<or> (\<exists>m < k. i + m \<in> ds \<and> es ! m))
    \<and> (\<forall>x < k. es ! x \<or> es ! k \<longrightarrow> i + x \<in> ds \<or> (\<exists>m < k. x < m \<and> i + m \<in> ds \<and> es ! m))
    \<and> ds \<subseteq> set ls \<union> set ss \<union> {i..<i + k}"
  using assms(1) unfolding ds_def
proof (induction es arbitrary: i ls ss k)
  case (Cons e es)
  show ?case
  proof (cases k)
    case (Suc k')
    let ?ls = "if e then [i] else ls" and ?ss = "if e then [] else ss @ [i]"
    let ?ds = "set (dependencies (Suc i) ?ls ?ss es ! k')"
    have ds: "set (dependencies i ls ss (e # es) ! k) = ?ds" using Suc by simp
    have k': "k' < length es" using Cons.prems Suc by simp
    note IH = Cons.IH [OF k', where i = "Suc i" and ls = ?ls and ss = ?ss]
    have later: "\<exists>m < k. i + m \<in> ?ds \<and> (e # es) ! m \<and> n < m" if "n = 0" "m < k'" "Suc i + m \<in> ?ds" "es ! m" for m n
      using that Suc by (intro exI [of _ "Suc m"]) simp
    have first: "e \<Longrightarrow> i \<in> ?ds \<or> (\<exists>m < k. i + m \<in> ?ds \<and> (e # es) ! m \<and> 0 < m)"
      using IH later [of 0] by auto
    have here: "\<exists>m < k. i + m \<in> ?ds \<and> (e # es) ! m" if e
      using first [OF that] Suc that by (auto intro: exI [of _ 0])
    have old: "x \<in> ?ds \<or> (\<exists>m < k. i + m \<in> ?ds \<and> (e # es) ! m)" if "x \<in> set ls \<or> x \<in> set ss \<and> es ! k'" for x
      using here IH later [of 0] that by (cases e) auto
    have "i + x \<in> ?ds \<or> (\<exists>m < k. x < m \<and> i + m \<in> ?ds \<and> (e # es) ! m)"
      if "x < k" "(e # es) ! x \<or> (e # es) ! k" for x
    proof (cases x)
      case 0
      then show ?thesis using first IH later [of 0] that Suc by (cases e) auto
    next
      case (Suc x')
      then have "x' < k'" "es ! x' \<or> es ! k'" using that \<open>k = Suc k'\<close> by auto
      then have "Suc i + x' \<in> ?ds \<or> (\<exists>m < k'. x' < m \<and> Suc i + m \<in> ?ds \<and> es ! m)" using IH by blast
      then show ?thesis
      proof
        assume "\<exists>m < k'. x' < m \<and> Suc i + m \<in> ?ds \<and> es ! m"
        then obtain m where "m < k'" "x' < m" "Suc i + m \<in> ?ds" "es ! m" by blast
        then show ?thesis using Suc \<open>k = Suc k'\<close> by (intro disjI2 exI [of _ "Suc m"]) simp
      qed (simp add: Suc)
    qed
    moreover have "?ds \<subseteq> set ls \<union> set ss \<union> {i..<i + k}"
    proof -
      have "?ds \<subseteq> set ?ls \<union> set ?ss \<union> {Suc i..<Suc i + k'}" using IH by blast
      also have "\<dots> \<subseteq> set ls \<union> set ss \<union> {i..<i + k}" using Suc by (auto split: if_splits)
      finally show ?thesis .
    qed
    ultimately show ?thesis unfolding ds using old Suc by auto
  qed auto
qed simp

section \<open>The statuses alone\<close>

text \<open>The steps of a batch as the statuses show them, for given dependencies.\<close>

inductive status_step :: "nat list list \<Rightarrow> call_status list \<Rightarrow> call_status list \<Rightarrow> bool" for ds where
  started: "status_step ds sts (sts[i := st])"
    if "i < length sts" "sts ! i = CallWaiting" "\<forall>d \<in> set (ds ! i). sts ! d = CallDone" "st = CallRunning \<or> st = CallDone"
| refused: "status_step ds sts (sts[i := CallRejected])"
    if "i < length sts" "sts ! i = CallWaiting"
| finished: "status_step ds sts (sts[i := st])"
    if "i < length sts" "sts ! i = CallRunning" "st = CallDone \<or> st = CallPolling \<and> CallPolling \<notin> set sts
      \<or> st = CallAwaiting \<and> CallPolling \<in> set sts"
| checked: "status_step ds sts (afterCheck st sts)"
    if "CallPolling \<in> set sts" "st = CallDone \<or> st = CallRejected"

definition depsOf :: "tool_batch \<Rightarrow> nat list list" where
  "depsOf b = map (\<lambda>(c, t, ds). ds) (batchShape b)"

fun isUpdate :: "batch_choice \<Rightarrow> bool" where
  "isUpdate (UpdateCall i args sanitize raw) = True"
| "isUpdate c = False"

lemma depsOf_nth: "i < length (tbRecords b) \<Longrightarrow> depsOf b ! i = crDeps (tbRecords b ! i)"
  by (simp add: depsOf_def batchShape_def shapeOf_def)

definition depsBounded :: "tool_batch \<Rightarrow> bool" where
  "depsBounded b \<longleftrightarrow> (\<forall>i < length (tbRecords b). \<forall>d \<in> set (depsOf b ! i). d < i)"

text \<open>The batch refines the statuses; an update leaves them as they are.\<close>

lemma batchStep_refines:
  assumes "batchStep asUsage intentTracing c b = Some b'" and "depsBounded b"
  shows "if isUpdate c then statuses b' = statuses b else status_step (depsOf b) (statuses b) (statuses b')"
  using assms(1)
proof (cases rule: batchStep_cases)
  case (skip i derive)
  have "\<forall>d \<in> set (depsOf b ! i). statuses b ! d = CallDone"
    using skip assms(2) by (metis depsBounded_def depsOf_nth order.strict_trans statusOf_statuses)
  then have "status_step (depsOf b) (statuses b) ((statuses b)[i := CallDone])"
    using skip by (intro status_step.started) (simp_all add: statusOf_statuses)
  then show ?thesis using skip by simp
next
  case (start i derive args intent)
  have "\<forall>d \<in> set (depsOf b ! i). statuses b ! d = CallDone"
    using start assms(2) by (metis depsBounded_def depsOf_nth order.strict_trans statusOf_statuses)
  then have "status_step (depsOf b) (statuses b) ((statuses b)[i := CallRunning])"
    using start by (intro status_step.started) (simp_all add: statusOf_statuses)
  then show ?thesis using start by simp
next
  case (reject i)
  then show ?thesis by (auto intro!: status_step.refused simp: statusOf_statuses)
next
  case (finish i hooks result isError)
  have "statuses (emitToolResult asUsage i True result isError b) = statuses b" by (simp add: emitToolResult_eq)
  then have "\<exists>st. statuses b' = (statuses b)[i := st] \<and> (st = CallDone \<or> st = CallPolling \<and> CallPolling \<notin> set (statuses b)
      \<or> st = CallAwaiting \<and> CallPolling \<in> set (statuses b))"
    unfolding finish(5) by (auto simp: beginCheck_def polling_iff)
  then show ?thesis using finish by (auto intro!: status_step.finished simp: statusOf_statuses)
qed (auto intro!: status_step.checked)

section \<open>Exclusive tools\<close>

definition ordered :: "bool list \<Rightarrow> call_status list \<Rightarrow> bool" where
  "ordered es sts \<longleftrightarrow> (\<forall>j < length sts. \<forall>i < j. es ! i \<or> es ! j \<longrightarrow>
     sts ! j = CallWaiting \<or> sts ! j = CallRejected \<or> sts ! i = CallDone)"

lemma status_step_length: "status_step ds sts sts' \<Longrightarrow> length sts' = length sts"
  by (erule status_step.cases) (simp_all add: afterCheck_def)

text \<open>A call that is done stays done, one that starts had nothing before it to wait for.\<close>

lemma ordered_update:
  assumes "ordered es sts" and "sts ! i \<noteq> CallDone"
    and "st \<noteq> CallWaiting \<and> st \<noteq> CallRejected \<Longrightarrow> \<forall>x < i. es ! x \<or> es ! i \<longrightarrow> sts ! x = CallDone"
  shows "ordered es (sts[i := st])"
  unfolding ordered_def
proof (intro allI impI)
  fix j x assume jx: "j < length (sts[i := st])" "x < j" "es ! x \<or> es ! j"
  then have old: "sts ! j = CallWaiting \<or> sts ! j = CallRejected \<or> sts ! x = CallDone"
    using assms(1) unfolding ordered_def by (metis length_list_update)
  show "sts[i := st] ! j = CallWaiting \<or> sts[i := st] ! j = CallRejected \<or> sts[i := st] ! x = CallDone"
  proof (cases "j = i")
    case True
    then show ?thesis using jx assms(3) by (cases "st = CallWaiting \<or> st = CallRejected") auto
  next
    case False
    then show ?thesis using jx old assms(2) by (cases "x = i") auto
  qed
qed

lemma ordered_step:
  assumes "status_step (dependencies 0 [] [] es) sts sts'" and "ordered es sts" and "length es = length sts"
  shows "ordered es sts'"
  using assms(1)
proof cases
  case (started i st)
  have "sts ! x = CallDone" if "x < i" "es ! x \<or> es ! i" for x
  proof -
    have "x \<in> set (dependencies 0 [] [] es ! i) \<or> (\<exists>m < i. x < m \<and> m \<in> set (dependencies 0 [] [] es ! i) \<and> es ! m)"
      using dependencies_reach [of i es, where i = 0 and ls = "[]" and ss = "[]"] started(2) assms(3) that by (simp, blast)
    then show ?thesis
    proof
      assume "\<exists>m < i. x < m \<and> m \<in> set (dependencies 0 [] [] es ! i) \<and> es ! m"
      then obtain m where m: "m < i" "x < m" "es ! m" "sts ! m = CallDone" using started(4) by blast
      then show ?thesis using assms(2) started(2) unfolding ordered_def by (metis call_status.distinct(7,29) order.strict_trans)
    qed (use started(4) in blast)
  qed
  then show ?thesis unfolding started(1) by (intro ordered_update [OF assms(2)]) (simp_all add: started(3))
next
  case (refused i)
  then show ?thesis by (auto intro!: ordered_update [OF assms(2)])
next
  case (finished i st)
  have "sts ! x = CallDone" if "x < i" "es ! x \<or> es ! i" for x
    using assms(2) finished(2,3) that unfolding ordered_def by (metis call_status.distinct(1,17))
  then show ?thesis unfolding finished(1) by (intro ordered_update [OF assms(2)]) (simp_all add: finished(3))
next
  case (checked st)
  show ?thesis unfolding ordered_def
  proof (intro allI impI)
    fix j x assume jx: "j < length sts'" "x < j" "es ! x \<or> es ! j"
    then have "sts ! j = CallWaiting \<or> sts ! j = CallRejected \<or> sts ! x = CallDone"
      using assms(2) status_step_length [OF assms(1)] unfolding ordered_def by metis
    then show "sts' ! j = CallWaiting \<or> sts' ! j = CallRejected \<or> sts' ! x = CallDone"
      using jx checked by (auto simp: afterCheck_def)
  qed
qed

text \<open>The facts about the statuses that hold from the start on.\<close>

definition exclusiveFlags :: "agent_tool list \<Rightarrow> tool_call list \<Rightarrow> bool list" where
  "exclusiveFlags tools calls = map (\<lambda>c. isExclusive (findTool tools (tcName c))) calls"

definition pollsOk :: "call_status list \<Rightarrow> bool" where
  "pollsOk sts \<longleftrightarrow> (CallAwaiting \<in> set sts \<longrightarrow> CallPolling \<in> set sts)
     \<and> (\<forall>i < length sts. \<forall>j < length sts. sts ! i = CallPolling \<and> sts ! j = CallPolling \<longrightarrow> i = j)"

lemma in_set_update: "i < length xs \<Longrightarrow> xs ! i \<noteq> x \<Longrightarrow> x \<in> set (xs[i := y]) \<longleftrightarrow> x = y \<or> x \<in> set xs"
  by (auto simp: in_set_conv_nth nth_list_update)

lemma pollsOk_update:
  assumes "pollsOk sts" and "i < length sts" and "sts ! i = CallWaiting \<or> sts ! i = CallRunning"
    and "st = CallPolling \<longrightarrow> CallPolling \<notin> set sts" and "st = CallAwaiting \<longrightarrow> CallPolling \<in> set sts"
  shows "pollsOk (sts[i := st])"
proof -
  have sets: "x \<in> set (sts[i := st]) \<longleftrightarrow> x = st \<or> x \<in> set sts" if "x = CallPolling \<or> x = CallAwaiting" for x
    using assms(2,3) that by (intro in_set_update) auto
  have place: "l = i \<and> st = CallPolling \<or> st \<noteq> CallPolling \<and> sts ! l = CallPolling"
    if "l < length sts" "sts[i := st] ! l = CallPolling" for l
    using that assms(2,4) nth_mem [of l sts] by (cases "l = i") auto
  then have "j = k" if "j < length sts" "k < length sts" "sts[i := st] ! j = CallPolling" "sts[i := st] ! k = CallPolling" for j k
    using that assms(1) unfolding pollsOk_def by metis
  then show ?thesis using assms(1,5) sets by (auto simp: pollsOk_def)
qed

lemma pollsOk_step:
  assumes "status_step ds sts sts'" and "pollsOk sts"
  shows "pollsOk sts'"
  using assms
proof (induction rule: status_step.induct)
  case (checked sts st)
  then show ?case by (auto simp: pollsOk_def afterCheck_def)
qed (auto intro: pollsOk_update)

section \<open>Every schedule ends\<close>

fun statusWork :: "call_status \<Rightarrow> nat" where
  "statusWork CallWaiting = 3"
| "statusWork CallRunning = 2"
| "statusWork CallPolling = 1"
| "statusWork CallAwaiting = 1"
| "statusWork st = 0"

definition work :: "call_status list \<Rightarrow> nat" where
  "work sts = sum_list (map statusWork sts)"

lemma work_update: "i < length sts \<Longrightarrow> statusWork st < statusWork (sts ! i) \<Longrightarrow> work (sts[i := st]) < work sts"
proof -
  assume i: "i < length sts" and less: "statusWork st < statusWork (sts ! i)"
  have "work (sts[i := st]) = work sts + statusWork st - statusWork (sts ! i)"
    using i by (simp add: work_def map_update sum_list_update)
  moreover have "statusWork (sts ! i) \<le> work sts"
    using i elem_le_sum_list [of i "map statusWork sts"] by (simp add: work_def)
  ultimately show ?thesis using less by linarith
qed

lemma work_afterCheck:
  assumes "st = CallDone \<or> st = CallRejected"
  shows "work (afterCheck st sts) \<le> work sts \<and> (CallPolling \<in> set sts \<longrightarrow> work (afterCheck st sts) < work sts)"
  using assms by (induction sts) (auto simp: work_def afterCheck_def)

lemma status_step_work:
  assumes "status_step ds sts sts'"
  shows "work sts' < work sts"
  using assms work_afterCheck by (induction rule: status_step.induct) (auto intro!: work_update)

lemma crTools_shape: "map crTool (tbRecords b) = map (\<lambda>x. fst (snd x)) (batchShape b)"
  by (simp add: batchShape_def shapeOf_def)

text \<open>All facts together, as they hold along a run of a batch.\<close>

definition runOk :: "agent_tool list \<Rightarrow> tool_call list \<Rightarrow> tool_batch \<Rightarrow> bool" where
  "runOk tools calls b \<longleftrightarrow> length (tbRecords b) = length calls
     \<and> map crTool (tbRecords b) = map (\<lambda>c. findTool tools (tcName c)) calls
     \<and> depsOf b = dependencies 0 [] [] (exclusiveFlags tools calls) \<and> depsBounded b
     \<and> ordered (exclusiveFlags tools calls) (statuses b) \<and> pollsOk (statuses b) \<and> resultsOk b"

lemma statuses_start: "statuses (startBatch tools interrupts calls) = replicate (length calls) CallWaiting"
  by (rule nth_equalityI) (simp_all add: statuses_def startBatch_def Let_def)

lemma length_startBatch: "length (tbRecords (startBatch tools interrupts calls)) = length calls"
  by (simp add: startBatch_def Let_def)

lemma runOk_start: "runOk tools calls (startBatch tools interrupts calls)"
proof -
  let ?b = "startBatch tools interrupts calls" and ?es = "exclusiveFlags tools calls"
  have shape: "batchShape ?b = map2 (\<lambda>c ds. (c, findTool tools (tcName c), ds)) calls (dependencies 0 [] [] ?es)"
    by (simp add: batchShape_start exclusiveFlags_def)
  have tools: "map crTool (tbRecords ?b) = map (\<lambda>c. findTool tools (tcName c)) calls"
    by (rule nth_equalityI) (simp_all add: startBatch_def Let_def)
  have deps: "depsOf ?b = dependencies 0 [] [] ?es"
    unfolding depsOf_def shape by (rule nth_equalityI) (simp_all add: exclusiveFlags_def)
  moreover have "depsBounded ?b"
    unfolding depsBounded_def deps length_startBatch
  proof (intro allI impI ballI)
    fix i d assume "i < length calls" "d \<in> set (dependencies 0 [] [] ?es ! i)"
    then show "d < i"
      using dependencies_reach [of i ?es, where i = 0 and ls = "[]" and ss = "[]"] by (auto simp: exclusiveFlags_def)
  qed
  moreover have "ordered ?es (statuses ?b)" "pollsOk (statuses ?b)"
    by (auto simp: ordered_def pollsOk_def statuses_start)
  ultimately show ?thesis using resultsOk_start tools by (simp add: runOk_def length_startBatch)
qed

lemma runOk_step:
  assumes "batchStep asUsage intentTracing c b = Some b'" and "runOk tools calls b"
  shows "runOk tools calls b'"
proof -
  have shape: "batchShape b' = batchShape b" using batchStep_shape [OF assms(1)] .
  then have same: "length (tbRecords b') = length (tbRecords b)" "depsOf b' = depsOf b" "map crTool (tbRecords b') = map crTool (tbRecords b)"
    by (simp_all add: depsOf_def crTools_shape) (metis batchShape_def length_map)
  have "if isUpdate c then statuses b' = statuses b else status_step (depsOf b) (statuses b) (statuses b')"
    using batchStep_refines [OF assms(1)] assms(2) by (simp add: runOk_def)
  then have "ordered (exclusiveFlags tools calls) (statuses b') \<and> pollsOk (statuses b')"
    using assms(2) ordered_step pollsOk_step by (auto simp: runOk_def exclusiveFlags_def split: if_splits)
  then show ?thesis using assms batchStep_results [OF assms(1)] same by (simp add: runOk_def depsBounded_def)
qed

lemma runChoices_ok:
  assumes "runChoices asUsage intentTracing cs (startBatch tools interrupts calls) = Some b"
  shows "runOk tools calls b"
  using runChoices_invariant [OF assms, of "runOk tools calls"] runOk_start runOk_step by blast

text \<open>C12 An exclusive tool runs alone. At no moment of a batch is an exclusive call under way beside another call: of two calls of
  which one is exclusive the later one begins only when the earlier one is done, its poll of the steering queue included.\<close>

theorem exclusive_runs_alone:
  assumes "runChoices asUsage intentTracing cs (startBatch tools interrupts calls) = Some b"
    and "i < j" and "j < length calls" and "isBusy (statusOf b j)"
    and "isExclusive (findTool tools (tcName (calls ! i))) \<or> isExclusive (findTool tools (tcName (calls ! j)))"
  shows "statusOf b i = CallDone"
proof -
  have ok: "runOk tools calls b" by (rule runChoices_ok [OF assms(1)])
  then have "ordered (exclusiveFlags tools calls) (statuses b)" "length (tbRecords b) = length calls" by (simp_all add: runOk_def)
  then show ?thesis
    using assms(2-5) unfolding ordered_def by (auto simp: statusOf_statuses isBusy_def exclusiveFlags_def)
qed

lemma runChoices_append:
  "runChoices asUsage intentTracing (cs @ cs') b =
     (case runChoices asUsage intentTracing cs b of None \<Rightarrow> None | Some b' \<Rightarrow> runChoices asUsage intentTracing cs' b')"
  by (induction cs arbitrary: b) (simp_all split: option.split)

lemma batchStep_work:
  assumes "batchStep asUsage intentTracing c b = Some b'" and "runOk tools calls b"
  shows "(if isUpdate c then 0 else 1) + work (statuses b') \<le> work (statuses b)"
  using batchStep_refines [OF assms(1)] assms(2) status_step_work by (fastforce simp: runOk_def split: if_splits)

lemma runChoices_work:
  assumes "runChoices asUsage intentTracing cs b = Some b'" and "runOk tools calls b"
  shows "length (filter (\<lambda>c. \<not> isUpdate c) cs) + work (statuses b') \<le> work (statuses b)"
  using assms
proof (induction cs arbitrary: b)
  case (Cons c cs)
  then obtain b1 where b1: "batchStep asUsage intentTracing c b = Some b1" "runChoices asUsage intentTracing cs b1 = Some b'"
    by (auto split: option.splits)
  show ?case using Cons.IH [OF b1(2) runOk_step [OF b1(1) Cons.prems(2)]] batchStep_work [OF b1(1) Cons.prems(2)] by auto
qed simp

text \<open>While a call is not settled there is something to schedule.\<close>

lemma batch_progress:
  assumes "runOk tools calls b" and "\<not> settled b"
  obtains c b' where "\<not> isUpdate c" "batchStep asUsage intentTracing c b = Some b'"
proof -
  obtain i where i: "i < length (tbRecords b)" "statuses b ! i \<noteq> CallDone" "statuses b ! i \<noteq> CallRejected"
    using assms(2) by (auto simp: settled_def list_all_length statuses_def)
  show thesis
  proof (cases "CallPolling \<in> set (statuses b)")
    case True
    then show thesis using that [of "SteeringAnswer []"] by (simp add: batchStep_def polling_iff)
  next
    case False
    show thesis
    proof (cases "\<exists>i < length (tbRecords b). statuses b ! i = CallRunning")
      case True
      then obtain k where "k < length (tbRecords b)" "statuses b ! k = CallRunning" by blast
      then show thesis using that [of "FinishCall k undefined"] by (simp add: batchStep_def statusOf_statuses)
    next
      case no_run: False
      define k where "k = (LEAST k. k < length (tbRecords b) \<and> statuses b ! k = CallWaiting)"
      have "CallAwaiting \<notin> set (statuses b)" using False assms(1) by (auto simp: runOk_def pollsOk_def)
      then have quiet: "statuses b ! d = CallWaiting \<or> statuses b ! d = CallDone \<or> statuses b ! d = CallRejected"
        if "d < length (tbRecords b)" for d
        using that False no_run nth_mem [of d "statuses b"] by (cases "statuses b ! d") auto
      then have ex: "i < length (tbRecords b) \<and> statuses b ! i = CallWaiting" using i by blast
      have k: "k < length (tbRecords b) \<and> statuses b ! k = CallWaiting"
        unfolding k_def by (rule LeastI [of "\<lambda>k. k < length (tbRecords b) \<and> statuses b ! k = CallWaiting", OF ex])
      have before: "statusOf b d = CallDone \<or> statusOf b d = CallRejected" if "d \<in> set (crDeps (tbRecords b ! k))" for d
      proof -
        have "d < k" using that assms(1) k by (metis depsBounded_def depsOf_nth runOk_def)
        then show ?thesis
          using quiet [of d] not_less_Least [of d "\<lambda>k. k < length (tbRecords b) \<and> statuses b ! k = CallWaiting"] k
          unfolding k_def [symmetric] by (auto simp: statusOf_statuses)
      qed
      show thesis
      proof (cases "\<exists>d \<in> set (crDeps (tbRecords b ! k)). statusOf b d = CallRejected")
        case True
        then show thesis using that [of "RejectCall k"] k by (simp add: batchStep_def statusOf_statuses)
      next
        case False
        then have "\<forall>d \<in> set (crDeps (tbRecords b ! k)). statusOf b d = CallDone" using before by blast
        then show thesis using that [of "StartCall k undefined"] k by (simp add: batchStep_def statusOf_statuses)
      qed
    qed
  qed
qed

lemma batch_completes:
  assumes "runOk tools calls b"
  shows "\<exists>cs b'. runChoices asUsage intentTracing cs b = Some b' \<and> settled b'"
  using assms
proof (induction "work (statuses b)" arbitrary: b rule: less_induct)
  case less
  show ?case
  proof (cases "settled b")
    case False
    obtain c b1 where c: "\<not> isUpdate c" "batchStep asUsage intentTracing c b = Some b1"
      using batch_progress [OF less.prems False] .
    have "work (statuses b1) < work (statuses b)" using batchStep_work [OF c(2) less.prems] c(1) by simp
    then obtain cs b' where "runChoices asUsage intentTracing cs b1 = Some b' \<and> settled b'"
      using less.hyps runOk_step [OF c(2) less.prems] by blast
    then show ?thesis using c(2) by (intro exI [of _ "c # cs"]) simp
  qed (auto intro: exI [of _ "[]"])
qed

text \<open>C13 A batch always ends. Apart from the updates that running tools send, no schedule takes more than three steps for a call,
  and whatever was scheduled so far, it can go on until every call is settled and the results are returned.\<close>

theorem batch_always_ends:
  assumes "runChoices asUsage intentTracing cs (startBatch tools interrupts calls) = Some b"
  shows "length (filter (\<lambda>c. \<not> isUpdate c) cs) \<le> 3 * length calls
    \<and> (\<exists>cs' b'. executeToolCalls asUsage intentTracing tools interrupts calls (cs @ cs') = Some b')"
proof -
  have "work (statuses (startBatch tools interrupts calls)) = 3 * length calls"
    by (simp add: work_def statuses_start sum_list_replicate)
  then have "length (filter (\<lambda>c. \<not> isUpdate c) cs) \<le> 3 * length calls" using runChoices_work [OF assms runOk_start] by linarith
  moreover obtain cs' b' where "runChoices asUsage intentTracing cs' b = Some b'" "settled b'"
    using batch_completes [OF runChoices_ok [OF assms]] by blast
  then have "executeToolCalls asUsage intentTracing tools interrupts calls (cs @ cs') = Some (sweep asUsage b')"
    using assms by (simp add: executeToolCalls_def runChoices_append)
  ultimately show ?thesis by blast
qed

end
