(* ===== verification/Ag_Tools_Interrupt.thy ===== *)
theory Ag_Tools_Interrupt
  imports Ag_Tools_Order
begin

text \<open>
  What an interruption by steering messages does to a batch of tool calls, which messages a batch takes from the queue, and small
  batches that show the schedules.
\<close>

section \<open>The messages taken\<close>

text \<open>What the polls of a schedule return, and what the batch has kept of it.\<close>

definition answers :: "batch_choice list \<Rightarrow> agent_message list" where
  "answers cs = concat (map (\<lambda>c. case c of SteeringAnswer ms \<Rightarrow> ms | _ \<Rightarrow> []) cs)"

definition steeringOf :: "tool_batch \<Rightarrow> agent_message list" where
  "steeringOf b = (case tbSteering b of None \<Rightarrow> [] | Some ms \<Rightarrow> ms)"

lemma answers_simps [simp]:
  "answers [] = []" "answers (SteeringAnswer ms # cs) = ms @ answers cs"
  "(\<And>ms. c \<noteq> SteeringAnswer ms) \<Longrightarrow> answers (c # cs) = answers cs"
  by (auto simp: answers_def split: batch_choice.split)

text \<open>After an interruption no poll is under way, and an interruption has its messages.\<close>

definition steeringOk :: "tool_batch \<Rightarrow> bool" where
  "steeringOk b \<longleftrightarrow> (tbTriggered b \<longleftrightarrow> tbSteering b \<noteq> None) \<and> tbSteering b \<noteq> Some []
     \<and> (tbTriggered b \<longrightarrow> CallPolling \<notin> set (statuses b) \<and> CallAwaiting \<notin> set (statuses b))"

lemma steeringOk_update:
  "steeringOk b \<Longrightarrow> tbTriggered b' = tbTriggered b \<Longrightarrow> tbSteering b' = tbSteering b \<Longrightarrow>
   statuses b' = (statuses b)[i := st] \<Longrightarrow> (tbTriggered b \<Longrightarrow> st \<noteq> CallPolling \<and> st \<noteq> CallAwaiting) \<Longrightarrow> steeringOk b'"
  by (auto simp: steeringOk_def dest!: set_update_cases)

lemma emitToolResult_kept [simp]:
  "tbTriggered (emitToolResult asUsage i started result isError b) = tbTriggered b"
  "tbSteering (emitToolResult asUsage i started result isError b) = tbSteering b"
  "statuses (emitToolResult asUsage i started result isError b) = statuses b"
  by (simp_all add: emitToolResult_eq)

lemma beginCheck_kept [simp]:
  "tbTriggered (beginCheck i b) = tbTriggered b" "tbSteering (beginCheck i b) = tbSteering b"
  "tbResults (beginCheck i b) = tbResults b" "tbEvents (beginCheck i b) = tbEvents b"
  by (simp_all add: beginCheck_def)

lemma endCheck_kept [simp]:
  "tbTriggered (endCheck st b) = tbTriggered b" "tbSteering (endCheck st b) = tbSteering b"
  "tbResults (endCheck st b) = tbResults b" "tbEvents (endCheck st b) = tbEvents b"
  by (simp_all add: endCheck_def)

lemma beginCheck_triggered: "tbTriggered b \<Longrightarrow> statuses (beginCheck i b) = (statuses b)[i := CallDone]"
  by (simp add: beginCheck_def)

lemma batchStep_steering:
  assumes "batchStep asUsage intentTracing c b = Some b'" and "steeringOk b"
  shows "steeringOk b' \<and> steeringOf b' = steeringOf b @ answers [c]"
  using assms(1)
proof (cases rule: batchStep_cases)
  case (skip i derive)
  then have "steeringOk b'" by (intro steeringOk_update [OF assms(2), of b' i CallDone]) simp_all
  then show ?thesis using skip by (simp add: steeringOf_def)
next
  case (start i derive args intent)
  then have "steeringOk b'" by (intro steeringOk_update [OF assms(2), of b' i CallRunning]) simp_all
  then show ?thesis using start by (simp add: steeringOf_def)
next
  case (reject i)
  then have "steeringOk b'" by (intro steeringOk_update [OF assms(2), of b' i CallRejected]) simp_all
  then show ?thesis using reject by (simp add: steeringOf_def)
next
  case (finish i hooks result isError)
  obtain st where st: "beginCheck i (emitToolResult asUsage i True result isError b)
      = setRecord i (setStatus st) (emitToolResult asUsage i True result isError b)"
    using beginCheck_status by blast
  have "st \<noteq> CallPolling \<and> st \<noteq> CallAwaiting" if "tbTriggered b"
  proof -
    have "statuses b' ! i = CallDone"
      using that finish(2) beginCheck_triggered [of "emitToolResult asUsage i True result isError b" i] unfolding finish(5) by simp
    moreover have "statuses b' ! i = st" using finish(2) unfolding finish(5) st by simp
    ultimately show ?thesis by auto
  qed
  then have "steeringOk b'" using finish(5) st by (intro steeringOk_update [OF assms(2), of b' i st]) simp_all
  then show ?thesis using finish by (simp add: steeringOf_def)
next
  case (answer messages)
  then have "\<not> tbTriggered b" using assms(2) by (auto simp: steeringOk_def)
  then show ?thesis using answer assms(2) by (auto simp: steeringOk_def steeringOf_def afterCheck_def)
qed (use assms(2) in \<open>auto simp: steeringOk_def steeringOf_def afterCheck_def\<close>)

lemma answers_Cons: "answers (c # cs) = answers [c] @ answers cs"
  by (simp add: answers_def)

lemma runChoices_steering:
  assumes "runChoices asUsage intentTracing cs b = Some b'" and "steeringOk b"
  shows "steeringOk b' \<and> steeringOf b' = steeringOf b @ answers cs"
  using assms
proof (induction cs arbitrary: b)
  case (Cons c cs)
  then obtain b1 where b1: "batchStep asUsage intentTracing c b = Some b1" "runChoices asUsage intentTracing cs b1 = Some b'"
    by (auto split: option.splits)
  then show ?case using batchStep_steering [OF b1(1) Cons.prems(2)] Cons.IH [OF b1(2)] answers_Cons [of c cs] by simp
qed simp

lemma steeringOk_start: "steeringOk (startBatch tools interrupts calls)" "steeringOf (startBatch tools interrupts calls) = []"
  by (simp_all add: steeringOk_def steeringOf_def startBatch_def Let_def)

section \<open>Interruptions\<close>

definition isSkippedResult :: "tool_result \<Rightarrow> bool" where
  "isSkippedResult r \<longleftrightarrow> tmContent r = trContent createSkippedToolResult \<and> tmIsError r"

fun isToolStart :: "agent_event \<Rightarrow> bool" where
  "isToolStart (ToolStart i n args t) = True"
| "isToolStart e = False"

text \<open>What is sent from one batch to the next is skipped results, and no tool starts.\<close>

definition onlySkips :: "tool_batch \<Rightarrow> tool_batch \<Rightarrow> bool" where
  "onlySkips b b' \<longleftrightarrow> (\<exists>rs evs. tbResults b' = tbResults b @ rs \<and> tbEvents b' = tbEvents b @ evs
     \<and> (\<forall>r \<in> set rs. isSkippedResult r) \<and> (\<forall>e \<in> set evs. \<not> isToolStart e))"

lemma onlySkips_more:
  assumes "tbResults b' = tbResults b @ rs" and "tbEvents b' = tbEvents b @ evs"
    and "\<forall>r \<in> set rs. isSkippedResult r" and "\<forall>e \<in> set evs. \<not> isToolStart e"
  shows "onlySkips b b'"
  using assms unfolding onlySkips_def by blast

lemma onlySkips_refl: "tbResults b' = tbResults b \<Longrightarrow> tbEvents b' = tbEvents b \<Longrightarrow> onlySkips b b'"
  by (rule onlySkips_more [of _ _ "[]" "[]"]) simp_all

lemma onlySkips_trans:
  assumes "onlySkips b b1" and "onlySkips b1 b2"
  shows "onlySkips b b2"
proof -
  obtain rs evs where 1: "tbResults b1 = tbResults b @ rs" "tbEvents b1 = tbEvents b @ evs"
    "\<forall>r \<in> set rs. isSkippedResult r" "\<forall>e \<in> set evs. \<not> isToolStart e"
    using assms(1) unfolding onlySkips_def by blast
  obtain rs' evs' where 2: "tbResults b2 = tbResults b1 @ rs'" "tbEvents b2 = tbEvents b1 @ evs'"
    "\<forall>r \<in> set rs'. isSkippedResult r" "\<forall>e \<in> set evs'. \<not> isToolStart e"
    using assms(2) unfolding onlySkips_def by blast
  show ?thesis using 1 2 by (intro onlySkips_more [of b2 b "rs @ rs'" "evs @ evs'"]) auto
qed

lemma batchStep_triggered:
  assumes "batchStep asUsage intentTracing c b = Some b'" and "tbTriggered b" and "resultsOk b" and "steeringOk b"
  shows "tbTriggered b' \<and> onlySkips b b'"
  using assms(1)
proof (cases rule: batchStep_cases)
  case (finish i hooks result isError)
  then have fresh: "crMessage (tbRecords b ! i) = None" using assms(3) resultsOk_open [of b i] by (auto simp: hasResult_def)
  have skipped: "result = createSkippedToolResult" "isError" using finish(4) assms(2) by auto
  let ?call = "crCall (tbRecords b ! i)"
  let ?msg = "resultMessage asUsage ?call createSkippedToolResult True"
  let ?evs = "[ToolEnd (tcId ?call) (tcName ?call) createSkippedToolResult True, MessageStart (ToolResult ?msg), MessageEnd (ToolResult ?msg)]"
  have "tbResults b' = tbResults b @ [?msg]" "tbEvents b' = tbEvents b @ ?evs"
    using fresh skipped unfolding finish(5) by (simp_all add: emitToolResult_eq emitted_def Let_def)
  moreover have "isSkippedResult ?msg" by (simp add: isSkippedResult_def resultMessage_def)
  moreover have "\<forall>e \<in> set ?evs. \<not> isToolStart e" by auto
  ultimately have "onlySkips b b'" using onlySkips_more [of b' b "[?msg]" ?evs] by simp
  then show ?thesis using finish assms(2) by simp
next
  case (update i args sanitize raw)
  let ?call = "crCall (tbRecords b ! i)"
  have "onlySkips b b'"
    using update(4) by (intro onlySkips_more [of b' b "[]" "[ToolUpdate (tcId ?call) (tcName ?call) args (fst (coerceToolResult sanitize raw))]"]) simp_all
  then show ?thesis using update assms(2) by simp
next
  case (answer messages)
  then show ?thesis using assms(2,4) by (simp add: steeringOk_def)
qed (use assms(2,4) in \<open>auto intro: onlySkips_refl simp: steeringOk_def\<close>)

lemma runChoices_triggered:
  assumes "runChoices asUsage intentTracing cs b = Some b'" and "tbTriggered b" and "resultsOk b" and "steeringOk b"
  shows "tbTriggered b' \<and> onlySkips b b'"
  using assms
proof (induction cs arbitrary: b)
  case (Cons c cs)
  then obtain b1 where b1: "batchStep asUsage intentTracing c b = Some b1" "runChoices asUsage intentTracing cs b1 = Some b'"
    by (auto split: option.splits)
  then show ?case
    using Cons.IH [OF b1(2)] batchStep_triggered [OF b1(1) Cons.prems(2-4)] batchStep_results [OF b1(1) Cons.prems(3)]
      batchStep_steering [OF b1(1) Cons.prems(4)] onlySkips_trans by blast
qed (simp add: onlySkips_refl)


section \<open>Small batches\<close>

text \<open>A shared call, then an exclusive one; the user writes while the first runs.\<close>

definition demoTools :: "agent_tool list" where
  "demoTools =
     [\<lparr>atName = js ''r'', atWireName = None, atExclusive = False, atLenient = False\<rparr>,
      \<lparr>atName = js ''b'', atWireName = None, atExclusive = True, atLenient = False\<rparr>]"

definition demoCalls :: "tool_call list" where
  "demoCalls =
     [\<lparr>tcId = js ''1'', tcName = js ''r'', tcArguments = []\<rparr>,
      \<lparr>tcId = js ''2'', tcName = js ''b'', tcArguments = []\<rparr>]"

definition demoHooks :: tool_hooks where
  "demoHooks =
     \<lparr>thSanitize = (\<lambda>t. t), thValidate = (\<lambda>t c args. Inr args), thBefore = (\<lambda>c args. BeforePasses args),
      thTransform = (\<lambda>args n. args),
      thExecute = (\<lambda>t i args. Inr (JObj [(js ''content'', JArr [])])),
      thAfter = (\<lambda>c args r e. Inr None)\<rparr>"

definition demoUsage :: "js_val \<Rightarrow> token_usage" where
  "demoUsage v = \<lparr>usInput = 0, usOutput = 0, usCacheRead = 0, usCacheWrite = 0, usTotalTokens = 0, usPremiumRequests = None,
     usCost = NumFin 0\<rparr>"

definition patient :: "batch_choice list" where
  "patient = [StartCall 0 (\<lambda>args. None), FinishCall 0 demoHooks, SteeringAnswer [], StartCall 1 (\<lambda>args. None)]"

definition interrupting :: "batch_choice list" where
  "interrupting = [StartCall 0 (\<lambda>args. None), FinishCall 0 demoHooks, SteeringAnswer [UserMessage (StringContent (js ''stop''))]]"

abbreviation demoRun :: "batch_choice list \<Rightarrow> tool_batch option" where
  "demoRun cs \<equiv> runChoices demoUsage False cs (startBatch demoTools True demoCalls)"

lemma batch_answers_every_call_witness:
  "\<exists>b. executeToolCalls demoUsage False demoTools True demoCalls (patient @ [FinishCall 1 demoHooks, SteeringAnswer []]) = Some b
     \<and> mset (map tmCallId (tbResults b)) = {#js ''1'', js ''2''#} \<and> map tmIsError (tbResults b) = [False, False]"
proof -
  let ?run = "executeToolCalls demoUsage False demoTools True demoCalls (patient @ [FinishCall 1 demoHooks, SteeringAnswer []])"
  have "map_option (\<lambda>b. map tmIsError (tbResults b)) ?run = Some [False, False]" by code_simp
  then obtain b where b: "?run = Some b" "map tmIsError (tbResults b) = [False, False]" by auto
  have "mset (map tmCallId (tbResults b)) = image_mset fst (mset (map (\<lambda>r. (tmCallId r, tmToolName r)) (tbResults b)))"
    by (simp add: image_mset.compositionality o_def)
  also have "\<dots> = image_mset fst (mset (map (\<lambda>c. (tcId c, tcName c)) demoCalls))"
    using batch_answers_every_call [OF b(1)] by presburger
  finally show ?thesis using b by (simp add: demoCalls_def)
qed

lemma exclusive_runs_alone_witness:
  "\<exists>b. demoRun patient = Some b \<and> statusOf b 1 = CallRunning \<and> statusOf b 0 = CallDone"
proof -
  have "map_option (\<lambda>b. statusOf b 1) (demoRun patient) = Some CallRunning" by code_simp
  then obtain b where b: "demoRun patient = Some b" "statusOf b 1 = CallRunning" by auto
  have "isExclusive (findTool demoTools (tcName (demoCalls ! 1)))" by code_simp
  then show ?thesis
    using exclusive_runs_alone [OF b(1), of 0 1] b by (simp add: demoCalls_def isBusy_def)
qed

lemma batch_always_ends_witness:
  "\<exists>b cs' b'. demoRun interrupting = Some b
     \<and> executeToolCalls demoUsage False demoTools True demoCalls (interrupting @ cs') = Some b'"
proof -
  have "map_option (\<lambda>b. True) (demoRun interrupting) = Some True" by code_simp
  then obtain b where b: "demoRun interrupting = Some b" by auto
  show ?thesis using b batch_always_ends [OF b] by (elim conjE exE) (intro exI conjI)
qed


end
