(* ===== verification/Ag_Loop_Facts.thy ===== *)
theory Ag_Loop_Facts
  imports Ag_Loop Ag_Tools_Interrupt
begin

text \<open>
  What a run of the agent loop keeps: each assistant turn is followed by the results of its calls, the context is what it was and
  the new messages, those are what the events reported, and no queued message is lost.
\<close>

section \<open>The stream of a turn\<close>

fun isStreamStart :: "stream_input \<Rightarrow> bool" where
  "isStreamStart (StreamStart m) = True"
| "isStreamStart x = False"

fun isStreamOver :: "stream_input \<Rightarrow> bool" where
  "isStreamOver (StreamOver m) = True"
| "isStreamOver x = False"

text \<open>A provider starts a message once, at the beginning, and ends its stream with done or error.\<close>

definition streamProtocol :: "stream_input list \<Rightarrow> bool" where
  "streamProtocol xs \<longleftrightarrow> list_all (\<lambda>x. \<not> isStreamOver x) xs \<and> list_all (\<lambda>x. \<not> isStreamStart x) (tl xs)"

fun isProgress :: "agent_event \<Rightarrow> bool" where
  "isProgress (MessageStart m) = True"
| "isProgress (MessageUpdate m) = True"
| "isProgress e = False"

fun isAgentEnd :: "agent_event \<Rightarrow> bool" where
  "isAgentEnd (AgentEnd ms) = True"
| "isAgentEnd e = False"

lemma progress_events: "list_all isProgress evs \<Longrightarrow> endedMessages evs = [] \<and> list_all (\<lambda>e. \<not> isAgentEnd e) evs"
proof (induction evs)
  case (Cons e evs)
  then show ?case by (cases e) auto
qed simp

text \<open>The message that is begun and not complete after some events.\<close>

fun partialStep :: "agent_event \<Rightarrow> agent_message option \<Rightarrow> agent_message option" where
  "partialStep (MessageStart m) p = Some m"
| "partialStep (MessageUpdate m) p = Some m"
| "partialStep (MessageEnd m) p = None"
| "partialStep e p = p"

definition partialAfter :: "agent_message option \<Rightarrow> agent_event list \<Rightarrow> agent_message option" where
  "partialAfter p evs = fold partialStep evs p"

lemma partialAfter_simps [simp]:
  "partialAfter p [] = p" "partialAfter p (e # evs) = partialAfter (partialStep e p) evs"
  "partialAfter p (xs @ ys) = partialAfter (partialAfter p xs) ys"
  by (simp_all add: partialAfter_def)

text \<open>While a message streams the context is the old one, with the partial message after it if there is one.\<close>

definition streamShape :: "agent_message list \<Rightarrow> agent_event list \<Rightarrow> stream_state \<Rightarrow> bool" where
  "streamShape base evs s \<longleftrightarrow>
     ssMessages s = base @ (case ssPartial s of None \<Rightarrow> [] | Some p \<Rightarrow> [AssistantMessage p])
     \<and> (\<exists>more. ssEvents s = evs @ more \<and> list_all isProgress more)"

text \<open>What a turn leaves behind.\<close>

definition streamLeaves :: "agent_message list \<Rightarrow> agent_event list \<Rightarrow> stream_state \<Rightarrow> stream_result \<Rightarrow> bool" where
  "streamLeaves base evs s r \<longleftrightarrow>
     (case r of
        Streamed m \<Rightarrow> ssMessages s = base @ [AssistantMessage m]
          \<and> (\<exists>more. ssEvents s = evs @ more @ [MessageEnd (AssistantMessage m)] \<and> list_all isProgress more)
      | StreamLeaked label \<Rightarrow> ssMessages s = base \<and> (\<exists>more. ssEvents s = evs @ more \<and> list_all isProgress more)
      | StreamFailed err \<Rightarrow> \<exists>more. ssEvents s = evs @ more \<and> list_all isProgress more)"

lemma finishMessage_leaves: "streamShape base evs s \<Longrightarrow> streamLeaves base evs (finishMessage m s) (Streamed m)"
proof (cases "ssPartial s")
  case None
  assume "streamShape base evs s"
  then obtain more where "ssMessages s = base" "ssEvents s = evs @ more" "list_all isProgress more"
    using None by (auto simp: streamShape_def)
  then show ?thesis
    using None by (auto simp: streamLeaves_def finishMessage_def intro!: exI [of _ "more @ [MessageStart (AssistantMessage m)]"])
next
  case (Some p)
  assume "streamShape base evs s"
  then show ?thesis using Some by (auto simp: streamShape_def streamLeaves_def finishMessage_def setMessage_def)
qed

lemma emitAborted_leaves:
  "streamShape base evs s \<Longrightarrow> streamLeaves base evs (fst (emitAbortedAssistantMessage conf s)) (snd (emitAbortedAssistantMessage conf s))"
  by (simp add: emitAbortedAssistantMessage_def Let_def finishMessage_leaves)

lemma dropPartial_leaves: "streamShape base evs s \<Longrightarrow> streamLeaves base evs (dropPartial s) (StreamLeaked label)"
  by (cases "ssPartial s") (auto simp: streamShape_def streamLeaves_def dropPartial_def)

lemma failed_leaves: "streamShape base evs s \<Longrightarrow> streamLeaves base evs s (StreamFailed err)"
  by (auto simp: streamShape_def streamLeaves_def)

lemma streamShape_update:
  assumes "streamShape base evs s" and "ssPartial s \<noteq> None"
  shows "streamShape base evs ((setMessage m s)\<lparr>ssPartial := Some m\<rparr>)"
  using assms by (auto simp: streamShape_def setMessage_def)

lemma streamShape_flags [simp]:
  "streamShape base evs (s\<lparr>ssAborted := b\<rparr>) = streamShape base evs s"
  "streamShape base evs (s\<lparr>ssCalls := n\<rparr>) = streamShape base evs s"
  by (simp_all add: streamShape_def)

lemma streamShape_sends:
  "streamShape base evs s \<Longrightarrow> list_all isProgress es \<Longrightarrow> streamShape base evs (s\<lparr>ssEvents := ssEvents s @ es\<rparr>)"
  by (auto simp: streamShape_def)

lemma streamUpdate_cases:
  assumes "streamShape base evs s"
  shows "(case streamUpdate conf endsCall m aborted s of
      Inl s' \<Rightarrow> streamShape base evs s'
    | Inr (s', r) \<Rightarrow> streamLeaves base evs s' r)"
proof (cases "ssPartial s = None")
  case False
  then obtain p where p: "ssPartial s = Some p" by blast
  let ?s1 = "(setMessage m s)\<lparr>ssPartial := Some m\<rparr>"
  let ?s2 = "?s1\<lparr>ssEvents := ssEvents ?s1 @ [MessageUpdate (AssistantMessage m)]\<rparr>"
  have s1: "streamShape base evs ?s1" using streamShape_update [OF assms False] .
  then have s2: "streamShape base evs ?s2" by (intro streamShape_sends) simp_all
  then have "streamShape base evs (?s2\<lparr>ssCalls := Suc (ssCalls ?s2)\<rparr>)" by simp
  then show ?thesis
    using s1 s2 finishMessage_leaves p
    by (simp add: streamUpdate_def Let_def split: option.split del: stream_state.simps)
qed (simp add: streamUpdate_def assms)

lemma streamInput_cases:
  assumes "streamShape base evs s" and "\<not> isStreamOver x" and "isStreamStart x \<longrightarrow> ssPartial s = None"
  shows "(case streamInput conf x s of
      Inl s' \<Rightarrow> streamShape base evs s'
    | Inr (s', r) \<Rightarrow> streamLeaves base evs s' r)"
proof (cases x)
  case (StreamStart m)
  then have "streamShape base evs (streamStart m s)"
    using assms(1,3) by (auto simp: streamShape_def streamStart_def)
  then show ?thesis using StreamStart emitAborted_leaves [OF assms(1), of conf] by (simp add: streamInput_def case_prod_beta)
next
  case (StreamUpdate endsCall m aborted)
  then show ?thesis
    using streamUpdate_cases [OF assms(1), of conf endsCall m aborted] emitAborted_leaves [OF assms(1), of conf]
    by (simp add: streamInput_def case_prod_beta)
next
  case (StreamFinal m)
  then show ?thesis
    using emitAborted_leaves [OF assms(1), of conf] dropPartial_leaves [OF assms(1)] finishMessage_leaves [OF assms(1)]
    by (simp add: streamInput_def case_prod_beta split: option.split)
qed (use assms emitAborted_leaves [OF assms(1), of conf] failed_leaves [OF assms(1)] in
  \<open>simp_all add: streamInput_def case_prod_beta\<close>)

lemma streamLoop_leaves:
  assumes "streamLoop conf xs s = Some (s', r)" and "streamShape base evs s" and "list_all (\<lambda>x. \<not> isStreamOver x) xs"
    and "list_all (\<lambda>x. \<not> isStreamStart x) (if ssPartial s = None then tl xs else xs)"
  shows "streamLeaves base evs s' r"
  using assms
proof (induction xs arbitrary: s)
  case (Cons x xs)
  have x: "\<not> isStreamOver x" "isStreamStart x \<longrightarrow> ssPartial s = None" "list_all (\<lambda>x. \<not> isStreamStart x) xs"
    using Cons.prems(3,4) by (auto split: if_splits)
  show ?case
  proof (cases "streamInput conf x s")
    case (Inl s1)
    then have "streamShape base evs s1" using streamInput_cases [OF Cons.prems(2) x(1,2), of conf] by simp
    moreover have "list_all (\<lambda>x. \<not> isStreamStart x) (if ssPartial s1 = None then tl xs else xs)"
      using x(3) by (cases xs) auto
    ultimately show ?thesis using Cons.IH [of s1] Cons.prems Inl by simp
  next
    case (Inr res)
    then show ?thesis using streamInput_cases [OF Cons.prems(2) x(1,2), of conf] Cons.prems(1) by simp
  qed
qed simp

lemma streamAssistantResponse_leaves:
  assumes "streamAssistantResponse conf xs messages evs = Some (ms, evs', r)" and "streamProtocol xs"
  shows "streamLeaves messages evs \<lparr>ssMessages = ms, ssEvents = evs', ssPartial = None, ssCalls = 0, ssAborted = False\<rparr> r"
proof -
  let ?s = "\<lparr>ssMessages = messages, ssEvents = evs, ssPartial = None, ssCalls = 0, ssAborted = False\<rparr>"
  obtain s' where s': "streamLoop conf xs ?s = Some (s', r)" "ms = ssMessages s'" "evs' = ssEvents s'"
    using assms(1) by (auto simp: streamAssistantResponse_def)
  have "streamShape messages evs ?s" by (simp add: streamShape_def)
  then have "streamLeaves messages evs s' r" using streamLoop_leaves [OF s'(1)] assms(2) by (simp add: streamProtocol_def)
  then show ?thesis using s' by (simp add: streamLeaves_def split: stream_result.splits)
qed

section \<open>The results of a turn\<close>

text \<open>A message of a prompt or of a queue, neither a turn nor a result.\<close>

fun isInput :: "agent_message \<Rightarrow> bool" where
  "isInput (AssistantMessage m) = False"
| "isInput (ToolResult r) = False"
| "isInput m = True"

text \<open>Every turn is followed by the results of its calls, one each.\<close>

inductive answeredTurns :: "agent_message list \<Rightarrow> bool" where
  none: "answeredTurns []"
| inputs: "answeredTurns (ms @ xs)" if "answeredTurns ms" "list_all isInput xs"
| turn: "answeredTurns (ms @ AssistantMessage m # map ToolResult rs)"
    if "answeredTurns ms" "mset (map resultTag rs) = mset (map callTag (toolCallsOf m))"

text \<open>Results that answer the calls of a turn, with their events.\<close>

definition answersTurn :: "assistant_message \<Rightarrow> tool_result list \<Rightarrow> agent_event list \<Rightarrow> bool" where
  "answersTurn m rs evs \<longleftrightarrow> mset (map resultTag rs) = mset (map callTag (toolCallsOf m))
     \<and> endedMessages evs = map ToolResult rs \<and> list_all (\<lambda>e. \<not> isAgentEnd e) evs \<and> partialAfter None evs = None"

definition batchEvents :: "agent_event list \<Rightarrow> bool" where
  "batchEvents evs \<longleftrightarrow> list_all (\<lambda>e. \<not> isAgentEnd e) evs \<and> partialAfter None evs = None"

lemma batchStep_noEnd:
  assumes "batchStep asUsage intentTracing c b = Some b'" and "batchEvents (tbEvents b)"
  shows "batchEvents (tbEvents b')"
  using assms by (cases rule: batchStep_cases) (auto simp: batchEvents_def emitToolResult_eq emitted_def Let_def beginCheck_def endCheck_def)

lemma sweep_noEnd:
  assumes "batchEvents (tbEvents b)"
  shows "batchEvents (tbEvents (fold (\<lambda>i. emitToolResult asUsage i False createSkippedToolResult True) is b))"
  using assms by (induction "is" arbitrary: b) (simp_all add: batchEvents_def emitToolResult_eq emitted_def Let_def)

lemma executeToolCalls_answers:
  assumes "executeToolCalls asUsage intentTracing tools interrupts (toolCallsOf m) choices = Some b"
  shows "answersTurn m (tbResults b) (tbEvents b) \<and> steeringOf b = answers choices \<and> tbSteering b \<noteq> Some []"
proof -
  let ?b0 = "startBatch tools interrupts (toolCallsOf m)"
  obtain b1 where b1: "runChoices asUsage intentTracing choices ?b0 = Some b1" "settled b1" "b = sweep asUsage b1"
    using assms by (auto simp: executeToolCalls_def split: option.splits if_splits)
  have ok: "resultsOk b1" "map crCall (tbRecords b1) = toolCallsOf m"
    using runChoices_invariant [OF b1(1), of resultsOk] resultsOk_start batchStep_results
      runChoices_invariant [OF b1(1), of "\<lambda>b. batchShape b = batchShape ?b0"] batchStep_shape
    by (blast, simp add: crCalls_shape batchShape_start o_def case_prod_beta)
  have "batchEvents (tbEvents ?b0)" by (simp add: startBatch_def Let_def batchEvents_def)
  then have "batchEvents (tbEvents b1)"
    using runChoices_invariant [OF b1(1), of "\<lambda>b. batchEvents (tbEvents b)"] batchStep_noEnd by blast
  then show ?thesis
    using sweep_answers [OF ok(1) b1(2), of asUsage] ok(2) sweep_noEnd [of b1] b1(3)
      runChoices_steering [OF b1(1) steeringOk_start(1)] steeringOk_start(2)
    by (simp add: answersTurn_def sweep_def steeringOf_def steeringOk_def batchEvents_def)
qed

lemma createAborted_tags: "resultTag (snd (createAbortedToolResult cause err c)) = callTag c"
  by (simp add: createAbortedToolResult_def Let_def resultTag_def callTag_def)

lemma createAborted_events:
  "endedMessages (fst (createAbortedToolResult cause err c)) = [ToolResult (snd (createAbortedToolResult cause err c))]
   \<and> list_all (\<lambda>e. \<not> isAgentEnd e) (fst (createAbortedToolResult cause err c))
   \<and> partialAfter p (fst (createAbortedToolResult cause err c)) = None"
  by (simp add: createAbortedToolResult_def Let_def)

lemma endedMessages_concat: "endedMessages (concat xss) = concat (map endedMessages xss)"
  by (induction xss) simp_all

lemma partialAfter_concat: "(\<And>p xs. xs \<in> set xss \<Longrightarrow> partialAfter p xs = None) \<Longrightarrow> partialAfter None (concat xss) = None"
  by (induction xss) simp_all

lemma placeholders_answer:
  obtains rs evs where "placeholders cause err m s = (rs, addMessages (map ToolResult rs) (sendAll evs s))" "answersTurn m rs evs"
proof (rule that [of "map snd (map (createAbortedToolResult cause err) (toolCallsOf m))"
      "concat (map fst (map (createAbortedToolResult cause err) (toolCallsOf m)))"])
  show "answersTurn m (map snd (map (createAbortedToolResult cause err) (toolCallsOf m)))
      (concat (map fst (map (createAbortedToolResult cause err) (toolCallsOf m))))"
    using createAborted_events
    by (auto simp: answersTurn_def o_def createAborted_tags endedMessages_concat list_all_iff intro!: partialAfter_concat)
qed (simp add: placeholders_def Let_def o_def)

lemma answerCalls_answer:
  assumes "answerCalls conf tools choices m s = Some (rs, steering, s')"
  obtains evs where "s' = addMessages (map ToolResult rs) (sendAll evs s)" "answersTurn m rs evs"
    "steering = (if isRunnableStop (amStopReason m) \<and> toolCallsOf m \<noteq> [] \<and> answers choices \<noteq> [] then Some (answers choices) else None)"
proof (cases "isRunnableStop (amStopReason m) \<and> toolCallsOf m \<noteq> []")
  case True
  then obtain b where b: "executeToolCalls (lcUsage conf) (lcIntentTracing conf) tools (lcInterrupts conf) (toolCallsOf m) choices = Some b"
    "rs = tbResults b" "steering = tbSteering b" "s' = addMessages (map ToolResult (tbResults b)) (sendAll (tbEvents b) s)"
    using assms by (auto simp: answerCalls_def Let_def split: option.splits)
  have "tbSteering b = (if answers choices \<noteq> [] then Some (answers choices) else None)"
    using executeToolCalls_answers [OF b(1)] by (cases "tbSteering b") (auto simp: steeringOf_def)
  then show thesis using that b executeToolCalls_answers [OF b(1)] True by auto
next
  case False
  let ?cause = "if amStopReason m = StopLength then CauseLength else CauseSkipped"
  obtain rs1 evs where made: "placeholders ?cause None m s = (rs1, addMessages (map ToolResult rs1) (sendAll evs s))" "answersTurn m rs1 evs"
    by (rule placeholders_answer)
  then show thesis using that [of evs] assms False by (auto simp: answerCalls_def Let_def)
qed

section \<open>The steps of the loop\<close>

lemma beginTurn_simps [simp]:
  "lsMessages (beginTurn s) = lsMessages s @ lsPending s" "lsNew (beginTurn s) = lsNew s @ lsPending s"
  "lsPending (beginTurn s) = []" "lsMore (beginTurn s) = lsMore s" "lsRetries (beginTurn s) = lsRetries s"
  "lsStatus (beginTurn s) = lsStatus s"
  by (simp_all add: beginTurn_def addMessages_def sendAll_def)

lemma endedMessages_messageEvents [simp]: "endedMessages (messageEvents ms) = ms"
  by (induction ms) (simp_all add: messageEvents_def)

lemma messageEvents_noEnd [simp]: "list_all (\<lambda>e. \<not> isAgentEnd e) (messageEvents ms)"
  by (induction ms) (simp_all add: messageEvents_def)

lemma beginTurn_events:
  "endedMessages (lsEvents (beginTurn s)) = endedMessages (lsEvents s) @ lsPending s"
  "list_all (\<lambda>e. \<not> isAgentEnd e) (lsEvents (beginTurn s)) = list_all (\<lambda>e. \<not> isAgentEnd e) (lsEvents s)"
  by (simp_all add: beginTurn_def addMessages_def sendAll_def)

text \<open>The state when the message of a turn is there.\<close>

definition withTurn :: "agent_message list \<Rightarrow> agent_event list \<Rightarrow> assistant_message \<Rightarrow> loop_state \<Rightarrow> loop_state" where
  "withTurn ms evs m s =
     (let s2 = (beginTurn s)\<lparr>lsMessages := ms, lsEvents := evs\<rparr> in s2\<lparr>lsRetries := 0, lsNew := lsNew s2 @ [AssistantMessage m]\<rparr>)"

lemma loopStep_cases [consumes 1, case_names failed leaked stopped answered yielded]:
  assumes "loopStep conf input s = Some s'"
  obtains
    tools xs choices poll ms evs err where "input = TurnInput tools xs choices poll" "inTurns s"
      "streamAssistantResponse conf xs (lsMessages (beginTurn s)) (lsEvents (beginTurn s)) = Some (ms, evs, StreamFailed err)"
      "s' = failRun err ((beginTurn s)\<lparr>lsMessages := ms, lsEvents := evs\<rparr>)"
  | tools xs choices poll ms evs label where "input = TurnInput tools xs choices poll" "inTurns s"
      "streamAssistantResponse conf xs (lsMessages (beginTurn s)) (lsEvents (beginTurn s)) = Some (ms, evs, StreamLeaked label)"
      "s' = retryLeak label ((beginTurn s)\<lparr>lsMessages := ms, lsEvents := evs\<rparr>)"
  | tools xs choices poll ms evs m rs evs' where "input = TurnInput tools xs choices poll" "inTurns s"
      "streamAssistantResponse conf xs (lsMessages (beginTurn s)) (lsEvents (beginTurn s)) = Some (ms, evs, Streamed m)"
      "amStopReason m = StopError \<or> amStopReason m = StopAborted" "answersTurn m rs evs'"
      "s' = endRun (sendAll [TurnEnd m rs] (addMessages (map ToolResult rs) (sendAll evs' (withTurn ms evs m s))))"
  | tools xs choices poll ms evs m rs evs' steering where "input = TurnInput tools xs choices poll" "inTurns s"
      "streamAssistantResponse conf xs (lsMessages (beginTurn s)) (lsEvents (beginTurn s)) = Some (ms, evs, Streamed m)"
      "\<not> (amStopReason m = StopError \<or> amStopReason m = StopAborted)" "answersTurn m rs evs'"
      "steering = (if isRunnableStop (amStopReason m) \<and> toolCallsOf m \<noteq> [] \<and> answers choices \<noteq> [] then Some (answers choices) else None)"
      "s' = takePoll steering poll ((sendAll [TurnEnd m rs] (addMessages (map ToolResult rs) (sendAll evs' (withTurn ms evs m s))))
         \<lparr>lsMore := isRunnableStop (amStopReason m) \<and> toolCallsOf m \<noteq> []\<rparr>)"
  | poll where "input = YieldInput poll" "\<not> inTurns s" "s' = yieldStep poll s"
proof (cases input)
  case (TurnInput tools xs choices poll)
  then have turn: "inTurns s" "turnStep conf tools xs choices poll s = Some s'"
    using assms by (auto simp: loopStep_def split: if_splits)
  then obtain ms evs r where r: "streamAssistantResponse conf xs (lsMessages (beginTurn s)) (lsEvents (beginTurn s)) = Some (ms, evs, r)"
    by (auto simp: turnStep_def Let_def split: option.splits)
  show thesis
  proof (cases r)
    case (StreamFailed err)
    then show thesis using that(1) [OF TurnInput turn(1)] turn(2) r by (simp add: turnStep_def Let_def)
  next
    case (StreamLeaked label)
    then show thesis using that(2) [OF TurnInput turn(1)] turn(2) r by (simp add: turnStep_def Let_def)
  next
    case (Streamed m)
    have fin: "finishTurn conf tools choices poll m (withTurn ms evs m s) = Some s'"
      using turn(2) r Streamed by (simp add: turnStep_def Let_def withTurn_def)
    show thesis
    proof (cases "amStopReason m = StopError \<or> amStopReason m = StopAborted")
      case True
      obtain rs evs' where "placeholders (if amStopReason m = StopAborted then CauseAborted else CauseError) (amErrorMessage m) m
          (withTurn ms evs m s) = (rs, addMessages (map ToolResult rs) (sendAll evs' (withTurn ms evs m s)))" "answersTurn m rs evs'"
        by (rule placeholders_answer)
      then show thesis
        using that(3) [OF TurnInput turn(1) r [unfolded Streamed] True] fin True by (simp add: finishTurn_def stopTurn_def Let_def)
    next
      case False
      then obtain rs steering s1 where a: "answerCalls conf tools choices m (withTurn ms evs m s) = Some (rs, steering, s1)"
        "s' = takePoll steering poll ((sendAll [TurnEnd m rs] s1)\<lparr>lsMore := isRunnableStop (amStopReason m) \<and> toolCallsOf m \<noteq> []\<rparr>)"
        using fin by (auto simp: finishTurn_def split: option.splits)
      show thesis using answerCalls_answer [OF a(1)] that(4) [OF TurnInput turn(1) r [unfolded Streamed] False] a(2) by metis
    qed
  qed
next
  case (YieldInput poll)
  then show thesis using assms that(5) by (auto simp: loopStep_def split: if_splits)
qed

end
