(* ===== verification/Ag_Loop_Run.thy ===== *)
theory Ag_Loop_Run
  imports Ag_Loop_Facts Ses_Compaction_Facts
begin

text \<open>
  The runs of the agent loop: what holds at each moment of a run, and what becomes of a message that opens a turn with a leak.
\<close>

section \<open>Inputs\<close>

definition pollMessages :: "jstring + agent_message list \<Rightarrow> agent_message list" where
  "pollMessages poll = (case poll of Inl err \<Rightarrow> [] | Inr ms \<Rightarrow> ms)"

text \<open>The queues hold messages of users and hooks, no turns and no results.\<close>

definition queuesInputs :: "loop_input \<Rightarrow> bool" where
  "queuesInputs input =
     (case input of
        TurnInput tools xs choices poll \<Rightarrow> list_all isInput (answers choices) \<and> list_all isInput (pollMessages poll)
      | YieldInput poll \<Rightarrow> list_all isInput (pollMessages poll))"

definition keepsProtocol :: "loop_input \<Rightarrow> bool" where
  "keepsProtocol input = (case input of TurnInput tools xs choices poll \<Rightarrow> streamProtocol xs | YieldInput poll \<Rightarrow> True)"

text \<open>The messages that a step takes from the queues: at the end of a turn those found while its calls ran, or else those found then.\<close>

definition takenBy :: "loop_config \<Rightarrow> loop_input \<Rightarrow> loop_state \<Rightarrow> agent_message list" where
  "takenBy conf input s =
     (case input of
        YieldInput poll \<Rightarrow> pollMessages poll
      | TurnInput tools xs choices poll \<Rightarrow>
          (case streamAssistantResponse conf xs (lsMessages (beginTurn s)) (lsEvents (beginTurn s)) of
             Some (ms, evs, Streamed m) \<Rightarrow>
               if amStopReason m = StopError \<or> amStopReason m = StopAborted then []
               else if isRunnableStop (amStopReason m) \<and> toolCallsOf m \<noteq> [] \<and> answers choices \<noteq> [] then answers choices
               else pollMessages poll
           | _ \<Rightarrow> []))"

fun takenByRun :: "loop_config \<Rightarrow> loop_input list \<Rightarrow> loop_state \<Rightarrow> agent_message list" where
  "takenByRun conf [] s = []"
| "takenByRun conf (x # xs) s =
     takenBy conf x s @ (case loopStep conf x s of None \<Rightarrow> [] | Some s' \<Rightarrow> takenByRun conf xs s')"

section \<open>The parts of a state\<close>

lemma sendAll_simps [simp]:
  "lsMessages (sendAll evs s) = lsMessages s" "lsNew (sendAll evs s) = lsNew s" "lsPending (sendAll evs s) = lsPending s"
  "lsMore (sendAll evs s) = lsMore s" "lsRetries (sendAll evs s) = lsRetries s" "lsStatus (sendAll evs s) = lsStatus s"
  "lsEvents (sendAll evs s) = lsEvents s @ evs"
  by (simp_all add: sendAll_def)

lemma addMessages_simps [simp]:
  "lsMessages (addMessages ms s) = lsMessages s @ ms" "lsNew (addMessages ms s) = lsNew s @ ms"
  "lsPending (addMessages ms s) = lsPending s" "lsMore (addMessages ms s) = lsMore s" "lsRetries (addMessages ms s) = lsRetries s"
  "lsStatus (addMessages ms s) = lsStatus s" "lsEvents (addMessages ms s) = lsEvents s"
  by (simp_all add: addMessages_def)

lemma endRun_simps [simp]:
  "lsMessages (endRun s) = lsMessages s" "lsNew (endRun s) = lsNew s" "lsPending (endRun s) = lsPending s"
  "lsMore (endRun s) = lsMore s" "lsRetries (endRun s) = lsRetries s" "lsStatus (endRun s) = LoopEnded"
  "lsEvents (endRun s) = lsEvents s @ [AgentEnd (lsNew s)]"
  by (simp_all add: endRun_def)

lemma failRun_simps [simp]:
  "lsMessages (failRun err s) = lsMessages s" "lsNew (failRun err s) = lsNew s" "lsPending (failRun err s) = lsPending s"
  "lsMore (failRun err s) = lsMore s" "lsRetries (failRun err s) = lsRetries s" "lsStatus (failRun err s) = LoopFailed err"
  "lsEvents (failRun err s) = lsEvents s"
  by (simp_all add: failRun_def)

lemma withTurn_simps [simp]:
  "lsMessages (withTurn ms evs m s) = ms" "lsNew (withTurn ms evs m s) = lsNew s @ lsPending s @ [AssistantMessage m]"
  "lsPending (withTurn ms evs m s) = []" "lsRetries (withTurn ms evs m s) = 0" "lsStatus (withTurn ms evs m s) = lsStatus s"
  "lsEvents (withTurn ms evs m s) = evs"
  by (simp_all add: withTurn_def Let_def)

lemma takePoll_simps [simp]:
  "lsMessages (takePoll steering poll s) = lsMessages s" "lsNew (takePoll steering poll s) = lsNew s"
  "lsMore (takePoll steering poll s) = lsMore s" "lsRetries (takePoll steering poll s) = lsRetries s"
  "lsEvents (takePoll steering poll s) = lsEvents s"
  by (simp_all add: takePoll_def split: option.split sum.split)

lemma takePoll_pending:
  "lsPending s = [] \<Longrightarrow> lsPending (takePoll steering poll s) = (case steering of Some ms \<Rightarrow> ms | None \<Rightarrow> pollMessages poll)"
  by (simp add: takePoll_def pollMessages_def split: option.split sum.split)

lemma takePoll_status: "lsStatus s = LoopRunning \<Longrightarrow> lsStatus (takePoll steering poll s) \<noteq> LoopEnded"
  by (simp add: takePoll_def split: option.split sum.split)

lemma retryLeak_simps [simp]:
  "lsMessages (retryLeak label s) = lsMessages s" "lsNew (retryLeak label s) = lsNew s" "lsPending (retryLeak label s) = lsPending s"
  "lsMore (retryLeak label s) = lsMore s" "lsEvents (retryLeak label s) = lsEvents s"
  by (simp_all add: retryLeak_def)

lemma retryLeak_status: "lsStatus s = LoopRunning \<Longrightarrow> lsStatus (retryLeak label s) \<noteq> LoopEnded"
  by (simp add: retryLeak_def)

lemma loopStep_running: "loopStep conf input s = Some s' \<Longrightarrow> lsStatus s = LoopRunning"
  by (auto simp: loopStep_def split: if_splits)

lemma runLoop_invariant:
  assumes "runLoop conf inputs s = Some s'" and "I s"
    and "\<And>x s s'. x \<in> set inputs \<Longrightarrow> loopStep conf x s = Some s' \<Longrightarrow> I s \<Longrightarrow> I s'"
  shows "I s'"
  using assms
proof (induction inputs arbitrary: s)
  case (Cons x inputs)
  then obtain s1 where s1: "loopStep conf x s = Some s1" "runLoop conf inputs s1 = Some s'" by (auto split: option.splits)
  have "I s1" using Cons.prems(3) [OF _ s1(1) Cons.prems(2)] by simp
  then show ?case by (rule Cons.IH [OF s1(2)]) (rule Cons.prems(3); simp)
qed simp

section \<open>Turns and their results\<close>

lemma results_not_input: "filter isInput (map ToolResult rs) = []"
  by (induction rs) simp_all

lemma inputs_filter: "list_all isInput ms \<Longrightarrow> filter isInput ms = ms"
  by (induction ms) simp_all

text \<open>What a run has taken from its queues and its prompts is in the new messages, or waits for the next turn.\<close>

definition turnsInv :: "agent_message list \<Rightarrow> loop_state \<Rightarrow> bool" where
  "turnsInv taken s \<longleftrightarrow> answeredTurns (lsNew s) \<and> list_all isInput (lsPending s)
     \<and> filter isInput (lsNew s) @ lsPending s = taken \<and> (lsStatus s = LoopEnded \<longrightarrow> lsPending s = [])"

lemma answered_inputs: "answeredTurns (lsNew s) \<Longrightarrow> list_all isInput (lsPending s) \<Longrightarrow> answeredTurns (lsNew s @ lsPending s)"
  by (rule answeredTurns.inputs)

lemma answered_turn:
  assumes "answeredTurns (lsNew s)" and "list_all isInput (lsPending s)" and "answersTurn m rs evs"
  shows "answeredTurns (lsNew s @ lsPending s @ AssistantMessage m # map ToolResult rs)"
  using answeredTurns.turn [OF answered_inputs [OF assms(1,2)], of rs m] assms(3) by (simp add: answersTurn_def)

lemma turnsInv_step:
  assumes "loopStep conf x s = Some s'" and "queuesInputs x" and "turnsInv taken s"
  shows "turnsInv (taken @ takenBy conf x s) s'"
proof -
  note inv = assms(3) [unfolded turnsInv_def]
  have filters: "filter isInput (lsPending s) = lsPending s" using inv inputs_filter by blast
  show ?thesis using assms(1)
  proof (cases rule: loopStep_cases)
    case (failed tools xs choices poll ms evs err)
    then show ?thesis using inv filters answered_inputs by (auto simp: turnsInv_def takenBy_def)
  next
    case (leaked tools xs choices poll ms evs label)
    then show ?thesis using inv filters answered_inputs by (auto simp: turnsInv_def takenBy_def)
  next
    case (stopped tools xs choices poll ms evs m rs evs')
    then show ?thesis
      using inv filters answered_turn [of s m rs evs'] by (auto simp: turnsInv_def takenBy_def results_not_input)
  next
    case (answered tools xs choices poll ms evs m rs evs' steering)
    let ?s = "(sendAll [TurnEnd m rs] (addMessages (map ToolResult rs) (sendAll evs' (withTurn ms evs m s))))
      \<lparr>lsMore := isRunnableStop (amStopReason m) \<and> toolCallsOf m \<noteq> []\<rparr>"
    have "lsPending s' = takenBy conf x s"
      using answered takePoll_pending [of ?s steering poll] by (auto simp: takenBy_def)
    moreover have "list_all isInput (takenBy conf x s)" using assms(2) answered by (auto simp: takenBy_def queuesInputs_def)
    moreover have "lsStatus s' \<noteq> LoopEnded"
      using answered(7) takePoll_status [of ?s steering poll] loopStep_running [OF assms(1)] by simp
    ultimately show ?thesis
      using inv filters answered_turn [of s m rs evs'] answered(5,7) by (auto simp: turnsInv_def results_not_input)
  next
    case (yielded poll)
    then show ?thesis
      using inv assms(2) loopStep_running [OF assms(1)]
      by (auto simp: turnsInv_def takenBy_def yieldStep_def pollMessages_def queuesInputs_def inTurns_def split: sum.splits)
  qed
qed

lemma turnsInv_run:
  assumes "runLoop conf inputs s = Some s'" and "list_all queuesInputs inputs" and "turnsInv taken s"
  shows "turnsInv (taken @ takenByRun conf inputs s) s'"
  using assms
proof (induction inputs arbitrary: s taken)
  case (Cons x inputs)
  then obtain s1 where s1: "loopStep conf x s = Some s1" "runLoop conf inputs s1 = Some s'" by (auto split: option.splits)
  have "turnsInv (taken @ takenBy conf x s) s1" using turnsInv_step [OF s1(1)] Cons.prems by simp
  then show ?case using Cons.IH [OF s1(2), of "taken @ takenBy conf x s"] Cons.prems(2) s1(1) by simp
qed simp

lemma turnsInv_start:
  assumes "list_all isInput prompts" and "list_all isInput (pollMessages poll)"
  shows "turnsInv (prompts @ pollMessages poll) (startLoop messages prompts poll)"
proof -
  have "answeredTurns prompts" using answeredTurns.inputs [OF answeredTurns.none assms(1)] by simp
  then show ?thesis
    using assms inputs_filter [OF assms(1)]
    by (auto simp: turnsInv_def startLoop_def Let_def takePoll_def pollMessages_def split: sum.splits)
qed

lemma turnsInv_loop:
  assumes "agentLoop conf prompts messages poll inputs = Some s" and "list_all isInput prompts"
    and "list_all isInput (pollMessages poll)" and "list_all queuesInputs inputs"
  shows "turnsInv (prompts @ pollMessages poll @ takenByRun conf inputs (startLoop messages prompts poll)) s"
  using turnsInv_run [OF assms(1) [unfolded agentLoop_def] assms(4) turnsInv_start [OF assms(2,3)]] by simp

text \<open>C16 No queued message is lost. At every moment of a run the prompts and all the messages taken from the queues so far, in the order
  in which they were taken, are the messages of the run that are neither turns nor results, followed by those that wait for the next
  turn; when the run ends none waits.\<close>

theorem queued_messages_delivered:
  assumes "agentLoop conf prompts messages poll inputs = Some s" and "list_all isInput prompts"
    and "list_all isInput (pollMessages poll)" and "list_all queuesInputs inputs"
  shows "filter isInput (lsNew s) @ lsPending s
      = prompts @ pollMessages poll @ takenByRun conf inputs (startLoop messages prompts poll)
    \<and> (lsStatus s = LoopEnded \<longrightarrow> lsPending s = [])"
  using turnsInv_loop [OF assms] by (simp add: turnsInv_def)

section \<open>What the session sees\<close>

lemma callIds_toolCalls: "callIds (amContent m) = map tcId (toolCallsOf m)"
proof -
  have "callIds bs = map tcId (List.map_filter (\<lambda>b. case b of CallBlock c \<Rightarrow> Some c | _ \<Rightarrow> None) bs)" for bs
    by (induction bs) (simp_all add: callIds_def map_filter_simps split: content_block.split)
  then show ?thesis by (simp add: toolCallsOf_def)
qed

lemma answered_ids:
  assumes "mset (map resultTag rs) = mset (map callTag cs)"
  shows "set (map tmCallId rs) = set (map tcId cs)"
proof -
  have "set (map resultTag rs) = set (map callTag cs)" using assms by (metis set_mset_mset)
  then have "fst ` set (map resultTag rs) = fst ` set (map callTag cs)" by simp
  then show ?thesis by (simp add: image_image resultTag_def callTag_def)
qed

text \<open>In answered turns every call has its result.\<close>

lemma answeredTurns_result:
  assumes "answeredTurns ms" and "AssistantMessage m \<in> set ms" and "c \<in> set (toolCallsOf m)"
  shows "\<exists>r. ToolResult r \<in> set ms \<and> tmCallId r = tcId c"
  using assms
proof (induction rule: answeredTurns.induct)
  case (inputs ms xs)
  have "AssistantMessage m \<notin> set xs" using inputs(2) by (auto simp: list_all_iff)
  then show ?case using inputs by auto
next
  case (turn ms rs m')
  show ?case
  proof (cases "AssistantMessage m \<in> set ms")
    case False
    then have "m = m'" using turn.prems(1) by auto
    then have "tcId c \<in> set (map tmCallId rs)" using answered_ids [OF turn(2)] turn.prems(2) by simp
    then show ?thesis by auto
  qed (use turn in auto)
qed simp

lemma answeredTurns_strip:
  assumes "answeredTurns ms"
  shows "stripDangling ms = ms"
proof -
  have "normalizeTurn (pairedIds ms) m = [m]" if m: "m \<in> set ms" for m
  proof (cases m)
    case (AssistantMessage a)
    have "\<not> isDangling (pairedIds ms) b" if b: "b \<in> set (amContent a)" for b
    proof (cases b)
      case (CallBlock c)
      then have "tcId c \<in> set (callIds (amContent a))" using b by (force simp: callIds_def)
      then obtain c' where "c' \<in> set (toolCallsOf a)" "tcId c' = tcId c" by (auto simp: callIds_toolCalls)
      then have "tcId c \<in> set (pairedIds ms)"
        using answeredTurns_result [OF assms] m AssistantMessage by (metis set_pairedIds)
      then show ?thesis using CallBlock by simp
    qed simp_all
    then show ?thesis using AssistantMessage by (auto simp: normalizeTurn_def list_ex_iff)
  qed (simp_all add: normalizeTurn_def)
  then have "concat (map (normalizeTurn (pairedIds ms)) xs) = xs" if "set xs \<subseteq> set ms" for xs
    using that by (induction xs) auto
  then show ?thesis by (simp add: stripDangling_def)
qed

lemma turnsOk_results:
  assumes "map enBody es = map MessageEntry (map ToolResult rs)" and "set (map tmCallId rs) \<subseteq> set calls" and "turnsOk calls es'"
  shows "turnsOk calls (es @ es')"
  using assms
proof (induction es arbitrary: rs)
  case (Cons e es)
  then show ?case by (cases rs) auto
qed simp

lemma turnsOk_inputs:
  assumes "map enBody es = map MessageEntry xs" and "list_all isInput xs" and "\<And>calls. turnsOk calls es'"
  shows "turnsOk calls (es @ es')"
  using assms(1,2)
proof (induction es arbitrary: xs calls)
  case (Cons e es)
  then obtain x xs' where x: "xs = x # xs'" "enBody e = MessageEntry x" "isInput x" by (cases xs) auto
  then have "turnsOk calls' (es @ es')" for calls' using Cons by simp
  then show ?case using x(2,3) by (cases x) simp_all
qed (simp add: assms(3))

lemma answeredTurns_ok:
  assumes "answeredTurns ms" and "map enBody es = map MessageEntry ms" and "\<And>calls. turnsOk calls es'"
  shows "turnsOk calls (es @ es')"
  using assms
proof (induction arbitrary: es es' calls rule: answeredTurns.induct)
  case (inputs ms xs)
  obtain es1 es2 where es: "es = es1 @ es2" "map enBody es1 = map MessageEntry ms" "map enBody es2 = map MessageEntry xs"
    using inputs.prems(1) by (auto simp: map_eq_append_conv)
  have "turnsOk calls' (es2 @ es')" for calls' by (rule turnsOk_inputs [OF es(3) inputs(2) inputs.prems(2)])
  then show ?case using inputs.IH [OF es(2)] es(1) by simp
next
  case (turn ms rs m)
  obtain es1 e es2 where es: "es = es1 @ e # es2" "map enBody es1 = map MessageEntry ms"
    "enBody e = MessageEntry (AssistantMessage m)" "map enBody es2 = map MessageEntry (map ToolResult rs)"
    using turn.prems(1) by (auto simp: map_eq_append_conv map_eq_Cons_conv Cons_eq_map_conv)
  have "turnsOk (callIds (amContent m)) (es2 @ es')"
    using turnsOk_results [OF es(4) _ turn.prems(2)] answered_ids [OF turn(2)] by (simp add: callIds_toolCalls)
  then have "turnsOk calls' (e # es2 @ es')" for calls' using es(3) by simp
  then show ?case using turn.IH [OF es(2)] es(1) by simp
qed simp


section \<open>The context and the events\<close>

abbreviation endless :: "agent_event list \<Rightarrow> bool" where
  "endless \<equiv> list_all (\<lambda>e. \<not> isAgentEnd e)"

definition contextInv :: "agent_message list \<Rightarrow> loop_state \<Rightarrow> bool" where
  "contextInv messages s \<longleftrightarrow> endedMessages (lsEvents s) = lsNew s \<and> lsRetries s \<le> 2
     \<and> (case lsStatus s of
          LoopRunning \<Rightarrow> lsMessages s = messages @ lsNew s \<and> endless (lsEvents s)
            \<and> (lsRetries s = 0 \<longrightarrow> partialAfter None (lsEvents s) = None)
        | LoopEnded \<Rightarrow> lsMessages s = messages @ lsNew s \<and> (lsRetries s = 0 \<longrightarrow> partialAfter None (lsEvents s) = None)
            \<and> (\<exists>evs. lsEvents s = evs @ [AgentEnd (lsNew s)] \<and> endless evs)
        | LoopFailed err \<Rightarrow> endless (lsEvents s))"

lemma contextInv_running:
  "lsStatus s = LoopRunning \<Longrightarrow> contextInv messages s \<longleftrightarrow>
    endedMessages (lsEvents s) = lsNew s \<and> lsRetries s \<le> 2 \<and> lsMessages s = messages @ lsNew s \<and> endless (lsEvents s)
      \<and> (lsRetries s = 0 \<longrightarrow> partialAfter None (lsEvents s) = None)"
  by (auto simp: contextInv_def)

lemma contextInv_endRun:
  assumes "contextInv messages s" and "lsStatus s = LoopRunning"
  shows "contextInv messages (endRun s)"
  using assms by (simp add: contextInv_def)

lemma contextInv_takePoll:
  assumes "contextInv messages s" and "lsStatus s = LoopRunning"
  shows "contextInv messages (takePoll steering poll s)"
  using assms by (simp add: contextInv_def takePoll_def split: option.split sum.split)

lemma contextInv_more [simp]: "contextInv messages (s\<lparr>lsMore := b\<rparr>) = contextInv messages s"
  by (cases "lsStatus s") (simp_all add: contextInv_def)

lemma streamed_context:
  assumes "contextInv messages s" and "lsStatus s = LoopRunning" and "answersTurn m rs evs'" and "streamProtocol xs"
    and "streamAssistantResponse conf xs (lsMessages (beginTurn s)) (lsEvents (beginTurn s)) = Some (ms, evs, Streamed m)"
  defines "s' \<equiv> sendAll [TurnEnd m rs] (addMessages (map ToolResult rs) (sendAll evs' (withTurn ms evs m s)))"
  shows "contextInv messages s' \<and> lsStatus s' = LoopRunning"
proof -
  obtain more where more: "ms = lsMessages (beginTurn s) @ [AssistantMessage m]"
    "evs = lsEvents (beginTurn s) @ more @ [MessageEnd (AssistantMessage m)]" "list_all isProgress more"
    using streamAssistantResponse_leaves [OF assms(5,4)] by (auto simp: streamLeaves_def)
  show ?thesis
    using assms(1-3) more progress_events [OF more(3)] beginTurn_events [of s]
    by (simp add: contextInv_running s'_def answersTurn_def)
qed

lemma contextInv_step:
  assumes "loopStep conf x s = Some s'" and "keepsProtocol x" and "contextInv messages s"
  shows "contextInv messages s'"
proof -
  note running = loopStep_running [OF assms(1)]
  note inv = assms(3) [unfolded contextInv_running [OF running]]
  show ?thesis using assms(1)
  proof (cases rule: loopStep_cases)
    case (failed tools xs choices poll ms evs err)
    then obtain more where "evs = lsEvents (beginTurn s) @ more" "list_all isProgress more"
      using streamAssistantResponse_leaves [OF failed(3)] assms(2) by (auto simp: streamLeaves_def keepsProtocol_def)
    then show ?thesis
      using failed(4) inv progress_events [of more] beginTurn_events [of s] by (simp add: contextInv_def)
  next
    case (leaked tools xs choices poll ms evs label)
    then obtain more where "ms = lsMessages (beginTurn s)" "evs = lsEvents (beginTurn s) @ more" "list_all isProgress more"
      using streamAssistantResponse_leaves [OF leaked(3)] assms(2) by (auto simp: streamLeaves_def keepsProtocol_def)
    then show ?thesis
      using leaked(4) inv running progress_events [of more] beginTurn_events [of s] by (simp add: contextInv_def retryLeak_def)
  next
    case (stopped tools xs choices poll ms evs m rs evs')
    then show ?thesis
      using streamed_context [OF assms(3) running stopped(5) _ stopped(3)] assms(2) contextInv_endRun by (simp add: keepsProtocol_def)
  next
    case (answered tools xs choices poll ms evs m rs evs' steering)
    let ?s = "sendAll [TurnEnd m rs] (addMessages (map ToolResult rs) (sendAll evs' (withTurn ms evs m s)))"
    have "contextInv messages ?s \<and> lsStatus ?s = LoopRunning"
      using streamed_context [OF assms(3) running answered(5) _ answered(3)] answered(1) assms(2) by (simp add: keepsProtocol_def)
    then show ?thesis unfolding answered(7) by (intro contextInv_takePoll) simp_all
  next
    case (yielded poll)
    then show ?thesis
      using assms(3) running contextInv_endRun by (simp add: yieldStep_def contextInv_def split: sum.split)
  qed
qed

lemma partialAfter_messageEvents [simp]: "partialAfter None (messageEvents ms) = None"
  by (induction ms) (simp_all add: messageEvents_def)

lemma contextInv_loop:
  assumes "agentLoop conf prompts messages poll inputs = Some s" and "list_all keepsProtocol inputs"
  shows "contextInv messages s"
proof -
  have "contextInv messages (startLoop messages prompts poll)"
    by (simp add: startLoop_def Let_def contextInv_def takePoll_def split: sum.split)
  then show ?thesis
    using runLoop_invariant [OF assms(1) [unfolded agentLoop_def], of "contextInv messages"] contextInv_step assms(2)
    by (auto simp: list_all_iff)
qed

text \<open>C17 The run, its context and its events tell the same. For a provider that starts each message once and ends its streams, at every
  moment of a run the messages that the events report as complete are the new messages, in order; the context of a run that has not
  failed is the old one with these after it; and the end is reported once, last, with them, by the run that ends and no other.\<close>

theorem run_reports_its_messages:
  assumes "agentLoop conf prompts messages poll inputs = Some s" and "list_all keepsProtocol inputs"
  shows "endedMessages (lsEvents s) = lsNew s
    \<and> ((\<forall>err. lsStatus s \<noteq> LoopFailed err) \<longrightarrow> lsMessages s = messages @ lsNew s)
    \<and> (if lsStatus s = LoopEnded then \<exists>evs. lsEvents s = evs @ [AgentEnd (lsNew s)] \<and> list_all (\<lambda>e. \<not> isAgentEnd e) evs
       else list_all (\<lambda>e. \<not> isAgentEnd e) (lsEvents s))"
proof -
  have "contextInv messages s" by (rule contextInv_loop [OF assms])
  then show ?thesis by (auto simp: contextInv_def split: loop_status.splits)
qed

section \<open>Leaks\<close>

text \<open>A leak is not always retried. When queued messages open a turn after one that called no tool, and the message of the turn leaks, the
  loop does not ask the model again, although it has retries left: it goes on to the follow-up messages and without any it ends, with the
  queued messages unanswered.\<close>

lemma leak_ends_the_loop:
  assumes "lsStatus s = LoopRunning" and "\<not> lsMore s" and "lsPending s \<noteq> []" and "lsRetries s < 2" and "streamProtocol xs"
    and "streamAssistantResponse conf xs (lsMessages (beginTurn s)) (lsEvents (beginTurn s)) = Some (ms, evs, StreamLeaked label)"
  shows "let s1 = retryLeak label ((beginTurn s)\<lparr>lsMessages := ms, lsEvents := evs\<rparr>) in
    loopStep conf (TurnInput tools xs choices poll) s = Some s1
    \<and> (\<forall>tools xs choices poll. loopStep conf (TurnInput tools xs choices poll) s1 = None)
    \<and> loopStep conf (YieldInput (Inr [])) s1 = Some (endRun s1)
    \<and> lsNew s1 = lsNew s @ lsPending s \<and> lsMessages s1 = lsMessages s @ lsPending s \<and> lsRetries s1 \<noteq> 0"
proof -
  let ?s1 = "retryLeak label ((beginTurn s)\<lparr>lsMessages := ms, lsEvents := evs\<rparr>)"
  have ms: "ms = lsMessages (beginTurn s)" using streamAssistantResponse_leaves [OF assms(6,5)] by (simp add: streamLeaves_def)
  have "loopStep conf (TurnInput tools xs choices poll) s = Some ?s1"
    using assms by (simp add: loopStep_def inTurns_def turnStep_def Let_def)
  moreover have over: "\<not> inTurns ?s1" "lsStatus ?s1 = LoopRunning" "lsRetries ?s1 \<noteq> 0"
    using assms by (simp_all add: inTurns_def retryLeak_def)
  moreover have "loopStep conf (TurnInput tools xs choices poll) ?s1 = None" for tools xs choices poll
    using over by (simp add: loopStep_def)
  moreover have "loopStep conf (YieldInput (Inr [])) ?s1 = Some (endRun ?s1)" using over by (simp add: loopStep_def yieldStep_def)
  ultimately show ?thesis using ms by (simp add: Let_def)
qed

end
