(* ===== verification/Ag_Agent_Facts.thy ===== *)
theory Ag_Agent_Facts
  imports Ag_Agent Ag_Loop_Run
begin

text \<open>
  The agent around the loop: its messages are those of the run, the queues are first in first out, and the results of the Cursor
  provider are put where they belong. At the end small runs, among them one that loses its way after a leak.
\<close>

section \<open>Consuming the events\<close>

text \<open>Without results of the Cursor provider the agent follows the events one by one.\<close>

lemma agentEvent_plain:
  assumes "agCursor (arAgent r) = []"
  shows "agCursor (arAgent (agentEvent e r)) = []"
    and "agMessages (arAgent (agentEvent e r)) = agMessages (arAgent r) @ endedMessages [e]"
    and "arPartial (agentEvent e r) = partialStep e (arPartial r)"
    and "arSent (agentEvent e r) = arSent r @ [e]"
  using assms by (induction e r rule: agentEvent.induct)
    (simp_all add: sendOn_def messageProgress_def messageDone_def onAgent_def appendAgentMessage_def)

lemma fold_agentEvent:
  assumes "agCursor (arAgent r) = []"
  shows "agCursor (arAgent (fold agentEvent evs r)) = []
    \<and> agMessages (arAgent (fold agentEvent evs r)) = agMessages (arAgent r) @ endedMessages evs
    \<and> arPartial (fold agentEvent evs r) = partialAfter (arPartial r) evs \<and> arSent (fold agentEvent evs r) = arSent r @ evs"
  using assms
proof (induction evs arbitrary: r)
  case (Cons e evs)
  have "endedMessages (e # evs) = endedMessages [e] @ endedMessages evs" by (cases e) simp_all
  then show ?case using Cons.IH [of "agentEvent e r"] agentEvent_plain [OF Cons.prems, of e] by simp
qed simp

lemma consumeEvents_plain:
  "agMessages (arAgent (consumeEvents evs (beginAgentRun s))) = agMessages s @ endedMessages evs"
  "arPartial (consumeEvents evs (beginAgentRun s)) = partialAfter None evs"
  "arSent (consumeEvents evs (beginAgentRun s)) = evs"
  using fold_agentEvent [of "\<lparr>arPartial = None, arAgent = beginAgentRun s, arSent = []\<rparr>" evs]
  by (simp_all add: consumeEvents_def beginAgentRun_def)

lemma settleAgent_simps [simp]:
  "agMessages (settleAgent s) = agMessages s" "\<not> agStreaming (settleAgent s)" "agPendingCalls (settleAgent s) = []"
  "agStream (settleAgent s) = None" "agError (settleAgent s) = agError s"
  by (simp_all add: settleAgent_def)

lemma onAgent_simps [simp]: "arAgent (onAgent f r) = f (arAgent r)" "arSent (onAgent f r) = arSent r"
  by (simp_all add: onAgent_def)

lemma failAgent_messages:
  "agMessages (arAgent (failAgent conf err aborted r)) = agMessages (arAgent r)
     @ [AssistantMessage \<lparr>amContent = [TextBlock [] None], amProvider = lcProvider conf, amModel = lcModel conf,
          amUsage = noTokens, amStopReason = (if aborted then StopAborted else StopError), amErrorMessage = Some err\<rparr>]
   \<and> \<not> agStreaming (arAgent (failAgent conf err aborted r)) \<and> agPendingCalls (arAgent (failAgent conf err aborted r)) = []"
  by (simp add: failAgent_def Let_def sendOn_def onAgent_def appendAgentMessage_def settleAgent_def)

text \<open>C18 The agent ends with the context of its run. It starts a run with its own messages; when the run ends with a message of the model,
  the messages of the agent are the context of the run, it is idle again, and its listeners have had the events of the run; a run that
  fails leaves its complete messages and one that reports the error.\<close>

theorem agent_ends_with_context:
  fixes aborted :: bool
  assumes "agentLoop conf prompts (agMessages s) poll inputs = Some ls" and "list_all keepsProtocol inputs"
    and "lsStatus ls \<noteq> LoopRunning" and "lsRetries ls = 0 \<or> (\<exists>err. lsStatus ls = LoopFailed err)"
  defines "r \<equiv> agentRun conf aborted ls s"
  shows "\<not> agStreaming (arAgent r) \<and> agPendingCalls (arAgent r) = []
    \<and> (lsStatus ls = LoopEnded \<longrightarrow> agMessages (arAgent r) = lsMessages ls \<and> arSent r = lsEvents ls)
    \<and> (\<forall>err. lsStatus ls = LoopFailed err \<longrightarrow>
         (\<exists>m. agMessages (arAgent r) = agMessages s @ lsNew ls @ [AssistantMessage m] \<and> amErrorMessage m = Some err \<and> toolCallsOf m = []))"
proof -
  have inv: "contextInv (agMessages s) ls" by (rule contextInv_loop [OF assms(1,2)])
  show ?thesis
  proof (cases "lsStatus ls")
    case LoopEnded
    then have "partialAfter None (lsEvents ls) = None" "endedMessages (lsEvents ls) = lsNew ls" "lsMessages ls = agMessages s @ lsNew ls"
      using inv assms(4) by (auto simp: contextInv_def)
    then show ?thesis
      using LoopEnded consumeEvents_plain [of "lsEvents ls" s] by (simp add: r_def agentRun_def Let_def finishAgent_def)
  next
    case (LoopFailed err)
    then show ?thesis
      using inv failAgent_messages [of conf err aborted "consumeEvents (lsEvents ls) (beginAgentRun s)"]
        consumeEvents_plain [of "lsEvents ls" s]
      by (auto simp: r_def agentRun_def Let_def contextInv_def toolCallsOf_def map_filter_simps)
  qed (use assms(3) in simp)
qed

lemma runLoop_append:
  "runLoop conf (xs @ ys) s = (case runLoop conf xs s of None \<Rightarrow> None | Some s' \<Rightarrow> runLoop conf ys s')"
  by (induction xs arbitrary: s) (simp_all split: option.split)

text \<open>C21 A leaked message can stay. When queued messages open a turn after one that called no tool and the message of that turn leaks, the run
  ends without an answer to them, though it has retries left, and the agent keeps the leaked message that the loop had dropped.\<close>

theorem unretried_leak_is_kept:
  assumes "agentLoop conf prompts (agMessages a) poll inputs = Some s" and "list_all keepsProtocol inputs"
    and "lsStatus s = LoopRunning" and "\<not> lsMore s" and "lsPending s \<noteq> []" and "lsRetries s < 2"
    and "lcLeak conf m = Some label" and "list_ex hasSubstance (amContent p)"
  shows "\<exists>s'. agentLoop conf prompts (agMessages a) poll
        (inputs @ [TurnInput tools [StreamStart p, StreamFinal m] choices poll', YieldInput (Inr [])]) = Some s'
    \<and> lsStatus s' = LoopEnded \<and> lsNew s' = lsNew s @ lsPending s \<and> lsMessages s' = agMessages a @ lsNew s'
    \<and> agMessages (arAgent (agentRun conf aborted s' a)) = lsMessages s' @ [AssistantMessage p]"
proof -
  let ?xs = "[StreamStart p, StreamFinal m]" and ?b = "beginTurn s"
  let ?evs = "lsEvents ?b @ [MessageStart (AssistantMessage p)]"
  let ?s1 = "retryLeak label (?b\<lparr>lsMessages := lsMessages ?b, lsEvents := ?evs\<rparr>)"
  have inv: "contextInv (agMessages a) s" by (rule contextInv_loop [OF assms(1,2)])
  have leak: "streamAssistantResponse conf ?xs (lsMessages ?b) (lsEvents ?b) = Some (lsMessages ?b, ?evs, StreamLeaked label)"
    by (simp add: streamAssistantResponse_def streamInput_def streamStart_def dropPartial_def butlast_append assms(7))
  have protocol: "streamProtocol ?xs" by (simp add: streamProtocol_def)
  note ends = leak_ends_the_loop [OF assms(3-6) protocol leak, of tools choices poll', unfolded Let_def]
  have run: "agentLoop conf prompts (agMessages a) poll (inputs @ [TurnInput tools ?xs choices poll', YieldInput (Inr [])]) = Some (endRun ?s1)"
    using assms(1) ends by (simp add: agentLoop_def runLoop_append)
  have ended: "endedMessages (lsEvents (endRun ?s1)) = lsNew s @ lsPending s"
    using inv assms(3) beginTurn_events(1) [of s] by (simp add: contextInv_running)
  have "agMessages (arAgent (agentRun conf aborted (endRun ?s1) a)) = (agMessages a @ lsNew s @ lsPending s) @ [AssistantMessage p]"
    using consumeEvents_plain [of "lsEvents (endRun ?s1)" a] ended assms(8)
    by (auto simp: agentRun_def Let_def finishAgent_def appendAgentMessage_def)
  then show ?thesis using run ends inv assms(3) by (auto simp: contextInv_running)
qed

section \<open>Queues\<close>

text \<open>The queues are first in first out: what a poll returns was at the front, the rest stays, and a poll of a queue that holds something
  returns something.\<close>

lemma dequeue_front:
  "fst (dequeue all queue) @ snd (dequeue all queue) = queue" "queue \<noteq> [] \<Longrightarrow> fst (dequeue all queue) \<noteq> []"
  by (simp_all add: dequeue_def)

lemma dequeueSteering_front:
  "fst (dequeueSteeringMessages s) @ agSteering (snd (dequeueSteeringMessages s)) = agSteering s"
  "agFollowUps (snd (dequeueSteeringMessages s)) = agFollowUps s" "agMessages (snd (dequeueSteeringMessages s)) = agMessages s"
  using dequeue_front by (auto simp: dequeueSteeringMessages_def split: prod.split) (metis fst_conv snd_conv)

section \<open>Results of the Cursor provider\<close>

fun isText :: "content_block \<Rightarrow> bool" where
  "isText (TextBlock t s) = True"
| "isText b = False"

definition messageText :: "agent_message \<Rightarrow> jstring" where
  "messageText m = (case m of AssistantMessage a \<Rightarrow> textOf a | _ \<Rightarrow> [])"

lemma preamble_text:
  "textOf (preambleOf split m) = concat (replicate (length (filter isText (amContent m))) (take split (textOf m)))"
proof -
  have "concat (map textOfBlock (map (\<lambda>b. case b of TextBlock t s \<Rightarrow> TextBlock x s | b \<Rightarrow> b) bs)) = concat (replicate (length (filter isText bs)) x)"
    for bs x by (induction bs) (simp_all add: textOfBlock_def split: content_block.split)
  then show ?thesis by (simp add: preambleOf_def textOf_def)
qed

lemma results_text: "concat (map messageText (map (\<lambda>(r, n). ToolResult r) buffer)) = []"
  by (induction buffer) (auto simp: messageText_def)

lemma continuation_text:
  "concat (map messageText (case continuationOf split m of None \<Rightarrow> [] | Some c \<Rightarrow> [AssistantMessage c]))
     = (if trim (drop split (textOf m)) = [] then [] else drop split (textOf m))"
  by (simp add: continuationOf_def Let_def messageText_def) (simp add: textOf_def textOfBlock_def)

text \<open>How a turn is split around results. The results that the provider reported while the turn streamed come after it, or between its text
  before the first of them and the text after, unless that is blank; the text before is repeated for each text block of the turn, so that a
  turn with several of them has its text doubled.\<close>

theorem cursor_split_text:
  fixes m :: assistant_message
  assumes "agCursor s \<noteq> []"
  defines "s' \<equiv> fst (emitCursorSplitAssistantMessage m s)" and "split \<equiv> Min (set (map snd (agCursor s)))"
  shows "\<exists>ms. agMessages s' = agMessages s @ ms \<and> agCursor s' = []
    \<and> filter (\<lambda>x. \<not> isAssistant x) ms = map (ToolResult \<circ> fst) (agCursor s)
    \<and> concat (map messageText ms) =
        (if split = 0 \<or> length (textOf m) \<le> split then textOf m
         else concat (replicate (length (filter isText (amContent m))) (take split (textOf m)))
           @ (if trim (drop split (textOf m)) = [] then [] else drop split (textOf m)))"
proof -
  let ?ms = "splitAssistantMessage (agCursor s) m"
  have "agMessages s' = agMessages s @ ?ms" "agCursor s' = []"
    using assms(1) by (simp_all add: s'_def emitCursorSplitAssistantMessage_def Let_def)
  moreover have results: "filter (\<lambda>x. \<not> isAssistant x) (map (\<lambda>(r, n). ToolResult r) buffer) = map (ToolResult \<circ> fst) buffer" for buffer
    by (induction buffer) auto
  have "filter (\<lambda>x. \<not> isAssistant x) ?ms = map (ToolResult \<circ> fst) (agCursor s)"
    by (simp add: splitAssistantMessage_def Let_def results split: option.split)
  moreover have "concat (map messageText ?ms) =
      (if split = 0 \<or> length (textOf m) \<le> split then textOf m
       else concat (replicate (length (filter isText (amContent m))) (take split (textOf m)))
         @ (if trim (drop split (textOf m)) = [] then [] else drop split (textOf m)))"
  proof (cases "split = 0 \<or> length (textOf m) \<le> split")
    case True
    then have "?ms = AssistantMessage m # map (\<lambda>(r, n). ToolResult r) (agCursor s)"
      by (auto simp: splitAssistantMessage_def Let_def split_def)
    then show ?thesis using True results_text [of "agCursor s"] by (simp add: messageText_def [of "AssistantMessage m"])
  next
    case False
    let ?rest = "case continuationOf split m of None \<Rightarrow> [] | Some c \<Rightarrow> [AssistantMessage c]"
    have "?ms = AssistantMessage (preambleOf split m) # map (\<lambda>(r, n). ToolResult r) (agCursor s) @ ?rest"
      using False unfolding split_def by (auto simp: splitAssistantMessage_def Let_def)
    then have "concat (map messageText ?ms) = textOf (preambleOf split m) @ concat (map messageText ?rest)"
      using results_text [of "agCursor s"] by (simp add: messageText_def [of "AssistantMessage (preambleOf split m)"])
    then show ?thesis unfolding preamble_text continuation_text using False by simp
  qed
  ultimately show ?thesis by blast
qed

section \<open>Small runs\<close>

text \<open>A message with an error text that is empty leaks.\<close>

definition demoConfig :: loop_config where
  "demoConfig =
     \<lparr>lcProvider = [], lcModel = [], lcLeak = (\<lambda>m. if amErrorMessage m = Some [] then Some [] else None),
      lcMaxToolCalls = None, lcInterrupts = True, lcIntentTracing = False, lcUsage = demoUsage\<rparr>"

definition demoTurn :: "content_block list \<Rightarrow> stop_reason \<Rightarrow> jstring option \<Rightarrow> assistant_message" where
  "demoTurn blocks stop err =
     \<lparr>amContent = blocks, amProvider = [], amModel = [], amUsage = noTokens, amStopReason = stop, amErrorMessage = err\<rparr>"

definition askMessage :: agent_message where
  "askMessage = UserMessage (StringContent [])"

definition stopMessage :: agent_message where
  "stopMessage = UserMessage (StringContent (js ''stop''))"

text \<open>A turn with two calls, interrupted by the user, the answer, and the end.\<close>

definition demoInputs :: "loop_input list" where
  "demoInputs =
     [TurnInput demoTools [StreamStart (demoTurn [] StopDone None), StreamFinal (demoTurn (map CallBlock demoCalls) StopToolUse None)]
        [StartCall 0 (\<lambda>args. None), FinishCall 0 demoHooks, SteeringAnswer [stopMessage], StartCall 1 (\<lambda>args. None)] (Inr []),
      TurnInput demoTools [StreamFinal (demoTurn [] StopDone None)] [] (Inr []),
      YieldInput (Inr [])]"

abbreviation demoLoop :: "loop_input list \<Rightarrow> loop_state option" where
  "demoLoop inputs \<equiv> agentLoop demoConfig [askMessage] [] (Inr []) inputs"

lemma demoInputs_queues: "list_all queuesInputs demoInputs"
  by (simp add: demoInputs_def queuesInputs_def pollMessages_def stopMessage_def)

lemma demoInputs_protocol: "list_all keepsProtocol demoInputs"
  by (simp add: demoInputs_def keepsProtocol_def streamProtocol_def)

lemma demoLoop_ends: "map_option (\<lambda>s. (lsStatus s, lsRetries s)) (demoLoop demoInputs) = Some (LoopEnded, 0)"
  by code_simp

lemma demoLoop_Some:
  obtains s where "demoLoop demoInputs = Some s" "lsStatus s = LoopEnded" "lsRetries s = 0"
  using demoLoop_ends by auto

lemma askMessage_inputs: "list_all isInput [askMessage]" "list_all isInput (pollMessages (Inr []))"
  by (simp_all add: askMessage_def pollMessages_def)

lemma queued_messages_delivered_witness:
  "\<exists>s. demoLoop demoInputs = Some s
     \<and> filter isInput (lsNew s) = [askMessage] @ takenByRun demoConfig demoInputs (startLoop [] [askMessage] (Inr []))"
proof -
  obtain s where s: "demoLoop demoInputs = Some s" "lsStatus s = LoopEnded" by (rule demoLoop_Some)
  show ?thesis using queued_messages_delivered [OF s(1) askMessage_inputs demoInputs_queues] s by (auto simp: pollMessages_def)
qed


lemma run_reports_its_messages_witness: "\<exists>s. demoLoop demoInputs = Some s \<and> lsMessages s = lsNew s \<and> endedMessages (lsEvents s) = lsNew s"
proof -
  obtain s where s: "demoLoop demoInputs = Some s" "lsStatus s = LoopEnded" by (rule demoLoop_Some)
  show ?thesis using run_reports_its_messages [OF s(1) demoInputs_protocol] s by simp
qed

definition demoAgent :: agent_state where
  "demoAgent = \<lparr>agMessages = [], agStreaming = False, agStream = None, agPendingCalls = [], agError = None, agSteering = [],
     agFollowUps = [], agSteerAll = False, agFollowAll = False, agCursor = []\<rparr>"

lemma agent_ends_with_context_witness:
  "\<exists>s. demoLoop demoInputs = Some s \<and> agMessages (arAgent (agentRun demoConfig False s demoAgent)) = lsMessages s"
proof -
  obtain s where s: "demoLoop demoInputs = Some s" "lsStatus s = LoopEnded" "lsRetries s = 0" by (rule demoLoop_Some)
  have start: "agentLoop demoConfig [askMessage] (agMessages demoAgent) (Inr []) demoInputs = Some s" using s(1) by (simp add: demoAgent_def)
  show ?thesis using agent_ends_with_context [OF start demoInputs_protocol, of False] s by auto
qed

text \<open>A turn without calls, after which a queued message waits.\<close>

definition waitingInputs :: "loop_input list" where
  "waitingInputs = [TurnInput [] [StreamFinal (demoTurn [] StopDone None)] [] (Inr [stopMessage])]"

lemma unretried_leak_is_kept_witness:
  "\<exists>s. demoLoop (waitingInputs @ [TurnInput [] [StreamStart (demoTurn [CallBlock (hd demoCalls)] StopDone None),
        StreamFinal (demoTurn [] StopDone (Some []))] [] (Inr []), YieldInput (Inr [])]) = Some s
     \<and> agMessages (arAgent (agentRun demoConfig False s demoAgent)) \<noteq> lsMessages s"
proof -
  let ?p = "demoTurn [CallBlock (hd demoCalls)] StopDone None"
  have "map_option (\<lambda>s. (lsStatus s, lsMore s, lsPending s, lsRetries s)) (demoLoop waitingInputs) = Some (LoopRunning, False, [stopMessage], 0)"
    by code_simp
  then obtain s where s: "demoLoop waitingInputs = Some s" "lsStatus s = LoopRunning" "\<not> lsMore s" "lsPending s = [stopMessage]" "lsRetries s = 0"
    by auto
  have start: "agentLoop demoConfig [askMessage] (agMessages demoAgent) (Inr []) waitingInputs = Some s"
    using s(1) by (simp add: demoAgent_def)
  have protocol: "list_all keepsProtocol waitingInputs" by (simp add: waitingInputs_def keepsProtocol_def streamProtocol_def)
  have leak: "lcLeak demoConfig (demoTurn [] StopDone (Some [])) = Some []" by (simp add: demoConfig_def demoTurn_def)
  have "trim (tcName (hd demoCalls)) \<noteq> []" by (simp add: demoCalls_def trim_def trimStart_def trimEnd_def isJsSpace_def)
  then have substance: "list_ex hasSubstance (amContent ?p)" by (simp add: demoTurn_def)
  show ?thesis
    using unretried_leak_is_kept [OF start protocol s(2,3) _ _ leak substance, of "[]" "[]" "Inr []" False] s(4,5)
    by (auto simp: demoAgent_def)
qed

text \<open>Two text blocks around a result: the text of the first part comes twice.\<close>

lemma cursor_split_text_witness:
  "\<exists>s m ms. agMessages (fst (emitCursorSplitAssistantMessage m s)) = ms \<and> textOf m = [97, 98, 99]
     \<and> concat (map messageText ms) = [97, 98, 97, 98, 99]"
proof -
  let ?r = "\<lparr>tmCallId = [], tmToolName = [], tmContent = [], tmUsage = None, tmIsError = False, tmPrunedAt = None\<rparr>"
  let ?s = "demoAgent\<lparr>agCursor := [(?r, 2)]\<rparr>" and ?m = "demoTurn [TextBlock [97] None, TextBlock [98, 99] None] StopDone None"
  have "textOf ?m = [97, 98, 99]" by (simp add: demoTurn_def textOf_def textOfBlock_def)
  moreover have "trim [99] \<noteq> []" by (simp add: trim_def trimStart_def trimEnd_def isJsSpace_def)
  moreover have "length (filter isText (amContent ?m)) = 2" by (simp add: demoTurn_def)
  ultimately show ?thesis using cursor_split_text [of ?s ?m] by (auto simp: demoAgent_def numeral_2_eq_2)
qed

end
