(* ===== verification/Ag_Session_Facts.thy ===== *)
theory Ag_Session_Facts
  imports Ag_Session Ag_Agent_Facts
begin

text \<open>
  What a session records of the runs of its agent: every complete message once, below the leaf, and in the order of the run when the
  handlers of the events go on in order; the session then resumes with the messages that the agent has.
\<close>

section \<open>Recording\<close>

definition storedCustom :: "custom_message \<Rightarrow> custom_message" where
  "storedCustom c = c\<lparr>cmDetails := stripInternalDetailsFields (cmDetails c),
     cmAttribution := (case cmAttribution c of Some a \<Rightarrow> Some a | None \<Rightarrow> Some (js ''agent''))\<rparr>"

text \<open>The body of the entry for a message; messages of other kinds are recorded elsewhere.\<close>

fun recordedBody :: "agent_message \<Rightarrow> entry_body option" where
  "recordedBody (HookMessage c t) = Some (CustomMessageEntry (storedCustom c))"
| "recordedBody (CustomMessage c t) = Some (CustomMessageEntry (storedCustom c))"
| "recordedBody (UserMessage c) = Some (MessageEntry (UserMessage c))"
| "recordedBody (DeveloperMessage c) = Some (MessageEntry (DeveloperMessage c))"
| "recordedBody (AssistantMessage m) = Some (MessageEntry (AssistantMessage m))"
| "recordedBody (ToolResult r) = Some (MessageEntry (ToolResult r))"
| "recordedBody (FileMention fs) = Some (MessageEntry (FileMention fs))"
| "recordedBody m = None"

definition recordedBodies :: "agent_message list \<Rightarrow> entry_body list" where
  "recordedBodies ms = List.map_filter recordedBody ms"

lemma recordedBodies_simps [simp]:
  "recordedBodies [] = []" "recordedBodies (ms @ ms') = recordedBodies ms @ recordedBodies ms'"
  "recordedBodies (m # ms) = (case recordedBody m of None \<Rightarrow> [] | Some b \<Rightarrow> [b]) @ recordedBodies ms"
  by (simp_all add: recordedBodies_def map_filter_def split: option.split)

lemma persistMessage_body:
  "persistMessage src now m sm = (case recordedBody m of None \<Rightarrow> sm | Some b \<Rightarrow> snd (appendBody src now b sm))"
  by (cases m) (simp_all add: persistMessage_def appendCustomMessageEntry_def appendSessionMessage_def storedCustom_def)

lemma recordedBody_label: "recordedBody m = Some b \<Longrightarrow> \<not> isLabelBody b"
  by (cases m) auto

definition atLeaf :: "session_manager \<Rightarrow> session_entry list \<Rightarrow> bool" where
  "atLeaf sm path \<longleftrightarrow> managerOk sm \<and> getBranch None sm = Some path"

lemma append_atLeaf:
  assumes "atLeaf sm path" and "freshSource src sm" and "\<not> isLabelBody b"
  shows "\<exists>e. enBody e = b \<and> atLeaf (snd (appendBody src now b sm)) (path @ [e])"
proof -
  let ?sm = "snd (appendBody src now b sm)" and ?e = "childEntry src now b sm"
  have ok: "managerOk sm" and branch: "getBranch None sm = Some path" using assms(1) by (simp_all add: atLeaf_def)
  have new: "generateId src (usedIds sm) \<notin> set (usedIds sm)" "generateId src (usedIds sm) \<noteq> []" using assms(2) by (simp_all add: freshSource_def)
  note adds = appendBody_adds [OF assms(3), of sm src now]
  have ok': "managerOk ?sm" by (rule managerOk_adds [OF ok adds new])
  have "getEntries ?sm = getEntries sm @ [?e]" by (simp add: appendBody_def appendEntry_def getEntries_def Let_def)
  then obtain p where p: "case smLeaf sm of None \<Rightarrow> p = [] | Some j \<Rightarrow> getBranch (Some j) sm = Some p" "getBranch None ?sm = Some (p @ [?e])"
    using branch_of_child [OF ok ok' adds new(1)] by fastforce
  have "p = path" using p(1) branch getBranch_leaf [of sm] by (cases "smLeaf sm") auto
  then show ?thesis using p(2) ok' by (intro exI [of _ ?e]) (simp add: atLeaf_def childEntry_def)
qed

lemma persist_atLeaf:
  assumes "atLeaf sm path" and "freshSource src sm"
  shows "\<exists>es. atLeaf (persistMessage src now m sm) (path @ es) \<and> map enBody es = recordedBodies [m]"
proof (cases "recordedBody m")
  case None
  then show ?thesis using assms(1) by (intro exI [of _ "[]"]) (simp add: persistMessage_body)
next
  case (Some b)
  then obtain e where "enBody e = b" "atLeaf (snd (appendBody src now b sm)) (path @ [e])"
    using append_atLeaf [OF assms recordedBody_label [OF Some]] by blast
  then show ?thesis using Some by (intro exI [of _ "[e]"]) (simp add: persistMessage_body)
qed

section \<open>Schedules of the handlers\<close>

definition received :: "session_step list \<Rightarrow> agent_event list" where
  "received xs = List.map_filter (\<lambda>x. case x of Receive ev \<Rightarrow> Some ev | _ \<Rightarrow> None) xs"

definition inOrder :: "session_step list \<Rightarrow> bool" where
  "inOrder xs \<longleftrightarrow> list_all (\<lambda>x. case x of Receive ev \<Rightarrow> True | Proceed i src now \<Rightarrow> i = 0) xs"

text \<open>The identifiers drawn for the entries are new.\<close>

fun freshSteps :: "session_step list \<Rightarrow> agent_session \<Rightarrow> bool" where
  "freshSteps [] s \<longleftrightarrow> True"
| "freshSteps (x # xs) s \<longleftrightarrow>
     (case x of Receive ev \<Rightarrow> True | Proceed i src now \<Rightarrow> freshSource src (asManager s))
     \<and> (case sessionStep x s of None \<Rightarrow> True | Some s' \<Rightarrow> freshSteps xs s')"

lemma received_simps [simp]:
  "received [] = []" "received (Receive ev # xs) = ev # received xs" "received (Proceed i src now # xs) = received xs"
  by (simp_all add: received_def map_filter_def)

lemma inOrder_simps [simp]:
  "inOrder []" "inOrder (Receive ev # xs) = inOrder xs" "inOrder (Proceed i src now # xs) = (i = 0 \<and> inOrder xs)"
  by (simp_all add: inOrder_def)

lemma showDelivered_other [simp]:
  "asUnrecorded (showDelivered m s) = asUnrecorded s" "asManager (showDelivered m s) = asManager s" "asAgent (showDelivered m s) = asAgent s"
  by (simp_all add: showDelivered_def takeOff_def Let_def split: agent_message.split)

lemma receiveEvent_other:
  "asManager (receiveEvent ev s) = asManager s" "asUnrecorded (receiveEvent ev s) = asUnrecorded s @ endedMessages [ev]"
  by (simp_all add: receiveEvent_def split: agent_event.split)

lemma mset_recorded: "i < length ms \<Longrightarrow> mset (recordedBodies ms)
  = mset (recordedBodies [ms ! i]) + mset (recordedBodies (take i ms @ drop (Suc i) ms))"
  by (subst id_take_nth_drop [of i ms]) simp_all

text \<open>However the handlers go on, every complete message becomes one entry of the branch of the leaf.\<close>

lemma runSession_records:
  assumes "runSession xs s = Some s'" and "freshSteps xs s" and "atLeaf (asManager s) path"
  shows "\<exists>es. atLeaf (asManager s') (path @ es)
    \<and> mset (map enBody es @ recordedBodies (asUnrecorded s')) = mset (recordedBodies (asUnrecorded s @ endedMessages (received xs)))
    \<and> (inOrder xs \<longrightarrow> map enBody es @ recordedBodies (asUnrecorded s') = recordedBodies (asUnrecorded s @ endedMessages (received xs)))"
  using assms
proof (induction xs arbitrary: s path)
  case Nil
  then show ?case by (intro exI [of _ "[]"]) simp
next
  case (Cons x xs)
  obtain s1 where s1: "sessionStep x s = Some s1" "runSession xs s1 = Some s'" using Cons.prems(1) by (auto split: option.splits)
  have fresh: "freshSteps xs s1" using Cons.prems(2) s1(1) by simp
  show ?case
  proof (cases x)
    case (Receive ev)
    then have "s1 = receiveEvent ev s" using s1(1) by simp
    moreover have "endedMessages (received (x # xs)) = endedMessages [ev] @ endedMessages (received xs)"
      using Receive by (simp add: endedMessages_def map_filter_def)
    ultimately show ?thesis
      using Cons.IH [OF s1(2) fresh, of path] Cons.prems(3) Receive receiveEvent_other [of ev s] by simp
  next
    case (Proceed i src now)
    let ?ms = "asUnrecorded s" and ?sm = "asManager s"
    have i: "i < length ?ms" and s1': "s1 = recordNext i src now s" using s1(1) Proceed by (auto split: if_splits)
    obtain es1 where es1: "atLeaf (persistMessage src now (?ms ! i) ?sm) (path @ es1)" "map enBody es1 = recordedBodies [?ms ! i]"
      using persist_atLeaf [OF Cons.prems(3), of src now "?ms ! i"] Cons.prems(2) Proceed by auto
    have leaf: "atLeaf (asManager s1) (path @ es1)" and rest: "asUnrecorded s1 = take i ?ms @ drop (Suc i) ?ms"
      using es1(1) s1' by (simp_all add: recordNext_def)
    obtain es2 where es2: "atLeaf (asManager s') ((path @ es1) @ es2)"
      "mset (map enBody es2 @ recordedBodies (asUnrecorded s')) = mset (recordedBodies (asUnrecorded s1 @ endedMessages (received xs)))"
      "inOrder xs \<longrightarrow> map enBody es2 @ recordedBodies (asUnrecorded s') = recordedBodies (asUnrecorded s1 @ endedMessages (received xs))"
      using Cons.IH [OF s1(2) fresh leaf] by blast
    have "i = 0 \<Longrightarrow> recordedBodies [?ms ! i] @ recordedBodies (asUnrecorded s1) = recordedBodies ?ms"
      using i rest by (cases ?ms) simp_all
    then show ?thesis
      using es2 es1(2) mset_recorded [OF i] rest Proceed by (intro exI [of _ "es1 @ es2"]) (auto simp: ac_simps)
  qed
qed

section \<open>The context of a branch\<close>

definition leafMessages :: "session_entry list \<Rightarrow> agent_message list" where
  "leafMessages path = contextMessages path (csCompaction (fold settingsStep path initialSettings))"

lemma pathContext_branch: "sxMessages (pathContext path) = stripDangling (leafMessages path)"
  by (simp add: pathContext_def contextOf_def leafMessages_def Let_def)

lemma settingsStep_compaction:
  "csCompaction (settingsStep e s) = (case enBody e of Compaction c \<Rightarrow> Some (e, c) | _ \<Rightarrow> csCompaction s)"
  by (simp add: settingsStep_def Let_def split: entry_body.split agent_message.split)

lemma compaction_on_path:
  assumes "csCompaction (fold settingsStep path s) = Some (e, c)"
  shows "csCompaction s = Some (e, c) \<or> (e \<in> set path \<and> enBody e = Compaction c)"
  using assms
proof (induction path arbitrary: s)
  case (Cons x path)
  then show ?case using Cons.IH [of "settingsStep x s"] settingsStep_compaction [of x s] by (auto split: entry_body.splits)
qed simp

text \<open>What is appended without a compaction adds its messages to those of the branch.\<close>

lemma leafMessages_append:
  assumes "\<forall>e \<in> set es. \<not> isCompaction (enBody e)"
  shows "leafMessages (path @ es) = leafMessages path @ concat (map entryMessages es)"
proof -
  have "csCompaction (fold settingsStep es s) = csCompaction s" for s
    using assms by (induction es arbitrary: s) (auto simp: settingsStep_compaction split: entry_body.split)
  then have same: "csCompaction (fold settingsStep (path @ es) initialSettings) = csCompaction (fold settingsStep path initialSettings)" by simp
  show ?thesis
  proof (cases "csCompaction (fold settingsStep path initialSettings)")
    case None
    then show ?thesis by (simp only: leafMessages_def same contextMessages_def) simp
  next
    case (Some ec)
    obtain e c where ec: "ec = (e, c)" by force
    have on: "e \<in> set path \<and> isCompaction (enBody e) \<and> enId e = enId e"
      using compaction_on_path [of path initialSettings e c] Some ec by (auto simp: initialSettings_def)
    then have "afterCompaction (enId e) (path @ es) = afterCompaction (enId e) path @ es"
      "beforeCompaction (enId e) (path @ es) = beforeCompaction (enId e) path"
      by (auto simp: afterCompaction_def beforeCompaction_def dropWhile_append1 takeWhile_append1 tl_append split: list.split)
    then show ?thesis by (simp only: leafMessages_def same contextMessages_def Some ec) simp
  qed
qed

text \<open>Nothing is stripped exactly when each call has a result.\<close>

definition answeredCalls :: "agent_message list \<Rightarrow> bool" where
  "answeredCalls ms \<longleftrightarrow> (\<forall>m \<in> set ms. set (messageCalls m) \<subseteq> set (pairedIds ms))"

lemma dangling_calls: "list_ex (isDangling paired) blocks \<longleftrightarrow> \<not> set (callIds blocks) \<subseteq> set paired"
proof (induction blocks)
  case (Cons b blocks)
  then show ?case by (cases b) (auto simp: callIds_def)
qed (simp add: callIds_def)

lemma normalizeTurn_same: "normalizeTurn paired m = [m] \<longleftrightarrow> set (messageCalls m) \<subseteq> set paired"
proof (cases m)
  case (AssistantMessage a)
  have "a\<lparr>amContent := normalizedContent paired (amContent a)\<rparr> \<noteq> a" if dangling: "list_ex (isDangling paired) (amContent a)"
  proof
    assume "a\<lparr>amContent := normalizedContent paired (amContent a)\<rparr> = a"
    then have "length (normalizedContent paired (amContent a)) = length (amContent a)"
      by (metis assistant_message.select_convs(1) assistant_message.surjective assistant_message.update_convs(1))
    moreover obtain b where "b \<in> set (amContent a)" "isDangling paired b" using dangling by (auto simp: list_ex_iff)
    then have "length (filter (\<lambda>b. \<not> isDangling paired b \<and> \<not> isRedacted b) (amContent a)) < length (amContent a)"
      by (intro length_filter_less [of b]) simp_all
    ultimately show False by (simp add: normalizedContent_def)
  qed
  then show ?thesis using AssistantMessage dangling_calls [of paired "amContent a"]
    by (auto simp: normalizeTurn_def messageCalls_def Let_def)
qed (simp_all add: normalizeTurn_def messageCalls_def)

lemma strip_answered: "stripDangling ms = ms \<longleftrightarrow> answeredCalls ms"
proof
  assume strip: "stripDangling ms = ms"
  have short: "length (normalizeTurn paired m) \<le> 1" for paired m by (simp add: normalizeTurn_def Let_def split: agent_message.split)
  have "concat (map (normalizeTurn paired) xs) = xs \<Longrightarrow> m \<in> set xs \<Longrightarrow> normalizeTurn paired m = [m]" for paired xs m
  proof (induction xs)
    case (Cons x xs)
    have "length (concat (map (normalizeTurn paired) xs)) \<le> length xs"
      using short by (induction xs) (simp_all add: add_mono [where a = "length _" and b = 1, simplified])
    then have "length (normalizeTurn paired x) = 1" using Cons.prems(1) short [of paired x] by (cases "normalizeTurn paired x") auto
    then show ?case using Cons by (auto simp: length_Suc_conv)
  qed simp
  then show "answeredCalls ms" using strip by (simp add: answeredCalls_def stripDangling_def normalizeTurn_same [symmetric])
next
  assume "answeredCalls ms"
  then have "m \<in> set ms \<Longrightarrow> normalizeTurn (pairedIds ms) m = [m]" for m by (simp add: answeredCalls_def normalizeTurn_same)
  then have "set xs \<subseteq> set ms \<Longrightarrow> concat (map (normalizeTurn (pairedIds ms)) xs) = xs" for xs by (induction xs) auto
  then show "stripDangling ms = ms" by (simp add: stripDangling_def)
qed

lemma answeredCalls_append: "answeredCalls ms \<Longrightarrow> answeredCalls ms' \<Longrightarrow> answeredCalls (ms @ ms')"
proof -
  have "set (pairedIds (ms @ ms')) = set (pairedIds ms) \<union> set (pairedIds ms')" by (simp add: pairedIds_def)
  then show "answeredCalls ms \<Longrightarrow> answeredCalls ms' \<Longrightarrow> answeredCalls (ms @ ms')" by (auto simp: answeredCalls_def)
qed

section \<open>Resuming\<close>

text \<open>Messages that come back from the session as they were.\<close>

fun recordedAsIs :: "agent_message \<Rightarrow> bool" where
  "recordedAsIs (UserMessage c) = True"
| "recordedAsIs (DeveloperMessage c) = True"
| "recordedAsIs (AssistantMessage m) = True"
| "recordedAsIs (ToolResult r) = True"
| "recordedAsIs (FileMention fs) = True"
| "recordedAsIs m = False"

lemma recordedAsIs_bodies: "list_all recordedAsIs ms \<Longrightarrow> recordedBodies ms = map MessageEntry ms"
proof (induction ms)
  case (Cons m ms)
  then show ?case by (cases m) simp_all
qed simp

lemma entries_messages: "map enBody es = map MessageEntry ms \<Longrightarrow> concat (map entryMessages es) = ms"
proof (induction ms arbitrary: es)
  case (Cons m ms)
  then show ?case by (cases es) (simp_all add: entryMessages_def)
qed simp

lemma not_compaction: "map enBody es = map MessageEntry ms \<Longrightarrow> \<forall>e \<in> set es. \<not> isCompaction (enBody e)"
  by (induction ms arbitrary: es) (auto simp: Cons_eq_map_conv map_eq_Cons_conv)

text \<open>A run that ended without a leak leaves the agent with its context.\<close>

lemma agentRun_ended:
  assumes "contextInv (agMessages a) ls" and "lsStatus ls = LoopEnded" and "lsRetries ls = 0"
  shows "agMessages (arAgent (agentRun conf aborted ls a)) = agMessages a @ lsNew ls" and "arSent (agentRun conf aborted ls a) = lsEvents ls"
proof -
  have "partialAfter None (lsEvents ls) = None" "endedMessages (lsEvents ls) = lsNew ls" using assms by (auto simp: contextInv_def)
  then show "agMessages (arAgent (agentRun conf aborted ls a)) = agMessages a @ lsNew ls" "arSent (agentRun conf aborted ls a) = lsEvents ls"
    using assms(2) consumeEvents_plain [of "lsEvents ls" a] by (simp_all add: agentRun_def Let_def finishAgent_def)
qed

lemma atLeaf_context:
  assumes "atLeaf sm path" and "path \<noteq> []"
  shows "map_option sxMessages (managerContext sm) = Some (stripDangling (leafMessages path))"
  using assms managerContext_branch [of sm path] by (auto simp: atLeaf_def pathContext_branch)


text \<open>Handlers need not go on in order: with an extension that takes longer over the turn than over the result of its call, the session
  has the result before the call.\<close>

lemma result_recorded_before_call:
  assumes "atLeaf (asManager s) path" and "asUnrecorded s = [AssistantMessage m, ToolResult r]"
    and "freshSteps [Proceed 1 src now, Proceed 0 src' now'] s"
  shows "\<exists>s' e e'. runSession [Proceed 1 src now, Proceed 0 src' now'] s = Some s' \<and> asUnrecorded s' = []
    \<and> getBranch None (asManager s') = Some (path @ [e, e']) \<and> enBody e = MessageEntry (ToolResult r)
    \<and> enBody e' = MessageEntry (AssistantMessage m) \<and> \<not> turnsOk [] [e, e']"
proof -
  let ?s1 = "recordNext 1 src now s" and ?s2 = "recordNext 0 src' now' (recordNext 1 src now s)"
  have s1: "asUnrecorded ?s1 = [AssistantMessage m]" "asManager ?s1 = persistMessage src now (ToolResult r) (asManager s)"
    "asManager ?s2 = persistMessage src' now' (AssistantMessage m) (asManager ?s1)" "asUnrecorded ?s2 = []"
    using assms(2) by (simp_all add: recordNext_def)
  have fresh: "freshSource src (asManager s)" "freshSource src' (asManager ?s1)" using assms(2,3) by simp_all
  obtain es where es: "atLeaf (asManager ?s1) (path @ es)" "map enBody es = [MessageEntry (ToolResult r)]"
    using persist_atLeaf [OF assms(1) fresh(1), of now "ToolResult r"] s1(2) by auto
  obtain es' where es': "atLeaf (asManager ?s2) ((path @ es) @ es')" "map enBody es' = [MessageEntry (AssistantMessage m)]"
    using persist_atLeaf [OF es(1) fresh(2), of now' "AssistantMessage m"] s1(3) by auto
  have "runSession [Proceed 1 src now, Proceed 0 src' now'] s = Some ?s2" using assms(2) s1(1) by simp
  then show ?thesis using es es' s1(4) by (auto simp: atLeaf_def map_eq_Cons_conv)
qed

section \<open>A small session\<close>

definition demoSteps :: "agent_event list \<Rightarrow> session_step list" where
  "demoSteps evs = map Receive evs
     @ map (\<lambda>i. Proceed 0 (oneId i) 0) [''a'', ''b'', ''c'', ''d'', ''e'', ''f'']"

definition idleSession :: agent_session where
  "idleSession = \<lparr>asSteering = [], asFollowUp = [], asNextTurn = [], asInFlight = 0, asAgent = demoAgent, asUnrecorded = [],
     asManager = demoStart\<rparr>"

lemma received_demo: "received (demoSteps evs) = evs"
  by (induction evs) (simp_all add: demoSteps_def)

lemma demo_recorded:
  "map_option (\<lambda>ls. freshSteps (demoSteps (lsEvents ls)) idleSession \<and> list_all recordedAsIs (lsNew ls) \<and> lsNew ls \<noteq> []
     \<and> map_option asUnrecorded (runSession (demoSteps (lsEvents ls)) idleSession) = Some []) (demoLoop demoInputs) = Some True"
  by code_simp


end
