(* ===== verification/Ag_Session_Queues.thy ===== *)
theory Ag_Session_Queues
  imports Ag_Session
begin

text \<open>
  The queues that the user sees tell what waits: under every sequence of queueing, delivery, clearing and taking back, the shown
  entries stand for the messages that the agent has not begun, one each, in order.
\<close>

section \<open>Operations on the queues\<close>

text \<open>A custom message is queued with its entry. The messages that the agent has taken and not begun wait with a mark for the queue
  they come from.\<close>

datatype queue_op =
    QueueSteer jstring "content_block list"
  | QueueFollowUp bool jstring "content_block list"
  | QueueCustom jstring jstring bool custom_message id_source int
  | TakeSteering
  | TakeFollowUps
  | BeginMessage
  | ClearQueues
  | PopQueued

type_synonym queue_state = "agent_session \<times> (bool \<times> agent_message) list"

fun queueOp :: "queue_op \<Rightarrow> queue_state \<Rightarrow> queue_state" where
  "queueOp (QueueSteer t images) (s, fl) = (queueSteer t images s, fl)"
| "queueOp (QueueFollowUp retrying t images) (s, fl) = (snd (queueFollowUp retrying t images s), fl)"
| "queueOp (QueueCustom tag t steers c src now) (s, fl) =
     (snd (sendCustomMessage src now False (Some (if steers then DeliverSteer else DeliverFollowUp)) False c
        (enqueueCustomMessageDisplay tag t steers s)), fl)"
| "queueOp TakeSteering (s, fl) =
     (let (ms, a) = dequeueSteeringMessages (asAgent s) in (s\<lparr>asAgent := a\<rparr>, fl @ map (Pair True) ms))"
| "queueOp TakeFollowUps (s, fl) =
     (let (ms, a) = dequeueFollowUpMessages (asAgent s) in (s\<lparr>asAgent := a\<rparr>, fl @ map (Pair False) ms))"
| "queueOp BeginMessage (s, fl) = (case fl of [] \<Rightarrow> (s, fl) | (b, m) # fl' \<Rightarrow> (receiveEvent (MessageStart m) s, fl'))"
| "queueOp ClearQueues (s, fl) = (snd (clearQueue s), fl)"
| "queueOp PopQueued (s, fl) = (snd (popLastQueuedMessage s), fl)"

definition textsOf :: "queue_entry list \<Rightarrow> jstring set" where
  "textsOf es = qeText ` set es"

definition tagsOf :: "queue_entry list \<Rightarrow> jstring set" where
  "tagsOf es = set (List.map_filter qeTag es)"

lemma tagsOf_iff: "t \<in> tagsOf es \<longleftrightarrow> (\<exists>e \<in> set es. qeTag e = Some t)"
  by (force simp: tagsOf_def map_filter_def)

text \<open>What is queued has a text, one that the other queue does not show; a custom message is queued while the agent works and carries its
  tag. Nothing is cleared or taken back while messages that were taken have not begun.\<close>

fun admissible :: "queue_op \<Rightarrow> queue_state \<Rightarrow> bool" where
  "admissible (QueueSteer t images) (s, fl) \<longleftrightarrow>
     list_all isImageBlock images \<and> displayText t images \<noteq> [] \<and> displayText t images \<notin> textsOf (asFollowUp s)"
| "admissible (QueueFollowUp retrying t images) (s, fl) \<longleftrightarrow>
     list_all isImageBlock images \<and> displayText t images \<noteq> [] \<and> displayText t images \<notin> textsOf (asSteering s)"
| "admissible (QueueCustom tag t steers c src now) (s, fl) \<longleftrightarrow>
     sessionStreaming s \<and> trim t \<noteq> [] \<and> tag \<noteq> [] \<and> readPendingDisplayTag (cmDetails c) = Some tag
     \<and> (let other = (if steers then asFollowUp s else asSteering s) in trim t \<notin> textsOf other \<and> tag \<notin> tagsOf other)"
| "admissible ClearQueues (s, fl) \<longleftrightarrow> fl = []"
| "admissible PopQueued (s, fl) \<longleftrightarrow> fl = []"
| "admissible _ _ \<longleftrightarrow> True"

fun queueRun :: "queue_op list \<Rightarrow> queue_state \<Rightarrow> queue_state option" where
  "queueRun [] st = Some st"
| "queueRun (x # xs) st = (if admissible x st then queueRun xs (queueOp x st) else None)"

section \<open>What an entry stands for\<close>

definition shownFor :: "queue_entry \<Rightarrow> agent_message \<Rightarrow> bool" where
  "shownFor e m \<longleftrightarrow>
     (case m of
        UserMessage c \<Rightarrow> qeTag e = None \<and> qeText e = getUserMessageText m \<and> qeText e \<noteq> []
      | CustomMessage c t \<Rightarrow> qeTag e = readPendingDisplayTag (cmDetails c) \<and> truthy (qeTag e)
      | _ \<Rightarrow> False)"

definition fromQueue :: "bool \<Rightarrow> (bool \<times> agent_message) list \<Rightarrow> agent_message list" where
  "fromQueue b fl = map snd (filter (\<lambda>x. fst x = b) fl)"

fun inSync :: "queue_state \<Rightarrow> bool" where
  "inSync (s, fl) \<longleftrightarrow>
     list_all2 shownFor (asSteering s) (fromQueue True fl @ agSteering (asAgent s))
     \<and> list_all2 shownFor (asFollowUp s) (fromQueue False fl @ agFollowUps (asAgent s))
     \<and> textsOf (asSteering s) \<inter> textsOf (asFollowUp s) = {} \<and> tagsOf (asSteering s) \<inter> tagsOf (asFollowUp s) = {}"

lemma fromQueue_simps [simp]:
  "fromQueue b [] = []" "fromQueue b (fl @ fl') = fromQueue b fl @ fromQueue b fl'"
  "fromQueue b ((b', m) # fl) = (if b' = b then m # fromQueue b fl else fromQueue b fl)"
  "fromQueue b (map (Pair b') ms) = (if b' = b then ms else [])"
  by (simp_all add: fromQueue_def filter_map o_def)

lemma queue_sets [simp]:
  "textsOf [] = {}" "tagsOf [] = {}" "textsOf (e # es) = insert (qeText e) (textsOf es)"
  "tagsOf (e # es) = (case qeTag e of None \<Rightarrow> {} | Some t \<Rightarrow> {t}) \<union> tagsOf es"
  "textsOf (es @ es') = textsOf es \<union> textsOf es'" "tagsOf (es @ es') = tagsOf es \<union> tagsOf es'"
  by (auto simp: textsOf_def tagsOf_iff split: option.split)

lemma queue_sets_butlast: "textsOf (butlast es) \<subseteq> textsOf es" "tagsOf (butlast es) \<subseteq> tagsOf es"
  by (auto simp: textsOf_def tagsOf_iff dest: in_set_butlastD) (blast dest: in_set_butlastD)

lemma shown_prompt:
  assumes "list_all isImageBlock images" and "displayText t images \<noteq> []"
  shows "shownFor \<lparr>qeText = displayText t images, qeTag = None\<rparr> (queuedPrompt t images)"
proof -
  have "concat (map (\<lambda>b. case b of TextBlock t g \<Rightarrow> t | _ \<Rightarrow> []) images) = []"
    using assms(1) by (induction images) (auto simp: isImageBlock_def split: content_block.splits)
  moreover have "images \<noteq> [] \<Longrightarrow> list_ex isImageBlock images" using assms(1) by (cases images) simp_all
  ultimately show ?thesis
    using assms(2) by (auto simp: shownFor_def queuedPrompt_def getUserMessageText_def displayText_def Let_def isImageBlock_def imageText_def)
qed

lemma dequeue_parts: "dequeue all ms = (ms', rest) \<Longrightarrow> ms = ms' @ rest"
  by (cases ms) (auto simp: dequeue_def split: if_splits)

text \<open>The message that begins takes its own entry off.\<close>

lemma begin_steering:
  assumes "shownFor e m" and "asSteering s = e # es"
  shows "showDelivered m s = s\<lparr>asSteering := es\<rparr>"
  using assms by (auto simp: showDelivered_def shownFor_def takeOff_def spliceFirst_def Let_def split: agent_message.splits)

lemma begin_followUp:
  assumes "shownFor e m" and "asFollowUp s = e # es"
    and "textsOf (asSteering s) \<inter> textsOf (asFollowUp s) = {}" and "tagsOf (asSteering s) \<inter> tagsOf (asFollowUp s) = {}"
  shows "showDelivered m s = s\<lparr>asFollowUp := es\<rparr>"
proof -
  have "\<not> list_ex (\<lambda>x. qeText x = qeText e) (asSteering s)" using assms(2,3) by (auto simp: list_ex_iff textsOf_def image_iff)
  moreover have "truthy (qeTag e) \<Longrightarrow> \<not> list_ex (\<lambda>x. qeTag x = qeTag e) (asSteering s)"
    using assms(2,4) by (cases "qeTag e") (auto simp: list_ex_iff tagsOf_iff truthy_def disjoint_iff)
  ultimately show ?thesis
    using assms(1,2) by (auto simp: showDelivered_def shownFor_def takeOff_def spliceFirst_def Let_def split: agent_message.splits)
qed

lemma list_all2_butlast: "list_all2 P xs ys \<Longrightarrow> list_all2 P (butlast xs) (butlast ys)"
proof (induction rule: list_all2_induct)
  case (Cons x xs y ys)
  then show ?case by (auto dest: list_all2_lengthD)
qed simp

lemma custom_shown:
  assumes "readPendingDisplayTag (cmDetails c) = Some tag" and "tag \<noteq> []"
  shows "shownFor \<lparr>qeText = t, qeTag = Some tag\<rparr> (CustomMessage (c\<lparr>cmAttribution := a\<rparr>) now)"
  using assms by (simp add: shownFor_def truthy_def)

lemma inSync_begin:
  assumes "inSync (s, (b, m) # fl)"
  shows "inSync (receiveEvent (MessageStart m) s, fl)"
proof (cases b)
  case True
  then obtain e es where "asSteering s = e # es" "shownFor e m" using assms by (auto simp: list_all2_Cons2)
  then show ?thesis using assms True begin_steering [of e m s es] by (auto simp: receiveEvent_def)
next
  case False
  then obtain e es where "asFollowUp s = e # es" "shownFor e m" using assms by (auto simp: list_all2_Cons2)
  then show ?thesis using assms False begin_followUp [of e m s es] by (auto simp: receiveEvent_def)
qed

lemma inSync_pop:
  assumes "inSync (s, [])"
  shows "inSync (snd (popLastQueuedMessage s), [])"
  using assms queue_sets_butlast [of "asSteering s"] queue_sets_butlast [of "asFollowUp s"]
  by (auto simp: popLastQueuedMessage_def popLastSteer_def popLastFollowUp_def list_all2_butlast)

lemma inSync_step:
  assumes "inSync (s, fl)" and "admissible x (s, fl)"
  shows "inSync (queueOp x (s, fl))"
proof (cases x)
  case (QueueSteer t images)
  then show ?thesis using assms shown_prompt [of images t]
    by (auto simp: queueSteer_def steer_def list_all2_appendI simp flip: append_assoc)
next
  case (QueueFollowUp retrying t images)
  then show ?thesis using assms shown_prompt [of images t]
    by (auto simp: queueFollowUp_def followUp_def Let_def list_all2_appendI simp flip: append_assoc)
next
  case (QueueCustom tag t steers c src now)
  then show ?thesis using assms custom_shown [of c tag "trim t"]
    by (cases steers) (auto simp: sendCustomMessage_def enqueueCustomMessageDisplay_def sessionStreaming_def steer_def followUp_def Let_def
      list_all2_appendI simp flip: append_assoc)
next
  case TakeSteering
  obtain ms rest where "dequeue (agSteerAll (asAgent s)) (agSteering (asAgent s)) = (ms, rest)" by force
  then show ?thesis using assms TakeSteering dequeue_parts [of _ "agSteering (asAgent s)" ms rest] by (simp add: dequeueSteeringMessages_def)
next
  case TakeFollowUps
  obtain ms rest where "dequeue (agFollowAll (asAgent s)) (agFollowUps (asAgent s)) = (ms, rest)" by force
  then show ?thesis using assms TakeFollowUps dequeue_parts [of _ "agFollowUps (asAgent s)" ms rest] by (simp add: dequeueFollowUpMessages_def)
next
  case BeginMessage
  then show ?thesis using assms inSync_begin by (cases fl) (auto simp del: inSync.simps)
next
  case ClearQueues
  then show ?thesis using assms by (simp add: clearQueue_def clearAllQueues_def)
next
  case PopQueued
  then show ?thesis using assms inSync_pop by (simp del: inSync.simps)
qed

lemma inSync_run: "queueRun xs st = Some st' \<Longrightarrow> inSync st \<Longrightarrow> inSync st'"
proof (induction xs arbitrary: st)
  case (Cons x xs)
  then show ?case using inSync_step [of "fst st" "snd st" x] by (auto split: if_splits)
qed simp


text \<open>Taking back the last message can take another. While the agent works, a custom message of an extension that is queued to steer
  it has no entry among the shown messages; the user who then takes the last shown message back gets its text, but the message that
  leaves the queue of the agent is the custom one, and the one that the user took back is delivered all the same.\<close>

theorem pop_takes_hidden_message:
  assumes "sessionStreaming s" and "asSteering s \<noteq> []"
  shows "let s1 = snd (sendCustomMessage src now defers None triggers c s); (t, s2) = popLastQueuedMessage s1 in
    t = Some (qeText (last (asSteering s))) \<and> asSteering s2 = butlast (asSteering s) \<and> agSteering (asAgent s2) = agSteering (asAgent s)
    \<and> getQueuedMessages s1 = getQueuedMessages s"
  using assms by (simp add: sendCustomMessage_def popLastQueuedMessage_def steer_def popLastSteer_def getQueuedMessages_def Let_def)

section \<open>A small session\<close>

text \<open>Two prompts that steer and one that follows up, the first of them delivered; a custom message with a tag.\<close>

definition taggedMessage :: custom_message where
  "taggedMessage = \<lparr>cmType = [], cmContent = StringContent [], cmDisplay = False,
     cmDetails = JObj [(js ''__pendingDisplayTag'', JStr [116])], cmAttribution = None\<rparr>"

definition busyAgent :: agent_state where
  "busyAgent = \<lparr>agMessages = [], agStreaming = True, agStream = None, agPendingCalls = [], agError = None, agSteering = [],
     agFollowUps = [], agSteerAll = False, agFollowAll = False, agCursor = []\<rparr>"

definition busySession :: agent_session where
  "busySession = \<lparr>asSteering = [], asFollowUp = [], asNextTurn = [], asInFlight = 1, asAgent = busyAgent, asUnrecorded = [],
     asManager = demoStart\<rparr>"

definition demoQueueOps :: "queue_op list" where
  "demoQueueOps = [QueueSteer [97] [], QueueSteer [98] [], QueueFollowUp False [99] [], TakeSteering, BeginMessage]"

lemma demo_queues:
  "(case queueRun demoQueueOps (busySession, []) of
      None \<Rightarrow> False
    | Some (s, fl) \<Rightarrow> fl = [] \<and> map qeText (asSteering s) = [[98]] \<and> length (agSteering (asAgent s)) = 1)"
  by code_simp


lemma pop_takes_hidden_message_witness:
  "\<exists>s. agSteering (asAgent s) \<noteq> [] \<and> (let s1 = snd (sendCustomMessage (oneId ''i'') 0 False None False taggedMessage s) in
     agSteering (asAgent (snd (popLastQueuedMessage s1))) = agSteering (asAgent s))"
proof -
  let ?s = "queueSteer [97] [] busySession"
  have "sessionStreaming ?s" "asSteering ?s \<noteq> []" "agSteering (asAgent ?s) \<noteq> []"
    by (simp_all add: sessionStreaming_def queueSteer_def busySession_def steer_def)
  then show ?thesis
    using pop_takes_hidden_message [of ?s "oneId ''i''" 0 False False taggedMessage] by (auto simp: Let_def case_prod_beta)
qed

end
